(* ===== verification/Router_Prelude.thy ===== *)
theory Router_Prelude
  imports Main "HOL-Library.Word"
begin

text \<open>
  Shared vocabulary of the development: the fixed-width integer types of the C code, interface
  pointers, the operating-system services the kernel modules call (memory allocation as an
  explicit, possibly failing, resource), and the generic list lemmas about "the first node
  that satisfies a test", the shape of every intrusive-list search of the sources.
\<close>

unbundle bit_operations_syntax

section \<open>Types\<close>

type_synonym u8 = "8 word"
type_synonym u16 = "16 word"
type_synonym u32 = "32 word"

text \<open>An interface pointer (a \<open>struct net_device *\<close>); 0 is \<open>NULL\<close>.\<close>
type_synonym ifp = nat

text \<open>A node address; 0 is \<open>NULL\<close>.\<close>
type_synonym addr = nat

abbreviation SUCCESS :: int where "SUCCESS \<equiv> 0"
abbreviation FAILURE :: int where "FAILURE \<equiv> - 1"

named_theorems count_simps
  \<open>how the operations of a component change the reference counts it keeps\<close>
named_theorems wf_intros
  \<open>preservation of the well-formedness predicates\<close>

section \<open>Memory allocation\<close>

text \<open>
  \<open>MALLOC\<close> may fail at any call. The handle holds the number of calls made so far and,
  as an arbitrary function, which calls succeed. A successful call returns an address
  that was never returned before.
\<close>

record osl =
  mem_seq :: nat
  mem_ok :: "nat \<Rightarrow> bool"

definition MALLOC :: "osl \<Rightarrow> osl \<times> addr" where
  "MALLOC os = (os\<lparr>mem_seq := Suc (mem_seq os)\<rparr>,
     if mem_ok os (mem_seq os) then Suc (mem_seq os) else 0)"

definition mem_reliable :: "osl \<Rightarrow> bool" where
  "mem_reliable os \<longleftrightarrow> (\<forall>k. mem_ok os k)"

lemma MALLOC_cases:
  assumes "MALLOC os = (os', p)"
  obtains (fail) "p = 0" "\<not> mem_ok os (mem_seq os)"
      "os' = os\<lparr>mem_seq := Suc (mem_seq os)\<rparr>"
  | (ok) "p = Suc (mem_seq os)" "mem_ok os (mem_seq os)"
      "os' = os\<lparr>mem_seq := Suc (mem_seq os)\<rparr>"
  using assms by (auto simp: MALLOC_def split: if_splits)

lemma MALLOC_D:
  "MALLOC os = (os', p) \<Longrightarrow> mem_ok os' = mem_ok os"
  "MALLOC os = (os', p) \<Longrightarrow> mem_seq os' = Suc (mem_seq os)"
  "MALLOC os = (os', p) \<Longrightarrow> p = 0 \<Longrightarrow> \<not> mem_reliable os"
  "MALLOC os = (os', p) \<Longrightarrow> p \<noteq> 0 \<Longrightarrow> p = Suc (mem_seq os)"
  by (auto simp: MALLOC_def mem_reliable_def split: if_splits)

lemma MALLOC_seq [simp]: "mem_seq (fst (MALLOC os)) = Suc (mem_seq os)"
  by (simp add: MALLOC_def)

lemma MALLOC_reliable [simp]:
  "mem_reliable os \<Longrightarrow> mem_reliable (fst (MALLOC os))"
  "mem_reliable os \<Longrightarrow> snd (MALLOC os) = Suc (mem_seq os)"
  by (auto simp: MALLOC_def mem_reliable_def)

section \<open>Word arithmetic\<close>

lemma unat_dec: "0 < unat (w :: 'a::len word) \<Longrightarrow> unat (w - 1) = unat w - 1"
  by (metis less_not_refl unat_0 unat_minus_one)

lemma unat_of_nat32: "n < 2 ^ 32 \<Longrightarrow> unat (of_nat n :: u32) = n"
  by (simp add: unat_of_nat take_bit_nat_eq_self)

lemma unat_lt32: "unat (c :: u32) < 2 ^ 32"
  by (rule order_less_le_trans [OF unsigned_less]) simp

lemma unat_add_le: "unat a + unat b \<le> unat (c :: u32) \<Longrightarrow> unat (a + b :: u32) = unat a + unat b"
  using unat_lt32 [of c] by (simp add: unat_word_ariths)

section \<open>The first node that satisfies a test\<close>

fun upd_first :: "('a \<Rightarrow> bool) \<Rightarrow> ('a \<Rightarrow> 'a) \<Rightarrow> 'a list \<Rightarrow> 'a list" where
  "upd_first P f [] = []"
| "upd_first P f (x # xs) = (if P x then f x # xs else x # upd_first P f xs)"

fun del_first :: "('a \<Rightarrow> bool) \<Rightarrow> 'a list \<Rightarrow> 'a list" where
  "del_first P [] = []"
| "del_first P (x # xs) = (if P x then xs else x # del_first P xs)"

lemma set_del_first_subset: "set (del_first P xs) \<subseteq> set xs"
  by (induction xs) auto

lemma set_upd_first_subset:
  "set (upd_first P f xs) \<subseteq> set xs \<union> f ` {x \<in> set xs. P x}"
  by (induction xs) auto

lemma length_upd_first [simp]: "length (upd_first P f xs) = length xs"
  by (induction xs) auto

lemma upd_first_Nil_iff [simp]: "upd_first P f xs = [] \<longleftrightarrow> xs = []"
  by (cases xs) auto

lemma map_upd_first_inv: "(\<And>x. g (f x) = g x) \<Longrightarrow> map g (upd_first P f xs) = map g xs"
  by (induction xs) auto

lemma find_upd_first_same:
  "(\<And>x. P x \<Longrightarrow> P (f x)) \<Longrightarrow> List.find P (upd_first P f xs) = map_option f (List.find P xs)"
  by (induction xs) auto

lemma find_upd_first_other:
  "(\<And>x. P x \<Longrightarrow> \<not> Q x \<and> \<not> Q (f x)) \<Longrightarrow> List.find Q (upd_first P f xs) = List.find Q xs"
  by (induction xs) auto

lemma find_del_first_other:
  "(\<And>x. P x \<Longrightarrow> \<not> Q x) \<Longrightarrow> List.find Q (del_first P xs) = List.find Q xs"
  by (induction xs) auto

lemma find_None_notin: "List.find P xs = None \<longleftrightarrow> (\<forall>x\<in>set xs. \<not> P x)"
  by (induction xs) auto

lemma find_SomeD: "List.find P xs = Some x \<Longrightarrow> P x \<and> x \<in> set xs"
  by (induction xs) (auto split: if_splits)

lemma distinct_map_del_first: "distinct (map g xs) \<Longrightarrow> distinct (map g (del_first P xs))"
  by (induction xs) (use set_del_first_subset in fastforce)+

lemma find_del_first_key:
  "distinct (map g xs) \<Longrightarrow> List.find (\<lambda>x. g x = k) (del_first (\<lambda>x. g x = k) xs) = None"
  by (induction xs) (auto simp: find_None_notin image_iff)

lemma find_key_unique:
  "distinct (map g xs) \<Longrightarrow> x \<in> set xs \<Longrightarrow> g x = k \<Longrightarrow> List.find (\<lambda>y. g y = k) xs = Some x"
  by (induction xs) auto

lemma del_first_filter:
  "distinct (map g xs) \<Longrightarrow> del_first (\<lambda>x. g x = k) xs = filter (\<lambda>x. g x \<noteq> k) xs"
proof (induction xs)
  case Nil
  then show ?case by simp
next
  case (Cons x xs)
  have "g x = k \<Longrightarrow> filter (\<lambda>x. g x \<noteq> k) xs = xs"
    using Cons.prems by (auto intro!: filter_True simp: image_iff)
  with Cons show ?case by auto
qed

lemma find_cong_set: "(\<And>x. x \<in> set xs \<Longrightarrow> P x = Q x) \<Longrightarrow> List.find P xs = List.find Q xs"
  by (induction xs) auto

lemma find_filter_other:
  "(\<And>x. x \<in> set xs \<Longrightarrow> P x \<Longrightarrow> Q x) \<Longrightarrow> List.find P (filter Q xs) = List.find P xs"
  by (induction xs) auto

lemma find_map_same:
  "(\<And>x. x \<in> set xs \<Longrightarrow> P (f x) = P x) \<Longrightarrow> List.find P (map f xs) = map_option f (List.find P xs)"
  by (induction xs) auto

lemma length_filter_remove:
  assumes "distinct (map f xs)" "x \<in> set xs" "f x = a"
  shows "length (filter P (filter (\<lambda>y. f y \<noteq> a) xs)) = length (filter P xs) - (if P x then 1 else 0)"
    "P x \<Longrightarrow> 0 < length (filter P xs)"
proof -
  have "length (filter P xs) = length (filter P (filter (\<lambda>y. f y \<noteq> a) xs)) + (if P x then 1 else 0)"
    using assms
  proof (induction xs)
    case Nil
    then show ?case by simp
  next
    case (Cons y ys)
    show ?case
    proof (cases "f y = a")
      case True
      with Cons.prems have y: "y = x" "a \<notin> f ` set ys" by (auto simp: image_iff)
      then have "filter (\<lambda>y. f y \<noteq> a) ys = ys" by (auto intro!: filter_True simp: image_iff)
      with True y show ?thesis by simp
    next
      case False
      with Cons show ?thesis by auto
    qed
  qed
  then show "length (filter P (filter (\<lambda>y. f y \<noteq> a) xs)) = length (filter P xs) - (if P x then 1 else 0)"
    "P x \<Longrightarrow> 0 < length (filter P xs)" by (auto split: if_splits)
qed

end
