(* ===== verification/Hash_Chain.thy ===== *)
theory Hash_Chain
  imports Router_Prelude
begin

text \<open>
  The chained hash table that the multicast forwarding database, the IGMP snooping database
  and the NVRAM store all use: an array of list heads, a node is in the chain of the hash
  of its key. The laws every operation keeps are stated once, in the locale \<open>hash_chain\<close>;
  each component interprets it on its own node type, key and hash function.
\<close>

type_synonym 'n chains = "nat \<Rightarrow> 'n list"

section \<open>Operations\<close>

definition ht_add_head :: "'n chains \<Rightarrow> nat \<Rightarrow> 'n \<Rightarrow> 'n chains" where
  "ht_add_head t h n = t(h := n # t h)"

text \<open>Write to, or unlink, the nodes that satisfy a test (the node a pointer denotes).\<close>

definition ht_update :: "'n chains \<Rightarrow> ('n \<Rightarrow> bool) \<Rightarrow> ('n \<Rightarrow> 'n) \<Rightarrow> 'n chains" where
  "ht_update t P f = (\<lambda>h. map (\<lambda>n. if P n then f n else n) (t h))"

definition ht_delete :: "'n chains \<Rightarrow> ('n \<Rightarrow> bool) \<Rightarrow> 'n chains" where
  "ht_delete t P = (\<lambda>h. filter (\<lambda>n. \<not> P n) (t h))"

text \<open>All nodes, in the order the table walks visit them.\<close>

definition ht_nodes :: "nat \<Rightarrow> 'n chains \<Rightarrow> 'n list" where
  "ht_nodes sz t = concat (map t [0..<sz])"

lemma set_ht_nodes: "set (ht_nodes sz t) = (\<Union>h\<in>{..<sz}. set (t h))"
  by (auto simp: ht_nodes_def)

lemma ht_nodesI: "n \<in> set (t h) \<Longrightarrow> h < sz \<Longrightarrow> n \<in> set (ht_nodes sz t)"
  by (auto simp: set_ht_nodes)

lemma ht_nodes_cong: "(\<And>h. h < sz \<Longrightarrow> t h = t' h) \<Longrightarrow> ht_nodes sz t = ht_nodes sz t'"
  by (auto simp: ht_nodes_def intro!: arg_cong [where f = concat])

lemma ht_nodes_delete: "ht_nodes sz (ht_delete t P) = filter (\<lambda>n. \<not> P n) (ht_nodes sz t)"
  by (simp add: ht_nodes_def ht_delete_def filter_concat comp_def)

lemma ht_nodes_update:
  "ht_nodes sz (ht_update t P f) = map (\<lambda>n. if P n then f n else n) (ht_nodes sz t)"
  by (simp add: ht_nodes_def ht_update_def map_concat comp_def)

lemma set_ht_nodes_add_head:
  "h < sz \<Longrightarrow> set (ht_nodes sz (ht_add_head t h n)) = insert n (set (ht_nodes sz t))"
  by (auto simp: set_ht_nodes ht_add_head_def split: if_splits)

section \<open>The laws\<close>

locale hash_chain =
  fixes key :: "'n \<Rightarrow> 'k" and hash :: "'k \<Rightarrow> nat" and sz :: nat
  assumes hash_bound: "hash k < sz"
begin

text \<open>Every node is in the chain of its key's hash; a key occurs once.\<close>

definition wf :: "'n chains \<Rightarrow> bool" where
  "wf t \<longleftrightarrow> (\<forall>h < sz. distinct (map key (t h)) \<and> (\<forall>n\<in>set (t h). hash (key n) = h))"

definition lookup :: "'n chains \<Rightarrow> 'k \<Rightarrow> 'n option" where
  "lookup t k = List.find (\<lambda>n. key n = k) (t (hash k))"

lemma lookup_Some_iff:
  assumes "wf t"
  shows "lookup t k = Some n \<longleftrightarrow> n \<in> set (ht_nodes sz t) \<and> key n = k"
proof
  assume "lookup t k = Some n"
  then have "key n = k" "n \<in> set (t (hash k))"
    by (auto simp: lookup_def dest: find_SomeD)
  then show "n \<in> set (ht_nodes sz t) \<and> key n = k"
    using hash_bound by (auto intro: ht_nodesI)
next
  assume n: "n \<in> set (ht_nodes sz t) \<and> key n = k"
  then obtain h where h: "h < sz" "n \<in> set (t h)" by (auto simp: set_ht_nodes)
  with assms n have "hash k = h" "distinct (map key (t h))" by (auto simp: wf_def)
  with h n show "lookup t k = Some n" by (auto simp: lookup_def intro: find_key_unique)
qed

lemma lookup_None_iff:
  assumes "wf t"
  shows "lookup t k = None \<longleftrightarrow> (\<forall>n\<in>set (ht_nodes sz t). key n \<noteq> k)"
  using lookup_Some_iff [OF assms, of k] by (cases "lookup t k") auto

lemma lookup_add_head:
  "h = hash (key n) \<Longrightarrow> lookup (ht_add_head t h n) = (lookup t)(key n \<mapsto> n)"
  by (auto simp: lookup_def ht_add_head_def fun_eq_iff)

lemma wf_add_head:
  assumes "wf t" "lookup t (key n) = None" "h = hash (key n)"
  shows "wf (ht_add_head t h n)"
proof -
  have "key n \<notin> key ` set (t h)"
    using assms(2,3) by (force simp: lookup_def find_None_notin)
  then show ?thesis
    using assms(1,3) hash_bound [of "key n"] by (auto simp: wf_def ht_add_head_def)
qed

lemma wf_delete: "wf t \<Longrightarrow> wf (ht_delete t P)"
  by (auto simp: wf_def ht_delete_def intro: distinct_map_filter)

lemma lookup_delete:
  assumes "wf t" "\<And>n. n \<in> set (ht_nodes sz t) \<Longrightarrow> P n \<longleftrightarrow> key n = k"
  shows "lookup (ht_delete t P) = (lookup t)(k := None)"
proof
  fix k'
  have *: "n \<in> set (t (hash k')) \<Longrightarrow> P n \<longleftrightarrow> key n = k" for n
    using assms(2) hash_bound by (auto intro: ht_nodesI)
  show "lookup (ht_delete t P) k' = ((lookup t)(k := None)) k'"
  proof (cases "k' = k")
    case True
    then show ?thesis
      using * by (auto simp: lookup_def ht_delete_def find_None_notin)
  next
    case False
    then show ?thesis
      using * by (auto simp: lookup_def ht_delete_def intro!: find_filter_other)
  qed
qed

lemma wf_update: "wf t \<Longrightarrow> (\<And>n. key (f n) = key n) \<Longrightarrow> wf (ht_update t P f)"
  by (auto simp: wf_def ht_update_def comp_def if_distrib cong: if_cong)

lemma lookup_update:
  assumes "wf t" "\<And>n. key (f n) = key n"
    "\<And>n. n \<in> set (ht_nodes sz t) \<Longrightarrow> P n \<longleftrightarrow> key n = k"
  shows "lookup (ht_update t P f) = (lookup t)(k := map_option f (lookup t k))"
proof
  fix k'
  let ?u = "\<lambda>n. if P n then f n else n"
  have *: "n \<in> set (t (hash k')) \<Longrightarrow> P n \<longleftrightarrow> key n = k" for n
    using assms(3) hash_bound by (auto intro: ht_nodesI)
  have "lookup (ht_update t P f) k' = map_option ?u (lookup t k')"
    unfolding lookup_def ht_update_def by (rule find_map_same) (simp add: assms(2))
  also have "\<dots> = ((lookup t)(k := map_option f (lookup t k))) k'"
  proof (cases "lookup t k'")
    case None
    then show ?thesis by auto
  next
    case (Some n)
    then have "key n = k'" "P n \<longleftrightarrow> key n = k"
      using * by (auto simp: lookup_def dest: find_SomeD)
    with Some show ?thesis by auto
  qed
  finally show "lookup (ht_update t P f) k' = ((lookup t)(k := map_option f (lookup t k))) k'" .
qed

lemma wf_empty: "(\<And>h. h < sz \<Longrightarrow> t h = []) \<Longrightarrow> wf t"
  by (simp add: wf_def)

lemma lookup_empty: "(\<And>h. h < sz \<Longrightarrow> t h = []) \<Longrightarrow> lookup t k = None"
  by (simp add: lookup_def hash_bound)

text \<open>In a well-formed table a search of all nodes agrees with the search of one chain.\<close>

lemma find_nodes_lookup:
  assumes "wf t"
  shows "List.find (\<lambda>n. key n = k) (ht_nodes sz t) = lookup t k"
proof (cases "List.find (\<lambda>n. key n = k) (ht_nodes sz t)")
  case None
  then have "lookup t k = None"
    unfolding lookup_None_iff [OF assms] find_None_notin .
  with None show ?thesis by simp
next
  case (Some n)
  then show ?thesis using lookup_Some_iff [OF assms, of k n] by (auto dest: find_SomeD)
qed

lemma distinct_nodes_key:
  assumes "wf t"
  shows "distinct (map key (ht_nodes sz t))"
proof -
  have "distinct (map key (concat (map t [0..<n])))" if "n \<le> sz" for n
    using that
  proof (induction n)
    case (Suc n)
    have hash: "hash (key x) = h" if "x \<in> set (t h)" "h \<le> n" for x h
      using assms Suc.prems that by (simp add: wf_def)
    have "key x \<noteq> key y" if "x \<in> set (t h)" "h < n" "y \<in> set (t n)" for x y h
      using hash [OF that(1)] hash [OF that(3)] that(2) by auto
    then have "key ` set (concat (map t [0..<n])) \<inter> key ` set (t n) = {}" by fastforce
    then show ?case using Suc assms by (simp add: wf_def)
  qed simp
  then show ?thesis by (simp add: ht_nodes_def)
qed

lemma nodes_key_inj:
  "wf t \<Longrightarrow> n \<in> set (ht_nodes sz t) \<Longrightarrow> m \<in> set (ht_nodes sz t) \<Longrightarrow> key n = key m \<Longrightarrow> n = m"
  using lookup_Some_iff by (metis option.inject)

end

end
