(* ===== verification/Emf_Data.thy ===== *)
theory Emf_Data
  imports Hash_Chain
begin

text \<open>
  The data of the efficient multicast forwarding layer (emfc.h, emf_cfg.h): the forwarding
  database (MFDB) of groups and their member interfaces, the list of interfaces that have
  members, the list of router and unregistered-frame ports, the counters, and the record
  of one forwarding instance. A group is named by its address where the code keeps a pointer
  to it (the one-entry lookup cache); a pointer to the per-interface data \<open>emfc_mhif_t\<close> is
  the interface itself, \<open>None\<close> when it is \<open>NULL\<close>.
\<close>

section \<open>Addresses and hashing\<close>

definition IP_ISMULTI :: "u32 \<Rightarrow> bool" where
  "IP_ISMULTI a \<longleftrightarrow> a AND 0xf0000000 = 0xe0000000"

definition MCAST_ADDR_LINKLOCAL :: "u32 \<Rightarrow> bool" where
  "MCAST_ADDR_LINKLOCAL a \<longleftrightarrow> a AND 0xffffff00 = 0xe0000000"

definition MFDB_HASHT_SIZE :: nat where
  "MFDB_HASHT_SIZE = 8"

definition MFDB_MGRP_HASH :: "u32 \<Rightarrow> nat" where
  "MFDB_MGRP_HASH m = unat ((drop_bit 24 m + drop_bit 16 m + drop_bit 8 m + (m AND 0xff)) AND 7)"

definition IP_PROT_IGMP :: u8 where "IP_PROT_IGMP = 2"

lemma word_and_7: "unat ((w :: u32) AND 7) < 8"
proof -
  have "w AND 7 \<le> 7" by (rule word_and_le1)
  then have "unat (w AND 7) \<le> unat (7 :: u32)" unfolding word_le_nat_alt .
  then show ?thesis by simp
qed

lemma MFDB_MGRP_HASH_bound: "MFDB_MGRP_HASH m < MFDB_HASHT_SIZE"
  by (simp add: MFDB_MGRP_HASH_def MFDB_HASHT_SIZE_def word_and_7)

lemma multi_nonzero: "IP_ISMULTI g \<Longrightarrow> g \<noteq> 0"
  by (auto simp: IP_ISMULTI_def)

section \<open>Records\<close>

record emfc_mhif =
  mhif_ifp :: ifp
  mhif_data_fwd :: u32

record emfc_mi =
  mi_mhif :: "ifp option"
  mi_ref :: u32
  mi_data_fwd :: u32

record emfc_mgrp =
  mgrp_addr :: addr
  mgrp_ip :: u32
  mi_head :: "emfc_mi list"

record emfc_iflist =
  ifl_ifp :: ifp
  uffp_ref :: u32
  rtport_ref :: u32

record emf_stats =
  igmp_frames :: u32
  igmp_frames_fwd :: u32
  igmp_frames_sentup :: u32
  igmp_frames_dropped :: u32
  mcast_data_frames :: u32
  mcast_data_fwd :: u32
  mcast_data_flooded :: u32
  mcast_data_sentup :: u32
  mcast_data_dropped :: u32
  mfdb_cache_hits :: u32
  mfdb_cache_misses :: u32

text \<open>
  What leaves the instance through the wrapper: a frame handed to the IP stack, or a frame
  handed to \<open>forward_fn\<close> for one interface.
\<close>

datatype emf_tx = SendUp | Forward ifp

text \<open>
  The wrapper (\<open>emfc_wrapper_t\<close>) is the environment: \<open>fwd_ok k\<close> tells whether the call of
  \<open>forward_fn\<close> made when \<open>k\<close> frames have left succeeds, \<open>hooks_ok\<close> whether
  \<open>hooks_register_fn\<close> does. \<open>tx\<close> is the log of what has left, oldest first.
\<close>

record emfc_info =
  inst_id :: string
  mgrp_fdb :: "emfc_mgrp chains"
  mhif_head :: "emfc_mhif list"
  mgrp_cache_ip :: u32
  mgrp_cache :: addr
  osh :: osl
  stats :: emf_stats
  snooper :: bool
  fwd_ok :: "nat \<Rightarrow> bool"
  hooks_ok :: bool
  hooks_registered :: bool
  tx :: "emf_tx list"
  emf_enable :: bool
  iflist_head :: "emfc_iflist list"

definition zero_stats :: emf_stats where
  "zero_stats = \<lparr>igmp_frames = 0, igmp_frames_fwd = 0, igmp_frames_sentup = 0,
     igmp_frames_dropped = 0, mcast_data_frames = 0, mcast_data_fwd = 0,
     mcast_data_flooded = 0, mcast_data_sentup = 0, mcast_data_dropped = 0,
     mfdb_cache_hits = 0, mfdb_cache_misses = 0\<rparr>"

text \<open>Table laws for the forwarding database.\<close>

interpretation fdb: hash_chain mgrp_ip MFDB_MGRP_HASH MFDB_HASHT_SIZE
  by unfold_locales (rule MFDB_MGRP_HASH_bound)

abbreviation mfdb_groups :: "emfc_info \<Rightarrow> emfc_mgrp list" where
  "mfdb_groups s \<equiv> ht_nodes MFDB_HASHT_SIZE (mgrp_fdb s)"

end
