(* ===== verification/Emf_Mfdb.thy ===== *)
theory Emf_Mfdb
  imports Emf_Data
begin

text \<open>
  The multicast forwarding database of emfc.c: the cached group lookup, the reference-counted
  membership of interfaces in groups, and the clearing of the database. Every operation
  returns \<open>None\<close> when the code would dereference a null or dangling pointer. \<open>mfdb_cnt\<close> is
  the abstract content of the database: how often an interface has been added to a group.
\<close>

section \<open>Operations\<close>

definition emfc_mfdb_init :: "emfc_info \<Rightarrow> emfc_info" where
  "emfc_mfdb_init s = s\<lparr>mgrp_fdb := (\<lambda>i. if i < MFDB_HASHT_SIZE then [] else mgrp_fdb s i),
     mhif_head := []\<rparr>"

text \<open>Reading through a group pointer.\<close>

definition mgrp_at :: "emfc_info \<Rightarrow> addr \<Rightarrow> emfc_mgrp option" where
  "mgrp_at s p = List.find (\<lambda>m. mgrp_addr m = p) (mfdb_groups s)"

fun emfc_mfdb_mi_entry_find :: "emfc_mi list \<Rightarrow> ifp \<Rightarrow> emfc_mi option option" where
  "emfc_mfdb_mi_entry_find [] i = Some None"
| "emfc_mfdb_mi_entry_find (mi # mis) i =
     (case mi_mhif mi of
        None \<Rightarrow> None
      | Some j \<Rightarrow> if i = j then Some (Some mi) else emfc_mfdb_mi_entry_find mis i)"

definition stat_cache_hit :: "emfc_info \<Rightarrow> emfc_info" where
  "stat_cache_hit s = s\<lparr>stats := (stats s)\<lparr>mfdb_cache_hits := mfdb_cache_hits (stats s) + 1\<rparr>\<rparr>"

definition stat_cache_miss :: "emfc_info \<Rightarrow> emfc_info" where
  "stat_cache_miss s =
     s\<lparr>stats := (stats s)\<lparr>mfdb_cache_misses := mfdb_cache_misses (stats s) + 1\<rparr>\<rparr>"

definition emfc_mfdb_group_find :: "emfc_info \<Rightarrow> u32 \<Rightarrow> emfc_info \<times> addr" where
  "emfc_mfdb_group_find s g =
     (if g = mgrp_cache_ip s then (stat_cache_hit s, mgrp_cache s)
      else let s1 = stat_cache_miss s in
        (case List.find (\<lambda>m. mgrp_ip m = g) (mgrp_fdb s1 (MFDB_MGRP_HASH g)) of
           Some m \<Rightarrow> (s1\<lparr>mgrp_cache := mgrp_addr m, mgrp_cache_ip := g\<rparr>, mgrp_addr m)
         | None \<Rightarrow> (s1, 0)))"

definition emfc_mfdb_mhif_add :: "emfc_info \<Rightarrow> ifp \<Rightarrow> emfc_info \<times> ifp option" where
  "emfc_mfdb_mhif_add s i =
     (case List.find (\<lambda>h. mhif_ifp h = i) (mhif_head s) of
        Some h \<Rightarrow> (s, Some i)
      | None \<Rightarrow>
          let (os, q) = MALLOC (osh s); s1 = s\<lparr>osh := os\<rparr> in
          if q = 0 then (s1, None)
          else (s1\<lparr>mhif_head := \<lparr>mhif_ifp = i, mhif_data_fwd = 0\<rparr> # mhif_head s1\<rparr>, Some i))"

definition emfc_mfdb_membership_find :: "emfc_info \<Rightarrow> u32 \<Rightarrow> ifp \<Rightarrow> (emfc_info \<times> emfc_mi option) option" where
  "emfc_mfdb_membership_find s g i =
     (let (s1, p) = emfc_mfdb_group_find s g in
      if p \<noteq> 0 then
        (case mgrp_at s1 p of
           None \<Rightarrow> None
         | Some m \<Rightarrow> map_option (Pair s1) (emfc_mfdb_mi_entry_find (mi_head m) i))
      else Some (s1, None))"

text \<open>Unlinking a group; the lookup cache forgets it.\<close>

definition mgrp_unlink :: "emfc_info \<Rightarrow> addr \<Rightarrow> emfc_info" where
  "mgrp_unlink s p = s\<lparr>mgrp_fdb := ht_delete (mgrp_fdb s) (\<lambda>m. mgrp_addr m = p),
     mgrp_cache_ip := (if mgrp_cache s = p then 0 else mgrp_cache_ip s)\<rparr>"

definition mgrp_write :: "emfc_info \<Rightarrow> addr \<Rightarrow> (emfc_mi list \<Rightarrow> emfc_mi list) \<Rightarrow> emfc_info" where
  "mgrp_write s p f = s\<lparr>mgrp_fdb := ht_update (mgrp_fdb s) (\<lambda>m. mgrp_addr m = p)
     (\<lambda>m. m\<lparr>mi_head := f (mi_head m)\<rparr>)\<rparr>"

text \<open>The part of \<open>emfc_mfdb_membership_add\<close> after the group entry is known.\<close>

definition membership_add_mi :: "emfc_info \<Rightarrow> addr \<Rightarrow> ifp \<Rightarrow> (emfc_info \<times> int) option" where
  "membership_add_mi s p i =
     (let (os, q) = MALLOC (osh s); s1 = s\<lparr>osh := os\<rparr> in
      if q = 0 then
        (case mgrp_at s1 p of
           None \<Rightarrow> None
         | Some m \<Rightarrow> Some (if mi_head m = [] then mgrp_unlink s1 p else s1, FAILURE))
      else
        let (s2, mh) = emfc_mfdb_mhif_add s1 i;
            mi = \<lparr>mi_mhif = mh, mi_ref = 1, mi_data_fwd = 0\<rparr>
        in Some (mgrp_write s2 p (\<lambda>mis. mi # mis), SUCCESS))"

definition emfc_mfdb_membership_add :: "emfc_info \<Rightarrow> u32 \<Rightarrow> ifp \<Rightarrow> (emfc_info \<times> int) option" where
  "emfc_mfdb_membership_add s g i =
     (let (s1, p) = emfc_mfdb_group_find s g in
      if p = 0 then
        let (os, q) = MALLOC (osh s1); s2 = s1\<lparr>osh := os\<rparr> in
        if q = 0 then Some (s2, FAILURE)
        else membership_add_mi
          (s2\<lparr>mgrp_fdb := ht_add_head (mgrp_fdb s2) (MFDB_MGRP_HASH g)
             \<lparr>mgrp_addr = q, mgrp_ip = g, mi_head = []\<rparr>\<rparr>) q i
      else
        (case mgrp_at s1 p of
           None \<Rightarrow> None
         | Some m \<Rightarrow>
             (case emfc_mfdb_mi_entry_find (mi_head m) i of
                None \<Rightarrow> None
              | Some (Some mi) \<Rightarrow>
                  Some (mgrp_write s1 p (upd_first (\<lambda>mi. mi_mhif mi = Some i)
                          (\<lambda>mi. mi\<lparr>mi_ref := mi_ref mi + 1\<rparr>)), SUCCESS)
              | Some None \<Rightarrow> membership_add_mi s1 p i)))"

definition emfc_mfdb_membership_del :: "emfc_info \<Rightarrow> u32 \<Rightarrow> ifp \<Rightarrow> (emfc_info \<times> int) option" where
  "emfc_mfdb_membership_del s g i =
     (let (s1, p) = emfc_mfdb_group_find s g in
      if p = 0 then Some (s1, FAILURE)
      else
        (case mgrp_at s1 p of
           None \<Rightarrow> None
         | Some m \<Rightarrow>
             (case emfc_mfdb_mi_entry_find (mi_head m) i of
                None \<Rightarrow> None
              | Some None \<Rightarrow> Some (s1, FAILURE)
              | Some (Some mi) \<Rightarrow>
                  let P = (\<lambda>mi. mi_mhif mi = Some i) in
                  if mi_ref mi - 1 \<noteq> 0 then
                    Some (mgrp_write s1 p (upd_first P (\<lambda>mi. mi\<lparr>mi_ref := mi_ref mi - 1\<rparr>)), SUCCESS)
                  else
                    let s2 = mgrp_write s1 p (del_first P) in
                    Some (if del_first P (mi_head m) = [] then mgrp_unlink s2 p else s2, SUCCESS))))"

definition emfc_mfdb_clear :: "emfc_info \<Rightarrow> emfc_info" where
  "emfc_mfdb_clear s = s\<lparr>mgrp_fdb := (\<lambda>i. if i < MFDB_HASHT_SIZE then [] else mgrp_fdb s i),
     mgrp_cache_ip := 0\<rparr>"

text \<open>The listing: one entry per group and interface, in table order.\<close>

record mfdb_entry =
  me_mgrp_ip :: u32
  me_if_name :: string
  me_pkts_fwd :: u32

fun mfdb_list_group :: "(ifp \<Rightarrow> string) \<Rightarrow> u32 \<Rightarrow> emfc_mi list \<Rightarrow> mfdb_entry list option" where
  "mfdb_list_group nm g [] = Some []"
| "mfdb_list_group nm g (mi # mis) =
     (case mi_mhif mi of
        None \<Rightarrow> None
      | Some i \<Rightarrow> map_option
          (Cons \<lparr>me_mgrp_ip = g, me_if_name = take 16 (nm i), me_pkts_fwd = mi_data_fwd mi\<rparr>)
          (mfdb_list_group nm g mis))"

fun mfdb_list_groups :: "(ifp \<Rightarrow> string) \<Rightarrow> emfc_mgrp list \<Rightarrow> mfdb_entry list option" where
  "mfdb_list_groups nm [] = Some []"
| "mfdb_list_groups nm (m # ms) =
     (case mfdb_list_group nm (mgrp_ip m) (mi_head m) of
        None \<Rightarrow> None
      | Some es \<Rightarrow> map_option (append es) (mfdb_list_groups nm ms))"

definition emfc_mfdb_list :: "(ifp \<Rightarrow> string) \<Rightarrow> emfc_info \<Rightarrow> mfdb_entry list option" where
  "emfc_mfdb_list nm s = mfdb_list_groups nm (mfdb_groups s)"

section \<open>Abstract content and well-formedness\<close>

definition mi_cnt :: "emfc_mi list \<Rightarrow> ifp \<Rightarrow> nat" where
  "mi_cnt mis i = (case List.find (\<lambda>mi. mi_mhif mi = Some i) mis of
     None \<Rightarrow> 0 | Some mi \<Rightarrow> unat (mi_ref mi))"

definition mfdb_cnt :: "emfc_info \<Rightarrow> u32 \<Rightarrow> ifp \<Rightarrow> nat" where
  "mfdb_cnt s g i = (case fdb.lookup (mgrp_fdb s) g of None \<Rightarrow> 0 | Some m \<Rightarrow> mi_cnt (mi_head m) i)"

definition mis_wf :: "ifp set \<Rightarrow> emfc_mi list \<Rightarrow> bool" where
  "mis_wf I mis \<longleftrightarrow> distinct (map mi_mhif mis) \<and>
     (\<forall>mi\<in>set mis. mi_ref mi \<noteq> 0 \<and> (\<exists>i\<in>I. mi_mhif mi = Some i))"

abbreviation mhifs :: "emfc_info \<Rightarrow> ifp set" where
  "mhifs s \<equiv> mhif_ifp ` set (mhif_head s)"

text \<open>Everything but "no group is empty", which a half-done addition breaks.\<close>

definition mfdb_wf0 :: "emfc_info \<Rightarrow> bool" where
  "mfdb_wf0 s \<longleftrightarrow> fdb.wf (mgrp_fdb s) \<and>
     inj_on mgrp_addr (set (mfdb_groups s)) \<and>
     (\<forall>m\<in>set (mfdb_groups s). 0 < mgrp_addr m \<and> mgrp_addr m \<le> mem_seq (osh s) \<and>
        mgrp_ip m \<noteq> 0 \<and> mis_wf (mhifs s) (mi_head m)) \<and>
     distinct (map mhif_ifp (mhif_head s)) \<and>
     (mgrp_cache_ip s \<noteq> 0 \<longrightarrow>
        (\<exists>m\<in>set (mfdb_groups s). mgrp_addr m = mgrp_cache s \<and> mgrp_ip m = mgrp_cache_ip s))"

definition mfdb_wf :: "emfc_info \<Rightarrow> bool" where
  "mfdb_wf s \<longleftrightarrow> mfdb_wf0 s \<and> (\<forall>m\<in>set (mfdb_groups s). mi_head m \<noteq> [])"

section \<open>Group pointers\<close>

text \<open>What no operation on the forwarding database touches.\<close>

definition mfdb_frame :: "emfc_info \<Rightarrow> emfc_info \<Rightarrow> bool" where
  "mfdb_frame s s' \<longleftrightarrow> inst_id s' = inst_id s \<and> snooper s' = snooper s \<and> fwd_ok s' = fwd_ok s \<and>
     hooks_ok s' = hooks_ok s \<and> hooks_registered s' = hooks_registered s \<and> tx s' = tx s \<and>
     emf_enable s' = emf_enable s \<and> iflist_head s' = iflist_head s \<and>
     mem_ok (osh s') = mem_ok (osh s)"

lemma mfdb_frame_refl [simp]: "mfdb_frame s s"
  by (simp add: mfdb_frame_def)

lemma mfdb_frame_trans: "mfdb_frame s t \<Longrightarrow> mfdb_frame t u \<Longrightarrow> mfdb_frame s u"
  by (simp add: mfdb_frame_def)

lemma mi_entry_find_wf:
  "mis_wf I mis \<Longrightarrow>
   emfc_mfdb_mi_entry_find mis i = Some (List.find (\<lambda>mi. mi_mhif mi = Some i) mis)"
  by (induction mis) (auto simp: mis_wf_def)

lemma mgrp_at_addr:
  assumes "inj_on mgrp_addr (set (mfdb_groups s))" "m \<in> set (mfdb_groups s)"
  shows "mgrp_at s (mgrp_addr m) = Some m"
proof -
  obtain m' where m': "mgrp_at s (mgrp_addr m) = Some m'"
    using assms(2) by (cases "mgrp_at s (mgrp_addr m)") (auto simp: mgrp_at_def find_None_notin)
  then have "m' \<in> set (mfdb_groups s)" "mgrp_addr m' = mgrp_addr m"
    by (auto simp: mgrp_at_def dest: find_SomeD)
  with assms have "m' = m" by (auto dest: inj_onD)
  with m' show ?thesis by simp
qed

lemma wf0_stats [simp]: "mfdb_wf0 (s\<lparr>stats := x\<rparr>) = mfdb_wf0 s"
  by (simp add: mfdb_wf0_def)

lemma wf0_cache_stats [simp]:
  "mfdb_wf0 (stat_cache_hit s) = mfdb_wf0 s" "mfdb_wf0 (stat_cache_miss s) = mfdb_wf0 s"
  by (simp_all add: stat_cache_hit_def stat_cache_miss_def)

lemma stat_cache_miss_fdb [simp]: "mgrp_fdb (stat_cache_miss s) = mgrp_fdb s"
  by (simp add: stat_cache_miss_def)

lemma wf0_osh:
  "mfdb_wf0 s \<Longrightarrow> mem_seq (osh s) \<le> mem_seq os \<Longrightarrow> mfdb_wf0 (s\<lparr>osh := os\<rparr>)"
  by (auto simp: mfdb_wf0_def)

lemma wf0_groupD:
  assumes "mfdb_wf0 s" "m \<in> set (mfdb_groups s)"
  shows "0 < mgrp_addr m" "mgrp_addr m \<le> mem_seq (osh s)" "mgrp_ip m \<noteq> 0"
    "mis_wf (mhifs s) (mi_head m)" "mgrp_at s (mgrp_addr m) = Some m"
  using assms by (auto simp: mfdb_wf0_def mgrp_at_addr)

text \<open>
  The lookup returns the pointer that a search of the chain would find, whether it comes
  from the cache or not, and changes only the counters and the cache.
\<close>

lemma group_find_pointer:
  assumes "mfdb_wf0 s" "g \<noteq> 0"
  shows "snd (emfc_mfdb_group_find s g) =
    (case fdb.lookup (mgrp_fdb s) g of None \<Rightarrow> 0 | Some m \<Rightarrow> mgrp_addr m)"
proof (cases "g = mgrp_cache_ip s")
  case True
  with assms obtain m where "m \<in> set (mfdb_groups s)" "mgrp_addr m = mgrp_cache s" "mgrp_ip m = g"
    by (auto simp: mfdb_wf0_def)
  moreover from this assms have "fdb.lookup (mgrp_fdb s) g = Some m"
    by (simp add: mfdb_wf0_def fdb.lookup_Some_iff)
  ultimately show ?thesis using True by (simp add: emfc_mfdb_group_find_def)
next
  case False
  then show ?thesis
    by (auto simp: emfc_mfdb_group_find_def fdb.lookup_def stat_cache_miss_def Let_def
        split: option.split)
qed

lemma group_find_state:
  assumes "emfc_mfdb_group_find s g = (s1, p)"
  shows "mgrp_fdb s1 = mgrp_fdb s" "osh s1 = osh s" "mhif_head s1 = mhif_head s" "mfdb_frame s s1"
  using assms
  by (auto simp: emfc_mfdb_group_find_def stat_cache_hit_def stat_cache_miss_def mfdb_frame_def
      Let_def split: if_splits option.splits)

lemma group_find_wf0:
  assumes "mfdb_wf0 s" "emfc_mfdb_group_find s g = (s1, p)"
  shows "mfdb_wf0 s1"
proof (cases "g = mgrp_cache_ip s \<or> fdb.lookup (mgrp_fdb s) g = None")
  case True
  with assms show ?thesis
    by (auto simp: emfc_mfdb_group_find_def fdb.lookup_def Let_def split: if_splits)
next
  case False
  then obtain m where m: "fdb.lookup (mgrp_fdb s) g = Some m" by auto
  with assms(1) have "m \<in> set (mfdb_groups s)" "mgrp_ip m = g"
    by (simp_all add: mfdb_wf0_def fdb.lookup_Some_iff)
  moreover have "s1 = stat_cache_miss s\<lparr>mgrp_cache := mgrp_addr m, mgrp_cache_ip := g\<rparr>"
    using False assms(2) m
    by (auto simp: emfc_mfdb_group_find_def fdb.lookup_def Let_def)
  ultimately show ?thesis
    using assms(1) by (auto simp: mfdb_wf0_def stat_cache_miss_def)
qed

lemma group_find_cases:
  assumes "mfdb_wf0 s" "g \<noteq> 0" "emfc_mfdb_group_find s g = (s1, p)"
  obtains (none) "p = 0" "fdb.lookup (mgrp_fdb s1) g = None"
  | (found) m where "p = mgrp_addr m" "p \<noteq> 0" "fdb.lookup (mgrp_fdb s1) g = Some m"
      "m \<in> set (mfdb_groups s1)" "mgrp_ip m = g" "mgrp_at s1 p = Some m"
      "mis_wf (mhifs s1) (mi_head m)"
proof -
  have wf: "mfdb_wf0 s1" by (rule group_find_wf0 [OF assms(1,3)])
  have p: "p = (case fdb.lookup (mgrp_fdb s1) g of None \<Rightarrow> 0 | Some m \<Rightarrow> mgrp_addr m)"
    using group_find_pointer [OF assms(1,2)] assms(3) group_find_state(1) [OF assms(3)] by simp
  show thesis
  proof (cases "fdb.lookup (mgrp_fdb s1) g")
    case None
    with p none show ?thesis by simp
  next
    case (Some m)
    with wf have m: "m \<in> set (mfdb_groups s1)" "mgrp_ip m = g"
      by (simp_all add: mfdb_wf0_def fdb.lookup_Some_iff)
    from wf0_groupD [OF wf m(1)] p Some m show ?thesis by (intro found [of m]) simp_all
  qed
qed

lemma mfdb_cnt_cong: "mgrp_fdb s' = mgrp_fdb s \<Longrightarrow> mfdb_cnt s' = mfdb_cnt s"
  by (rule ext)+ (simp add: mfdb_cnt_def)

lemma mfdb_cnt_frame [simp]:
  "mfdb_cnt (s\<lparr>osh := os\<rparr>) = mfdb_cnt s" "mfdb_cnt (s\<lparr>stats := st\<rparr>) = mfdb_cnt s"
  by (rule mfdb_cnt_cong, simp)+

section \<open>Writing to and unlinking a group\<close>

lemma fdb_pointer_key:
  assumes "mfdb_wf0 s" "fdb.lookup (mgrp_fdb s) g = Some m" "n \<in> set (mfdb_groups s)"
  shows "mgrp_addr n = mgrp_addr m \<longleftrightarrow> mgrp_ip n = g"
proof -
  have m: "m \<in> set (mfdb_groups s)" "mgrp_ip m = g" "fdb.wf (mgrp_fdb s)"
      "inj_on mgrp_addr (set (mfdb_groups s))"
    using assms(1,2) by (simp_all add: mfdb_wf0_def fdb.lookup_Some_iff)
  with assms(3) show ?thesis by (metis fdb.nodes_key_inj inj_onD)
qed

lemma mgrp_write_lookup:
  assumes "mfdb_wf0 s" "fdb.lookup (mgrp_fdb s) g = Some m"
  shows "fdb.lookup (mgrp_fdb (mgrp_write s (mgrp_addr m) f)) =
     (fdb.lookup (mgrp_fdb s))(g \<mapsto> m\<lparr>mi_head := f (mi_head m)\<rparr>)"
proof -
  have "fdb.lookup (mgrp_fdb (mgrp_write s (mgrp_addr m) f)) = (fdb.lookup (mgrp_fdb s))
      (g := map_option (\<lambda>m. m\<lparr>mi_head := f (mi_head m)\<rparr>) (fdb.lookup (mgrp_fdb s) g))"
    unfolding mgrp_write_def
    using assms fdb_pointer_key [OF assms]
    by (simp add: mfdb_wf0_def fdb.lookup_update)
  with assms(2) show ?thesis by simp
qed

lemma mgrp_write_nodes:
  "mfdb_groups (mgrp_write s p f) =
     map (\<lambda>n. if mgrp_addr n = p then n\<lparr>mi_head := f (mi_head n)\<rparr> else n) (mfdb_groups s)"
  by (simp add: mgrp_write_def ht_nodes_update)

lemma mgrp_write_state [simp]:
  "osh (mgrp_write s p f) = osh s" "mhif_head (mgrp_write s p f) = mhif_head s"
  "mgrp_cache (mgrp_write s p f) = mgrp_cache s"
  "mgrp_cache_ip (mgrp_write s p f) = mgrp_cache_ip s"
  "mfdb_frame s (mgrp_write s p f)" "mfdb_frame s (mgrp_unlink s p)"
  "mfdb_frame (s\<lparr>mgrp_fdb := t\<rparr>) u = mfdb_frame s u"
  by (simp_all add: mgrp_write_def mgrp_unlink_def mfdb_frame_def)

lemma mgrp_write_wf0:
  assumes wf: "mfdb_wf0 s" and m: "fdb.lookup (mgrp_fdb s) g = Some m"
    and f: "mis_wf (mhifs s) (f (mi_head m))"
  shows "mfdb_wf0 (mgrp_write s (mgrp_addr m) f)"
proof -
  define u where "u n = (if mgrp_addr n = mgrp_addr m then n\<lparr>mi_head := f (mi_head n)\<rparr> else n)"
    for n :: emfc_mgrp
  have nodes: "set (mfdb_groups (mgrp_write s (mgrp_addr m) f)) = u ` set (mfdb_groups s)"
    unfolding mgrp_write_nodes set_map u_def ..
  have mn: "m \<in> set (mfdb_groups s)" using wf m by (simp add: mfdb_wf0_def fdb.lookup_Some_iff)
  have addr: "mgrp_addr (u n) = mgrp_addr n" "mgrp_ip (u n) = mgrp_ip n" for n
    by (simp_all add: u_def)
  have same: "n = m" if "n \<in> set (mfdb_groups s)" "mgrp_addr n = mgrp_addr m" for n
    using wf mn that by (auto simp: mfdb_wf0_def dest: inj_onD)
  have "fdb.wf (mgrp_fdb (mgrp_write s (mgrp_addr m) f))"
    using wf by (simp add: mgrp_write_def mfdb_wf0_def fdb.wf_update)
  moreover have "inj_on mgrp_addr (u ` set (mfdb_groups s))"
    using wf by (auto simp: mfdb_wf0_def inj_on_def addr)
  moreover have "mis_wf (mhifs s) (mi_head (u n))" if "n \<in> set (mfdb_groups s)" for n
    using wf f that same [OF that]
    by (cases "mgrp_addr n = mgrp_addr m") (auto simp: mfdb_wf0_def u_def)
  moreover have "\<exists>n\<in>u ` set (mfdb_groups s). mgrp_addr n = mgrp_cache s \<and>
      mgrp_ip n = mgrp_cache_ip s" if "mgrp_cache_ip s \<noteq> 0"
    using wf that by (auto simp: mfdb_wf0_def addr)
  ultimately show ?thesis
    using wf unfolding mfdb_wf0_def nodes mgrp_write_state by (simp add: addr)
qed

lemma mgrp_unlink_lookup:
  assumes "mfdb_wf0 s" "fdb.lookup (mgrp_fdb s) g = Some m"
  shows "fdb.lookup (mgrp_fdb (mgrp_unlink s (mgrp_addr m))) = (fdb.lookup (mgrp_fdb s))(g := None)"
  unfolding mgrp_unlink_def
  using assms fdb_pointer_key [OF assms]
  by (simp add: mfdb_wf0_def fdb.lookup_delete)

lemma mgrp_unlink_nodes:
  "mfdb_groups (mgrp_unlink s p) = filter (\<lambda>n. mgrp_addr n \<noteq> p) (mfdb_groups s)"
  by (simp add: mgrp_unlink_def ht_nodes_delete)

lemma mgrp_unlink_wf0:
  assumes wf: "mfdb_wf0 s"
  shows "mfdb_wf0 (mgrp_unlink s p)"
proof -
  have "fdb.wf (mgrp_fdb (mgrp_unlink s p))"
    using wf by (simp add: mgrp_unlink_def mfdb_wf0_def fdb.wf_delete)
  moreover have "inj_on mgrp_addr (set (mfdb_groups (mgrp_unlink s p)))"
    using wf unfolding mgrp_unlink_nodes mfdb_wf0_def by (auto intro: inj_on_subset)
  moreover have "osh (mgrp_unlink s p) = osh s" "mhif_head (mgrp_unlink s p) = mhif_head s"
      "mgrp_cache (mgrp_unlink s p) = mgrp_cache s"
      "mgrp_cache_ip (mgrp_unlink s p) = (if mgrp_cache s = p then 0 else mgrp_cache_ip s)"
    by (simp_all add: mgrp_unlink_def)
  ultimately show ?thesis
    using wf unfolding mfdb_wf0_def by (auto simp: mgrp_unlink_nodes)
qed

section \<open>Member lists\<close>

lemma mi_cnt_upd:
  assumes "mis_wf I mis" "\<And>mi. mi_mhif (f mi) = mi_mhif mi"
    "\<And>mi. mi \<in> set mis \<Longrightarrow> mi_mhif mi = Some i \<Longrightarrow> mi_ref (f mi) \<noteq> 0"
  shows "mis_wf I (upd_first (\<lambda>mi. mi_mhif mi = Some i) f mis)"
    "mi_cnt (upd_first (\<lambda>mi. mi_mhif mi = Some i) f mis) j =
       (if j = i then mi_cnt (map f mis) i else mi_cnt mis j)"
proof -
  show "mis_wf I (upd_first (\<lambda>mi. mi_mhif mi = Some i) f mis)"
    using assms set_upd_first_subset [of "\<lambda>mi. mi_mhif mi = Some i" f mis]
    unfolding mis_wf_def map_upd_first_inv [of mi_mhif f, OF assms(2)] by force
  have "List.find (\<lambda>mi. mi_mhif mi = Some i) (map f mis) =
      map_option f (List.find (\<lambda>mi. mi_mhif mi = Some i) mis)"
    by (rule find_map_same) (simp add: assms(2))
  moreover have "List.find (\<lambda>mi. mi_mhif mi = Some j) (upd_first (\<lambda>mi. mi_mhif mi = Some i) f mis) =
      List.find (\<lambda>mi. mi_mhif mi = Some j) mis" if "j \<noteq> i"
    using that by (intro find_upd_first_other) (auto simp: assms(2))
  ultimately show "mi_cnt (upd_first (\<lambda>mi. mi_mhif mi = Some i) f mis) j =
       (if j = i then mi_cnt (map f mis) i else mi_cnt mis j)"
    by (simp add: mi_cnt_def find_upd_first_same assms(2))
qed

lemma mi_cnt_map_find:
  assumes "List.find (\<lambda>mi. mi_mhif mi = Some i) mis = Some mi" "\<And>mi. mi_mhif (f mi) = mi_mhif mi"
  shows "mi_cnt (map f mis) i = unat (mi_ref (f mi))" "mi_cnt mis i = unat (mi_ref mi)"
  using assms find_map_same [of mis "\<lambda>mi. mi_mhif mi = Some i" f] by (simp_all add: mi_cnt_def)

lemma mi_cnt_del:
  assumes "mis_wf I mis"
  shows "mis_wf I (del_first (\<lambda>mi. mi_mhif mi = Some i) mis)"
    "mi_cnt (del_first (\<lambda>mi. mi_mhif mi = Some i) mis) j = (if j = i then 0 else mi_cnt mis j)"
proof -
  show "mis_wf I (del_first (\<lambda>mi. mi_mhif mi = Some i) mis)"
    using assms set_del_first_subset [of "\<lambda>mi. mi_mhif mi = Some i" mis]
    by (auto simp: mis_wf_def distinct_map_del_first)
  have "List.find (\<lambda>mi. mi_mhif mi = Some j) (del_first (\<lambda>mi. mi_mhif mi = Some i) mis) =
      List.find (\<lambda>mi. mi_mhif mi = Some j) mis" if "j \<noteq> i"
    using that by (intro find_del_first_other) auto
  then show "mi_cnt (del_first (\<lambda>mi. mi_mhif mi = Some i) mis) j =
      (if j = i then 0 else mi_cnt mis j)"
    using assms by (simp add: mi_cnt_def mis_wf_def find_del_first_key)
qed

lemma mi_cnt_0_iff:
  "mis_wf I mis \<Longrightarrow> mi_cnt mis i = 0 \<longleftrightarrow> List.find (\<lambda>mi. mi_mhif mi = Some i) mis = None"
  by (auto simp: mi_cnt_def mis_wf_def unat_eq_0 dest!: find_SomeD split: option.splits)

lemma mis_wf_mono: "mis_wf I mis \<Longrightarrow> I \<subseteq> J \<Longrightarrow> mis_wf J mis"
  by (force simp: mis_wf_def)

lemma mfdb_wfI:
  assumes "mfdb_wf0 s" "\<And>g m. fdb.lookup (mgrp_fdb s) g = Some m \<Longrightarrow> mi_head m \<noteq> []"
  shows "mfdb_wf s"
  using assms(1) assms(2)
  by (auto simp: mfdb_wf_def mfdb_wf0_def fdb.lookup_Some_iff)

lemma mfdb_wfD:
  "mfdb_wf s \<Longrightarrow> fdb.lookup (mgrp_fdb s) g = Some m \<Longrightarrow> mi_head m \<noteq> [] \<and> mis_wf (mhifs s) (mi_head m)"
  by (auto simp: mfdb_wf_def mfdb_wf0_def fdb.lookup_Some_iff)

section \<open>The interface list\<close>

lemma mhif_add_state:
  assumes "emfc_mfdb_mhif_add s i = (s1, mh)"
  shows "mgrp_fdb s1 = mgrp_fdb s" "mgrp_cache s1 = mgrp_cache s"
    "mgrp_cache_ip s1 = mgrp_cache_ip s" "mfdb_frame s s1" "mhifs s \<subseteq> mhifs s1"
    "mem_seq (osh s) \<le> mem_seq (osh s1)"
    "mh = None \<or> mh = Some i \<and> i \<in> mhifs s1"
    "distinct (map mhif_ifp (mhif_head s)) \<Longrightarrow> distinct (map mhif_ifp (mhif_head s1))"
  using assms
  by (auto simp: emfc_mfdb_mhif_add_def MALLOC_def mfdb_frame_def Let_def find_None_notin
      dest!: find_SomeD split: option.splits if_splits)

text \<open>The interface data of \<open>i\<close> is at hand: it exists, or memory does not run out.\<close>

definition mhif_ready :: "emfc_info \<Rightarrow> ifp \<Rightarrow> bool" where
  "mhif_ready s i \<longleftrightarrow> i \<in> mhifs s \<or> mem_reliable (osh s)"

lemma mhif_add_ready:
  "emfc_mfdb_mhif_add s i = (s1, mh) \<Longrightarrow> mhif_ready s i \<Longrightarrow> mh = Some i"
  by (auto simp: emfc_mfdb_mhif_add_def MALLOC_def mhif_ready_def mem_reliable_def Let_def
      find_None_notin split: option.splits if_splits)

lemma mhif_add_wf0: "mfdb_wf0 s \<Longrightarrow> emfc_mfdb_mhif_add s i = (s1, mh) \<Longrightarrow> mfdb_wf0 s1"
  using mhif_add_state [of s i s1 mh] unfolding mfdb_wf0_def
  by (force intro: mis_wf_mono)

section \<open>Reference counting: the laws of addition and deletion\<close>

lemma mfdb_cnt_write:
  assumes "mfdb_wf0 s" "fdb.lookup (mgrp_fdb s) g = Some m"
  shows "mfdb_cnt (mgrp_write s (mgrp_addr m) f) = (mfdb_cnt s)(g := mi_cnt (f (mi_head m)))"
  by (rule ext)+ (simp add: mfdb_cnt_def mgrp_write_lookup [OF assms])

lemma mfdb_cnt_at: "fdb.lookup (mgrp_fdb s) g = Some m \<Longrightarrow> mfdb_cnt s g = mi_cnt (mi_head m)"
  by (rule ext) (simp add: mfdb_cnt_def)

lemma mfdb_cnt_unlink:
  assumes "mfdb_wf0 s" "fdb.lookup (mgrp_fdb s) g = Some m"
  shows "mfdb_cnt (mgrp_unlink s (mgrp_addr m)) = (mfdb_cnt s)(g := (\<lambda>_. 0))"
  by (rule ext)+ (simp add: mfdb_cnt_def mgrp_unlink_lookup [OF assms])

definition mfdb_bump :: "emfc_info \<Rightarrow> u32 \<Rightarrow> ifp \<Rightarrow> nat \<Rightarrow> u32 \<Rightarrow> ifp \<Rightarrow> nat" where
  "mfdb_bump s g i n = (mfdb_cnt s)(g := (mfdb_cnt s g)(i := n))"

text \<open>What an addition promises, whichever path it takes.\<close>

definition add_outcome :: "emfc_info \<Rightarrow> u32 \<Rightarrow> ifp \<Rightarrow> emfc_info \<times> int \<Rightarrow> bool" where
  "add_outcome s g i res \<longleftrightarrow> (let (s', r) = res in
     mfdb_frame s s' \<and>
     (r = FAILURE \<and> mfdb_wf s' \<and> mfdb_cnt s' = mfdb_cnt s \<and> \<not> mem_reliable (osh s) \<or>
      r = SUCCESS \<and> (mhif_ready s i \<longrightarrow>
        mfdb_wf s' \<and> mfdb_cnt s' = mfdb_bump s g i (Suc (mfdb_cnt s g i)))))"

lemma add_outcome_mono:
  assumes "add_outcome t g i res" "mfdb_cnt t = mfdb_cnt s" "mfdb_frame s t"
    "mhif_ready s i \<Longrightarrow> mhif_ready t i"
  shows "add_outcome s g i res"
  using assms mfdb_frame_trans [OF assms(3)]
  by (auto simp: add_outcome_def mfdb_bump_def mem_reliable_def mfdb_frame_def)

lemma mhif_ready_alloc:
  "mhif_ready s i \<Longrightarrow> mem_ok os = mem_ok (osh s) \<Longrightarrow> mhif_ready (s\<lparr>osh := os\<rparr>) i"
  by (simp add: mhif_ready_def mem_reliable_def)

lemma membership_add_mi_outcome:
  assumes wf: "mfdb_wf0 s" and m: "fdb.lookup (mgrp_fdb s) g = Some m"
    and others: "\<And>g' m'. g' \<noteq> g \<Longrightarrow> fdb.lookup (mgrp_fdb s) g' = Some m' \<Longrightarrow> mi_head m' \<noteq> []"
    and absent: "mi_cnt (mi_head m) i = 0"
  shows "\<exists>res. membership_add_mi s (mgrp_addr m) i = Some res \<and> add_outcome s g i res"
proof -
  obtain os q where os: "MALLOC (osh s) = (os, q)" by fastforce
  then have ok: "mem_ok os = mem_ok (osh s)" "mem_seq (osh s) \<le> mem_seq os"
    by (simp_all add: MALLOC_D)
  define s1 where "s1 = s\<lparr>osh := os\<rparr>"
  have s1: "mfdb_wf0 s1" "mgrp_fdb s1 = mgrp_fdb s" "mfdb_frame s s1" "mfdb_cnt s1 = mfdb_cnt s"
      "mhifs s1 = mhifs s"
    using wf ok by (simp_all add: s1_def wf0_osh mfdb_frame_def)
  have m1: "fdb.lookup (mgrp_fdb s1) g = Some m" using m s1(2) by simp
  then have mn: "m \<in> set (mfdb_groups s1)" using s1(1) by (simp add: mfdb_wf0_def fdb.lookup_Some_iff)
  have at: "mgrp_at s1 (mgrp_addr m) = Some m" "mis_wf (mhifs s) (mi_head m)"
    using wf0_groupD [OF s1(1) mn] s1(5) by simp_all
  show ?thesis
  proof (cases "q = 0")
    case True
    then have unrel: "\<not> mem_reliable (osh s)" using os MALLOC_D(3) by simp
    show ?thesis
    proof (cases "mi_head m = []")
      case e: True
      have "mfdb_wf (mgrp_unlink s1 (mgrp_addr m))"
        using others by (intro mfdb_wfI mgrp_unlink_wf0 s1)
          (auto simp: mgrp_unlink_lookup [OF s1(1) m1] s1(2) split: if_splits)
      moreover have "mfdb_cnt (mgrp_unlink s1 (mgrp_addr m)) = mfdb_cnt s"
        using m e by (auto simp: mfdb_cnt_unlink [OF s1(1) m1] s1(4) fun_eq_iff mfdb_cnt_def mi_cnt_def)
      ultimately show ?thesis
        using True e at unrel os mfdb_frame_trans [OF s1(3)]
        by (simp add: membership_add_mi_def s1_def add_outcome_def)
    next
      case ne: False
      have "mi_head m' \<noteq> []" if "fdb.lookup (mgrp_fdb s1) g' = Some m'" for g' m'
        using ne that others [of g' m'] m s1(2) by (cases "g' = g") auto
      then have "mfdb_wf s1" by (intro mfdb_wfI s1)
      then show ?thesis
        using True ne at unrel os s1 by (simp add: membership_add_mi_def s1_def add_outcome_def)
    qed
  next
    case False
    obtain s2 mh where mh: "emfc_mfdb_mhif_add s1 i = (s2, mh)" by fastforce
    note st = mhif_add_state [OF mh]
    have wf2: "mfdb_wf0 s2" by (rule mhif_add_wf0 [OF s1(1) mh])
    have m2: "fdb.lookup (mgrp_fdb s2) g = Some m" using m1 st(1) by simp
    define f where "f mis = \<lparr>mi_mhif = mh, mi_ref = 1, mi_data_fwd = 0\<rparr> # mis"
      for mis :: "emfc_mi list"
    have res: "membership_add_mi s (mgrp_addr m) i = Some (mgrp_write s2 (mgrp_addr m) f, SUCCESS)"
      using False os mh by (simp add: membership_add_mi_def s1_def f_def [abs_def])
    have "mfdb_wf (mgrp_write s2 (mgrp_addr m) f) \<and> mfdb_cnt (mgrp_write s2 (mgrp_addr m) f) =
        mfdb_bump s g i (Suc (mfdb_cnt s g i))" if "mhif_ready s i"
    proof
      have mhi: "mh = Some i" "i \<in> mhifs s2"
        using mhif_add_ready [OF mh] that ok st(7) by (simp_all add: s1_def mhif_ready_alloc)
      have "mis_wf (mhifs s2) (mi_head m)" using at(2) st(5) s1(5) by (auto intro: mis_wf_mono)
      moreover have "List.find (\<lambda>mi. mi_mhif mi = Some i) (mi_head m) = None"
        using mi_cnt_0_iff [OF at(2)] absent by simp
      ultimately have fw: "mis_wf (mhifs s2) (f (mi_head m))"
        using mhi by (auto simp: mis_wf_def f_def find_None_notin image_iff)
      show "mfdb_wf (mgrp_write s2 (mgrp_addr m) f)"
        using others
        by (intro mfdb_wfI mgrp_write_wf0 [where f = f, OF wf2 m2 fw])
          (auto simp: mgrp_write_lookup [OF wf2 m2] st(1) s1(2) f_def split: if_splits)
      show "mfdb_cnt (mgrp_write s2 (mgrp_addr m) f) = mfdb_bump s g i (Suc (mfdb_cnt s g i))"
      proof -
        have "mi_cnt (f (mi_head m)) = (mi_cnt (mi_head m))(i := 1)"
          using mhi by (simp add: f_def mi_cnt_def fun_eq_iff)
        then show ?thesis
          using absent s1(4) mfdb_cnt_cong [OF st(1)]
          by (simp add: mfdb_cnt_write [OF wf2 m2] mfdb_bump_def mfdb_cnt_at [OF m])
      qed
    qed
    with res show ?thesis
      using mfdb_frame_trans [OF s1(3)] mfdb_frame_trans [OF st(4)]
      by (simp add: add_outcome_def)
  qed
qed

lemma membership_add_new_group:
  assumes wf: "mfdb_wf s" and g: "g \<noteq> 0" and none: "fdb.lookup (mgrp_fdb s) g = None"
    and os: "MALLOC (osh s) = (os, q)" "q \<noteq> 0"
  defines "t \<equiv> s\<lparr>osh := os, mgrp_fdb := ht_add_head (mgrp_fdb s) (MFDB_MGRP_HASH g)
             \<lparr>mgrp_addr = q, mgrp_ip = g, mi_head = []\<rparr>\<rparr>"
  shows "mfdb_wf0 t" "fdb.lookup (mgrp_fdb t) =
      (fdb.lookup (mgrp_fdb s))(g \<mapsto> \<lparr>mgrp_addr = q, mgrp_ip = g, mi_head = []\<rparr>)"
    "mfdb_frame s t" "mfdb_cnt t = mfdb_cnt s"
proof -
  let ?m = "\<lparr>mgrp_addr = q, mgrp_ip = g, mi_head = []\<rparr> :: emfc_mgrp"
  have wf0: "mfdb_wf0 s" using wf by (simp add: mfdb_wf_def)
  have seq: "q = Suc (mem_seq (osh s))" "mem_seq os = q" "mem_ok os = mem_ok (osh s)"
    using os MALLOC_D [OF os(1)] by simp_all
  show lk: "fdb.lookup (mgrp_fdb t) = (fdb.lookup (mgrp_fdb s))(g \<mapsto> ?m)"
    by (simp add: t_def fdb.lookup_add_head)
  have nodes: "set (mfdb_groups t) = insert ?m (set (mfdb_groups s))"
    by (simp add: t_def set_ht_nodes_add_head MFDB_MGRP_HASH_bound)
  have fresh: "\<forall>m\<in>set (mfdb_groups s). mgrp_addr m < q"
    using wf0 seq by (auto simp: mfdb_wf0_def)
  have "fdb.wf (mgrp_fdb t)"
    using wf0 none by (simp add: t_def mfdb_wf0_def fdb.wf_add_head)
  moreover have "inj_on mgrp_addr (set (mfdb_groups t))"
    using wf0 fresh unfolding nodes mfdb_wf0_def by (auto simp: inj_on_insert)
  ultimately show "mfdb_wf0 t"
    using wf0 fresh g seq unfolding mfdb_wf0_def nodes
    by (auto simp: t_def mis_wf_def)
  show "mfdb_frame s t" using seq by (simp add: t_def mfdb_frame_def)
  show "mfdb_cnt t = mfdb_cnt s"
    using none by (auto simp: mfdb_cnt_def lk fun_eq_iff mi_cnt_def)
qed

lemma membership_add_law:
  assumes wf: "mfdb_wf s" and g: "g \<noteq> 0" and bound: "mfdb_cnt s g i < 2 ^ 32 - 1"
  shows "\<exists>res. emfc_mfdb_membership_add s g i = Some res \<and> add_outcome s g i res"
proof -
  obtain s1 p where find: "emfc_mfdb_group_find s g = (s1, p)" by fastforce
  have wf0: "mfdb_wf0 s" using wf by (simp add: mfdb_wf_def)
  note st = group_find_state [OF find]
  have wf1: "mfdb_wf0 s1" by (rule group_find_wf0 [OF wf0 find])
  have wfs1: "mfdb_wf s1" using wf wf1 st(1) by (simp add: mfdb_wf_def)
  have cnt1: "mfdb_cnt s1 = mfdb_cnt s" using st(1) by (rule mfdb_cnt_cong)
  have lift: "add_outcome s g i res" if "add_outcome s1 g i res" for res
    using that cnt1 st by (auto intro: add_outcome_mono simp: mhif_ready_def)
  from wf0 g find show ?thesis
  proof (cases rule: group_find_cases)
    case none
    obtain os q where os: "MALLOC (osh s1) = (os, q)" by fastforce
    show ?thesis
    proof (cases "q = 0")
      case True
      then have "\<not> mem_reliable (osh s1)" "mem_ok os = mem_ok (osh s1)"
          "mem_seq (osh s1) \<le> mem_seq os"
        using os by (simp_all add: MALLOC_D)
      then have "add_outcome s1 g i (s1\<lparr>osh := os\<rparr>, FAILURE)"
        using wf1 wfs1
        by (simp add: add_outcome_def mfdb_wf_def wf0_osh mfdb_frame_def)
      with True none os find show ?thesis
        by (auto simp: emfc_mfdb_membership_add_def intro: lift)
    next
      case False
      define t where "t = s1\<lparr>osh := os, mgrp_fdb := ht_add_head (mgrp_fdb s1) (MFDB_MGRP_HASH g)
             \<lparr>mgrp_addr = q, mgrp_ip = g, mi_head = []\<rparr>\<rparr>"
      note new = membership_add_new_group [OF wfs1 g none(2) os False, folded t_def]
      have "\<exists>res. membership_add_mi t q i = Some res \<and> add_outcome t g i res"
        using membership_add_mi_outcome [OF new(1), of g "\<lparr>mgrp_addr = q, mgrp_ip = g, mi_head = []\<rparr>" i]
          mfdb_wfD [OF wfs1] by (simp add: new(2) mi_cnt_def)
      moreover have "mhif_ready s1 i \<Longrightarrow> mhif_ready t i"
        using MALLOC_D(1) [OF os] by (auto simp: t_def mhif_ready_def mem_reliable_def)
      ultimately obtain res where "membership_add_mi t q i = Some res" "add_outcome s1 g i res"
        using add_outcome_mono [OF _ new(4,3)] by blast
      with False none(1) os find show ?thesis
        by (auto simp: emfc_mfdb_membership_add_def t_def intro: lift)
    qed
  next
    case (found m)
    note mfd = mi_entry_find_wf [OF found(7)]
    show ?thesis
    proof (cases "List.find (\<lambda>mi. mi_mhif mi = Some i) (mi_head m)")
      case None
      then have "mi_cnt (mi_head m) i = 0" by (simp add: mi_cnt_def)
      then have "\<exists>res. membership_add_mi s1 (mgrp_addr m) i = Some res \<and> add_outcome s1 g i res"
        using mfdb_wfD [OF wfs1] by (intro membership_add_mi_outcome [OF wf1 found(3)]) auto
      then obtain res where "membership_add_mi s1 (mgrp_addr m) i = Some res" "add_outcome s g i res"
        using lift by blast
      with None found mfd find show ?thesis by (auto simp: emfc_mfdb_membership_add_def)
    next
      case (Some mi)
      define inc where "inc mi = mi\<lparr>mi_ref := mi_ref mi + 1\<rparr>" for mi :: emfc_mi
      define f where "f = upd_first (\<lambda>mi. mi_mhif mi = Some i) inc"
      have inc: "mi_mhif (inc mi) = mi_mhif mi" for mi by (simp add: inc_def)
      have cnt: "mfdb_cnt s g i = unat (mi_ref mi)"
        using Some found(3) st(1) by (simp add: mfdb_cnt_def mi_cnt_def)
      have ref: "unat (mi_ref mi + 1) = Suc (unat (mi_ref mi))"
        using bound cnt by (simp add: unat_word_ariths)
      have uniq: "mi' = mi" if "mi' \<in> set (mi_head m)" "mi_mhif mi' = Some i" for mi'
        using that Some found(7) find_key_unique [of mi_mhif "mi_head m" mi' "Some i"]
        by (simp add: mis_wf_def)
      have nz: "mi_ref (inc mi') \<noteq> 0" if "mi' \<in> set (mi_head m)" "mi_mhif mi' = Some i" for mi'
      proof
        assume "mi_ref (inc mi') = 0"
        with uniq [OF that] have "mi_ref mi + 1 = 0" by (simp add: inc_def)
        with ref show False by simp
      qed
      have fw: "mis_wf (mhifs s1) (f (mi_head m))"
        and fc: "mi_cnt (f (mi_head m)) j = ((mi_cnt (mi_head m))(i := Suc (unat (mi_ref mi)))) j" for j
        using mi_cnt_upd [where f = inc and i = i, OF found(7) inc nz]
          mi_cnt_map_find(1) [where f = inc, OF Some inc] ref
        unfolding f_def by (simp_all add: inc_def)
      have "mfdb_wf (mgrp_write s1 (mgrp_addr m) f)"
        using mfdb_wfD [OF wfs1] found(3)
        by (intro mfdb_wfI mgrp_write_wf0 [where f = f, OF wf1 found(3) fw])
          (auto simp: mgrp_write_lookup [OF wf1 found(3)] f_def split: if_splits)
      moreover have "mfdb_cnt (mgrp_write s1 (mgrp_addr m) f) = mfdb_bump s1 g i (Suc (mfdb_cnt s1 g i))"
        using Some fc by (auto simp: mfdb_cnt_write [OF wf1 found(3)] mfdb_bump_def fun_eq_iff
            mfdb_cnt_at [OF found(3)] mi_cnt_def)
      ultimately have "add_outcome s1 g i (mgrp_write s1 (mgrp_addr m) f, SUCCESS)"
        by (simp add: add_outcome_def)
      from lift [OF this] Some found mfd find show ?thesis
        by (simp add: emfc_mfdb_membership_add_def f_def inc_def [abs_def])
    qed
  qed
qed

text \<open>What a deletion promises.\<close>

definition del_outcome :: "emfc_info \<Rightarrow> u32 \<Rightarrow> ifp \<Rightarrow> emfc_info \<times> int \<Rightarrow> bool" where
  "del_outcome s g i res \<longleftrightarrow> (let (s', r) = res in
     mfdb_frame s s' \<and> mfdb_wf s' \<and> mhifs s' = mhifs s \<and>
     (if mfdb_cnt s g i = 0 then r = FAILURE \<and> mfdb_cnt s' = mfdb_cnt s
      else r = SUCCESS \<and> mfdb_cnt s' = mfdb_bump s g i (mfdb_cnt s g i - 1)))"

lemma del_outcome_mono:
  assumes "del_outcome t g i res" "mfdb_cnt t = mfdb_cnt s" "mfdb_frame s t" "mhifs t = mhifs s"
  shows "del_outcome s g i res"
  using assms mfdb_frame_trans [OF assms(3)]
  by (auto simp: del_outcome_def mfdb_bump_def split: if_splits)

text \<open>Dropping the last reference: the interface goes, and the group with its last interface.\<close>

lemma membership_drop:
  assumes wf: "mfdb_wf s" and m: "fdb.lookup (mgrp_fdb s) g = Some m"
    and mi: "List.find (\<lambda>mi. mi_mhif mi = Some i) (mi_head m) = Some mi" "mi_ref mi = 1"
  defines "P \<equiv> \<lambda>mi. mi_mhif mi = Some i"
  defines "s2 \<equiv> mgrp_write s (mgrp_addr m) (del_first P)"
  shows "del_outcome s g i
    (if del_first P (mi_head m) = [] then mgrp_unlink s2 (mgrp_addr m) else s2, SUCCESS)"
proof -
  let ?s' = "if del_first P (mi_head m) = [] then mgrp_unlink s2 (mgrp_addr m) else s2"
  have wf0: "mfdb_wf0 s" using wf by (simp add: mfdb_wf_def)
  have mw: "mis_wf (mhifs s) (mi_head m)" using mfdb_wfD [OF wf m] by simp
  note del = mi_cnt_del [OF mw, of i, folded P_def]
  note wf2 = mgrp_write_wf0 [where f = "del_first P", OF wf0 m del(1), folded s2_def]
  note lk2 = mgrp_write_lookup [OF wf0 m, of "del_first P", folded s2_def]
  have m2: "fdb.lookup (mgrp_fdb s2) g = Some (m\<lparr>mi_head := del_first P (mi_head m)\<rparr>)"
    by (simp add: lk2)
  have un: "mgrp_addr (m\<lparr>mi_head := del_first P (mi_head m)\<rparr>) = mgrp_addr m" by simp
  have cnt2: "mfdb_cnt s2 = mfdb_bump s g i 0"
    using del(2) by (auto simp: s2_def mfdb_cnt_write [OF wf0 m] mfdb_bump_def
        mfdb_cnt_at [OF m] fun_eq_iff)
  have cnt: "mfdb_cnt s g i = 1" using mi by (simp add: mfdb_cnt_at [OF m] mi_cnt_def)
  have "mfdb_wf ?s' \<and> mfdb_cnt ?s' = mfdb_bump s g i 0 \<and> mhifs ?s' = mhifs s"
  proof (cases "del_first P (mi_head m) = []")
    case True
    have "mfdb_wf (mgrp_unlink s2 (mgrp_addr m))"
      using mfdb_wfD [OF wf] mgrp_unlink_lookup [OF wf2 m2]
      by (intro mfdb_wfI mgrp_unlink_wf0 wf2) (auto simp: lk2 split: if_splits)
    moreover have "mfdb_cnt (mgrp_unlink s2 (mgrp_addr m)) = mfdb_cnt s2"
      using mfdb_cnt_unlink [OF wf2 m2] mfdb_cnt_at [OF m2] True
      by (auto simp: fun_eq_iff mi_cnt_def)
    ultimately show ?thesis using True cnt2 by (simp add: s2_def mgrp_unlink_def)
  next
    case False
    then have "mfdb_wf s2"
      using mfdb_wfD [OF wf] by (intro mfdb_wfI wf2) (auto simp: lk2 split: if_splits)
    with False cnt2 show ?thesis by (simp add: s2_def)
  qed
  moreover have "mfdb_frame s ?s'"
    using mfdb_frame_trans [of s s2 "mgrp_unlink s2 (mgrp_addr m)"] by (simp add: s2_def)
  ultimately show ?thesis using cnt by (simp add: del_outcome_def)
qed

lemma membership_del_law:
  assumes wf: "mfdb_wf s" and g: "g \<noteq> 0"
  shows "\<exists>res. emfc_mfdb_membership_del s g i = Some res \<and> del_outcome s g i res"
proof -
  obtain s1 p where find: "emfc_mfdb_group_find s g = (s1, p)" by fastforce
  have wf0: "mfdb_wf0 s" using wf by (simp add: mfdb_wf_def)
  note st = group_find_state [OF find]
  have wf1: "mfdb_wf0 s1" by (rule group_find_wf0 [OF wf0 find])
  have wfs1: "mfdb_wf s1" using wf wf1 st(1) by (simp add: mfdb_wf_def)
  have lift: "del_outcome s g i res" if "del_outcome s1 g i res" for res
    using that mfdb_cnt_cong [OF st(1)] st by (auto intro: del_outcome_mono)
  from wf0 g find show ?thesis
  proof (cases rule: group_find_cases)
    case none
    then have "del_outcome s1 g i (s1, FAILURE)"
      using wfs1 by (simp add: del_outcome_def mfdb_cnt_def)
    with none find show ?thesis by (auto simp: emfc_mfdb_membership_del_def intro: lift)
  next
    case (found m)
    note mfd = mi_entry_find_wf [OF found(7)]
    show ?thesis
    proof (cases "List.find (\<lambda>mi. mi_mhif mi = Some i) (mi_head m)")
      case None
      then have "del_outcome s1 g i (s1, FAILURE)"
        using wfs1 by (simp add: del_outcome_def mfdb_cnt_at [OF found(3)] mi_cnt_def)
      from lift [OF this] None found mfd find show ?thesis
        by (simp add: emfc_mfdb_membership_del_def)
    next
      case (Some mi)
      then have nz: "mi_ref mi \<noteq> 0" using found(7) by (auto simp: mis_wf_def dest: find_SomeD)
      show ?thesis
      proof (cases "mi_ref mi - 1 = 0")
        case True
        then have "mi_ref mi = 1" by simp
        from lift [OF membership_drop [OF wfs1 found(3) Some this]] True Some found mfd find
        show ?thesis by (simp add: emfc_mfdb_membership_del_def Let_def)
      next
        case False
        define dec where "dec mi = mi\<lparr>mi_ref := mi_ref mi - 1\<rparr>" for mi :: emfc_mi
        define f where "f = upd_first (\<lambda>mi. mi_mhif mi = Some i) dec"
        have dec: "mi_mhif (dec mi) = mi_mhif mi" for mi by (simp add: dec_def)
        have ref: "unat (mi_ref mi - 1) = unat (mi_ref mi) - 1"
          using nz by (simp add: unat_minus_one)
        have uniq: "mi' = mi" if "mi' \<in> set (mi_head m)" "mi_mhif mi' = Some i" for mi'
          using that Some found(7) find_key_unique [of mi_mhif "mi_head m" mi' "Some i"]
          by (simp add: mis_wf_def)
        have nz': "mi_ref (dec mi') \<noteq> 0" if "mi' \<in> set (mi_head m)" "mi_mhif mi' = Some i" for mi'
          using uniq [OF that] False by (simp add: dec_def)
        have fw: "mis_wf (mhifs s1) (f (mi_head m))"
          and fc: "mi_cnt (f (mi_head m)) j = ((mi_cnt (mi_head m))(i := unat (mi_ref mi) - 1)) j"
          for j
          using mi_cnt_upd [where f = dec and i = i, OF found(7) dec nz']
            mi_cnt_map_find(1) [where f = dec, OF Some dec] ref
          unfolding f_def by (simp_all add: dec_def)
        have cnt: "mfdb_cnt s1 g i = unat (mi_ref mi)"
          using Some by (simp add: mfdb_cnt_at [OF found(3)] mi_cnt_def)
        have "mfdb_wf (mgrp_write s1 (mgrp_addr m) f)"
          using mfdb_wfD [OF wfs1] found(3)
          by (intro mfdb_wfI mgrp_write_wf0 [where f = f, OF wf1 found(3) fw])
            (auto simp: mgrp_write_lookup [OF wf1 found(3)] f_def split: if_splits)
        moreover have "mfdb_cnt (mgrp_write s1 (mgrp_addr m) f) =
            mfdb_bump s1 g i (mfdb_cnt s1 g i - 1)"
          using fc cnt by (auto simp: mfdb_cnt_write [OF wf1 found(3)] mfdb_bump_def fun_eq_iff
              mfdb_cnt_at [OF found(3)])
        ultimately have "del_outcome s1 g i (mgrp_write s1 (mgrp_addr m) f, SUCCESS)"
          using cnt nz by (simp add: del_outcome_def unat_eq_0)
        from lift [OF this] False Some found mfd find show ?thesis
          by (simp add: emfc_mfdb_membership_del_def f_def dec_def [abs_def] Let_def)
      qed
    qed
  qed
qed

section \<open>Clearing\<close>

lemma mfdb_empty:
  assumes "\<And>h. h < MFDB_HASHT_SIZE \<Longrightarrow> mgrp_fdb s h = []" "mgrp_cache_ip s = 0"
    "distinct (map mhif_ifp (mhif_head s))"
  shows "mfdb_wf s" "mfdb_cnt s g i = 0"
proof -
  have "mfdb_groups s = []" using assms(1) by (simp add: ht_nodes_def)
  moreover have "fdb.wf (mgrp_fdb s)" by (rule fdb.wf_empty) (rule assms(1))
  ultimately show "mfdb_wf s" using assms by (simp add: mfdb_wf_def mfdb_wf0_def)
  have "fdb.lookup (mgrp_fdb s) g = None" by (rule fdb.lookup_empty) (rule assms(1))
  then show "mfdb_cnt s g i = 0" by (simp add: mfdb_cnt_def)
qed

lemma mfdb_clear_wf: "mfdb_wf s \<Longrightarrow> mfdb_wf (emfc_mfdb_clear s)"
  by (rule mfdb_empty) (auto simp: emfc_mfdb_clear_def mfdb_wf_def mfdb_wf0_def)

lemma mfdb_clear_cnt: "mfdb_wf s \<Longrightarrow> mfdb_cnt (emfc_mfdb_clear s) g i = 0"
  by (rule mfdb_empty) (auto simp: emfc_mfdb_clear_def mfdb_wf_def mfdb_wf0_def)

lemma mfdb_init_wf:
  "mgrp_cache_ip s = 0 \<Longrightarrow> mfdb_wf (emfc_mfdb_init s)"
  "mgrp_cache_ip s = 0 \<Longrightarrow> mfdb_cnt (emfc_mfdb_init s) g i = 0"
  by (rule mfdb_empty; simp add: emfc_mfdb_init_def)+

end
