(* ===== verification/Ref_Count.thy ===== *)
theory Ref_Count
  imports Router_Prelude
begin

text \<open>
  The contract of a reference-counted registry, as the IGMP snooper uses the forwarding
  layer: what is registered under a key is a count; an addition raises it by one, a deletion
  of a registered key lowers it by one, and neither touches another key. The membership of
  interfaces in multicast groups, the router ports and the flooding ports are three
  registries with this contract. The clients' lemmas are proved here once.
\<close>

locale ref_count =
  fixes add del :: "'s \<Rightarrow> 'k \<Rightarrow> ('s \<times> int) option"
    and cnt :: "'s \<Rightarrow> 'k \<Rightarrow> nat"
    and ok :: "'s \<Rightarrow> bool"
    and key :: "'k \<Rightarrow> bool"
  assumes add_law: "\<lbrakk>ok s; key k; cnt s k < 2 ^ 32 - 1\<rbrakk> \<Longrightarrow>
      \<exists>s'. add s k = Some (s', SUCCESS) \<and> ok s' \<and> cnt s' = (cnt s)(k := Suc (cnt s k))"
    and del_law: "\<lbrakk>ok s; key k; 0 < cnt s k\<rbrakk> \<Longrightarrow>
      \<exists>s'. del s k = Some (s', SUCCESS) \<and> ok s' \<and> cnt s' = (cnt s)(k := cnt s k - 1)"
begin

text \<open>A deletion undoes an addition.\<close>

lemma add_del:
  assumes "ok s" "key k" "cnt s k < 2 ^ 32 - 1"
  obtains s1 s2 where "add s k = Some (s1, SUCCESS)" "del s1 k = Some (s2, SUCCESS)"
    "ok s2" "cnt s2 = cnt s"
proof -
  from add_law [OF assms] obtain s1 where s1: "add s k = Some (s1, SUCCESS)" "ok s1"
      "cnt s1 = (cnt s)(k := Suc (cnt s k))" by blast
  moreover from del_law [OF s1(2) assms(2)] s1(3) obtain s2 where
    "del s1 k = Some (s2, SUCCESS)" "ok s2" "cnt s2 = (cnt s1)(k := cnt s1 k - 1)" by auto
  ultimately show thesis using that by (simp add: fun_upd_idem)
qed

text \<open>A run of additions and deletions (\<open>True\<close> adds).\<close>

fun run :: "'s \<Rightarrow> (bool \<times> 'k) list \<Rightarrow> 's option" where
  "run s [] = Some s"
| "run s ((b, k) # ops) =
     (case (if b then add s k else del s k) of None \<Rightarrow> None | Some (s', r) \<Rightarrow> run s' ops)"

text \<open>The count a run leaves, when no deletion comes before its addition.\<close>

fun balance :: "('k \<Rightarrow> nat) \<Rightarrow> (bool \<times> 'k) list \<Rightarrow> ('k \<Rightarrow> nat) option" where
  "balance c [] = Some c"
| "balance c ((b, k) # ops) =
     (if b then (if c k < 2 ^ 32 - 1 then balance (c(k := Suc (c k))) ops else None)
      else (if 0 < c k then balance (c(k := c k - 1)) ops else None))"

lemma run_balance:
  "\<lbrakk>ok s; \<forall>(b, k)\<in>set ops. key k; balance (cnt s) ops = Some c\<rbrakk> \<Longrightarrow>
   \<exists>s'. run s ops = Some s' \<and> ok s' \<and> cnt s' = c"
proof (induction ops arbitrary: s)
  case Nil
  then show ?case by simp
next
  case (Cons op ops)
  obtain b k where op: "op = (b, k)" by fastforce
  have key: "key k" using Cons.prems(2) op by simp
  show ?case
  proof (cases b)
    case True
    then have "cnt s k < 2 ^ 32 - 1" using Cons.prems(3) op by (simp split: if_splits)
    from add_law [OF Cons.prems(1) key this] obtain s1 where s1: "add s k = Some (s1, SUCCESS)"
        "ok s1" "cnt s1 = (cnt s)(k := Suc (cnt s k))" by blast
    with Cons True op show ?thesis by (simp split: if_splits)
  next
    case False
    then have "0 < cnt s k" using Cons.prems(3) op by (simp split: if_splits)
    from del_law [OF Cons.prems(1) key this] obtain s1 where s1: "del s k = Some (s1, SUCCESS)"
        "ok s1" "cnt s1 = (cnt s)(k := cnt s k - 1)" by blast
    with Cons False op show ?thesis by (simp split: if_splits)
  qed
qed

end

end
