(* ===== verification/Emf_Iflist.thy ===== *)
theory Emf_Iflist
  imports Emf_Mfdb Ref_Count
begin

text \<open>
  The interface list of one forwarding instance (emfc.c, "EMFC Interface List"): the ports on
  which multicast routers were seen (router ports) and the ports the user marked for flooding
  unregistered frames (UFFP) share one list with two reference counts per interface.
\<close>

section \<open>Operations\<close>

definition emfc_iflist_find :: "emfc_info \<Rightarrow> ifp \<Rightarrow> emfc_iflist option" where
  "emfc_iflist_find s i = List.find (\<lambda>p. ifl_ifp p = i) (iflist_head s)"

definition emfc_iflist_add :: "emfc_info \<Rightarrow> ifp \<Rightarrow> emfc_info \<times> int" where
  "emfc_iflist_add s i =
     (if i = 0 then (s, FAILURE)
      else if emfc_iflist_find s i \<noteq> None then (s, FAILURE)
      else
        let (os, q) = MALLOC (osh s); s1 = s\<lparr>osh := os\<rparr> in
        if q = 0 then (s1, FAILURE)
        else (s1\<lparr>iflist_head := \<lparr>ifl_ifp = i, uffp_ref = 0, rtport_ref = 0\<rparr> # iflist_head s1\<rparr>,
              SUCCESS))"

definition emfc_iflist_del :: "emfc_info \<Rightarrow> ifp \<Rightarrow> emfc_info \<times> int" where
  "emfc_iflist_del s i =
     (if i = 0 then (s, FAILURE)
      else if emfc_iflist_find s i = None then (s, FAILURE)
      else (s\<lparr>iflist_head := del_first (\<lambda>p. ifl_ifp p = i) (iflist_head s)\<rparr>, SUCCESS))"

definition iflist_write :: "emfc_info \<Rightarrow> ifp \<Rightarrow> (emfc_iflist \<Rightarrow> emfc_iflist) \<Rightarrow> emfc_info" where
  "iflist_write s i f = s\<lparr>iflist_head := upd_first (\<lambda>p. ifl_ifp p = i) f (iflist_head s)\<rparr>"

definition emfc_uffp_add :: "emfc_info \<Rightarrow> ifp \<Rightarrow> emfc_info \<times> int" where
  "emfc_uffp_add s i =
     (let (s1, r) = emfc_iflist_add s i in
      (if emfc_iflist_find s1 i \<noteq> None
       then iflist_write s1 i (\<lambda>p. p\<lparr>uffp_ref := uffp_ref p + 1\<rparr>) else s1, SUCCESS))"

definition emfc_uffp_del :: "emfc_info \<Rightarrow> ifp \<Rightarrow> emfc_info \<times> int" where
  "emfc_uffp_del s i =
     (case emfc_iflist_find s i of
        None \<Rightarrow> (s, FAILURE)
      | Some p \<Rightarrow>
          let s1 = iflist_write s i (\<lambda>p. p\<lparr>uffp_ref := uffp_ref p - 1\<rparr>) in
          (if uffp_ref p - 1 = 0 \<and> rtport_ref p = 0 then fst (emfc_iflist_del s1 i) else s1,
           SUCCESS))"

definition emfc_rtport_add :: "emfc_info \<Rightarrow> ifp \<Rightarrow> emfc_info \<times> int" where
  "emfc_rtport_add s i =
     (let (s1, r) = emfc_iflist_add s i in
      (if emfc_iflist_find s1 i \<noteq> None
       then iflist_write s1 i (\<lambda>p. p\<lparr>rtport_ref := rtport_ref p + 1\<rparr>) else s1, SUCCESS))"

definition emfc_rtport_del :: "emfc_info \<Rightarrow> ifp \<Rightarrow> emfc_info \<times> int" where
  "emfc_rtport_del s i =
     (case emfc_iflist_find s i of
        None \<Rightarrow> (s, FAILURE)
      | Some p \<Rightarrow>
          let s1 = iflist_write s i (\<lambda>p. p\<lparr>rtport_ref := rtport_ref p - 1\<rparr>) in
          (if rtport_ref p - 1 = 0 \<and> uffp_ref p = 0 then fst (emfc_iflist_del s1 i) else s1,
           SUCCESS))"

definition emfc_iflist_clear :: "emfc_info \<Rightarrow> emfc_info" where
  "emfc_iflist_clear s = s\<lparr>iflist_head := []\<rparr>"

text \<open>
  The two listings: entries of \<open>esz\<close> bytes are counted against the size of the buffer before
  each is written; the result is the list of names, \<open>None\<close> for \<open>FAILURE\<close>.
\<close>

fun port_list :: "(ifp \<Rightarrow> string) \<Rightarrow> (emfc_iflist \<Rightarrow> u32) \<Rightarrow> nat \<Rightarrow> nat \<Rightarrow> nat \<Rightarrow> emfc_iflist list
    \<Rightarrow> string list option" where
  "port_list nm ref esz sz bytes [] = Some []"
| "port_list nm ref esz sz bytes (p # ps) =
     (if ref p = 0 then port_list nm ref esz sz bytes ps
      else if bytes + esz > sz then None
      else map_option (Cons (take 15 (nm (ifl_ifp p)))) (port_list nm ref esz sz (bytes + esz) ps))"

text \<open>\<open>sizeof(emf_cfg_uffp_t)\<close> and \<open>sizeof(emf_cfg_rtport_t)\<close> on the 32-bit target.\<close>

definition sizeof_port_entry :: nat where "sizeof_port_entry = 20"

definition emfc_uffp_list :: "(ifp \<Rightarrow> string) \<Rightarrow> emfc_info \<Rightarrow> nat \<Rightarrow> string list option" where
  "emfc_uffp_list nm s sz = port_list nm uffp_ref sizeof_port_entry sz 0 (iflist_head s)"

definition emfc_rtport_list :: "(ifp \<Rightarrow> string) \<Rightarrow> emfc_info \<Rightarrow> nat \<Rightarrow> string list option" where
  "emfc_rtport_list nm s sz = port_list nm rtport_ref sizeof_port_entry sz 0 (iflist_head s)"

section \<open>Abstract content\<close>

definition uffp_cnt :: "emfc_info \<Rightarrow> ifp \<Rightarrow> nat" where
  "uffp_cnt s i = (case emfc_iflist_find s i of None \<Rightarrow> 0 | Some p \<Rightarrow> unat (uffp_ref p))"

definition rtport_cnt :: "emfc_info \<Rightarrow> ifp \<Rightarrow> nat" where
  "rtport_cnt s i = (case emfc_iflist_find s i of None \<Rightarrow> 0 | Some p \<Rightarrow> unat (rtport_ref p))"

text \<open>No interface is listed twice, and none is the null pointer.\<close>

definition iflist_wf :: "emfc_info \<Rightarrow> bool" where
  "iflist_wf s \<longleftrightarrow> distinct (map ifl_ifp (iflist_head s)) \<and> 0 \<notin> ifl_ifp ` set (iflist_head s)"

lemma iflist_find_key: "emfc_iflist_find s i = Some p \<Longrightarrow> ifl_ifp p = i \<and> p \<in> set (iflist_head s)"
  by (auto simp: emfc_iflist_find_def dest: find_SomeD)

lemma iflist_find_write:
  assumes "\<And>p. ifl_ifp (f p) = ifl_ifp p"
  shows "emfc_iflist_find (iflist_write s i f) j =
     (if j = i then map_option f (emfc_iflist_find s i) else emfc_iflist_find s j)"
proof (cases "j = i")
  case True
  then show ?thesis
    using assms by (simp add: emfc_iflist_find_def iflist_write_def find_upd_first_same)
next
  case False
  then have "List.find (\<lambda>p. ifl_ifp p = j) (upd_first (\<lambda>p. ifl_ifp p = i) f (iflist_head s)) =
      List.find (\<lambda>p. ifl_ifp p = j) (iflist_head s)"
    using assms by (intro find_upd_first_other) auto
  with False show ?thesis by (simp add: emfc_iflist_find_def iflist_write_def)
qed

lemma iflist_write_wf:
  assumes "\<And>p. ifl_ifp (f p) = ifl_ifp p"
  shows "iflist_wf (iflist_write s i f) = iflist_wf s"
proof -
  have "map ifl_ifp (iflist_head (iflist_write s i f)) = map ifl_ifp (iflist_head s)"
    using assms by (simp add: iflist_write_def map_upd_first_inv)
  then show ?thesis unfolding iflist_wf_def by (metis list.set_map)
qed

lemma iflist_find_del:
  assumes "iflist_wf s"
  shows "emfc_iflist_find (fst (emfc_iflist_del s i)) j = (if j = i then None else emfc_iflist_find s j)"
proof (cases "j = i")
  case True
  have "0 \<notin> ifl_ifp ` set (iflist_head s) \<Longrightarrow> List.find (\<lambda>p. ifl_ifp p = 0) (iflist_head s) = None"
    by (force simp: find_None_notin)
  with assms True show ?thesis
    by (auto simp: emfc_iflist_find_def emfc_iflist_del_def iflist_wf_def find_del_first_key)
next
  case False
  then have "List.find (\<lambda>p. ifl_ifp p = j) (del_first (\<lambda>p. ifl_ifp p = i) (iflist_head s)) =
      List.find (\<lambda>p. ifl_ifp p = j) (iflist_head s)"
    by (intro find_del_first_other) auto
  with False show ?thesis by (simp add: emfc_iflist_find_def emfc_iflist_del_def)
qed

lemma iflist_del_wf: "iflist_wf s \<Longrightarrow> iflist_wf (fst (emfc_iflist_del s i))"
  using set_del_first_subset [of "\<lambda>p. ifl_ifp p = i" "iflist_head s"]
  by (auto simp: iflist_wf_def emfc_iflist_del_def distinct_map_del_first)

lemma port_cnt_write:
  assumes "\<And>p. ifl_ifp (f p) = ifl_ifp p"
  shows "(\<And>p. uffp_ref (f p) = uffp_ref p) \<Longrightarrow> uffp_cnt (iflist_write s i f) = uffp_cnt s"
    "(\<And>p. rtport_ref (f p) = rtport_ref p) \<Longrightarrow> rtport_cnt (iflist_write s i f) = rtport_cnt s"
  by (auto simp: uffp_cnt_def rtport_cnt_def fun_eq_iff iflist_find_write [OF assms]
      split: option.split)

text \<open>Adding an interface leaves it listed, with the counts it had.\<close>

lemma iflist_add_cases:
  assumes "emfc_iflist_add s i = (s1, r)"
  obtains (same) "r = FAILURE" "iflist_head s1 = iflist_head s" "mem_ok (osh s1) = mem_ok (osh s)"
      "i \<noteq> 0 \<Longrightarrow> mem_reliable (osh s) \<Longrightarrow> emfc_iflist_find s i \<noteq> None"
  | (new) "r = SUCCESS" "i \<noteq> 0" "emfc_iflist_find s i = None"
      "iflist_head s1 = \<lparr>ifl_ifp = i, uffp_ref = 0, rtport_ref = 0\<rparr> # iflist_head s"
      "mem_ok (osh s1) = mem_ok (osh s)"
  using assms MALLOC_D(1,3)
  by (fastforce simp: emfc_iflist_add_def Let_def split: if_splits prod.splits)

lemma iflist_add_state:
  assumes "emfc_iflist_add s i = (s1, r)" "iflist_wf s"
  shows "iflist_wf s1"
    "uffp_cnt s1 = uffp_cnt s" "rtport_cnt s1 = rtport_cnt s"
    "i \<noteq> 0 \<Longrightarrow> mem_reliable (osh s) \<Longrightarrow> emfc_iflist_find s1 i \<noteq> None"
    "mem_ok (osh s1) = mem_ok (osh s)"
proof -
  from assms(1) have "iflist_wf s1 \<and> uffp_cnt s1 = uffp_cnt s \<and> rtport_cnt s1 = rtport_cnt s \<and>
      (i \<noteq> 0 \<longrightarrow> mem_reliable (osh s) \<longrightarrow> emfc_iflist_find s1 i \<noteq> None) \<and>
      mem_ok (osh s1) = mem_ok (osh s)"
  proof (cases rule: iflist_add_cases)
    case same
    then show ?thesis
      using assms(2) by (simp add: iflist_wf_def uffp_cnt_def rtport_cnt_def emfc_iflist_find_def
          fun_eq_iff)
  next
    case new
    then have find: "emfc_iflist_find s1 j = (if j = i
        then Some \<lparr>ifl_ifp = i, uffp_ref = 0, rtport_ref = 0\<rparr> else emfc_iflist_find s j)" for j
      by (simp add: emfc_iflist_find_def)
    have "i \<notin> ifl_ifp ` set (iflist_head s)"
      using new(3) by (force simp: emfc_iflist_find_def find_None_notin)
    then have "iflist_wf s1" using new assms(2) by (auto simp: iflist_wf_def)
    moreover have "uffp_cnt s1 = uffp_cnt s" "rtport_cnt s1 = rtport_cnt s"
      using new(3) by (auto simp: uffp_cnt_def rtport_cnt_def fun_eq_iff find)
    ultimately show ?thesis using new by (simp add: find)
  qed
  then show "iflist_wf s1" "uffp_cnt s1 = uffp_cnt s" "rtport_cnt s1 = rtport_cnt s"
    "i \<noteq> 0 \<Longrightarrow> mem_reliable (osh s) \<Longrightarrow> emfc_iflist_find s1 i \<noteq> None"
    "mem_ok (osh s1) = mem_ok (osh s)" by auto
qed

lemma iflist_write_osh [simp]:
  "osh (iflist_write s i f) = osh s" "osh (fst (emfc_iflist_del s i)) = osh s"
  by (simp_all add: iflist_write_def emfc_iflist_del_def)

section \<open>Reference counting\<close>

text \<open>
  The counts after adding to or deleting from one of the two registries; the other registry
  keeps its counts.
\<close>

lemma port_add_cnt:
  assumes "iflist_wf s"
  shows "iflist_wf (fst (emfc_rtport_add s i))" "iflist_wf (fst (emfc_uffp_add s i))"
    "uffp_cnt (fst (emfc_rtport_add s i)) = uffp_cnt s"
    "rtport_cnt (fst (emfc_uffp_add s i)) = rtport_cnt s"
proof -
  obtain s1 r where s1: "emfc_iflist_add s i = (s1, r)" by fastforce
  note st = iflist_add_state [OF s1 assms]
  show "iflist_wf (fst (emfc_rtport_add s i))" "iflist_wf (fst (emfc_uffp_add s i))"
    using st(1) s1 by (auto simp: emfc_rtport_add_def emfc_uffp_add_def iflist_write_wf)
  show "uffp_cnt (fst (emfc_rtport_add s i)) = uffp_cnt s"
    using st(2) s1 by (simp add: emfc_rtport_add_def port_cnt_write)
  show "rtport_cnt (fst (emfc_uffp_add s i)) = rtport_cnt s"
    using st(3) s1 by (simp add: emfc_uffp_add_def port_cnt_write)
qed

lemma rtport_add_law:
  assumes "iflist_wf s" "mem_reliable (osh s)" "i \<noteq> 0" "rtport_cnt s i < 2 ^ 32 - 1"
  shows "\<exists>s'. emfc_rtport_add s i = (s', SUCCESS) \<and> iflist_wf s' \<and> mem_reliable (osh s') \<and>
    rtport_cnt s' = (rtport_cnt s)(i := Suc (rtport_cnt s i)) \<and> uffp_cnt s' = uffp_cnt s"
proof -
  obtain s1 r where s1: "emfc_iflist_add s i = (s1, r)" by fastforce
  note st = iflist_add_state [OF s1 assms(1)]
  from st(4) assms obtain p where p: "emfc_iflist_find s1 i = Some p" by auto
  then have c: "rtport_cnt s i = unat (rtport_ref p)" using fun_cong [OF st(3), of i] by (simp add: rtport_cnt_def)
  then have "unat (rtport_ref p + 1) = Suc (unat (rtport_ref p))"
    using assms(4) by (simp add: unat_word_ariths)
  then have "rtport_cnt (fst (emfc_rtport_add s i)) = (rtport_cnt s)(i := Suc (rtport_cnt s i))"
    using fun_cong [OF st(3)] s1 p c
    by (auto simp: emfc_rtport_add_def fun_eq_iff rtport_cnt_def iflist_find_write)
  moreover have "mem_reliable (osh (fst (emfc_rtport_add s i)))"
    using st(5) s1 assms(2) by (simp add: emfc_rtport_add_def mem_reliable_def)
  ultimately show ?thesis
    using port_add_cnt [OF assms(1), of i] by (auto simp: emfc_rtport_add_def split: prod.splits)
qed

lemma uffp_add_law:
  assumes "iflist_wf s" "mem_reliable (osh s)" "i \<noteq> 0" "uffp_cnt s i < 2 ^ 32 - 1"
  shows "\<exists>s'. emfc_uffp_add s i = (s', SUCCESS) \<and> iflist_wf s' \<and> mem_reliable (osh s') \<and>
    uffp_cnt s' = (uffp_cnt s)(i := Suc (uffp_cnt s i)) \<and> rtport_cnt s' = rtport_cnt s"
proof -
  obtain s1 r where s1: "emfc_iflist_add s i = (s1, r)" by fastforce
  note st = iflist_add_state [OF s1 assms(1)]
  from st(4) assms obtain p where p: "emfc_iflist_find s1 i = Some p" by auto
  then have c: "uffp_cnt s i = unat (uffp_ref p)" using fun_cong [OF st(2), of i] by (simp add: uffp_cnt_def)
  then have "unat (uffp_ref p + 1) = Suc (unat (uffp_ref p))"
    using assms(4) by (simp add: unat_word_ariths)
  then have "uffp_cnt (fst (emfc_uffp_add s i)) = (uffp_cnt s)(i := Suc (uffp_cnt s i))"
    using fun_cong [OF st(2)] s1 p c
    by (auto simp: emfc_uffp_add_def fun_eq_iff uffp_cnt_def iflist_find_write)
  moreover have "mem_reliable (osh (fst (emfc_uffp_add s i)))"
    using st(5) s1 assms(2) by (simp add: emfc_uffp_add_def mem_reliable_def)
  ultimately show ?thesis
    using port_add_cnt [OF assms(1), of i] by (auto simp: emfc_uffp_add_def split: prod.splits)
qed

lemma rtport_del_law:
  assumes "iflist_wf s" "0 < rtport_cnt s i"
  shows "\<exists>s'. emfc_rtport_del s i = (s', SUCCESS) \<and> iflist_wf s' \<and> osh s' = osh s \<and>
    rtport_cnt s' = (rtport_cnt s)(i := rtport_cnt s i - 1) \<and> uffp_cnt s' = uffp_cnt s"
proof -
  obtain p where p: "emfc_iflist_find s i = Some p"
    using assms(2) by (auto simp: rtport_cnt_def split: option.splits)
  define f where "f p = p\<lparr>rtport_ref := rtport_ref p - 1\<rparr>" for p :: emfc_iflist
  have f: "ifl_ifp (f p) = ifl_ifp p" for p by (simp add: f_def)
  have wf1: "iflist_wf (iflist_write s i f)" using assms(1) by (simp add: iflist_write_wf f)
  have ref: "unat (rtport_ref p - 1) = unat (rtport_ref p) - 1" "rtport_cnt s i = unat (rtport_ref p)"
    using assms(2) p by (auto simp: rtport_cnt_def unat_dec)
  show ?thesis
    using p ref wf1 iflist_del_wf [OF wf1]
    by (auto simp: emfc_rtport_del_def f_def [symmetric] f_def [abs_def, symmetric] Let_def
        fun_eq_iff rtport_cnt_def uffp_cnt_def iflist_find_write f iflist_find_del [OF wf1])
      (auto simp: f_def ref)
qed

lemma uffp_del_law:
  assumes "iflist_wf s" "0 < uffp_cnt s i"
  shows "\<exists>s'. emfc_uffp_del s i = (s', SUCCESS) \<and> iflist_wf s' \<and> osh s' = osh s \<and>
    uffp_cnt s' = (uffp_cnt s)(i := uffp_cnt s i - 1) \<and> rtport_cnt s' = rtport_cnt s"
proof -
  obtain p where p: "emfc_iflist_find s i = Some p"
    using assms(2) by (auto simp: uffp_cnt_def split: option.splits)
  define f where "f p = p\<lparr>uffp_ref := uffp_ref p - 1\<rparr>" for p :: emfc_iflist
  have f: "ifl_ifp (f p) = ifl_ifp p" for p by (simp add: f_def)
  have wf1: "iflist_wf (iflist_write s i f)" using assms(1) by (simp add: iflist_write_wf f)
  have ref: "unat (uffp_ref p - 1) = unat (uffp_ref p) - 1" "uffp_cnt s i = unat (uffp_ref p)"
    using assms(2) p by (auto simp: uffp_cnt_def unat_dec)
  show ?thesis
    using p ref wf1 iflist_del_wf [OF wf1]
    by (auto simp: emfc_uffp_del_def f_def [symmetric] f_def [abs_def, symmetric] Let_def
        fun_eq_iff rtport_cnt_def uffp_cnt_def iflist_find_write f iflist_find_del [OF wf1])
      (auto simp: f_def ref)
qed

section \<open>The three registries\<close>

interpretation rtport: ref_count "\<lambda>s i. Some (emfc_rtport_add s i)" "\<lambda>s i. Some (emfc_rtport_del s i)"
    rtport_cnt "\<lambda>s. iflist_wf s \<and> mem_reliable (osh s)" "\<lambda>i. i \<noteq> 0"
proof unfold_locales
  fix s and k :: ifp
  assume "iflist_wf s \<and> mem_reliable (osh s)" "k \<noteq> 0" "rtport_cnt s k < 2 ^ 32 - 1"
  then show "\<exists>s'. Some (emfc_rtport_add s k) = Some (s', SUCCESS) \<and>
      (iflist_wf s' \<and> mem_reliable (osh s')) \<and> rtport_cnt s' = (rtport_cnt s)(k := Suc (rtport_cnt s k))"
    using rtport_add_law [of s k] by auto
next
  fix s and k :: ifp
  assume "iflist_wf s \<and> mem_reliable (osh s)" "0 < rtport_cnt s k"
  then show "\<exists>s'. Some (emfc_rtport_del s k) = Some (s', SUCCESS) \<and>
      (iflist_wf s' \<and> mem_reliable (osh s')) \<and> rtport_cnt s' = (rtport_cnt s)(k := rtport_cnt s k - 1)"
    using rtport_del_law [of s k] by auto
qed

interpretation uffp: ref_count "\<lambda>s i. Some (emfc_uffp_add s i)" "\<lambda>s i. Some (emfc_uffp_del s i)"
    uffp_cnt "\<lambda>s. iflist_wf s \<and> mem_reliable (osh s)" "\<lambda>i. i \<noteq> 0"
proof unfold_locales
  fix s and k :: ifp
  assume "iflist_wf s \<and> mem_reliable (osh s)" "k \<noteq> 0" "uffp_cnt s k < 2 ^ 32 - 1"
  then show "\<exists>s'. Some (emfc_uffp_add s k) = Some (s', SUCCESS) \<and>
      (iflist_wf s' \<and> mem_reliable (osh s')) \<and> uffp_cnt s' = (uffp_cnt s)(k := Suc (uffp_cnt s k))"
    using uffp_add_law [of s k] by auto
next
  fix s and k :: ifp
  assume "iflist_wf s \<and> mem_reliable (osh s)" "0 < uffp_cnt s k"
  then show "\<exists>s'. Some (emfc_uffp_del s k) = Some (s', SUCCESS) \<and>
      (iflist_wf s' \<and> mem_reliable (osh s')) \<and> uffp_cnt s' = (uffp_cnt s)(k := uffp_cnt s k - 1)"
    using uffp_del_law [of s k] by auto
qed

text \<open>The membership registry: a key is a group and an interface.\<close>

definition mfdb_ok :: "emfc_info \<Rightarrow> bool" where
  "mfdb_ok s \<longleftrightarrow> mfdb_wf s \<and> mem_reliable (osh s)"

lemma mfdb_add_ok:
  assumes "mfdb_ok s" "g \<noteq> 0" "mfdb_cnt s g i < 2 ^ 32 - 1"
  shows "\<exists>s'. emfc_mfdb_membership_add s g i = Some (s', SUCCESS) \<and> mfdb_ok s' \<and>
    mfdb_cnt s' = mfdb_bump s g i (Suc (mfdb_cnt s g i)) \<and> mfdb_frame s s'"
  using membership_add_law [of s g i] assms
  by (auto simp: mfdb_ok_def add_outcome_def mhif_ready_def mfdb_frame_def mem_reliable_def)

lemma mfdb_del_ok:
  assumes "mfdb_ok s" "g \<noteq> 0" "0 < mfdb_cnt s g i"
  shows "\<exists>s'. emfc_mfdb_membership_del s g i = Some (s', SUCCESS) \<and> mfdb_ok s' \<and>
    mfdb_cnt s' = mfdb_bump s g i (mfdb_cnt s g i - 1) \<and> mfdb_frame s s'"
  using membership_del_law [of s g i] assms
  by (auto simp: mfdb_ok_def del_outcome_def mfdb_frame_def mem_reliable_def split: if_splits)

interpretation mfdb: ref_count
    "\<lambda>s k. emfc_mfdb_membership_add s (fst k) (snd k)"
    "\<lambda>s k. emfc_mfdb_membership_del s (fst k) (snd k)"
    "\<lambda>s k. mfdb_cnt s (fst k) (snd k)" mfdb_ok "\<lambda>k. fst k \<noteq> 0"
proof unfold_locales
  fix s and k :: "u32 \<times> ifp"
  assume "mfdb_ok s" "fst k \<noteq> 0" "mfdb_cnt s (fst k) (snd k) < 2 ^ 32 - 1"
  from mfdb_add_ok [OF this]
  show "\<exists>s'. emfc_mfdb_membership_add s (fst k) (snd k) = Some (s', SUCCESS) \<and> mfdb_ok s' \<and>
      (\<lambda>k. mfdb_cnt s' (fst k) (snd k)) =
      (\<lambda>k. mfdb_cnt s (fst k) (snd k))(k := Suc (mfdb_cnt s (fst k) (snd k)))"
    by (cases k) (auto simp: mfdb_bump_def fun_eq_iff)
next
  fix s and k :: "u32 \<times> ifp"
  assume "mfdb_ok s" "fst k \<noteq> 0" "0 < mfdb_cnt s (fst k) (snd k)"
  from mfdb_del_ok [OF this]
  show "\<exists>s'. emfc_mfdb_membership_del s (fst k) (snd k) = Some (s', SUCCESS) \<and> mfdb_ok s' \<and>
      (\<lambda>k. mfdb_cnt s' (fst k) (snd k)) =
      (\<lambda>k. mfdb_cnt s (fst k) (snd k))(k := mfdb_cnt s (fst k) (snd k) - 1)"
    by (cases k) (auto simp: mfdb_bump_def fun_eq_iff)
qed

end
