(* ===== verification/Osl_Timer.thy ===== *)
theory Osl_Timer
  imports Router_Prelude
begin

text \<open>
  The timers of the multicast modules (emf/igs/osl_linux.c), over the kernel's timer queue.
  A timer object records whether it is armed (\<open>t_set\<close>), whether the kernel has it queued
  (\<open>t_pending\<close>) and when it expires, in jiffies. The tick rate \<open>hz\<close> is the kernel's, a
  parameter. A timer object that has been freed is \<open>None\<close>.
\<close>

record osl_timer =
  t_expires :: nat
  t_ms :: u32
  t_periodic :: bool
  t_set :: bool
  t_pending :: bool

definition timer_expires :: "nat \<Rightarrow> nat \<Rightarrow> u32 \<Rightarrow> nat" where
  "timer_expires hz now ms = now + unat (ms * of_nat hz) div 1000"

definition osl_timer_init :: "osl \<Rightarrow> osl \<times> osl_timer option" where
  "osl_timer_init os = (let (os', p) = MALLOC os in
     if p = 0 then (os', None)
     else (os', Some \<lparr>t_expires = 0, t_ms = 0, t_periodic = False, t_set = False, t_pending = False\<rparr>))"

definition osl_timer_add :: "nat \<Rightarrow> nat \<Rightarrow> osl_timer \<Rightarrow> u32 \<Rightarrow> bool \<Rightarrow> osl_timer" where
  "osl_timer_add hz now t ms periodic =
     t\<lparr>t_set := True, t_ms := ms, t_periodic := periodic,
       t_expires := timer_expires hz now ms, t_pending := True\<rparr>"

definition osl_timer_update :: "nat \<Rightarrow> nat \<Rightarrow> osl_timer \<Rightarrow> u32 \<Rightarrow> bool \<Rightarrow> osl_timer" where
  "osl_timer_update hz now t ms periodic =
     t\<lparr>t_ms := ms, t_periodic := periodic, t_set := True,
       t_expires := timer_expires hz now ms, t_pending := True\<rparr>"

text \<open>
  \<open>osl_timer_del\<close> frees the object when the kernel still had it queued; the second result is
  its return value.
\<close>

definition osl_timer_del :: "osl_timer \<Rightarrow> osl_timer option \<times> bool" where
  "osl_timer_del t =
     (if t_set t then
        (if \<not> t_pending t then (Some (t\<lparr>t_set := False\<rparr>), False) else (None, True))
      else (Some t, True))"

text \<open>
  The expiry handler: a periodic timer is queued again before its function runs, a one-shot
  timer is disarmed before and freed after. The result is the object as the function sees
  it, and as it is left.
\<close>

definition osl_timer :: "nat \<Rightarrow> nat \<Rightarrow> osl_timer \<Rightarrow> osl_timer \<times> osl_timer option" where
  "osl_timer hz now t =
     (if t_periodic t then
        let t' = t\<lparr>t_expires := timer_expires hz now (t_ms t), t_set := True, t_pending := True\<rparr>
        in (t', Some t')
      else (t\<lparr>t_set := False, t_pending := False\<rparr>, None))"

text \<open>A one-shot timer that is armed and queued, as the multicast modules keep them.\<close>

definition timer_live :: "osl_timer option \<Rightarrow> bool" where
  "timer_live x \<longleftrightarrow> (\<exists>t. x = Some t \<and> t_set t \<and> t_pending t \<and> \<not> t_periodic t)"

lemma timer_live_add [simp]: "timer_live (Some (osl_timer_add hz now t ms False))"
  by (simp add: timer_live_def osl_timer_add_def)

lemma timer_live_update [simp]: "timer_live (Some (osl_timer_update hz now t ms False))"
  by (simp add: timer_live_def osl_timer_update_def)

lemma timer_live_del: "timer_live (Some t) \<Longrightarrow> osl_timer_del t = (None, True)"
  by (auto simp: timer_live_def osl_timer_del_def)

lemma timer_live_SomeE:
  assumes "timer_live x"
  obtains t where "x = Some t" "timer_live (Some t)"
  using assms by (auto simp: timer_live_def)

lemma osl_timer_init_D:
  "osl_timer_init os = (os', x) \<Longrightarrow> mem_ok os' = mem_ok os"
  "osl_timer_init os = (os', x) \<Longrightarrow> mem_seq os' = Suc (mem_seq os)"
  "osl_timer_init os = (os', x) \<Longrightarrow> x = None \<Longrightarrow> \<not> mem_reliable os"
  by (auto simp: osl_timer_init_def MALLOC_def mem_reliable_def Let_def split: if_splits)

end
