(* ===== verification/Igs_Data.thy ===== *)
theory Igs_Data
  imports Emf_Iflist Osl_Timer
begin

text \<open>
  The data of the IGMP snooping layer (igsc.h, igsc_sdb.h, igs_cfg.h). The snooping database
  (IGSDB) has for every multicast group the hosts that joined it, each with a one-shot
  membership timer, and the interfaces those hosts are on, each with the number of hosts on
  it. A host entry points to its interface entry: both carry their addresses. A host's
  pointer to its group is the group that contains it; a group is named by its IP address,
  which occurs once in the table.
\<close>

record igsc_mi =
  smi_addr :: addr
  smi_ifp :: ifp
  smi_ref :: int

record igsc_mh =
  smh_addr :: addr
  smh_ip :: u32
  smh_timer :: "osl_timer option"
  smh_mi :: addr

record igsc_mgrp =
  smgrp_ip :: u32
  smh_head :: "igsc_mh list"
  smi_head :: "igsc_mi list"

record igsc_rtlist =
  rtl_addr :: addr
  rtl_ifp :: ifp
  rtl_mr_ip :: u32
  rtl_timer :: addr

text \<open>A timer object of the router list: the entry its function is called with, and its state.\<close>

record rt_timer =
  rt_arg :: addr
  rt_tm :: osl_timer

record igs_stats =
  igmp_packets :: u32
  igmp_queries :: u32
  igmp_reports :: u32
  igmp_v2reports :: u32
  igmp_v3reports :: u32
  igmp_leaves :: u32
  igmp_not_handled :: u32
  igmp_mem_timeouts :: u32
  igs_frames_fwd :: u32
  igs_frames_sentup :: u32
  igmp_mcast_groups :: u32
  igmp_mcast_members :: u32

text \<open>
  The instance. \<open>emf_handle\<close> is the forwarding instance it is registered with; \<open>jiffies\<close> and
  \<open>hz\<close> are the kernel's clock; \<open>igs_bcast_ok\<close> is the result of the wrapper's broadcast function
  and \<open>igs_tx\<close> the packets given to it. \<open>rt_timers\<close> is the memory of the
  timer objects of the router list, which the kernel's queue points to whether or not their entry is still
  there, and \<open>stale_reads\<close> says whether reading a node right after it was freed still yields what it held.
\<close>

record igsc_info =
  mgrp_sdb :: "igsc_mgrp chains"
  emf_handle :: emfc_info
  grp_mem_intv :: u32
  query_intv :: u32
  igs_osh :: osl
  rtlist_head :: "igsc_rtlist list"
  sstats :: igs_stats
  jiffies :: nat
  hz :: nat
  igs_bcast_ok :: bool
  igs_tx :: "u8 list list"
  rt_timers :: "addr \<Rightarrow> rt_timer option"
  stale_reads :: bool

definition IGSDB_HASHT_SIZE :: nat where
  "IGSDB_HASHT_SIZE = 8"

definition IGSDB_MGRP_HASH :: "u32 \<Rightarrow> nat" where
  "IGSDB_MGRP_HASH m = unat ((drop_bit 24 m + drop_bit 16 m + drop_bit 8 m + (m AND 0xff)) AND 7)"

interpretation sdb: hash_chain smgrp_ip IGSDB_MGRP_HASH IGSDB_HASHT_SIZE
  by unfold_locales (simp add: IGSDB_MGRP_HASH_def IGSDB_HASHT_SIZE_def word_and_7)

abbreviation sdb_groups :: "igsc_info \<Rightarrow> igsc_mgrp list" where
  "sdb_groups w \<equiv> ht_nodes IGSDB_HASHT_SIZE (mgrp_sdb w)"

text \<open>\<open>IGMPV2_QUERY_INTV\<close>, \<open>IGMPV2_MAXRSP_TIME\<close> and \<open>IGMPV2_GRP_MEM_INTV\<close>, in milliseconds.\<close>

definition IGMPV2_QUERY_INTV :: u32 where "IGMPV2_QUERY_INTV = 130000"
definition IGMPV2_MAXRSP_TIME :: u32 where "IGMPV2_MAXRSP_TIME = 10000"
definition IGMPV2_ROBUSTNESS_VAR :: u32 where "IGMPV2_ROBUSTNESS_VAR = 2"

definition IGMPV2_GRP_MEM_INTV :: u32 where
  "IGMPV2_GRP_MEM_INTV = IGMPV2_ROBUSTNESS_VAR * IGMPV2_QUERY_INTV + IGMPV2_MAXRSP_TIME"

definition zero_igs_stats :: igs_stats where
  "zero_igs_stats = \<lparr>igmp_packets = 0, igmp_queries = 0, igmp_reports = 0, igmp_v2reports = 0,
     igmp_v3reports = 0, igmp_leaves = 0, igmp_not_handled = 0, igmp_mem_timeouts = 0,
     igs_frames_fwd = 0, igs_frames_sentup = 0, igmp_mcast_groups = 0, igmp_mcast_members = 0\<rparr>"

text \<open>\<open>IGSC_STATS_INCR\<close> and \<open>IGSC_STATS_DECR\<close>, per counter.\<close>

definition stat_groups :: "u32 \<Rightarrow> igsc_info \<Rightarrow> igsc_info" where
  "stat_groups d w = w\<lparr>sstats := (sstats w)\<lparr>igmp_mcast_groups := igmp_mcast_groups (sstats w) + d\<rparr>\<rparr>"

definition stat_members :: "u32 \<Rightarrow> igsc_info \<Rightarrow> igsc_info" where
  "stat_members d w = w\<lparr>sstats := (sstats w)\<lparr>igmp_mcast_members := igmp_mcast_members (sstats w) + d\<rparr>\<rparr>"

definition stat_timeout :: "igsc_info \<Rightarrow> igsc_info" where
  "stat_timeout w = w\<lparr>sstats := (sstats w)\<lparr>igmp_mem_timeouts := igmp_mem_timeouts (sstats w) + 1\<rparr>\<rparr>"

lemma stat_simps [simp]:
  "mgrp_sdb (stat_groups d w) = mgrp_sdb w" "mgrp_sdb (stat_members d w) = mgrp_sdb w"
  "mgrp_sdb (stat_timeout w) = mgrp_sdb w"
  "emf_handle (stat_groups d w) = emf_handle w" "emf_handle (stat_members d w) = emf_handle w"
  "emf_handle (stat_timeout w) = emf_handle w"
  "igs_osh (stat_groups d w) = igs_osh w" "igs_osh (stat_members d w) = igs_osh w"
  "igs_osh (stat_timeout w) = igs_osh w"
  "rtlist_head (stat_groups d w) = rtlist_head w" "rtlist_head (stat_members d w) = rtlist_head w"
  "rtlist_head (stat_timeout w) = rtlist_head w"
  "rt_timers (stat_groups d w) = rt_timers w" "rt_timers (stat_members d w) = rt_timers w"
  "rt_timers (stat_timeout w) = rt_timers w"
  by (simp_all add: stat_groups_def stat_members_def stat_timeout_def)

end
