(* ===== verification/Igs_Sdb.thy ===== *)
theory Igs_Sdb
  imports Igs_Data
begin

text \<open>
  The IGMP snooping database of igsc_sdb.c: a host joins, is refreshed, leaves or times out.
  The first host of an interface registers the interface with the forwarding database, the
  last one withdraws it. Operations return \<open>None\<close> where the code would follow a dangling
  pointer or use a freed timer.
\<close>

section \<open>Operations\<close>

definition igsc_sdb_init :: "igsc_info \<Rightarrow> igsc_info" where
  "igsc_sdb_init w = w\<lparr>mgrp_sdb := (\<lambda>i. if i < IGSDB_HASHT_SIZE then [] else mgrp_sdb w i)\<rparr>"

definition igsc_sdb_group_find :: "igsc_info \<Rightarrow> u32 \<Rightarrow> igsc_mgrp option" where
  "igsc_sdb_group_find w g = List.find (\<lambda>m. smgrp_ip m = g) (mgrp_sdb w (IGSDB_MGRP_HASH g))"

text \<open>Writing to and unlinking the group \<open>g\<close>; reading through a pointer to an interface entry.\<close>

definition sdb_write :: "igsc_info \<Rightarrow> u32 \<Rightarrow> (igsc_mgrp \<Rightarrow> igsc_mgrp) \<Rightarrow> igsc_info" where
  "sdb_write w g f = w\<lparr>mgrp_sdb := ht_update (mgrp_sdb w) (\<lambda>m. smgrp_ip m = g) f\<rparr>"

definition sdb_unlink :: "igsc_info \<Rightarrow> u32 \<Rightarrow> igsc_info" where
  "sdb_unlink w g = w\<lparr>mgrp_sdb := ht_delete (mgrp_sdb w) (\<lambda>m. smgrp_ip m = g)\<rparr>"

definition mi_at :: "igsc_mi list \<Rightarrow> addr \<Rightarrow> igsc_mi option" where
  "mi_at mis p = List.find (\<lambda>mi. smi_addr mi = p) mis"

definition mi_ref_add :: "int \<Rightarrow> addr \<Rightarrow> igsc_mi list \<Rightarrow> igsc_mi list" where
  "mi_ref_add d p mis = map (\<lambda>mi. if smi_addr mi = p then mi\<lparr>smi_ref := smi_ref mi + d\<rparr> else mi) mis"

fun igsc_sdb_mh_entry_find :: "igsc_mi list \<Rightarrow> igsc_mh list \<Rightarrow> u32 \<Rightarrow> ifp \<Rightarrow> igsc_mh option option" where
  "igsc_sdb_mh_entry_find mis [] h i = Some None"
| "igsc_sdb_mh_entry_find mis (mh # mhs) h i =
     (if h = smh_ip mh then
        (case mi_at mis (smh_mi mh) of
           None \<Rightarrow> None
         | Some mi \<Rightarrow> if i = smi_ifp mi then Some (Some mh) else igsc_sdb_mh_entry_find mis mhs h i)
      else igsc_sdb_mh_entry_find mis mhs h i)"

definition igsc_sdb_mi_entry_find :: "igsc_mgrp \<Rightarrow> ifp \<Rightarrow> igsc_mi option" where
  "igsc_sdb_mi_entry_find m i = List.find (\<lambda>mi. smi_ifp mi = i) (smi_head m)"

definition igsc_sdb_member_find :: "igsc_info \<Rightarrow> u32 \<Rightarrow> u32 \<Rightarrow> ifp \<Rightarrow> igsc_mh option option" where
  "igsc_sdb_member_find w g h i =
     (case igsc_sdb_group_find w g of
        None \<Rightarrow> Some None
      | Some m \<Rightarrow> igsc_sdb_mh_entry_find (smi_head m) (smh_head m) h i)"

text \<open>The end of \<open>igsc_sdb_mh_delete\<close>: the host entry goes, and the group with its last host.\<close>

definition mh_unlink :: "igsc_info \<Rightarrow> u32 \<Rightarrow> addr \<Rightarrow> igsc_info option" where
  "mh_unlink w g a =
     (let w1 = stat_members (- 1)
            (sdb_write w g (\<lambda>m. m\<lparr>smh_head := filter (\<lambda>mh. smh_addr mh \<noteq> a) (smh_head m)\<rparr>)) in
      case igsc_sdb_group_find w1 g of
        None \<Rightarrow> None
      | Some m \<Rightarrow> Some (if smh_head m = [] then stat_groups (- 1) (sdb_unlink w1 g) else w1))"

definition igsc_sdb_mh_delete :: "igsc_info \<Rightarrow> u32 \<Rightarrow> addr \<Rightarrow> igsc_info option" where
  "igsc_sdb_mh_delete w g a =
     (case igsc_sdb_group_find w g of None \<Rightarrow> None | Some m \<Rightarrow>
      (case List.find (\<lambda>mh. smh_addr mh = a) (smh_head m) of None \<Rightarrow> None | Some mh \<Rightarrow>
      (case mi_at (smi_head m) (smh_mi mh) of None \<Rightarrow> None | Some mi \<Rightarrow>
         let p = smh_mi mh;
             w1 = sdb_write w g (\<lambda>m. m\<lparr>smi_head := mi_ref_add (- 1) p (smi_head m)\<rparr>) in
         if smi_ref mi - 1 = 0 then
           (case emfc_mfdb_membership_del (emf_handle w1) g (smi_ifp mi) of None \<Rightarrow> None
            | Some (e, r) \<Rightarrow>
                let w2 = w1\<lparr>emf_handle := e\<rparr> in
                if r \<noteq> SUCCESS then Some w2
                else mh_unlink (sdb_write w2 g
                  (\<lambda>m. m\<lparr>smi_head := filter (\<lambda>mi. smi_addr mi \<noteq> p) (smi_head m)\<rparr>)) g a)
         else mh_unlink w1 g a)))"

definition igsc_sdb_timer :: "igsc_info \<Rightarrow> u32 \<Rightarrow> addr \<Rightarrow> igsc_info option" where
  "igsc_sdb_timer w g a = igsc_sdb_mh_delete (stat_timeout w) g a"

definition mh_set_timer :: "igsc_info \<Rightarrow> u32 \<Rightarrow> addr \<Rightarrow> osl_timer option \<Rightarrow> igsc_info" where
  "mh_set_timer w g a t = sdb_write w g (\<lambda>m. m\<lparr>smh_head :=
     map (\<lambda>mh. if smh_addr mh = a then mh\<lparr>smh_timer := t\<rparr> else mh) (smh_head m)\<rparr>)"

text \<open>The expiry of the timer of host entry \<open>a\<close> of group \<open>g\<close>, as the kernel runs it.\<close>

definition sdb_timer_expire :: "igsc_info \<Rightarrow> u32 \<Rightarrow> addr \<Rightarrow> igsc_info option" where
  "sdb_timer_expire w g a =
     (case igsc_sdb_group_find w g of None \<Rightarrow> None | Some m \<Rightarrow>
      (case List.find (\<lambda>mh. smh_addr mh = a) (smh_head m) of None \<Rightarrow> None | Some mh \<Rightarrow>
      (case smh_timer mh of None \<Rightarrow> None | Some t \<Rightarrow>
         let (t1, t2) = osl_timer (hz w) (jiffies w) t in
         (case igsc_sdb_timer (mh_set_timer w g a (Some t1)) g a of None \<Rightarrow> None
          | Some w' \<Rightarrow> Some (mh_set_timer w' g a t2)))))"

text \<open>The error exits of \<open>igsc_sdb_member_add\<close>.\<close>

definition sdb_add_exit1 :: "igsc_info \<Rightarrow> u32 \<Rightarrow> (igsc_info \<times> int) option" where
  "sdb_add_exit1 w g =
     (case igsc_sdb_group_find w g of
        None \<Rightarrow> None
      | Some m \<Rightarrow> Some (if smh_head m = [] then sdb_unlink w g else w, FAILURE))"

definition sdb_add_exit3 :: "igsc_info \<Rightarrow> u32 \<Rightarrow> addr \<Rightarrow> (igsc_info \<times> int) option" where
  "sdb_add_exit3 w g a = sdb_add_exit1
     (sdb_write w g (\<lambda>m. m\<lparr>smh_head := filter (\<lambda>mh. smh_addr mh \<noteq> a) (smh_head m)\<rparr>)) g"

text \<open>Registering the first host of an interface of the group.\<close>

definition sdb_add_mi :: "igsc_info \<Rightarrow> ifp \<Rightarrow> u32 \<Rightarrow> addr \<Rightarrow> (igsc_info \<times> int) option" where
  "sdb_add_mi w i g a =
     (case emfc_mfdb_membership_add (emf_handle w) g i of None \<Rightarrow> None
      | Some (e, r) \<Rightarrow>
          let w1 = w\<lparr>emf_handle := e\<rparr> in
          if r \<noteq> SUCCESS then sdb_add_exit3 w1 g a
          else
            let (os, p) = MALLOC (igs_osh w1); w2 = w1\<lparr>igs_osh := os\<rparr> in
            if p = 0 then
              (case emfc_mfdb_membership_del (emf_handle w2) g i of None \<Rightarrow> None
               | Some (e2, r2) \<Rightarrow> sdb_add_exit3 (w2\<lparr>emf_handle := e2\<rparr>) g a)
            else Some (sdb_write w2 g (\<lambda>m. m\<lparr>
                smi_head := \<lparr>smi_addr = p, smi_ifp = i, smi_ref = 1\<rparr> # smi_head m,
                smh_head := map (\<lambda>mh. if smh_addr mh = a then mh\<lparr>smh_mi := p\<rparr> else mh) (smh_head m)\<rparr>),
              SUCCESS))"

text \<open>Linking a new host entry into the group, and to its interface entry.\<close>

definition sdb_link_mh :: "igsc_info \<Rightarrow> ifp \<Rightarrow> u32 \<Rightarrow> igsc_mh \<Rightarrow> (igsc_info \<times> int) option" where
  "sdb_link_mh w i g mh =
     (let w1 = sdb_write w g (\<lambda>m. m\<lparr>smh_head := mh # smh_head m\<rparr>) in
      case igsc_sdb_group_find w1 g of None \<Rightarrow> None
      | Some m \<Rightarrow>
          (case igsc_sdb_mi_entry_find m i of
             Some mi \<Rightarrow> Some (sdb_write w1 g (\<lambda>m. m\<lparr>
                 smi_head := mi_ref_add 1 (smi_addr mi) (smi_head m),
                 smh_head := map (\<lambda>x. if smh_addr x = smh_addr mh
                   then x\<lparr>smh_mi := smi_addr mi\<rparr> else x) (smh_head m)\<rparr>), SUCCESS)
           | None \<Rightarrow> sdb_add_mi w1 i g (smh_addr mh)))"

text \<open>Allocating the host entry and its timer.\<close>

definition sdb_add_mh :: "igsc_info \<Rightarrow> ifp \<Rightarrow> u32 \<Rightarrow> u32 \<Rightarrow> (igsc_info \<times> int) option" where
  "sdb_add_mh w i g h =
     (let (os, a) = MALLOC (igs_osh w); w1 = w\<lparr>igs_osh := os\<rparr> in
      if a = 0 then sdb_add_exit1 w1 g
      else
        let w2 = stat_members 1 w1; (os, t) = osl_timer_init (igs_osh w2);
            w3 = w2\<lparr>igs_osh := os\<rparr> in
        case t of
          None \<Rightarrow> sdb_add_exit1 w3 g
        | Some t \<Rightarrow> sdb_link_mh w3 i g \<lparr>smh_addr = a, smh_ip = h,
            smh_timer = Some (osl_timer_add (hz w3) (jiffies w3) t (grp_mem_intv w3) False),
            smh_mi = 0\<rparr>)"

definition igsc_sdb_member_add :: "igsc_info \<Rightarrow> ifp \<Rightarrow> u32 \<Rightarrow> u32 \<Rightarrow> (igsc_info \<times> int) option" where
  "igsc_sdb_member_add w i g h =
     (case igsc_sdb_group_find w g of
        None \<Rightarrow>
          let (os, p) = MALLOC (igs_osh w); w1 = w\<lparr>igs_osh := os\<rparr> in
          if p = 0 then Some (w1, FAILURE)
          else sdb_add_mh (stat_groups 1 (w1\<lparr>mgrp_sdb := ht_add_head (mgrp_sdb w1) (IGSDB_MGRP_HASH g)
                 \<lparr>smgrp_ip = g, smh_head = [], smi_head = []\<rparr>\<rparr>)) i g h
      | Some m \<Rightarrow>
          (case igsc_sdb_mh_entry_find (smi_head m) (smh_head m) h i of
             None \<Rightarrow> None
           | Some (Some mh) \<Rightarrow>
               (case smh_timer mh of None \<Rightarrow> None
                | Some t \<Rightarrow> Some (mh_set_timer w g (smh_addr mh)
                     (Some (osl_timer_update (hz w) (jiffies w) t (grp_mem_intv w) False)), SUCCESS))
           | Some None \<Rightarrow> sdb_add_mh w i g h))"

definition igsc_sdb_member_del :: "igsc_info \<Rightarrow> ifp \<Rightarrow> u32 \<Rightarrow> u32 \<Rightarrow> (igsc_info \<times> int) option" where
  "igsc_sdb_member_del w i g h =
     (case igsc_sdb_member_find w g h i of
        None \<Rightarrow> None
      | Some None \<Rightarrow> Some (w, FAILURE)
      | Some (Some mh) \<Rightarrow>
          (case smh_timer mh of None \<Rightarrow> None
           | Some t \<Rightarrow>
               map_option (\<lambda>w'. (w', SUCCESS))
                 (igsc_sdb_mh_delete (mh_set_timer w g (smh_addr mh) (fst (osl_timer_del t)))
                    g (smh_addr mh))))"

text \<open>
  One host entry in the walks of \<open>igsc_sdb_clear\<close> and \<open>igsc_sdb_interface_del\<close>: the reference
  to its interface entry is dropped and its timer deleted; the result of the forwarding
  database's deletion is ignored.
\<close>

definition sdb_release_mh :: "emfc_info \<Rightarrow> u32 \<Rightarrow> igsc_mi list \<Rightarrow> igsc_mh \<Rightarrow> (emfc_info \<times> igsc_mi list) option" where
  "sdb_release_mh e g mis mh =
     (case mi_at mis (smh_mi mh) of None \<Rightarrow> None
      | Some mi \<Rightarrow>
          (case smh_timer mh of None \<Rightarrow> None
           | Some t \<Rightarrow>
               if smi_ref mi - 1 = 0 then
                 map_option (\<lambda>(e', r). (e', filter (\<lambda>mi. smi_addr mi \<noteq> smh_mi mh) mis))
                   (emfc_mfdb_membership_del e g (smi_ifp mi))
               else Some (e, mi_ref_add (- 1) (smh_mi mh) mis)))"

fun sdb_clear_mhs :: "emfc_info \<Rightarrow> u32 \<Rightarrow> igsc_mi list \<Rightarrow> igsc_mh list \<Rightarrow> emfc_info option" where
  "sdb_clear_mhs e g mis [] = Some e"
| "sdb_clear_mhs e g mis (mh # mhs) =
     (case sdb_release_mh e g mis mh of None \<Rightarrow> None
      | Some (e', mis') \<Rightarrow> sdb_clear_mhs e' g mis' mhs)"

fun sdb_clear_groups :: "emfc_info \<Rightarrow> igsc_mgrp list \<Rightarrow> emfc_info option" where
  "sdb_clear_groups e [] = Some e"
| "sdb_clear_groups e (m # ms) =
     (case sdb_clear_mhs e (smgrp_ip m) (smi_head m) (smh_head m) of None \<Rightarrow> None
      | Some e' \<Rightarrow> sdb_clear_groups e' ms)"

definition igsc_sdb_clear :: "igsc_info \<Rightarrow> igsc_info option" where
  "igsc_sdb_clear w = map_option
     (\<lambda>e. w\<lparr>emf_handle := e,
        mgrp_sdb := (\<lambda>i. if i < IGSDB_HASHT_SIZE then [] else mgrp_sdb w i)\<rparr>)
     (sdb_clear_groups (emf_handle w) (sdb_groups w))"

text \<open>The listing: group, host and interface name, in table order.\<close>

fun sdb_list_mhs :: "(ifp \<Rightarrow> string) \<Rightarrow> igsc_mgrp \<Rightarrow> igsc_mh list \<Rightarrow> (u32 \<times> u32 \<times> string) list option" where
  "sdb_list_mhs nm m [] = Some []"
| "sdb_list_mhs nm m (mh # mhs) =
     (case mi_at (smi_head m) (smh_mi mh) of None \<Rightarrow> None
      | Some mi \<Rightarrow> map_option (Cons (smgrp_ip m, smh_ip mh, take 16 (nm (smi_ifp mi))))
          (sdb_list_mhs nm m mhs))"

fun sdb_list_groups :: "(ifp \<Rightarrow> string) \<Rightarrow> igsc_mgrp list \<Rightarrow> (u32 \<times> u32 \<times> string) list option" where
  "sdb_list_groups nm [] = Some []"
| "sdb_list_groups nm (m # ms) =
     (case sdb_list_mhs nm m (smh_head m) of None \<Rightarrow> None
      | Some es \<Rightarrow> map_option (append es) (sdb_list_groups nm ms))"

definition igsc_sdb_list :: "(ifp \<Rightarrow> string) \<Rightarrow> igsc_info \<Rightarrow> (u32 \<times> u32 \<times> string) list option" where
  "igsc_sdb_list nm w = sdb_list_groups nm (sdb_groups w)"

text \<open>Deleting an interface: its hosts leave every group, and groups left empty are unlinked.\<close>

fun sdb_ifdel_mhs :: "emfc_info \<Rightarrow> ifp \<Rightarrow> u32 \<Rightarrow> igsc_mi list \<Rightarrow> igsc_mh list
    \<Rightarrow> (emfc_info \<times> igsc_mi list \<times> igsc_mh list) option" where
  "sdb_ifdel_mhs e i g mis [] = Some (e, mis, [])"
| "sdb_ifdel_mhs e i g mis (mh # mhs) =
     (case mi_at mis (smh_mi mh) of None \<Rightarrow> None
      | Some mi \<Rightarrow>
          if smi_ifp mi \<noteq> i then
            map_option (\<lambda>(e', mis', mhs'). (e', mis', mh # mhs')) (sdb_ifdel_mhs e i g mis mhs)
          else
            (case sdb_release_mh e g mis mh of None \<Rightarrow> None
             | Some (e', mis') \<Rightarrow> sdb_ifdel_mhs e' i g mis' mhs))"

fun sdb_ifdel_chain :: "emfc_info \<Rightarrow> ifp \<Rightarrow> igsc_mgrp list \<Rightarrow> (emfc_info \<times> igsc_mgrp list) option" where
  "sdb_ifdel_chain e i [] = Some (e, [])"
| "sdb_ifdel_chain e i (m # ms) =
     (case sdb_ifdel_mhs e i (smgrp_ip m) (smi_head m) (smh_head m) of None \<Rightarrow> None
      | Some (e', mis, mhs) \<Rightarrow>
          (case sdb_ifdel_chain e' i ms of None \<Rightarrow> None
           | Some (e'', ms') \<Rightarrow>
               Some (e'', if mhs = [] then ms' else m\<lparr>smi_head := mis, smh_head := mhs\<rparr> # ms')))"

fun sdb_ifdel_table :: "igsc_info \<Rightarrow> ifp \<Rightarrow> nat list \<Rightarrow> igsc_info option" where
  "sdb_ifdel_table w i [] = Some w"
| "sdb_ifdel_table w i (b # bs) =
     (case sdb_ifdel_chain (emf_handle w) i (mgrp_sdb w b) of None \<Rightarrow> None
      | Some (e, ms) \<Rightarrow> sdb_ifdel_table (w\<lparr>emf_handle := e, mgrp_sdb := (mgrp_sdb w)(b := ms)\<rparr>) i bs)"

definition igsc_sdb_interface_del :: "igsc_info \<Rightarrow> ifp \<Rightarrow> (igsc_info \<times> int) option" where
  "igsc_sdb_interface_del w i =
     (if i = 0 then Some (w, FAILURE)
      else map_option (\<lambda>w'. (w', SUCCESS)) (sdb_ifdel_table w i [0..<IGSDB_HASHT_SIZE]))"

end
