(* ===== verification/Igs_Sdb_Inv.thy ===== *)
theory Igs_Sdb_Inv
  imports Igs_Sdb
begin

text \<open>
  The invariants of the IGMP snooping database and their preservation: in every group the
  reference count of an interface entry is the number of hosts that point to it, every host
  has a live timer, no group is empty; and the forwarding database registers exactly the
  interfaces that have hosts, on top of what others registered (\<open>static\<close> members).
\<close>

section \<open>One group\<close>

definition refs :: "igsc_mh list \<Rightarrow> addr \<Rightarrow> nat" where
  "refs mhs p = length (filter (\<lambda>mh. smh_mi mh = p) mhs)"

definition grp_inv :: "nat \<Rightarrow> igsc_mgrp \<Rightarrow> bool" where
  "grp_inv seq m \<longleftrightarrow> distinct (map smi_addr (smi_head m)) \<and> distinct (map smi_ifp (smi_head m)) \<and>
     distinct (map smh_addr (smh_head m)) \<and>
     distinct (map (\<lambda>mh. (smh_ip mh, smh_mi mh)) (smh_head m)) \<and>
     (\<forall>mh\<in>set (smh_head m). smh_mi mh \<in> smi_addr ` set (smi_head m) \<and>
        0 < smh_addr mh \<and> smh_addr mh \<le> seq) \<and>
     (\<forall>mi\<in>set (smi_head m). smi_ref mi = int (refs (smh_head m) (smi_addr mi)) \<and> 0 < smi_ref mi \<and>
        0 < smi_addr mi \<and> smi_addr mi \<le> seq)"

definition hosts :: "igsc_mgrp \<Rightarrow> (u32 \<times> ifp) set" where
  "hosts m = {(smh_ip mh, smi_ifp mi) | mh mi. mh \<in> set (smh_head m) \<and> mi \<in> set (smi_head m) \<and>
     smi_addr mi = smh_mi mh}"

lemma hosts_iff: "(h, i) \<in> hosts m \<longleftrightarrow> (\<exists>mh\<in>set (smh_head m). \<exists>mi\<in>set (smi_head m).
    smh_ip mh = h \<and> smi_ifp mi = i \<and> smi_addr mi = smh_mi mh)"
  by (auto simp: hosts_def)

definition ifaces :: "igsc_mgrp \<Rightarrow> ifp set" where
  "ifaces m = smi_ifp ` set (smi_head m)"

lemma grp_inv_mono: "grp_inv seq m \<Longrightarrow> seq \<le> seq' \<Longrightarrow> grp_inv seq' m"
  unfolding grp_inv_def by (blast intro: le_trans)

lemma mi_at_unique:
  "distinct (map smi_addr mis) \<Longrightarrow> mi \<in> set mis \<Longrightarrow> mi_at mis (smi_addr mi) = Some mi"
  unfolding mi_at_def by (rule find_key_unique) auto

lemma mi_at_SomeD: "mi_at mis p = Some mi \<Longrightarrow> mi \<in> set mis \<and> smi_addr mi = p"
  by (auto simp: mi_at_def dest: find_SomeD)

lemma grp_mi_at:
  assumes "grp_inv seq m" "mh \<in> set (smh_head m)"
  obtains mi where "mi_at (smi_head m) (smh_mi mh) = Some mi" "mi \<in> set (smi_head m)"
    "smi_addr mi = smh_mi mh"
proof -
  have "smh_mi mh \<in> smi_addr ` set (smi_head m)" using assms by (simp add: grp_inv_def)
  then obtain mi where mi: "mi \<in> set (smi_head m)" "smi_addr mi = smh_mi mh" by auto
  with assms(1) mi_at_unique [of "smi_head m" mi] that show thesis by (simp add: grp_inv_def)
qed

lemma addr_inj:
  "grp_inv seq m \<Longrightarrow> mi \<in> set (smi_head m) \<Longrightarrow> mj \<in> set (smi_head m) \<Longrightarrow>
   smi_addr mi = smi_addr mj \<longleftrightarrow> mi = mj"
  "grp_inv seq m \<Longrightarrow> mi \<in> set (smi_head m) \<Longrightarrow> mj \<in> set (smi_head m) \<Longrightarrow>
   smi_ifp mi = smi_ifp mj \<longleftrightarrow> mi = mj"
  by (auto simp: grp_inv_def distinct_map dest: inj_onD)

lemma mh_inj:
  "grp_inv seq m \<Longrightarrow> mh \<in> set (smh_head m) \<Longrightarrow> mh' \<in> set (smh_head m) \<Longrightarrow>
   smh_addr mh = smh_addr mh' \<longleftrightarrow> mh = mh'"
  "grp_inv seq m \<Longrightarrow> mh \<in> set (smh_head m) \<Longrightarrow> mh' \<in> set (smh_head m) \<Longrightarrow>
   smh_ip mh = smh_ip mh' \<Longrightarrow> smh_mi mh = smh_mi mh' \<Longrightarrow> mh = mh'"
  by (auto simp: grp_inv_def distinct_map dest: inj_onD)

lemma hostsI:
  "grp_inv seq m \<Longrightarrow> mh \<in> set (smh_head m) \<Longrightarrow> mi_at (smi_head m) (smh_mi mh) = Some mi \<Longrightarrow>
   (smh_ip mh, smi_ifp mi) \<in> hosts m"
  by (auto simp: hosts_def dest!: mi_at_SomeD)

text \<open>The interfaces of the hosts are exactly the interface entries.\<close>

lemma hosts_ifaces: "grp_inv seq m \<Longrightarrow> snd ` hosts m = ifaces m"
proof (intro equalityI subsetI)
  fix i assume "grp_inv seq m" "i \<in> ifaces m"
  then obtain mi where mi: "mi \<in> set (smi_head m)" "i = smi_ifp mi"
      "0 < refs (smh_head m) (smi_addr mi)"
    by (fastforce simp: ifaces_def grp_inv_def)
  then obtain mh where "mh \<in> set (smh_head m)" "smh_mi mh = smi_addr mi"
    by (auto simp: refs_def filter_empty_conv)
  with mi show "i \<in> snd ` hosts m" by (force simp: hosts_def)
qed (auto simp: hosts_def ifaces_def)

text \<open>The search for a host finds it exactly when it is a member.\<close>

lemma mh_entry_find_mem:
  assumes "grp_inv seq m" "set mhs \<subseteq> set (smh_head m)"
  shows "\<exists>x. igsc_sdb_mh_entry_find (smi_head m) mhs h i = Some x \<and>
    (case x of None \<Rightarrow> \<forall>mh\<in>set mhs. \<forall>mi\<in>set (smi_head m).
                  \<not> (smh_ip mh = h \<and> smi_addr mi = smh_mi mh \<and> smi_ifp mi = i)
     | Some mh \<Rightarrow> mh \<in> set mhs \<and> smh_ip mh = h \<and>
         (\<exists>mi. mi_at (smi_head m) (smh_mi mh) = Some mi \<and> smi_ifp mi = i))"
  using assms(2)
proof (induction mhs)
  case Nil
  then show ?case by simp
next
  case (Cons mh mhs)
  from Cons.prems have mh: "mh \<in> set (smh_head m)" by simp
  from grp_mi_at [OF assms(1) mh] obtain mi where mi: "mi_at (smi_head m) (smh_mi mh) = Some mi"
      "mi \<in> set (smi_head m)" "smi_addr mi = smh_mi mh" .
  from Cons obtain x where x: "igsc_sdb_mh_entry_find (smi_head m) mhs h i = Some x"
     "case x of None \<Rightarrow> \<forall>mh\<in>set mhs. \<forall>mi\<in>set (smi_head m).
                  \<not> (smh_ip mh = h \<and> smi_addr mi = smh_mi mh \<and> smi_ifp mi = i)
     | Some mh \<Rightarrow> mh \<in> set mhs \<and> smh_ip mh = h \<and>
         (\<exists>mi. mi_at (smi_head m) (smh_mi mh) = Some mi \<and> smi_ifp mi = i)" by auto
  show ?case
  proof (cases "h = smh_ip mh \<and> i = smi_ifp mi")
    case True
    with mi show ?thesis by simp
  next
    case False
    have "igsc_sdb_mh_entry_find (smi_head m) (mh # mhs) h i = Some x" using False x(1) mi by auto
    moreover have "\<not> (smh_ip mh = h \<and> smi_addr mj = smh_mi mh \<and> smi_ifp mj = i)"
      if "mj \<in> set (smi_head m)" for mj
      using False that mi addr_inj(1) [OF assms(1) that mi(2)] by auto
    ultimately show ?thesis using x(2) by (auto split: option.splits)
  qed
qed

lemma mh_entry_find_cases:
  assumes "grp_inv seq m"
  obtains (absent) "igsc_sdb_mh_entry_find (smi_head m) (smh_head m) h i = Some None"
      "(h, i) \<notin> hosts m"
  | (present) mh mi where "igsc_sdb_mh_entry_find (smi_head m) (smh_head m) h i = Some (Some mh)"
      "mh \<in> set (smh_head m)" "smh_ip mh = h" "mi_at (smi_head m) (smh_mi mh) = Some mi"
      "smi_ifp mi = i" "(h, i) \<in> hosts m"
proof -
  obtain x where x: "igsc_sdb_mh_entry_find (smi_head m) (smh_head m) h i = Some x"
    "case x of None \<Rightarrow> \<forall>mh\<in>set (smh_head m). \<forall>mi\<in>set (smi_head m).
                  \<not> (smh_ip mh = h \<and> smi_addr mi = smh_mi mh \<and> smi_ifp mi = i)
     | Some mh \<Rightarrow> mh \<in> set (smh_head m) \<and> smh_ip mh = h \<and>
         (\<exists>mi. mi_at (smi_head m) (smh_mi mh) = Some mi \<and> smi_ifp mi = i)"
    using mh_entry_find_mem [OF assms subset_refl, of h i] by blast
  show thesis
  proof (cases x)
    case None
    then show ?thesis using x by (intro absent) (auto simp: hosts_def)
  next
    case (Some mh)
    then obtain mi where mi: "mh \<in> set (smh_head m)" "smh_ip mh = h"
        "mi_at (smi_head m) (smh_mi mh) = Some mi" "smi_ifp mi = i" using x by auto
    then have "(h, i) \<in> hosts m" using hostsI [OF assms mi(1,3)] by simp
    with mi x Some show ?thesis by (intro present [of mh mi]) simp_all
  qed
qed

section \<open>Changes to one group\<close>

text \<open>A host leaves: its interface entry loses a reference, and goes with the last.\<close>

definition grp_drop :: "igsc_mgrp \<Rightarrow> igsc_mh \<Rightarrow> igsc_mi \<Rightarrow> igsc_mgrp" where
  "grp_drop m mh mi = m\<lparr>
     smi_head := (if smi_ref mi - 1 = 0
        then filter (\<lambda>x. smi_addr x \<noteq> smh_mi mh) (smi_head m)
        else mi_ref_add (- 1) (smh_mi mh) (smi_head m)),
     smh_head := filter (\<lambda>x. smh_addr x \<noteq> smh_addr mh) (smh_head m)\<rparr>"

lemma mi_ref_add_maps [simp]:
  "map smi_addr (mi_ref_add d p mis) = map smi_addr mis"
  "map smi_ifp (mi_ref_add d p mis) = map smi_ifp mis"
  by (auto simp: mi_ref_add_def)

lemma mi_ref_add_addrs: "smi_addr ` set (mi_ref_add d p mis) = smi_addr ` set mis"
  unfolding list.set_map [symmetric] by simp

lemma set_mi_ref_add:
  "set (mi_ref_add d p mis) =
     (\<lambda>mi. if smi_addr mi = p then mi\<lparr>smi_ref := smi_ref mi + d\<rparr> else mi) ` set mis"
  by (simp add: mi_ref_add_def)

lemma refs_remove:
  assumes "grp_inv seq m" "mh \<in> set (smh_head m)"
  shows "refs (filter (\<lambda>x. smh_addr x \<noteq> smh_addr mh) (smh_head m)) p =
    refs (smh_head m) p - (if smh_mi mh = p then 1 else 0)"
  using assms length_filter_remove(1) [of smh_addr "smh_head m" mh _ "\<lambda>x. smh_mi x = p"]
  by (simp add: refs_def grp_inv_def)

lemma grp_drop_inv:
  assumes inv: "grp_inv seq m" and mh: "mh \<in> set (smh_head m)"
    and mi: "mi \<in> set (smi_head m)" "smi_addr mi = smh_mi mh"
  shows "grp_inv seq (grp_drop m mh mi)"
proof -
  let ?m = "grp_drop m mh mi"
  have ref: "smi_ref mi = int (refs (smh_head m) (smh_mi mh))" "0 < smi_ref mi"
    using inv mi by (auto simp: grp_inv_def)
  have sub: "set (smh_head ?m) \<subseteq> set (smh_head m)" by (auto simp: grp_drop_def)
  have d: "distinct (map smi_addr (smi_head ?m))" "distinct (map smi_ifp (smi_head ?m))"
      "distinct (map smh_addr (smh_head ?m))"
      "distinct (map (\<lambda>mh. (smh_ip mh, smh_mi mh)) (smh_head ?m))"
    using inv by (auto simp: grp_drop_def grp_inv_def distinct_map_filter)
  have pts: "smh_mi x \<in> smi_addr ` set (smi_head ?m)" if x: "x \<in> set (smh_head ?m)" for x
  proof (cases "smi_ref mi - 1 = 0 \<and> smh_mi x = smh_mi mh")
    case True
    with ref have "refs (smh_head m) (smh_mi mh) = 1" by simp
    then have "refs (smh_head ?m) (smh_mi mh) = 0"
      using refs_remove [OF inv mh, of "smh_mi mh"] by (simp add: grp_drop_def)
    with True x show ?thesis by (auto simp: refs_def filter_empty_conv)
  next
    case False
    have "smh_mi x \<in> smi_addr ` set (smi_head m)" using inv sub x by (auto simp: grp_inv_def)
    with False show ?thesis
      by (cases "smi_ref mi - 1 = 0") (auto simp: grp_drop_def mi_ref_add_addrs)
  qed
  have cnt: "smi_ref y = int (refs (smh_head ?m) (smi_addr y)) \<and> 0 < smi_ref y \<and>
      0 < smi_addr y \<and> smi_addr y \<le> seq" if y: "y \<in> set (smi_head ?m)" for y
  proof (cases "smi_ref mi - 1 = 0")
    case True
    with y have "y \<in> set (smi_head m)" "smi_addr y \<noteq> smh_mi mh" by (auto simp: grp_drop_def)
    then show ?thesis
      using inv refs_remove [OF inv mh, of "smi_addr y"] by (auto simp: grp_inv_def grp_drop_def)
  next
    case False
    with y obtain z where z: "z \<in> set (smi_head m)"
        "y = (if smi_addr z = smh_mi mh then z\<lparr>smi_ref := smi_ref z - 1\<rparr> else z)"
      by (auto simp: grp_drop_def set_mi_ref_add)
    show ?thesis
    proof (cases "smi_addr z = smh_mi mh")
      case True
      then have "z = mi" using addr_inj(1) [OF inv z(1) mi(1)] mi(2) by simp
      with True z False ref inv mi refs_remove [OF inv mh, of "smh_mi mh"] show ?thesis
        by (auto simp: grp_drop_def grp_inv_def of_nat_diff)
    next
      case F: False
      with z inv refs_remove [OF inv mh, of "smi_addr z"] show ?thesis
        by (auto simp: grp_drop_def grp_inv_def)
    qed
  qed
  show ?thesis
    using d pts cnt inv sub unfolding grp_inv_def by blast
qed

lemma grp_drop_hosts:
  assumes inv: "grp_inv seq m" and mh: "mh \<in> set (smh_head m)"
    and mi: "mi \<in> set (smi_head m)" "smi_addr mi = smh_mi mh"
  shows "hosts (grp_drop m mh mi) = hosts m - {(smh_ip mh, smi_ifp mi)}"
proof -
  have "x \<in> hosts (grp_drop m mh mi) \<longleftrightarrow> x \<in> hosts m - {(smh_ip mh, smi_ifp mi)}" for x
  proof
    assume "x \<in> hosts (grp_drop m mh mi)"
    then obtain mh' mi' where x: "x = (smh_ip mh', smi_ifp mi')" "mh' \<in> set (smh_head m)"
        "smh_addr mh' \<noteq> smh_addr mh" "mi' \<in> set (smi_head (grp_drop m mh mi))"
        "smi_addr mi' = smh_mi mh'"
      by (auto simp: hosts_def grp_drop_def)
    then obtain mj where mj: "mj \<in> set (smi_head m)" "smi_addr mj = smh_mi mh'"
        "smi_ifp mj = smi_ifp mi'"
      by (auto simp: grp_drop_def set_mi_ref_add split: if_splits)
    have "\<not> (smh_ip mh' = smh_ip mh \<and> smi_ifp mi' = smi_ifp mi)"
      using mh_inj(2) [OF inv x(2) mh] addr_inj(2) [OF inv mj(1) mi(1)] mj mi x(3) by auto
    moreover have "(smh_ip mh', smi_ifp mj) \<in> hosts m"
      using x(2) mj unfolding hosts_def by blast
    ultimately show "x \<in> hosts m - {(smh_ip mh, smi_ifp mi)}" using x(1) mj(3) by simp
  next
    assume "x \<in> hosts m - {(smh_ip mh, smi_ifp mi)}"
    then obtain mh' mi' where x: "x = (smh_ip mh', smi_ifp mi')" "mh' \<in> set (smh_head m)"
        "mi' \<in> set (smi_head m)" "smi_addr mi' = smh_mi mh'"
        "\<not> (smh_ip mh' = smh_ip mh \<and> smi_ifp mi' = smi_ifp mi)"
      by (auto simp: hosts_def)
    then have ne: "mh' \<noteq> mh" using addr_inj(1) [OF inv x(3) mi(1)] mi(2) by auto
    then have mem: "mh' \<in> set (smh_head (grp_drop m mh mi))"
      using x(2) mh_inj(1) [OF inv x(2) mh] by (simp add: grp_drop_def)
    from grp_mi_at [OF grp_drop_inv [OF assms] mem] obtain my where
      my: "my \<in> set (smi_head (grp_drop m mh mi))" "smi_addr my = smh_mi mh'" .
    then obtain mj where "mj \<in> set (smi_head m)" "smi_addr mj = smh_mi mh'" "smi_ifp mj = smi_ifp my"
      by (auto simp: grp_drop_def set_mi_ref_add split: if_splits)
    then have "smi_ifp my = smi_ifp mi'" using addr_inj(1) [OF inv _ x(3)] x(4) by auto
    moreover have "(smh_ip mh', smi_ifp my) \<in> hosts (grp_drop m mh mi)"
      using my mem unfolding hosts_def by blast
    ultimately show "x \<in> hosts (grp_drop m mh mi)" using x(1) by simp
  qed
  then show ?thesis by blast
qed

lemma grp_drop_ifaces:
  assumes inv: "grp_inv seq m" and mh: "mh \<in> set (smh_head m)"
    and mi: "mi \<in> set (smi_head m)" "smi_addr mi = smh_mi mh"
  shows "ifaces (grp_drop m mh mi) = (if smi_ref mi - 1 = 0 then ifaces m - {smi_ifp mi} else ifaces m)"
    "smi_ifp mi \<in> ifaces m"
proof -
  have f: "smi_ifp ` set (mi_ref_add d p mis) = smi_ifp ` set mis" for d p mis
    unfolding list.set_map [symmetric] by simp
  have "smi_ifp ` {x \<in> set (smi_head m). smi_addr x \<noteq> smh_mi mh} = ifaces m - {smi_ifp mi}"
    using addr_inj [OF inv _ mi(1)] mi by (auto simp: ifaces_def)
  then show "ifaces (grp_drop m mh mi) = (if smi_ref mi - 1 = 0 then ifaces m - {smi_ifp mi} else ifaces m)"
    by (simp add: grp_drop_def ifaces_def f)
  show "smi_ifp mi \<in> ifaces m" using mi by (simp add: ifaces_def)
qed

lemma grp_inv_no_hosts: "grp_inv seq m \<Longrightarrow> smh_head m = [] \<Longrightarrow> smi_head m = []"
  by (cases "smi_head m") (auto simp: grp_inv_def refs_def)

text \<open>A host joins on an interface that has an entry.\<close>

definition grp_join :: "igsc_mgrp \<Rightarrow> igsc_mh \<Rightarrow> igsc_mgrp" where
  "grp_join m mh = m\<lparr>smi_head := mi_ref_add 1 (smh_mi mh) (smi_head m), smh_head := mh # smh_head m\<rparr>"

lemma refs_Cons: "refs (mh # mhs) p = refs mhs p + (if smh_mi mh = p then 1 else 0)"
  by (simp add: refs_def)

lemma grp_join_inv:
  assumes inv: "grp_inv seq m" and a: "seq < smh_addr mh" "smh_addr mh \<le> seq'"
    and mi: "mi \<in> set (smi_head m)" "smi_addr mi = smh_mi mh"
    and new: "(smh_ip mh, smi_ifp mi) \<notin> hosts m"
  shows "grp_inv seq' (grp_join m mh)"
    "hosts (grp_join m mh) = insert (smh_ip mh, smi_ifp mi) (hosts m)"
    "ifaces (grp_join m mh) = ifaces m"
proof -
  let ?m = "grp_join m mh"
  have seq: "seq \<le> seq'" using a by simp
  have fresh: "smh_addr mh \<notin> smh_addr ` set (smh_head m)"
    using inv a(1) by (fastforce simp: grp_inv_def)
  have pair: "(smh_ip mh, smh_mi mh) \<notin> (\<lambda>mh. (smh_ip mh, smh_mi mh)) ` set (smh_head m)"
    using new mi by (auto simp: hosts_def)
  have pts: "smh_mi x \<in> smi_addr ` set (smi_head ?m) \<and> 0 < smh_addr x \<and> smh_addr x \<le> seq'"
    if x: "x \<in> set (smh_head ?m)" for x
  proof (cases "x = mh")
    case True
    have "smh_mi mh \<in> smi_addr ` set (smi_head m)" using mi by (metis imageI)
    with True show ?thesis using a by (auto simp: grp_join_def mi_ref_add_addrs)
  next
    case False
    with x have "x \<in> set (smh_head m)" by (simp add: grp_join_def)
    then show ?thesis using inv seq unfolding grp_join_def by (auto simp: mi_ref_add_addrs grp_inv_def)
  qed
  have cnt: "smi_ref y = int (refs (smh_head ?m) (smi_addr y)) \<and> 0 < smi_ref y \<and>
      0 < smi_addr y \<and> smi_addr y \<le> seq'" if y: "y \<in> set (smi_head ?m)" for y
  proof -
    from y obtain z where z: "z \<in> set (smi_head m)"
        "y = (if smi_addr z = smh_mi mh then z\<lparr>smi_ref := smi_ref z + 1\<rparr> else z)"
      by (auto simp: grp_join_def set_mi_ref_add)
    have "smi_ref z = int (refs (smh_head m) (smi_addr z)) \<and> 0 < smi_ref z \<and>
        0 < smi_addr z \<and> smi_addr z \<le> seq" using inv z(1) unfolding grp_inv_def by blast
    with z(2) seq show ?thesis by (auto simp: grp_join_def refs_Cons)
  qed
  have d: "distinct (map smi_addr (smi_head ?m))" "distinct (map smi_ifp (smi_head ?m))"
      "distinct (map smh_addr (smh_head ?m))"
      "distinct (map (\<lambda>mh. (smh_ip mh, smh_mi mh)) (smh_head ?m))"
    using inv fresh pair by (auto simp: grp_join_def grp_inv_def)
  show "grp_inv seq' ?m" using d pts cnt unfolding grp_inv_def by blast
  define u where "u z = (if smi_addr z = smh_mi mh then z\<lparr>smi_ref := smi_ref z + 1\<rparr> else z)"
    for z :: igsc_mi
  have u: "smi_addr (u z) = smi_addr z" "smi_ifp (u z) = smi_ifp z" for z by (simp_all add: u_def)
  have hd: "smh_head ?m = mh # smh_head m" "set (smi_head ?m) = u ` set (smi_head m)"
    by (simp_all add: grp_join_def set_mi_ref_add u_def [abs_def])
  have at: "mj = mi" if "mj \<in> set (smi_head m)" "smi_addr mj = smh_mi mh" for mj
    using that mi addr_inj(1) [OF inv that(1) mi(1)] by simp
  have own: "(\<exists>z\<in>set (smi_head m). smi_ifp z = i \<and> smi_addr z = smh_mi mh) \<longleftrightarrow> i = smi_ifp mi" for i
    using mi at by blast
  have "(h, i) \<in> hosts ?m \<longleftrightarrow> (h, i) \<in> insert (smh_ip mh, smi_ifp mi) (hosts m)" for h i
    unfolding insert_iff hosts_iff [of h i ?m] hd
    by (simp only: u bex_simps list.set own) (auto simp: hosts_iff)
  then show "hosts ?m = insert (smh_ip mh, smi_ifp mi) (hosts m)" by (intro set_eqI) (simp add: split_paired_all)
  show "ifaces ?m = ifaces m"
    unfolding grp_join_def ifaces_def list.set_map [symmetric] by simp
qed

text \<open>A host joins on an interface that has none.\<close>

definition grp_join_new :: "igsc_mgrp \<Rightarrow> igsc_mh \<Rightarrow> igsc_mi \<Rightarrow> igsc_mgrp" where
  "grp_join_new m mh mi = m\<lparr>smi_head := mi # smi_head m, smh_head := mh # smh_head m\<rparr>"

lemma grp_join_new_inv:
  assumes inv: "grp_inv seq m" and a: "seq < smh_addr mh" "smh_addr mh \<le> seq'"
    and p: "seq < smi_addr mi" "smi_addr mi \<le> seq'" "smh_mi mh = smi_addr mi" "smi_ref mi = 1"
    and new: "smi_ifp mi \<notin> ifaces m"
  shows "grp_inv seq' (grp_join_new m mh mi)"
    "hosts (grp_join_new m mh mi) = insert (smh_ip mh, smi_ifp mi) (hosts m)"
    "ifaces (grp_join_new m mh mi) = insert (smi_ifp mi) (ifaces m)"
proof -
  have mhs: "smh_mi x \<in> smi_addr ` set (smi_head m) \<and> smh_mi x \<le> seq \<and> 0 < smh_addr x \<and>
      smh_addr x \<le> seq" if "x \<in> set (smh_head m)" for x
    using inv that by (fastforce simp: grp_inv_def)
  have mis: "smi_ref y = int (refs (smh_head m) (smi_addr y)) \<and> 0 < smi_ref y \<and>
        0 < smi_addr y \<and> smi_addr y \<le> seq" if "y \<in> set (smi_head m)" for y
    using inv that unfolding grp_inv_def by blast
  have seq: "seq \<le> seq'" "0 < smh_addr mh" "0 < smi_addr mi" using a p by simp_all
  have fresh: "smh_addr mh \<notin> smh_addr ` set (smh_head m)" "smi_addr mi \<notin> smi_addr ` set (smi_head m)"
      "smi_addr mi \<notin> smh_mi ` set (smh_head m)"
    using mhs mis a(1) p(1) by fastforce+
  have zero: "refs (smh_head m) (smi_addr mi) = 0"
    using fresh(3) unfolding refs_def by (simp add: filter_empty_conv) force
  have pair: "(smh_ip mh, smh_mi mh) \<notin> (\<lambda>mh. (smh_ip mh, smh_mi mh)) ` set (smh_head m)"
    using fresh(3) p(3) by auto
  have d: "distinct (map smi_addr (smi_head m))" "distinct (map smi_ifp (smi_head m))"
      "distinct (map smh_addr (smh_head m))"
      "distinct (map (\<lambda>mh. (smh_ip mh, smh_mi mh)) (smh_head m))"
    using inv by (simp_all add: grp_inv_def)
  have ref: "refs (mh # smh_head m) (smi_addr y) = refs (smh_head m) (smi_addr y)"
    if "y \<in> set (smi_head m)" for y
    using that fresh(2) p(3) by (auto simp: refs_Cons)
  have A: "\<forall>x\<in>set (mh # smh_head m). smh_mi x \<in> smi_addr ` set (mi # smi_head m) \<and>
        0 < smh_addr x \<and> smh_addr x \<le> seq'"
    using mhs seq a(2) p(3) by fastforce
  have B: "\<forall>y\<in>set (mi # smi_head m). smi_ref y = int (refs (mh # smh_head m) (smi_addr y)) \<and>
        0 < smi_ref y \<and> 0 < smi_addr y \<and> smi_addr y \<le> seq'"
    using mis seq zero ref p by (fastforce simp: refs_Cons)
  have hd: "smi_head (grp_join_new m mh mi) = mi # smi_head m"
      "smh_head (grp_join_new m mh mi) = mh # smh_head m"
    by (simp_all add: grp_join_new_def)
  have D: "distinct (map smi_addr (mi # smi_head m))" "distinct (map smi_ifp (mi # smi_head m))"
      "distinct (map smh_addr (mh # smh_head m))"
      "distinct (map (\<lambda>mh. (smh_ip mh, smh_mi mh)) (mh # smh_head m))"
    using d fresh(1,2) pair new by (simp_all add: ifaces_def)
  show "grp_inv seq' (grp_join_new m mh mi)"
    unfolding grp_inv_def hd using A B D by blast
  show "hosts (grp_join_new m mh mi) = insert (smh_ip mh, smi_ifp mi) (hosts m)"
  proof -
    have ne: "smi_addr mi \<noteq> smh_mi x" if "x \<in> set (smh_head m)" for x
      using fresh(3) that by (metis imageI)
    have ne': "smi_addr y \<noteq> smi_addr mi" if "y \<in> set (smi_head m)" for y
      using fresh(2) that by (metis imageI)
    have own: "(\<exists>z\<in>set (mi # smi_head m). smi_ifp z = i \<and> smi_addr z = smh_mi mh) \<longleftrightarrow>
        i = smi_ifp mi" for i
      using ne' p(3) by auto
    have old: "(\<exists>z\<in>set (mi # smi_head m). smi_ifp z = i \<and> smi_addr z = smh_mi x) \<longleftrightarrow>
        (\<exists>z\<in>set (smi_head m). smi_ifp z = i \<and> smi_addr z = smh_mi x)"
      if "x \<in> set (smh_head m)" for x i
      using ne [OF that] by auto
    have "(h, i) \<in> hosts (grp_join_new m mh mi) \<longleftrightarrow>
        (h, i) \<in> insert (smh_ip mh, smi_ifp mi) (hosts m)" for h i
      unfolding insert_iff hosts_iff [of h i "grp_join_new m mh mi"] hd(2)
      unfolding list.set(2) [of mh] bex_simps hd(1) own
      by (simp only: old cong: bex_cong) (auto simp: hosts_iff)
    then show ?thesis by (intro set_eqI) (simp add: split_paired_all)
  qed
  show "ifaces (grp_join_new m mh mi) = insert (smi_ifp mi) (ifaces m)"
    by (simp add: ifaces_def grp_join_new_def)
qed

end
