(* ===== verification/Igs_Sdb_Laws.thy ===== *)
theory Igs_Sdb_Laws
  imports Igs_Sdb_Inv
begin

text \<open>
  The laws of the IGMP snooping database on whole states: what each operation does to the
  membership table, that it keeps the invariant \<open>sdb_ok\<close> and the agreement \<open>sdb_sync\<close> with the
  forwarding database.
\<close>

section \<open>The invariant\<close>

abbreviation sdb_at :: "igsc_info \<Rightarrow> u32 \<Rightarrow> igsc_mgrp option" where
  "sdb_at w \<equiv> sdb.lookup (mgrp_sdb w)"

text \<open>\<open>E\<close> is the set of groups that may be without hosts (a half-done addition).\<close>

definition sdb_okE :: "u32 set \<Rightarrow> igsc_info \<Rightarrow> bool" where
  "sdb_okE E w \<longleftrightarrow> sdb.wf (mgrp_sdb w) \<and> mfdb_ok (emf_handle w) \<and>
     (\<forall>g m. sdb_at w g = Some m \<longrightarrow> g \<noteq> 0 \<and> grp_inv (mem_seq (igs_osh w)) m \<and>
        (g \<notin> E \<longrightarrow> smh_head m \<noteq> []))"

abbreviation sdb_ok :: "igsc_info \<Rightarrow> bool" where
  "sdb_ok \<equiv> sdb_okE {}"

definition timers_live :: "igsc_mgrp \<Rightarrow> bool" where
  "timers_live m \<longleftrightarrow> (\<forall>mh\<in>set (smh_head m). timer_live (smh_timer mh))"

definition sdb_timers :: "igsc_info \<Rightarrow> bool" where
  "sdb_timers w \<longleftrightarrow> (\<forall>g m. sdb_at w g = Some m \<longrightarrow> timers_live m)"

text \<open>
  The forwarding database agrees with a group: an interface is registered once more than by
  others (\<open>st\<close>) exactly when it has hosts.
\<close>

definition grp_sync :: "(u32 \<Rightarrow> ifp \<Rightarrow> nat) \<Rightarrow> emfc_info \<Rightarrow> u32 \<Rightarrow> ifp set \<Rightarrow> bool" where
  "grp_sync st e g I \<longleftrightarrow>
     (\<forall>i. mfdb_cnt e g i = st g i + (if i \<in> I then 1 else 0) \<and> st g i < 2 ^ 32 - 1)"

definition sdb_ifaces :: "igsc_info \<Rightarrow> u32 \<Rightarrow> ifp set" where
  "sdb_ifaces w g = (case sdb_at w g of None \<Rightarrow> {} | Some m \<Rightarrow> ifaces m)"

definition sdb_hosts :: "igsc_info \<Rightarrow> u32 \<Rightarrow> (u32 \<times> ifp) set" where
  "sdb_hosts w g = (case sdb_at w g of None \<Rightarrow> {} | Some m \<Rightarrow> hosts m)"

definition sdb_sync :: "(u32 \<Rightarrow> ifp \<Rightarrow> nat) \<Rightarrow> igsc_info \<Rightarrow> bool" where
  "sdb_sync st w \<longleftrightarrow> (\<forall>g. grp_sync st (emf_handle w) g (sdb_ifaces w g))"

text \<open>What no operation on the snooping database touches.\<close>

definition igs_frame :: "igsc_info \<Rightarrow> igsc_info \<Rightarrow> bool" where
  "igs_frame w w' \<longleftrightarrow> mfdb_frame (emf_handle w) (emf_handle w') \<and> rtlist_head w' = rtlist_head w \<and>
     rt_timers w' = rt_timers w \<and> stale_reads w' = stale_reads w \<and> grp_mem_intv w' = grp_mem_intv w \<and> query_intv w' = query_intv w \<and> jiffies w' = jiffies w \<and>
     hz w' = hz w \<and> igs_bcast_ok w' = igs_bcast_ok w \<and> igs_tx w' = igs_tx w \<and>
     mem_ok (igs_osh w') = mem_ok (igs_osh w) \<and> mem_seq (igs_osh w) \<le> mem_seq (igs_osh w')"

lemma igs_frame_refl [simp]: "igs_frame w w"
  by (simp add: igs_frame_def)

lemma igs_frame_trans [trans]: "igs_frame w w' \<Longrightarrow> igs_frame w' w'' \<Longrightarrow> igs_frame w w''"
  using mfdb_frame_trans by (auto simp: igs_frame_def)

lemma igs_frame_stats [simp]:
  "igs_frame w (stat_groups d w') = igs_frame w w'" "igs_frame w (stat_members d w') = igs_frame w w'"
  "igs_frame w (stat_timeout w') = igs_frame w w'"
  "igs_frame (stat_groups d w) w' = igs_frame w w'" "igs_frame (stat_members d w) w' = igs_frame w w'"
  "igs_frame (stat_timeout w) w' = igs_frame w w'"
  by (simp_all add: igs_frame_def stat_groups_def stat_members_def stat_timeout_def)

lemma group_find_lookup: "igsc_sdb_group_find w g = sdb_at w g"
  by (simp add: igsc_sdb_group_find_def sdb.lookup_def)

lemma sdb_okE_stats [simp]:
  "sdb_okE E (stat_groups d w) = sdb_okE E w" "sdb_okE E (stat_members d w) = sdb_okE E w"
  "sdb_okE E (stat_timeout w) = sdb_okE E w"
  by (simp_all add: sdb_okE_def)

lemma sdb_hosts_stats: "sdb_hosts (stat_timeout w) = sdb_hosts w"
  by (simp add: sdb_hosts_def fun_eq_iff)

lemma sdb_sync_stats [simp]:
  "sdb_sync st (stat_groups d w) = sdb_sync st w" "sdb_sync st (stat_members d w) = sdb_sync st w"
  "sdb_sync st (stat_timeout w) = sdb_sync st w"
  by (simp_all add: sdb_sync_def sdb_ifaces_def)

lemma sdb_okD:
  assumes "sdb_okE E w"
  shows "sdb.wf (mgrp_sdb w)" "mfdb_ok (emf_handle w)"
    "sdb_at w g = Some m \<Longrightarrow> g \<noteq> 0" "sdb_at w g = Some m \<Longrightarrow> grp_inv (mem_seq (igs_osh w)) m"
    "sdb_at w g = Some m \<Longrightarrow> g \<notin> E \<Longrightarrow> smh_head m \<noteq> []"
  using assms by (auto simp: sdb_okE_def)

lemma sdb_okI:
  assumes "sdb.wf (mgrp_sdb w)" "mfdb_ok (emf_handle w)"
    "\<And>g m. sdb_at w g = Some m \<Longrightarrow> g \<noteq> 0 \<and> grp_inv (mem_seq (igs_osh w)) m \<and> (g \<notin> E \<longrightarrow> smh_head m \<noteq> [])"
  shows "sdb_okE E w"
  using assms by (simp add: sdb_okE_def)

lemma sdb_okE_osh:
  assumes "sdb_okE E w" "mem_seq (igs_osh w) \<le> mem_seq os"
  shows "sdb_okE E (w\<lparr>igs_osh := os\<rparr>)"
  by (rule sdb_okI) (use sdb_okD [OF assms(1)] grp_inv_mono [OF _ assms(2)] in auto)

section \<open>Writing to and unlinking a group\<close>

lemma sdb_write_state [simp]:
  "emf_handle (sdb_write w g f) = emf_handle w" "igs_osh (sdb_write w g f) = igs_osh w"
  "emf_handle (sdb_unlink w g) = emf_handle w" "igs_osh (sdb_unlink w g) = igs_osh w"
  "igs_frame (sdb_write w g f) u = igs_frame w u" "igs_frame u (sdb_write w g f) = igs_frame u w"
  "igs_frame u (sdb_unlink w g) = igs_frame u w"
  "hz (sdb_write w g f) = hz w" "jiffies (sdb_write w g f) = jiffies w"
  "rt_timers (sdb_write w g f) = rt_timers w" "stale_reads (sdb_write w g f) = stale_reads w"
  "rtlist_head (sdb_write w g f) = rtlist_head w" "grp_mem_intv (sdb_write w g f) = grp_mem_intv w"
  "query_intv (sdb_write w g f) = query_intv w" "igs_bcast_ok (sdb_write w g f) = igs_bcast_ok w"
  "igs_tx (sdb_write w g f) = igs_tx w"
  by (simp_all add: sdb_write_def sdb_unlink_def igs_frame_def)

lemma sdb_write_lookup:
  assumes "sdb.wf (mgrp_sdb w)" "\<And>m. smgrp_ip (f m) = smgrp_ip m"
  shows "sdb_at (sdb_write w g f) = (sdb_at w)(g := map_option f (sdb_at w g))"
  unfolding sdb_write_def using sdb.lookup_update [OF assms(1), of f] assms(2) by simp

lemma sdb_write_wf:
  "sdb.wf (mgrp_sdb w) \<Longrightarrow> (\<And>m. smgrp_ip (f m) = smgrp_ip m) \<Longrightarrow> sdb.wf (mgrp_sdb (sdb_write w g f))"
  by (simp add: sdb_write_def sdb.wf_update)

lemma sdb_unlink_lookup:
  "sdb.wf (mgrp_sdb w) \<Longrightarrow> sdb_at (sdb_unlink w g) = (sdb_at w)(g := None)"
  "sdb.wf (mgrp_sdb w) \<Longrightarrow> sdb.wf (mgrp_sdb (sdb_unlink w g))"
  unfolding sdb_unlink_def by (simp_all add: sdb.lookup_delete sdb.wf_delete)

lemma smgrp_ip_at: "sdb.wf (mgrp_sdb w) \<Longrightarrow> sdb_at w g = Some m \<Longrightarrow> smgrp_ip m = g"
  by (simp add: sdb.lookup_Some_iff)

text \<open>A group as it is left: unlinked without hosts.\<close>

definition nonempty :: "igsc_mgrp \<Rightarrow> igsc_mgrp option" where
  "nonempty m = (if smh_head m = [] then None else Some m)"

lemma mh_unlink_law:
  assumes wf: "sdb.wf (mgrp_sdb w)" and m: "sdb_at w g = Some m"
  shows "\<exists>w'. mh_unlink w g a = Some w' \<and> sdb.wf (mgrp_sdb w') \<and> emf_handle w' = emf_handle w \<and>
    igs_osh w' = igs_osh w \<and> igs_frame w w' \<and>
    sdb_at w' = (sdb_at w)(g := nonempty (m\<lparr>smh_head := filter (\<lambda>mh. smh_addr mh \<noteq> a) (smh_head m)\<rparr>))"
proof -
  define f where "f m = m\<lparr>smh_head := filter (\<lambda>mh. smh_addr mh \<noteq> a) (smh_head m)\<rparr>" for m :: igsc_mgrp
  have f: "smgrp_ip (f m) = smgrp_ip m" for m by (simp add: f_def)
  note wf1 = sdb_write_wf [where f = f, OF wf f]
  have at1: "sdb_at (sdb_write w g f) = (sdb_at w)(g \<mapsto> f m)"
    using sdb_write_lookup [where f = f, OF wf f] m by simp
  have u: "mh_unlink w g a = Some (if smh_head (f m) = []
      then stat_groups (- 1) (sdb_unlink (stat_members (- 1) (sdb_write w g f)) g)
      else stat_members (- 1) (sdb_write w g f))"
    by (simp add: mh_unlink_def group_find_lookup at1 f_def [abs_def, symmetric] Let_def)
  show ?thesis
  proof (cases "smh_head (f m) = []")
    case True
    with u show ?thesis
      using sdb_unlink_lookup [of "stat_members (- 1) (sdb_write w g f)" g] wf1
      by (simp add: nonempty_def f_def [symmetric] at1)
  next
    case False
    with u wf1 show ?thesis by (simp add: nonempty_def f_def [symmetric] at1)
  qed
qed

lemma nonempty_ifaces:
  "grp_inv seq m \<Longrightarrow> (case nonempty m of None \<Rightarrow> {} | Some m \<Rightarrow> ifaces m) = ifaces m"
  using grp_inv_no_hosts [of seq m] by (simp add: nonempty_def ifaces_def)

lemma nonempty_hosts: "(case nonempty m of None \<Rightarrow> {} | Some m \<Rightarrow> hosts m) = hosts m"
  by (simp add: nonempty_def hosts_def)

lemma sdb_sync_upd:
  assumes "sdb_sync st w" "sdb_at w' = (sdb_at w)(g := nonempty m)" "grp_inv seq m"
    "grp_sync st (emf_handle w') g (ifaces m)"
    "\<And>g'. g' \<noteq> g \<Longrightarrow> mfdb_cnt (emf_handle w') g' = mfdb_cnt (emf_handle w) g'"
  shows "sdb_sync st w'"
  unfolding sdb_sync_def
proof
  fix g'
  show "grp_sync st (emf_handle w') g' (sdb_ifaces w' g')"
  proof (cases "g' = g")
    case True
    then show ?thesis using assms(4) nonempty_ifaces [OF assms(3)] by (simp add: sdb_ifaces_def assms(2))
  next
    case False
    then show ?thesis
      using assms(1,5) by (auto simp: sdb_sync_def grp_sync_def sdb_ifaces_def assms(2))
  qed
qed

lemma sdb_okE_upd:
  assumes "sdb_okE E w" "sdb.wf (mgrp_sdb w')" "mfdb_ok (emf_handle w')"
    "sdb_at w' = (sdb_at w)(g := nonempty m)" "grp_inv (mem_seq (igs_osh w')) m" "g \<noteq> 0"
    "mem_seq (igs_osh w) \<le> mem_seq (igs_osh w')"
  shows "sdb_okE (E - {g}) w'"
proof (rule sdb_okI [OF assms(2,3)])
  fix g' m' assume at: "sdb_at w' g' = Some m'"
  show "g' \<noteq> 0 \<and> grp_inv (mem_seq (igs_osh w')) m' \<and> (g' \<notin> E - {g} \<longrightarrow> smh_head m' \<noteq> [])"
  proof (cases "g' = g")
    case True
    then show ?thesis using at assms(4-6) by (auto simp: nonempty_def split: if_splits)
  next
    case False
    with at assms(4) have "sdb_at w g' = Some m'" by simp
    with False sdb_okD(3-5) [OF assms(1), of g' m'] assms(7) show ?thesis
      by (auto intro: grp_inv_mono)
  qed
qed

section \<open>Leaving\<close>

text \<open>The forwarding database's side of a host that leaves.\<close>

lemma emf_drop:
  assumes e: "mfdb_ok e" "g \<noteq> 0" "grp_sync st e g (ifaces m)"
    and inv: "grp_inv seq m" and mh: "mh \<in> set (smh_head m)"
    and mi: "mi \<in> set (smi_head m)" "smi_addr mi = smh_mi mh"
    and last: "smi_ref mi - 1 = 0"
  shows "\<exists>e'. emfc_mfdb_membership_del e g (smi_ifp mi) = Some (e', SUCCESS) \<and> mfdb_ok e' \<and>
    mfdb_frame e e' \<and> grp_sync st e' g (ifaces (grp_drop m mh mi)) \<and>
    (\<forall>g'. g' \<noteq> g \<longrightarrow> mfdb_cnt e' g' = mfdb_cnt e g')"
proof -
  note ifs = grp_drop_ifaces [OF inv mh mi]
  have cnt: "mfdb_cnt e g (smi_ifp mi) = st g (smi_ifp mi) + 1"
    using e(3) ifs(2) by (simp add: grp_sync_def)
  from mfdb_del_ok [OF e(1,2), of "smi_ifp mi"] cnt obtain e' where
    e': "emfc_mfdb_membership_del e g (smi_ifp mi) = Some (e', SUCCESS)" "mfdb_ok e'"
      "mfdb_cnt e' = mfdb_bump e g (smi_ifp mi) (st g (smi_ifp mi))" "mfdb_frame e e'" by auto
  have "grp_sync st e' g (ifaces (grp_drop m mh mi))"
    using e(3) ifs(1) last by (auto simp: grp_sync_def e'(3) mfdb_bump_def)
  with e' show ?thesis by (auto simp: mfdb_bump_def fun_eq_iff)
qed

lemma mh_delete_law:
  assumes ok: "sdb_okE E w" and sync: "sdb_sync st w" and m: "sdb_at w g = Some m"
    and mh: "mh \<in> set (smh_head m)" and mi: "mi_at (smi_head m) (smh_mi mh) = Some mi"
  shows "\<exists>w'. igsc_sdb_mh_delete w g (smh_addr mh) = Some w' \<and> sdb_okE (E - {g}) w' \<and>
    sdb_sync st w' \<and> igs_frame w w' \<and> sdb_at w' = (sdb_at w)(g := nonempty (grp_drop m mh mi))"
proof -
  note wf = sdb_okD(1) [OF ok]
  note inv = sdb_okD(4) [OF ok m]
  have mi': "mi \<in> set (smi_head m)" "smi_addr mi = smh_mi mh" using mi by (auto dest: mi_at_SomeD)
  have sg: "grp_sync st (emf_handle w) g (ifaces m)"
    using sync m by (auto simp: sdb_sync_def sdb_ifaces_def dest: spec [of _ g])
  note dinv = grp_drop_inv [OF inv mh mi']
  have fm: "List.find (\<lambda>x. smh_addr x = smh_addr mh) (smh_head m) = Some mh"
    using inv mh by (intro find_key_unique) (auto simp: grp_inv_def)
  define f1 where "f1 m = m\<lparr>smi_head := mi_ref_add (- 1) (smh_mi mh) (smi_head m)\<rparr>" for m :: igsc_mgrp
  define f2 where "f2 m = m\<lparr>smi_head := filter (\<lambda>mi. smi_addr mi \<noteq> smh_mi mh) (smi_head m)\<rparr>"
    for m :: igsc_mgrp
  have f: "smgrp_ip (f1 m) = smgrp_ip m" "smgrp_ip (f2 m) = smgrp_ip m" for m
    by (simp_all add: f1_def f2_def)
  define w1 where "w1 = sdb_write w g f1"
  have wf1: "sdb.wf (mgrp_sdb w1)" unfolding w1_def by (rule sdb_write_wf [OF wf f(1)])
  have at1: "sdb_at w1 = (sdb_at w)(g \<mapsto> f1 m)"
    using sdb_write_lookup [where f = f1, OF wf f(1)] m by (simp add: w1_def)
  have goal: ?thesis
    if w': "igsc_sdb_mh_delete w g (smh_addr mh) = Some w'" "sdb.wf (mgrp_sdb w')" "igs_frame w w'"
      "mfdb_ok (emf_handle w')" "igs_osh w' = igs_osh w"
      "grp_sync st (emf_handle w') g (ifaces (grp_drop m mh mi))"
      "\<And>g'. g' \<noteq> g \<Longrightarrow> mfdb_cnt (emf_handle w') g' = mfdb_cnt (emf_handle w) g'"
      "sdb_at w' = (sdb_at w)(g := nonempty (grp_drop m mh mi))" for w'
    using w' sdb_okE_upd [OF ok w'(2,4,8)] sdb_sync_upd [OF sync w'(8) dinv w'(6,7)] dinv
      sdb_okD(3) [OF ok m] by auto
  show ?thesis
  proof (cases "smi_ref mi - 1 = 0")
    case True
    from emf_drop [OF sdb_okD(2) [OF ok] sdb_okD(3) [OF ok m] sg inv mh mi' True] obtain e' where
      e': "emfc_mfdb_membership_del (emf_handle w) g (smi_ifp mi) = Some (e', SUCCESS)" "mfdb_ok e'"
        "mfdb_frame (emf_handle w) e'" "grp_sync st e' g (ifaces (grp_drop m mh mi))"
        "\<forall>g'. g' \<noteq> g \<longrightarrow> mfdb_cnt e' g' = mfdb_cnt (emf_handle w) g'" by blast
    define w2 where "w2 = sdb_write (w1\<lparr>emf_handle := e'\<rparr>) g f2"
    have wf1': "sdb.wf (mgrp_sdb (w1\<lparr>emf_handle := e'\<rparr>))" using wf1 by simp
    have at2: "sdb_at w2 = (sdb_at w)(g \<mapsto> f2 (f1 m))"
      unfolding w2_def using sdb_write_lookup [where f = f2, OF wf1' f(2)] at1 by simp
    have wf2: "sdb.wf (mgrp_sdb w2)" unfolding w2_def by (rule sdb_write_wf [OF wf1' f(2)])
    from mh_unlink_law [OF wf2, of g "f2 (f1 m)" "smh_addr mh"] at2 obtain w' where
      w': "mh_unlink w2 g (smh_addr mh) = Some w'" "sdb.wf (mgrp_sdb w')" "emf_handle w' = e'"
        "igs_osh w' = igs_osh w" "igs_frame w2 w'"
        "sdb_at w' = (sdb_at w)(g := nonempty ((f2 (f1 m))\<lparr>smh_head :=
           filter (\<lambda>x. smh_addr x \<noteq> smh_addr mh) (smh_head (f2 (f1 m)))\<rparr>))"
      by (auto simp: w2_def w1_def)
    have "filter (\<lambda>x. smi_addr x \<noteq> p) (mi_ref_add d p mis) = filter (\<lambda>x. smi_addr x \<noteq> p) mis" for d p mis
      by (induction mis) (auto simp: mi_ref_add_def)
    then have eq: "(f2 (f1 m))\<lparr>smh_head := filter (\<lambda>x. smh_addr x \<noteq> smh_addr mh) (smh_head (f2 (f1 m)))\<rparr> =
        grp_drop m mh mi" using True by (simp add: grp_drop_def f1_def f2_def)
    have "igsc_sdb_mh_delete w g (smh_addr mh) = Some w'"
      using m fm mi True e'(1) w'(1)
      by (simp add: igsc_sdb_mh_delete_def group_find_lookup w2_def w1_def f1_def [abs_def]
          f2_def [abs_def] Let_def)
    moreover have "igs_frame w w2" using e'(3) by (simp add: w2_def w1_def igs_frame_def)
    ultimately show ?thesis
      using w' e' eq igs_frame_trans by (intro goal [of w']) auto
  next
    case False
    from mh_unlink_law [OF wf1, of g "f1 m" "smh_addr mh"] at1 obtain w' where
      w': "mh_unlink w1 g (smh_addr mh) = Some w'" "sdb.wf (mgrp_sdb w')"
        "emf_handle w' = emf_handle w" "igs_osh w' = igs_osh w" "igs_frame w1 w'"
        "sdb_at w' = (sdb_at w)(g := nonempty ((f1 m)\<lparr>smh_head :=
           filter (\<lambda>x. smh_addr x \<noteq> smh_addr mh) (smh_head (f1 m))\<rparr>))"
      by (auto simp: w1_def)
    have eq: "(f1 m)\<lparr>smh_head := filter (\<lambda>x. smh_addr x \<noteq> smh_addr mh) (smh_head (f1 m))\<rparr> =
        grp_drop m mh mi" using False by (simp add: grp_drop_def f1_def)
    have "igsc_sdb_mh_delete w g (smh_addr mh) = Some w'"
      using m fm mi False w'(1)
      by (simp add: igsc_sdb_mh_delete_def group_find_lookup w1_def f1_def [abs_def] Let_def)
    moreover have "igs_frame w w1" by (simp add: w1_def)
    ultimately show ?thesis
      using w' eq sg False grp_drop_ifaces(1) [OF inv mh mi'] sdb_okD(2) [OF ok] igs_frame_trans
      by (intro goal [of w']) auto
  qed
qed

section \<open>Timers of hosts\<close>

definition retimer :: "addr \<Rightarrow> osl_timer option \<Rightarrow> igsc_mgrp \<Rightarrow> igsc_mgrp" where
  "retimer a t m = m\<lparr>smh_head :=
     map (\<lambda>mh. if smh_addr mh = a then mh\<lparr>smh_timer := t\<rparr> else mh) (smh_head m)\<rparr>"

lemma retimer_simps [simp]:
  "smgrp_ip (retimer a t m) = smgrp_ip m" "smi_head (retimer a t m) = smi_head m"
  "ifaces (retimer a t m) = ifaces m" "smh_head (retimer a t m) = [] \<longleftrightarrow> smh_head m = []"
  by (simp_all add: retimer_def ifaces_def)

lemma retimer_maps:
  "map smh_addr (smh_head (retimer a t m)) = map smh_addr (smh_head m)"
  "map (\<lambda>mh. (smh_ip mh, smh_mi mh)) (smh_head (retimer a t m)) =
     map (\<lambda>mh. (smh_ip mh, smh_mi mh)) (smh_head m)"
  "refs (smh_head (retimer a t m)) p = refs (smh_head m) p"
proof -
  show "map smh_addr (smh_head (retimer a t m)) = map smh_addr (smh_head m)"
    "map (\<lambda>mh. (smh_ip mh, smh_mi mh)) (smh_head (retimer a t m)) =
     map (\<lambda>mh. (smh_ip mh, smh_mi mh)) (smh_head m)"
    by (auto simp: retimer_def)
  have "refs (map (\<lambda>mh. if smh_addr mh = a then mh\<lparr>smh_timer := t\<rparr> else mh) xs) p = refs xs p" for xs
    by (induction xs) (auto simp: refs_def)
  then show "refs (smh_head (retimer a t m)) p = refs (smh_head m) p" by (simp add: retimer_def)
qed

lemma retimer_inv: "grp_inv seq m \<Longrightarrow> grp_inv seq (retimer a t m)"
proof -
  assume inv: "grp_inv seq m"
  have "\<forall>mh\<in>set (smh_head (retimer a t m)). smh_mi mh \<in> smi_addr ` set (smi_head m) \<and>
      0 < smh_addr mh \<and> smh_addr mh \<le> seq"
    using inv by (auto simp: retimer_def grp_inv_def)
  then show ?thesis using inv unfolding grp_inv_def retimer_maps retimer_simps by blast
qed

lemma retimer_hosts [simp]: "hosts (retimer a t m) = hosts m"
proof -
  define v where "v mh = (if smh_addr mh = a then mh\<lparr>smh_timer := t\<rparr> else mh)" for mh :: igsc_mh
  have v: "smh_ip (v x) = smh_ip x" "smh_mi (v x) = smh_mi x" for x by (simp_all add: v_def)
  have hd: "set (smh_head (retimer a t m)) = v ` set (smh_head m)"
    by (simp add: retimer_def v_def [abs_def])
  have "(h, i) \<in> hosts (retimer a t m) \<longleftrightarrow> (h, i) \<in> hosts m" for h i
    by (simp add: hosts_iff hd v)
  then show ?thesis by (intro set_eqI) (simp add: split_paired_all)
qed

lemma retimer_drop:
  "smh_addr mh = a \<Longrightarrow> grp_drop (retimer a t m) (mh\<lparr>smh_timer := t\<rparr>) mi = grp_drop m mh mi"
proof -
  have "filter (\<lambda>x. smh_addr x \<noteq> a) (map (\<lambda>mh. if smh_addr mh = a then mh\<lparr>smh_timer := t\<rparr> else mh) xs) =
      filter (\<lambda>x. smh_addr x \<noteq> a) xs" for xs :: "igsc_mh list"
    by (induction xs) auto
  then show "smh_addr mh = a \<Longrightarrow> ?thesis" by (auto simp: grp_drop_def retimer_def)
qed

lemma timers_live_drop: "timers_live m \<Longrightarrow> timers_live (grp_drop m mh mi)"
  by (auto simp: timers_live_def grp_drop_def)

lemma timers_live_retimer: "timers_live m \<Longrightarrow> timer_live t \<Longrightarrow> timers_live (retimer a t m)"
  by (auto simp: timers_live_def retimer_def)

lemma mh_set_timer_law:
  assumes "sdb_okE E w" "sdb_sync st w"
  shows "sdb_okE E (mh_set_timer w g a t)" "sdb_sync st (mh_set_timer w g a t)"
    "igs_frame w (mh_set_timer w g a t)"
    "sdb_at (mh_set_timer w g a t) = (sdb_at w)(g := map_option (retimer a t) (sdb_at w g))"
    "sdb_hosts (mh_set_timer w g a t) = sdb_hosts w"
proof -
  let ?w = "mh_set_timer w g a t"
  have eq: "?w = sdb_write w g (retimer a t)" by (simp add: mh_set_timer_def retimer_def [abs_def])
  show at: "sdb_at ?w = (sdb_at w)(g := map_option (retimer a t) (sdb_at w g))"
    unfolding eq using sdb_okD(1) [OF assms(1)] by (simp add: sdb_write_lookup)
  show "igs_frame w ?w" by (simp add: eq)
  show "sdb_okE E ?w"
  proof (rule sdb_okI)
    show "sdb.wf (mgrp_sdb ?w)" "mfdb_ok (emf_handle ?w)"
      using sdb_okD(1,2) [OF assms(1)] by (simp_all add: eq sdb_write_wf)
    fix g' m' assume "sdb_at ?w g' = Some m'"
    then obtain m where "sdb_at w g' = Some m" "m' = m \<or> m' = retimer a t m"
      by (auto simp: at split: if_splits)
    then show "g' \<noteq> 0 \<and> grp_inv (mem_seq (igs_osh ?w)) m' \<and> (g' \<notin> E \<longrightarrow> smh_head m' \<noteq> [])"
      using sdb_okD(3-5) [OF assms(1), of g' m] by (auto simp: eq retimer_inv)
  qed
  have "sdb_ifaces ?w = sdb_ifaces w" by (auto simp: sdb_ifaces_def at fun_eq_iff split: option.split)
  then show "sdb_sync st ?w" using assms(2) by (simp add: sdb_sync_def eq)
  show "sdb_hosts ?w = sdb_hosts w" by (auto simp: sdb_hosts_def at fun_eq_iff split: option.split)
qed

section \<open>Leaving and timing out\<close>

text \<open>The invariant between two operations.\<close>

definition sdb_inv :: "(u32 \<Rightarrow> ifp \<Rightarrow> nat) \<Rightarrow> igsc_info \<Rightarrow> bool" where
  "sdb_inv st w \<longleftrightarrow> sdb_ok w \<and> sdb_sync st w \<and> sdb_timers w"

text \<open>Deleting a host entry whose timer was deleted or fired before.\<close>

lemma mh_retired_law:
  assumes inv: "sdb_inv st w" and m: "sdb_at w g = Some m" and mh: "mh \<in> set (smh_head m)"
    and mi: "mi_at (smi_head m) (smh_mi mh) = Some mi"
  shows "\<exists>w'. igsc_sdb_mh_delete (mh_set_timer w g (smh_addr mh) t) g (smh_addr mh) = Some w' \<and>
    sdb_inv st w' \<and> igs_frame w w' \<and> sdb_at w' = (sdb_at w)(g := nonempty (grp_drop m mh mi)) \<and>
    sdb_hosts w' = (sdb_hosts w)(g := sdb_hosts w g - {(smh_ip mh, smi_ifp mi)})"
proof -
  let ?a = "smh_addr mh" and ?mh = "mh\<lparr>smh_timer := t\<rparr>"
  have ok: "sdb_ok w" "sdb_sync st w" "sdb_timers w" using inv by (simp_all add: sdb_inv_def)
  note st = mh_set_timer_law [OF ok(1,2), of g ?a t]
  note ginv = sdb_okD(4) [OF ok(1) m]
  have mh': "?mh \<in> set (smh_head (retimer ?a t m))" using mh by (auto simp: retimer_def)
  have at: "sdb_at (mh_set_timer w g ?a t) g = Some (retimer ?a t m)" by (simp add: st(4) m)
  have mi': "mi \<in> set (smi_head m)" "smi_addr mi = smh_mi mh" using mi by (auto dest: mi_at_SomeD)
  from mh_delete_law [OF st(1,2) at mh'] mi obtain w' where
    w': "igsc_sdb_mh_delete (mh_set_timer w g ?a t) g ?a = Some w'" "sdb_ok w'" "sdb_sync st w'"
      "igs_frame (mh_set_timer w g ?a t) w'"
      "sdb_at w' = (sdb_at (mh_set_timer w g ?a t))(g := nonempty (grp_drop (retimer ?a t m) ?mh mi))"
    by auto
  have at': "sdb_at w' = (sdb_at w)(g := nonempty (grp_drop m mh mi))"
    using w'(5) retimer_drop [of mh ?a t m mi] st(4) by simp
  have "sdb_timers w'"
    using ok(3) m timers_live_drop [of m mh mi]
    by (auto simp: sdb_timers_def at' nonempty_def split: if_splits)
  moreover have "sdb_hosts w' = (sdb_hosts w)(g := sdb_hosts w g - {(smh_ip mh, smi_ifp mi)})"
    using nonempty_hosts grp_drop_hosts [OF ginv mh mi'] m
    by (auto simp: sdb_hosts_def at' fun_eq_iff)
  ultimately show ?thesis
    using w' at' igs_frame_trans [OF st(3)] by (auto simp: sdb_inv_def)
qed

lemma member_del_law:
  assumes inv: "sdb_inv st w"
  shows "\<exists>w' r. igsc_sdb_member_del w i g h = Some (w', r) \<and> sdb_inv st w' \<and> igs_frame w w' \<and>
    r = (if (h, i) \<in> sdb_hosts w g then SUCCESS else FAILURE) \<and>
    sdb_hosts w' = (sdb_hosts w)(g := sdb_hosts w g - {(h, i)})"
proof (cases "sdb_at w g")
  case None
  then show ?thesis
    using inv by (auto simp: igsc_sdb_member_del_def igsc_sdb_member_find_def group_find_lookup
        sdb_hosts_def fun_eq_iff)
next
  case (Some m)
  have ok: "sdb_ok w" "sdb_sync st w" "sdb_timers w" using inv by (simp_all add: sdb_inv_def)
  have hm: "sdb_hosts w g = hosts m" using Some by (simp add: sdb_hosts_def)
  from sdb_okD(4) [OF ok(1) Some] show ?thesis
  proof (cases rule: mh_entry_find_cases [where h = h and i = i])
    case absent
    then have "igsc_sdb_member_del w i g h = Some (w, FAILURE)"
      by (simp add: igsc_sdb_member_del_def igsc_sdb_member_find_def group_find_lookup Some)
    then show ?thesis using absent(2) hm inv by (auto simp: fun_eq_iff)
  next
    case (present mh mi)
    have "timer_live (smh_timer mh)"
      using ok(3) Some present(2) by (auto simp: sdb_timers_def timers_live_def)
    then obtain t where t: "smh_timer mh = Some t" by (rule timer_live_SomeE)
    from mh_retired_law [OF inv Some present(2,4), of "fst (osl_timer_del t)"] obtain w' where
      w': "igsc_sdb_mh_delete (mh_set_timer w g (smh_addr mh) (fst (osl_timer_del t))) g (smh_addr mh) = Some w'"
        "sdb_inv st w'" "igs_frame w w'"
        "sdb_hosts w' = (sdb_hosts w)(g := sdb_hosts w g - {(smh_ip mh, smi_ifp mi)})" by blast
    have "igsc_sdb_member_del w i g h = Some (w', SUCCESS)"
      using present(1) w'(1)
      by (simp add: igsc_sdb_member_del_def igsc_sdb_member_find_def group_find_lookup Some t)
    then show ?thesis using w' present(3,5,6) hm by auto
  qed
qed

lemma timer_expire_law:
  assumes inv: "sdb_inv st w" and m: "sdb_at w g = Some m" and mh: "mh \<in> set (smh_head m)"
    and mi: "mi_at (smi_head m) (smh_mi mh) = Some mi"
  shows "\<exists>w'. sdb_timer_expire w g (smh_addr mh) = Some w' \<and> sdb_inv st w' \<and> igs_frame w w' \<and>
    sdb_hosts w' = (sdb_hosts w)(g := sdb_hosts w g - {(smh_ip mh, smi_ifp mi)})"
proof -
  have ok: "sdb_ok w" "sdb_sync st w" "sdb_timers w" using inv by (simp_all add: sdb_inv_def)
  note ginv = sdb_okD(4) [OF ok(1) m]
  have "timer_live (smh_timer mh)" using ok(3) m mh by (auto simp: sdb_timers_def timers_live_def)
  then obtain t where t: "smh_timer mh = Some t" by (rule timer_live_SomeE)
  obtain t1 t2 where tt: "osl_timer (hz w) (jiffies w) t = (t1, t2)" by fastforce
  have fm: "List.find (\<lambda>x. smh_addr x = smh_addr mh) (smh_head m) = Some mh"
    using ginv mh by (intro find_key_unique) (auto simp: grp_inv_def)
  have inv1: "sdb_inv st (stat_timeout w)" using inv by (simp add: sdb_inv_def sdb_timers_def)
  from mh_retired_law [OF inv1 _ mh mi, of g "Some t1"] m obtain w' where
    w': "igsc_sdb_mh_delete (mh_set_timer (stat_timeout w) g (smh_addr mh) (Some t1)) g (smh_addr mh) = Some w'"
      "sdb_inv st w'" "igs_frame (stat_timeout w) w'"
      "sdb_at w' = (sdb_at w)(g := nonempty (grp_drop m mh mi))"
      "sdb_hosts w' = (sdb_hosts w)(g := sdb_hosts w g - {(smh_ip mh, smi_ifp mi)})"
    by (auto simp: sdb_hosts_stats)
  have comm: "stat_timeout (mh_set_timer w g a x) = mh_set_timer (stat_timeout w) g a x" for a x
    by (simp add: stat_timeout_def mh_set_timer_def sdb_write_def)
  let ?w = "mh_set_timer w' g (smh_addr mh) t2"
  have inv': "sdb_ok w'" "sdb_sync st w'" "sdb_timers w'" using w'(2) by (simp_all add: sdb_inv_def)
  note st = mh_set_timer_law [OF inv'(1,2), of g "smh_addr mh" t2]
  have "map (\<lambda>mh. if smh_addr mh = a then mh\<lparr>smh_timer := t2\<rparr> else mh) (filter (\<lambda>x. smh_addr x \<noteq> a) xs) =
      filter (\<lambda>x. smh_addr x \<noteq> a) xs" for a and xs :: "igsc_mh list"
    by (induction xs) auto
  then have "map_option (retimer (smh_addr mh) t2) (nonempty (grp_drop m mh mi)) =
      nonempty (grp_drop m mh mi)"
    by (simp add: nonempty_def retimer_def grp_drop_def)
  then have "sdb_at ?w = sdb_at w'" using st(4) w'(4) by (auto simp: fun_eq_iff)
  then have "sdb_timers ?w" using inv'(3) by (simp add: sdb_timers_def)
  moreover have "sdb_timer_expire w g (smh_addr mh) = Some ?w"
    using m fm t tt w'(1) by (simp add: sdb_timer_expire_def group_find_lookup igsc_sdb_timer_def comm)
  moreover have "igs_frame w ?w"
    using w'(3) st(3) igs_frame_trans [of w w'] by simp
  ultimately show ?thesis using st w'(5) by (auto simp: sdb_inv_def)
qed

end
