(* ===== verification/Igs_Sdb_Join.thy ===== *)
theory Igs_Sdb_Join
  imports Igs_Sdb_Laws
begin

text \<open>
  Joining: a host is added, or its timer is restarted when it is a member already. An addition
  that fails, at whatever allocation, leaves the membership table and the forwarding
  database's registrations as they were.
\<close>

lemma sdb_inv_D:
  assumes "sdb_inv st w"
  shows "sdb_ok w" "sdb_sync st w" "sdb_timers w"
  using assms by (simp_all add: sdb_inv_def)

text \<open>The group a pointer denotes while the addition is under way.\<close>

lemma grp_sync_at: "sdb_sync st w \<Longrightarrow> sdb_at w g = Some m \<Longrightarrow> grp_sync st (emf_handle w) g (ifaces m)"
  by (auto simp: sdb_sync_def sdb_ifaces_def dest: spec [of _ g])

lemma emf_join:
  assumes e: "mfdb_ok e" "g \<noteq> 0" "grp_sync st e g I" and i: "i \<notin> I"
  shows "\<exists>e'. emfc_mfdb_membership_add e g i = Some (e', SUCCESS) \<and> mfdb_ok e' \<and> mfdb_frame e e' \<and>
    grp_sync st e' g (insert i I) \<and> (\<forall>g'. g' \<noteq> g \<longrightarrow> mfdb_cnt e' g' = mfdb_cnt e g')"
proof -
  have cnt: "mfdb_cnt e g i = st g i" "st g i < 2 ^ 32 - 1" using e(3) i by (simp_all add: grp_sync_def)
  from mfdb_add_ok [OF e(1,2), of i] cnt obtain e' where
    e': "emfc_mfdb_membership_add e g i = Some (e', SUCCESS)" "mfdb_ok e'"
      "mfdb_cnt e' = mfdb_bump e g i (Suc (st g i))" "mfdb_frame e e'" by auto
  have "grp_sync st e' g (insert i I)"
    using e(3) cnt by (auto simp: grp_sync_def e'(3) mfdb_bump_def)
  with e' show ?thesis by (auto simp: mfdb_bump_def fun_eq_iff)
qed

lemma emf_unjoin:
  assumes e: "mfdb_ok e" "g \<noteq> 0" "grp_sync st e g (insert i I)" and i: "i \<notin> I"
  shows "\<exists>e'. emfc_mfdb_membership_del e g i = Some (e', SUCCESS) \<and> mfdb_ok e' \<and> mfdb_frame e e' \<and>
    grp_sync st e' g I \<and> (\<forall>g'. g' \<noteq> g \<longrightarrow> mfdb_cnt e' g' = mfdb_cnt e g')"
proof -
  have cnt: "mfdb_cnt e g i = Suc (st g i)" using e(3) by (simp add: grp_sync_def)
  from mfdb_del_ok [OF e(1,2), of i] cnt obtain e' where
    e': "emfc_mfdb_membership_del e g i = Some (e', SUCCESS)" "mfdb_ok e'"
      "mfdb_cnt e' = mfdb_bump e g i (st g i)" "mfdb_frame e e'" by auto
  have "grp_sync st e' g I"
    using e(3) i by (auto simp: grp_sync_def e'(3) mfdb_bump_def)
  with e' show ?thesis by (auto simp: mfdb_bump_def fun_eq_iff)
qed

section \<open>Outcomes\<close>

text \<open>
  The outcome of adding host \<open>h\<close> on interface \<open>i\<close> to the entry of group \<open>g\<close>, whose content
  is \<open>m\<close>, in a state with the entry's group possibly still empty.
\<close>

definition join_outcome ::
    "(u32 \<Rightarrow> ifp \<Rightarrow> nat) \<Rightarrow> igsc_info \<Rightarrow> ifp \<Rightarrow> u32 \<Rightarrow> u32 \<Rightarrow> igsc_mgrp \<Rightarrow> igsc_info \<times> int \<Rightarrow> bool" where
  "join_outcome st w i g h m res \<longleftrightarrow> (let (w', r) = res in
     sdb_ok w' \<and> sdb_sync st w' \<and> igs_frame w w' \<and>
     (r = SUCCESS \<and> (\<exists>m'. sdb_at w' = (sdb_at w)(g \<mapsto> m') \<and> hosts m' = insert (h, i) (hosts m) \<and>
        (timers_live m \<longrightarrow> timers_live m')) \<or>
      r = FAILURE \<and> \<not> mem_reliable (igs_osh w) \<and> sdb_at w' = (sdb_at w)(g := nonempty m)))"

lemma join_outcome_fail:
  assumes ok: "sdb_okE {g} w" and sync: "sdb_sync st w" and m: "sdb_at w g = Some m"
    and w': "sdb.wf (mgrp_sdb w')" "mfdb_ok (emf_handle w')" "igs_frame w w'"
      "sdb_at w' = (sdb_at w)(g := nonempty m)" "grp_sync st (emf_handle w') g (ifaces m)"
      "\<And>g'. g' \<noteq> g \<Longrightarrow> mfdb_cnt (emf_handle w') g' = mfdb_cnt (emf_handle w) g'"
    and mem: "\<not> mem_reliable (igs_osh w)"
  shows "join_outcome st w i g h m (w', FAILURE)"
proof -
  note inv = sdb_okD(4) [OF ok m]
  have seq: "mem_seq (igs_osh w) \<le> mem_seq (igs_osh w')" using w'(3) by (simp add: igs_frame_def)
  have "sdb_ok w'"
    using sdb_okE_upd [OF ok w'(1,2,4) grp_inv_mono [OF inv seq] sdb_okD(3) [OF ok m] seq] by simp
  moreover have "sdb_sync st w'" using sdb_sync_upd [OF sync w'(4) inv w'(5,6)] .
  ultimately show ?thesis using w' mem by (simp add: join_outcome_def)
qed

lemma exit1_law:
  assumes wf: "sdb.wf (mgrp_sdb w)" and m: "sdb_at w g = Some m"
  shows "\<exists>w'. sdb_add_exit1 w g = Some (w', FAILURE) \<and> sdb.wf (mgrp_sdb w') \<and>
    emf_handle w' = emf_handle w \<and> igs_osh w' = igs_osh w \<and> igs_frame w w' \<and>
    sdb_at w' = (sdb_at w)(g := nonempty m)"
  using wf m sdb_unlink_lookup [OF wf, of g]
  by (auto simp: sdb_add_exit1_def group_find_lookup nonempty_def fun_upd_idem)

text \<open>Exit 3 takes the new host entry out again.\<close>

lemma exit3_law:
  assumes wf: "sdb.wf (mgrp_sdb w)"
    and m: "sdb_at w g = Some (m\<lparr>smh_head := mh # smh_head m\<rparr>)"
    and fresh: "smh_addr mh \<notin> smh_addr ` set (smh_head m)"
  shows "\<exists>w'. sdb_add_exit3 w g (smh_addr mh) = Some (w', FAILURE) \<and> sdb.wf (mgrp_sdb w') \<and>
    emf_handle w' = emf_handle w \<and> igs_osh w' = igs_osh w \<and> igs_frame w w' \<and>
    sdb_at w' = (sdb_at w)(g := nonempty m)"
proof -
  define f where "f m = m\<lparr>smh_head := filter (\<lambda>x. smh_addr x \<noteq> smh_addr mh) (smh_head m)\<rparr>"
    for m :: igsc_mgrp
  have f: "smgrp_ip (f m) = smgrp_ip m" for m by (simp add: f_def)
  have "filter (\<lambda>x. smh_addr x \<noteq> smh_addr mh) (smh_head m) = smh_head m"
    using fresh by (auto intro!: filter_True simp: image_iff)
  then have fm: "f (m\<lparr>smh_head := mh # smh_head m\<rparr>) = m" by (simp add: f_def)
  note wf1 = sdb_write_wf [where f = f, OF wf f]
  have at1: "sdb_at (sdb_write w g f) = (sdb_at w)(g \<mapsto> m)"
    using sdb_write_lookup [where f = f, OF wf f] m fm by simp
  from exit1_law [OF wf1 [of g], of g m] at1 show ?thesis
    by (simp add: sdb_add_exit3_def f_def [abs_def])
qed

lemma set_mi_fresh:
  fixes mhs :: "igsc_mh list"
  assumes "smh_addr mh \<notin> smh_addr ` set mhs"
  shows "map (\<lambda>x. if smh_addr x = smh_addr mh then x\<lparr>smh_mi := p\<rparr> else x) mhs = mhs"
proof (rule map_idI)
  fix x assume "x \<in> set mhs"
  with assms have "smh_addr x \<noteq> smh_addr mh" by (metis imageI)
  then show "(if smh_addr x = smh_addr mh then x\<lparr>smh_mi := p\<rparr> else x) = x" by simp
qed

lemma add_mi_law:
  assumes wf: "sdb.wf (mgrp_sdb w)" and e: "mfdb_ok (emf_handle w)" and g: "g \<noteq> 0"
    and m: "sdb_at w g = Some (m\<lparr>smh_head := mh # smh_head m\<rparr>)"
    and fresh: "smh_addr mh \<notin> smh_addr ` set (smh_head m)"
    and sync: "grp_sync st (emf_handle w) g (ifaces m)" and i: "i \<notin> ifaces m"
  shows "\<exists>w' r. sdb_add_mi w i g (smh_addr mh) = Some (w', r) \<and> sdb.wf (mgrp_sdb w') \<and>
    mfdb_ok (emf_handle w') \<and> igs_frame w w' \<and>
    (\<forall>g'. g' \<noteq> g \<longrightarrow> mfdb_cnt (emf_handle w') g' = mfdb_cnt (emf_handle w) g') \<and>
    (r = FAILURE \<and> \<not> mem_reliable (igs_osh w) \<and> sdb_at w' = (sdb_at w)(g := nonempty m) \<and>
       grp_sync st (emf_handle w') g (ifaces m) \<or>
     r = SUCCESS \<and> grp_sync st (emf_handle w') g (insert i (ifaces m)) \<and>
       (\<exists>p. mem_seq (igs_osh w) < p \<and> p \<le> mem_seq (igs_osh w') \<and>
         sdb_at w' = (sdb_at w)(g \<mapsto> grp_join_new m (mh\<lparr>smh_mi := p\<rparr>)
           \<lparr>smi_addr = p, smi_ifp = i, smi_ref = 1\<rparr>)))"
proof -
  from emf_join [OF e g sync i] obtain e' where
    e': "emfc_mfdb_membership_add (emf_handle w) g i = Some (e', SUCCESS)" "mfdb_ok e'"
      "mfdb_frame (emf_handle w) e'" "grp_sync st e' g (insert i (ifaces m))"
      "\<forall>g'. g' \<noteq> g \<longrightarrow> mfdb_cnt e' g' = mfdb_cnt (emf_handle w) g'" by blast
  obtain os p where os: "MALLOC (igs_osh w) = (os, p)" by fastforce
  define w2 where "w2 = w\<lparr>emf_handle := e', igs_osh := os\<rparr>"
  have w2: "sdb.wf (mgrp_sdb w2)" "sdb_at w2 = sdb_at w" "emf_handle w2 = e'" "igs_frame w w2"
    using wf e'(3) MALLOC_D(1,2) [OF os] by (simp_all add: w2_def igs_frame_def)
  show ?thesis
  proof (cases "p = 0")
    case True
    from emf_unjoin [OF e'(2) g e'(4) i] obtain e2 where
      e2: "emfc_mfdb_membership_del e' g i = Some (e2, SUCCESS)" "mfdb_ok e2" "mfdb_frame e' e2"
        "grp_sync st e2 g (ifaces m)" "\<forall>g'. g' \<noteq> g \<longrightarrow> mfdb_cnt e2 g' = mfdb_cnt e' g'" by blast
    define w3 where "w3 = w2\<lparr>emf_handle := e2\<rparr>"
    have w3: "sdb.wf (mgrp_sdb w3)" "sdb_at w3 = sdb_at w" "emf_handle w3 = e2" "igs_frame w2 w3"
      using w2 e2(3) by (simp_all add: w3_def igs_frame_def)
    from exit3_law [OF w3(1) _ fresh, of g] m w3(2) obtain w' where
      w': "sdb_add_exit3 w3 g (smh_addr mh) = Some (w', FAILURE)" "sdb.wf (mgrp_sdb w')"
        "emf_handle w' = emf_handle w3" "igs_frame w3 w'" "sdb_at w' = (sdb_at w3)(g := nonempty m)"
      by auto
    have "sdb_add_mi w i g (smh_addr mh) = Some (w', FAILURE)"
      using e' e2(1) os True w' by (simp add: sdb_add_mi_def w3_def w2_def)
    moreover have "igs_frame w w'" using igs_frame_trans w2(4) w3(4) w'(4) by blast
    ultimately show ?thesis
      using w' w3 e2 e'(5) MALLOC_D(3) [OF os True] by auto
  next
    case False
    define f where "f m = m\<lparr>smi_head := \<lparr>smi_addr = p, smi_ifp = i, smi_ref = 1\<rparr> # smi_head m,
        smh_head := map (\<lambda>x. if smh_addr x = smh_addr mh then x\<lparr>smh_mi := p\<rparr> else x) (smh_head m)\<rparr>"
      for m :: igsc_mgrp
    have f: "smgrp_ip (f m) = smgrp_ip m" for m by (simp add: f_def)
    have fm: "f (m\<lparr>smh_head := mh # smh_head m\<rparr>) = grp_join_new m (mh\<lparr>smh_mi := p\<rparr>)
        \<lparr>smi_addr = p, smi_ifp = i, smi_ref = 1\<rparr>"
      by (simp add: f_def grp_join_new_def set_mi_fresh [OF fresh])
    define w' where "w' = sdb_write w2 g f"
    have "sdb_add_mi w i g (smh_addr mh) = Some (w', SUCCESS)"
      using e' os False by (simp add: sdb_add_mi_def w'_def w2_def f_def [abs_def])
    moreover have "sdb.wf (mgrp_sdb w')" unfolding w'_def by (rule sdb_write_wf [OF w2(1) f])
    moreover have "sdb_at w' = (sdb_at w)(g \<mapsto> grp_join_new m (mh\<lparr>smh_mi := p\<rparr>)
        \<lparr>smi_addr = p, smi_ifp = i, smi_ref = 1\<rparr>)"
      unfolding w'_def using sdb_write_lookup [where f = f, OF w2(1) f] w2(2) m fm by simp
    moreover have "emf_handle w' = e'" "igs_osh w' = os" "igs_frame w w'"
      using w2 by (simp_all add: w'_def w2_def)
    ultimately show ?thesis
      using e' MALLOC_D(2,4) [OF os] False by (auto intro!: exI [of _ p])
  qed
qed

text \<open>
  Linking a new host: \<open>w\<close> is the state with the host entry and its timer allocated, \<open>u\<close> the
  state the addition started from.
\<close>

lemma link_new_law:
  assumes ok: "sdb_okE {g} w" and sync: "sdb_sync st w" and m: "sdb_at w g = Some m"
    and i: "i \<notin> ifaces m" and mh: "seq < smh_addr mh" "smh_addr mh \<le> mem_seq (igs_osh w)"
      "grp_inv seq m" "timer_live (smh_timer mh)"
  shows "\<exists>w' r. sdb_add_mi (sdb_write w g (\<lambda>m. m\<lparr>smh_head := mh # smh_head m\<rparr>)) i g (smh_addr mh) =
      Some (w', r) \<and> join_outcome st w i g (smh_ip mh) m (w', r)"
proof -
  note wf = sdb_okD(1) [OF ok] and g = sdb_okD(3) [OF ok m]
  note sg = grp_sync_at [OF sync m]
  define f where "f m = m\<lparr>smh_head := mh # smh_head m\<rparr>" for m :: igsc_mgrp
  have f: "smgrp_ip (f m) = smgrp_ip m" for m by (simp add: f_def)
  have fresh: "smh_addr mh \<notin> smh_addr ` set (smh_head m)"
    using mh(1,3) by (fastforce simp: grp_inv_def)
  have wf4: "sdb.wf (mgrp_sdb (sdb_write w g f))" by (rule sdb_write_wf [OF wf f])
  have at4: "sdb_at (sdb_write w g f) = (sdb_at w)(g \<mapsto> f m)"
    using sdb_write_lookup [where f = f, OF wf f] m by simp
  from add_mi_law [OF wf4 _ g _ fresh, of st i] at4 sg i sdb_okD(2) [OF ok] obtain w' r where
    w': "sdb_add_mi (sdb_write w g f) i g (smh_addr mh) = Some (w', r)" "sdb.wf (mgrp_sdb w')"
      "mfdb_ok (emf_handle w')" "igs_frame w w'"
      "\<forall>g'. g' \<noteq> g \<longrightarrow> mfdb_cnt (emf_handle w') g' = mfdb_cnt (emf_handle w) g'"
      "r = FAILURE \<and> \<not> mem_reliable (igs_osh w) \<and> sdb_at w' = (sdb_at w)(g := nonempty m) \<and>
         grp_sync st (emf_handle w') g (ifaces m) \<or>
       r = SUCCESS \<and> grp_sync st (emf_handle w') g (insert i (ifaces m)) \<and>
         (\<exists>p. mem_seq (igs_osh w) < p \<and> p \<le> mem_seq (igs_osh w') \<and>
           sdb_at w' = (sdb_at w)(g \<mapsto> grp_join_new m (mh\<lparr>smh_mi := p\<rparr>)
             \<lparr>smi_addr = p, smi_ifp = i, smi_ref = 1\<rparr>))"
    by (auto simp: f_def)
  have "join_outcome st w i g (smh_ip mh) m (w', r)"
    using w'(6)
  proof (elim disjE conjE exE)
    assume "r = FAILURE" "\<not> mem_reliable (igs_osh w)" "sdb_at w' = (sdb_at w)(g := nonempty m)"
      "grp_sync st (emf_handle w') g (ifaces m)"
    then show ?thesis using w' by (simp add: join_outcome_fail [OF ok sync m])
  next
    fix p assume r: "r = SUCCESS" and sg': "grp_sync st (emf_handle w') g (insert i (ifaces m))"
      and p: "mem_seq (igs_osh w) < p" "p \<le> mem_seq (igs_osh w')"
      and at': "sdb_at w' = (sdb_at w)(g \<mapsto> grp_join_new m (mh\<lparr>smh_mi := p\<rparr>)
         \<lparr>smi_addr = p, smi_ifp = i, smi_ref = 1\<rparr>)"
    let ?m = "grp_join_new m (mh\<lparr>smh_mi := p\<rparr>) \<lparr>smi_addr = p, smi_ifp = i, smi_ref = 1\<rparr>"
    have j: "grp_inv (mem_seq (igs_osh w')) ?m" "hosts ?m = insert (smh_ip mh, i) (hosts m)"
        "ifaces ?m = insert i (ifaces m)"
      using grp_join_new_inv [OF mh(3), where mh = "mh\<lparr>smh_mi := p\<rparr>" and
          mi = "\<lparr>smi_addr = p, smi_ifp = i, smi_ref = 1\<rparr>" and seq' = "mem_seq (igs_osh w')"]
        mh(1,2) p i by simp_all
    have at: "sdb_at w' = (sdb_at w)(g := nonempty ?m)"
      using at' by (simp add: nonempty_def grp_join_new_def)
    have "sdb_ok w'"
      using sdb_okE_upd [OF ok w'(2,3) at j(1) g] w'(4) by (simp add: igs_frame_def)
    moreover have "sdb_sync st w'"
      using sdb_sync_upd [OF sync at j(1)] sg' j(3) w'(5) by simp
    moreover have "timers_live m \<longrightarrow> timers_live ?m"
      using mh(4) by (simp add: timers_live_def grp_join_new_def)
    ultimately show ?thesis using w'(4) j(2) at' r by (auto simp: join_outcome_def)
  qed
  with w'(1) show ?thesis by (auto simp: f_def [abs_def])
qed

lemma link_old_law:
  assumes ok: "sdb_okE {g} w" and sync: "sdb_sync st w" and m: "sdb_at w g = Some m"
    and mi: "mi \<in> set (smi_head m)"
    and mh: "seq < smh_addr mh" "smh_addr mh \<le> mem_seq (igs_osh w)" "grp_inv seq m"
      "timer_live (smh_timer mh)"
    and new: "(smh_ip mh, smi_ifp mi) \<notin> hosts m"
  shows "join_outcome st w (smi_ifp mi) g (smh_ip mh) m
    (sdb_write (sdb_write w g (\<lambda>m. m\<lparr>smh_head := mh # smh_head m\<rparr>)) g
       (\<lambda>m. m\<lparr>smi_head := mi_ref_add 1 (smi_addr mi) (smi_head m),
          smh_head := map (\<lambda>x. if smh_addr x = smh_addr mh then x\<lparr>smh_mi := smi_addr mi\<rparr> else x)
            (smh_head m)\<rparr>), SUCCESS)"
proof -
  note wf = sdb_okD(1) [OF ok] and g = sdb_okD(3) [OF ok m]
  note sg = grp_sync_at [OF sync m]
  let ?m = "grp_join m (mh\<lparr>smh_mi := smi_addr mi\<rparr>)"
  define f where "f m = m\<lparr>smh_head := mh # smh_head m\<rparr>" for m :: igsc_mgrp
  define f2 where "f2 m = m\<lparr>smi_head := mi_ref_add 1 (smi_addr mi) (smi_head m),
      smh_head := map (\<lambda>x. if smh_addr x = smh_addr mh then x\<lparr>smh_mi := smi_addr mi\<rparr> else x)
        (smh_head m)\<rparr>" for m :: igsc_mgrp
  have f: "smgrp_ip (f m) = smgrp_ip m" "smgrp_ip (f2 m) = smgrp_ip m" for m
    by (simp_all add: f_def f2_def)
  have fresh: "smh_addr mh \<notin> smh_addr ` set (smh_head m)"
    using mh(1,3) by (fastforce simp: grp_inv_def)
  have fm: "f2 (f m) = ?m"
    using set_mi_fresh [OF fresh, of "smi_addr mi"] by (simp add: f2_def f_def grp_join_def)
  define w' where "w' = sdb_write (sdb_write w g f) g f2"
  have wf1: "sdb.wf (mgrp_sdb (sdb_write w g f))" by (rule sdb_write_wf [OF wf f(1)])
  have wf': "sdb.wf (mgrp_sdb w')" unfolding w'_def by (rule sdb_write_wf [OF wf1 f(2)])
  have at': "sdb_at w' = (sdb_at w)(g \<mapsto> ?m)"
    unfolding w'_def using sdb_write_lookup [where f = f2, OF wf1 f(2)]
      sdb_write_lookup [where f = f, OF wf f(1)] m fm by simp
  have st': "emf_handle w' = emf_handle w" "igs_osh w' = igs_osh w" "igs_frame w w'"
    by (simp_all add: w'_def)
  have j: "grp_inv (mem_seq (igs_osh w')) ?m" "hosts ?m = insert (smh_ip mh, smi_ifp mi) (hosts m)"
      "ifaces ?m = ifaces m"
    using grp_join_inv [OF mh(3), where mh = "mh\<lparr>smh_mi := smi_addr mi\<rparr>" and mi = mi] mh mi new
    by (simp_all add: st')
  have at: "sdb_at w' = (sdb_at w)(g := nonempty ?m)"
    using at' by (simp add: nonempty_def grp_join_def)
  have "sdb_ok w'"
    using sdb_okE_upd [OF ok wf' _ at j(1) g] st' sdb_okD(2) [OF ok] by simp
  moreover have "sdb_sync st w'"
    using sdb_sync_upd [OF sync at j(1)] sg j(3) by (simp add: st')
  moreover have "timers_live m \<longrightarrow> timers_live ?m"
    using mh(4) by (simp add: timers_live_def grp_join_def)
  ultimately have "join_outcome st w (smi_ifp mi) g (smh_ip mh) m (w', SUCCESS)"
    using st'(3) j(2) at' by (auto simp: join_outcome_def)
  then show ?thesis by (simp add: w'_def f_def [abs_def] f2_def [abs_def])
qed

lemma link_mh_law:
  assumes ok: "sdb_okE {g} w" and sync: "sdb_sync st w" and m: "sdb_at w g = Some m"
    and mh: "seq < smh_addr mh" "smh_addr mh \<le> mem_seq (igs_osh w)" "grp_inv seq m"
      "timer_live (smh_timer mh)"
    and new: "(smh_ip mh, i) \<notin> hosts m"
  shows "\<exists>w' r. sdb_link_mh w i g mh = Some (w', r) \<and> join_outcome st w i g (smh_ip mh) m (w', r)"
proof -
  define f where "f m = m\<lparr>smh_head := mh # smh_head m\<rparr>" for m :: igsc_mgrp
  have f: "smgrp_ip (f m) = smgrp_ip m" for m by (simp add: f_def)
  have at: "igsc_sdb_group_find (sdb_write w g f) g = Some (f m)"
    using sdb_write_lookup [where f = f, OF sdb_okD(1) [OF ok] f] m by (simp add: group_find_lookup)
  have find: "igsc_sdb_mi_entry_find (f m) i = igsc_sdb_mi_entry_find m i"
    by (simp add: f_def igsc_sdb_mi_entry_find_def)
  note link = sdb_link_mh_def [of w i g mh, folded f_def, unfolded Let_def at option.case find]
  show ?thesis
  proof (cases "igsc_sdb_mi_entry_find m i")
    case None
    then have "i \<notin> ifaces m"
      by (force simp: igsc_sdb_mi_entry_find_def ifaces_def find_None_notin)
    from link_new_law [OF ok sync m this mh] None show ?thesis
      by (simp add: link f_def [abs_def])
  next
    case (Some mi)
    then have "mi \<in> set (smi_head m)" "smi_ifp mi = i"
      by (auto simp: igsc_sdb_mi_entry_find_def dest: find_SomeD)
    with link_old_law [OF ok sync m _ mh, of mi] new Some show ?thesis
      by (simp add: link f_def [abs_def])
  qed
qed

text \<open>Allocation of the host entry and its timer before that.\<close>

lemma sdb_osh_law:
  assumes "sdb_okE E w" "sdb_sync st w" "mem_seq (igs_osh w) \<le> mem_seq os"
    "mem_ok os = mem_ok (igs_osh w)"
  shows "sdb_okE E (w\<lparr>igs_osh := os\<rparr>)" "sdb_sync st (w\<lparr>igs_osh := os\<rparr>)"
    "sdb_at (w\<lparr>igs_osh := os\<rparr>) = sdb_at w" "igs_frame w (w\<lparr>igs_osh := os\<rparr>)"
  using assms sdb_okE_osh [OF assms(1,3)]
  by (simp_all add: sdb_sync_def sdb_ifaces_def igs_frame_def)

lemma join_outcome_frame:
  assumes "join_outcome st v i g h m res" "igs_frame w v" "sdb_at v = sdb_at w"
  shows "join_outcome st w i g h m res"
proof -
  have "mem_reliable (igs_osh v) = mem_reliable (igs_osh w)"
    using assms(2) by (simp add: igs_frame_def mem_reliable_def)
  then show ?thesis
    using assms igs_frame_trans [OF assms(2)] by (auto simp: join_outcome_def)
qed

lemma exit1_outcome:
  assumes ok: "sdb_okE {g} w" and sync: "sdb_sync st w" and m: "sdb_at w g = Some m"
    and mem: "\<not> mem_reliable (igs_osh w)"
  shows "\<exists>w'. sdb_add_exit1 w g = Some (w', FAILURE) \<and> join_outcome st w i g h m (w', FAILURE)"
proof -
  from exit1_law [OF sdb_okD(1) [OF ok] m] obtain w' where
    w': "sdb_add_exit1 w g = Some (w', FAILURE)" "sdb.wf (mgrp_sdb w')" "emf_handle w' = emf_handle w"
      "igs_frame w w'" "sdb_at w' = (sdb_at w)(g := nonempty m)" by blast
  have "join_outcome st w i g h m (w', FAILURE)"
    using w' sdb_okD(2) [OF ok] grp_sync_at [OF sync m] mem
    by (intro join_outcome_fail [OF ok sync m]) simp_all
  with w'(1) show ?thesis by blast
qed

lemma add_mh_law:
  assumes ok: "sdb_okE {g} w" and sync: "sdb_sync st w" and m: "sdb_at w g = Some m"
    and new: "(h, i) \<notin> hosts m"
  shows "\<exists>w' r. sdb_add_mh w i g h = Some (w', r) \<and> join_outcome st w i g h m (w', r)"
proof -
  note inv = sdb_okD(4) [OF ok m]
  obtain os1 a where os1: "MALLOC (igs_osh w) = (os1, a)" by fastforce
  obtain os2 t where os2: "osl_timer_init os1 = (os2, t)" by fastforce
  define w1 where "w1 = w\<lparr>igs_osh := os1\<rparr>"
  define w3 where "w3 = (stat_members 1 w1)\<lparr>igs_osh := os2\<rparr>"
  note m1 = MALLOC_D [OF os1] and m2 = osl_timer_init_D [OF os2]
  note w1 = sdb_osh_law [OF ok sync, of os1, folded w1_def]
  have w1': "sdb_okE {g} (stat_members 1 w1)" "sdb_sync st (stat_members 1 w1)"
    using w1(1,2) m1(1,2) by simp_all
  note w3 = sdb_osh_law [OF w1', of os2, folded w3_def]
  have seqs: "mem_seq (igs_osh w) \<le> mem_seq os1" "mem_ok os1 = mem_ok (igs_osh w)"
      "mem_seq (igs_osh (stat_members 1 w1)) \<le> mem_seq os2"
      "mem_ok os2 = mem_ok (igs_osh (stat_members 1 w1))"
    using m1(1,2) m2(1,2) by (simp_all add: w1_def)
  have fr: "igs_frame w w1" "igs_frame w w3" and at: "sdb_at w1 = sdb_at w" "sdb_at w3 = sdb_at w"
    using w1(3,4) w3(3,4) seqs igs_frame_trans [of w w1 w3] by simp_all
  have exit: "\<exists>w'. sdb_add_exit1 v g = Some (w', FAILURE) \<and> join_outcome st w i g h m (w', FAILURE)"
    if "sdb_okE {g} v" "sdb_sync st v" "igs_frame w v" "sdb_at v = sdb_at w"
      "\<not> mem_reliable (igs_osh w)" for v
  proof -
    have "\<not> mem_reliable (igs_osh v)" using that(3,5) by (simp add: igs_frame_def mem_reliable_def)
    with exit1_outcome [OF that(1,2), of m i h] m that(4) join_outcome_frame [OF _ that(3,4)]
    show ?thesis by auto
  qed
  show ?thesis
  proof (cases "a = 0")
    case True
    with exit [OF w1(1,2) fr(1) at(1)] seqs(1,2) m1(3) show ?thesis
      by (auto simp: sdb_add_mh_def os1 w1_def)
  next
    case a: False
    show ?thesis
    proof (cases t)
      case None
      then have "\<not> mem_reliable (igs_osh w)" using m2(3) m1(1) by (simp add: mem_reliable_def)
      with exit [OF w3(1,2) fr(2) at(2)] seqs(3,4) a show ?thesis
        by (auto simp: sdb_add_mh_def os1 os2 None w3_def w1_def)
    next
      case (Some t)
      define mh where "mh = \<lparr>smh_addr = a, smh_ip = h, smh_timer = Some (osl_timer_add (hz w3)
          (jiffies w3) t (grp_mem_intv w3) False), smh_mi = 0\<rparr>"
      have mh: "smh_ip mh = h" "smh_addr mh = a" "timer_live (smh_timer mh)" by (simp_all add: mh_def)
      have bounds: "mem_seq (igs_osh w) < a" "a \<le> mem_seq (igs_osh w3)"
        using m1(2,4) m2(2) a by (simp_all add: w3_def)
      have "\<exists>w' r. sdb_link_mh w3 i g mh = Some (w', r) \<and> join_outcome st w3 i g h m (w', r)"
        using link_mh_law [OF w3(1,2), of m "mem_seq (igs_osh w)" mh i] seqs m at(2) bounds inv mh new
        by simp
      moreover have "sdb_add_mh w i g h = sdb_link_mh w3 i g mh"
        using a unfolding mh_def w3_def w1_def by (simp add: sdb_add_mh_def os1 os2 Some Let_def)
      ultimately show ?thesis using join_outcome_frame [OF _ fr(2) at(2)] by auto
    qed
  qed
qed

text \<open>The contract of a join.\<close>

lemma member_add_law:
  assumes inv: "sdb_inv st w" and g: "g \<noteq> 0"
  shows "\<exists>w' r. igsc_sdb_member_add w i g h = Some (w', r) \<and> sdb_inv st w' \<and> igs_frame w w' \<and>
    (r = SUCCESS \<and> sdb_hosts w' = (sdb_hosts w)(g := insert (h, i) (sdb_hosts w g)) \<or>
     r = FAILURE \<and> sdb_hosts w' = sdb_hosts w \<and> \<not> mem_reliable (igs_osh w))"
proof -
  note ok = sdb_inv_D(1) [OF inv] and sync = sdb_inv_D(2) [OF inv] and tm = sdb_inv_D(3) [OF inv]
  note wf = sdb_okD(1) [OF ok]
  have out: ?thesis if eq: "igsc_sdb_member_add w i g h = Some (w', r)"
      and jo: "join_outcome st v i g h m (w', r)" and fr: "igs_frame w v"
      and at: "sdb_at v = (sdb_at w)(g \<mapsto> m)" and sg: "sdb_hosts w g = hosts m" and tl: "timers_live m"
    for w' r v m
  proof -
    have hs: "sdb_hosts w' = (sdb_hosts w)(g := hosts m')" if "sdb_at w' = (sdb_at v)(g \<mapsto> m')" for m'
      using that at by (auto simp: sdb_hosts_def fun_eq_iff)
    have ts: "sdb_timers w'" if "sdb_at w' = (sdb_at v)(g := x)" "\<And>m'. x = Some m' \<Longrightarrow> timers_live m'" for x
      using that at tm by (auto simp: sdb_timers_def split: if_splits)
    have mem: "mem_reliable (igs_osh v) = mem_reliable (igs_osh w)"
      using fr by (simp add: igs_frame_def mem_reliable_def)
    from jo have w': "sdb_ok w'" "sdb_sync st w'" "igs_frame w w'"
      using igs_frame_trans [OF fr] by (auto simp: join_outcome_def)
    from jo consider (1) m' where "r = SUCCESS" "sdb_at w' = (sdb_at v)(g \<mapsto> m')"
        "hosts m' = insert (h, i) (hosts m)" "timers_live m'"
      | (2) "r = FAILURE" "\<not> mem_reliable (igs_osh w)" "sdb_at w' = (sdb_at v)(g := nonempty m)"
      using tl mem by (auto simp: join_outcome_def)
    then show ?thesis
    proof cases
      case 1
      then show ?thesis using eq w' hs [OF 1(2)] ts [OF 1(2)] sg by (auto simp: sdb_inv_def)
    next
      case 2
      have "sdb_hosts w' = sdb_hosts w"
        using 2(3) at sg nonempty_hosts [of m] by (auto simp: sdb_hosts_def fun_eq_iff)
      then show ?thesis
        using eq w' ts [OF 2(3)] tl 2 by (auto simp: sdb_inv_def nonempty_def split: if_splits)
    qed
  qed
  show ?thesis
  proof (cases "sdb_at w g")
    case None
    obtain os p where os: "MALLOC (igs_osh w) = (os, p)" by fastforce
    define m where "m = \<lparr>smgrp_ip = g, smh_head = [], smi_head = []\<rparr>"
    define w1 where "w1 = w\<lparr>igs_osh := os\<rparr>"
    have fr1: "igs_frame w w1" using MALLOC_D(1,2) [OF os] by (simp add: w1_def igs_frame_def)
    show ?thesis
    proof (cases "p = 0")
      case True
      have at1: "sdb_at w1 = sdb_at w" by (simp add: w1_def)
      have "sdb_inv st w1"
      proof -
        have "sdb_ok w1"
          using sdb_okE_osh [OF ok, of os] MALLOC_D(2) [OF os] by (simp add: w1_def)
        moreover have "sdb_sync st w1" using sync by (simp add: sdb_sync_def sdb_ifaces_def w1_def)
        ultimately show ?thesis using tm by (simp add: sdb_inv_def sdb_timers_def w1_def)
      qed
      moreover have "igsc_sdb_member_add w i g h = Some (w1, FAILURE)"
        using os True by (simp add: igsc_sdb_member_add_def group_find_lookup None w1_def)
      moreover have "sdb_hosts w1 = sdb_hosts w" by (simp add: sdb_hosts_def fun_eq_iff at1)
      ultimately show ?thesis using fr1 MALLOC_D(3) [OF os True] by blast
    next
      case False
      define v where "v = stat_groups 1 (w1\<lparr>mgrp_sdb := ht_add_head (mgrp_sdb w1) (IGSDB_MGRP_HASH g) m\<rparr>)"
      have at: "sdb_at v = (sdb_at w)(g \<mapsto> m)"
        using sdb.lookup_add_head [of "IGSDB_MGRP_HASH g" m] by (simp add: v_def w1_def m_def)
      have wfv: "sdb.wf (mgrp_sdb v)"
        using sdb.wf_add_head [OF wf, of m "IGSDB_MGRP_HASH g"] None by (simp add: v_def w1_def m_def)
      have mg: "grp_inv seq m" "hosts m = {}" "ifaces m = {}" "timers_live m" for seq
        by (simp_all add: m_def grp_inv_def hosts_def ifaces_def timers_live_def)
      have frv: "igs_frame w v" using fr1 by (simp add: v_def igs_frame_def stat_groups_def)
      have okv: "sdb_okE {g} v"
      proof (rule sdb_okI [OF wfv])
        show "mfdb_ok (emf_handle v)" using sdb_okD(2) [OF ok] by (simp add: v_def w1_def)
        fix g' m' assume "sdb_at v g' = Some m'"
        then have "g' = g \<and> m' = m \<or> g' \<noteq> g \<and> sdb_at w g' = Some m'" using at by (auto split: if_splits)
        then show "g' \<noteq> 0 \<and> grp_inv (mem_seq (igs_osh v)) m' \<and> (g' \<notin> {g} \<longrightarrow> smh_head m' \<noteq> [])"
        proof
          assume "g' \<noteq> g \<and> sdb_at w g' = Some m'"
          then show ?thesis
            using sdb_okD(3-5) [OF ok, of g' m'] frv grp_inv_mono by (auto simp: igs_frame_def)
        qed (use g mg in simp)
      qed
      have syncv: "sdb_sync st v"
      proof -
        have "sdb_ifaces v = sdb_ifaces w"
          using mg(3) None by (auto simp: sdb_ifaces_def at fun_eq_iff)
        then show ?thesis using sync by (simp add: sdb_sync_def v_def w1_def)
      qed
      from add_mh_law [OF okv syncv, of m h i] at mg(2) obtain w' r where
        w': "sdb_add_mh v i g h = Some (w', r)" "join_outcome st v i g h m (w', r)" by auto
      have "igsc_sdb_member_add w i g h = Some (w', r)"
        using os False w'(1)
        by (simp add: igsc_sdb_member_add_def group_find_lookup None v_def w1_def m_def)
      from out [OF this w'(2) frv at] mg None show ?thesis by (simp add: sdb_hosts_def)
    qed
  next
    case (Some m)
    have hm: "sdb_hosts w g = hosts m" using Some by (simp add: sdb_hosts_def)
    have tl: "timers_live m" using tm Some by (simp add: sdb_timers_def)
    from sdb_okD(4) [OF ok Some] show ?thesis
    proof (cases rule: mh_entry_find_cases [where h = h and i = i])
      case absent
      have okg: "sdb_okE {g} w" using ok by (auto simp: sdb_okE_def)
      from add_mh_law [OF okg sync Some absent(2)] obtain w' r where
        w': "sdb_add_mh w i g h = Some (w', r)" "join_outcome st w i g h m (w', r)" by blast
      have "igsc_sdb_member_add w i g h = Some (w', r)"
        using absent(1) w'(1) by (simp add: igsc_sdb_member_add_def group_find_lookup Some)
      from out [OF this w'(2) igs_frame_refl _ hm tl] Some show ?thesis by (simp add: fun_upd_idem)
    next
      case (present mh mi)
      have "timer_live (smh_timer mh)" using tl present(2) by (simp add: timers_live_def)
      then obtain t where t: "smh_timer mh = Some t" by (rule timer_live_SomeE)
      define t' where "t' = Some (osl_timer_update (hz w) (jiffies w) t (grp_mem_intv w) False)"
      have live': "timer_live t'" by (simp add: t'_def)
      note st = mh_set_timer_law [OF ok sync, of g "smh_addr mh" t']
      have "igsc_sdb_member_add w i g h = Some (mh_set_timer w g (smh_addr mh) t', SUCCESS)"
        using present(1) t by (simp add: igsc_sdb_member_add_def group_find_lookup Some t'_def)
      moreover have "sdb_timers (mh_set_timer w g (smh_addr mh) t')"
        using tm timers_live_retimer [OF tl live', of "smh_addr mh"] Some
        by (auto simp: sdb_timers_def st(4) split: if_splits)
      ultimately show ?thesis
        using st hm present(6) by (auto simp: sdb_inv_def fun_eq_iff insert_absorb)
    qed
  qed
qed

end
