(* ===== verification/Igs_Sdb_Walk.thy ===== *)
theory Igs_Sdb_Walk
  imports Igs_Sdb_Join
begin

text \<open>
  The walks over the whole snooping database: clearing it, and taking an interface out of it.
  Both release the host entries one by one, so the forwarding database loses exactly the
  registrations of the interfaces that lose their last host.
\<close>

section \<open>Releasing one host\<close>

lemma release_law:
  assumes e: "mfdb_ok e" "g \<noteq> 0" "grp_sync st e g (ifaces m)"
    and inv: "grp_inv seq m" and mh: "mh \<in> set (smh_head m)" and tm: "timer_live (smh_timer mh)"
    and mi: "mi_at (smi_head m) (smh_mi mh) = Some mi"
  shows "\<exists>e'. sdb_release_mh e g (smi_head m) mh = Some (e', smi_head (grp_drop m mh mi)) \<and>
    mfdb_ok e' \<and> mfdb_frame e e' \<and> grp_sync st e' g (ifaces (grp_drop m mh mi)) \<and>
    (\<forall>g'. g' \<noteq> g \<longrightarrow> mfdb_cnt e' g' = mfdb_cnt e g')"
proof -
  have mi': "mi \<in> set (smi_head m)" "smi_addr mi = smh_mi mh" using mi by (auto dest: mi_at_SomeD)
  from tm obtain t where t: "smh_timer mh = Some t" by (rule timer_live_SomeE)
  show ?thesis
  proof (cases "smi_ref mi - 1 = 0")
    case True
    from emf_drop [OF e inv mh mi' True] obtain e' where
      e': "emfc_mfdb_membership_del e g (smi_ifp mi) = Some (e', SUCCESS)" "mfdb_ok e'"
        "mfdb_frame e e'" "grp_sync st e' g (ifaces (grp_drop m mh mi))"
        "\<forall>g'. g' \<noteq> g \<longrightarrow> mfdb_cnt e' g' = mfdb_cnt e g'" by blast
    with True mi t show ?thesis by (simp add: sdb_release_mh_def grp_drop_def)
  next
    case False
    with mi t e grp_drop_ifaces(1) [OF inv mh mi'] show ?thesis
      by (simp add: sdb_release_mh_def grp_drop_def)
  qed
qed

lemma drop_mid:
  assumes "grp_inv seq m" "smh_head m = pre @ mh # mhs"
  shows "smh_head (grp_drop m mh mi) = pre @ mhs"
proof -
  have "smh_addr mh \<notin> smh_addr ` set pre" "smh_addr mh \<notin> smh_addr ` set mhs"
    using assms by (auto simp: grp_inv_def)
  then have "filter (\<lambda>x. smh_addr x \<noteq> smh_addr mh) pre = pre"
      "filter (\<lambda>x. smh_addr x \<noteq> smh_addr mh) mhs = mhs"
    by (auto intro!: filter_True simp: image_iff)
  then show ?thesis using assms(2) by (simp add: grp_drop_def)
qed

section \<open>Clearing\<close>

lemma clear_mhs_law:
  assumes "mfdb_ok e" "g \<noteq> 0" "grp_sync st e g (ifaces m)" "grp_inv seq m" "timers_live m"
    "smh_head m = mhs"
  shows "\<exists>e'. sdb_clear_mhs e g (smi_head m) mhs = Some e' \<and> mfdb_ok e' \<and> mfdb_frame e e' \<and>
    grp_sync st e' g {} \<and> (\<forall>g'. g' \<noteq> g \<longrightarrow> mfdb_cnt e' g' = mfdb_cnt e g')"
  using assms
proof (induction mhs arbitrary: m e)
  case Nil
  then show ?case using grp_inv_no_hosts [of seq m] by (simp add: ifaces_def)
next
  case (Cons mh mhs)
  have mh: "mh \<in> set (smh_head m)" using Cons.prems(6) by simp
  from grp_mi_at [OF Cons.prems(4) mh] obtain mi where mi: "mi_at (smi_head m) (smh_mi mh) = Some mi"
      "mi \<in> set (smi_head m)" "smi_addr mi = smh_mi mh" .
  have tm: "timer_live (smh_timer mh)" using Cons.prems(5) mh by (simp add: timers_live_def)
  from release_law [OF Cons.prems(1-4) mh tm mi(1)] obtain e' where
    e': "sdb_release_mh e g (smi_head m) mh = Some (e', smi_head (grp_drop m mh mi))" "mfdb_ok e'"
      "mfdb_frame e e'" "grp_sync st e' g (ifaces (grp_drop m mh mi))"
      "\<forall>g'. g' \<noteq> g \<longrightarrow> mfdb_cnt e' g' = mfdb_cnt e g'" by blast
  have "smh_head (grp_drop m mh mi) = mhs" using drop_mid [of seq m "[]"] Cons.prems by simp
  from Cons.IH [OF e'(2) Cons.prems(2) e'(4) grp_drop_inv [OF Cons.prems(4) mh mi(2,3)]
      timers_live_drop [OF Cons.prems(5)] this]
  obtain e'' where "sdb_clear_mhs e' g (smi_head (grp_drop m mh mi)) mhs = Some e''" "mfdb_ok e''"
      "mfdb_frame e' e''" "grp_sync st e'' g {}" "\<forall>g'. g' \<noteq> g \<longrightarrow> mfdb_cnt e'' g' = mfdb_cnt e' g'"
    by blast
  with e' show ?case using mfdb_frame_trans by auto
qed

lemma grp_sync_cong: "mfdb_cnt e' g = mfdb_cnt e g \<Longrightarrow> grp_sync st e' g I = grp_sync st e g I"
  by (simp add: grp_sync_def)

lemma clear_groups_law:
  assumes "mfdb_ok e" "distinct (map smgrp_ip ms)"
    "\<And>m. m \<in> set ms \<Longrightarrow> smgrp_ip m \<noteq> 0 \<and> grp_sync st e (smgrp_ip m) (ifaces m) \<and> grp_inv seq m \<and>
       timers_live m"
  shows "\<exists>e'. sdb_clear_groups e ms = Some e' \<and> mfdb_ok e' \<and> mfdb_frame e e' \<and>
    (\<forall>m\<in>set ms. grp_sync st e' (smgrp_ip m) {}) \<and>
    (\<forall>g. g \<notin> smgrp_ip ` set ms \<longrightarrow> mfdb_cnt e' g = mfdb_cnt e g)"
  using assms
proof (induction ms arbitrary: e)
  case Nil
  then show ?case by simp
next
  case (Cons m ms)
  let ?g = "smgrp_ip m"
  have m: "?g \<noteq> 0" "grp_sync st e ?g (ifaces m)" "grp_inv seq m" "timers_live m"
    using Cons.prems(3) [of m] by simp_all
  from clear_mhs_law [OF Cons.prems(1) m refl] obtain e' where
    e': "sdb_clear_mhs e ?g (smi_head m) (smh_head m) = Some e'" "mfdb_ok e'" "mfdb_frame e e'"
      "grp_sync st e' ?g {}" "\<forall>g'. g' \<noteq> ?g \<longrightarrow> mfdb_cnt e' g' = mfdb_cnt e g'" by blast
  have ne: "smgrp_ip n \<noteq> ?g" if "n \<in> set ms" for n using Cons.prems(2) that by (metis distinct.simps(2) imageI list.map(2) set_map)
  have "smgrp_ip n \<noteq> 0 \<and> grp_sync st e' (smgrp_ip n) (ifaces n) \<and> grp_inv seq n \<and> timers_live n"
    if "n \<in> set ms" for n
    using Cons.prems(3) [of n] that ne [OF that] e'(5) grp_sync_cong [of e' "smgrp_ip n" e] by simp
  with Cons.IH [OF e'(2)] Cons.prems(2) obtain e'' where
    e'': "sdb_clear_groups e' ms = Some e''" "mfdb_ok e''" "mfdb_frame e' e''"
      "\<forall>m\<in>set ms. grp_sync st e'' (smgrp_ip m) {}"
      "\<forall>g. g \<notin> smgrp_ip ` set ms \<longrightarrow> mfdb_cnt e'' g = mfdb_cnt e' g" by auto
  have "?g \<notin> smgrp_ip ` set ms" using Cons.prems(2) by simp
  then have "grp_sync st e'' ?g {}" using e'(4) e''(5) grp_sync_cong [of e'' ?g e'] by simp
  then show ?case using e' e'' mfdb_frame_trans [OF e'(3) e''(3)] by simp
qed

lemma sdb_nodeD:
  assumes "sdb_inv st w" "m \<in> set (sdb_groups w)"
  shows "sdb_at w (smgrp_ip m) = Some m" "smgrp_ip m \<noteq> 0" "grp_inv (mem_seq (igs_osh w)) m"
    "timers_live m" "grp_sync st (emf_handle w) (smgrp_ip m) (ifaces m)"
proof -
  note inv = sdb_inv_D [OF assms(1)]
  show at: "sdb_at w (smgrp_ip m) = Some m"
    using assms(2) sdb_okD(1) [OF inv(1)] by (simp add: sdb.lookup_Some_iff)
  show "smgrp_ip m \<noteq> 0" "grp_inv (mem_seq (igs_osh w)) m" "timers_live m"
    "grp_sync st (emf_handle w) (smgrp_ip m) (ifaces m)"
    using sdb_okD(3,4) [OF inv(1) at] inv(3) at grp_sync_at [OF inv(2) at]
    by (auto simp: sdb_timers_def)
qed

text \<open>A group without an entry has no registrations of the snooper.\<close>

lemma grp_sync_absent: "sdb_sync st w \<Longrightarrow> sdb_at w g = None \<Longrightarrow> grp_sync st (emf_handle w) g {}"
  by (auto simp: sdb_sync_def sdb_ifaces_def dest: spec [of _ g])

lemma sdb_clear_law:
  assumes inv: "sdb_inv st w"
  shows "\<exists>w'. igsc_sdb_clear w = Some w' \<and> sdb_inv st w' \<and> igs_frame w w' \<and> sdb_hosts w' = (\<lambda>g. {})"
proof -
  note ok = sdb_inv_D [OF inv]
  note wf = sdb_okD(1) [OF ok(1)]
  from clear_groups_law [where st = st, OF sdb_okD(2) [OF ok(1)] sdb.distinct_nodes_key [OF wf]]
    sdb_nodeD [OF inv]
  obtain e where e: "sdb_clear_groups (emf_handle w) (sdb_groups w) = Some e" "mfdb_ok e"
      "mfdb_frame (emf_handle w) e" "\<forall>m\<in>set (sdb_groups w). grp_sync st e (smgrp_ip m) {}"
      "\<forall>g. g \<notin> smgrp_ip ` set (sdb_groups w) \<longrightarrow> mfdb_cnt e g = mfdb_cnt (emf_handle w) g" by blast
  define w' where "w' = w\<lparr>emf_handle := e,
      mgrp_sdb := (\<lambda>i. if i < IGSDB_HASHT_SIZE then [] else mgrp_sdb w i)\<rparr>"
  have at: "sdb_at w' g = None" for g by (simp add: w'_def sdb.lookup_empty)
  have "sdb.wf (mgrp_sdb w')" by (simp add: w'_def sdb.wf_empty)
  then have "sdb_ok w'" using e(2) at by (intro sdb_okI) (simp_all add: w'_def)
  moreover have "grp_sync st e g {}" for g
  proof (cases "g \<in> smgrp_ip ` set (sdb_groups w)")
    case True
    then show ?thesis using e(4) by auto
  next
    case False
    then have "sdb_at w g = None" using wf sdb.lookup_None_iff [OF wf, of g] by auto
    then show ?thesis
      using False e(5) grp_sync_absent [OF ok(2)] grp_sync_cong [of e g "emf_handle w"] by simp
  qed
  then have "sdb_sync st w'" by (simp add: sdb_sync_def sdb_ifaces_def at) (simp add: w'_def)
  moreover have "sdb_timers w'" "sdb_hosts w' = (\<lambda>g. {})" 
    by (simp_all add: sdb_timers_def sdb_hosts_def at fun_eq_iff)
  moreover have "igs_frame w w'" using e(3) by (simp add: w'_def igs_frame_def)
  moreover have "igsc_sdb_clear w = Some w'" by (simp add: igsc_sdb_clear_def e(1) w'_def)
  ultimately show ?thesis by (auto simp: sdb_inv_def)
qed

section \<open>Taking an interface out\<close>

text \<open>Host entry \<open>mh\<close> is on interface \<open>i\<close>.\<close>

definition on_if :: "igsc_mgrp \<Rightarrow> igsc_mh \<Rightarrow> ifp \<Rightarrow> bool" where
  "on_if m mh i \<longleftrightarrow> (\<exists>mi\<in>set (smi_head m). smi_addr mi = smh_mi mh \<and> smi_ifp mi = i)"

lemma hosts_on_if: "(h, i) \<in> hosts m \<longleftrightarrow> (\<exists>mh\<in>set (smh_head m). smh_ip mh = h \<and> on_if m mh i)"
  by (auto simp: hosts_iff on_if_def)

lemma on_if_mi:
  assumes "grp_inv seq m" "mi \<in> set (smi_head m)" "smi_addr mi = smh_mi mh"
  shows "on_if m mh i \<longleftrightarrow> smi_ifp mi = i"
  using addr_inj(1) [OF assms(1) _ assms(2)] assms(2,3) by (auto simp: on_if_def)

lemma on_if_drop:
  assumes inv: "grp_inv seq m" and mh: "mh \<in> set (smh_head m)"
    and mi: "mi \<in> set (smi_head m)" "smi_addr mi = smh_mi mh"
    and x: "x \<in> set (smh_head (grp_drop m mh mi))"
  shows "on_if (grp_drop m mh mi) x i = on_if m x i"
proof -
  note dinv = grp_drop_inv [OF inv mh mi]
  from grp_mi_at [OF dinv x] obtain my where
    my: "my \<in> set (smi_head (grp_drop m mh mi))" "smi_addr my = smh_mi x" .
  then obtain mj where mj: "mj \<in> set (smi_head m)" "smi_addr mj = smh_mi x" "smi_ifp mj = smi_ifp my"
    by (auto simp: grp_drop_def set_mi_ref_add split: if_splits)
  show ?thesis
    using on_if_mi [OF dinv my] on_if_mi [OF inv mj(1,2)] mj(3) by simp
qed

text \<open>What the walk over the hosts of one group leaves; \<open>pre\<close> are the hosts it has passed.\<close>

definition ifdel_left :: "(u32 \<Rightarrow> ifp \<Rightarrow> nat) \<Rightarrow> u32 \<Rightarrow> nat \<Rightarrow> ifp \<Rightarrow> igsc_mgrp \<Rightarrow> igsc_mh list \<Rightarrow> igsc_mh list
    \<Rightarrow> emfc_info \<Rightarrow> emfc_info \<times> igsc_mi list \<times> igsc_mh list \<Rightarrow> bool" where
  "ifdel_left st g seq i m pre mhs e res \<longleftrightarrow> (let (e', mis, mhs') = res;
     m' = m\<lparr>smi_head := mis, smh_head := pre @ mhs'\<rparr> in
     mfdb_ok e' \<and> mfdb_frame e e' \<and> grp_sync st e' g (ifaces m') \<and> grp_inv seq m' \<and>
     (\<forall>g'. g' \<noteq> g \<longrightarrow> mfdb_cnt e' g' = mfdb_cnt e g') \<and>
     mhs' = filter (\<lambda>mh. \<not> on_if m mh i) mhs \<and>
     (\<forall>mh\<in>set (pre @ mhs'). \<forall>j. on_if m' mh j = on_if m mh j))"

lemma ifdel_mhs_law:
  assumes "mfdb_ok e" "g \<noteq> 0" "grp_sync st e g (ifaces m)" "grp_inv seq m" "timers_live m"
    "smh_head m = pre @ mhs"
  shows "\<exists>res. sdb_ifdel_mhs e i g (smi_head m) mhs = Some res \<and> ifdel_left st g seq i m pre mhs e res"
  using assms
proof (induction mhs arbitrary: m e pre)
  case Nil
  then have pre: "pre = smh_head m" by simp
  show ?case using Nil unfolding pre by (simp add: ifdel_left_def Let_def)
next
  case (Cons mh mhs)
  have mh: "mh \<in> set (smh_head m)" using Cons.prems(6) by simp
  from grp_mi_at [OF Cons.prems(4) mh] obtain mi where mi: "mi_at (smi_head m) (smh_mi mh) = Some mi"
      "mi \<in> set (smi_head m)" "smi_addr mi = smh_mi mh" .
  note on = on_if_mi [OF Cons.prems(4) mi(2,3)]
  show ?case
  proof (cases "smi_ifp mi = i")
    case False
    from Cons.IH [OF Cons.prems(1-5), of "pre @ [mh]"] Cons.prems(6) obtain e' mis mhs' where
      r: "sdb_ifdel_mhs e i g (smi_head m) mhs = Some (e', mis, mhs')"
        "ifdel_left st g seq i m (pre @ [mh]) mhs e (e', mis, mhs')" by auto
    then have "ifdel_left st g seq i m pre (mh # mhs) e (e', mis, mh # mhs')"
      using False on by (simp add: ifdel_left_def)
    with r mi False show ?thesis by simp
  next
    case True
    let ?m = "grp_drop m mh mi"
    have tm: "timer_live (smh_timer mh)" using Cons.prems(5) mh by (simp add: timers_live_def)
    from release_law [OF Cons.prems(1-4) mh tm mi(1)] obtain e' where
      e': "sdb_release_mh e g (smi_head m) mh = Some (e', smi_head ?m)" "mfdb_ok e'"
        "mfdb_frame e e'" "grp_sync st e' g (ifaces ?m)"
        "\<forall>g'. g' \<noteq> g \<longrightarrow> mfdb_cnt e' g' = mfdb_cnt e g'" by blast
    note hd = drop_mid [OF Cons.prems(4,6), of mi]
    note dinv = grp_drop_inv [OF Cons.prems(4) mh mi(2,3)]
    from Cons.IH [OF e'(2) Cons.prems(2) e'(4) dinv timers_live_drop [OF Cons.prems(5)] hd]
    obtain e2 mis mhs' where
      r: "sdb_ifdel_mhs e' i g (smi_head ?m) mhs = Some (e2, mis, mhs')"
        "ifdel_left st g seq i ?m pre mhs e' (e2, mis, mhs')" by auto
    have od: "on_if ?m x j = on_if m x j" if "x \<in> set (pre @ mhs)" for x j
      using on_if_drop [OF Cons.prems(4) mh mi(2,3), of x j] hd that by simp
    have upd: "?m\<lparr>smi_head := mis, smh_head := y\<rparr> = m\<lparr>smi_head := mis, smh_head := y\<rparr>" for y
      by (simp add: grp_drop_def)
    define m2 where "m2 = m\<lparr>smi_head := mis, smh_head := pre @ mhs'\<rparr>"
    have l: "mfdb_ok e2" "mfdb_frame e' e2" "grp_sync st e2 g (ifaces m2)" "grp_inv seq m2"
        "\<forall>g'. g' \<noteq> g \<longrightarrow> mfdb_cnt e2 g' = mfdb_cnt e' g'"
        "mhs' = filter (\<lambda>mh. \<not> on_if ?m mh i) mhs"
        "\<forall>mh\<in>set (pre @ mhs'). \<forall>j. on_if m2 mh j = on_if ?m mh j"
      using r(2) unfolding ifdel_left_def Let_def prod.case upd m2_def by blast+
    have fil: "mhs' = filter (\<lambda>mh. \<not> on_if m mh i) (mh # mhs)"
      using l(6) od True on by (auto intro!: filter_cong)
    have sub: "set (pre @ mhs') \<subseteq> set (pre @ mhs)" using l(6) by auto
    have "\<forall>x\<in>set (pre @ mhs'). \<forall>j. on_if m2 x j = on_if m x j" using l(7) od sub by blast
    moreover have "\<forall>g'. g' \<noteq> g \<longrightarrow> mfdb_cnt e2 g' = mfdb_cnt e g'" using l(5) e'(5) by simp
    ultimately have "ifdel_left st g seq i m pre (mh # mhs) e (e2, mis, mhs')"
      using l(1,3,4) fil mfdb_frame_trans [OF e'(3) l(2)]
      unfolding ifdel_left_def Let_def prod.case m2_def by blast
    with r mi True e' show ?thesis by auto
  qed
qed

lemma ifdel_hosts:
  assumes inv: "grp_inv seq m" and left: "ifdel_left st g seq i m [] (smh_head m) e (e', mis, mhs)"
  defines "m' \<equiv> m\<lparr>smi_head := mis, smh_head := mhs\<rparr>"
  shows "hosts m' = {x \<in> hosts m. snd x \<noteq> i}"
proof -
  have on: "on_if m' mh j = on_if m mh j" if "mh \<in> set mhs" for mh j
    using left that unfolding ifdel_left_def m'_def Let_def prod.case append_Nil by blast
  have mhs: "mhs = filter (\<lambda>mh. \<not> on_if m mh i) (smh_head m)"
    using left by (simp add: ifdel_left_def Let_def)
  have uniq: "on_if m mh j \<Longrightarrow> on_if m mh i \<Longrightarrow> j = i" for mh j
    using on_if_mi [OF inv] by (auto simp: on_if_def)
  have "(h, j) \<in> hosts m' \<longleftrightarrow> (h, j) \<in> hosts m \<and> j \<noteq> i" for h j
  proof -
    have "(h, j) \<in> hosts m' \<longleftrightarrow> (\<exists>mh\<in>set mhs. smh_ip mh = h \<and> on_if m mh j)"
      unfolding hosts_on_if using on by (auto simp: m'_def)
    also have "\<dots> \<longleftrightarrow> (h, j) \<in> hosts m \<and> j \<noteq> i"
      unfolding hosts_on_if mhs using uniq by auto
    finally show ?thesis .
  qed
  then show ?thesis by (intro set_eqI) (simp add: split_paired_all)
qed

text \<open>What the walk over one chain leaves of a group.\<close>

definition ifdel_group :: "(u32 \<Rightarrow> ifp \<Rightarrow> nat) \<Rightarrow> nat \<Rightarrow> ifp \<Rightarrow> emfc_info \<Rightarrow> igsc_mgrp \<Rightarrow> igsc_mgrp option \<Rightarrow> bool" where
  "ifdel_group st seq i e m x \<longleftrightarrow>
     grp_sync st e (smgrp_ip m) (case x of None \<Rightarrow> {} | Some m' \<Rightarrow> ifaces m') \<and>
     (case x of None \<Rightarrow> {} | Some m' \<Rightarrow> hosts m') = {y \<in> hosts m. snd y \<noteq> i} \<and>
     (\<forall>m'. x = Some m' \<longrightarrow> grp_inv seq m' \<and> timers_live m' \<and> smh_head m' \<noteq> [])"

lemma ifdel_group_law:
  assumes e: "mfdb_ok e" "smgrp_ip m \<noteq> 0" "grp_sync st e (smgrp_ip m) (ifaces m)" "grp_inv seq m"
    "timers_live m"
  shows "\<exists>e' mis mhs. sdb_ifdel_mhs e i (smgrp_ip m) (smi_head m) (smh_head m) = Some (e', mis, mhs) \<and>
    mfdb_ok e' \<and> mfdb_frame e e' \<and> (\<forall>g'. g' \<noteq> smgrp_ip m \<longrightarrow> mfdb_cnt e' g' = mfdb_cnt e g') \<and>
    ifdel_group st seq i e' m (nonempty (m\<lparr>smi_head := mis, smh_head := mhs\<rparr>))"
proof -
  from ifdel_mhs_law [OF e, of "[]" "smh_head m" i] obtain e' mis mhs where
    r: "sdb_ifdel_mhs e i (smgrp_ip m) (smi_head m) (smh_head m) = Some (e', mis, mhs)"
      "ifdel_left st (smgrp_ip m) seq i m [] (smh_head m) e (e', mis, mhs)" by auto
  let ?m = "m\<lparr>smi_head := mis, smh_head := mhs\<rparr>"
  have l: "mfdb_ok e'" "mfdb_frame e e'" "grp_sync st e' (smgrp_ip m) (ifaces ?m)" "grp_inv seq ?m"
      "\<forall>g'. g' \<noteq> smgrp_ip m \<longrightarrow> mfdb_cnt e' g' = mfdb_cnt e g'"
      "mhs = filter (\<lambda>mh. \<not> on_if m mh i) (smh_head m)"
    using r(2) unfolding ifdel_left_def Let_def prod.case append_Nil by blast+
  have "timers_live ?m" using e(5) l(6) by (auto simp: timers_live_def)
  then have "ifdel_group st seq i e' m (nonempty ?m)"
    using l(3,4) nonempty_ifaces [OF l(4)] nonempty_hosts [of ?m] ifdel_hosts [OF e(4) r(2)]
    by (simp add: ifdel_group_def) (simp add: nonempty_def)
  with r(1) l show ?thesis by blast
qed

abbreviation chain_at :: "igsc_mgrp list \<Rightarrow> u32 \<Rightarrow> igsc_mgrp option" where
  "chain_at ms g \<equiv> List.find (\<lambda>m. smgrp_ip m = g) ms"

lemma ifdel_chain_law:
  assumes "mfdb_ok e" "distinct (map smgrp_ip ms)"
    "\<And>m. m \<in> set ms \<Longrightarrow> smgrp_ip m \<noteq> 0 \<and> grp_sync st e (smgrp_ip m) (ifaces m) \<and> grp_inv seq m \<and>
       timers_live m"
  shows "\<exists>e' ms'. sdb_ifdel_chain e i ms = Some (e', ms') \<and> mfdb_ok e' \<and> mfdb_frame e e' \<and>
    distinct (map smgrp_ip ms') \<and> smgrp_ip ` set ms' \<subseteq> smgrp_ip ` set ms \<and>
    (\<forall>g. g \<notin> smgrp_ip ` set ms \<longrightarrow> mfdb_cnt e' g = mfdb_cnt e g) \<and>
    (\<forall>m\<in>set ms. ifdel_group st seq i e' m (chain_at ms' (smgrp_ip m)))"
  using assms
proof (induction ms arbitrary: e)
  case Nil
  then show ?case by simp
next
  case (Cons m ms)
  let ?g = "smgrp_ip m"
  have m: "?g \<noteq> 0" "grp_sync st e ?g (ifaces m)" "grp_inv seq m" "timers_live m"
    using Cons.prems(3) [of m] by simp_all
  from ifdel_group_law [OF Cons.prems(1) m, of i] obtain e' mis mhs where
    e': "sdb_ifdel_mhs e i ?g (smi_head m) (smh_head m) = Some (e', mis, mhs)" "mfdb_ok e'"
      "mfdb_frame e e'" "\<forall>g'. g' \<noteq> ?g \<longrightarrow> mfdb_cnt e' g' = mfdb_cnt e g'"
      "ifdel_group st seq i e' m (nonempty (m\<lparr>smi_head := mis, smh_head := mhs\<rparr>))" by blast
  let ?m = "m\<lparr>smi_head := mis, smh_head := mhs\<rparr>"
  have notin: "?g \<notin> smgrp_ip ` set ms" using Cons.prems(2) by simp
  then have ne: "smgrp_ip n \<noteq> ?g" if "n \<in> set ms" for n using that by (metis imageI)
  have "smgrp_ip n \<noteq> 0 \<and> grp_sync st e' (smgrp_ip n) (ifaces n) \<and> grp_inv seq n \<and> timers_live n"
    if "n \<in> set ms" for n
    using Cons.prems(3) [of n] that ne [OF that] e'(4) grp_sync_cong [of e' "smgrp_ip n" e] by simp
  with Cons.IH [OF e'(2)] Cons.prems(2) obtain e'' ms' where
    e'': "sdb_ifdel_chain e' i ms = Some (e'', ms')" "mfdb_ok e''" "mfdb_frame e' e''"
      "distinct (map smgrp_ip ms')" "smgrp_ip ` set ms' \<subseteq> smgrp_ip ` set ms"
      "\<forall>g. g \<notin> smgrp_ip ` set ms \<longrightarrow> mfdb_cnt e'' g = mfdb_cnt e' g"
      "\<forall>m\<in>set ms. ifdel_group st seq i e'' m (chain_at ms' (smgrp_ip m))" by auto
  let ?ms = "if mhs = [] then ms' else ?m # ms'"
  have notin': "?g \<notin> smgrp_ip ` set ms'" using notin e''(5) by blast
  then have absent: "chain_at ms' ?g = None" unfolding find_None_notin by (metis imageI)
  then have at: "chain_at ?ms ?g = nonempty ?m" by (simp add: nonempty_def)
  have own: "ifdel_group st seq i e'' m (chain_at ?ms ?g)"
    using e'(5) e''(6) notin grp_sync_cong [of e'' ?g e'] unfolding at by (simp add: ifdel_group_def)
  have rest: "ifdel_group st seq i e'' n (chain_at ?ms (smgrp_ip n))" if "n \<in> set ms" for n
    using e''(7) that ne [OF that] by auto
  have "sdb_ifdel_chain e i (m # ms) = Some (e'', ?ms)" using e'(1) e''(1) by simp
  moreover have "distinct (map smgrp_ip ?ms)" using e''(4) notin' by simp
  moreover have "smgrp_ip ` set ?ms \<subseteq> smgrp_ip ` set (m # ms)" using e''(5) by auto
  moreover have "mfdb_cnt e'' g = mfdb_cnt e g" if "g \<notin> smgrp_ip ` set (m # ms)" for g
    using that e'(4) e''(6) by simp
  moreover have "\<forall>n\<in>set (m # ms). ifdel_group st seq i e'' n (chain_at ?ms (smgrp_ip n))"
    using own rest by simp
  ultimately show ?case using e''(2) mfdb_frame_trans [OF e'(3) e''(3)] by blast
qed

text \<open>One bucket of the table.\<close>

lemma ifdel_bucket_law:
  assumes inv: "sdb_inv st w" and b: "b < IGSDB_HASHT_SIZE"
  shows "\<exists>e ms. sdb_ifdel_chain (emf_handle w) i (mgrp_sdb w b) = Some (e, ms) \<and>
    (let w' = w\<lparr>emf_handle := e, mgrp_sdb := (mgrp_sdb w)(b := ms)\<rparr> in
     sdb_inv st w' \<and> igs_frame w w' \<and> (\<forall>g. sdb_hosts w' g =
       (if IGSDB_MGRP_HASH g = b then {x \<in> sdb_hosts w g. snd x \<noteq> i} else sdb_hosts w g)))"
proof -
  note ok = sdb_inv_D [OF inv]
  note wf = sdb_okD(1) [OF ok(1)]
  have d: "distinct (map smgrp_ip (mgrp_sdb w b))" "\<And>m. m \<in> set (mgrp_sdb w b) \<Longrightarrow> IGSDB_MGRP_HASH (smgrp_ip m) = b"
    using wf b by (auto simp: sdb.wf_def)
  let ?seq = "mem_seq (igs_osh w)"
  have nodes: "m \<in> set (sdb_groups w)" if "m \<in> set (mgrp_sdb w b)" for m
    using ht_nodesI [of m "mgrp_sdb w" b] that b by blast
  from ifdel_chain_law [where st = st and seq = ?seq and i = i, OF sdb_okD(2) [OF ok(1)] d(1)]
    sdb_nodeD [OF inv] nodes
  obtain e ms where e: "sdb_ifdel_chain (emf_handle w) i (mgrp_sdb w b) = Some (e, ms)" "mfdb_ok e"
      "mfdb_frame (emf_handle w) e" "distinct (map smgrp_ip ms)"
      "smgrp_ip ` set ms \<subseteq> smgrp_ip ` set (mgrp_sdb w b)"
      "\<forall>g. g \<notin> smgrp_ip ` set (mgrp_sdb w b) \<longrightarrow> mfdb_cnt e g = mfdb_cnt (emf_handle w) g"
      "\<forall>m\<in>set (mgrp_sdb w b). ifdel_group st ?seq i e m (chain_at ms (smgrp_ip m))" by blast
  define w' where "w' = w\<lparr>emf_handle := e, mgrp_sdb := (mgrp_sdb w)(b := ms)\<rparr>"
  have at: "sdb_at w' g = (if IGSDB_MGRP_HASH g = b then chain_at ms g else sdb_at w g)" for g
    by (simp add: sdb.lookup_def w'_def)
  have hash: "IGSDB_MGRP_HASH (smgrp_ip m) = b" if "m \<in> set ms" for m
  proof -
    from that e(5) obtain n where "n \<in> set (mgrp_sdb w b)" "smgrp_ip m = smgrp_ip n" by blast
    then show ?thesis using d(2) by simp
  qed
  have wf': "sdb.wf (mgrp_sdb w')" using wf e(4) hash by (auto simp: sdb.wf_def w'_def)
  have absent: "chain_at ms g = None" if "g \<notin> smgrp_ip ` set (mgrp_sdb w b)" for g
    using that e(5) unfolding find_None_notin by (metis imageI subsetD)
  have old: "IGSDB_MGRP_HASH g = b \<Longrightarrow> sdb_at w g = chain_at (mgrp_sdb w b) g" for g
    by (auto simp: sdb.lookup_def)
  have main: "grp_sync st e g (sdb_ifaces w' g) \<and>
      sdb_hosts w' g = (if IGSDB_MGRP_HASH g = b then {x \<in> sdb_hosts w g. snd x \<noteq> i} else sdb_hosts w g) \<and>
      (\<forall>m. sdb_at w' g = Some m \<longrightarrow> g \<noteq> 0 \<and> grp_inv ?seq m \<and> timers_live m \<and> smh_head m \<noteq> [])" for g
  proof (cases "g \<in> smgrp_ip ` set (mgrp_sdb w b)")
    case True
    then obtain m where m: "m \<in> set (mgrp_sdb w b)" "g = smgrp_ip m" by auto
    have "IGSDB_MGRP_HASH g = b" "sdb_at w g = Some m"
      using d(2) m sdb_nodeD(1) [OF inv nodes [OF m(1)]] by simp_all
    moreover have "ifdel_group st ?seq i e m (chain_at ms g)" using e(7) m by simp
    ultimately show ?thesis
      using sdb_nodeD(2) [OF inv nodes [OF m(1)]] m(2)
      by (simp add: ifdel_group_def sdb_ifaces_def sdb_hosts_def at)
  next
    case False
    have nf: "chain_at (mgrp_sdb w b) g = None"
      using False unfolding find_None_notin by (metis imageI)
    have eq: "sdb_at w' g = sdb_at w g"
      using at [of g] absent [OF False] old [of g] nf by simp
    have "grp_sync st e g (sdb_ifaces w g)"
      using False e(6) ok(2) grp_sync_cong [of e g "emf_handle w"] by (simp add: sdb_sync_def)
    moreover have "IGSDB_MGRP_HASH g = b \<Longrightarrow> sdb_hosts w g = {}"
      using old [of g] nf by (simp add: sdb_hosts_def)
    moreover have "g \<noteq> 0 \<and> grp_inv ?seq m \<and> timers_live m \<and> smh_head m \<noteq> []" if "sdb_at w g = Some m" for m
      using that sdb_okD(3-5) [OF ok(1), of g m] ok(3) by (simp add: sdb_timers_def)
    ultimately show ?thesis by (auto simp: sdb_ifaces_def sdb_hosts_def eq)
  qed
  have st': "emf_handle w' = e" "igs_osh w' = igs_osh w" by (simp_all add: w'_def)
  have "sdb_inv st w'"
    using wf' e(2) main unfolding sdb_inv_def sdb_okE_def sdb_sync_def sdb_timers_def st' by blast
  moreover have "igs_frame w w'" using e(3) by (simp add: w'_def igs_frame_def)
  ultimately show ?thesis using e(1) main by (auto simp: Let_def w'_def)
qed

lemma ifdel_table_law:
  assumes "sdb_inv st w" "\<forall>b\<in>set bs. b < IGSDB_HASHT_SIZE" "distinct bs"
  shows "\<exists>w'. sdb_ifdel_table w i bs = Some w' \<and> sdb_inv st w' \<and> igs_frame w w' \<and> (\<forall>g. sdb_hosts w' g =
       (if IGSDB_MGRP_HASH g \<in> set bs then {x \<in> sdb_hosts w g. snd x \<noteq> i} else sdb_hosts w g))"
  using assms
proof (induction bs arbitrary: w)
  case Nil
  then show ?case by simp
next
  case (Cons b bs)
  from ifdel_bucket_law [OF Cons.prems(1), of b i] Cons.prems(2) obtain e ms where
    e: "sdb_ifdel_chain (emf_handle w) i (mgrp_sdb w b) = Some (e, ms)"
      "let w' = w\<lparr>emf_handle := e, mgrp_sdb := (mgrp_sdb w)(b := ms)\<rparr> in
       sdb_inv st w' \<and> igs_frame w w' \<and> (\<forall>g. sdb_hosts w' g =
         (if IGSDB_MGRP_HASH g = b then {x \<in> sdb_hosts w g. snd x \<noteq> i} else sdb_hosts w g))" by auto
  define w1 where "w1 = w\<lparr>emf_handle := e, mgrp_sdb := (mgrp_sdb w)(b := ms)\<rparr>"
  have w1: "sdb_inv st w1" "igs_frame w w1" "\<And>g. sdb_hosts w1 g =
       (if IGSDB_MGRP_HASH g = b then {x \<in> sdb_hosts w g. snd x \<noteq> i} else sdb_hosts w g)"
    using e(2) by (simp_all add: Let_def w1_def)
  from Cons.IH [OF w1(1)] Cons.prems(2,3) obtain w' where
    w': "sdb_ifdel_table w1 i bs = Some w'" "sdb_inv st w'" "igs_frame w1 w'"
      "\<forall>g. sdb_hosts w' g =
         (if IGSDB_MGRP_HASH g \<in> set bs then {x \<in> sdb_hosts w1 g. snd x \<noteq> i} else sdb_hosts w1 g)" by auto
  have "sdb_ifdel_table w i (b # bs) = Some w'" using e(1) w'(1) by (simp add: w1_def)
  moreover have "sdb_hosts w' g =
      (if IGSDB_MGRP_HASH g \<in> set (b # bs) then {x \<in> sdb_hosts w g. snd x \<noteq> i} else sdb_hosts w g)" for g
    using w'(4) w1(3) [of g] Cons.prems(3) by auto
  ultimately show ?case using w'(2) igs_frame_trans [OF w1(2) w'(3)] by blast
qed

lemma sdb_interface_del_law:
  assumes inv: "sdb_inv st w"
  shows "\<exists>w' r. igsc_sdb_interface_del w i = Some (w', r) \<and> sdb_inv st w' \<and> igs_frame w w' \<and>
    (if i = 0 then r = FAILURE \<and> w' = w
     else r = SUCCESS \<and> sdb_hosts w' = (\<lambda>g. {x \<in> sdb_hosts w g. snd x \<noteq> i}))"
proof (cases "i = 0")
  case True
  then show ?thesis using inv by (simp add: igsc_sdb_interface_del_def)
next
  case False
  from ifdel_table_law [OF inv, of "[0..<IGSDB_HASHT_SIZE]" i] obtain w' where
    w': "sdb_ifdel_table w i [0..<IGSDB_HASHT_SIZE] = Some w'" "sdb_inv st w'" "igs_frame w w'"
      "\<forall>g. sdb_hosts w' g = (if IGSDB_MGRP_HASH g \<in> set [0..<IGSDB_HASHT_SIZE]
         then {x \<in> sdb_hosts w g. snd x \<noteq> i} else sdb_hosts w g)" by auto
  have "sdb_hosts w' = (\<lambda>g. {x \<in> sdb_hosts w g. snd x \<noteq> i})"
    using w'(4) sdb.hash_bound by (auto simp: fun_eq_iff)
  with False w' show ?thesis by (auto simp: igsc_sdb_interface_del_def)
qed

end
