(* ===== verification/Igs_Rtlist.thy ===== *)
theory Igs_Rtlist
  imports Igs_Sdb_Walk
begin

text \<open>
  The list of multicast routers the snooper has heard a query from (igsc.c): one entry per
  router address and interface, each with a one-shot timer. Every entry also registers its
  interface as a router port of the forwarding layer. Operations return \<open>None\<close> where the code
  follows a pointer to freed memory.
\<close>

section \<open>Operations\<close>

definition igsc_rtlist_find :: "igsc_info \<Rightarrow> ifp \<Rightarrow> u32 \<Rightarrow> igsc_rtlist option" where
  "igsc_rtlist_find w i r = List.find (\<lambda>e. rtl_ifp e = i \<and> rtl_mr_ip e = r) (rtlist_head w)"

text \<open>The timer object is where \<open>osl_timer_init\<close> has allocated it.\<close>

definition igsc_rtlist_add :: "igsc_info \<Rightarrow> ifp \<Rightarrow> u32 \<Rightarrow> (igsc_info \<times> int) option" where
  "igsc_rtlist_add w i r =
     (case igsc_rtlist_find w i r of
        Some e \<Rightarrow>
          (case rt_timers w (rtl_timer e) of None \<Rightarrow> None
           | Some x \<Rightarrow> Some (w\<lparr>rt_timers := (rt_timers w)(rtl_timer e \<mapsto>
               x\<lparr>rt_tm := osl_timer_update (hz w) (jiffies w) (rt_tm x) (query_intv w) False\<rparr>)\<rparr>, FAILURE))
      | None \<Rightarrow>
          let (os, p) = MALLOC (igs_osh w); w1 = w\<lparr>igs_osh := os\<rparr> in
          if p = 0 then Some (w1, FAILURE)
          else
            let (e, res) = emfc_rtport_add (emf_handle w1) i; w2 = w1\<lparr>emf_handle := e\<rparr> in
            if res \<noteq> SUCCESS then Some (w2, FAILURE)
            else
              let (os, t) = osl_timer_init (igs_osh w2); w3 = w2\<lparr>igs_osh := os\<rparr> in
              case t of
                None \<Rightarrow> Some (w3\<lparr>emf_handle := fst (emfc_rtport_del (emf_handle w3) i)\<rparr>, FAILURE)
              | Some t \<Rightarrow>
                  let a = mem_seq os in
                  Some (w3\<lparr>rt_timers := (rt_timers w3)(a \<mapsto>
                      \<lparr>rt_arg = p, rt_tm = osl_timer_add (hz w3) (jiffies w3) t (query_intv w3) False\<rparr>),
                    rtlist_head := \<lparr>rtl_addr = p, rtl_ifp = i, rtl_mr_ip = r, rtl_timer = a\<rparr> # rtlist_head w3\<rparr>,
                    SUCCESS))"

text \<open>The timer function of entry \<open>a\<close>.\<close>

definition igsc_rtlist_timer :: "igsc_info \<Rightarrow> addr \<Rightarrow> igsc_info option" where
  "igsc_rtlist_timer w a =
     (case List.find (\<lambda>e. rtl_addr e = a) (rtlist_head w) of
        None \<Rightarrow> None
      | Some e \<Rightarrow>
          let w1 = w\<lparr>rtlist_head := filter (\<lambda>x. rtl_addr x \<noteq> a) (rtlist_head w)\<rparr> in
          Some (if List.find (\<lambda>x. rtl_ifp x = rtl_ifp e) (rtlist_head w1) = None
                then w1\<lparr>emf_handle := fst (emfc_rtport_del (emf_handle w1) (rtl_ifp e))\<rparr> else w1))"

text \<open>
  The kernel looks at the timer object at \<open>t\<close>: one that is queued is run and calls the function of the
  router list with the entry it was set up for, whether or not that entry is still there; with none
  queued there nothing happens.
\<close>

definition rt_timer_expire :: "igsc_info \<Rightarrow> addr \<Rightarrow> igsc_info option" where
  "rt_timer_expire w t =
     (case rt_timers w t of None \<Rightarrow> Some w
      | Some x \<Rightarrow>
          if \<not> t_pending (rt_tm x) then Some w
          else
            let (tm, left) = osl_timer (hz w) (jiffies w) (rt_tm x) in
            (case igsc_rtlist_timer (w\<lparr>rt_timers := (rt_timers w)(t \<mapsto> x\<lparr>rt_tm := tm\<rparr>)\<rparr>) (rt_arg x) of
               None \<Rightarrow> None
             | Some w1 \<Rightarrow> Some (w1\<lparr>rt_timers := (rt_timers w1)(t := map_option (\<lambda>y. x\<lparr>rt_tm := y\<rparr>) left)\<rparr>)))"

text \<open>The walk of \<open>igsc_rtlist_clear\<close> deletes the timer of each entry, and reads its link after freeing it.\<close>

fun rtlist_clear_walk :: "bool \<Rightarrow> igsc_info \<Rightarrow> igsc_rtlist list \<Rightarrow> igsc_info option" where
  "rtlist_clear_walk stale w [] = Some w"
| "rtlist_clear_walk stale w (x # xs) =
     (case rt_timers w (rtl_timer x) of None \<Rightarrow> None
      | Some y \<Rightarrow>
          let w1 = w\<lparr>rt_timers := (rt_timers w)(rtl_timer x := map_option (\<lambda>tm. y\<lparr>rt_tm := tm\<rparr>) (fst (osl_timer_del (rt_tm y))))\<rparr>;
              w2 = w1\<lparr>emf_handle := fst (emfc_rtport_del (emf_handle w1) (rtl_ifp x)), rtlist_head := remove1 x (rtlist_head w1)\<rparr> in
          if stale then rtlist_clear_walk stale w2 xs else None)"

definition igsc_rtlist_clear :: "igsc_info \<Rightarrow> igsc_info option" where
  "igsc_rtlist_clear w = rtlist_clear_walk (stale_reads w) w (rtlist_head w)"

text \<open>
  Deleting an interface: its entries are freed; their timers are not touched.
\<close>

fun rtport_del_walk :: "emfc_info \<Rightarrow> ifp \<Rightarrow> igsc_rtlist list \<Rightarrow> emfc_info" where
  "rtport_del_walk e i [] = e"
| "rtport_del_walk e i (x # xs) =
     rtport_del_walk (if rtl_ifp x = i then fst (emfc_rtport_del e (rtl_ifp x)) else e) i xs"

definition igsc_interface_rtport_del :: "igsc_info \<Rightarrow> ifp \<Rightarrow> igsc_info \<times> int" where
  "igsc_interface_rtport_del w i =
     (w\<lparr>emf_handle := rtport_del_walk (emf_handle w) i (rtlist_head w),
        rtlist_head := filter (\<lambda>x. rtl_ifp x \<noteq> i) (rtlist_head w)\<rparr>,
      SUCCESS)"

text \<open>
  The listing. \<open>sizeof(igs_cfg_rtport_list_t)\<close> is 4, the size of the header alone, while each
  entry written has 20 bytes; the result is \<open>None\<close> for \<open>FAILURE\<close>.
\<close>

definition sizeof_igs_rtport_list :: nat where "sizeof_igs_rtport_list = 4"
definition sizeof_igs_rtport :: nat where "sizeof_igs_rtport = 20"

fun igs_rtport_list :: "(ifp \<Rightarrow> string) \<Rightarrow> nat \<Rightarrow> nat \<Rightarrow> igsc_rtlist list \<Rightarrow> (u32 \<times> string) list option" where
  "igs_rtport_list nm sz bytes [] = Some []"
| "igs_rtport_list nm sz bytes (x # xs) =
     (let bytes' = bytes + sizeof_igs_rtport_list in
      if bytes' > sz then None
      else map_option (Cons (rtl_mr_ip x, take 16 (nm (rtl_ifp x)))) (igs_rtport_list nm sz bytes' xs))"

definition igsc_rtport_list :: "(ifp \<Rightarrow> string) \<Rightarrow> igsc_info \<Rightarrow> nat \<Rightarrow> (u32 \<times> string) list option" where
  "igsc_rtport_list nm w sz = igs_rtport_list nm sz 0 (rtlist_head w)"

section \<open>The invariant\<close>

definition routers :: "igsc_info \<Rightarrow> (ifp \<times> u32) set" where
  "routers w = (\<lambda>e. (rtl_ifp e, rtl_mr_ip e)) ` set (rtlist_head w)"

definition routers_on :: "igsc_rtlist list \<Rightarrow> ifp \<Rightarrow> nat" where
  "routers_on es i = length (filter (\<lambda>e. rtl_ifp e = i) es)"

text \<open>
  The timers whose entry is gone: when one of them fires, its function works on freed memory.
\<close>

definition stale_of :: "(addr \<Rightarrow> rt_timer option) \<Rightarrow> igsc_rtlist list \<Rightarrow> addr set" where
  "stale_of T es = {t. \<exists>x. T t = Some x \<and> rt_arg x \<notin> rtl_addr ` set es}"

definition stale_timers :: "igsc_info \<Rightarrow> addr set" where
  "stale_timers w = stale_of (rt_timers w) (rtlist_head w)"

text \<open>
  Every timer object is queued, every entry has exactly one, and an interface has at least as many
  references as a router port as it has routers. (It may have more: a router that times out while another one is on
  the same interface keeps its reference.)
\<close>

definition timer_wf :: "igsc_rtlist list \<Rightarrow> nat \<Rightarrow> addr \<Rightarrow> rt_timer \<Rightarrow> bool" where
  "timer_wf es n t x \<longleftrightarrow> timer_live (Some (rt_tm x)) \<and> t \<le> n \<and> rt_arg x \<le> n \<and>
     (\<forall>e\<in>set es. rt_arg x = rtl_addr e \<longrightarrow> t = rtl_timer e)"

definition timers_wf :: "(addr \<Rightarrow> rt_timer option) \<Rightarrow> igsc_rtlist list \<Rightarrow> nat \<Rightarrow> bool" where
  "timers_wf T es n \<longleftrightarrow> (\<forall>t x. T t = Some x \<longrightarrow> timer_wf es n t x) \<and>
     (\<forall>e\<in>set es. \<exists>x. T (rtl_timer e) = Some x \<and> rt_arg x = rtl_addr e)"

definition rt_ok :: "igsc_info \<Rightarrow> bool" where
  "rt_ok w \<longleftrightarrow> distinct (map rtl_addr (rtlist_head w)) \<and>
     distinct (map (\<lambda>e. (rtl_ifp e, rtl_mr_ip e)) (rtlist_head w)) \<and>
     (\<forall>e\<in>set (rtlist_head w). 0 < rtl_addr e \<and> rtl_addr e \<le> mem_seq (igs_osh w) \<and> rtl_ifp e \<noteq> 0) \<and>
     timers_wf (rt_timers w) (rtlist_head w) (mem_seq (igs_osh w)) \<and> iflist_wf (emf_handle w) \<and> mem_reliable (osh (emf_handle w)) \<and>
     (\<forall>i. routers_on (rtlist_head w) i \<le> rtport_cnt (emf_handle w) i)"

text \<open>The router operations leave the forwarding database alone.\<close>

definition mfdb_same :: "emfc_info \<Rightarrow> emfc_info \<Rightarrow> bool" where
  "mfdb_same e e' \<longleftrightarrow> mgrp_fdb e' = mgrp_fdb e \<and> mhif_head e' = mhif_head e \<and>
     mgrp_cache e' = mgrp_cache e \<and> mgrp_cache_ip e' = mgrp_cache_ip e \<and>
     mem_seq (osh e) \<le> mem_seq (osh e') \<and> mem_ok (osh e') = mem_ok (osh e)"

lemma mfdb_same_refl [simp]: "mfdb_same e e"
  by (simp add: mfdb_same_def)

lemma mfdb_same_trans: "mfdb_same e e' \<Longrightarrow> mfdb_same e' e'' \<Longrightarrow> mfdb_same e e''"
  by (auto simp: mfdb_same_def)

lemma mfdb_same_ok:
  assumes "mfdb_same e e'"
  shows "mfdb_ok e \<Longrightarrow> mfdb_ok e'" "mfdb_cnt e' = mfdb_cnt e"
proof -
  show "mfdb_cnt e' = mfdb_cnt e" using assms by (intro mfdb_cnt_cong) (simp add: mfdb_same_def)
  assume ok: "mfdb_ok e"
  have "mgrp_addr m \<le> mem_seq (osh e')" if "m \<in> set (mfdb_groups e)" for m
    using ok that assms by (auto simp: mfdb_ok_def mfdb_wf_def mfdb_wf0_def mfdb_same_def)
  then show "mfdb_ok e'"
    using ok assms by (simp add: mfdb_ok_def mfdb_wf_def mfdb_wf0_def mfdb_same_def mem_reliable_def)
qed

lemma rtport_same: "mfdb_same e (fst (emfc_rtport_add e i))" "mfdb_same e (fst (emfc_rtport_del e i))"
  "snd (emfc_rtport_add e i) = SUCCESS"
  by (auto simp: mfdb_same_def emfc_rtport_add_def emfc_rtport_del_def emfc_iflist_add_def
      emfc_iflist_del_def iflist_write_def MALLOC_def Let_def split: option.splits prod.splits if_splits)

end
