(* ===== verification/Igs_Rtlist_Laws.thy ===== *)
theory Igs_Rtlist_Laws
  imports Igs_Rtlist
begin

text \<open>
  The laws of the router list: an entry is added or refreshed, expires, goes with its
  interface. Every operation keeps \<open>rt_ok\<close> and leaves the snooping database, and its agreement
  with the forwarding database, as it was.
\<close>

section \<open>The snooping database is not touched\<close>

definition rt_frame :: "igsc_info \<Rightarrow> igsc_info \<Rightarrow> bool" where
  "rt_frame w w' \<longleftrightarrow> mgrp_sdb w' = mgrp_sdb w \<and> mfdb_same (emf_handle w) (emf_handle w') \<and>
     mem_seq (igs_osh w) \<le> mem_seq (igs_osh w') \<and> mem_ok (igs_osh w') = mem_ok (igs_osh w) \<and>
     sstats w' = sstats w \<and> stale_reads w' = stale_reads w"

lemma rt_frame_inv:
  assumes "rt_frame w w'" "sdb_inv st w"
  shows "sdb_inv st w'" "sdb_hosts w' = sdb_hosts w"
proof -
  have at: "sdb_at w' = sdb_at w" using assms(1) by (simp add: rt_frame_def)
  have e: "mfdb_ok (emf_handle w')" "mfdb_cnt (emf_handle w') = mfdb_cnt (emf_handle w)"
    using mfdb_same_ok [of "emf_handle w" "emf_handle w'"] assms sdb_okD(2) [OF sdb_inv_D(1)]
    by (auto simp: rt_frame_def)
  have seq: "mem_seq (igs_osh w) \<le> mem_seq (igs_osh w')" "mgrp_sdb w' = mgrp_sdb w"
    using assms(1) by (simp_all add: rt_frame_def)
  note ok = sdb_inv_D [OF assms(2)]
  have "sdb_ok w'"
    using e(1) sdb_okD [OF ok(1)] grp_inv_mono [OF _ seq(1)] at seq(2) by (intro sdb_okI) auto
  moreover have "sdb_sync st w'"
    using ok(2) by (simp add: sdb_sync_def grp_sync_def sdb_ifaces_def at e(2))
  moreover have "sdb_timers w'" using ok(3) by (simp add: sdb_timers_def at)
  ultimately show "sdb_inv st w'" by (simp add: sdb_inv_def)
  show "sdb_hosts w' = sdb_hosts w" by (simp add: sdb_hosts_def fun_eq_iff at)
qed

section \<open>Laws\<close>

lemma rt_okD:
  assumes "rt_ok w"
  shows "distinct (map rtl_addr (rtlist_head w))"
    "distinct (map (\<lambda>e. (rtl_ifp e, rtl_mr_ip e)) (rtlist_head w))"
    "iflist_wf (emf_handle w)" "mem_reliable (osh (emf_handle w))"
    "routers_on (rtlist_head w) i \<le> rtport_cnt (emf_handle w) i"
    "timers_wf (rt_timers w) (rtlist_head w) (mem_seq (igs_osh w))"
    "e \<in> set (rtlist_head w) \<Longrightarrow> rtl_ifp e \<noteq> 0"
    "e \<in> set (rtlist_head w) \<Longrightarrow> rtl_addr e \<le> mem_seq (igs_osh w)"
  using assms by (auto simp: rt_ok_def)

lemma routers_on_pos: "e \<in> set es \<Longrightarrow> 0 < routers_on es (rtl_ifp e)"
  by (auto simp: routers_on_def filter_empty_conv)

lemma rtlist_addr_notin:
  "rt_ok w \<Longrightarrow> mem_seq (igs_osh w) < a \<Longrightarrow> a \<notin> rtl_addr ` set (rtlist_head w)"
  using rt_okD(8) by fastforce

lemma rtlist_find_cases:
  obtains (absent) "igsc_rtlist_find w i r = None" "(i, r) \<notin> routers w"
  | (present) e where "igsc_rtlist_find w i r = Some e" "e \<in> set (rtlist_head w)" "rtl_ifp e = i"
      "rtl_mr_ip e = r" "(i, r) \<in> routers w"
proof (cases "igsc_rtlist_find w i r")
  case None
  then have "(i, r) \<notin> routers w"
    by (auto simp: igsc_rtlist_find_def routers_def find_None_notin)
  with None show ?thesis by (rule absent)
next
  case (Some e)
  then have e: "e \<in> set (rtlist_head w)" "rtl_ifp e = i" "rtl_mr_ip e = r"
    by (auto simp: igsc_rtlist_find_def dest: find_SomeD)
  then have "(i, r) \<in> routers w" by (auto simp: routers_def)
  with Some e show ?thesis by (rule present)
qed

text \<open>The timer objects.\<close>

lemma timers_empty [simp]: "timers_wf (\<lambda>_. None) [] n" "stale_of (\<lambda>_. None) es = {}"
  by (simp_all add: timers_wf_def stale_of_def)

lemma timers_wf_at:
  assumes "timers_wf T es n" "e \<in> set es"
  obtains x where "T (rtl_timer e) = Some x" "rt_arg x = rtl_addr e" "timer_live (Some (rt_tm x))"
  using assms unfolding timers_wf_def timer_wf_def by blast

lemma timers_wf_mono: "timers_wf T es n \<Longrightarrow> n \<le> n' \<Longrightarrow> timers_wf T es n'"
  by (auto simp: timers_wf_def timer_wf_def intro: le_trans)

lemma timer_wf_sub: "timer_wf es n t x \<Longrightarrow> set es' \<subseteq> set es \<Longrightarrow> timer_wf es' n t x"
  unfolding timer_wf_def by blast

lemma timers_wf_update:
  assumes "timers_wf T es n" "T t = Some x" "timer_live (Some tm)"
  shows "timers_wf (T(t \<mapsto> x\<lparr>rt_tm := tm\<rparr>)) es n" "stale_of (T(t \<mapsto> x\<lparr>rt_tm := tm\<rparr>)) es = stale_of T es"
proof -
  have "timer_wf es n t (x\<lparr>rt_tm := tm\<rparr>)" using assms by (simp add: timers_wf_def timer_wf_def)
  then show "timers_wf (T(t \<mapsto> x\<lparr>rt_tm := tm\<rparr>)) es n" using assms by (auto simp: timers_wf_def)
  show "stale_of (T(t \<mapsto> x\<lparr>rt_tm := tm\<rparr>)) es = stale_of T es" using assms(2) by (auto simp: stale_of_def)
qed

lemma timers_wf_add:
  assumes wf: "timers_wf T es n" and old: "\<And>e. e \<in> set es \<Longrightarrow> rtl_addr e \<le> n"
    and e: "n < rtl_addr e" "rtl_addr e \<le> n'" "n < rtl_timer e" "rtl_timer e \<le> n'" and tm: "timer_live (Some tm)"
  shows "timers_wf (T(rtl_timer e \<mapsto> \<lparr>rt_arg = rtl_addr e, rt_tm = tm\<rparr>)) (e # es) n'"
    "stale_of (T(rtl_timer e \<mapsto> \<lparr>rt_arg = rtl_addr e, rt_tm = tm\<rparr>)) (e # es) = stale_of T es"
proof -
  let ?T = "T(rtl_timer e \<mapsto> \<lparr>rt_arg = rtl_addr e, rt_tm = tm\<rparr>)"
  have T: "T t = Some x \<Longrightarrow> timer_wf es n t x" for t x using wf by (simp add: timers_wf_def)
  have fresh: "T (rtl_timer e) = None"
    using T [of "rtl_timer e"] e(3) by (cases "T (rtl_timer e)") (auto simp: timer_wf_def)
  have "timer_wf (e # es) n' t x" if "?T t = Some x" for t x
    using that T [of t x] old e tm by (fastforce simp: timer_wf_def split: if_splits)
  moreover have "\<exists>x. ?T (rtl_timer d) = Some x \<and> rt_arg x = rtl_addr d" if "d \<in> set (e # es)" for d
    using that wf fresh by (force simp: timers_wf_def)
  ultimately show "timers_wf ?T (e # es) n'" by (simp add: timers_wf_def)
  show "stale_of ?T (e # es) = stale_of T es"
  proof (rule set_eqI)
    fix t
    have "rt_arg x \<noteq> rtl_addr e" if "T t = Some x" for x using T [OF that] e(1) by (simp add: timer_wf_def)
    then show "t \<in> stale_of ?T (e # es) \<longleftrightarrow> t \<in> stale_of T es" using fresh by (auto simp: stale_of_def)
  qed
qed

lemma timers_wf_filter:
  assumes "timers_wf T es n"
  shows "timers_wf T (filter P es) n"
    "stale_of T (filter P es) = stale_of T es \<union> {t. \<exists>x. T t = Some x \<and> (\<exists>e\<in>set es. rt_arg x = rtl_addr e) \<and>
       (\<forall>e\<in>set es. rt_arg x = rtl_addr e \<longrightarrow> \<not> P e)}"
proof -
  have "timer_wf (filter P es) n t x" if "T t = Some x" for t x
    using assms that timer_wf_sub [of es n t x "filter P es"] by (simp add: timers_wf_def)
  then show "timers_wf T (filter P es) n" using assms by (simp add: timers_wf_def)
  show "stale_of T (filter P es) = stale_of T es \<union> {t. \<exists>x. T t = Some x \<and> (\<exists>e\<in>set es. rt_arg x = rtl_addr e) \<and>
       (\<forall>e\<in>set es. rt_arg x = rtl_addr e \<longrightarrow> \<not> P e)}"
    by (auto simp: stale_of_def image_iff)
qed

lemma timers_wf_remove:
  assumes wf: "timers_wf T es n" and e: "e \<in> set es" and d: "distinct (map rtl_addr es)"
  shows "timers_wf (T(rtl_timer e := None)) (filter (\<lambda>x. rtl_addr x \<noteq> rtl_addr e) es) n"
    "stale_of (T(rtl_timer e := None)) (filter (\<lambda>x. rtl_addr x \<noteq> rtl_addr e) es) = stale_of T es"
proof -
  let ?es = "filter (\<lambda>x. rtl_addr x \<noteq> rtl_addr e) es"
  have T: "T t = Some x \<Longrightarrow> timer_wf es n t x" for t x using wf by (simp add: timers_wf_def)
  obtain x where x: "T (rtl_timer e) = Some x" "rt_arg x = rtl_addr e" using timers_wf_at [OF wf e] .
  have other: "rtl_timer d \<noteq> rtl_timer e" if d: "d \<in> set es" "rtl_addr d \<noteq> rtl_addr e" for d
  proof -
    obtain y where "T (rtl_timer d) = Some y" "rt_arg y = rtl_addr d" using timers_wf_at [OF wf d(1)] .
    with x d(2) show ?thesis by auto
  qed
  have "timers_wf T ?es n" by (rule timers_wf_filter(1) [OF wf])
  then show "timers_wf (T(rtl_timer e := None)) ?es n" using other by (auto simp: timers_wf_def)
  show "stale_of (T(rtl_timer e := None)) ?es = stale_of T es"
  proof (rule set_eqI)
    fix t
    show "t \<in> stale_of (T(rtl_timer e := None)) ?es \<longleftrightarrow> t \<in> stale_of T es"
    proof (cases "t = rtl_timer e")
      case True
      then show ?thesis using x e by (auto simp: stale_of_def)
    next
      case False
      then have "rt_arg y \<noteq> rtl_addr e" if "T t = Some y" for y
        using T [OF that] e by (auto simp: timer_wf_def)
      then have "rt_arg y \<in> rtl_addr ` set ?es \<longleftrightarrow> rt_arg y \<in> rtl_addr ` set es" if "T t = Some y" for y
        using that by auto
      with False show ?thesis by (auto simp: stale_of_def)
    qed
  qed
qed

lemma stale_of_filter_if:
  assumes wf: "timers_wf T es n" and d: "distinct (map rtl_addr es)"
  shows "stale_of T (filter P es) = stale_of T es \<union> rtl_timer ` {e \<in> set es. \<not> P e}"
proof -
  have inj: "e = e'" if "e \<in> set es" "e' \<in> set es" "rtl_addr e = rtl_addr e'" for e e'
    using d that by (auto simp: distinct_map dest: inj_onD)
  have "{t. \<exists>x. T t = Some x \<and> (\<exists>e\<in>set es. rt_arg x = rtl_addr e) \<and>
       (\<forall>e\<in>set es. rt_arg x = rtl_addr e \<longrightarrow> \<not> P e)} = rtl_timer ` {e \<in> set es. \<not> P e}" (is "?L = ?R")
  proof
    show "?L \<subseteq> ?R" using wf unfolding timers_wf_def timer_wf_def by blast
    show "?R \<subseteq> ?L"
    proof
      fix t
      assume "t \<in> ?R"
      then obtain e where e: "e \<in> set es" "\<not> P e" "t = rtl_timer e" by blast
      obtain x where x: "T (rtl_timer e) = Some x" "rt_arg x = rtl_addr e" using timers_wf_at [OF wf e(1)] .
      have "\<not> P d" if "d \<in> set es" "rt_arg x = rtl_addr d" for d
        using inj [OF that(1) e(1)] that(2) x(2) e(2) by auto
      with e(1,3) x show "t \<in> ?L" by blast
    qed
  qed
  with timers_wf_filter(2) [OF wf, of P] show ?thesis by simp
qed

lemma rtport_add_facts:
  assumes "iflist_wf e" "mem_reliable (osh e)" "i \<noteq> 0" "rtport_cnt e i < 2 ^ 32 - 1"
  shows "iflist_wf (fst (emfc_rtport_add e i))" "mem_reliable (osh (fst (emfc_rtport_add e i)))"
    "rtport_cnt (fst (emfc_rtport_add e i)) = (rtport_cnt e)(i := Suc (rtport_cnt e i))"
  using rtport_add_law [OF assms] by auto

lemma rtport_del_facts:
  assumes "iflist_wf e" "0 < rtport_cnt e i"
  shows "iflist_wf (fst (emfc_rtport_del e i))" "osh (fst (emfc_rtport_del e i)) = osh e"
    "rtport_cnt (fst (emfc_rtport_del e i)) = (rtport_cnt e)(i := rtport_cnt e i - 1)"
  using rtport_del_law [OF assms] by auto

lemma routers_on_Cons: "routers_on (e # es) i = routers_on es i + (if rtl_ifp e = i then 1 else 0)"
  by (simp add: routers_on_def)

text \<open>
  A router heard for the first time is added with its interface, one already known has its
  timer restarted (and \<open>FAILURE\<close> returned); a failed allocation changes neither.
\<close>

lemma rtlist_add_law:
  assumes ok: "rt_ok w" and i: "i \<noteq> 0" "rtport_cnt (emf_handle w) i < 2 ^ 32 - 1"
  shows "\<exists>w' res. igsc_rtlist_add w i r = Some (w', res) \<and> rt_ok w' \<and> rt_frame w w' \<and>
    stale_timers w' = stale_timers w \<and>
    (if (i, r) \<in> routers w then res = FAILURE \<and> routers w' = routers w \<and>
       rtport_cnt (emf_handle w') = rtport_cnt (emf_handle w)
     else res = SUCCESS \<and> routers w' = insert (i, r) (routers w) \<and>
         rtport_cnt (emf_handle w') = (rtport_cnt (emf_handle w))(i := Suc (rtport_cnt (emf_handle w) i)) \<or>
       res = FAILURE \<and> \<not> mem_reliable (igs_osh w) \<and> routers w' = routers w \<and>
         rtport_cnt (emf_handle w') = rtport_cnt (emf_handle w))"
proof (cases rule: rtlist_find_cases [of w i r])
  case (present e)
  obtain x where x: "rt_timers w (rtl_timer e) = Some x" using timers_wf_at [OF rt_okD(6) [OF ok] present(2)] .
  define w' where "w' = w\<lparr>rt_timers := (rt_timers w)(rtl_timer e \<mapsto>
      x\<lparr>rt_tm := osl_timer_update (hz w) (jiffies w) (rt_tm x) (query_intv w) False\<rparr>)\<rparr>"
  have "igsc_rtlist_add w i r = Some (w', FAILURE)"
    by (simp add: igsc_rtlist_add_def present(1) x w'_def)
  moreover have "rt_ok w'" "stale_timers w' = stale_timers w"
    using ok timers_wf_update [OF rt_okD(6) [OF ok] x] by (simp_all add: rt_ok_def w'_def stale_timers_def)
  ultimately show ?thesis using present(5) by (simp add: rt_frame_def w'_def routers_def)
next
  case absent
  obtain os1 p where os1: "MALLOC (igs_osh w) = (os1, p)" by fastforce
  obtain os2 tm where os2: "osl_timer_init os1 = (os2, tm)" by fastforce
  note m1 = MALLOC_D [OF os1] and m2 = osl_timer_init_D [OF os2]
  define e1 where "e1 = fst (emfc_rtport_add (emf_handle w) i)"
  have add: "emfc_rtport_add (emf_handle w) i = (e1, SUCCESS)"
    using rtport_same(3) [of "emf_handle w" i] by (simp add: e1_def prod_eq_iff)
  note e1 = rtport_add_facts [OF rt_okD(3,4) [OF ok] i, folded e1_def]
  have same1: "mfdb_same (emf_handle w) e1" unfolding e1_def by (rule rtport_same)
  show ?thesis
  proof (cases "p = 0")
    case True
    have "igsc_rtlist_add w i r = Some (w\<lparr>igs_osh := os1\<rparr>, FAILURE)"
      using True by (simp add: igsc_rtlist_add_def absent(1) os1)
    moreover have "rt_ok (w\<lparr>igs_osh := os1\<rparr>)"
      using ok m1(2) timers_wf_mono [OF rt_okD(6) [OF ok], of "mem_seq os1"] by (auto simp: rt_ok_def)
    ultimately show ?thesis
      using absent(2) m1(1,2) m1(3) [OF True] by (simp add: rt_frame_def routers_def stale_timers_def)
  next
    case p: False
    show ?thesis
    proof (cases tm)
      case None
      define e2 where "e2 = fst (emfc_rtport_del e1 i)"
      have e2: "iflist_wf e2" "osh e2 = osh e1" "rtport_cnt e2 = rtport_cnt (emf_handle w)"
        using rtport_del_facts [OF e1(1), of i] e1(3) by (auto simp: e2_def fun_eq_iff)
      have same2: "mfdb_same (emf_handle w) e2"
        unfolding e2_def by (rule mfdb_same_trans [OF same1 rtport_same(2)])
      define w' where "w' = w\<lparr>emf_handle := e2, igs_osh := os2\<rparr>"
      have "igsc_rtlist_add w i r = Some (w', FAILURE)"
        using p None by (simp add: igsc_rtlist_add_def absent(1) os1 os2 add e2_def w'_def)
      moreover have "rt_ok w'"
        using ok m1(2) m2(2) e1(2) e2 timers_wf_mono [OF rt_okD(6) [OF ok], of "mem_seq os2"]
        by (auto simp: rt_ok_def w'_def)
      moreover have "\<not> mem_reliable (igs_osh w)" using m2(3) [OF None] m1(1) by (simp add: mem_reliable_def)
      ultimately show ?thesis
        using absent(2) m1(1,2) m2(1,2) same2 e2(3) by (simp add: rt_frame_def w'_def routers_def stale_timers_def)
    next
      case (Some t)
      define e where "e = \<lparr>rtl_addr = p, rtl_ifp = i, rtl_mr_ip = r, rtl_timer = mem_seq os2\<rparr>"
      define tm' where "tm' = osl_timer_add (hz w) (jiffies w) t (query_intv w) False"
      define w' where "w' = w\<lparr>emf_handle := e1, igs_osh := os2,
          rt_timers := (rt_timers w)(rtl_timer e \<mapsto> \<lparr>rt_arg = rtl_addr e, rt_tm = tm'\<rparr>),
          rtlist_head := e # rtlist_head w\<rparr>"
      have "igsc_rtlist_add w i r = Some (w', SUCCESS)"
        using p by (simp add: igsc_rtlist_add_def absent(1) os1 os2 add Some e_def w'_def tm'_def Let_def)
      moreover
      have ad: "mem_seq (igs_osh w) < p" using m1(4) p by simp
      have live: "timer_live (Some tm')" by (simp add: tm'_def)
      have bnd: "mem_seq (igs_osh w) < rtl_addr e" "rtl_addr e \<le> mem_seq os2" "mem_seq (igs_osh w) < rtl_timer e"
        "rtl_timer e \<le> mem_seq os2"
        using ad m1(2,4) m2(2) p by (simp_all add: e_def)
      note wf = timers_wf_add [OF rt_okD(6) [OF ok] rt_okD(8) [OF ok] bnd live]
      have "rt_ok w'"
      proof -
        have "(i, r) \<notin> (\<lambda>e. (rtl_ifp e, rtl_mr_ip e)) ` set (rtlist_head w)"
          using absent(2) by (simp add: routers_def)
        moreover have "routers_on (e # rtlist_head w) j \<le> rtport_cnt e1 j" for j
          using rt_okD(5) [OF ok, of j] by (auto simp: routers_on_Cons e1(3) e_def)
        moreover have "0 < rtl_addr d \<and> rtl_addr d \<le> mem_seq os2 \<and> rtl_ifp d \<noteq> 0" if "d \<in> set (e # rtlist_head w)" for d
          using that ok bnd m1(2) m2(2) i(1) by (auto simp: rt_ok_def e_def)
        ultimately show ?thesis
          using ok rtlist_addr_notin [OF ok bnd(1)] wf(1) e1(1,2)
          by (simp add: rt_ok_def w'_def) (simp add: e_def)
      qed
      moreover have "stale_timers w' = stale_timers w" using wf(2) by (simp add: stale_timers_def w'_def)
      ultimately show ?thesis
        using absent(2) m1(1,2) m2(1,2) same1 e1(3)
        by (simp add: rt_frame_def w'_def routers_def e_def)
    qed
  qed
qed

text \<open>Taking entries out.\<close>

lemma rt_ok_filter:
  assumes ok: "rt_ok w" and e: "iflist_wf e'" "osh e' = osh (emf_handle w)"
    "\<And>i. routers_on (filter P (rtlist_head w)) i \<le> rtport_cnt e' i"
  shows "rt_ok (w\<lparr>emf_handle := e', rtlist_head := filter P (rtlist_head w)\<rparr>)"
  using ok e timers_wf_filter(1) [of "rt_timers w" "rtlist_head w" "mem_seq (igs_osh w)" P]
  by (auto simp: rt_ok_def distinct_map_filter)

lemma routers_on_remove:
  assumes "rt_ok w" "e \<in> set (rtlist_head w)"
  shows "routers_on (filter (\<lambda>x. rtl_addr x \<noteq> rtl_addr e) (rtlist_head w)) i =
    routers_on (rtlist_head w) i - (if rtl_ifp e = i then 1 else 0)"
  using length_filter_remove(1) [of rtl_addr "rtlist_head w" e "rtl_addr e" "\<lambda>x. rtl_ifp x = i"] assms
  by (simp add: routers_on_def rt_ok_def)

lemma rtlist_timer_law:
  assumes ok: "rt_ok w" and e: "e \<in> set (rtlist_head w)"
  shows "\<exists>w'. igsc_rtlist_timer w (rtl_addr e) = Some w' \<and> rt_ok w' \<and> rt_frame w w' \<and>
    rtlist_head w' = filter (\<lambda>x. rtl_addr x \<noteq> rtl_addr e) (rtlist_head w) \<and> rt_timers w' = rt_timers w \<and>
    rtport_cnt (emf_handle w') = (if routers_on (rtlist_head w) (rtl_ifp e) = 1
      then (rtport_cnt (emf_handle w))(rtl_ifp e := rtport_cnt (emf_handle w) (rtl_ifp e) - 1)
      else rtport_cnt (emf_handle w))"
proof -
  let ?es = "filter (\<lambda>x. rtl_addr x \<noteq> rtl_addr e) (rtlist_head w)" and ?i = "rtl_ifp e"
  have find: "List.find (\<lambda>x. rtl_addr x = rtl_addr e) (rtlist_head w) = Some e"
    using rt_okD(1) [OF ok] e by (intro find_key_unique) auto
  note rem = routers_on_remove [OF ok e]
  have pos: "0 < routers_on (rtlist_head w) ?i" by (rule routers_on_pos [OF e])
  have last: "List.find (\<lambda>x. rtl_ifp x = ?i) ?es = None \<longleftrightarrow> routers_on (rtlist_head w) ?i = 1"
  proof -
    have "List.find (\<lambda>x. rtl_ifp x = ?i) ?es = None \<longleftrightarrow> routers_on ?es ?i = 0"
      by (auto simp: find_None_notin routers_on_def filter_empty_conv)
    with rem [of ?i] pos show ?thesis by auto
  qed
  have cnt: "0 < rtport_cnt (emf_handle w) ?i" using rt_okD(5) [OF ok, of ?i] pos by simp
  note del = rtport_del_facts [OF rt_okD(3) [OF ok] cnt]
  define e' where "e' = (if routers_on (rtlist_head w) ?i = 1
      then fst (emfc_rtport_del (emf_handle w) ?i) else emf_handle w)"
  have e': "iflist_wf e'" "osh e' = osh (emf_handle w)" "mfdb_same (emf_handle w) e'"
      "rtport_cnt e' = (if routers_on (rtlist_head w) ?i = 1
        then (rtport_cnt (emf_handle w))(?i := rtport_cnt (emf_handle w) ?i - 1)
        else rtport_cnt (emf_handle w))"
    using del rt_okD(3) [OF ok] rtport_same(2) by (simp_all add: e'_def)
  have le: "routers_on ?es j \<le> rtport_cnt e' j" for j
    using rem [of j] rt_okD(5) [OF ok, of j] e'(4) by auto
  let ?w = "w\<lparr>emf_handle := e', rtlist_head := ?es\<rparr>"
  have eq: "igsc_rtlist_timer w (rtl_addr e) = Some ?w"
    by (simp add: igsc_rtlist_timer_def find last e'_def Let_def)
  show ?thesis
    unfolding eq using rt_ok_filter [OF ok e'(1,2) le] e'(3,4) by (simp add: rt_frame_def)
qed

lemma routers_filter:
  assumes "rt_ok w" "e \<in> set (rtlist_head w)"
  shows "(\<lambda>e. (rtl_ifp e, rtl_mr_ip e)) ` {x \<in> set (rtlist_head w). rtl_addr x \<noteq> rtl_addr e} =
    routers w - {(rtl_ifp e, rtl_mr_ip e)}"
proof -
  have inj: "inj_on (\<lambda>e. (rtl_ifp e, rtl_mr_ip e)) (set (rtlist_head w))"
      "inj_on rtl_addr (set (rtlist_head w))"
    using rt_okD(1,2) [OF assms(1)] by (simp_all add: distinct_map)
  then have "{x \<in> set (rtlist_head w). rtl_addr x \<noteq> rtl_addr e} = set (rtlist_head w) - {e}"
    using assms(2) by (auto dest: inj_onD)
  then show ?thesis using inj(1) assms(2) by (simp add: routers_def inj_on_image_set_diff)
qed

lemma rtlist_timer_timers:
  "igsc_rtlist_timer (w\<lparr>rt_timers := T\<rparr>) a = map_option (\<lambda>w1. w1\<lparr>rt_timers := T\<rparr>) (igsc_rtlist_timer w a)"
  by (simp add: igsc_rtlist_timer_def Let_def split: option.split)

lemma rt_timer_expire_law:
  assumes ok: "rt_ok w" and e: "e \<in> set (rtlist_head w)"
  shows "\<exists>w'. rt_timer_expire w (rtl_timer e) = Some w' \<and> rt_ok w' \<and> rt_frame w w' \<and>
    routers w' = routers w - {(rtl_ifp e, rtl_mr_ip e)} \<and> stale_timers w' = stale_timers w \<and>
    rtport_cnt (emf_handle w') = (if routers_on (rtlist_head w) (rtl_ifp e) = 1
      then (rtport_cnt (emf_handle w))(rtl_ifp e := rtport_cnt (emf_handle w) (rtl_ifp e) - 1)
      else rtport_cnt (emf_handle w))"
proof -
  obtain x where x: "rt_timers w (rtl_timer e) = Some x" "rt_arg x = rtl_addr e" "timer_live (Some (rt_tm x))"
    using timers_wf_at [OF rt_okD(6) [OF ok] e] .
  from rtlist_timer_law [OF ok e] obtain w1 where
    w1: "igsc_rtlist_timer w (rtl_addr e) = Some w1" "rt_ok w1" "rt_frame w w1"
      "rtlist_head w1 = filter (\<lambda>x. rtl_addr x \<noteq> rtl_addr e) (rtlist_head w)"
      and T1: "rt_timers w1 = rt_timers w"
      and cnt: "rtport_cnt (emf_handle w1) = (if routers_on (rtlist_head w) (rtl_ifp e) = 1
      then (rtport_cnt (emf_handle w))(rtl_ifp e := rtport_cnt (emf_handle w) (rtl_ifp e) - 1)
      else rtport_cnt (emf_handle w))" by blast
  define w' where "w' = w1\<lparr>rt_timers := (rt_timers w)(rtl_timer e := None)\<rparr>"
  have eq: "rt_timer_expire w (rtl_timer e) = Some w'"
    using x by (simp add: rt_timer_expire_def timer_live_def osl_timer_def rtlist_timer_timers w1(1) w'_def)
  note rem = timers_wf_remove [OF rt_okD(6) [OF ok] e rt_okD(1) [OF ok]]
  have "mem_seq (igs_osh w) \<le> mem_seq (igs_osh w1)" using w1(3) by (simp add: rt_frame_def)
  from timers_wf_mono [OF rem(1) this] have "rt_ok w'"
    using w1(2,4) by (simp add: rt_ok_def w'_def)
  moreover have "stale_timers w' = stale_timers w" using rem(2) w1(4) by (simp add: stale_timers_def w'_def)
  moreover have "routers w' = routers w - {(rtl_ifp e, rtl_mr_ip e)}"
  proof -
    have hd': "rtlist_head w' = filter (\<lambda>x. rtl_addr x \<noteq> rtl_addr e) (rtlist_head w)" using w1(4) by (simp add: w'_def)
    show ?thesis unfolding routers_def [of w'] hd' set_filter by (rule routers_filter [OF ok e])
  qed
  moreover have "rt_frame w w'" using w1(3) by (simp add: rt_frame_def w'_def)
  moreover have "rtport_cnt (emf_handle w') = rtport_cnt (emf_handle w1)" by (simp add: w'_def)
  ultimately show ?thesis unfolding eq cnt by blast
qed

text \<open>What the kernel finds at an address: nothing queued, the timer of an entry, or a stale one.\<close>

lemma timer_cases:
  assumes ok: "rt_ok w"
  obtains (none) "rt_timers w t = None" "t \<notin> stale_timers w"
  | (entry) e where "e \<in> set (rtlist_head w)" "t = rtl_timer e" "t \<notin> stale_timers w"
  | (stale) x where "rt_timers w t = Some x" "rt_arg x \<notin> rtl_addr ` set (rtlist_head w)"
      "timer_live (Some (rt_tm x))" "t \<in> stale_timers w"
proof (cases "rt_timers w t")
  case None
  then show thesis using none by (simp add: stale_timers_def stale_of_def)
next
  case (Some x)
  then have wf: "timer_wf (rtlist_head w) (mem_seq (igs_osh w)) t x"
    using rt_okD(6) [OF ok] by (simp add: timers_wf_def)
  show thesis
  proof (cases "rt_arg x \<in> rtl_addr ` set (rtlist_head w)")
    case True
    then obtain e where "e \<in> set (rtlist_head w)" "rt_arg x = rtl_addr e" by blast
    moreover have "t \<notin> stale_timers w" using Some True by (simp add: stale_timers_def stale_of_def)
    ultimately show thesis using wf entry by (simp add: timer_wf_def)
  next
    case False
    then show thesis using wf Some stale [of x] by (simp add: timer_wf_def stale_timers_def stale_of_def)
  qed
qed

lemma expire_stale_iff:
  assumes ok: "rt_ok w"
  shows "rt_timer_expire w t = None \<longleftrightarrow> t \<in> stale_timers w"
  using ok
proof (cases rule: timer_cases [of w t])
  case none
  then show ?thesis by (simp add: rt_timer_expire_def)
next
  case (entry e)
  with rt_timer_expire_law [OF ok entry(1)] show ?thesis by auto
next
  case (stale x)
  then have "List.find (\<lambda>e. rtl_addr e = rt_arg x) (rtlist_head w) = None"
    by (force simp: find_None_iff)
  then have "igsc_rtlist_timer w (rt_arg x) = None" by (simp add: igsc_rtlist_timer_def)
  with stale show ?thesis
    by (simp add: rt_timer_expire_def rtlist_timer_timers timer_live_def osl_timer_def)
qed

lemma expire_any:
  assumes ok: "rt_ok w" and res: "rt_timer_expire w t = Some w'"
  shows "rt_ok w' \<and> rt_frame w w' \<and> stale_timers w' = stale_timers w"
  using ok
proof (cases rule: timer_cases [of w t])
  case none
  with ok res show ?thesis by (simp add: rt_timer_expire_def rt_frame_def)
next
  case (entry e)
  with rt_timer_expire_law [OF ok entry(1)] res show ?thesis by auto
next
  case stale
  with expire_stale_iff [OF ok, of t] res show ?thesis by simp
qed

text \<open>Clearing.\<close>

lemma rtlist_remove_head:
  assumes ok: "rt_ok w" and hd: "rtlist_head w = x # xs"
    and w': "w' = w\<lparr>rt_timers := (rt_timers w)(rtl_timer x := None),
      emf_handle := fst (emfc_rtport_del (emf_handle w) (rtl_ifp x)), rtlist_head := xs\<rparr>"
  shows "rt_ok w'" "rt_frame w w'" "stale_timers w' = stale_timers w"
    "rtport_cnt (emf_handle w') = (rtport_cnt (emf_handle w))(rtl_ifp x := rtport_cnt (emf_handle w) (rtl_ifp x) - 1)"
proof -
  have x: "x \<in> set (rtlist_head w)" by (simp add: hd)
  have f: "filter (\<lambda>y. rtl_addr y \<noteq> rtl_addr x) (rtlist_head w) = xs"
  proof -
    have "rtl_addr x \<notin> rtl_addr ` set xs" using rt_okD(1) [OF ok] by (simp add: hd)
    then have "rtl_addr y \<noteq> rtl_addr x" if "y \<in> set xs" for y using that by (metis image_eqI)
    then show ?thesis by (simp add: hd)
  qed
  have pos: "0 < rtport_cnt (emf_handle w) (rtl_ifp x)"
    using rt_okD(5) [OF ok, of "rtl_ifp x"] routers_on_pos [OF x] by simp
  note del = rtport_del_facts [OF rt_okD(3) [OF ok] pos]
  note rem = timers_wf_remove [OF rt_okD(6) [OF ok] x rt_okD(1) [OF ok], unfolded f]
  show cnt: "rtport_cnt (emf_handle w') = (rtport_cnt (emf_handle w))(rtl_ifp x := rtport_cnt (emf_handle w) (rtl_ifp x) - 1)"
    using del(3) by (simp add: w')
  have le: "routers_on xs j \<le> rtport_cnt (emf_handle w') j" for j
    using rt_okD(5) [OF ok, of j] unfolding cnt by (auto simp: hd routers_on_Cons split: if_splits)
  show "rt_ok w'" using ok rem(1) del(1,2) le by (simp add: rt_ok_def w' hd)
  show "rt_frame w w'" using rtport_same(2) by (simp add: rt_frame_def w')
  show "stale_timers w' = stale_timers w" using rem(2) by (simp add: stale_timers_def w')
qed

lemma rt_frame_trans: "rt_frame w w' \<Longrightarrow> rt_frame w' w'' \<Longrightarrow> rt_frame w w''"
  unfolding rt_frame_def using mfdb_same_trans le_trans by metis

lemma rtlist_clear_walk_law:
  assumes "rt_ok w"
  shows "\<exists>w'. rtlist_clear_walk True w (rtlist_head w) = Some w' \<and> rt_ok w' \<and> rt_frame w w' \<and> routers w' = {} \<and>
    stale_timers w' = stale_timers w \<and>
    rtport_cnt (emf_handle w') = (\<lambda>i. rtport_cnt (emf_handle w) i - routers_on (rtlist_head w) i)"
  using assms
proof (induction "rtlist_head w" arbitrary: w)
  case Nil
  from Nil.hyps [symmetric] Nil.prems show ?case by (simp add: routers_def routers_on_def rt_frame_def)
next
  case (Cons x xs)
  note hd = Cons.hyps(2) [symmetric]
  obtain y where y: "rt_timers w (rtl_timer x) = Some y" "timer_live (Some (rt_tm y))"
    using timers_wf_at [OF rt_okD(6) [OF Cons.prems], of x] by (auto simp: hd)
  define w1 where "w1 = w\<lparr>rt_timers := (rt_timers w)(rtl_timer x := None),
      emf_handle := fst (emfc_rtport_del (emf_handle w) (rtl_ifp x)), rtlist_head := xs\<rparr>"
  note w1 = rtlist_remove_head [OF Cons.prems hd w1_def]
  have hd1: "rtlist_head w1 = xs" by (simp add: w1_def)
  from Cons.hyps(1) [OF hd1 [symmetric] w1(1)] obtain w' where
    w': "rtlist_clear_walk True w1 xs = Some w'" "rt_ok w'" "rt_frame w1 w'" "routers w' = {}"
      "stale_timers w' = stale_timers w1"
      "rtport_cnt (emf_handle w') = (\<lambda>i. rtport_cnt (emf_handle w1) i - routers_on xs i)"
    unfolding hd1 by blast
  have "rtlist_clear_walk True w (x # xs) = Some w'"
    using y(1) w'(1) by (simp add: timer_live_del [OF y(2)] hd w1_def)
  moreover have "rtport_cnt (emf_handle w') = (\<lambda>i. rtport_cnt (emf_handle w) i - routers_on (x # xs) i)"
    unfolding w'(6) w1(4) by (auto simp: fun_eq_iff routers_on_Cons)
  ultimately show ?case using w'(2,4,5) rt_frame_trans [OF w1(2) w'(3)] w1(3) by (simp add: hd)
qed

lemma rtlist_clear_law:
  assumes ok: "rt_ok w" and stale: "stale_reads w"
  shows "\<exists>w'. igsc_rtlist_clear w = Some w' \<and> rt_ok w' \<and> rt_frame w w' \<and> routers w' = {} \<and>
    stale_timers w' = stale_timers w \<and>
    rtport_cnt (emf_handle w') = (\<lambda>i. rtport_cnt (emf_handle w) i - routers_on (rtlist_head w) i)"
  using rtlist_clear_walk_law [OF ok] stale by (simp add: igsc_rtlist_clear_def)

lemma rtlist_clear_freed:
  "\<not> stale_reads w \<Longrightarrow> rtlist_head w \<noteq> [] \<Longrightarrow> igsc_rtlist_clear w = None"
  by (cases "rtlist_head w") (auto simp: igsc_rtlist_clear_def Let_def split: option.split)

lemma rtlist_clear_empty: "rtlist_head w = [] \<Longrightarrow> igsc_rtlist_clear w = Some w"
  by (simp add: igsc_rtlist_clear_def)

text \<open>Deleting an interface.\<close>

lemma filter_image: "f ` {x \<in> S. P (fst (f x))} = {y \<in> f ` S. P (fst y)}"
  by blast

lemma rtport_del_walk_law:
  assumes "iflist_wf e" "routers_on es i \<le> rtport_cnt e i"
  shows "iflist_wf (rtport_del_walk e i es)" "osh (rtport_del_walk e i es) = osh e"
    "mfdb_same e (rtport_del_walk e i es)"
    "rtport_cnt (rtport_del_walk e i es) = (rtport_cnt e)(i := rtport_cnt e i - routers_on es i)"
proof -
  have "iflist_wf (rtport_del_walk e i es) \<and> osh (rtport_del_walk e i es) = osh e \<and>
    mfdb_same e (rtport_del_walk e i es) \<and>
    rtport_cnt (rtport_del_walk e i es) = (rtport_cnt e)(i := rtport_cnt e i - routers_on es i)"
    using assms
  proof (induction es arbitrary: e)
    case Nil
    then show ?case by (simp add: routers_on_def)
  next
    case (Cons x es)
    show ?case
    proof (cases "rtl_ifp x = i")
      case False
      then show ?thesis using Cons.IH [OF Cons.prems(1)] Cons.prems(2) by (simp add: routers_on_Cons)
    next
      case True
      have pos: "0 < rtport_cnt e i" using Cons.prems(2) True by (simp add: routers_on_Cons)
      note del = rtport_del_facts [OF Cons.prems(1) pos]
      have "routers_on es i \<le> rtport_cnt (fst (emfc_rtport_del e i)) i"
        using Cons.prems(2) True by (simp add: routers_on_Cons del(3))
      from Cons.IH [OF del(1) this] True show ?thesis
        using mfdb_same_trans [OF rtport_same(2) [of e i]] del(2,3)
        by (auto simp: routers_on_Cons fun_eq_iff)
    qed
  qed
  then show "iflist_wf (rtport_del_walk e i es)" "osh (rtport_del_walk e i es) = osh e"
    "mfdb_same e (rtport_del_walk e i es)"
    "rtport_cnt (rtport_del_walk e i es) = (rtport_cnt e)(i := rtport_cnt e i - routers_on es i)"
    by blast+
qed

lemma interface_rtport_del_law:
  assumes ok: "rt_ok w"
  shows "\<exists>w'. igsc_interface_rtport_del w i = (w', SUCCESS) \<and> rt_ok w' \<and> rt_frame w w' \<and>
    routers w' = {x \<in> routers w. fst x \<noteq> i} \<and>
    rtport_cnt (emf_handle w') =
      (rtport_cnt (emf_handle w))(i := rtport_cnt (emf_handle w) i - routers_on (rtlist_head w) i) \<and>
    stale_timers w' = stale_timers w \<union> rtl_timer ` {e \<in> set (rtlist_head w). rtl_ifp e = i}"
proof -
  define e' where "e' = rtport_del_walk (emf_handle w) i (rtlist_head w)"
  note walk = rtport_del_walk_law [OF rt_okD(3) [OF ok] rt_okD(5) [OF ok, of i], folded e'_def]
  define w' where "w' = w\<lparr>emf_handle := e', rtlist_head := filter (\<lambda>x. rtl_ifp x \<noteq> i) (rtlist_head w)\<rparr>"
  have on: "routers_on (filter (\<lambda>x. rtl_ifp x \<noteq> i) es) j = (if j = i then 0 else routers_on es j)" for es j
    by (induction es) (auto simp: routers_on_def)
  have le: "routers_on (filter (\<lambda>x. rtl_ifp x \<noteq> i) (rtlist_head w)) j \<le> rtport_cnt e' j" for j
    using rt_okD(5) [OF ok, of j] by (simp add: on walk(4))
  have "rt_ok w'" unfolding w'_def by (rule rt_ok_filter [OF ok walk(1,2) le])
  moreover have "routers w' = {x \<in> routers w. fst x \<noteq> i}"
    using filter_image [of "\<lambda>e. (rtl_ifp e, rtl_mr_ip e)" "set (rtlist_head w)" "\<lambda>j. j \<noteq> i"]
    by (simp add: routers_def w'_def)
  moreover have "stale_timers w' = stale_timers w \<union> rtl_timer ` {e \<in> set (rtlist_head w). rtl_ifp e = i}"
    using stale_of_filter_if [OF rt_okD(6) [OF ok] rt_okD(1) [OF ok], of "\<lambda>x. rtl_ifp x \<noteq> i"]
    by (simp add: stale_timers_def w'_def)
  moreover have "igsc_interface_rtport_del w i = (w', SUCCESS)"
    by (simp add: w'_def e'_def igsc_interface_rtport_del_def)
  moreover have "rt_frame w w'" using walk(3) by (simp add: rt_frame_def w'_def)
  moreover have "emf_handle w' = e'" by (simp add: w'_def)
  ultimately show ?thesis using walk(4) by blast
qed

lemma interface_rtport_timers: "igsc_interface_rtport_del w i = (w', r) \<Longrightarrow> rt_timers w' = rt_timers w"
  by (auto simp: igsc_interface_rtport_del_def)

lemma timer_live_pending: "timer_live (Some tm) \<Longrightarrow> t_pending tm"
  by (simp add: timer_live_def)

end
