(* ===== verification/Net_Bytes.thy ===== *)
theory Net_Bytes
  imports Router_Prelude
begin

text \<open>
  Packet memory: a pointer into a packet buffer is the list of bytes from there to the end of
  the buffer, a read past its end is \<open>None\<close>. Multi-byte fields are in network byte order, so
  that \<open>ntoh32(*(uint32 *)p)\<close> is the big-endian value at \<open>p\<close>.
\<close>

type_synonym bytes = "u8 list"

definition rd8 :: "bytes \<Rightarrow> nat \<Rightarrow> u8 option" where
  "rd8 b k = (if k < length b then Some (b ! k) else None)"

definition be16 :: "bytes \<Rightarrow> nat \<Rightarrow> u16 option" where
  "be16 b k = (case rd8 b k of None \<Rightarrow> None | Some x \<Rightarrow>
     (case rd8 b (k + 1) of None \<Rightarrow> None | Some y \<Rightarrow> Some (push_bit 8 (ucast x) OR ucast y)))"

definition be32 :: "bytes \<Rightarrow> nat \<Rightarrow> u32 option" where
  "be32 b k = (case be16 b k of None \<Rightarrow> None | Some x \<Rightarrow>
     (case be16 b (k + 2) of None \<Rightarrow> None | Some y \<Rightarrow> Some (push_bit 16 (ucast x) OR ucast y)))"

definition put16 :: "u16 \<Rightarrow> bytes" where
  "put16 w = [ucast (drop_bit 8 w), ucast w]"

definition put32 :: "u32 \<Rightarrow> bytes" where
  "put32 w = put16 (ucast (drop_bit 16 w)) @ put16 (ucast w)"

lemma length_put [simp]: "length (put16 w) = 2" "length (put32 v) = 4"
  by (simp_all add: put16_def put32_def)

lemma rd8_append [simp]:
  "k < length a \<Longrightarrow> rd8 (a @ b) k = rd8 a k" "rd8 (a @ b) (length a + k) = rd8 b k"
  by (simp_all add: rd8_def nth_append)

lemma rd8_Cons [simp]: "rd8 (x # b) 0 = Some x" "rd8 (x # b) (Suc k) = rd8 b k" "rd8 [] k = None"
  by (simp_all add: rd8_def)

lemma split16: "push_bit 8 (ucast (ucast (drop_bit 8 w) :: u8)) OR ucast (ucast w :: u8) = (w :: u16)"
proof (rule bit_word_eqI)
  fix n assume "n < LENGTH(16)"
  then show "bit (push_bit 8 (ucast (ucast (drop_bit 8 w) :: u8)) OR ucast (ucast w :: u8) :: u16) n = bit w n"
    by (cases "8 \<le> n") (auto simp: bit_simps)
qed

lemma split32: "push_bit 16 (ucast (ucast (drop_bit 16 w) :: u16)) OR ucast (ucast w :: u16) = (w :: u32)"
proof (rule bit_word_eqI)
  fix n assume "n < LENGTH(32)"
  then show "bit (push_bit 16 (ucast (ucast (drop_bit 16 w) :: u16)) OR ucast (ucast w :: u16) :: u32) n = bit w n"
    by (cases "16 \<le> n") (auto simp: bit_simps)
qed

text \<open>A field that was written is read back.\<close>

lemma be16_put16: "be16 (a @ put16 w @ b) (length a) = Some w"
proof -
  have "rd8 (a @ put16 w @ b) (length a) = Some (ucast (drop_bit 8 w))"
    "rd8 (a @ put16 w @ b) (length a + 1) = Some (ucast w)"
    by (simp_all add: rd8_def nth_append put16_def)
  then show ?thesis by (simp add: be16_def split16)
qed

lemma be32_put32: "be32 (a @ put32 w @ b) (length a) = Some w"
proof -
  have "be16 (a @ put16 (ucast (drop_bit 16 w)) @ (put16 (ucast w) @ b)) (length a) =
      Some (ucast (drop_bit 16 w))"
    by (rule be16_put16)
  moreover have "be16 ((a @ put16 (ucast (drop_bit 16 w))) @ put16 (ucast w) @ b)
      (length (a @ put16 (ucast (drop_bit 16 w)))) = Some (ucast w)"
    by (rule be16_put16)
  ultimately show ?thesis by (simp add: be32_def put32_def split32)
qed

lemma be_Cons:
  "be16 (x # b) (Suc k) = be16 b k" "be32 (x # b) (Suc k) = be32 b k"
  by (simp_all add: be16_def be32_def rd8_def)

end
