(* ===== verification/Igs_Input.thy ===== *)
theory Igs_Input
  imports Igs_Rtlist_Laws Net_Bytes
begin

text \<open>
  The input side of the IGMP snooper (igsc.c): parsing IGMP frames of versions 1 to 3 into
  operations on the snooping database and the router list, building the membership query,
  and the callbacks of the forwarding layer. The packet is given by the bytes from the IP
  header (\<open>iph\<close>) and from the IGMP header (\<open>igmph\<close>) to the end of the buffer; a read past the
  end is \<open>None\<close>.
\<close>

section \<open>Codes\<close>

definition EMF_DROP :: int where "EMF_DROP = 0"
definition EMF_FORWARD :: int where "EMF_FORWARD = 1"
definition EMF_NOP :: int where "EMF_NOP = 1"
definition EMF_TAKEN :: int where "EMF_TAKEN = 2"
definition EMF_FLOOD :: int where "EMF_FLOOD = 10"
definition EMF_SENDUP :: int where "EMF_SENDUP = 11"

definition IPV4_MCADDR_ALLHOSTS :: u32 where "IPV4_MCADDR_ALLHOSTS = 0xe0000001"
definition IPV4_MCADDR_ALLIGMPV3 :: u32 where "IPV4_MCADDR_ALLIGMPV3 = 0xe0000016"

definition IGMPV2_HOST_MEMBERSHIP_QUERY :: u8 where "IGMPV2_HOST_MEMBERSHIP_QUERY = 0x11"
definition IGMPV2_HOST_MEMBERSHIP_REPORT :: u8 where "IGMPV2_HOST_MEMBERSHIP_REPORT = 0x12"
definition IGMPV2_HOST_NEW_MEMBERSHIP_REPORT :: u8 where "IGMPV2_HOST_NEW_MEMBERSHIP_REPORT = 0x16"
definition IGMPV2_LEAVE_GROUP_MESSAGE :: u8 where "IGMPV2_LEAVE_GROUP_MESSAGE = 0x17"
definition IGMPV3_HOST_MEMBERSHIP_REPORT :: u8 where "IGMPV3_HOST_MEMBERSHIP_REPORT = 0x22"

definition IGMPV3_MODE_IS_INCLUDE :: u8 where "IGMPV3_MODE_IS_INCLUDE = 1"
definition IGMPV3_MODE_IS_EXCLUDE :: u8 where "IGMPV3_MODE_IS_EXCLUDE = 2"
definition IGMPV3_CHANGE_TO_INCLUDE :: u8 where "IGMPV3_CHANGE_TO_INCLUDE = 3"
definition IGMPV3_CHANGE_TO_EXCLUDE :: u8 where "IGMPV3_CHANGE_TO_EXCLUDE = 4"
definition IGMPV3_ALLOW_NEW_SOURCES :: u8 where "IGMPV3_ALLOW_NEW_SOURCES = 5"
definition IGMPV3_BLOCK_OLD_SOURCES :: u8 where "IGMPV3_BLOCK_OLD_SOURCES = 6"

lemmas igmp_codes = IGMPV2_HOST_MEMBERSHIP_QUERY_def IGMPV2_HOST_MEMBERSHIP_REPORT_def
  IGMPV2_HOST_NEW_MEMBERSHIP_REPORT_def IGMPV2_LEAVE_GROUP_MESSAGE_def
  IGMPV3_HOST_MEMBERSHIP_REPORT_def
lemmas igmpv3_codes = IGMPV3_MODE_IS_INCLUDE_def IGMPV3_MODE_IS_EXCLUDE_def
  IGMPV3_CHANGE_TO_INCLUDE_def IGMPV3_CHANGE_TO_EXCLUDE_def IGMPV3_ALLOW_NEW_SOURCES_def
  IGMPV3_BLOCK_OLD_SOURCES_def
lemmas emf_codes = EMF_DROP_def EMF_FORWARD_def EMF_NOP_def EMF_TAKEN_def EMF_FLOOD_def EMF_SENDUP_def

section \<open>Reserved groups\<close>

definition mc_addr_rsvd :: "(u32 \<times> u32) list" where
  "mc_addr_rsvd = [(0xe0000001, 0xffffffff), (0xe0000002, 0xffffffff), (0xe0000004, 0xffffffff),
     (0xe0000005, 0xffffffff), (0xe0000006, 0xffffffff), (0xe0000009, 0xffffffff),
     (0xe000000d, 0xffffffff), (0xe0000016, 0xffffffff), (0xe00000fb, 0xffffffff),
     (0xe00000fc, 0xffffffff), (0xe000ff87, 0xffffffff), (0xeffffffa, 0xffffffff)]"

definition igsc_is_reserved :: "u32 \<Rightarrow> bool" where
  "igsc_is_reserved a = list_ex (\<lambda>(r, m). a AND m = r AND m) mc_addr_rsvd"

section \<open>Joins and leaves\<close>

definition igsc_update_join_member :: "igsc_info \<Rightarrow> ifp \<Rightarrow> u32 \<Rightarrow> u32 \<Rightarrow> (igsc_info \<times> int) option" where
  "igsc_update_join_member w i g h =
     (case igsc_sdb_member_add w i IPV4_MCADDR_ALLHOSTS h of None \<Rightarrow> None
      | Some (w1, r) \<Rightarrow>
          if r = SUCCESS then
            (case igsc_sdb_member_add w1 i g h of None \<Rightarrow> None
             | Some (w2, r2) \<Rightarrow> Some (w2, if r2 = SUCCESS then EMF_FORWARD else EMF_FLOOD))
          else Some (w1, EMF_FLOOD))"

definition igsc_update_leave_member :: "igsc_info \<Rightarrow> ifp \<Rightarrow> u32 \<Rightarrow> u32 \<Rightarrow> (igsc_info \<times> int) option" where
  "igsc_update_leave_member w i g h =
     (case igsc_sdb_member_del w i g h of None \<Rightarrow> None
      | Some (w1, r) \<Rightarrow> Some (w1, if r = SUCCESS then EMF_FORWARD else EMF_FLOOD))"

text \<open>One group record of an IGMPv3 report; the result of the update is not used.\<close>

definition igmpv3_group :: "igsc_info \<Rightarrow> ifp \<Rightarrow> u32 \<Rightarrow> u8 \<Rightarrow> u16 \<Rightarrow> u32 \<Rightarrow> igsc_info option" where
  "igmpv3_group w i h type src_num g =
     (if \<not> IP_ISMULTI g then Some w
      else if (type = IGMPV3_MODE_IS_INCLUDE \<or> type = IGMPV3_CHANGE_TO_INCLUDE) \<and> src_num = 0 then
        map_option fst (igsc_update_leave_member w i g h)
      else if type = IGMPV3_MODE_IS_INCLUDE \<or> type = IGMPV3_CHANGE_TO_INCLUDE \<or>
          type = IGMPV3_MODE_IS_EXCLUDE \<or> type = IGMPV3_CHANGE_TO_EXCLUDE \<or>
          type = IGMPV3_ALLOW_NEW_SOURCES \<or> type = IGMPV3_BLOCK_OLD_SOURCES then
        map_option fst (igsc_update_join_member w i g h)
      else Some w)"

text \<open>
  The loop over the group records; \<open>p\<close> is the memory from the record pointer on. The step to
  the next record is a \<open>uint16\<close>.
\<close>

definition igmpv3_offset :: "u16 \<Rightarrow> u8 \<Rightarrow> u16" where
  "igmpv3_offset src_num aux_len = 8 + src_num * 4 + ucast aux_len * 4"

fun igmpv3_groups :: "nat \<Rightarrow> igsc_info \<Rightarrow> ifp \<Rightarrow> u32 \<Rightarrow> bytes \<Rightarrow> igsc_info option" where
  "igmpv3_groups 0 w i h p = Some w"
| "igmpv3_groups (Suc n) w i h p =
     (case (be16 p 2, be32 p 4, rd8 p 0, rd8 p 1) of
        (Some src_num, Some g, Some type, Some aux_len) \<Rightarrow>
          (case igmpv3_group w i h type src_num g of None \<Rightarrow> None
           | Some w' \<Rightarrow> igmpv3_groups n w' i h (drop (unat (igmpv3_offset src_num aux_len)) p))
      | _ \<Rightarrow> None)"

section \<open>Input\<close>

definition igsc_stat :: "(igs_stats \<Rightarrow> igs_stats) \<Rightarrow> igsc_info \<Rightarrow> igsc_info" where
  "igsc_stat f w = w\<lparr>sstats := f (sstats w)\<rparr>"

abbreviation "cnt_packets \<equiv> igsc_stat (\<lambda>s. s\<lparr>igmp_packets := igmp_packets s + 1\<rparr>)"
abbreviation "cnt_queries \<equiv> igsc_stat (\<lambda>s. s\<lparr>igmp_queries := igmp_queries s + 1\<rparr>)"
abbreviation "cnt_reports \<equiv> igsc_stat (\<lambda>s. s\<lparr>igmp_reports := igmp_reports s + 1\<rparr>)"
abbreviation "cnt_v2reports \<equiv> igsc_stat (\<lambda>s. s\<lparr>igmp_v2reports := igmp_v2reports s + 1\<rparr>)"
abbreviation "cnt_v3reports \<equiv> igsc_stat (\<lambda>s. s\<lparr>igmp_v3reports := igmp_v3reports s + 1\<rparr>)"
abbreviation "cnt_leaves \<equiv> igsc_stat (\<lambda>s. s\<lparr>igmp_leaves := igmp_leaves s + 1\<rparr>)"
abbreviation "cnt_not_handled \<equiv> igsc_stat (\<lambda>s. s\<lparr>igmp_not_handled := igmp_not_handled s + 1\<rparr>)"

text \<open>The switch on the IGMP type.\<close>

definition igsc_dispatch ::
    "igsc_info \<Rightarrow> ifp \<Rightarrow> bytes \<Rightarrow> u8 \<Rightarrow> u32 \<Rightarrow> u32 \<Rightarrow> u32 \<Rightarrow> (igsc_info \<times> int) option" where
  "igsc_dispatch w i igmph type gip mh_ip dest_ip =
     (if type = IGMPV2_HOST_NEW_MEMBERSHIP_REPORT then
        (if igsc_is_reserved dest_ip then Some (cnt_not_handled w, EMF_FLOOD)
         else igsc_update_join_member (cnt_v2reports w) i gip mh_ip)
      else if type = IGMPV2_LEAVE_GROUP_MESSAGE then
        map_option (\<lambda>(w', r). (w', EMF_FLOOD)) (igsc_update_leave_member (cnt_leaves w) i gip mh_ip)
      else if type = IGMPV2_HOST_MEMBERSHIP_REPORT then Some (cnt_reports w, EMF_FLOOD)
      else if type = IGMPV2_HOST_MEMBERSHIP_QUERY then
        (if mh_ip \<noteq> 0 then
           map_option (\<lambda>(w', r). (w', EMF_FLOOD)) (igsc_rtlist_add (cnt_queries w) i mh_ip)
         else Some (cnt_queries w, EMF_FLOOD))
      else if type = IGMPV3_HOST_MEMBERSHIP_REPORT then
        (if dest_ip \<noteq> IPV4_MCADDR_ALLIGMPV3 then Some (cnt_not_handled w, EMF_FLOOD)
         else (case be16 igmph 6 of None \<Rightarrow> None
           | Some grp_num \<Rightarrow> map_option (\<lambda>w'. (w', EMF_FLOOD))
               (igmpv3_groups (unat grp_num) (cnt_v3reports w) i mh_ip (drop 8 igmph))))
      else Some (cnt_not_handled w, EMF_FLOOD))"

definition igsc_input :: "igsc_info \<Rightarrow> ifp \<Rightarrow> bytes \<Rightarrow> bytes \<Rightarrow> bool \<Rightarrow> (igsc_info \<times> int) option" where
  "igsc_input w i iph igmph from_rp =
     (let w1 = cnt_packets w in
      if from_rp then Some (cnt_not_handled w1, EMF_FLOOD)
      else
        (case (be32 igmph 4, be32 iph 12, be32 iph 16, rd8 igmph 0) of
           (Some gip, Some mh_ip, Some dest_ip, Some type) \<Rightarrow>
             igsc_dispatch w1 i igmph type gip mh_ip dest_ip
         | _ \<Rightarrow> None))"

section \<open>The membership query\<close>

text \<open>
  The Internet checksum: sixteen-bit big-endian words are added into a \<open>uint32\<close>, an odd last
  byte counts as the high byte of a word, and the carries are folded in. The code returns
  \<open>hton16(~sum)\<close>, so that storing the result writes the big-endian bytes of the value here.
\<close>

fun cksum_sum :: "bytes \<Rightarrow> u32 \<Rightarrow> u32" where
  "cksum_sum (a # b # l) s = cksum_sum l (s + ucast ((push_bit 8 (ucast a) :: u16) OR ucast b))"
| "cksum_sum [a] s = s + push_bit 8 (ucast a)"
| "cksum_sum [] s = s"

function cksum_fold :: "u32 \<Rightarrow> u32" where
  "cksum_fold s = (if drop_bit 16 s = 0 then s else cksum_fold ((s AND 0xffff) + drop_bit 16 s))"
  by auto

lemma cksum_step:
  fixes s :: u32
  assumes "drop_bit 16 s \<noteq> 0"
  shows "unat ((s AND 0xffff) + drop_bit 16 s) = unat s mod 65536 + unat s div 65536"
    "unat s mod 65536 + unat s div 65536 < unat s"
proof -
  have m: "unat (s AND 0xffff) = unat s mod 65536"
  proof -
    have "s AND 0xffff = take_bit 16 s" by (simp add: take_bit_eq_mask mask_eq_exp_minus_1)
    then show ?thesis by (simp add: unsigned_take_bit_eq) (simp add: take_bit_eq_mod)
  qed
  have d: "unat (drop_bit 16 s) = unat s div 65536"
    by (rule trans [OF unat_drop_bit_eq]) (simp add: drop_bit_eq_div)
  have b: "unat s < 2 ^ 32" by (rule less_le_trans [OF unsigned_less]) simp
  then show "unat ((s AND 0xffff) + drop_bit 16 s) = unat s mod 65536 + unat s div 65536"
    by (simp add: unat_word_ariths m d)
  have "unat s div 65536 \<noteq> 0" using assms d by (metis unat_eq_0)
  moreover have "unat s = 65536 * (unat s div 65536) + unat s mod 65536" by simp
  ultimately show "unat s mod 65536 + unat s div 65536 < unat s" by linarith
qed

termination cksum_fold
  by (relation "measure unat") (auto simp: cksum_step)

declare cksum_fold.simps [simp del]

definition inet_cksum :: "bytes \<Rightarrow> u16" where
  "inet_cksum b = NOT (ucast (cksum_fold (cksum_sum b 0)))"

definition IPV4_MIN_HLEN :: nat where "IPV4_MIN_HLEN = 20"
definition IGMP_HLEN :: nat where "IGMP_HLEN = 8"

text \<open>The IP header, with the given bytes in its checksum field, and the IGMP header.\<close>

definition ip_header :: "u32 \<Rightarrow> u32 \<Rightarrow> bytes \<Rightarrow> bytes" where
  "ip_header src dest ck =
     [0x45, 0xc0] @ put16 (of_nat (IPV4_MIN_HLEN + IGMP_HLEN)) @ put16 0 @ put16 0 @ [1, IP_PROT_IGMP]
     @ ck @ put32 src @ put32 dest"

definition igmp_header :: "u8 \<Rightarrow> u8 \<Rightarrow> bytes \<Rightarrow> u32 \<Rightarrow> bytes" where
  "igmp_header type max_rsp ck grp = [type, max_rsp] @ ck @ put32 grp"

text \<open>The addresses are the values whose network-order words the code is given.\<close>

definition igsc_igmp_pkt_encap :: "u32 \<Rightarrow> u32 \<Rightarrow> u8 \<Rightarrow> u8 \<Rightarrow> u32 \<Rightarrow> bytes" where
  "igsc_igmp_pkt_encap src dest type max_rsp grp =
     (let ip = ip_header src dest (put16 (inet_cksum (ip_header src dest (put16 0))));
          igmp0 = igmp_header type max_rsp (put16 0) grp
      in ip @ igmp_header type max_rsp (put16 (inet_cksum (ip @ igmp0))) grp)"

definition igsc_igmp_query_send :: "igsc_info \<Rightarrow> igsc_info \<times> int" where
  "igsc_igmp_query_send w =
     (w\<lparr>igs_tx := igs_tx w @ [igsc_igmp_pkt_encap 0 IPV4_MCADDR_ALLHOSTS
          IGMPV2_HOST_MEMBERSHIP_QUERY (ucast (IGMPV2_MAXRSP_TIME div 100)) 0]\<rparr>,
      if igs_bcast_ok w then SUCCESS else FAILURE)"

section \<open>Callbacks of the forwarding layer\<close>

definition igsc_emf_enabled :: "igsc_info \<Rightarrow> igsc_info \<times> int" where
  "igsc_emf_enabled w =
     (let (w', r) = igsc_igmp_query_send w in (w', if r \<noteq> SUCCESS then FAILURE else SUCCESS))"

definition igsc_emf_disabled :: "igsc_info \<Rightarrow> (igsc_info \<times> int) option" where
  "igsc_emf_disabled w =
     (case igsc_sdb_clear w of None \<Rightarrow> None
      | Some w1 \<Rightarrow> map_option (\<lambda>w2. (w2, SUCCESS)) (igsc_rtlist_clear w1))"

end
