(* ===== verification/Igs_Input_Laws.thy ===== *)
theory Igs_Input_Laws
  imports Igs_Input
begin

text \<open>
  The snooper as a whole: what IGMP frames do to the abstract content, a set of hosts per
  group and a set of routers (\<open>join_spec\<close>, \<open>group_spec\<close>), the parsing of encoded IGMPv3
  reports, and the checksums of the query the snooper sends.
\<close>

section \<open>The invariant of the snooper\<close>

definition igs_inv :: "(u32 \<Rightarrow> ifp \<Rightarrow> nat) \<Rightarrow> igsc_info \<Rightarrow> bool" where
  "igs_inv st w \<longleftrightarrow> sdb_inv st w \<and> rt_ok w"

lemma igs_frame_rt:
  assumes "igs_frame w w'"
  shows "rt_ok w \<Longrightarrow> rt_ok w'" "routers w' = routers w"
    "rtport_cnt (emf_handle w') = rtport_cnt (emf_handle w)" "stale_timers w' = stale_timers w"
proof -
  have f: "rtlist_head w' = rtlist_head w" "rt_timers w' = rt_timers w"
      "mem_seq (igs_osh w) \<le> mem_seq (igs_osh w')" "iflist_head (emf_handle w') = iflist_head (emf_handle w)"
      "mem_ok (osh (emf_handle w')) = mem_ok (osh (emf_handle w))"
    using assms by (simp_all add: igs_frame_def mfdb_frame_def)
  show "routers w' = routers w" "stale_timers w' = stale_timers w" by (simp_all add: routers_def stale_timers_def f)
  show cnt: "rtport_cnt (emf_handle w') = rtport_cnt (emf_handle w)"
    by (simp add: rtport_cnt_def emfc_iflist_find_def f fun_eq_iff)
  assume ok: "rt_ok w"
  have "iflist_wf (emf_handle w')" using rt_okD(3) [OF ok] by (simp add: iflist_wf_def f)
  moreover have "mem_reliable (osh (emf_handle w'))"
    using rt_okD(4) [OF ok] by (simp add: mem_reliable_def f)
  moreover have "timers_wf (rt_timers w') (rtlist_head w') (mem_seq (igs_osh w'))"
    unfolding f(1,2) by (rule timers_wf_mono [OF rt_okD(6) [OF ok] f(3)])
  moreover have "\<forall>e\<in>set (rtlist_head w'). 0 < rtl_addr e \<and> rtl_addr e \<le> mem_seq (igs_osh w') \<and> rtl_ifp e \<noteq> 0"
    using ok f(3) unfolding rt_ok_def f(1) by (blast intro: le_trans)
  ultimately show "rt_ok w'"
    using ok unfolding rt_ok_def cnt f(1) by blast
qed

lemma igs_frame_inv: "igs_inv st w \<Longrightarrow> igs_frame w w' \<Longrightarrow> sdb_inv st w' \<Longrightarrow> igs_inv st w'"
  using igs_frame_rt(1) by (simp add: igs_inv_def)

lemma rt_frame_igs_inv: "igs_inv st w \<Longrightarrow> rt_frame w w' \<Longrightarrow> rt_ok w' \<Longrightarrow> igs_inv st w'"
  using rt_frame_inv(1) by (simp add: igs_inv_def)

lemma igs_frame_reliable: "igs_frame w w' \<Longrightarrow> mem_reliable (igs_osh w') = mem_reliable (igs_osh w)"
  by (simp add: igs_frame_def mem_reliable_def)

lemma igsc_stat_simps [simp]:
  "igs_inv st (igsc_stat f w) = igs_inv st w" "sdb_hosts (igsc_stat f w) = sdb_hosts w"
  "routers (igsc_stat f w) = routers w" "igs_frame (igsc_stat f w) w' = igs_frame w w'"
  "igs_frame w' (igsc_stat f w) = igs_frame w' w" "igs_osh (igsc_stat f w) = igs_osh w"
  "emf_handle (igsc_stat f w) = emf_handle w" "stale_timers (igsc_stat f w) = stale_timers w"
proof -
  show "igs_inv st (igsc_stat f w) = igs_inv st w"
    by (simp add: igs_inv_def sdb_inv_def sdb_okE_def sdb_sync_def sdb_timers_def sdb_ifaces_def
        rt_ok_def igsc_stat_def)
  show "sdb_hosts (igsc_stat f w) = sdb_hosts w" by (simp add: sdb_hosts_def igsc_stat_def fun_eq_iff)
qed (simp_all add: routers_def stale_timers_def igsc_stat_def igs_frame_def)

section \<open>Joins and leaves\<close>

type_synonym members = "u32 \<Rightarrow> (u32 \<times> ifp) set"

definition join1 :: "members \<Rightarrow> ifp \<Rightarrow> u32 \<Rightarrow> u32 \<Rightarrow> members" where
  "join1 H i g h = H(g := insert (h, i) (H g))"

definition leave1 :: "members \<Rightarrow> ifp \<Rightarrow> u32 \<Rightarrow> u32 \<Rightarrow> members" where
  "leave1 H i g h = H(g := H g - {(h, i)})"

text \<open>A host that joins a group is put into the all-hosts group too.\<close>

definition join_spec :: "members \<Rightarrow> ifp \<Rightarrow> u32 \<Rightarrow> u32 \<Rightarrow> members" where
  "join_spec H i g h = join1 (join1 H i IPV4_MCADDR_ALLHOSTS h) i g h"

lemma allhosts_nonzero: "IPV4_MCADDR_ALLHOSTS \<noteq> 0"
  by (simp add: IPV4_MCADDR_ALLHOSTS_def)

lemma update_join_law:
  assumes inv: "igs_inv st w" and g: "g \<noteq> 0"
  shows "\<exists>w' r. igsc_update_join_member w i g h = Some (w', r) \<and> igs_inv st w' \<and> igs_frame w w' \<and>
    (r = EMF_FORWARD \<and> sdb_hosts w' = join_spec (sdb_hosts w) i g h \<or>
     r = EMF_FLOOD \<and> \<not> mem_reliable (igs_osh w) \<and>
       (sdb_hosts w' = sdb_hosts w \<or> sdb_hosts w' = join1 (sdb_hosts w) i IPV4_MCADDR_ALLHOSTS h))"
proof -
  have sinv: "sdb_inv st w" using inv by (simp add: igs_inv_def)
  from member_add_law [OF sinv allhosts_nonzero, of i h] obtain w1 r1 where
    w1: "igsc_sdb_member_add w i IPV4_MCADDR_ALLHOSTS h = Some (w1, r1)" "sdb_inv st w1" "igs_frame w w1"
      "r1 = SUCCESS \<and> sdb_hosts w1 = join1 (sdb_hosts w) i IPV4_MCADDR_ALLHOSTS h \<or>
       r1 = FAILURE \<and> sdb_hosts w1 = sdb_hosts w \<and> \<not> mem_reliable (igs_osh w)"
    unfolding join1_def by blast
  note inv1 = igs_frame_inv [OF inv w1(3,2)]
  show ?thesis
  proof (cases "r1 = SUCCESS")
    case False
    then show ?thesis using w1 inv1 by (auto simp: igsc_update_join_member_def)
  next
    case True
    from member_add_law [OF w1(2) g, of i h] obtain w2 r2 where
      w2: "igsc_sdb_member_add w1 i g h = Some (w2, r2)" "sdb_inv st w2" "igs_frame w1 w2"
        "r2 = SUCCESS \<and> sdb_hosts w2 = join1 (sdb_hosts w1) i g h \<or>
         r2 = FAILURE \<and> sdb_hosts w2 = sdb_hosts w1 \<and> \<not> mem_reliable (igs_osh w1)"
      unfolding join1_def by blast
    have "igsc_update_join_member w i g h = Some (w2, if r2 = SUCCESS then EMF_FORWARD else EMF_FLOOD)"
      using w1(1) w2(1) True by (simp add: igsc_update_join_member_def)
    moreover have "sdb_hosts w1 = join1 (sdb_hosts w) i IPV4_MCADDR_ALLHOSTS h" using w1(4) True by auto
    ultimately show ?thesis
      using igs_frame_inv [OF inv1 w2(3,2)] igs_frame_trans [OF w1(3) w2(3)] w2(4)
        igs_frame_reliable [OF w1(3)]
      by (auto simp: join_spec_def)
  qed
qed

lemma update_leave_law:
  assumes inv: "igs_inv st w"
  shows "\<exists>w'. igsc_update_leave_member w i g h =
      Some (w', if (h, i) \<in> sdb_hosts w g then EMF_FORWARD else EMF_FLOOD) \<and>
    igs_inv st w' \<and> igs_frame w w' \<and> sdb_hosts w' = leave1 (sdb_hosts w) i g h"
proof -
  have sinv: "sdb_inv st w" using inv by (simp add: igs_inv_def)
  from member_del_law [OF sinv, of i g h] obtain w' r where
    w': "igsc_sdb_member_del w i g h = Some (w', r)" "sdb_inv st w'" "igs_frame w w'"
      "r = (if (h, i) \<in> sdb_hosts w g then SUCCESS else FAILURE)"
      "sdb_hosts w' = leave1 (sdb_hosts w) i g h"
    unfolding leave1_def by blast
  with igs_frame_inv [OF inv w'(3,2)] show ?thesis by (auto simp: igsc_update_leave_member_def)
qed

section \<open>IGMPv3 reports\<close>

text \<open>A group record, and its encoding; the auxiliary data is a number of 32-bit words.\<close>

record v3rec =
  v3_type :: u8
  v3_grp :: u32
  v3_srcs :: "u32 list"
  v3_aux :: "u32 list"

definition enc_rec :: "v3rec \<Rightarrow> bytes" where
  "enc_rec r = [v3_type r, of_nat (length (v3_aux r))] @ put16 (of_nat (length (v3_srcs r)))
     @ put32 (v3_grp r) @ concat (map put32 (v3_srcs r)) @ concat (map put32 (v3_aux r))"

definition rec_ok :: "v3rec \<Rightarrow> bool" where
  "rec_ok r \<longleftrightarrow> length (v3_aux r) < 256 \<and> 8 + 4 * length (v3_srcs r) + 4 * length (v3_aux r) < 65536"

definition enc_report :: "u16 \<Rightarrow> v3rec list \<Rightarrow> bytes" where
  "enc_report ck rs = [IGMPV3_HOST_MEMBERSHIP_REPORT, 0] @ put16 ck @ put16 0 @
     put16 (of_nat (length rs)) @ concat (map enc_rec rs)"

text \<open>The records applied one after the other.\<close>

fun apply_recs :: "igsc_info \<Rightarrow> ifp \<Rightarrow> u32 \<Rightarrow> v3rec list \<Rightarrow> igsc_info option" where
  "apply_recs w i h [] = Some w"
| "apply_recs w i h (r # rs) =
     (case igmpv3_group w i h (v3_type r) (of_nat (length (v3_srcs r))) (v3_grp r) of
        None \<Rightarrow> None | Some w' \<Rightarrow> apply_recs w' i h rs)"

lemma length_concat_put32 [simp]: "length (concat (map put32 xs)) = 4 * length xs"
  by (induction xs) simp_all

lemma length_enc_rec: "length (enc_rec r) = 8 + 4 * length (v3_srcs r) + 4 * length (v3_aux r)"
  by (simp add: enc_rec_def)

lemma enc_rec_fields:
  "rd8 (enc_rec r @ q) 0 = Some (v3_type r)"
  "rd8 (enc_rec r @ q) 1 = Some (of_nat (length (v3_aux r)))"
  "be16 (enc_rec r @ q) 2 = Some (of_nat (length (v3_srcs r)))"
  "be32 (enc_rec r @ q) 4 = Some (v3_grp r)"
proof -
  show "rd8 (enc_rec r @ q) 0 = Some (v3_type r)"
    "rd8 (enc_rec r @ q) 1 = Some (of_nat (length (v3_aux r)))"
    by (simp_all add: enc_rec_def)
  show "be16 (enc_rec r @ q) 2 = Some (of_nat (length (v3_srcs r)))"
    using be16_put16 [of "[v3_type r, of_nat (length (v3_aux r))]"]
    by (simp add: enc_rec_def numeral_2_eq_2)
  show "be32 (enc_rec r @ q) 4 = Some (v3_grp r)"
    using be32_put32 [of "[v3_type r, of_nat (length (v3_aux r))] @ put16 (of_nat (length (v3_srcs r)))"]
    by (simp add: enc_rec_def)
qed

text \<open>The step is the length of the record, when that fits into 16 bits.\<close>

lemma offset_enc_rec:
  assumes "rec_ok r"
  shows "unat (igmpv3_offset (of_nat (length (v3_srcs r))) (of_nat (length (v3_aux r)))) =
    length (enc_rec r)"
proof -
  have eq: "igmpv3_offset (of_nat n) (of_nat k) = of_nat (8 + 4 * n + 4 * k)" if "k < 256" for n k
  proof -
    have "unat (ucast (of_nat k :: u8) :: u16) = unat (of_nat k :: u16)"
      using that by (simp add: unsigned_ucast_eq unsigned_of_nat take_bit_nat_eq_self)
    then have "ucast (of_nat k :: u8) = (of_nat k :: u16)" by (rule unsigned_word_eqI)
    then show ?thesis by (simp add: igmpv3_offset_def algebra_simps)
  qed
  then show ?thesis
    using assms by (simp add: rec_ok_def length_enc_rec unat_of_nat take_bit_nat_eq_self
        del: of_nat_add of_nat_mult)
qed

text \<open>Parsing inverts encoding: the loop applies exactly the encoded records.\<close>

lemma groups_enc:
  "\<forall>r\<in>set rs. rec_ok r \<Longrightarrow>
   igmpv3_groups (length rs) w i h (concat (map enc_rec rs) @ q) = apply_recs w i h rs"
proof (induction rs arbitrary: w)
  case Nil
  then show ?case by simp
next
  case (Cons r rs)
  then have "drop (unat (igmpv3_offset (of_nat (length (v3_srcs r))) (of_nat (length (v3_aux r)))))
      (enc_rec r @ concat (map enc_rec rs) @ q) = concat (map enc_rec rs) @ q"
    by (simp add: offset_enc_rec)
  with Cons enc_rec_fields [of r "concat (map enc_rec rs) @ q"] show ?case
    by (simp split: option.split)
qed

text \<open>What a record does to the membership.\<close>

definition group_spec :: "ifp \<Rightarrow> u32 \<Rightarrow> v3rec \<Rightarrow> members \<Rightarrow> members" where
  "group_spec i h r H =
     (if \<not> IP_ISMULTI (v3_grp r) \<or> v3_type r = 0 \<or> 6 < v3_type r then H
      else if v3_type r \<in> {1, 3} \<and> v3_srcs r = [] then leave1 H i (v3_grp r) h
      else join_spec H i (v3_grp r) h)"

lemma v3_type_cases: "(t :: u8) \<noteq> 0 \<Longrightarrow> \<not> 6 < t \<Longrightarrow> t \<in> {1, 2, 3, 4, 5, 6}"
proof -
  assume "t \<noteq> 0" "\<not> 6 < t"
  then have "unat t \<noteq> 0" "unat t \<le> 6" by (simp_all add: unat_eq_0 word_le_nat_alt not_less)
  then have "unat t \<in> {1, 2, 3, 4, 5, 6}" by auto
  then have "of_nat (unat t) \<in> (of_nat :: nat \<Rightarrow> u8) ` {1, 2, 3, 4, 5, 6}" by (rule imageI)
  then show ?thesis by simp
qed

text \<open>
  A record is applied without a crash, whatever allocations fail; when none fails it does
  what \<open>group_spec\<close> says.
\<close>

lemma of_nat_srcs: "length xs < 65536 \<Longrightarrow> (of_nat (length xs) :: u16) = 0 \<longleftrightarrow> xs = []"
proof -
  assume "length xs < 65536"
  then have "unat (of_nat (length xs) :: u16) = length xs" by (simp add: unat_of_nat take_bit_nat_eq_self)
  then show ?thesis by (metis unat_eq_0 length_0_conv)
qed

lemma v3group_law:
  assumes inv: "igs_inv st w" and r: "rec_ok r"
  shows "\<exists>w'. igmpv3_group w i h (v3_type r) (of_nat (length (v3_srcs r))) (v3_grp r) = Some w' \<and>
    igs_inv st w' \<and> igs_frame w w' \<and>
    (mem_reliable (igs_osh w) \<longrightarrow> sdb_hosts w' = group_spec i h r (sdb_hosts w))"
proof -
  let ?g = "v3_grp r" and ?t = "v3_type r" and ?n = "of_nat (length (v3_srcs r)) :: u16"
  have n0: "?n = 0 \<longleftrightarrow> v3_srcs r = []" using r by (intro of_nat_srcs) (simp add: rec_ok_def)
  show ?thesis
  proof (cases "IP_ISMULTI ?g \<and> ?t \<noteq> 0 \<and> \<not> 6 < ?t")
    case False
    then have "igmpv3_group w i h ?t ?n ?g = Some w"
      by (auto simp: igmpv3_group_def igmpv3_codes)
    with False inv show ?thesis by (auto simp: group_spec_def)
  next
    case True
    then have t: "?t \<in> {1, 2, 3, 4, 5, 6}" and g: "?g \<noteq> 0"
      using v3_type_cases multi_nonzero by blast+
    show ?thesis
    proof (cases "?t \<in> {1, 3} \<and> v3_srcs r = []")
      case leave: True
      from update_leave_law [OF inv, of i ?g h] obtain w' where
        w': "igsc_update_leave_member w i ?g h =
            Some (w', if (h, i) \<in> sdb_hosts w ?g then EMF_FORWARD else EMF_FLOOD)"
          "igs_inv st w'" "igs_frame w w'" "sdb_hosts w' = leave1 (sdb_hosts w) i ?g h" by blast
      have "igmpv3_group w i h ?t ?n ?g = Some w'"
        using True leave n0 w'(1) by (auto simp: igmpv3_group_def igmpv3_codes)
      moreover have "group_spec i h r (sdb_hosts w) = leave1 (sdb_hosts w) i ?g h"
        using True leave by (simp add: group_spec_def)
      ultimately show ?thesis using w' by auto
    next
      case join: False
      from update_join_law [OF inv g, of i h] obtain w' x where
        w': "igsc_update_join_member w i ?g h = Some (w', x)" "igs_inv st w'" "igs_frame w w'"
          "mem_reliable (igs_osh w) \<longrightarrow> sdb_hosts w' = join_spec (sdb_hosts w) i ?g h" by blast
      have "igmpv3_group w i h ?t ?n ?g = Some w'"
        using True t join n0 w'(1) by (auto simp: igmpv3_group_def igmpv3_codes)
      moreover have "group_spec i h r (sdb_hosts w) = join_spec (sdb_hosts w) i ?g h"
        using True join unfolding group_spec_def by auto
      ultimately show ?thesis using w' by auto
    qed
  qed
qed

lemma apply_recs_law:
  assumes "igs_inv st w" "\<forall>r\<in>set rs. rec_ok r"
  shows "\<exists>w'. apply_recs w i h rs = Some w' \<and> igs_inv st w' \<and> igs_frame w w' \<and>
    (mem_reliable (igs_osh w) \<longrightarrow> sdb_hosts w' = fold (group_spec i h) rs (sdb_hosts w))"
  using assms
proof (induction rs arbitrary: w)
  case Nil
  then show ?case by simp
next
  case (Cons r rs)
  from v3group_law [OF Cons.prems(1), of r i h] Cons.prems(2) obtain w1 where
    w1: "igmpv3_group w i h (v3_type r) (of_nat (length (v3_srcs r))) (v3_grp r) = Some w1"
      "igs_inv st w1" "igs_frame w w1"
      "mem_reliable (igs_osh w) \<longrightarrow> sdb_hosts w1 = group_spec i h r (sdb_hosts w)" by auto
  from Cons.IH [OF w1(2)] Cons.prems(2) obtain w' where
    w': "apply_recs w1 i h rs = Some w'" "igs_inv st w'" "igs_frame w1 w'"
      "mem_reliable (igs_osh w1) \<longrightarrow> sdb_hosts w' = fold (group_spec i h) rs (sdb_hosts w1)" by auto
  show ?case
    using w1 w' igs_frame_trans [OF w1(3) w'(3)] igs_frame_reliable [OF w1(3)] by auto
qed

section \<open>Input\<close>

lemma enc_report_fields:
  "rd8 (enc_report ck rs) 0 = Some IGMPV3_HOST_MEMBERSHIP_REPORT"
  "be16 (enc_report ck rs) 6 = Some (of_nat (length rs))"
  "drop 8 (enc_report ck rs) = concat (map enc_rec rs)"
  "\<exists>v. be32 (enc_report ck rs) 4 = Some v"
proof -
  let ?p = "[IGMPV3_HOST_MEMBERSHIP_REPORT, 0] @ put16 ck @ put16 0"
  show "rd8 (enc_report ck rs) 0 = Some IGMPV3_HOST_MEMBERSHIP_REPORT"
    by (simp add: enc_report_def)
  have "be16 (?p @ put16 (of_nat (length rs)) @ concat (map enc_rec rs)) (length ?p) =
      Some (of_nat (length rs))" by (rule be16_put16)
  then show b6: "be16 (enc_report ck rs) 6 = Some (of_nat (length rs))"
    by (simp add: enc_report_def)
  show "drop 8 (enc_report ck rs) = concat (map enc_rec rs)"
    by (simp add: enc_report_def numeral_eq_Suc put16_def)
  have "be16 (([IGMPV3_HOST_MEMBERSHIP_REPORT, 0] @ put16 ck) @ put16 0 @ (put16 (of_nat (length rs)) @
      concat (map enc_rec rs))) (length ([IGMPV3_HOST_MEMBERSHIP_REPORT, 0] @ put16 ck)) = Some 0"
    by (rule be16_put16)
  then have "be16 (enc_report ck rs) 4 = Some 0" by (simp add: enc_report_def)
  with b6 show "\<exists>v. be32 (enc_report ck rs) 4 = Some v" by (simp add: be32_def)
qed

text \<open>The addresses of an IP header.\<close>

definition ip_addrs :: "bytes \<Rightarrow> u32 \<Rightarrow> u32 \<Rightarrow> bool" where
  "ip_addrs iph src dest \<longleftrightarrow> be32 iph 12 = Some src \<and> be32 iph 16 = Some dest"

lemma input_v3_law:
  assumes inv: "igs_inv st w" and rs: "\<forall>r\<in>set rs. rec_ok r" "length rs < 65536"
    and ip: "ip_addrs iph h IPV4_MCADDR_ALLIGMPV3"
  shows "\<exists>w'. igsc_input w i iph (enc_report ck rs) False = Some (w', EMF_FLOOD) \<and> igs_inv st w' \<and>
    igs_frame w w' \<and>
    (mem_reliable (igs_osh w) \<longrightarrow> sdb_hosts w' = fold (group_spec i h) rs (sdb_hosts w))"
proof -
  let ?w = "cnt_v3reports (cnt_packets w)"
  have inv': "igs_inv st ?w" using inv by simp
  from apply_recs_law [OF inv' rs(1), of i h] obtain w' where
    w': "apply_recs ?w i h rs = Some w'" "igs_inv st w'" "igs_frame ?w w'"
      "mem_reliable (igs_osh w) \<longrightarrow> sdb_hosts w' = fold (group_spec i h) rs (sdb_hosts w)" by auto
  have n: "unat (of_nat (length rs) :: u16) = length rs"
    using rs(2) by (simp add: unat_of_nat take_bit_nat_eq_self)
  have loop: "igmpv3_groups (length rs) ?w i h (concat (map enc_rec rs)) = Some w'"
    using groups_enc [OF rs(1), of ?w i h "[]"] w'(1) by simp
  obtain v where "be32 (enc_report ck rs) 4 = Some v" using enc_report_fields(4) by blast
  then have "igsc_input w i iph (enc_report ck rs) False = Some (w', EMF_FLOOD)"
    using ip loop by (simp add: igsc_input_def ip_addrs_def enc_report_fields igsc_dispatch_def
        igmp_codes n Let_def)
  then show ?thesis using w' by simp
qed

text \<open>Frames of version 2.\<close>

definition v2_frame :: "bytes \<Rightarrow> u8 \<Rightarrow> u32 \<Rightarrow> bool" where
  "v2_frame igmph type grp \<longleftrightarrow> rd8 igmph 0 = Some type \<and> be32 igmph 4 = Some grp"

lemma input_v2:
  assumes "v2_frame igmph type grp" "ip_addrs iph src dest"
  shows "igsc_input w i iph igmph False = igsc_dispatch (cnt_packets w) i igmph type grp src dest"
  using assms by (simp add: igsc_input_def v2_frame_def ip_addrs_def)

lemma input_join_law:
  assumes inv: "igs_inv st w" and f: "v2_frame igmph IGMPV2_HOST_NEW_MEMBERSHIP_REPORT g"
    "ip_addrs iph h dest" "\<not> igsc_is_reserved dest" "g \<noteq> 0"
  shows "\<exists>w' r. igsc_input w i iph igmph False = Some (w', r) \<and> igs_inv st w' \<and> igs_frame w w' \<and>
    (mem_reliable (igs_osh w) \<longrightarrow> r = EMF_FORWARD \<and> sdb_hosts w' = join_spec (sdb_hosts w) i g h)"
proof -
  have inv': "igs_inv st (cnt_v2reports (cnt_packets w))" using inv by simp
  from update_join_law [OF inv' f(4), of i h] show ?thesis
    using f(3) by (fastforce simp: input_v2 [OF f(1,2)] igsc_dispatch_def igmp_codes)
qed

lemma input_leave_law:
  assumes inv: "igs_inv st w" and f: "v2_frame igmph IGMPV2_LEAVE_GROUP_MESSAGE g" "ip_addrs iph h dest"
  shows "\<exists>w'. igsc_input w i iph igmph False = Some (w', EMF_FLOOD) \<and> igs_inv st w' \<and> igs_frame w w' \<and>
    sdb_hosts w' = leave1 (sdb_hosts w) i g h"
proof -
  have inv': "igs_inv st (cnt_leaves (cnt_packets w))" using inv by simp
  from update_leave_law [OF inv', of i g h] show ?thesis
    by (auto simp: input_v2 [OF f] igsc_dispatch_def igmp_codes)
qed

lemma input_query_law:
  assumes inv: "igs_inv st w" and f: "v2_frame igmph IGMPV2_HOST_MEMBERSHIP_QUERY g" "ip_addrs iph r dest"
    and i: "i \<noteq> 0" "rtport_cnt (emf_handle w) i < 2 ^ 32 - 1"
  shows "\<exists>w'. igsc_input w i iph igmph False = Some (w', EMF_FLOOD) \<and> igs_inv st w' \<and>
    sdb_hosts w' = sdb_hosts w \<and> mem_ok (igs_osh w') = mem_ok (igs_osh w) \<and> stale_timers w' = stale_timers w \<and>
    (\<forall>j. j \<noteq> i \<longrightarrow> rtport_cnt (emf_handle w') j = rtport_cnt (emf_handle w) j) \<and>
    (mem_reliable (igs_osh w) \<longrightarrow> routers w' = (if r = 0 then routers w else insert (i, r) (routers w)))"
proof (cases "r = 0")
  case True
  then show ?thesis using inv by (simp add: input_v2 [OF f] igsc_dispatch_def igmp_codes)
next
  case False
  let ?w = "cnt_queries (cnt_packets w)"
  have inv': "igs_inv st ?w" using inv by simp
  then have rt: "rt_ok ?w" and sinv: "sdb_inv st ?w" by (simp_all add: igs_inv_def)
  have cnt: "rtport_cnt (emf_handle ?w) i < 2 ^ 32 - 1" using i(2) by simp
  from rtlist_add_law [OF rt i(1) cnt, of r] obtain w' x where
    w': "igsc_rtlist_add ?w i r = Some (w', x)" "rt_ok w'" "rt_frame ?w w'" "stale_timers w' = stale_timers ?w"
      "\<forall>j. j \<noteq> i \<longrightarrow> rtport_cnt (emf_handle w') j = rtport_cnt (emf_handle ?w) j"
      "mem_reliable (igs_osh ?w) \<longrightarrow> routers w' = insert (i, r) (routers ?w)"
    by (auto simp: insert_absorb split: if_splits)
  have "igsc_input w i iph igmph False = Some (w', EMF_FLOOD)"
    using False w'(1) by (simp add: input_v2 [OF f] igsc_dispatch_def igmp_codes)
  moreover have "sdb_hosts w' = sdb_hosts w" using rt_frame_inv(2) [OF w'(3) sinv] by simp
  moreover have "mem_ok (igs_osh w') = mem_ok (igs_osh w)" using w'(3) by (simp add: rt_frame_def)
  ultimately show ?thesis
    using rt_frame_igs_inv [OF inv' w'(3,2)] w'(4-6) False by simp
qed

end
