(* ===== verification/Igs_Steps.thy ===== *)
theory Igs_Steps
  imports Igs_Input_Laws
begin

text \<open>
  The snooper as a state machine: frames arrive, timers fire, interfaces go away, forwarding
  is disabled, the clock advances, in any order. A step is a call that returns; the guard on
  frames excludes the version 2 report for group 0.0.0.0 (see \<open>Findings\<close>) and a router
  port count that is about to overflow. The invariant holds in every reachable state. A step is labelled
  \<open>False\<close> when it removes an interface that has a router on it: those steps, and no others, leave the timer
  of a freed entry behind.
\<close>

inductive igs_step :: "bool \<Rightarrow> igsc_info \<Rightarrow> igsc_info \<Rightarrow> bool" where
  step_frame: "\<lbrakk>igsc_input w i iph igmph rp = Some (w', r); i \<noteq> 0;
     rtport_cnt (emf_handle w) i < 2 ^ 32 - 1;
     rd8 igmph 0 = Some IGMPV2_HOST_NEW_MEMBERSHIP_REPORT \<Longrightarrow> be32 igmph 4 \<noteq> Some 0\<rbrakk>
   \<Longrightarrow> igs_step True w w'"
| step_host_timer: "sdb_timer_expire w g a = Some w' \<Longrightarrow> igs_step True w w'"
| step_router_timer: "rt_timer_expire w t = Some w' \<Longrightarrow> igs_step True w w'"
| step_if_del: "igsc_sdb_interface_del w i = Some (w', r) \<Longrightarrow> igs_step True w w'"
| step_rtport_if_del: "igsc_interface_rtport_del w i = (w', r) \<Longrightarrow> igs_step (routers_on (rtlist_head w) i = 0) w w'"
| step_disable: "igsc_emf_disabled w = Some (w', r) \<Longrightarrow> igs_step True w w'"
| step_clock: "igs_step True w (w\<lparr>jiffies := t\<rparr>)"

text \<open>A run is labelled \<open>True\<close> when all its steps are.\<close>

inductive igs_reach :: "bool \<Rightarrow> igsc_info \<Rightarrow> igsc_info \<Rightarrow> bool" where
  reach_refl: "igs_reach True w w"
| reach_step: "igs_reach c w w' \<Longrightarrow> igs_step d w' w'' \<Longrightarrow> igs_reach (c \<and> d) w w''"

text \<open>
  A frame long enough for the headers and, when it is a version 3 report, for the records it announces.
\<close>

fun v3_fits :: "nat \<Rightarrow> bytes \<Rightarrow> bool" where
  "v3_fits 0 p = True"
| "v3_fits (Suc n) p =
     (case (be16 p 2, rd8 p 1) of
        (Some src_num, Some aux_len) \<Rightarrow> 8 \<le> length p \<and> v3_fits n (drop (unat (igmpv3_offset src_num aux_len)) p)
      | _ \<Rightarrow> False)"

definition frame_complete :: "bytes \<Rightarrow> bytes \<Rightarrow> bool" where
  "frame_complete iph igmph \<longleftrightarrow> 20 \<le> length iph \<and> 8 \<le> length igmph \<and>
     (rd8 igmph 0 = Some IGMPV3_HOST_MEMBERSHIP_REPORT \<longrightarrow>
        v3_fits (unat (the (be16 igmph 6))) (drop 8 igmph))"

lemma reads_Some:
  "k < length p \<Longrightarrow> \<exists>x. rd8 p k = Some x" "k + 1 < length p \<Longrightarrow> \<exists>x. be16 p k = Some x"
  "k + 3 < length p \<Longrightarrow> \<exists>x. be32 p k = Some x"
  by (simp_all add: be32_def be16_def rd8_def)

section \<open>Each step keeps the invariant\<close>

lemma v3group_inv:
  assumes inv: "igs_inv st w"
  shows "\<exists>w'. igmpv3_group w i h t n g = Some w' \<and> igs_inv st w' \<and> igs_frame w w'"
proof (cases "IP_ISMULTI g")
  case False
  with inv show ?thesis by (simp add: igmpv3_group_def)
next
  case True
  from update_leave_law [OF inv, of i g h] obtain w1 r1 where
    w1: "igsc_update_leave_member w i g h = Some (w1, r1)" "igs_inv st w1" "igs_frame w w1" by blast
  from update_join_law [OF inv multi_nonzero [OF True], of i h] obtain w2 r2 where
    w2: "igsc_update_join_member w i g h = Some (w2, r2)" "igs_inv st w2" "igs_frame w w2" by blast
  from inv w1 w2 True show ?thesis by (simp add: igmpv3_group_def)
qed

lemma v3groups_inv:
  "igs_inv st w \<Longrightarrow> igmpv3_groups n w i h p = Some w' \<Longrightarrow> igs_inv st w' \<and> igs_frame w w'"
proof (induction n arbitrary: w p)
  case 0
  then show ?case by simp
next
  case (Suc n)
  from Suc.prems(2) obtain s g t x where f: "be16 p 2 = Some s" "be32 p 4 = Some g" "rd8 p 0 = Some t"
      "rd8 p 1 = Some x"
    by (auto split: option.splits)
  from v3group_inv [OF Suc.prems(1), of i h t s g] obtain w1 where
    w1: "igmpv3_group w i h t s g = Some w1" "igs_inv st w1" "igs_frame w w1" by blast
  from Suc.prems(2) f w1(1) have "igmpv3_groups n w1 i h (drop (unat (igmpv3_offset s x)) p) = Some w'"
    by simp
  from Suc.IH [OF w1(2) this] show ?case using igs_frame_trans [OF w1(3)] by blast
qed

lemma v3groups_total:
  "igs_inv st w \<Longrightarrow> v3_fits n p \<Longrightarrow> igmpv3_groups n w i h p \<noteq> None"
proof (induction n arbitrary: w p)
  case 0
  then show ?case by simp
next
  case (Suc n)
  from Suc.prems(2) obtain s x where f: "be16 p 2 = Some s" "rd8 p 1 = Some x" "8 \<le> length p"
      and fits: "v3_fits n (drop (unat (igmpv3_offset s x)) p)"
    by (auto split: option.splits)
  have "0 < length p" "4 + 3 < length p" using f(3) by linarith+
  then obtain g t where gt: "be32 p 4 = Some g" "rd8 p 0 = Some t" using reads_Some(1,3) by metis
  from v3group_inv [OF Suc.prems(1), of i h t s g] obtain w1 where
    w1: "igmpv3_group w i h t s g = Some w1" "igs_inv st w1" by blast
  from Suc.IH [OF w1(2) fits] w1(1) f gt show ?case by simp
qed

lemma input_inv:
  assumes inv: "igs_inv st w" and res: "igsc_input w i iph igmph rp = Some (w', r)"
    and i: "i \<noteq> 0" "rtport_cnt (emf_handle w) i < 2 ^ 32 - 1"
    and g: "rd8 igmph 0 = Some IGMPV2_HOST_NEW_MEMBERSHIP_REPORT \<Longrightarrow> be32 igmph 4 \<noteq> Some 0"
  shows "igs_inv st w' \<and> stale_timers w' = stale_timers w"
proof (cases rp)
  case True
  with res inv show ?thesis by (auto simp: igsc_input_def Let_def)
next
  case False
  with res obtain g' h d t where f: "be32 igmph 4 = Some g'" "be32 iph 12 = Some h"
      "be32 iph 16 = Some d" "rd8 igmph 0 = Some t"
      and disp: "igsc_dispatch (cnt_packets w) i igmph t g' h d = Some (w', r)"
    by (auto simp: igsc_input_def Let_def split: option.splits)
  have ok: "v2_frame igmph t g'" "ip_addrs iph h d" using f by (simp_all add: v2_frame_def ip_addrs_def)
  consider "t = IGMPV2_HOST_NEW_MEMBERSHIP_REPORT" | "t = IGMPV2_LEAVE_GROUP_MESSAGE"
    | "t = IGMPV2_HOST_MEMBERSHIP_QUERY" | "t = IGMPV3_HOST_MEMBERSHIP_REPORT"
    | "t \<notin> {IGMPV2_HOST_NEW_MEMBERSHIP_REPORT, IGMPV2_LEAVE_GROUP_MESSAGE,
        IGMPV2_HOST_MEMBERSHIP_QUERY, IGMPV3_HOST_MEMBERSHIP_REPORT}" by blast
  then show ?thesis
  proof cases
    case 1
    show ?thesis
    proof (cases "igsc_is_reserved d")
      case True
      with 1 disp inv show ?thesis by (auto simp: igsc_dispatch_def)
    next
      case False
      have "g' \<noteq> 0" using g f 1 by auto
      with input_join_law [OF inv ok(1) [unfolded 1] ok(2) False, of i] res \<open>\<not> rp\<close> show ?thesis
        using igs_frame_rt(4) by auto
    qed
  next
    case 2
    with input_leave_law [OF inv ok(1) [unfolded 2] ok(2), of i] res \<open>\<not> rp\<close> show ?thesis
      using igs_frame_rt(4) by auto
  next
    case 3
    with input_query_law [OF inv ok(1) [unfolded 3] ok(2) i] res \<open>\<not> rp\<close> show ?thesis by auto
  next
    case 4
    have inv': "igs_inv st (cnt_v3reports (cnt_packets w))" using inv by simp
    show ?thesis
    proof (cases "d = IPV4_MCADDR_ALLIGMPV3")
      case False
      then show ?thesis using disp inv unfolding 4 by (auto simp: igsc_dispatch_def igmp_codes)
    next
      case True
      then obtain n :: u16 where "igmpv3_groups (unat n) (cnt_v3reports (cnt_packets w)) i h (drop 8 igmph) = Some w'"
        using disp unfolding 4 by (auto simp: igsc_dispatch_def igmp_codes split: option.splits)
      from v3groups_inv [OF inv' this] show ?thesis using igs_frame_rt(4) by auto
    qed
  next
    case 5
    then show ?thesis using disp inv by (auto simp: igsc_dispatch_def split: if_splits)
  qed
qed

lemma host_timer_inv:
  assumes inv: "igs_inv st w" and res: "sdb_timer_expire w g a = Some w'"
  shows "igs_inv st w' \<and> stale_timers w' = stale_timers w"
proof -
  have sinv: "sdb_inv st w" using inv by (simp add: igs_inv_def)
  from res obtain m mh where m: "sdb_at w g = Some m"
      and mh: "List.find (\<lambda>mh. smh_addr mh = a) (smh_head m) = Some mh"
    by (auto simp: sdb_timer_expire_def group_find_lookup split: option.splits)
  then have mh': "mh \<in> set (smh_head m)" "smh_addr mh = a" by (auto dest: find_SomeD)
  note ginv = sdb_okD(4) [OF sdb_inv_D(1) [OF sinv] m]
  from grp_mi_at [OF ginv mh'(1)] obtain mi where "mi_at (smi_head m) (smh_mi mh) = Some mi" .
  from timer_expire_law [OF sinv m mh'(1) this] res mh'(2)
  show ?thesis using igs_frame_inv [OF inv] igs_frame_rt(4) by auto
qed

lemma router_timer_inv:
  assumes inv: "igs_inv st w" and res: "rt_timer_expire w t = Some w'"
  shows "igs_inv st w' \<and> stale_timers w' = stale_timers w"
proof -
  have ok: "rt_ok w" using inv by (simp add: igs_inv_def)
  from expire_any [OF ok res] show ?thesis using rt_frame_igs_inv [OF inv] by blast
qed

lemma disable_inv:
  assumes inv: "igs_inv st w" and res: "igsc_emf_disabled w = Some (w', r)"
  shows "igs_inv st w'" "sdb_hosts w' = (\<lambda>g. {})" "routers w' = {}" "r = SUCCESS" "stale_timers w' = stale_timers w"
proof -
  have sinv: "sdb_inv st w" using inv by (simp add: igs_inv_def)
  from sdb_clear_law [OF sinv] obtain w1 where
    w1: "igsc_sdb_clear w = Some w1" "sdb_inv st w1" "igs_frame w w1" "sdb_hosts w1 = (\<lambda>g. {})" by blast
  note inv1 = igs_frame_inv [OF inv w1(3,2)]
  then have ok1: "rt_ok w1" by (simp add: igs_inv_def)
  from res w1(1) have c: "igsc_rtlist_clear w1 = Some w'" and r: "r = SUCCESS"
    by (auto simp: igsc_emf_disabled_def)
  note old = igs_frame_rt(4) [OF w1(3)]
  have "igs_inv st w' \<and> sdb_hosts w' = (\<lambda>g. {}) \<and> routers w' = {} \<and> stale_timers w' = stale_timers w"
  proof (cases "stale_reads w1")
    case True
    from rtlist_clear_law [OF ok1 True] c have w': "rt_ok w'" "rt_frame w1 w'" "routers w' = {}"
      "stale_timers w' = stale_timers w1" by auto
    then show ?thesis
      using rt_frame_igs_inv [OF inv1] rt_frame_inv(2) [OF w'(2) w1(2)] w1(4) old by simp
  next
    case False
    with c rtlist_clear_freed [OF False] have "rtlist_head w1 = []" by auto
    with c rtlist_clear_empty [OF this] show ?thesis using inv1 w1(4) old by (auto simp: routers_def)
  qed
  then show "igs_inv st w'" "sdb_hosts w' = (\<lambda>g. {})" "routers w' = {}" "r = SUCCESS"
    "stale_timers w' = stale_timers w"
    using r by blast+
qed

text \<open>A complete frame is dealt with: no pointer to freed memory is followed, and the loop over its records ends.\<close>

lemma input_total:
  assumes inv: "igs_inv st w" and fr: "frame_complete iph igmph"
    and i: "i \<noteq> 0" "rtport_cnt (emf_handle w) i < 2 ^ 32 - 1"
    and g: "rd8 igmph 0 = Some IGMPV2_HOST_NEW_MEMBERSHIP_REPORT \<Longrightarrow> be32 igmph 4 \<noteq> Some 0"
  shows "igsc_input w i iph igmph rp \<noteq> None"
proof (cases rp)
  case True
  then show ?thesis by (simp add: igsc_input_def Let_def)
next
  case False
  have len: "20 \<le> length iph" "8 \<le> length igmph" using fr by (simp_all add: frame_complete_def)
  have "0 < length igmph" "6 + 1 < length igmph" "4 + 3 < length igmph" "12 + 3 < length iph" "16 + 3 < length iph"
    using len by linarith+
  then obtain g' h d t n where f: "be32 igmph 4 = Some g'" "be32 iph 12 = Some h"
      "be32 iph 16 = Some d" "rd8 igmph 0 = Some t" "be16 igmph 6 = Some n"
    using reads_Some by metis
  have ok: "v2_frame igmph t g'" "ip_addrs iph h d" using f by (simp_all add: v2_frame_def ip_addrs_def)
  have disp: "igsc_input w i iph igmph rp = igsc_dispatch (cnt_packets w) i igmph t g' h d"
    using False input_v2 [OF ok] by simp
  consider "t = IGMPV2_HOST_NEW_MEMBERSHIP_REPORT" | "t = IGMPV2_LEAVE_GROUP_MESSAGE"
    | "t = IGMPV2_HOST_MEMBERSHIP_QUERY" | "t = IGMPV3_HOST_MEMBERSHIP_REPORT"
    | "t \<notin> {IGMPV2_HOST_NEW_MEMBERSHIP_REPORT, IGMPV2_LEAVE_GROUP_MESSAGE,
        IGMPV2_HOST_MEMBERSHIP_QUERY, IGMPV3_HOST_MEMBERSHIP_REPORT}" by blast
  then show ?thesis
  proof cases
    case 1
    show ?thesis
    proof (cases "igsc_is_reserved d")
      case True
      with 1 disp show ?thesis by (simp add: igsc_dispatch_def)
    next
      case nr: False
      have "g' \<noteq> 0" using g f 1 by auto
      with input_join_law [OF inv ok(1) [unfolded 1] ok(2) nr, of i] \<open>\<not> rp\<close> show ?thesis by auto
    qed
  next
    case 2
    with input_leave_law [OF inv ok(1) [unfolded 2] ok(2), of i] \<open>\<not> rp\<close> show ?thesis by auto
  next
    case 3
    with input_query_law [OF inv ok(1) [unfolded 3] ok(2) i] \<open>\<not> rp\<close> show ?thesis by auto
  next
    case 4
    have inv': "igs_inv st (cnt_v3reports (cnt_packets w))" using inv by simp
    have "v3_fits (unat n) (drop 8 igmph)" using fr f(4,5) 4 by (simp add: frame_complete_def)
    from v3groups_total [OF inv' this] show ?thesis
      unfolding disp 4 by (simp add: igsc_dispatch_def igmp_codes f(5))
  next
    case 5
    then show ?thesis unfolding disp by (simp add: igsc_dispatch_def)
  qed
qed

text \<open>One step.\<close>

lemma step_inv:
  "igs_step d w w' \<Longrightarrow> igs_inv st w \<Longrightarrow> igs_inv st w' \<and> (d \<longrightarrow> stale_timers w' = stale_timers w)"
proof (induction rule: igs_step.induct)
  case (step_frame w i iph igmph rp w' r)
  then show ?case using input_inv by blast
next
  case (step_host_timer w g a w')
  then show ?case using host_timer_inv by blast
next
  case (step_router_timer w t w')
  then show ?case using router_timer_inv by blast
next
  case (step_if_del w i w' r)
  then have "sdb_inv st w" by (simp add: igs_inv_def)
  from sdb_interface_del_law [OF this, of i] step_if_del show ?case
    using igs_frame_inv [of st w w'] igs_frame_rt(4) [of w w'] by auto
next
  case (step_rtport_if_del w i w' r)
  then have ok: "rt_ok w" by (simp add: igs_inv_def)
  have none: "{e \<in> set (rtlist_head w). rtl_ifp e = i} = {}" if "routers_on (rtlist_head w) i = 0"
    using that routers_on_pos by fastforce
  from interface_rtport_del_law [OF ok, of i] step_rtport_if_del none show ?case
    using rt_frame_igs_inv [of st w w'] by auto
next
  case (step_disable w w' r)
  then show ?case using disable_inv(1,5) [of st w w' r] by blast
next
  case (step_clock w t)
  then show ?case
    by (simp add: igs_inv_def sdb_inv_def sdb_okE_def sdb_sync_def sdb_timers_def sdb_ifaces_def rt_ok_def
        stale_timers_def)
qed

lemma reach_inv:
  "igs_reach c w w' \<Longrightarrow> igs_inv st w \<Longrightarrow> igs_inv st w' \<and> (c \<longrightarrow> stale_timers w' = stale_timers w)"
proof (induction rule: igs_reach.induct)
  case (reach_refl w)
  then show ?case by simp
next
  case (reach_step c w w' d w'')
  then have inv: "igs_inv st w'" and st: "c \<longrightarrow> stale_timers w' = stale_timers w" by blast+
  from step_inv [OF reach_step.hyps(2) inv] st show ?case by simp
qed

end
