(* ===== verification/Emf_Input.thy ===== *)
theory Emf_Input
  imports Igs_Steps
begin

text \<open>
  The forwarding path (emfc.c): what happens to a multicast frame received from a bridge port
  or from the IP stack. IGMP frames go to the snooper first; data frames go to the members of
  their group; frames of unknown groups go to the router ports and the ports marked for
  flooding. The snooper's entry points are those \<open>igsc_init\<close> registers, so the state is the
  snooper's, which holds the forwarding instance.
\<close>

section \<open>Services\<close>

text \<open>\<open>PKTDUP\<close> allocates; the second result is \<open>False\<close> when it fails.\<close>

definition PKTDUP :: "emfc_info \<Rightarrow> emfc_info \<times> bool" where
  "PKTDUP s = (let (os, p) = MALLOC (osh s) in (s\<lparr>osh := os\<rparr>, p \<noteq> 0))"

definition emf_stat :: "(emf_stats \<Rightarrow> emf_stats) \<Rightarrow> emfc_info \<Rightarrow> emfc_info" where
  "emf_stat f s = s\<lparr>stats := f (stats s)\<rparr>"

text \<open>\<open>EMFC_PROT_STATS_INCR\<close>: one counter for IGMP frames, another for data frames.\<close>

definition prot_stat :: "u8 \<Rightarrow> (emf_stats \<Rightarrow> emf_stats) \<Rightarrow> (emf_stats \<Rightarrow> emf_stats) \<Rightarrow> emfc_info \<Rightarrow> emfc_info" where
  "prot_stat proto fi fd s = (if proto = IP_PROT_IGMP then emf_stat fi s else emf_stat fd s)"

abbreviation "inc_igmp_frames \<equiv> (\<lambda>x. x\<lparr>igmp_frames := igmp_frames x + 1\<rparr>)"
abbreviation "inc_igmp_fwd \<equiv> (\<lambda>x. x\<lparr>igmp_frames_fwd := igmp_frames_fwd x + 1\<rparr>)"
abbreviation "inc_igmp_sentup \<equiv> (\<lambda>x. x\<lparr>igmp_frames_sentup := igmp_frames_sentup x + 1\<rparr>)"
abbreviation "inc_igmp_dropped \<equiv> (\<lambda>x. x\<lparr>igmp_frames_dropped := igmp_frames_dropped x + 1\<rparr>)"
abbreviation "inc_data_frames \<equiv> (\<lambda>x. x\<lparr>mcast_data_frames := mcast_data_frames x + 1\<rparr>)"
abbreviation "inc_data_fwd \<equiv> (\<lambda>x. x\<lparr>mcast_data_fwd := mcast_data_fwd x + 1\<rparr>)"
abbreviation "inc_data_flooded \<equiv> (\<lambda>x. x\<lparr>mcast_data_flooded := mcast_data_flooded x + 1\<rparr>)"
abbreviation "inc_data_sentup \<equiv> (\<lambda>x. x\<lparr>mcast_data_sentup := mcast_data_sentup x + 1\<rparr>)"
abbreviation "inc_data_dropped \<equiv> (\<lambda>x. x\<lparr>mcast_data_dropped := mcast_data_dropped x + 1\<rparr>)"

definition sendup_fn :: "emfc_info \<Rightarrow> emfc_info" where
  "sendup_fn s = s\<lparr>tx := tx s @ [SendUp]\<rparr>"

definition forward_fn :: "emfc_info \<Rightarrow> ifp \<Rightarrow> emfc_info \<times> int" where
  "forward_fn s i = (s\<lparr>tx := tx s @ [Forward i]\<rparr>, if fwd_ok s (length (tx s)) then SUCCESS else FAILURE)"

section \<open>Unregistered frames\<close>

text \<open>
  The loop over the interface list; the second result is the number of ports flooded, or
  \<open>None\<close> when a copy could not be made.
\<close>

fun unreg_flood :: "emfc_info \<Rightarrow> u8 \<Rightarrow> ifp \<Rightarrow> u32 \<Rightarrow> emfc_iflist list \<Rightarrow> emfc_info \<times> u32 option" where
  "unreg_flood s proto i n [] = (s, Some n)"
| "unreg_flood s proto i n (p # ps) =
     (if i = ifl_ifp p then unreg_flood s proto i n ps
      else if (if proto = IP_PROT_IGMP then rtport_ref p = 0 else rtport_ref p + uffp_ref p = 0)
      then unreg_flood s proto i n ps
      else
        let (s1, ok) = PKTDUP s in
        if \<not> ok then (prot_stat proto inc_igmp_dropped inc_data_dropped s1, None)
        else
          let (s2, r) = forward_fn s1 (ifl_ifp p);
              s3 = (if r \<noteq> SUCCESS then prot_stat proto inc_igmp_dropped inc_data_dropped s2 else s2)
          in unreg_flood s3 proto i (n + 1) ps)"

definition unreg_ports :: "emfc_info \<Rightarrow> u8 \<Rightarrow> ifp \<Rightarrow> bool \<Rightarrow> emfc_info \<times> int" where
  "unreg_ports s proto i rt_port =
     (case unreg_flood s proto i 0 (iflist_head s) of
        (s1, None) \<Rightarrow> (s1, EMF_DROP)
      | (s1, Some n) \<Rightarrow>
          (if n > 0 then prot_stat proto inc_igmp_fwd inc_data_flooded s1
           else if rt_port then prot_stat proto inc_igmp_dropped inc_data_dropped s1 else s1,
           EMF_TAKEN))"

definition emfc_unreg_frame_handle :: "emfc_info \<Rightarrow> ifp \<Rightarrow> u8 \<Rightarrow> bool \<Rightarrow> emfc_info \<times> int" where
  "emfc_unreg_frame_handle s i proto rt_port =
     (if \<not> rt_port then
        let (s1, ok) = PKTDUP s in
        if \<not> ok then (prot_stat proto inc_igmp_dropped inc_data_dropped s1, EMF_DROP)
        else unreg_ports (prot_stat proto inc_igmp_sentup inc_data_sentup (sendup_fn s1)) proto i rt_port
      else unreg_ports s proto i rt_port)"

section \<open>Data frames\<close>

text \<open>
  Handing one copy to the member \<open>i\<close> of the group at \<open>p\<close>. The comma binds weaker than the
  conditional: the member's counter goes up whether forwarding succeeded or not.
\<close>

definition mhif_count :: "emfc_info \<Rightarrow> ifp \<Rightarrow> emfc_info" where
  "mhif_count s i = s\<lparr>mhif_head :=
     upd_first (\<lambda>h. mhif_ifp h = i) (\<lambda>h. h\<lparr>mhif_data_fwd := mhif_data_fwd h + 1\<rparr>) (mhif_head s)\<rparr>"

definition mi_forward :: "emfc_info \<Rightarrow> addr \<Rightarrow> ifp \<Rightarrow> emfc_info" where
  "mi_forward s p i =
     (let (s1, r) = forward_fn s i;
          s2 = (if r \<noteq> SUCCESS then emf_stat inc_data_dropped s1 else mhif_count s1 i) in
      mgrp_write s2 p (upd_first (\<lambda>mi. mi_mhif mi = Some i)
        (\<lambda>mi. mi\<lparr>mi_data_fwd := mi_data_fwd mi + 1\<rparr>)))"

text \<open>All but the last member, each with a copy; the flag tells whether every copy was made.\<close>

fun fwd_members :: "emfc_info \<Rightarrow> addr \<Rightarrow> ifp \<Rightarrow> emfc_mi list \<Rightarrow> (emfc_info \<times> bool) option" where
  "fwd_members s p i [] = Some (s, True)"
| "fwd_members s p i (mi # mis) =
     (case mi_mhif mi of None \<Rightarrow> None
      | Some j \<Rightarrow>
          if i = j then fwd_members s p i mis
          else
            let (s1, ok) = PKTDUP s in
            if \<not> ok then Some (emf_stat inc_data_dropped s1, False)
            else fwd_members (mi_forward s1 p j) p i mis)"

definition fwd_group :: "emfc_info \<Rightarrow> addr \<Rightarrow> ifp \<Rightarrow> emfc_mi list \<Rightarrow> (emfc_info \<times> int) option" where
  "fwd_group s p i mis =
     (if mis = [] then None
      else (case fwd_members s p i (butlast mis) of None \<Rightarrow> None
        | Some (s1, False) \<Rightarrow> Some (s1, EMF_DROP)
        | Some (s1, True) \<Rightarrow>
            (case mi_mhif (last mis) of None \<Rightarrow> None
             | Some j \<Rightarrow> Some (emf_stat inc_data_fwd (if i \<noteq> j then mi_forward s1 p j else s1), EMF_TAKEN))))"

definition emfc_data_input :: "emfc_info \<Rightarrow> ifp \<Rightarrow> u8 \<Rightarrow> u32 \<Rightarrow> bool \<Rightarrow> (emfc_info \<times> int) option" where
  "emfc_data_input s i proto dest_ip rt_port =
     (let s1 = emf_stat inc_data_frames s in
      if MCAST_ADDR_LINKLOCAL dest_ip then Some (s1, EMF_NOP)
      else
        let (s2, p) = emfc_mfdb_group_find s1 dest_ip in
        if p = 0 then Some (emfc_unreg_frame_handle s2 i proto rt_port)
        else (case mgrp_at s2 p of None \<Rightarrow> None
          | Some m \<Rightarrow>
              if \<not> rt_port then
                let (s3, ok) = PKTDUP s2 in
                if \<not> ok then Some (emf_stat inc_data_dropped s3, EMF_DROP)
                else fwd_group (emf_stat inc_data_sentup (sendup_fn s3)) p i (mi_head m)
              else fwd_group s2 p i (mi_head m)))"

section \<open>Input\<close>

text \<open>What is done with an IGMP frame after the snooper has seen it.\<close>

definition igmp_action :: "igsc_info \<Rightarrow> ifp \<Rightarrow> u8 \<Rightarrow> bool \<Rightarrow> int \<Rightarrow> igsc_info \<times> int" where
  "igmp_action w i proto rt_port action =
     (let e = emf_handle w in
      if action = EMF_DROP then (w, EMF_DROP)
      else if action = EMF_SENDUP then
        (w\<lparr>emf_handle := emf_stat inc_igmp_sentup (sendup_fn e)\<rparr>, EMF_TAKEN)
      else if action = EMF_FORWARD then
        (let (e', r) = emfc_unreg_frame_handle e i proto rt_port in (w\<lparr>emf_handle := e'\<rparr>, r))
      else (w\<lparr>emf_handle := emf_stat inc_igmp_fwd e\<rparr>, EMF_NOP))"

definition emfc_input :: "igsc_info \<Rightarrow> ifp \<Rightarrow> bytes \<Rightarrow> bool \<Rightarrow> (igsc_info \<times> int) option" where
  "emfc_input w i iph rt_port =
     (case be32 iph 16 of None \<Rightarrow> None | Some dest_ip \<Rightarrow>
        if \<not> IP_ISMULTI dest_ip \<or> \<not> emf_enable (emf_handle w) then Some (w, EMF_NOP)
        else (case rd8 iph 0 of None \<Rightarrow> None | Some v \<Rightarrow>
          if drop_bit 4 (v AND 0xf0) \<noteq> 4 then Some (w, EMF_NOP)
          else (case rd8 iph 9 of None \<Rightarrow> None | Some proto \<Rightarrow>
            if proto = IP_PROT_IGMP \<and> snooper (emf_handle w) then
              (case igsc_input (w\<lparr>emf_handle := emf_stat inc_igmp_frames (emf_handle w)\<rparr>) i iph
                  (drop (4 * unat (v AND 0x0f)) iph) rt_port of
                 None \<Rightarrow> None
               | Some (w', action) \<Rightarrow> Some (igmp_action w' i proto rt_port action))
            else map_option (\<lambda>(e, r). (w\<lparr>emf_handle := e\<rparr>, r))
              (emfc_data_input (emf_handle w) i proto dest_ip rt_port))))"

end
