(* ===== verification/Emf_Input_Laws.thy ===== *)
theory Emf_Input_Laws
  imports Emf_Input
begin

text \<open>
  What leaves the instance for a frame: \<open>tx\<close> grows by a copy for the IP stack (when the frame
  came from a bridge port) and one for each port that is due, never for the port the frame
  came from. The forwarding database keeps its content and stays well-formed, also when
  copies cannot be made or forwarding fails.
\<close>

section \<open>What forwarding leaves unchanged\<close>

definition mi_ifs :: "emfc_mi list \<Rightarrow> ifp list" where
  "mi_ifs mis = map (\<lambda>mi. the (mi_mhif mi)) mis"

text \<open>The members of a group, in the order of the list.\<close>

definition mfdb_members :: "emfc_info \<Rightarrow> u32 \<Rightarrow> ifp list" where
  "mfdb_members s g = (case fdb.lookup (mgrp_fdb s) g of None \<Rightarrow> [] | Some m \<Rightarrow> mi_ifs (mi_head m))"

definition emf_keep :: "emfc_info \<Rightarrow> emfc_info \<Rightarrow> bool" where
  "emf_keep s s' \<longleftrightarrow> mfdb_wf s' \<and> mfdb_cnt s' = mfdb_cnt s \<and> mfdb_members s' = mfdb_members s \<and>
     (\<forall>g. map_option mgrp_addr (fdb.lookup (mgrp_fdb s') g) =
        map_option mgrp_addr (fdb.lookup (mgrp_fdb s) g)) \<and>
     iflist_head s' = iflist_head s \<and> fwd_ok s' = fwd_ok s \<and> mem_ok (osh s') = mem_ok (osh s) \<and>
     mem_seq (osh s) \<le> mem_seq (osh s') \<and> emf_enable s' = emf_enable s \<and> snooper s' = snooper s \<and>
     mhifs s' = mhifs s"

lemma emf_keep_refl: "mfdb_wf s \<Longrightarrow> emf_keep s s"
  by (simp add: emf_keep_def)

lemma emf_keep_trans: "emf_keep s t \<Longrightarrow> emf_keep t u \<Longrightarrow> emf_keep s u"
  by (simp add: emf_keep_def)

lemma emf_keepD:
  assumes "emf_keep s s'"
  shows "mfdb_wf s'" "mfdb_cnt s' = mfdb_cnt s" "mfdb_members s' = mfdb_members s"
    "iflist_head s' = iflist_head s" "fwd_ok s' = fwd_ok s" "mem_reliable (osh s') = mem_reliable (osh s)"
  using assms by (simp_all add: emf_keep_def mem_reliable_def)

lemma keep_light:
  assumes "mfdb_wf s" "mgrp_fdb s' = mgrp_fdb s" "mhif_head s' = mhif_head s"
    "mgrp_cache s' = mgrp_cache s" "mgrp_cache_ip s' = mgrp_cache_ip s" "iflist_head s' = iflist_head s"
    "fwd_ok s' = fwd_ok s" "mem_ok (osh s') = mem_ok (osh s)" "mem_seq (osh s) \<le> mem_seq (osh s')"
    "emf_enable s' = emf_enable s" "snooper s' = snooper s"
  shows "emf_keep s s'"
proof -
  have "mgrp_addr m \<le> mem_seq (osh s')" if "m \<in> set (mfdb_groups s)" for m
    using assms(1,9) that by (auto simp: mfdb_wf_def mfdb_wf0_def)
  then have "mfdb_wf s'" using assms(1) by (simp add: mfdb_wf_def mfdb_wf0_def assms(2-5))
  moreover have members_eq: "mfdb_members s' = mfdb_members s"
    by (rule ext) (simp add: mfdb_members_def assms(2))
  ultimately show ?thesis
    using assms(2-) mfdb_cnt_cong [OF assms(2)] members_eq by (simp add: emf_keep_def)
qed

lemma keep_simps [simp]:
  "emf_keep t (emf_stat f s) = emf_keep t s" "tx (emf_stat f s) = tx s"
  "emf_keep t (prot_stat proto fi fd s) = emf_keep t s" "tx (prot_stat proto fi fd s) = tx s"
  "emf_keep t (sendup_fn s) = emf_keep t s" "tx (sendup_fn s) = tx s @ [SendUp]"
  "emf_keep t (fst (forward_fn s i)) = emf_keep t s" "tx (fst (forward_fn s i)) = tx s @ [Forward i]"
  "mem_reliable (osh (emf_stat f s)) = mem_reliable (osh s)"
  "mem_reliable (osh (prot_stat proto fi fd s)) = mem_reliable (osh s)"
  "mem_reliable (osh (sendup_fn s)) = mem_reliable (osh s)"
proof -
  have st: "mfdb_wf (s\<lparr>stats := x\<rparr>) = mfdb_wf s" "mfdb_wf (s\<lparr>tx := y\<rparr>) = mfdb_wf s" for s x y
    by (simp_all add: mfdb_wf_def mfdb_wf0_def)
  have cnt: "mfdb_cnt (s\<lparr>tx := y\<rparr>) = mfdb_cnt s" for s y by (rule mfdb_cnt_cong) simp
  have mem: "mfdb_members (s\<lparr>stats := x\<rparr>) = mfdb_members s" "mfdb_members (s\<lparr>tx := y\<rparr>) = mfdb_members s"
    for s x y by (simp_all add: mfdb_members_def fun_eq_iff)
  show "emf_keep t (emf_stat f s) = emf_keep t s" for f s
    by (simp add: emf_keep_def emf_stat_def st mem)
  then show "emf_keep t (prot_stat proto fi fd s) = emf_keep t s" by (simp add: prot_stat_def)
  show "emf_keep t (sendup_fn s) = emf_keep t s" "emf_keep t (fst (forward_fn s i)) = emf_keep t s"
    by (simp_all add: emf_keep_def sendup_fn_def forward_fn_def st mem cnt)
qed (simp_all add: emf_stat_def prot_stat_def sendup_fn_def forward_fn_def)

lemma PKTDUP_keep:
  assumes "mfdb_wf s" "PKTDUP s = (s', ok)"
  shows "emf_keep s s'" "tx s' = tx s" "mem_reliable (osh s) \<Longrightarrow> ok"
proof -
  obtain os p where os: "MALLOC (osh s) = (os, p)" by fastforce
  then have s': "s' = s\<lparr>osh := os\<rparr>" "ok = (p \<noteq> 0)" using assms(2) by (auto simp: PKTDUP_def)
  show "emf_keep s s'" using assms(1) MALLOC_D(1,2) [OF os] by (intro keep_light) (simp_all add: s')
  show "tx s' = tx s" by (simp add: s')
  show "mem_reliable (osh s) \<Longrightarrow> ok" using MALLOC_D(3) [OF os] s' by blast
qed

section \<open>Members\<close>

lemma mi_ifs_wf:
  assumes "mis_wf I mis"
  shows "map mi_mhif mis = map Some (mi_ifs mis)" "distinct (mi_ifs mis)"
    "set (mi_ifs mis) = {j. 0 < mi_cnt mis j}" "set (mi_ifs mis) \<subseteq> I"
proof -
  show eq: "map mi_mhif mis = map Some (mi_ifs mis)"
    using assms by (auto simp: mi_ifs_def mis_wf_def)
  have "distinct (map mi_mhif mis)" using assms by (simp add: mis_wf_def)
  then show "distinct (mi_ifs mis)" unfolding eq by (simp add: distinct_map)
  have "j \<in> set (mi_ifs mis) \<longleftrightarrow> Some j \<in> set (map mi_mhif mis)" for j unfolding eq by auto
  also have "Some j \<in> set (map mi_mhif mis) \<longleftrightarrow> 0 < mi_cnt mis j" for j
    using mi_cnt_0_iff [OF assms, of j] by (force simp: find_None_notin)
  finally show "set (mi_ifs mis) = {j. 0 < mi_cnt mis j}" by auto
  show "set (mi_ifs mis) \<subseteq> I" using assms by (auto simp: mi_ifs_def mis_wf_def)
qed

lemma members_cnt:
  assumes "mfdb_wf s"
  shows "set (mfdb_members s g) = {j. 0 < mfdb_cnt s g j}" "distinct (mfdb_members s g)"
proof -
  have "set (mfdb_members s g) = {j. 0 < mfdb_cnt s g j} \<and> distinct (mfdb_members s g)"
  proof (cases "fdb.lookup (mgrp_fdb s) g")
    case None
    then show ?thesis by (simp add: mfdb_members_def mfdb_cnt_def)
  next
    case (Some m)
    with mi_ifs_wf [of "mhifs s" "mi_head m"] mfdb_wfD [OF assms Some] show ?thesis
      by (simp add: mfdb_members_def mfdb_cnt_def)
  qed
  then show "set (mfdb_members s g) = {j. 0 < mfdb_cnt s g j}" "distinct (mfdb_members s g)" by auto
qed

text \<open>Handing a copy to a member.\<close>

lemma mhif_count_wf:
  "mfdb_wf s \<Longrightarrow> emf_keep s (mhif_count s j)" "tx (mhif_count s j) = tx s"
proof -
  have maps: "map mhif_ifp (mhif_head (mhif_count s j)) = map mhif_ifp (mhif_head s)"
    by (simp add: mhif_count_def map_upd_first_inv)
  then have "mhifs (mhif_count s j) = mhifs s" by (metis list.set_map)
  moreover have "mfdb_cnt (mhif_count s j) = mfdb_cnt s" by (rule mfdb_cnt_cong) (simp add: mhif_count_def)
  moreover have "mfdb_members (mhif_count s j) = mfdb_members s"
    by (simp add: mfdb_members_def mhif_count_def fun_eq_iff)
  moreover assume "mfdb_wf s"
  moreover have "mgrp_fdb (mhif_count s j) = mgrp_fdb s" "osh (mhif_count s j) = osh s"
      "mgrp_cache (mhif_count s j) = mgrp_cache s" "mgrp_cache_ip (mhif_count s j) = mgrp_cache_ip s"
    by (simp_all add: mhif_count_def)
  ultimately show "emf_keep s (mhif_count s j)"
    using maps by (simp add: emf_keep_def mfdb_wf_def mfdb_wf0_def) (simp add: mhif_count_def)
qed (simp add: mhif_count_def)

lemma mi_count_keep:
  assumes wf: "mfdb_wf s" and m: "fdb.lookup (mgrp_fdb s) g = Some m"
  shows "emf_keep s (mgrp_write s (mgrp_addr m) (upd_first (\<lambda>mi. mi_mhif mi = Some j)
      (\<lambda>mi. mi\<lparr>mi_data_fwd := mi_data_fwd mi + 1\<rparr>)))"
proof -
  define u where "u mi = mi\<lparr>mi_data_fwd := mi_data_fwd mi + 1\<rparr>" for mi :: emfc_mi
  define f where "f = upd_first (\<lambda>mi. mi_mhif mi = Some j) u"
  have u: "mi_mhif (u mi) = mi_mhif mi" "mi_ref (u mi) = mi_ref mi" for mi by (simp_all add: u_def)
  have wf0: "mfdb_wf0 s" using wf by (simp add: mfdb_wf_def)
  have mw: "mis_wf (mhifs s) (mi_head m)" "mi_head m \<noteq> []" using mfdb_wfD [OF wf m] by simp_all
  have nz: "mi_ref (u mi) \<noteq> 0" if "mi \<in> set (mi_head m)" for mi
    using mw(1) that by (simp add: mis_wf_def u)
  note upd = mi_cnt_upd [where f = u and i = j, OF mw(1) u(1) nz, folded f_def]
  have "List.find (\<lambda>mi. mi_mhif mi = Some j) (map u (mi_head m)) =
      map_option u (List.find (\<lambda>mi. mi_mhif mi = Some j) (mi_head m))"
    by (rule find_map_same) (simp add: u)
  then have "mi_cnt (map u (mi_head m)) j = mi_cnt (mi_head m) j"
    by (auto simp: mi_cnt_def u split: option.split)
  then have cnt: "mi_cnt (f (mi_head m)) = mi_cnt (mi_head m)"
    using upd(2) by (auto simp: fun_eq_iff)
  have ifs: "mi_ifs (f (mi_head m)) = mi_ifs (mi_head m)"
    unfolding mi_ifs_def f_def by (rule map_upd_first_inv) (simp add: u)
  let ?s = "mgrp_write s (mgrp_addr m) f"
  note lk = mgrp_write_lookup [OF wf0 m, of f]
  have ne: "f (mi_head m) \<noteq> []" using mw(2) by (simp add: f_def)
  have "mfdb_wf ?s"
    using mfdb_wfD [OF wf] ne
    by (intro mfdb_wfI mgrp_write_wf0 [where f = f, OF wf0 m upd(1)])
      (auto simp: lk split: if_splits)
  moreover have "mfdb_cnt ?s = mfdb_cnt s"
    using cnt by (simp add: mfdb_cnt_write [OF wf0 m] mfdb_cnt_at [OF m, symmetric] fun_upd_idem)
  moreover have "mfdb_members ?s = mfdb_members s"
    using ifs m by (simp add: mfdb_members_def fun_eq_iff lk)
  moreover have "map_option mgrp_addr (fdb.lookup (mgrp_fdb ?s) h) =
      map_option mgrp_addr (fdb.lookup (mgrp_fdb s) h)" for h
    using m by (simp add: lk)
  moreover have "iflist_head ?s = iflist_head s" "fwd_ok ?s = fwd_ok s" "emf_enable ?s = emf_enable s"
      "snooper ?s = snooper s" by (simp_all add: mgrp_write_def)
  ultimately have "emf_keep s ?s" by (simp add: emf_keep_def)
  then show ?thesis by (simp add: f_def u_def [abs_def])
qed

text \<open>The group that the loop works on stays where it is.\<close>

definition group_at :: "emfc_info \<Rightarrow> u32 \<Rightarrow> addr \<Rightarrow> bool" where
  "group_at s g p \<longleftrightarrow> map_option mgrp_addr (fdb.lookup (mgrp_fdb s) g) = Some p"

lemma group_at_keep: "emf_keep s s' \<Longrightarrow> group_at s' g p = group_at s g p"
  by (simp add: group_at_def emf_keep_def)

lemma mi_forward_keep:
  assumes wf: "mfdb_wf s" and p: "group_at s g p"
  shows "emf_keep s (mi_forward s p j)" "tx (mi_forward s p j) = tx s @ [Forward j]"
proof -
  obtain s1 r where s1: "forward_fn s j = (s1, r)" by fastforce
  then have f1: "s1 = fst (forward_fn s j)" by simp
  have k1: "emf_keep s s1" "tx s1 = tx s @ [Forward j]" using wf by (simp_all add: f1 emf_keep_refl)
  define s2 where "s2 = (if r \<noteq> SUCCESS then emf_stat inc_data_dropped s1 else mhif_count s1 j)"
  have k2: "emf_keep s s2" "tx s2 = tx s1"
    using k1 mhif_count_wf [of s1 j] emf_keepD(1) [OF k1(1)] emf_keep_trans [OF k1(1)]
    by (auto simp: s2_def)
  have "group_at s2 g p" using p group_at_keep [OF k2(1)] by simp
  then obtain m where
    m: "fdb.lookup (mgrp_fdb s2) g = Some m" "mgrp_addr m = p" by (auto simp: group_at_def)
  have eq: "mi_forward s p j = mgrp_write s2 p (upd_first (\<lambda>mi. mi_mhif mi = Some j)
      (\<lambda>mi. mi\<lparr>mi_data_fwd := mi_data_fwd mi + 1\<rparr>))"
    by (simp add: mi_forward_def s1 s2_def)
  show "emf_keep s (mi_forward s p j)"
    using mi_count_keep [OF emf_keepD(1) [OF k2(1)] m(1), of j] emf_keep_trans [OF k2(1)] m(2)
    by (simp add: eq)
  show "tx (mi_forward s p j) = tx s @ [Forward j]" using k1(2) k2(2) by (simp add: eq mgrp_write_def)
qed

section \<open>Data frames to a group\<close>

lemma fwd_members_law:
  assumes "mfdb_wf s" "group_at s g p" "map mi_mhif mis = map Some js"
  shows "\<exists>s' ok. fwd_members s p i mis = Some (s', ok) \<and> emf_keep s s' \<and>
    (\<exists>ks. tx s' = tx s @ map Forward ks \<and> set ks \<subseteq> set js - {i} \<and>
      (ok \<longrightarrow> ks = filter (\<lambda>j. j \<noteq> i) js)) \<and> (mem_reliable (osh s) \<longrightarrow> ok)"
  using assms
proof (induction mis arbitrary: s js)
  case Nil
  then show ?case by (auto intro: emf_keep_refl)
next
  case (Cons mi mis)
  then obtain j js' where js: "js = j # js'" "mi_mhif mi = Some j" "map mi_mhif mis = map Some js'"
    by auto
  show ?case
  proof (cases "i = j")
    case True
    from Cons.IH [OF Cons.prems(1,2) js(3)] obtain s' ok ks where
      r: "fwd_members s p i mis = Some (s', ok)" "emf_keep s s'" "tx s' = tx s @ map Forward ks"
        "set ks \<subseteq> set js' - {i}" "ok \<longrightarrow> ks = filter (\<lambda>j. j \<noteq> i) js'" "mem_reliable (osh s) \<longrightarrow> ok" by blast
    have "fwd_members s p i (mi # mis) = Some (s', ok)" using r(1) js True by simp
    moreover have "set ks \<subseteq> set js - {i}" "ok \<longrightarrow> ks = filter (\<lambda>j. j \<noteq> i) js"
      using r(4,5) True js(1) by auto
    ultimately show ?thesis using r(2,3,6) by blast
  next
    case False
    obtain s1 d where s1: "PKTDUP s = (s1, d)" by fastforce
    note dup = PKTDUP_keep [OF Cons.prems(1) s1]
    show ?thesis
    proof (cases d)
      case F: False
      have "fwd_members s p i (mi # mis) = Some (emf_stat inc_data_dropped s1, False)"
        using js False s1 F by simp
      moreover have "\<exists>ks. tx (emf_stat inc_data_dropped s1) = tx s @ map Forward ks \<and>
          set ks \<subseteq> set js - {i} \<and> (False \<longrightarrow> ks = filter (\<lambda>j. j \<noteq> i) js)"
        using dup(2) by (intro exI [of _ "[]"]) simp
      moreover have "emf_keep s (emf_stat inc_data_dropped s1)" "\<not> mem_reliable (osh s)"
        using dup(1,3) F by auto
      ultimately show ?thesis by blast
    next
      case True
      have g1: "group_at s1 g p" using Cons.prems(2) group_at_keep [OF dup(1)] by simp
      note fw = mi_forward_keep [OF emf_keepD(1) [OF dup(1)] g1, of j]
      have k2: "emf_keep s (mi_forward s1 p j)" by (rule emf_keep_trans [OF dup(1) fw(1)])
      have g2: "group_at (mi_forward s1 p j) g p" using Cons.prems(2) group_at_keep [OF k2] by simp
      from Cons.IH [OF emf_keepD(1) [OF k2] g2 js(3)] obtain s' ok ks where
        r: "fwd_members (mi_forward s1 p j) p i mis = Some (s', ok)" "emf_keep (mi_forward s1 p j) s'"
          "tx s' = tx (mi_forward s1 p j) @ map Forward ks" "set ks \<subseteq> set js' - {i}"
          "ok \<longrightarrow> ks = filter (\<lambda>j. j \<noteq> i) js'" "mem_reliable (osh (mi_forward s1 p j)) \<longrightarrow> ok" by blast
      have "fwd_members s p i (mi # mis) = Some (s', ok)" using r(1) js False s1 True by simp
      moreover have "tx s' = tx s @ map Forward (j # ks)" using r(3) fw(2) dup(2) by simp
      moreover have "set (j # ks) \<subseteq> set js - {i}" "ok \<longrightarrow> j # ks = filter (\<lambda>j. j \<noteq> i) js"
        using r(4,5) False js(1) by auto
      moreover have "mem_reliable (osh s) \<longrightarrow> ok" using r(6) emf_keepD(6) [OF k2] by simp
      ultimately show ?thesis using emf_keep_trans [OF k2 r(2)] by blast
    qed
  qed
qed

lemma fwd_group_law:
  assumes wf: "mfdb_wf s" and p: "group_at s g p" and mis: "map mi_mhif mis = map Some js" "mis \<noteq> []"
  shows "\<exists>s' r. fwd_group s p i mis = Some (s', r) \<and> emf_keep s s' \<and>
    (\<exists>ks. tx s' = tx s @ map Forward ks \<and> set ks \<subseteq> set js - {i} \<and>
      (r = EMF_TAKEN \<and> ks = filter (\<lambda>j. j \<noteq> i) js \<or> r = EMF_DROP \<and> \<not> mem_reliable (osh s)))"
proof -
  have js: "js \<noteq> []" "map mi_mhif (butlast mis) = map Some (butlast js)" "mi_mhif (last mis) = Some (last js)"
    using mis by (auto simp: map_butlast last_map [symmetric]) (metis last_map list.map_disc_iff)
  then have app: "js = butlast js @ [last js]" by simp
  from fwd_members_law [OF wf p js(2), of i] obtain s1 ok ks where
    s1: "fwd_members s p i (butlast mis) = Some (s1, ok)" "emf_keep s s1"
      "tx s1 = tx s @ map Forward ks" "set ks \<subseteq> set (butlast js) - {i}"
      "ok \<longrightarrow> ks = filter (\<lambda>j. j \<noteq> i) (butlast js)" "mem_reliable (osh s) \<longrightarrow> ok" by blast
  have sub: "set ks \<subseteq> set js - {i}" using s1(4) in_set_butlastD by fastforce
  show ?thesis
  proof (cases ok)
    case False
    then have "fwd_group s p i mis = Some (s1, EMF_DROP)"
      using s1(1) mis(2) by (simp add: fwd_group_def)
    then show ?thesis using s1 sub False by blast
  next
    case True
    define s2 where "s2 = (if i \<noteq> last js then mi_forward s1 p (last js) else s1)"
    have eq: "fwd_group s p i mis = Some (emf_stat inc_data_fwd s2, EMF_TAKEN)"
      using s1(1) mis(2) True js(3) by (simp add: fwd_group_def s2_def)
    have g1: "group_at s1 g p" using p group_at_keep [OF s1(2)] by simp
    note fw = mi_forward_keep [OF emf_keepD(1) [OF s1(2)] g1, of "last js"]
    have keep: "emf_keep s (emf_stat inc_data_fwd s2)"
      using s1(2) emf_keep_trans [OF s1(2) fw(1)] by (simp add: s2_def)
    have ks: "filter (\<lambda>j. j \<noteq> i) js = ks @ (if i \<noteq> last js then [last js] else [])"
      using s1(5) True by (subst app) auto
    have "tx (emf_stat inc_data_fwd s2) = tx s @ map Forward (filter (\<lambda>j. j \<noteq> i) js)"
      using fw(2) s1(3) unfolding ks by (simp add: s2_def)
    moreover have "set (filter (\<lambda>j. j \<noteq> i) js) \<subseteq> set js - {i}" by auto
    ultimately show ?thesis using eq keep by blast
  qed
qed

section \<open>Frames of unknown groups\<close>

text \<open>The ports a frame of an unknown group is due on.\<close>

definition port_due :: "u8 \<Rightarrow> ifp \<Rightarrow> emfc_iflist \<Rightarrow> bool" where
  "port_due proto i p \<longleftrightarrow> ifl_ifp p \<noteq> i \<and>
     (if proto = IP_PROT_IGMP then rtport_ref p \<noteq> 0 else rtport_ref p + uffp_ref p \<noteq> 0)"

definition ports_due :: "emfc_info \<Rightarrow> u8 \<Rightarrow> ifp \<Rightarrow> ifp list" where
  "ports_due s proto i = map ifl_ifp (filter (port_due proto i) (iflist_head s))"

text \<open>
  An outcome: the instance keeps its content, the log grows by \<open>pre\<close> and copies for some of
  the ports \<open>js\<close>; when nothing was dropped, for all of them.
\<close>

definition sent_to :: "emfc_info \<Rightarrow> emf_tx list \<Rightarrow> ifp list \<Rightarrow> emfc_info \<times> int \<Rightarrow> bool" where
  "sent_to s pre js res \<longleftrightarrow> (let (s', r) = res in emf_keep s s' \<and>
     (r = EMF_TAKEN \<and> tx s' = tx s @ pre @ map Forward js \<or>
      r = EMF_DROP \<and> \<not> mem_reliable (osh s) \<and>
        (\<exists>sent. tx s' = tx s @ sent \<and> set sent \<subseteq> set pre \<union> Forward ` set js)))"

text \<open>The copy for the IP stack, unless the frame came from there.\<close>

definition tx_prefix :: "bool \<Rightarrow> emf_tx list" where
  "tx_prefix rt_port = (if rt_port then [] else [SendUp])"

lemma unreg_flood_law:
  assumes "mfdb_wf s"
  shows "\<exists>s' x ks. unreg_flood s proto i n ps = (s', x) \<and> emf_keep s s' \<and>
    tx s' = tx s @ map Forward ks \<and> set ks \<subseteq> ifl_ifp ` {p \<in> set ps. port_due proto i p} \<and>
    (x \<noteq> None \<longrightarrow> ks = map ifl_ifp (filter (port_due proto i) ps)) \<and> (mem_reliable (osh s) \<longrightarrow> x \<noteq> None)"
  using assms
proof (induction ps arbitrary: s n)
  case Nil
  then show ?case by (auto intro: emf_keep_refl)
next
  case (Cons p ps)
  show ?case
  proof (cases "port_due proto i p")
    case False
    then have eq: "unreg_flood s proto i n (p # ps) = unreg_flood s proto i n ps"
      by (auto simp: port_due_def)
    from Cons.IH [OF Cons.prems, of n] obtain s' x ks where
      r: "unreg_flood s proto i n ps = (s', x)" "emf_keep s s'" "tx s' = tx s @ map Forward ks"
        "set ks \<subseteq> ifl_ifp ` {p \<in> set ps. port_due proto i p}"
        "x \<noteq> None \<longrightarrow> ks = map ifl_ifp (filter (port_due proto i) ps)"
        "mem_reliable (osh s) \<longrightarrow> x \<noteq> None" by blast
    have "set ks \<subseteq> ifl_ifp ` {q \<in> set (p # ps). port_due proto i q}"
      using r(4) by (rule subset_trans) (rule image_mono, auto)
    moreover have "x \<noteq> None \<longrightarrow> ks = map ifl_ifp (filter (port_due proto i) (p # ps))"
      using r(5) False by simp
    ultimately show ?thesis
      unfolding eq using r(1-3,6) by (intro exI [of _ s'] exI [of _ x] exI [of _ ks] conjI)
  next
    case True
    obtain s1 d where s1: "PKTDUP s = (s1, d)" by fastforce
    note dup = PKTDUP_keep [OF Cons.prems s1]
    show ?thesis
    proof (cases d)
      case F: False
      have "unreg_flood s proto i n (p # ps) = (prot_stat proto inc_igmp_dropped inc_data_dropped s1, None)"
        using True s1 F by (auto simp: port_due_def)
      moreover have "emf_keep s (prot_stat proto inc_igmp_dropped inc_data_dropped s1)"
          "tx (prot_stat proto inc_igmp_dropped inc_data_dropped s1) = tx s @ map Forward []"
          "set [] \<subseteq> ifl_ifp ` {q \<in> set (p # ps). port_due proto i q}" "\<not> mem_reliable (osh s)"
        using dup F by auto
      ultimately show ?thesis by blast
    next
      case d: True
      obtain s2 r2 where s2: "forward_fn s1 (ifl_ifp p) = (s2, r2)" by fastforce
      then have f2: "s2 = fst (forward_fn s1 (ifl_ifp p))" by simp
      define s3 where "s3 = (if r2 \<noteq> SUCCESS then prot_stat proto inc_igmp_dropped inc_data_dropped s2 else s2)"
      have k3: "emf_keep s s3" "tx s3 = tx s @ [Forward (ifl_ifp p)]"
        using dup(1,2) by (auto simp: s3_def f2)
      have eq: "unreg_flood s proto i n (p # ps) = unreg_flood s3 proto i (n + 1) ps"
        using True s1 d s2 by (auto simp: port_due_def s3_def)
      from Cons.IH [OF emf_keepD(1) [OF k3(1)], of "n + 1"] obtain s' x ks where
        r: "unreg_flood s3 proto i (n + 1) ps = (s', x)" "emf_keep s3 s'"
          "tx s' = tx s3 @ map Forward ks" "set ks \<subseteq> ifl_ifp ` {p \<in> set ps. port_due proto i p}"
          "x \<noteq> None \<longrightarrow> ks = map ifl_ifp (filter (port_due proto i) ps)"
          "mem_reliable (osh s3) \<longrightarrow> x \<noteq> None" by blast
      have "tx s' = tx s @ map Forward (ifl_ifp p # ks)" using r(3) k3(2) by simp
      moreover have "set (ifl_ifp p # ks) \<subseteq> ifl_ifp ` {q \<in> set (p # ps). port_due proto i q}"
      proof -
        have "ifl_ifp p \<in> ifl_ifp ` {q \<in> set (p # ps). port_due proto i q}"
          using True by (intro imageI) simp
        moreover have "set ks \<subseteq> ifl_ifp ` {q \<in> set (p # ps). port_due proto i q}"
          using r(4) by (rule subset_trans) (rule image_mono, auto)
        ultimately show ?thesis by simp
      qed
      moreover have "x \<noteq> None \<longrightarrow> ifl_ifp p # ks = map ifl_ifp (filter (port_due proto i) (p # ps))"
        using r(5) True by simp
      moreover have "mem_reliable (osh s) \<longrightarrow> x \<noteq> None" using r(6) emf_keepD(6) [OF k3(1)] by simp
      ultimately show ?thesis
        unfolding eq using r(1) emf_keep_trans [OF k3(1) r(2)]
        by (intro exI [of _ s'] exI [of _ x] exI [of _ "ifl_ifp p # ks"] conjI)
    qed
  qed
qed

lemma unreg_ports_law:
  assumes wf: "mfdb_wf s"
  shows "sent_to s [] (ports_due s proto i) (unreg_ports s proto i rt_port)"
proof -
  from unreg_flood_law [OF wf, of proto i 0 "iflist_head s"] obtain s' x ks where
    r: "unreg_flood s proto i 0 (iflist_head s) = (s', x)" "emf_keep s s'"
      "tx s' = tx s @ map Forward ks"
      "set ks \<subseteq> ifl_ifp ` {p \<in> set (iflist_head s). port_due proto i p}"
      "x \<noteq> None \<longrightarrow> ks = map ifl_ifp (filter (port_due proto i) (iflist_head s))"
      "mem_reliable (osh s) \<longrightarrow> x \<noteq> None" by blast
  show ?thesis
  proof (cases x)
    case None
    then have eq: "unreg_ports s proto i rt_port = (s', EMF_DROP)" by (simp add: unreg_ports_def r(1))
    have "set (map Forward ks) \<subseteq> Forward ` set (ports_due s proto i)"
      using r(4) by (auto simp: ports_due_def)
    then show ?thesis unfolding eq sent_to_def using r(2,3,6) None by auto
  next
    case (Some n)
    then have "\<exists>s''. unreg_ports s proto i rt_port = (s'', EMF_TAKEN) \<and> emf_keep s s'' \<and> tx s'' = tx s'"
      using r(2) by (auto simp: unreg_ports_def r(1))
    then show ?thesis using r(3,5) Some by (auto simp: sent_to_def ports_due_def)
  qed
qed

lemma sent_to_prefix:
  assumes "emf_keep s t" "tx t = tx s @ pre" "sent_to t [] js res"
  shows "sent_to s pre js res"
proof -
  obtain s' r where res: "res = (s', r)" by fastforce
  have k: "emf_keep s s'" "mem_reliable (osh t) = mem_reliable (osh s)"
    using assms(1,3) emf_keep_trans [OF assms(1)] emf_keepD(6) [OF assms(1)]
    by (auto simp: sent_to_def res)
  from assms(3) consider (1) "r = EMF_TAKEN" "tx s' = tx t @ map Forward js"
    | (2) sent where "r = EMF_DROP" "\<not> mem_reliable (osh t)" "tx s' = tx t @ sent" "set sent \<subseteq> Forward ` set js"
    by (auto simp: sent_to_def res)
  then show ?thesis
  proof cases
    case 1
    then show ?thesis using k assms(2) by (simp add: sent_to_def res)
  next
    case 2
    then have "tx s' = tx s @ (pre @ sent)" "set (pre @ sent) \<subseteq> set pre \<union> Forward ` set js"
      using assms(2) by auto
    with 2(1,2) k show ?thesis by (auto simp: sent_to_def res)
  qed
qed

text \<open>A frame of an unknown group: to the IP stack unless it came from there, and to the ports due.\<close>

lemma unreg_frame_law:
  assumes wf: "mfdb_wf s"
  shows "sent_to s (tx_prefix rt_port) (ports_due s proto i)
    (emfc_unreg_frame_handle s i proto rt_port)"
proof (cases rt_port)
  case True
  then show ?thesis using unreg_ports_law [OF wf, of proto i] by (simp add: emfc_unreg_frame_handle_def tx_prefix_def)
next
  case False
  obtain s1 d where s1: "PKTDUP s = (s1, d)" by fastforce
  note dup = PKTDUP_keep [OF wf s1]
  show ?thesis
  proof (cases d)
    case F: False
    then have "emfc_unreg_frame_handle s i proto rt_port =
        (prot_stat proto inc_igmp_dropped inc_data_dropped s1, EMF_DROP)"
      using False s1 by (simp add: emfc_unreg_frame_handle_def tx_prefix_def)
    then show ?thesis using dup F by (auto simp: sent_to_def intro!: exI [of _ "[]"])
  next
    case True
    define s2 where "s2 = prot_stat proto inc_igmp_sentup inc_data_sentup (sendup_fn s1)"
    have k2: "emf_keep s s2" "tx s2 = tx s @ [SendUp]" using dup(1,2) by (simp_all add: s2_def)
    have "ports_due s2 proto i = ports_due s proto i" using k2(1) by (simp add: ports_due_def emf_keep_def)
    with sent_to_prefix [OF k2 unreg_ports_law [OF emf_keepD(1) [OF k2(1)], of proto i rt_port]]
    show ?thesis using False True s1 by (simp add: emfc_unreg_frame_handle_def s2_def tx_prefix_def)
  qed
qed

section \<open>Data frames\<close>

lemma group_find_keep:
  assumes wf: "mfdb_wf s" and g: "g \<noteq> 0" and find: "emfc_mfdb_group_find s g = (s1, p)"
  shows "emf_keep s s1" "tx s1 = tx s" "p \<noteq> 0 \<Longrightarrow> group_at s1 g p"
    "p = 0 \<Longrightarrow> mfdb_members s g = []"
    "p \<noteq> 0 \<Longrightarrow> \<exists>m. mgrp_at s1 p = Some m \<and> map mi_mhif (mi_head m) = map Some (mfdb_members s g) \<and>
       mi_head m \<noteq> []"
proof -
  note st = group_find_state [OF find]
  have wf0: "mfdb_wf0 s" using wf by (simp add: mfdb_wf_def)
  have wf1: "mfdb_wf s1" using wf group_find_wf0 [OF wf0 find] st(1) by (simp add: mfdb_wf_def)
  have fr: "iflist_head s1 = iflist_head s" "fwd_ok s1 = fwd_ok s" "tx s1 = tx s"
      "emf_enable s1 = emf_enable s" "snooper s1 = snooper s"
    using st(4) by (simp_all add: mfdb_frame_def)
  have mem: "mfdb_members s1 = mfdb_members s" by (rule ext) (simp add: mfdb_members_def st(1))
  show k: "emf_keep s s1"
    using wf1 mem fr st mfdb_cnt_cong [OF st(1)] by (simp add: emf_keep_def)
  show "tx s1 = tx s" by (rule fr)
  from wf0 g find show "p \<noteq> 0 \<Longrightarrow> group_at s1 g p"
    by (cases rule: group_find_cases) (simp_all add: group_at_def)
  from wf0 g find show "p = 0 \<Longrightarrow> mfdb_members s g = []"
    by (cases rule: group_find_cases) (simp_all add: mfdb_members_def st(1))
  assume p: "p \<noteq> 0"
  from wf0 g find show "\<exists>m. mgrp_at s1 p = Some m \<and>
      map mi_mhif (mi_head m) = map Some (mfdb_members s g) \<and> mi_head m \<noteq> []"
  proof (cases rule: group_find_cases)
    case none
    with p show ?thesis by simp
  next
    case (found m)
    have "mfdb_members s g = mi_ifs (mi_head m)" using found(3) by (simp add: mfdb_members_def st(1))
    with found mi_ifs_wf(1) [OF found(7)] mfdb_wfD [OF wf1 found(3)] show ?thesis by simp
  qed
qed

text \<open>
  A data frame: link-local groups are left to the bridge, a group with members is sent to each
  of them except the port the frame came from, any other group is handled as unknown.
\<close>

lemma data_input_law:
  assumes wf: "mfdb_wf s" and g: "g \<noteq> 0"
  shows "\<exists>res. emfc_data_input s i proto g rt_port = Some res \<and>
    (if MCAST_ADDR_LINKLOCAL g then snd res = EMF_NOP \<and> emf_keep s (fst res) \<and> tx (fst res) = tx s
     else if mfdb_members s g = [] then sent_to s (tx_prefix rt_port) (ports_due s proto i) res
     else sent_to s (tx_prefix rt_port) (filter (\<lambda>j. j \<noteq> i) (mfdb_members s g)) res)"
proof (cases "MCAST_ADDR_LINKLOCAL g")
  case True
  then show ?thesis using wf by (simp add: emfc_data_input_def Let_def emf_keep_refl)
next
  case ll: False
  define s1 where "s1 = emf_stat inc_data_frames s"
  have k1: "emf_keep s s1" "tx s1 = tx s" using wf by (simp_all add: s1_def emf_keep_refl)
  obtain s2 p where find: "emfc_mfdb_group_find s1 g = (s2, p)" by fastforce
  note gf = group_find_keep [OF emf_keepD(1) [OF k1(1)] g find]
  have k2: "emf_keep s s2" "tx s2 = tx s" using emf_keep_trans [OF k1(1) gf(1)] gf(2) k1(2) by simp_all
  have mem1: "mfdb_members s1 g = mfdb_members s g" using emf_keepD(3) [OF k1(1)] by simp
  show ?thesis
  proof (cases "p = 0")
    case True
    have due: "ports_due s2 proto i = ports_due s proto i"
      using k2(1) by (simp add: ports_due_def emf_keep_def)
    have "emfc_data_input s i proto g rt_port = Some (emfc_unreg_frame_handle s2 i proto rt_port)"
      using ll True find by (simp add: emfc_data_input_def s1_def)
    moreover have "sent_to s (tx_prefix rt_port) (ports_due s proto i) (emfc_unreg_frame_handle s2 i proto rt_port)"
      using unreg_frame_law [OF emf_keepD(1) [OF k2(1)], of rt_port proto i] k2 emf_keepD(6) [OF k2(1)]
        emf_keep_trans [OF k2(1)]
      by (auto simp: sent_to_def tx_prefix_def due split: prod.splits)
    ultimately show ?thesis using ll gf(4) [OF True] mem1 by simp
  next
    case p: False
    from gf(5) [OF p] mem1 obtain m where m: "mgrp_at s2 p = Some m"
        "map mi_mhif (mi_head m) = map Some (mfdb_members s g)" "mi_head m \<noteq> []" by auto
    then have ne: "mfdb_members s g \<noteq> []" by auto
    have group: "\<exists>res. fwd_group s3 p i (mi_head m) = Some res \<and>
        sent_to s3 [] (filter (\<lambda>j. j \<noteq> i) (mfdb_members s g)) res"
      if k: "emf_keep s2 s3" for s3
    proof -
      have "group_at s3 g p" using gf(3) [OF p] group_at_keep [OF k] by simp
      from fwd_group_law [OF emf_keepD(1) [OF k] this m(2,3), of i] obtain s' r ks where
        r: "fwd_group s3 p i (mi_head m) = Some (s', r)" "emf_keep s3 s'" "tx s' = tx s3 @ map Forward ks"
          "set ks \<subseteq> set (mfdb_members s g) - {i}"
          "r = EMF_TAKEN \<and> ks = filter (\<lambda>j. j \<noteq> i) (mfdb_members s g) \<or>
           r = EMF_DROP \<and> \<not> mem_reliable (osh s3)" by blast
      have "set (map Forward ks) \<subseteq> Forward ` set (filter (\<lambda>j. j \<noteq> i) (mfdb_members s g))"
        using r(4) unfolding set_map set_filter by (intro image_mono) blast
      with r show ?thesis unfolding sent_to_def by auto
    qed
    show ?thesis
    proof (cases rt_port)
      case True
      then have "emfc_data_input s i proto g rt_port = fwd_group s2 p i (mi_head m)"
        using ll p find m(1) by (simp add: emfc_data_input_def s1_def)
      with group [OF emf_keep_refl [OF emf_keepD(1) [OF k2(1)]]] sent_to_prefix [OF k2(1), of "[]"] k2(2)
      show ?thesis using True ll ne by (auto simp: tx_prefix_def)
    next
      case False
      obtain s3 d where s3: "PKTDUP s2 = (s3, d)" by fastforce
      note dup = PKTDUP_keep [OF emf_keepD(1) [OF k2(1)] s3]
      show ?thesis
      proof (cases d)
        case F: False
        then have "emfc_data_input s i proto g rt_port = Some (emf_stat inc_data_dropped s3, EMF_DROP)"
          using ll p find m(1) False s3 by (simp add: emfc_data_input_def s1_def)
        moreover have "sent_to s (tx_prefix rt_port) js (emf_stat inc_data_dropped s3, EMF_DROP)" for js
          using dup F emf_keep_trans [OF k2(1) dup(1)] k2(2) emf_keepD(6) [OF k2(1)]
          by (auto simp: sent_to_def intro!: exI [of _ "[]"])
        ultimately show ?thesis using ll ne by auto
      next
        case True
        define s4 where "s4 = emf_stat inc_data_sentup (sendup_fn s3)"
        have k4: "emf_keep s2 s4" "tx s4 = tx s @ [SendUp]" using dup k2(2) by (simp_all add: s4_def)
        have "emfc_data_input s i proto g rt_port = fwd_group s4 p i (mi_head m)"
          using ll p find m(1) False s3 True by (simp add: emfc_data_input_def s1_def s4_def)
        with group [OF k4(1)] sent_to_prefix [OF emf_keep_trans [OF k2(1) k4(1)] k4(2)]
        show ?thesis using False ll ne by (auto simp: tx_prefix_def)
      qed
    qed
  qed
qed

end
