(* ===== verification/Emf_Config.thy ===== *)
theory Emf_Config
  imports Emf_Input_Laws
begin

text \<open>
  Configuration of the forwarding layer and of the snooper (emfc.c, igsc.c): the requests of
  the user-space tools, enabling and disabling, statistics, listings, and the set-up and
  removal of instances. The argument area of a request is a byte buffer that the commands
  cast to different structures: the fields that are read are given by name, and what is
  written into it is the reply.
\<close>

section \<open>Requests\<close>

datatype cfg_reply =
  NoReply
| Text string
| BoolReply bool
| MfdbReply "mfdb_entry list"
| PortsReply "string list"
| EmfStatsReply emf_stats
| SdbReply "(u32 \<times> u32 \<times> string) list"
| RoutersReply "(u32 \<times> string) list"
| IgsStatsReply igs_stats

record cfg_request =
  command_id :: u32
  oper_type :: nat
  status :: nat
  req_size :: nat
  arg_bool :: bool
  arg_mgrp_ip :: u32
  arg_if_ptr :: ifp
  reply :: cfg_reply

abbreviation "CFG_SUCCESS \<equiv> 1 :: nat"
abbreviation "CFG_FAILURE \<equiv> 2 :: nat"
abbreviation "CFG_CMD_UNKNOWN \<equiv> 3 :: nat"
abbreviation "CFG_OPER_UNKNOWN \<equiv> 4 :: nat"

text \<open>\<open>size = sprintf(arg, msg)\<close>, with the status; every message ends with a newline.\<close>

definition cfg_text :: "nat \<Rightarrow> string \<Rightarrow> cfg_request \<Rightarrow> cfg_request" where
  "cfg_text st msg c = c\<lparr>status := st, req_size := length msg + 1, reply := Text (msg @ [CHR 0x0A])\<rparr>"

text \<open>\<open>%d\<close> of a 32-bit value.\<close>

fun dec_nat :: "nat \<Rightarrow> string" where
  "dec_nat n = (if n < 10 then [char_of (48 + n)] else dec_nat (n div 10) @ [char_of (48 + n mod 10)])"

declare dec_nat.simps [simp del]

definition dec_int :: "int \<Rightarrow> string" where
  "dec_int k = (if k < 0 then CHR ''-'' # dec_nat (nat (- k)) else dec_nat (nat k))"

definition cfg_ok :: "cfg_request \<Rightarrow> cfg_request" where
  "cfg_ok c = c\<lparr>status := CFG_SUCCESS\<rparr>"

text \<open>Commands that clear the size first, call an operation and report on it.\<close>

definition cfg_done :: "int \<Rightarrow> string \<Rightarrow> cfg_request \<Rightarrow> cfg_request" where
  "cfg_done r msg c =
     (if r \<noteq> SUCCESS then cfg_text CFG_FAILURE msg c else cfg_ok (c\<lparr>req_size := 0\<rparr>))"

section \<open>Statistics\<close>

definition sizeof_emf_stats :: nat where "sizeof_emf_stats = 44"
definition sizeof_igs_stats :: nat where "sizeof_igs_stats = 48"

definition emfc_stats_get :: "emfc_info \<Rightarrow> nat \<Rightarrow> emf_stats option" where
  "emfc_stats_get s sz = (if sz < sizeof_emf_stats then None else Some (stats s))"

definition igsc_stats_get :: "igsc_info \<Rightarrow> nat \<Rightarrow> igs_stats option" where
  "igsc_stats_get w sz = (if sz < sizeof_igs_stats then None else Some (sstats w))"

section \<open>Enabling and disabling\<close>

text \<open>
  \<open>hooks_register_fn\<close> succeeds as the environment says; the result of the snooper's callbacks
  is not used.
\<close>

definition emf_set_enable :: "igsc_info \<Rightarrow> bool \<Rightarrow> igsc_info" where
  "emf_set_enable w b = w\<lparr>emf_handle := (emf_handle w)\<lparr>emf_enable := b\<rparr>\<rparr>"

definition emf_set_hooks :: "igsc_info \<Rightarrow> bool \<Rightarrow> igsc_info" where
  "emf_set_hooks w b = w\<lparr>emf_handle := (emf_handle w)\<lparr>hooks_registered := b\<rparr>\<rparr>"

definition emfc_cfg_emf_enable :: "igsc_info \<Rightarrow> cfg_request \<Rightarrow> (igsc_info \<times> cfg_request) option" where
  "emfc_cfg_emf_enable w c =
     (if oper_type c = 1 then
        Some (w, c\<lparr>reply := BoolReply (emf_enable (emf_handle w)), req_size := 1, status := CFG_SUCCESS\<rparr>)
      else if oper_type c = 2 then
        (if emf_enable (emf_handle w) = arg_bool c then
           Some (w, cfg_text CFG_FAILURE ''Duplicate configuration request'' c)
         else
           let w1 = emf_set_enable w (arg_bool c) in
           if arg_bool c then
             (if \<not> hooks_ok (emf_handle w1) then
                Some (w1, cfg_text CFG_FAILURE ''Duplicate hooks registration'' c)
              else
                let w2 = emf_set_hooks w1 True in
                Some (if snooper (emf_handle w2) then fst (igsc_emf_enabled w2) else w2, cfg_ok c))
           else
             (case (if snooper (emf_handle w1) then map_option fst (igsc_emf_disabled w1) else Some w1) of
                None \<Rightarrow> None
              | Some w2 \<Rightarrow>
                  let w3 = emf_set_hooks w2 False in
                  Some (w3\<lparr>emf_handle := emfc_iflist_clear (emfc_mfdb_clear (emf_handle w3))\<rparr>, cfg_ok c)))
      else Some (w, cfg_text CFG_OPER_UNKNOWN ''Unknown operation'' c))"

section \<open>The forwarding layer's requests\<close>

definition cfg_mfdb :: "igsc_info \<Rightarrow> (emfc_info \<times> int) option \<Rightarrow> string \<Rightarrow> cfg_request
    \<Rightarrow> (igsc_info \<times> cfg_request) option" where
  "cfg_mfdb w x msg c = map_option (\<lambda>(e, r). (w\<lparr>emf_handle := e\<rparr>, cfg_done r msg c)) x"

definition cfg_list :: "'a option \<Rightarrow> ('a \<Rightarrow> cfg_reply) \<Rightarrow> string \<Rightarrow> cfg_request \<Rightarrow> cfg_request" where
  "cfg_list x f msg c =
     (case x of None \<Rightarrow> cfg_text CFG_FAILURE msg c | Some l \<Rightarrow> cfg_ok (c\<lparr>reply := f l\<rparr>))"

definition emfc_cfg_request_process ::
    "(ifp \<Rightarrow> string) \<Rightarrow> igsc_info \<Rightarrow> cfg_request \<Rightarrow> (igsc_info \<times> cfg_request) option" where
  "emfc_cfg_request_process nm w c =
     (let e = emf_handle w; cmd = command_id c in
      if cmd = 1 then emfc_cfg_emf_enable w c
      else if cmd = 2 then
        cfg_mfdb w (emfc_mfdb_membership_add e (arg_mgrp_ip c) (arg_if_ptr c)) ''Unable to add entry'' c
      else if cmd = 3 then
        cfg_mfdb w (emfc_mfdb_membership_del e (arg_mgrp_ip c) (arg_if_ptr c)) ''MFDB entry not found'' c
      else if cmd = 4 then Some (w\<lparr>emf_handle := emfc_mfdb_clear e\<rparr>, cfg_ok c)
      else if cmd = 5 then
        map_option (\<lambda>l. (w, cfg_ok (c\<lparr>reply := MfdbReply l\<rparr>))) (emfc_mfdb_list nm e)
      else if cmd = 12 then
        cfg_mfdb w (Some (emfc_uffp_add e (arg_if_ptr c))) ''Unknown interface, UFFP add failed'' c
      else if cmd = 13 then
        cfg_mfdb w (Some (emfc_uffp_del e (arg_if_ptr c))) ''Unknown interface, UFFP del failed'' c
      else if cmd = 14 then
        Some (w, cfg_list (emfc_uffp_list nm e (req_size c)) PortsReply ''UFFP list get failed'' c)
      else if cmd = 15 then
        cfg_mfdb w (Some (emfc_rtport_add e (arg_if_ptr c))) ''Unknown interface, rtport add failed'' c
      else if cmd = 16 then
        cfg_mfdb w (Some (emfc_rtport_del e (arg_if_ptr c))) ''Unknown interface, rtport del failed'' c
      else if cmd = 17 then
        Some (w, cfg_list (emfc_rtport_list nm e (req_size c)) PortsReply ''rtport list get failed'' c)
      else if cmd = 18 then
        Some (w, cfg_list (emfc_stats_get e (req_size c)) EmfStatsReply ''EMF stats get failed'' c)
      else Some (w, cfg_text CFG_CMD_UNKNOWN ''Unknown command'' c))"

section \<open>The snooper's requests\<close>

definition igsc_cfg_request_process ::
    "(ifp \<Rightarrow> string) \<Rightarrow> igsc_info \<Rightarrow> cfg_request \<Rightarrow> cfg_request option" where
  "igsc_cfg_request_process nm w c =
     (let cmd = command_id c in
      if cmd = 6 then
        Some (cfg_list (igsc_stats_get w (req_size c)) IgsStatsReply ''IGS stats get failed'' c)
      else if cmd = 4 then map_option (\<lambda>l. cfg_ok (c\<lparr>reply := SdbReply l\<rparr>)) (igsc_sdb_list nm w)
      else if cmd = 5 then
        Some (cfg_list (igsc_rtport_list nm w (req_size c)) RoutersReply ''RTPORT list get failed'' c)
      else Some (cfg_text CFG_CMD_UNKNOWN (''Unknown command id '' @ dec_int (sint cmd)) c))"

section \<open>Instances of the forwarding layer\<close>

text \<open>
  The instance list, newest first. \<open>OSL_LOCK_CREATE\<close> may fail; \<open>lk\<close> says which of the calls of
  a set-up succeed, and the wrapper is a null pointer when \<open>wr\<close> is false. The memory of the
  instance itself comes from the caller's handle \<open>os\<close>.
\<close>

definition emfc_instance_find :: "emfc_info list \<Rightarrow> string \<Rightarrow> emfc_info option" where
  "emfc_instance_find es i = List.find (\<lambda>e. inst_id e = i) es"

definition emfc_new :: "string \<Rightarrow> osl \<Rightarrow> (nat \<Rightarrow> bool) \<Rightarrow> bool \<Rightarrow> emfc_info" where
  "emfc_new i os fwd hk = emfc_mfdb_init \<lparr>inst_id = take 15 i, mgrp_fdb = (\<lambda>_. []), mhif_head = [],
     mgrp_cache_ip = 0, mgrp_cache = 0, osh = os, stats = zero_stats, snooper = False, fwd_ok = fwd,
     hooks_ok = hk, hooks_registered = False, tx = [], emf_enable = False, iflist_head = []\<rparr>"

definition emfc_init :: "emfc_info list \<Rightarrow> string \<Rightarrow> osl \<Rightarrow> bool \<Rightarrow> (nat \<Rightarrow> bool) \<Rightarrow> bool \<Rightarrow> (nat \<Rightarrow> bool)
    \<Rightarrow> emfc_info list \<times> emfc_info option" where
  "emfc_init es i os wr fwd hk lk =
     (if \<not> wr then (es, None)
      else let (os', p) = MALLOC os in
        if p = 0 \<or> \<not> lk 0 \<or> \<not> lk 1 then (es, None)
        else let e = emfc_new i os' fwd hk in (e # es, Some e))"

definition emfc_igmp_snooper_register :: "emfc_info list \<Rightarrow> string \<Rightarrow> emfc_info option" where
  "emfc_igmp_snooper_register es i =
     (case emfc_instance_find es i of None \<Rightarrow> None | Some e \<Rightarrow> Some (e\<lparr>snooper := True\<rparr>))"

definition emfc_igmp_snooper_unregister :: "emfc_info \<Rightarrow> emfc_info" where
  "emfc_igmp_snooper_unregister e = e\<lparr>snooper := False\<rparr>"

text \<open>What \<open>emfc_exit\<close> leaves of the instance before its memory is freed, and of the list.\<close>

definition emfc_exit :: "emfc_info list \<Rightarrow> emfc_info \<Rightarrow> emfc_info list \<times> emfc_info" where
  "emfc_exit es e =
     (let e1 = emfc_iflist_clear (emfc_mfdb_clear (e\<lparr>hooks_registered := False\<rparr>)) in
      (del_first (\<lambda>x. inst_id x = inst_id e) es, e1\<lparr>mhif_head := []\<rparr>))"

section \<open>Instances of the snooper\<close>

definition igsc_new :: "osl \<Rightarrow> bool \<Rightarrow> bool \<Rightarrow> nat \<Rightarrow> nat \<Rightarrow> emfc_info \<Rightarrow> igsc_info" where
  "igsc_new os bc stale now h e = igsc_sdb_init \<lparr>mgrp_sdb = (\<lambda>_. []), emf_handle = e,
     grp_mem_intv = IGMPV2_GRP_MEM_INTV, query_intv = IGMPV2_QUERY_INTV, igs_osh = os,
     rtlist_head = [], sstats = zero_igs_stats, jiffies = now, hz = h, igs_bcast_ok = bc,
     igs_tx = [], rt_timers = (\<lambda>_. None), stale_reads = stale\<rparr>"

text \<open>The two locks are \<open>lk 0\<close> and \<open>lk 1\<close>; after a failure of the second the snooper is unregistered.\<close>

definition igsc_init :: "emfc_info list \<Rightarrow> string \<Rightarrow> osl \<Rightarrow> bool \<Rightarrow> bool \<Rightarrow> bool \<Rightarrow> nat \<Rightarrow> nat \<Rightarrow> (nat \<Rightarrow> bool)
    \<Rightarrow> igsc_info option" where
  "igsc_init es i os wr bc stale now h lk =
     (if \<not> wr then None
      else let (os', p) = MALLOC os in
        if p = 0 \<or> \<not> lk 0 then None
        else (case emfc_igmp_snooper_register es i of None \<Rightarrow> None
          | Some e \<Rightarrow> if \<not> lk 1 then None else Some (igsc_new os' bc stale now h e)))"

text \<open>The state before the memory of the instance is freed.\<close>

definition igsc_exit :: "igsc_info \<Rightarrow> igsc_info option" where
  "igsc_exit w =
     (case igsc_rtlist_clear (w\<lparr>emf_handle := emfc_igmp_snooper_unregister (emf_handle w)\<rparr>) of
        None \<Rightarrow> None | Some w1 \<Rightarrow> igsc_sdb_clear w1)"

end
