(* ===== verification/Emf_Config_Laws.thy ===== *)
theory Emf_Config_Laws
  imports Emf_Config
begin

text \<open>
  The two layers together: the input path keeps the invariant, data frames reach exactly the
  interfaces with members, enabling and disabling, and the state a fresh pair of instances
  starts in.
\<close>

section \<open>The input path\<close>

lemma emf_keep_inv:
  assumes inv: "igs_inv st w" and k: "emf_keep (emf_handle w) e"
  shows "igs_inv st (w\<lparr>emf_handle := e\<rparr>)" "sdb_hosts (w\<lparr>emf_handle := e\<rparr>) = sdb_hosts w"
    "routers (w\<lparr>emf_handle := e\<rparr>) = routers w"
proof -
  let ?w = "w\<lparr>emf_handle := e\<rparr>"
  have sinv: "sdb_inv st w" and rt: "rt_ok w" using inv by (simp_all add: igs_inv_def)
  have e: "mfdb_ok e" "mfdb_cnt e = mfdb_cnt (emf_handle w)" "iflist_head e = iflist_head (emf_handle w)"
      "mem_reliable (osh e)"
    using k sdb_okD(2) [OF sdb_inv_D(1) [OF sinv]] emf_keepD [OF k] by (simp_all add: mfdb_ok_def)
  have "sdb_ok ?w" using sdb_okD [OF sdb_inv_D(1) [OF sinv]] e(1) by (intro sdb_okI) auto
  moreover have "sdb_sync st ?w"
    using sdb_inv_D(2) [OF sinv] by (simp add: sdb_sync_def grp_sync_def sdb_ifaces_def e(2))
  moreover have "sdb_timers ?w" using sdb_inv_D(3) [OF sinv] by (simp add: sdb_timers_def)
  moreover have "rt_ok ?w"
  proof -
    have "rtport_cnt e = rtport_cnt (emf_handle w)" "iflist_wf e = iflist_wf (emf_handle w)"
      by (simp_all add: rtport_cnt_def emfc_iflist_find_def iflist_wf_def e(3) fun_eq_iff)
    with rt e(4) show ?thesis by (simp add: rt_ok_def)
  qed
  ultimately show "igs_inv st ?w" by (simp add: igs_inv_def sdb_inv_def)
  show "sdb_hosts ?w = sdb_hosts w" "routers ?w = routers w"
    by (simp_all add: sdb_hosts_def routers_def fun_eq_iff)
qed

lemma igs_inv_mfdb: "igs_inv st w \<Longrightarrow> mfdb_wf (emf_handle w)"
  by (simp add: igs_inv_def sdb_inv_def sdb_okE_def mfdb_ok_def)

lemma igs_inv_mem: "igs_inv st w \<Longrightarrow> mem_reliable (osh (emf_handle w))"
  by (simp add: igs_inv_def rt_ok_def)

text \<open>A frame of IP version 4 with the given protocol and destination.\<close>

definition ip_frame :: "bytes \<Rightarrow> u8 \<Rightarrow> u32 \<Rightarrow> bool" where
  "ip_frame iph proto dest \<longleftrightarrow> be32 iph 16 = Some dest \<and> rd8 iph 9 = Some proto \<and>
     (\<exists>v. rd8 iph 0 = Some v \<and> drop_bit 4 (v AND 0xf0) = 4)"

lemma input_data:
  assumes "ip_frame iph proto g" "IP_ISMULTI g" "emf_enable (emf_handle w)"
    "proto \<noteq> IP_PROT_IGMP \<or> \<not> snooper (emf_handle w)"
  shows "emfc_input w i iph rt_port = map_option (\<lambda>(e, r). (w\<lparr>emf_handle := e\<rparr>, r))
    (emfc_data_input (emf_handle w) i proto g rt_port)"
  using assms by (auto simp: emfc_input_def ip_frame_def)

text \<open>The ports a data frame for group \<open>g\<close> is due on.\<close>

definition data_ports :: "emfc_info \<Rightarrow> u8 \<Rightarrow> u32 \<Rightarrow> ifp \<Rightarrow> ifp list" where
  "data_ports e proto g i =
     (if mfdb_members e g = [] then ports_due e proto i else filter (\<lambda>j. j \<noteq> i) (mfdb_members e g))"

lemma input_data_law:
  assumes inv: "igs_inv st w" and f: "ip_frame iph proto g" "IP_ISMULTI g" "emf_enable (emf_handle w)"
    "proto \<noteq> IP_PROT_IGMP \<or> \<not> snooper (emf_handle w)" and ll: "\<not> MCAST_ADDR_LINKLOCAL g"
  shows "\<exists>w'. emfc_input w i iph rt_port = Some (w', EMF_TAKEN) \<and> igs_inv st w' \<and>
    sdb_hosts w' = sdb_hosts w \<and> routers w' = routers w \<and>
    tx (emf_handle w') = tx (emf_handle w) @ tx_prefix rt_port @
      map Forward (data_ports (emf_handle w) proto g i)"
proof -
  from data_input_law [OF igs_inv_mfdb [OF inv] multi_nonzero [OF f(2)], of i proto rt_port] ll
  obtain res where res: "emfc_data_input (emf_handle w) i proto g rt_port = Some res"
      "sent_to (emf_handle w) (tx_prefix rt_port) (data_ports (emf_handle w) proto g i) res"
    by (auto simp: data_ports_def split: if_splits)
  obtain e r where er: "res = (e, r)" by fastforce
  have k: "emf_keep (emf_handle w) e" "r = EMF_TAKEN" "tx e = tx (emf_handle w) @ tx_prefix rt_port @
      map Forward (data_ports (emf_handle w) proto g i)"
    using res(2) igs_inv_mem [OF inv] by (auto simp: sent_to_def er)
  show ?thesis
    using input_data [OF f] res(1) er k emf_keep_inv [OF inv k(1)] by simp
qed

text \<open>The interfaces with hosts of a group, when nobody else has registered members.\<close>

lemma members_hosts:
  assumes inv: "igs_inv (\<lambda>_ _. 0) w"
  shows "set (mfdb_members (emf_handle w) g) = snd ` sdb_hosts w g"
proof -
  have sinv: "sdb_inv (\<lambda>_ _. 0) w" using inv by (simp add: igs_inv_def)
  have cnt: "mfdb_cnt (emf_handle w) g j = (if j \<in> sdb_ifaces w g then 1 else 0)" for j
    using sdb_inv_D(2) [OF sinv] by (simp add: sdb_sync_def grp_sync_def)
  have "sdb_ifaces w g = snd ` sdb_hosts w g"
  proof (cases "sdb_at w g")
    case None
    then show ?thesis by (simp add: sdb_ifaces_def sdb_hosts_def)
  next
    case (Some m)
    with hosts_ifaces [OF sdb_okD(4) [OF sdb_inv_D(1) [OF sinv] Some]] show ?thesis
      by (simp add: sdb_ifaces_def sdb_hosts_def)
  qed
  with members_cnt(1) [OF igs_inv_mfdb [OF inv], of g] show ?thesis by (auto simp: cnt)
qed

lemma input_passes:
  assumes "be32 iph 16 = Some dest" "\<not> IP_ISMULTI dest \<or> \<not> emf_enable (emf_handle w)"
  shows "emfc_input w i iph rt_port = Some (w, EMF_NOP)"
  using assms by (auto simp: emfc_input_def)

lemma igmp_action_inv:
  assumes inv: "igs_inv st w"
  shows "igs_inv st (fst (igmp_action w i proto rt_port a))"
proof -
  have k: "emf_keep (emf_handle w) (emf_handle w)" by (rule emf_keep_refl [OF igs_inv_mfdb [OF inv]])
  obtain e r where er: "emfc_unreg_frame_handle (emf_handle w) i proto rt_port = (e, r)" by fastforce
  then have "emf_keep (emf_handle w) e"
    using unreg_frame_law [OF igs_inv_mfdb [OF inv], of rt_port proto i] by (auto simp: sent_to_def)
  with k inv er show ?thesis
    by (auto simp: igmp_action_def Let_def intro!: emf_keep_inv)
qed

section \<open>Fresh instances\<close>

lemma emfc_new_ok:
  assumes "mem_reliable os"
  shows "mfdb_ok (emfc_new i os fwd hk)" "mfdb_cnt (emfc_new i os fwd hk) g j = 0"
    "iflist_wf (emfc_new i os fwd hk)" "osh (emfc_new i os fwd hk) = os"
    "rtport_cnt (emfc_new i os fwd hk) j = 0" "snooper (emfc_new i os fwd hk) = False"
  using assms mfdb_init_wf
  by (simp_all add: emfc_new_def mfdb_ok_def iflist_wf_def rtport_cnt_def emfc_iflist_find_def)
    (simp_all add: emfc_mfdb_init_def emfc_iflist_find_def)

lemma igsc_new_inv:
  assumes e: "mfdb_ok e" "\<And>g j. mfdb_cnt e g j = 0" "iflist_wf e"
  shows "igs_inv (\<lambda>_ _. 0) (igsc_new os bc stale now h e)" "sdb_hosts (igsc_new os bc stale now h e) g = {}"
    "routers (igsc_new os bc stale now h e) = {}"
proof -
  let ?w = "igsc_new os bc stale now h e"
  have at: "sdb_at ?w g = None" for g
    by (rule sdb.lookup_empty) (simp add: igsc_new_def igsc_sdb_init_def)
  have "sdb.wf (mgrp_sdb ?w)" by (rule sdb.wf_empty) (simp add: igsc_new_def igsc_sdb_init_def)
  moreover have h: "emf_handle ?w = e" "rtlist_head ?w = []" "rt_timers ?w = (\<lambda>_. None)"
    by (simp_all add: igsc_new_def igsc_sdb_init_def)
  ultimately have "sdb_inv (\<lambda>_ _. 0) ?w"
    using e at by (simp add: sdb_inv_def sdb_okE_def sdb_sync_def sdb_timers_def grp_sync_def sdb_ifaces_def)
  moreover have "rt_ok ?w" using e h by (simp add: rt_ok_def mfdb_ok_def routers_on_def)
  ultimately show "igs_inv (\<lambda>_ _. 0) ?w" by (simp add: igs_inv_def)
  show "sdb_hosts ?w g = {}" by (simp add: sdb_hosts_def at)
  show "routers ?w = {}" by (simp add: routers_def h)
qed

section \<open>Enabling and disabling\<close>

lemma set_flags_inv:
  "igs_inv st (emf_set_enable w b) = igs_inv st w" "igs_inv st (emf_set_hooks w b) = igs_inv st w"
  "sdb_hosts (emf_set_enable w b) = sdb_hosts w" "sdb_hosts (emf_set_hooks w b) = sdb_hosts w"
  "routers (emf_set_enable w b) = routers w" "routers (emf_set_hooks w b) = routers w"
proof -
  have wf: "mfdb_ok (e\<lparr>emf_enable := b\<rparr>) = mfdb_ok e" "mfdb_ok (e\<lparr>hooks_registered := b\<rparr>) = mfdb_ok e" for e
    by (simp_all add: mfdb_ok_def mfdb_wf_def mfdb_wf0_def)
  have cnt: "mfdb_cnt (e\<lparr>emf_enable := b\<rparr>) = mfdb_cnt e" "mfdb_cnt (e\<lparr>hooks_registered := b\<rparr>) = mfdb_cnt e" for e
    by (rule mfdb_cnt_cong, simp)+
  have ifl: "iflist_wf (e\<lparr>emf_enable := b\<rparr>) = iflist_wf e" "iflist_wf (e\<lparr>hooks_registered := b\<rparr>) = iflist_wf e"
      "rtport_cnt (e\<lparr>emf_enable := b\<rparr>) = rtport_cnt e" "rtport_cnt (e\<lparr>hooks_registered := b\<rparr>) = rtport_cnt e" for e
    by (simp_all add: iflist_wf_def rtport_cnt_def emfc_iflist_find_def fun_eq_iff)
  show "igs_inv st (emf_set_enable w b) = igs_inv st w" "igs_inv st (emf_set_hooks w b) = igs_inv st w"
    by (simp_all add: emf_set_enable_def emf_set_hooks_def igs_inv_def sdb_inv_def sdb_okE_def sdb_sync_def
        grp_sync_def sdb_timers_def sdb_ifaces_def rt_ok_def wf cnt ifl)
  show "sdb_hosts (emf_set_enable w b) = sdb_hosts w" "sdb_hosts (emf_set_hooks w b) = sdb_hosts w"
    by (simp_all add: emf_set_enable_def emf_set_hooks_def sdb_hosts_def fun_eq_iff)
  show "routers (emf_set_enable w b) = routers w" "routers (emf_set_hooks w b) = routers w"
    by (simp_all add: emf_set_enable_def emf_set_hooks_def routers_def)
qed

text \<open>Disabling takes everything out of both layers.\<close>

lemma clear_all_inv:
  assumes inv: "igs_inv st w" and empty: "sdb_hosts w = (\<lambda>g. {})" "routers w = {}"
  defines "w' \<equiv> w\<lparr>emf_handle := emfc_iflist_clear (emfc_mfdb_clear (emf_handle w))\<rparr>"
  shows "igs_inv (\<lambda>_ _. 0) w'" "mfdb_cnt (emf_handle w') g j = 0" "iflist_head (emf_handle w') = []"
    "sdb_hosts w' = (\<lambda>g. {})" "routers w' = {}"
proof -
  have sinv: "sdb_inv st w" and rt: "rt_ok w" using inv by (simp_all add: igs_inv_def)
  note ok = sdb_inv_D [OF sinv]
  note wf = igs_inv_mfdb [OF inv]
  have rl: "rtlist_head w = []" using empty(2) by (simp add: routers_def)
  have at: "sdb_at w g = None" for g
  proof (cases "sdb_at w g")
    case (Some m)
    then have ne: "smh_head m \<noteq> []" "grp_inv (mem_seq (igs_osh w)) m" "hosts m = {}"
      using sdb_okD(4,5) [OF ok(1) Some] fun_cong [OF empty(1), of g] by (auto simp: sdb_hosts_def)
    then obtain mh where mh: "mh \<in> set (smh_head m)" by (cases "smh_head m") auto
    from grp_mi_at [OF ne(2) mh] obtain mi where "mi_at (smi_head m) (smh_mi mh) = Some mi" .
    from hostsI [OF ne(2) mh this] ne(3) show ?thesis by simp
  qed
  have clr: "mfdb_wf (emfc_mfdb_clear (emf_handle w))" "mfdb_cnt (emfc_mfdb_clear (emf_handle w)) g i = 0" for g i
    using mfdb_clear_wf [OF wf] mfdb_clear_cnt [OF wf] by blast+
  have ifl: "mfdb_wf (emfc_iflist_clear e) = mfdb_wf e" for e
    by (simp add: emfc_iflist_clear_def mfdb_wf_def mfdb_wf0_def)
  have cnt: "mfdb_cnt (emfc_iflist_clear e) = mfdb_cnt e" for e
    by (rule mfdb_cnt_cong) (simp add: emfc_iflist_clear_def)
  have osh: "osh (emfc_iflist_clear (emfc_mfdb_clear (emf_handle w))) = osh (emf_handle w)"
    by (simp add: emfc_iflist_clear_def emfc_mfdb_clear_def)
  have at': "sdb_at w' g = None" for g using at by (simp add: w'_def)
  have mok: "mfdb_ok (emf_handle w')"
    using clr(1) igs_inv_mem [OF inv] by (simp add: w'_def mfdb_ok_def ifl osh)
  show c: "mfdb_cnt (emf_handle w') g j = 0" for g j using clr(2) by (simp add: w'_def cnt)
  show "iflist_head (emf_handle w') = []" by (simp add: w'_def emfc_iflist_clear_def)
  have "sdb_inv (\<lambda>_ _. 0) w'"
    using sdb_okD(1) [OF ok(1)] mok at' c
    by (simp add: sdb_inv_def sdb_okE_def sdb_sync_def sdb_timers_def grp_sync_def sdb_ifaces_def)
      (simp add: w'_def)
  moreover have "rt_ok w'"
    using rt rl by (simp add: rt_ok_def w'_def osh routers_on_def)
      (simp add: iflist_wf_def emfc_iflist_clear_def)
  ultimately show "igs_inv (\<lambda>_ _. 0) w'" by (simp add: igs_inv_def)
  show "sdb_hosts w' = (\<lambda>g. {})" by (simp add: sdb_hosts_def at' fun_eq_iff)
  show "routers w' = {}" using rl by (simp add: routers_def w'_def)
qed

end
