(* ===== verification/Multicast_Properties.thy ===== *)
theory Multicast_Properties
  imports Emf_Config_Laws Igs_Steps
begin

text \<open>
  The properties of the two multicast layers, and the concrete instances their witnesses use:
  a pair of fresh instances with memory that never fails, and some frames.
\<close>

section \<open>Concrete instances\<close>

definition good_mem :: osl where
  "good_mem = \<lparr>mem_seq = 0, mem_ok = (\<lambda>_. True)\<rparr>"

definition fresh_emf :: emfc_info where
  "fresh_emf = emfc_new ''br0'' good_mem (\<lambda>_. True) True"

definition fresh_igs :: igsc_info where
  "fresh_igs = igsc_new good_mem True True 0 100 fresh_emf"

lemma good_mem_reliable [simp]: "mem_reliable good_mem"
  by (simp add: good_mem_def mem_reliable_def)

lemma fresh_igs_inv: "igs_inv (\<lambda>_ _. 0) fresh_igs" "sdb_hosts fresh_igs g = {}" "routers fresh_igs = {}"
  unfolding fresh_igs_def fresh_emf_def
  using igsc_new_inv emfc_new_ok [OF good_mem_reliable] by simp_all

lemma fresh_igs_fields [simp]:
  "igs_osh fresh_igs = good_mem" "emf_handle fresh_igs = fresh_emf" "rtlist_head fresh_igs = []"
  "stale_reads fresh_igs = True"
  by (simp_all add: fresh_igs_def igsc_new_def igsc_sdb_init_def)

lemma fresh_emf_fields [simp]:
  "iflist_head fresh_emf = []" "osh fresh_emf = good_mem" "tx fresh_emf = []"
  "mgrp_fdb fresh_emf = (\<lambda>_. [])" "emf_enable fresh_emf = False" "snooper fresh_emf = False"
  by (simp_all add: fresh_emf_def emfc_new_def emfc_mfdb_init_def fun_eq_iff)

lemma fresh_emf_ok: "mfdb_ok fresh_emf" "mfdb_wf fresh_emf" "mfdb_cnt fresh_emf g i = 0"
    "iflist_wf fresh_emf" "rtport_cnt fresh_emf i = 0" "uffp_cnt fresh_emf i = 0"
  using emfc_new_ok [OF good_mem_reliable, of "''br0''" "\<lambda>_. True" True]
  by (simp_all add: fresh_emf_def [symmetric] mfdb_ok_def uffp_cnt_def emfc_iflist_find_def)

text \<open>An IP header from 192.168.1.5, and IGMP messages for group 239.1.2.3.\<close>

definition an_ip :: "u32 \<Rightarrow> u8 \<Rightarrow> bytes" where
  "an_ip dest proto = [0x45, 0, 0, 28, 0, 0, 0, 0, 1, proto, 0, 0] @ put32 0xc0a80105 @ put32 dest"

definition an_igmp :: "u8 \<Rightarrow> u32 \<Rightarrow> bytes" where
  "an_igmp type grp = [type, 0, 0, 0] @ put32 grp"

lemma an_ip_fields:
  "be32 (an_ip dest proto) 12 = Some 0xc0a80105" "be32 (an_ip dest proto) 16 = Some dest"
  "rd8 (an_ip dest proto) 0 = Some 0x45" "rd8 (an_ip dest proto) 9 = Some proto"
  using be32_put32 [of "[0x45, 0, 0, 28, 0, 0, 0, 0, 1, proto, 0, 0]" "0xc0a80105" "put32 dest"]
    be32_put32 [of "[0x45, 0, 0, 28, 0, 0, 0, 0, 1, proto, 0, 0] @ put32 0xc0a80105" dest "[]"]
  by (simp_all add: an_ip_def numeral_eq_Suc)

lemma an_ip_addrs: "ip_addrs (an_ip dest proto) 0xc0a80105 dest"
  by (simp add: ip_addrs_def an_ip_fields)

lemma an_ip_frame: "ip_frame (an_ip dest proto) proto dest"
  by (simp add: ip_frame_def an_ip_fields)

lemma an_igmp_frame: "v2_frame (an_igmp type grp) type grp"
  using be32_put32 [of "[type, 0, 0, 0]" grp "[]"] by (simp add: v2_frame_def an_igmp_def numeral_eq_Suc)

text \<open>A running pair with one host, 192.168.1.5 on port 1, in group 239.1.2.3.\<close>

abbreviation (input) a_group :: u32 where "a_group \<equiv> 0xef010203"
abbreviation (input) a_host :: u32 where "a_host \<equiv> 0xc0a80105"

definition running_igs :: igsc_info where
  "running_igs = emf_set_enable fresh_igs True"

lemma running_igs_inv: "igs_inv (\<lambda>_ _. 0) running_igs" "sdb_hosts running_igs = (\<lambda>g. {})" "routers running_igs = {}"
  unfolding running_igs_def set_flags_inv using fresh_igs_inv by (simp_all add: fun_eq_iff)

lemma running_igs_fields [simp]:
  "igs_osh running_igs = good_mem" "emf_handle running_igs = fresh_emf\<lparr>emf_enable := True\<rparr>"
  "rtlist_head running_igs = []" "stale_reads running_igs = True"
  by (simp_all add: running_igs_def emf_set_enable_def)

definition a_report_frame :: "bytes \<times> bytes" where
  "a_report_frame = (an_ip a_group IP_PROT_IGMP, an_igmp IGMPV2_HOST_NEW_MEMBERSHIP_REPORT a_group)"

lemma joined_igs_ex:
  "\<exists>w. igsc_input running_igs 1 (fst a_report_frame) (snd a_report_frame) False = Some (w, EMF_FORWARD) \<and>
    igs_inv (\<lambda>_ _. 0) w \<and> igs_frame running_igs w \<and>
    sdb_hosts w = join_spec (\<lambda>g. {}) 1 a_group a_host"
proof -
  have "\<not> igsc_is_reserved a_group" by (simp add: igsc_is_reserved_def mc_addr_rsvd_def)
  from input_join_law [OF running_igs_inv(1) an_igmp_frame [of _ a_group] an_ip_addrs [of a_group IP_PROT_IGMP] this, of 1]
  show ?thesis by (auto simp: a_report_frame_def running_igs_inv(2))
qed

text \<open>The same pair with one router, 192.168.1.5 on port 2.\<close>

lemma routed_igs_ex:
  "\<exists>w. igsc_input running_igs 2 (an_ip a_group IP_PROT_IGMP) (an_igmp IGMPV2_HOST_MEMBERSHIP_QUERY 0) False = Some (w, EMF_FLOOD) \<and>
    igs_inv (\<lambda>_ _. 0) w \<and> routers w = {(2, a_host)}"
proof -
  have "rtport_cnt (emf_handle running_igs) 2 < 2 ^ 32 - 1"
    by (simp add: rtport_cnt_def emfc_iflist_find_def)
  from input_query_law [OF running_igs_inv(1) an_igmp_frame [of _ 0] an_ip_addrs [of a_group IP_PROT_IGMP] _ this]
  show ?thesis by (auto simp: running_igs_inv(3))
qed

lemma joined_host:
  obtains w where "igs_inv (\<lambda>_ _. 0) w" "igs_frame running_igs w" "sdb_hosts w a_group = {(a_host, 1)}"
proof -
  obtain w where w: "igs_inv (\<lambda>_ _. 0) w" "igs_frame running_igs w" "sdb_hosts w = join_spec (\<lambda>g. {}) 1 a_group a_host"
    using joined_igs_ex by blast
  moreover have "sdb_hosts w a_group = {(a_host, 1)}"
    by (simp add: w(3) join_spec_def join1_def IPV4_MCADDR_ALLHOSTS_def)
  ultimately show thesis using that by blast
qed

lemma routed_entry:
  obtains w e where "igs_inv (\<lambda>_ _. 0) w" "routers w = {(2, a_host)}" "e \<in> set (rtlist_head w)"
    "rtl_ifp e = 2" "rtl_mr_ip e = a_host"
proof -
  obtain w where w: "igs_inv (\<lambda>_ _. 0) w" "routers w = {(2, a_host)}" using routed_igs_ex by blast
  then obtain e where e: "e \<in> set (rtlist_head w)" by (cases "rtlist_head w") (auto simp: routers_def)
  then have "(rtl_ifp e, rtl_mr_ip e) \<in> routers w" by (auto simp: routers_def)
  with w e that show thesis by simp
qed

section \<open>Safety of the snooper\<close>






section \<open>Forwarding\<close>

text \<open>
  C8: A multicast data frame for a group that hosts have joined leaves the instance once for
  every interface such hosts are on, except the interface it came in on, and for no other; a
  copy goes up the IP stack exactly when the frame did not come from there. Nothing else in
  the membership of the two layers changes, and the frame is taken.
\<close>

theorem data_frame_to_members:
  assumes inv: "igs_inv (\<lambda>_ _. 0) w" and f: "ip_frame iph proto g" "IP_ISMULTI g"
    "emf_enable (emf_handle w)" "proto \<noteq> IP_PROT_IGMP" and ll: "\<not> MCAST_ADDR_LINKLOCAL g"
    and hosts: "sdb_hosts w g \<noteq> {}"
  shows "\<exists>w' js. emfc_input w i iph rt_port = Some (w', EMF_TAKEN) \<and>
    tx (emf_handle w') = tx (emf_handle w) @ (if rt_port then [] else [SendUp]) @ map Forward js \<and>
    set js = snd ` sdb_hosts w g - {i} \<and> distinct js \<and>
    igs_inv (\<lambda>_ _. 0) w' \<and> sdb_hosts w' = sdb_hosts w \<and> routers w' = routers w"
proof -
  note mem = members_hosts [OF inv, of g]
  then have ne: "mfdb_members (emf_handle w) g \<noteq> []" using hosts by auto
  have ports: "data_ports (emf_handle w) proto g i = filter (\<lambda>j. j \<noteq> i) (mfdb_members (emf_handle w) g)"
    using ne by (simp add: data_ports_def)
  have "distinct (mfdb_members (emf_handle w) g)"
    using members_cnt(2) [OF igs_inv_mfdb [OF inv]] by simp
  moreover have "set (data_ports (emf_handle w) proto g i) = snd ` sdb_hosts w g - {i}"
    unfolding ports using mem by auto
  ultimately show ?thesis
    using input_data_law [OF inv f(1,2,3) disjI1 [OF f(4)] ll, of i rt_port]
    unfolding tx_prefix_def by (metis distinct_filter ports)
qed

theorem data_frame_to_members_witness:
  "\<exists>w w' js. igs_inv (\<lambda>_ _. 0) w \<and> emfc_input w 3 (an_ip a_group 17) False = Some (w', EMF_TAKEN) \<and>
    tx (emf_handle w') = [SendUp] @ map Forward js \<and> set js = {1}"
proof -
  obtain w where w: "igs_inv (\<lambda>_ _. 0) w" "igs_frame running_igs w" "sdb_hosts w a_group = {(a_host, 1)}"
    by (rule joined_host)
  have e: "emf_enable (emf_handle w)" "tx (emf_handle w) = []"
    using w(2) by (simp_all add: igs_frame_def mfdb_frame_def)
  have g: "IP_ISMULTI a_group" "\<not> MCAST_ADDR_LINKLOCAL a_group" "(17 :: u8) \<noteq> IP_PROT_IGMP"
    by (simp_all add: IP_ISMULTI_def MCAST_ADDR_LINKLOCAL_def IP_PROT_IGMP_def)
  have ne: "sdb_hosts w a_group \<noteq> {}" using w(3) by simp
  from data_frame_to_members [OF w(1) an_ip_frame g(1) e(1) g(3,2) ne, of 3 False] show ?thesis
    using e(2) w(1) unfolding w(3) by auto
qed

text \<open>
  A data frame for a group nobody joined goes to the router ports and the flooding ports
  other than the one it came in on, in the order of the interface list, and up the IP stack
  when it did not come from there.
\<close>

theorem unregistered_frame_to_ports:
  assumes inv: "igs_inv st w" and f: "ip_frame iph proto g" "IP_ISMULTI g"
    "emf_enable (emf_handle w)" "proto \<noteq> IP_PROT_IGMP" and ll: "\<not> MCAST_ADDR_LINKLOCAL g"
    and none: "\<forall>j. mfdb_cnt (emf_handle w) g j = 0"
  shows "\<exists>w'. emfc_input w i iph rt_port = Some (w', EMF_TAKEN) \<and>
    tx (emf_handle w') = tx (emf_handle w) @ (if rt_port then [] else [SendUp]) @
      map Forward (map ifl_ifp (filter (\<lambda>p. ifl_ifp p \<noteq> i \<and> rtport_ref p + uffp_ref p \<noteq> 0)
        (iflist_head (emf_handle w)))) \<and>
    igs_inv st w' \<and> sdb_hosts w' = sdb_hosts w \<and> routers w' = routers w"
proof -
  have "mfdb_members (emf_handle w) g = []"
    using members_cnt(1) [OF igs_inv_mfdb [OF inv], of g] none by simp
  then have "data_ports (emf_handle w) proto g i = map ifl_ifp
      (filter (\<lambda>p. ifl_ifp p \<noteq> i \<and> rtport_ref p + uffp_ref p \<noteq> 0) (iflist_head (emf_handle w)))"
    using f(4) by (simp add: data_ports_def ports_due_def port_due_def [abs_def])
  with input_data_law [OF inv f(1,2,3) disjI1 [OF f(4)] ll, of i rt_port] show ?thesis
    by (auto simp: tx_prefix_def)
qed

theorem unregistered_frame_to_ports_witness:
  "\<exists>w'. emfc_input running_igs 3 (an_ip a_group 17) False = Some (w', EMF_TAKEN) \<and> tx (emf_handle w') = [SendUp]"
proof -
  have g: "IP_ISMULTI a_group" "\<not> MCAST_ADDR_LINKLOCAL a_group" "(17 :: u8) \<noteq> IP_PROT_IGMP"
    by (simp_all add: IP_ISMULTI_def MCAST_ADDR_LINKLOCAL_def IP_PROT_IGMP_def)
  have "mfdb_cnt (fresh_emf\<lparr>emf_enable := True\<rparr>) a_group j = 0" for j
    using fresh_emf_ok(3) [of a_group j] mfdb_cnt_cong [of "fresh_emf\<lparr>emf_enable := True\<rparr>" fresh_emf] by simp
  then have "\<forall>j. mfdb_cnt (emf_handle running_igs) a_group j = 0" by simp
  from unregistered_frame_to_ports [OF running_igs_inv(1) an_ip_frame g(1) _ g(3,2) this, of 3 False]
  show ?thesis by auto
qed

text \<open>
  The one-entry cache of the forwarding database does not change what a lookup finds: for every
  group the address it returns is that of the group's entry in the hash table, or null without one, and
  the lookup keeps the database as it is.
\<close>

theorem cached_lookup_exact:
  assumes "mfdb_wf s" "g \<noteq> 0"
  shows "snd (emfc_mfdb_group_find s g) = (case fdb.lookup (mgrp_fdb s) g of None \<Rightarrow> 0 | Some m \<Rightarrow> mgrp_addr m) \<and>
    mgrp_fdb (fst (emfc_mfdb_group_find s g)) = mgrp_fdb s \<and> mfdb_frame s (fst (emfc_mfdb_group_find s g))"
  using group_find_pointer [of s g] group_find_state [OF prod.collapse [symmetric], of s g] assms
  by (simp add: mfdb_wf_def)

theorem cached_lookup_exact_witness:
  "snd (emfc_mfdb_group_find fresh_emf a_group) = (case fdb.lookup (mgrp_fdb fresh_emf) a_group of None \<Rightarrow> 0 | Some m \<Rightarrow> mgrp_addr m)"
  using cached_lookup_exact [OF fresh_emf_ok(2), of a_group] by simp

section \<open>Membership reports\<close>

text \<open>
  C31: A version 2 report that is not sent to a reserved address puts the sender into the group and the
  all-hosts group on the port it came in on, in both layers, and nothing else; the frame is forwarded.
  When memory runs out the invariant still holds.
\<close>

theorem report_joins:
  assumes inv: "igs_inv st w" and f: "v2_frame igmph IGMPV2_HOST_NEW_MEMBERSHIP_REPORT g"
    "ip_addrs iph h dest" "\<not> igsc_is_reserved dest" "g \<noteq> 0"
  shows "\<exists>w' r. igsc_input w i iph igmph False = Some (w', r) \<and> igs_inv st w' \<and> igs_frame w w' \<and>
    (mem_reliable (igs_osh w) \<longrightarrow> r = EMF_FORWARD \<and> sdb_hosts w' = join_spec (sdb_hosts w) i g h)"
  by (rule input_join_law [OF assms])

theorem report_joins_witness:
  "\<exists>w' r. igsc_input running_igs 1 (an_ip a_group IP_PROT_IGMP) (an_igmp IGMPV2_HOST_NEW_MEMBERSHIP_REPORT a_group) False =
      Some (w', r) \<and> r = EMF_FORWARD \<and> sdb_hosts w' = join_spec (\<lambda>g. {}) 1 a_group a_host"
proof -
  have "\<not> igsc_is_reserved a_group" by (simp add: igsc_is_reserved_def mc_addr_rsvd_def)
  from report_joins [OF running_igs_inv(1) an_igmp_frame [of _ a_group] an_ip_addrs [of a_group IP_PROT_IGMP] this, of 1]
  show ?thesis by (auto simp: running_igs_inv(2))
qed

text \<open>
  A leave message takes exactly the sender on its port out of the group, in both layers, whether it was in it or
  not, and is flooded.
\<close>

theorem leave_removes:
  assumes inv: "igs_inv st w" and f: "v2_frame igmph IGMPV2_LEAVE_GROUP_MESSAGE g" "ip_addrs iph h dest"
  shows "\<exists>w'. igsc_input w i iph igmph False = Some (w', EMF_FLOOD) \<and> igs_inv st w' \<and> igs_frame w w' \<and>
    sdb_hosts w' = leave1 (sdb_hosts w) i g h"
  by (rule input_leave_law [OF assms])

theorem leave_removes_witness:
  "\<exists>w w'. sdb_hosts w a_group = {(a_host, 1)} \<and>
     igsc_input w 1 (an_ip a_group IP_PROT_IGMP) (an_igmp IGMPV2_LEAVE_GROUP_MESSAGE a_group) False = Some (w', EMF_FLOOD) \<and>
     sdb_hosts w' a_group = {}"
proof -
  obtain w where w: "igs_inv (\<lambda>_ _. 0) w" "sdb_hosts w a_group = {(a_host, 1)}" by (rule joined_host)
  obtain w' where "igsc_input w 1 (an_ip a_group IP_PROT_IGMP) (an_igmp IGMPV2_LEAVE_GROUP_MESSAGE a_group) False =
      Some (w', EMF_FLOOD)" "sdb_hosts w' = leave1 (sdb_hosts w) 1 a_group a_host"
    using leave_removes [OF w(1) an_igmp_frame [of _ a_group] an_ip_addrs [of a_group IP_PROT_IGMP], of 1] by blast
  moreover have "leave1 (sdb_hosts w) 1 a_group a_host a_group = {}" by (simp add: leave1_def w(2))
  ultimately show ?thesis using w(2) by metis
qed

text \<open>
  C11: A version 3 report, encoded as the protocol lays it out with any number of records, sources and
  auxiliary words, is parsed back record by record: the members of both layers become what applying
  each record to them in turn gives (to exclude mode without sources joins, to include mode without sources leaves).
\<close>

theorem v3_report_applied:
  assumes inv: "igs_inv st w" and rs: "\<forall>r\<in>set rs. rec_ok r" "length rs < 65536"
    and ip: "ip_addrs iph h IPV4_MCADDR_ALLIGMPV3"
  shows "\<exists>w'. igsc_input w i iph (enc_report ck rs) False = Some (w', EMF_FLOOD) \<and> igs_inv st w' \<and>
    igs_frame w w' \<and>
    (mem_reliable (igs_osh w) \<longrightarrow> sdb_hosts w' = fold (group_spec i h) rs (sdb_hosts w))"
  by (rule input_v3_law [OF assms])

theorem v3_report_applied_witness:
  "\<exists>w'. igsc_input running_igs 1 (an_ip IPV4_MCADDR_ALLIGMPV3 IP_PROT_IGMP)
      (enc_report 7 [\<lparr>v3_type = 4, v3_grp = a_group, v3_srcs = [], v3_aux = [5]\<rparr>]) False = Some (w', EMF_FLOOD) \<and>
    sdb_hosts w' a_group = {(a_host, 1)}"
proof -
  have "\<forall>r\<in>set [\<lparr>v3_type = 4, v3_grp = a_group, v3_srcs = [], v3_aux = [5]\<rparr>]. rec_ok r"
    by (simp add: rec_ok_def)
  from v3_report_applied [OF running_igs_inv(1) this _ an_ip_addrs [of IPV4_MCADDR_ALLIGMPV3 IP_PROT_IGMP], of 1 7]
  show ?thesis
    by (auto simp: running_igs_inv(2) group_spec_def IP_ISMULTI_def join_spec_def join1_def IPV4_MCADDR_ALLHOSTS_def)
qed

text \<open>
  A query from a router makes the port it came in on a router port with that router, unless it is
  known already or has the source 0.0.0.0; hosts are not touched.
\<close>

theorem query_adds_router:
  assumes inv: "igs_inv st w" and f: "v2_frame igmph IGMPV2_HOST_MEMBERSHIP_QUERY g" "ip_addrs iph r dest"
    and i: "i \<noteq> 0" "rtport_cnt (emf_handle w) i < 2 ^ 32 - 1"
  shows "\<exists>w'. igsc_input w i iph igmph False = Some (w', EMF_FLOOD) \<and> igs_inv st w' \<and>
    sdb_hosts w' = sdb_hosts w \<and> mem_ok (igs_osh w') = mem_ok (igs_osh w) \<and>
    (mem_reliable (igs_osh w) \<longrightarrow> routers w' = (if r = 0 then routers w else insert (i, r) (routers w)))"
  using input_query_law [OF assms] by blast

theorem query_adds_router_witness:
  "\<exists>w'. igsc_input running_igs 2 (an_ip a_group IP_PROT_IGMP) (an_igmp IGMPV2_HOST_MEMBERSHIP_QUERY 0) False = Some (w', EMF_FLOOD) \<and>
    routers w' = {(2, a_host)}"
proof -
  have "rtport_cnt (emf_handle running_igs) 2 < 2 ^ 32 - 1" by (simp add: rtport_cnt_def emfc_iflist_find_def)
  from query_adds_router [OF running_igs_inv(1) an_igmp_frame [of _ 0] an_ip_addrs [of a_group IP_PROT_IGMP] _ this]
  show ?thesis by (auto simp: running_igs_inv(3))
qed

section \<open>Time and removal\<close>

text \<open>
  C32: When the membership timer of a host fires, the host leaves its group, no other host does, and the
  forwarding layer follows.
\<close>

theorem host_times_out:
  assumes "igs_inv st w" "sdb_at w g = Some m" "mh \<in> set (smh_head m)" "mi_at (smi_head m) (smh_mi mh) = Some mi"
  shows "\<exists>w'. sdb_timer_expire w g (smh_addr mh) = Some w' \<and> igs_inv st w' \<and> igs_frame w w' \<and>
    sdb_hosts w' = (sdb_hosts w)(g := sdb_hosts w g - {(smh_ip mh, smi_ifp mi)})"
proof -
  have "sdb_inv st w" using assms(1) by (simp add: igs_inv_def)
  from timer_expire_law [OF this assms(2-4)] obtain w' where
    w': "sdb_timer_expire w g (smh_addr mh) = Some w'" "igs_frame w w'"
      "sdb_hosts w' = (sdb_hosts w)(g := sdb_hosts w g - {(smh_ip mh, smi_ifp mi)})" by blast
  with host_timer_inv [OF assms(1) w'(1)] show ?thesis by blast
qed

theorem host_times_out_witness:
  "\<exists>w w' a. sdb_hosts w a_group = {(a_host, 1)} \<and> sdb_timer_expire w a_group a = Some w' \<and> sdb_hosts w' a_group = {}"
proof -
  obtain w where w: "igs_inv (\<lambda>_ _. 0) w" "sdb_hosts w a_group = {(a_host, 1)}" by (rule joined_host)
  then obtain m where m: "sdb_at w a_group = Some m" "hosts m = {(a_host, 1)}"
    by (cases "sdb_at w a_group") (simp_all add: sdb_hosts_def)
  have "sdb_inv (\<lambda>_ _. 0) w" using w(1) by (simp add: igs_inv_def)
  then have ginv: "grp_inv (mem_seq (igs_osh w)) m" using sdb_okD(4) [OF sdb_inv_D(1) m(1)] by blast
  obtain mh where mh: "mh \<in> set (smh_head m)" using m(2) by (cases "smh_head m") (auto simp: hosts_def)
  from grp_mi_at [OF ginv mh] obtain mi where mi: "mi_at (smi_head m) (smh_mi mh) = Some mi" .
  have "(smh_ip mh, smi_ifp mi) \<in> hosts m" by (rule hostsI [OF ginv mh mi])
  then have "sdb_hosts w a_group - {(smh_ip mh, smi_ifp mi)} = {}" using m(2) w(2) by simp
  with host_times_out [OF w(1) m(1) mh mi] w(2) show ?thesis by (metis fun_upd_same)
qed

text \<open>
  C33: When the timer of a router fires the router is forgotten. The router port is given up only when the
  router is the last one on its interface: with a second router there the reference of the first one stays, and with it the router port
  after all routers are gone.
\<close>

theorem router_times_out:
  assumes "rt_ok w" "e \<in> set (rtlist_head w)"
  shows "\<exists>w'. rt_timer_expire w (rtl_timer e) = Some w' \<and> rt_ok w' \<and>
    routers w' = routers w - {(rtl_ifp e, rtl_mr_ip e)} \<and>
    rtport_cnt (emf_handle w') = (if routers_on (rtlist_head w) (rtl_ifp e) = 1
      then (rtport_cnt (emf_handle w))(rtl_ifp e := rtport_cnt (emf_handle w) (rtl_ifp e) - 1)
      else rtport_cnt (emf_handle w))"
  using rt_timer_expire_law [OF assms] by blast

theorem router_times_out_witness:
  "\<exists>w w' a. routers w = {(2, a_host)} \<and> rt_timer_expire w a = Some w' \<and> routers w' = {}"
proof -
  obtain w e where w: "igs_inv (\<lambda>_ _. 0) w" "routers w = {(2, a_host)}" "e \<in> set (rtlist_head w)"
    "rtl_ifp e = 2" "rtl_mr_ip e = a_host" by (rule routed_entry)
  have rt: "rt_ok w" using w(1) by (simp add: igs_inv_def)
  from router_times_out [OF rt w(3)] obtain w' where "rt_timer_expire w (rtl_timer e) = Some w'"
    "routers w' = routers w - {(rtl_ifp e, rtl_mr_ip e)}" by blast
  then show ?thesis using w(2,4,5) by (metis Diff_cancel)
qed

text \<open>
  Removing an interface takes exactly the hosts on it out of every group.
\<close>

theorem interface_removal_hosts:
  assumes "igs_inv st w" "i \<noteq> 0"
  shows "\<exists>w'. igsc_sdb_interface_del w i = Some (w', SUCCESS) \<and> sdb_inv st w' \<and> igs_frame w w' \<and>
    sdb_hosts w' = (\<lambda>g. {x \<in> sdb_hosts w g. snd x \<noteq> i})"
proof -
  have "sdb_inv st w" using assms(1) by (simp add: igs_inv_def)
  from sdb_interface_del_law [OF this, of i] assms(2) show ?thesis by auto
qed

theorem interface_removal_hosts_witness:
  "\<exists>w w'. sdb_hosts w a_group = {(a_host, 1)} \<and> igsc_sdb_interface_del w 1 = Some (w', SUCCESS) \<and> sdb_hosts w' a_group = {}"
proof -
  obtain w where w: "igs_inv (\<lambda>_ _. 0) w" "sdb_hosts w a_group = {(a_host, 1)}" by (rule joined_host)
  from interface_removal_hosts [OF w(1), of 1] obtain w' where
    w': "igsc_sdb_interface_del w 1 = Some (w', SUCCESS)" "sdb_hosts w' = (\<lambda>g. {x \<in> sdb_hosts w g. snd x \<noteq> 1})" by auto
  have "sdb_hosts w' a_group = {}" unfolding w'(2) w(2) by simp
  with w(2) w'(1) show ?thesis by blast
qed

text \<open>
  C40: Removing an interface forgets the routers on it and their router port references, but leaves their timers as they were: the
  objects are still queued, for entries that were freed, and when one of them fires its handler works on
  freed memory. These are the only timers that become stale.
\<close>

theorem interface_removal_routers:
  assumes "rt_ok w"
  shows "\<exists>w'. igsc_interface_rtport_del w i = (w', SUCCESS) \<and> rt_ok w' \<and>
    routers w' = {x \<in> routers w. fst x \<noteq> i} \<and>
    rtport_cnt (emf_handle w') =
      (rtport_cnt (emf_handle w))(i := rtport_cnt (emf_handle w) i - routers_on (rtlist_head w) i) \<and>
    stale_timers w' = stale_timers w \<union> rtl_timer ` {e \<in> set (rtlist_head w). rtl_ifp e = i} \<and>
    (\<forall>e\<in>set (rtlist_head w). rtl_ifp e = i \<longrightarrow>
      (\<exists>x. rt_timers w' (rtl_timer e) = Some x \<and> t_pending (rt_tm x) \<and> rt_arg x = rtl_addr e) \<and>
      rt_timer_expire w' (rtl_timer e) = None)"
proof -
  from interface_rtport_del_law [OF assms, of i] obtain w' where
    w': "igsc_interface_rtport_del w i = (w', SUCCESS)" "rt_ok w'" "routers w' = {x \<in> routers w. fst x \<noteq> i}"
      "rtport_cnt (emf_handle w') =
        (rtport_cnt (emf_handle w))(i := rtport_cnt (emf_handle w) i - routers_on (rtlist_head w) i)"
      "stale_timers w' = stale_timers w \<union> rtl_timer ` {e \<in> set (rtlist_head w). rtl_ifp e = i}" by blast
  have "\<exists>x. rt_timers w' (rtl_timer e) = Some x \<and> t_pending (rt_tm x) \<and> rt_arg x = rtl_addr e"
    if "e \<in> set (rtlist_head w)" for e
    using timers_wf_at [OF rt_okD(6) [OF assms] that] interface_rtport_timers [OF w'(1)] by (metis timer_live_pending)
  moreover have "rt_timer_expire w' (rtl_timer e) = None" if "e \<in> set (rtlist_head w)" "rtl_ifp e = i" for e
    using that w'(5) by (simp add: expire_stale_iff [OF w'(2)])
  ultimately show ?thesis using w' by blast
qed

theorem interface_removal_routers_witness:
  "\<exists>w w' e. e \<in> set (rtlist_head w) \<and> rt_timer_expire w (rtl_timer e) \<noteq> None \<and>
    igsc_interface_rtport_del w 2 = (w', SUCCESS) \<and> routers w' = {} \<and>
    rt_timers w' (rtl_timer e) \<noteq> None \<and> rt_timer_expire w' (rtl_timer e) = None"
proof -
  obtain w e where w: "igs_inv (\<lambda>_ _. 0) w" "routers w = {(2, a_host)}" "e \<in> set (rtlist_head w)"
    "rtl_ifp e = 2" by (rule routed_entry)
  have rt: "rt_ok w" using w(1) by (simp add: igs_inv_def)
  from interface_removal_routers [OF rt, of 2] obtain w' where w':
    "igsc_interface_rtport_del w 2 = (w', SUCCESS)" "routers w' = {x \<in> routers w. fst x \<noteq> 2}"
    "\<forall>e\<in>set (rtlist_head w). rtl_ifp e = 2 \<longrightarrow>
      (\<exists>x. rt_timers w' (rtl_timer e) = Some x \<and> t_pending (rt_tm x) \<and> rt_arg x = rtl_addr e) \<and>
      rt_timer_expire w' (rtl_timer e) = None" by blast
  have "routers w' = {}" unfolding w'(2) w(2) by simp
  moreover have "rt_timer_expire w (rtl_timer e) \<noteq> None" using rt_timer_expire_law [OF rt w(3)] by auto
  moreover have "rt_timers w' (rtl_timer e) \<noteq> None" "rt_timer_expire w' (rtl_timer e) = None"
    using w'(3) w(3,4) by auto
  ultimately show ?thesis using w(3) w'(1) by blast
qed

text \<open>
  Disabling the snooper empties it: no hosts, no routers, and the invariant still holds.
\<close>

theorem disable_empties:
  assumes "igs_inv st w" "igsc_emf_disabled w = Some (w', r)"
  shows "igs_inv st w' \<and> sdb_hosts w' = (\<lambda>g. {}) \<and> routers w' = {} \<and> r = SUCCESS"
  using disable_inv [OF assms] by simp

theorem disable_empties_witness:
  "\<exists>w w' r. sdb_hosts w a_group = {(a_host, 1)} \<and> igsc_emf_disabled w = Some (w', r) \<and> sdb_hosts w' a_group = {}"
proof -
  obtain w where w: "igs_inv (\<lambda>_ _. 0) w" "igs_frame running_igs w" "sdb_hosts w a_group = {(a_host, 1)}"
    by (rule joined_host)
  have sinv: "sdb_inv (\<lambda>_ _. 0) w" using w(1) by (simp add: igs_inv_def)
  from sdb_clear_law [OF sinv] obtain w1 where w1: "igsc_sdb_clear w = Some w1" "igs_frame w w1" by blast
  have "rtlist_head w1 = []" using w(2) w1(2) by (simp add: igs_frame_def)
  then have d: "igsc_emf_disabled w = Some (w1, SUCCESS)"
    using w1(1) rtlist_clear_empty by (simp add: igsc_emf_disabled_def)
  from disable_empties [OF w(1) d] have "sdb_hosts w1 a_group = {}" by simp
  with w(3) d show ?thesis by blast
qed

end
