(* ===== verification/Bcm_Str.thy ===== *)
theory Bcm_Str
  imports Net_Bytes
begin

text \<open>
  Character classes and number parsing of bcmutils.c. A C string is the list of its bytes
  before the terminating NUL; reading at its end gives the NUL.
\<close>

section \<open>Characters\<close>

type_synonym cstr = "u8 list"

definition cstr :: "string \<Rightarrow> cstr" where
  "cstr s = map of_char s"

definition at0 :: "cstr \<Rightarrow> nat \<Rightarrow> u8" where
  "at0 s k = (if k < length s then s ! k else 0)"

definition bcm_ctype :: "u8 list" where
  "bcm_ctype = [
     0x08, 0x08, 0x08, 0x08, 0x08, 0x08, 0x08, 0x08, 0x08, 0x28, 0x28, 0x28, 0x28, 0x28, 0x08, 0x08,
     0x08, 0x08, 0x08, 0x08, 0x08, 0x08, 0x08, 0x08, 0x08, 0x08, 0x08, 0x08, 0x08, 0x08, 0x08, 0x08,
     0xa0, 0x10, 0x10, 0x10, 0x10, 0x10, 0x10, 0x10, 0x10, 0x10, 0x10, 0x10, 0x10, 0x10, 0x10, 0x10,
     0x04, 0x04, 0x04, 0x04, 0x04, 0x04, 0x04, 0x04, 0x04, 0x04, 0x10, 0x10, 0x10, 0x10, 0x10, 0x10,
     0x10, 0x41, 0x41, 0x41, 0x41, 0x41, 0x41, 0x01, 0x01, 0x01, 0x01, 0x01, 0x01, 0x01, 0x01, 0x01,
     0x01, 0x01, 0x01, 0x01, 0x01, 0x01, 0x01, 0x01, 0x01, 0x01, 0x01, 0x10, 0x10, 0x10, 0x10, 0x10,
     0x10, 0x42, 0x42, 0x42, 0x42, 0x42, 0x42, 0x02, 0x02, 0x02, 0x02, 0x02, 0x02, 0x02, 0x02, 0x02,
     0x02, 0x02, 0x02, 0x02, 0x02, 0x02, 0x02, 0x02, 0x02, 0x02, 0x02, 0x10, 0x10, 0x10, 0x10, 0x08,
     0, 0, 0, 0, 0, 0, 0, 0, 0, 0, 0, 0, 0, 0, 0, 0,
     0, 0, 0, 0, 0, 0, 0, 0, 0, 0, 0, 0, 0, 0, 0, 0,
     0xa0, 0x10, 0x10, 0x10, 0x10, 0x10, 0x10, 0x10, 0x10, 0x10, 0x10, 0x10, 0x10, 0x10, 0x10, 0x10,
     0x10, 0x10, 0x10, 0x10, 0x10, 0x10, 0x10, 0x10, 0x10, 0x10, 0x10, 0x10, 0x10, 0x10, 0x10, 0x10,
     0x01, 0x01, 0x01, 0x01, 0x01, 0x01, 0x01, 0x01, 0x01, 0x01, 0x01, 0x01, 0x01, 0x01, 0x01, 0x01,
     0x01, 0x01, 0x01, 0x01, 0x01, 0x01, 0x01, 0x10, 0x01, 0x01, 0x01, 0x01, 0x01, 0x01, 0x01, 0x02,
     0x02, 0x02, 0x02, 0x02, 0x02, 0x02, 0x02, 0x02, 0x02, 0x02, 0x02, 0x02, 0x02, 0x02, 0x02, 0x02,
     0x02, 0x02, 0x02, 0x02, 0x02, 0x02, 0x02, 0x10, 0x02, 0x02, 0x02, 0x02, 0x02, 0x02, 0x02, 0x02]"

definition bcm_ismask :: "u8 \<Rightarrow> u8" where "bcm_ismask c = bcm_ctype ! unat c"
definition bcm_isdigit :: "u8 \<Rightarrow> bool" where "bcm_isdigit c \<longleftrightarrow> bcm_ismask c AND 0x04 \<noteq> 0"
definition bcm_isspace :: "u8 \<Rightarrow> bool" where "bcm_isspace c \<longleftrightarrow> bcm_ismask c AND 0x20 \<noteq> 0"
definition bcm_isxdigit :: "u8 \<Rightarrow> bool" where "bcm_isxdigit c \<longleftrightarrow> bcm_ismask c AND 0x44 \<noteq> 0"
definition bcm_islower :: "u8 \<Rightarrow> bool" where "bcm_islower c \<longleftrightarrow> bcm_ismask c AND 0x02 \<noteq> 0"

definition bcm_toupper :: "u8 \<Rightarrow> u8" where
  "bcm_toupper c = (if bcm_islower c then c + 65 - 97 else c)"

section \<open>Parsing numbers\<close>

text \<open>The value of a digit, a signed \<open>int\<close> stored in an \<open>unsigned long\<close>.\<close>

definition digit_value :: "u8 \<Rightarrow> u32" where
  "digit_value c = (if bcm_isdigit c then scast c - 48 else scast (bcm_toupper c) - 65 + 10)"

text \<open>
  The loop over the digits. The result is \<open>-1\<close> at once when a step makes the value smaller,
  and then \<open>*endp\<close> is not written (\<open>None\<close>).
\<close>

fun strtoul_loop :: "u32 \<Rightarrow> bool \<Rightarrow> u32 \<Rightarrow> cstr \<Rightarrow> u32 \<times> cstr option" where
  "strtoul_loop base neg result [] = (if neg then - result else result, Some [])"
| "strtoul_loop base neg result (c # cp) =
     (if bcm_isxdigit c \<and> digit_value c < base then
        let result' = result * base + digit_value c in
        if result' < result \<and> \<not> neg then (- 1, None)
        else strtoul_loop base neg result' cp
      else (if neg then - result else result, Some (c # cp)))"

definition strtoul_sign :: "cstr \<Rightarrow> bool \<times> cstr" where
  "strtoul_sign cp = (if at0 cp 0 = 43 then (False, tl cp)
     else if at0 cp 0 = 45 then (True, tl cp) else (False, cp))"

definition strtoul_base :: "u32 \<Rightarrow> cstr \<Rightarrow> u32 \<times> cstr" where
  "strtoul_base base cp =
     (if base = 0 then
        (if at0 cp 0 = 48 then
           (if at0 cp 1 = 120 \<or> at0 cp 1 = 88 then (16, drop 2 cp) else (8, drop 1 cp))
         else (10, cp))
      else if base = 16 \<and> at0 cp 0 = 48 \<and> (at0 cp 1 = 120 \<or> at0 cp 1 = 88) then (base, drop 2 cp)
      else (base, cp))"

definition bcm_strtoul :: "cstr \<Rightarrow> u32 \<Rightarrow> u32 \<times> cstr option" where
  "bcm_strtoul cp base =
     (let (neg, cp1) = strtoul_sign (dropWhile bcm_isspace cp);
          (base1, cp2) = strtoul_base base cp1
      in strtoul_loop base1 neg 0 cp2)"

definition bcm_atoi :: "cstr \<Rightarrow> int" where
  "bcm_atoi s = sint (fst (bcm_strtoul s 10))"


text \<open>
  \<open>bcm_ether_atoe\<close>: octets until the end of the string or six of them. When a number is too
  large the parse goes on at the same place (\<open>endp\<close> is not written).
\<close>

fun atoe_loop :: "nat \<Rightarrow> cstr \<Rightarrow> u8 list" where
  "atoe_loop 0 p = []"
| "atoe_loop (Suc n) p =
     (let (v, e) = bcm_strtoul p 16; p1 = (case e of None \<Rightarrow> p | Some q \<Rightarrow> q) in
      ucast v # (if at0 p1 0 = 0 then [] else atoe_loop n (tl p1)))"

definition bcm_ether_atoe :: "cstr \<Rightarrow> u8 list option" where
  "bcm_ether_atoe p = (let ea = atoe_loop 6 p in if length ea = 6 then Some ea else None)"

section \<open>Numerals\<close>

text \<open>The digit of a value, as \<open>%X\<close> and \<open>%d\<close> print it, and the value of a digit sequence.\<close>

definition digit_char :: "nat \<Rightarrow> u8" where
  "digit_char v = (if v < 10 then of_nat (48 + v) else of_nat (55 + v))"

definition digits_val :: "nat \<Rightarrow> nat \<Rightarrow> nat list \<Rightarrow> nat" where
  "digits_val b r ds = foldl (\<lambda>r d. r * b + d) r ds"

lemma digit_char_class:
  assumes "v < 16"
  shows "bcm_isxdigit (digit_char v)" "digit_value (digit_char v) = of_nat v"
    "\<not> bcm_isspace (digit_char v)" "digit_char v \<noteq> 43" "digit_char v \<noteq> 45"
    "digit_char v \<noteq> 120" "digit_char v \<noteq> 88" "digit_char v \<noteq> 0" "digit_char v = 48 \<longleftrightarrow> v = 0"
proof -
  have "v \<in> {0, 1, 2, 3, 4, 5, 6, 7, 8, 9, 10, 11, 12, 13, 14, 15}" unfolding insert_iff empty_iff using assms by presburger
  then have "bcm_isxdigit (digit_char v) \<and> digit_value (digit_char v) = of_nat v \<and>
    \<not> bcm_isspace (digit_char v) \<and> digit_char v \<noteq> 43 \<and> digit_char v \<noteq> 45 \<and>
    digit_char v \<noteq> 120 \<and> digit_char v \<noteq> 88 \<and> digit_char v \<noteq> 0 \<and> (digit_char v = 48 \<longleftrightarrow> v = 0)"
    by (elim insertE emptyE; simp add: digit_char_def bcm_isxdigit_def bcm_isspace_def bcm_ismask_def
        bcm_ctype_def digit_value_def bcm_isdigit_def bcm_toupper_def bcm_islower_def)
  then show "bcm_isxdigit (digit_char v)" "digit_value (digit_char v) = of_nat v"
    "\<not> bcm_isspace (digit_char v)" "digit_char v \<noteq> 43" "digit_char v \<noteq> 45"
    "digit_char v \<noteq> 120" "digit_char v \<noteq> 88" "digit_char v \<noteq> 0" "digit_char v = 48 \<longleftrightarrow> v = 0" by blast+
qed

lemma digits_val_mono: "r \<le> digits_val b r ds" if "0 < b"
proof (induction ds arbitrary: r)
  case (Cons d ds)
  have "r \<le> r * b + d" using that by (cases b) auto
  also have "\<dots> \<le> digits_val b (r * b + d) ds" by (rule Cons)
  finally show ?case by (simp add: digits_val_def)
qed (simp add: digits_val_def)

text \<open>What ends a number in base \<open>b\<close>.\<close>

definition ends_digits :: "nat \<Rightarrow> cstr \<Rightarrow> bool" where
  "ends_digits b cp \<longleftrightarrow> cp = [] \<or> \<not> bcm_isxdigit (hd cp) \<or> of_nat b \<le> digit_value (hd cp)"

lemma strtoul_digits:
  assumes "b \<le> 16" "0 < b" "\<forall>d\<in>set ds. d < b" "digits_val b r ds < 2 ^ 32" "ends_digits b cp"
  shows "strtoul_loop (of_nat b) neg (of_nat r) (map digit_char ds @ cp) =
    (if neg then - of_nat (digits_val b r ds) else of_nat (digits_val b r ds), Some cp)"
  using assms(3,4)
proof (induction ds arbitrary: r)
  case Nil
  then show ?case
    using assms(5) by (cases cp) (auto simp: digits_val_def ends_digits_def)
next
  case (Cons d ds)
  have d: "d < b" "d < 16" using Cons.prems assms(1) by auto
  have val: "digits_val b r (d # ds) = digits_val b (r * b + d) ds" by (simp add: digits_val_def)
  have fits: "r * b + d < 2 ^ 32"
    using digits_val_mono [OF assms(2), of "r * b + d" ds] Cons.prems(2) val by simp
  then have "r < 2 ^ 32" using digits_val_mono [OF assms(2), of r "[d]"] by (simp add: digits_val_def)
  have le: "r \<le> r * b + d" using assms(2) by (cases b) auto
  have "(of_nat d :: u32) < of_nat b"
    using d assms(1) by (simp add: word_less_nat_alt unsigned_of_nat take_bit_nat_eq_self)
  moreover have "\<not> (of_nat (r * b + d) :: u32) < of_nat r"
    using fits \<open>r < 2 ^ 32\<close> le by (simp add: word_less_nat_alt unsigned_of_nat take_bit_nat_eq_self del: of_nat_add of_nat_mult)
  moreover have "(of_nat r :: u32) * of_nat b + of_nat d = of_nat (r * b + d)" by simp
  moreover have "strtoul_loop (of_nat b) neg (of_nat (r * b + d)) (map digit_char ds @ cp) =
      (if neg then - of_nat (digits_val b r (d # ds)) else of_nat (digits_val b r (d # ds)), Some cp)"
    unfolding val by (rule Cons.IH) (use Cons.prems val in simp_all)
  ultimately show ?case
    using digit_char_class(1,2) [OF d(2)] by (simp add: Let_def del: of_nat_add of_nat_mult)
qed

text \<open>\<open>"0x%0kX"\<close>: the low \<open>k\<close> hexadecimal digits of a number.\<close>

fun hex_digits :: "nat \<Rightarrow> nat \<Rightarrow> nat list" where
  "hex_digits 0 n = []"
| "hex_digits (Suc k) n = hex_digits k (n div 16) @ [n mod 16]"

definition fmt_hex :: "nat \<Rightarrow> nat \<Rightarrow> cstr" where
  "fmt_hex k n = [48, 120] @ map digit_char (hex_digits k n)"

lemma hex_digits_bound: "d \<in> set (hex_digits k n) \<Longrightarrow> d < 16"
  by (induction k n rule: hex_digits.induct) auto

lemma digits_val_hex: "digits_val 16 0 (hex_digits k n) = n mod 16 ^ k"
proof (induction k n rule: hex_digits.induct)
  case (2 k n)
  have "n mod (16 * 16 ^ k) = 16 * (n div 16 mod 16 ^ k) + n mod 16" by (rule mod_mult2_eq)
  with 2 show ?case by (simp add: digits_val_def)
qed (simp add: digits_val_def)

lemma fmt_hex_no_nul: "0 \<notin> set (fmt_hex k n)"
  using hex_digits_bound digit_char_class(8) by (fastforce simp: fmt_hex_def)

lemma strtoul_hex:
  assumes "n < 16 ^ k" "n < 2 ^ 32" "ends_digits 16 cp"
  shows "bcm_strtoul (fmt_hex k n @ cp) 0 = (of_nat n, Some cp)"
proof -
  have "dropWhile bcm_isspace (fmt_hex k n @ cp) = fmt_hex k n @ cp"
    by (simp add: fmt_hex_def bcm_isspace_def bcm_ismask_def bcm_ctype_def)
  moreover have "strtoul_sign (fmt_hex k n @ cp) = (False, fmt_hex k n @ cp)"
    by (simp add: strtoul_sign_def at0_def fmt_hex_def)
  moreover have "strtoul_base 0 (fmt_hex k n @ cp) = (16, map digit_char (hex_digits k n) @ cp)"
    by (simp add: strtoul_base_def at0_def fmt_hex_def)
  moreover have "strtoul_loop 16 False 0 (map digit_char (hex_digits k n) @ cp) = (of_nat n, Some cp)"
    using strtoul_digits [of 16 "hex_digits k n" 0 cp False] assms
    by (auto simp: hex_digits_bound digits_val_hex)
  ultimately show ?thesis by (simp add: bcm_strtoul_def)
qed

lemma strtoul_decimal:
  assumes "\<forall>d\<in>set (d # ds). d < 10" "digits_val 10 0 (d # ds) < 2 ^ 32" "ends_digits 10 cp"
    "b = 10 \<or> b = 0 \<and> d \<noteq> 0"
  shows "bcm_strtoul (map digit_char (d # ds) @ cp) b = (of_nat (digits_val 10 0 (d # ds)), Some cp)"
proof -
  let ?s = "map digit_char (d # ds) @ cp"
  have d: "d < 16" using assms(1) by simp
  have "dropWhile bcm_isspace ?s = ?s" using digit_char_class(3) [OF d] by simp
  moreover have "strtoul_sign ?s = (False, ?s)"
    using digit_char_class(4,5) [OF d] by (simp add: strtoul_sign_def at0_def)
  moreover have "strtoul_base b ?s = (10, ?s)"
    using assms(4) digit_char_class(9) [OF d] by (auto simp: strtoul_base_def at0_def)
  moreover have "strtoul_loop 10 False 0 ?s = (of_nat (digits_val 10 0 (d # ds)), Some cp)"
    using strtoul_digits [of 10 "d # ds" 0 cp False] assms(1-3) by simp
  ultimately show ?thesis by (simp add: bcm_strtoul_def)
qed

end
