(* ===== verification/Nvram.thy ===== *)
theory Nvram
  imports Hash_Chain Bcm_Crc Bcm_Str
begin

text \<open>
  The NVRAM variable store of nvram.c: a chained hash table of name/value tuples that is filled
  from, and written back to, a flash image of \<open>name=value\<close> strings behind a header with a
  checksum. The file is linked with a platform's allocation of tuples (\<open>_nvram_realloc\<close>,
  \<open>_nvram_free\<close>), which is an argument here: a \<open>nvram_port\<close> over a heap of type \<open>'h\<close>.
  Value pointers are numbers that \<open>p_str\<close> reads as C strings.
\<close>

section \<open>Data\<close>

record nvram_tuple =
  nt_addr :: addr
  nt_name :: cstr
  nt_value :: nat

record 'h nvram_port =
  p_realloc :: "'h \<Rightarrow> nvram_tuple option \<Rightarrow> cstr \<Rightarrow> cstr \<Rightarrow> 'h \<times> nvram_tuple option"
  p_free :: "'h \<Rightarrow> nvram_tuple option \<Rightarrow> 'h"
  p_str :: "'h \<Rightarrow> nat \<Rightarrow> cstr"

record 'h nvram =
  nvram_hash :: "nvram_tuple chains"
  nvram_dead :: "nvram_tuple list"
  nv_heap :: 'h

record nvram_header =
  nvh_magic :: u32
  nvh_len :: u32
  nvh_crc_ver_init :: u32
  nvh_config_refresh :: u32
  nvh_config_ncdl :: u32

definition NVRAM_MAGIC :: u32 where "NVRAM_MAGIC = 0x48534c46"
definition NVRAM_CLEAR_MAGIC :: u32 where "NVRAM_CLEAR_MAGIC = 0"
definition NVRAM_INVALID_MAGIC :: u32 where "NVRAM_INVALID_MAGIC = 0xffffffff"
definition NVRAM_VERSION :: u32 where "NVRAM_VERSION = 1"
definition NVRAM_SPACE :: nat where "NVRAM_SPACE = 0x8000"
definition NVRAM_HEADER_SIZE :: nat where "NVRAM_HEADER_SIZE = 20"
definition NVRAM_CRC_VER_MASK :: u32 where "NVRAM_CRC_VER_MASK = 0xffffff00"
definition NVRAM_CRC_START_POSITION :: nat where "NVRAM_CRC_START_POSITION = 9"
definition NVRAM_HASH_SIZE :: nat where "NVRAM_HASH_SIZE = 257"

definition SDRAM_INIT :: u32 where "SDRAM_INIT = 0x419"
definition SDRAM_CONFIG :: u32 where "SDRAM_CONFIG = 0"
definition SDRAM_REFRESH :: u32 where "SDRAM_REFRESH = (0x40 AND 0xff) OR 0x8000"

text \<open>The string hash; \<open>char\<close> is signed.\<close>

definition str_hash :: "cstr \<Rightarrow> u32" where
  "str_hash s = foldl (\<lambda>h c. 31 * h + scast c) 0 s"

definition nvram_bucket :: "cstr \<Rightarrow> nat" where
  "nvram_bucket s = unat (str_hash s) mod NVRAM_HASH_SIZE"

interpretation nvt: hash_chain nt_name nvram_bucket NVRAM_HASH_SIZE
  by unfold_locales (simp add: nvram_bucket_def NVRAM_HASH_SIZE_def)

abbreviation nvram_tuples :: "'h nvram \<Rightarrow> nvram_tuple list" where
  "nvram_tuples st \<equiv> ht_nodes NVRAM_HASH_SIZE (nvram_hash st)"

section \<open>Variables\<close>

text \<open>\<open>nvram_free\<close>.\<close>

definition nv_free :: "'h nvram_port \<Rightarrow> 'h nvram \<Rightarrow> 'h nvram" where
  "nv_free P st =
     (let h1 = foldl (\<lambda>h t. p_free P h (Some t)) (nv_heap st) (nvram_tuples st);
          h2 = foldl (\<lambda>h t. p_free P h (Some t)) h1 (nvram_dead st)
      in \<lparr>nvram_hash = (\<lambda>i. if i < NVRAM_HASH_SIZE then [] else nvram_hash st i), nvram_dead = [],
          nv_heap = p_free P h2 None\<rparr>)"

text \<open>The search of one chain, common to \<open>_nvram_get\<close>, \<open>_nvram_set\<close> and \<open>_nvram_unset\<close>.\<close>

definition nv_find :: "'h nvram \<Rightarrow> cstr \<Rightarrow> nvram_tuple option" where
  "nv_find st name = List.find (\<lambda>t. nt_name t = name) (nvram_hash st (nvram_bucket name))"

definition nv_get :: "'h nvram_port \<Rightarrow> 'h nvram \<Rightarrow> cstr option \<Rightarrow> cstr option" where
  "nv_get P st name =
     (case name of None \<Rightarrow> None
      | Some n \<Rightarrow> (case nv_find st n of None \<Rightarrow> None | Some t \<Rightarrow> Some (p_str P (nv_heap st) (nt_value t))))"

definition ENOMEM :: int where "ENOMEM = 12"

definition nv_bury :: "'h nvram \<Rightarrow> nat \<Rightarrow> nvram_tuple \<Rightarrow> 'h nvram" where
  "nv_bury st i t = st\<lparr>nvram_hash := (nvram_hash st)(i := del_first (\<lambda>x. nt_name x = nt_name t) (nvram_hash st i)),
     nvram_dead := t # nvram_dead st\<rparr>"

text \<open>
  When \<open>_nvram_realloc\<close> gives back the tuple it was passed, it has rewritten the tuple's value
  pointer in place.
\<close>

definition nv_set :: "'h nvram_port \<Rightarrow> 'h nvram \<Rightarrow> cstr \<Rightarrow> cstr \<Rightarrow> 'h nvram \<times> int" where
  "nv_set P st name val =
     (let i = nvram_bucket name; t = nv_find st name;
          (h, u) = p_realloc P (nv_heap st) t name val; st1 = st\<lparr>nv_heap := h\<rparr> in
      case u of
        None \<Rightarrow> (st1, - ENOMEM)
      | Some u \<Rightarrow>
          (case t of
             None \<Rightarrow> (st1\<lparr>nvram_hash := ht_add_head (nvram_hash st1) i u\<rparr>, 0)
           | Some t \<Rightarrow>
               if nt_addr t = nt_addr u then
                 (st1\<lparr>nvram_hash := ht_update (nvram_hash st1) (\<lambda>x. nt_addr x = nt_addr u)
                    (\<lambda>x. x\<lparr>nt_value := nt_value u\<rparr>)\<rparr>, 0)
               else
                 let st2 = nv_bury st1 i t in
                 (st2\<lparr>nvram_hash := ht_add_head (nvram_hash st2) i u\<rparr>, 0)))"

definition nv_unset :: "'h nvram_port \<Rightarrow> 'h nvram \<Rightarrow> cstr option \<Rightarrow> 'h nvram \<times> int" where
  "nv_unset P st name =
     (case name of None \<Rightarrow> (st, 0)
      | Some n \<Rightarrow> (case nv_find st n of None \<Rightarrow> (st, 0) | Some t \<Rightarrow> (nv_bury st (nvram_bucket n) t, 0)))"

section \<open>Listing\<close>

text \<open>\<open>"%s=%s"\<close> with its terminating NUL.\<close>

definition nv_entry :: "'h nvram_port \<Rightarrow> 'h \<Rightarrow> nvram_tuple \<Rightarrow> bytes" where
  "nv_entry P h t = nt_name t @ [61] @ p_str P h (nt_value t) @ [0]"

text \<open>
  \<open>_nvram_getall\<close>: a tuple that does not fit ends its chain, and the next chain is tried; \<open>out\<close>
  is what has been written.
\<close>

fun getall_chain :: "'h nvram_port \<Rightarrow> 'h \<Rightarrow> nat \<Rightarrow> bytes \<Rightarrow> nvram_tuple list \<Rightarrow> bytes" where
  "getall_chain P h count out [] = out"
| "getall_chain P h count out (t # ts) =
     (if count - length out > length (nt_name t) + 1 + length (p_str P h (nt_value t)) + 1
      then getall_chain P h count (out @ nv_entry P h t) ts else out)"

definition nv_getall :: "'h nvram_port \<Rightarrow> 'h nvram \<Rightarrow> nat \<Rightarrow> bytes \<times> int" where
  "nv_getall P st count =
     (let out = foldl (\<lambda>out i. getall_chain P (nv_heap st) count out (nvram_hash st i)) [] [0..<NVRAM_HASH_SIZE]
      in (out @ replicate (count - length out) 0, 0))"

section \<open>The checksum\<close>

definition le32 :: "u32 \<Rightarrow> bytes" where
  "le32 w = [ucast w, ucast (drop_bit 8 w), ucast (drop_bit 16 w), ucast (drop_bit 24 w)]"

text \<open>
  \<open>data\<close> is the memory after the header; \<open>None\<close> when the length in the header runs past it. The
  length is reduced by the header's in 32-bit arithmetic.
\<close>

definition nvram_calc_crc :: "nvram_header \<Rightarrow> bytes \<Rightarrow> u8 option" where
  "nvram_calc_crc nvh data =
     (let tmp = le32 (nvh_magic nvh) @ le32 (nvh_len nvh) @ le32 (nvh_crc_ver_init nvh AND NVRAM_CRC_VER_MASK)
            @ le32 (nvh_config_refresh nvh) @ le32 (nvh_config_ncdl nvh);
          crc = hndcrc8 (drop NVRAM_CRC_START_POSITION tmp) CRC8_INIT_VALUE;
          n = unat (nvh_len nvh - of_nat NVRAM_HEADER_SIZE)
      in if length data < n then None else Some (hndcrc8 (take n data) crc))"

section \<open>Reading an image\<close>

text \<open>
  The parse of \<open>name=value\<close> strings; the argument is the memory from \<open>name\<close> to the end of the
  block, and \<open>None\<close> is a read past that end. The result of each \<open>_nvram_set\<close> is not used.
\<close>

function rehash_walk :: "'h nvram_port \<Rightarrow> 'h nvram \<Rightarrow> bytes \<Rightarrow> 'h nvram option" where
  "rehash_walk P st m =
     (if 0 \<notin> set m then None
      else
        let s = takeWhile (\<lambda>c. c \<noteq> 0) m in
        if s = [] then Some st
        else if 61 \<notin> set s then Some st
        else
          let name = takeWhile (\<lambda>c. c \<noteq> 61) s; val = drop (Suc (length name)) s in
          rehash_walk P (fst (nv_set P st name val)) (drop (Suc (length s)) m))"
  by auto
termination
  by (relation "measure (\<lambda>(P, st, m). length m)") (auto intro!: diff_less dest: length_pos_if_in_set)

declare rehash_walk.simps [simp del]

definition nv_default :: "'h nvram_port \<Rightarrow> cstr \<Rightarrow> cstr \<Rightarrow> 'h nvram \<Rightarrow> 'h nvram" where
  "nv_default P name val st = (if nv_get P st (Some name) = None then fst (nv_set P st name val) else st)"

definition sdram_init :: cstr where "sdram_init = cstr ''sdram_init''"
definition sdram_config :: cstr where "sdram_config = cstr ''sdram_config''"
definition sdram_refresh :: cstr where "sdram_refresh = cstr ''sdram_refresh''"
definition sdram_ncdl :: cstr where "sdram_ncdl = cstr ''sdram_ncdl''"

definition nv_rehash :: "'h nvram_port \<Rightarrow> 'h nvram \<Rightarrow> nvram_header \<Rightarrow> bytes \<Rightarrow> ('h nvram \<times> int) option" where
  "nv_rehash P st header data =
     (let m = take (NVRAM_SPACE - NVRAM_HEADER_SIZE - 2) data @ [0, 0] in
      case rehash_walk P (nv_free P st) m of
        None \<Rightarrow> None
      | Some st1 \<Rightarrow>
          let st2 = nv_default P sdram_init (fmt_hex 4 (unat (drop_bit 16 (nvh_crc_ver_init header)))) st1;
              st3 = nv_default P sdram_config (fmt_hex 4 (unat (nvh_config_refresh header AND 0xffff))) st2;
              st4 = nv_default P sdram_refresh
                      (fmt_hex 4 (unat (drop_bit 16 (nvh_config_refresh header) AND 0xffff))) st3;
              st5 = nv_default P sdram_ncdl (fmt_hex 8 (unat (nvh_config_ncdl header))) st4
          in Some (st5, 0))"

section \<open>Writing an image\<close>

text \<open>\<open>ptr\<close> is the header plus what has been written; as in the listing a tuple that does not fit
  ends its chain.\<close>

fun commit_chain :: "'h nvram_port \<Rightarrow> 'h \<Rightarrow> bytes \<Rightarrow> nvram_tuple list \<Rightarrow> bytes" where
  "commit_chain P h out [] = out"
| "commit_chain P h out (t # ts) =
     (if NVRAM_HEADER_SIZE + length out + length (nt_name t) + 1 + length (p_str P h (nt_value t)) + 1
           > NVRAM_SPACE - 2
      then out else commit_chain P h (out @ nv_entry P h t) ts)"

definition commit_table :: "'h nvram_port \<Rightarrow> 'h nvram \<Rightarrow> bytes" where
  "commit_table P st =
     foldl (\<lambda>out i. commit_chain P (nv_heap st) out (nvram_hash st i)) [] [0..<NVRAM_HASH_SIZE]"

definition ROUNDUP :: "nat \<Rightarrow> nat \<Rightarrow> nat" where
  "ROUNDUP x y = ((x + (y - 1)) div y) * y"

text \<open>The header before its length and checksum.\<close>

definition commit_header :: "'h nvram_port \<Rightarrow> 'h nvram \<Rightarrow> nvram_header" where
  "commit_header P st =
     (let ver = push_bit 8 NVRAM_VERSION; num = (\<lambda>s. fst (bcm_strtoul s 0)) in
      case (nv_get P st (Some sdram_init), nv_get P st (Some sdram_config),
          nv_get P st (Some sdram_refresh), nv_get P st (Some sdram_ncdl)) of
        (Some init, Some config, Some refresh, Some ncdl) \<Rightarrow>
          \<lparr>nvh_magic = NVRAM_MAGIC, nvh_len = 0,
           nvh_crc_ver_init = ver OR push_bit 16 (num init AND 0xffff),
           nvh_config_refresh = (num config AND 0xffff) OR push_bit 16 (num refresh AND 0xffff),
           nvh_config_ncdl = num ncdl\<rparr>
      | _ \<Rightarrow>
          \<lparr>nvh_magic = NVRAM_MAGIC, nvh_len = 0,
           nvh_crc_ver_init = ver OR push_bit 16 SDRAM_INIT,
           nvh_config_refresh = SDRAM_CONFIG OR push_bit 16 SDRAM_REFRESH,
           nvh_config_ncdl = 0\<rparr>)"

text \<open>The image: the header with length and checksum, and the data area.\<close>

definition commit_image :: "'h nvram_port \<Rightarrow> 'h nvram \<Rightarrow> (nvram_header \<times> bytes) option" where
  "commit_image P st =
     (let out = commit_table P st;
          data = out @ replicate (NVRAM_SPACE - NVRAM_HEADER_SIZE - length out) 0;
          len = ROUNDUP (NVRAM_HEADER_SIZE + length out + 2) 4;
          hdr = (commit_header P st)\<lparr>nvh_len := of_nat len\<rparr>
      in map_option (\<lambda>crc. (hdr\<lparr>nvh_crc_ver_init := nvh_crc_ver_init hdr OR ucast crc\<rparr>, data))
           (nvram_calc_crc hdr data))"

definition nv_commit :: "'h nvram_port \<Rightarrow> 'h nvram \<Rightarrow> ('h nvram \<times> (nvram_header \<times> bytes) \<times> int) option" where
  "nv_commit P st =
     (case commit_image P st of None \<Rightarrow> None
      | Some (hdr, data) \<Rightarrow> map_option (\<lambda>(st', r). (st', (hdr, data), r)) (nv_rehash P st hdr data))"

section \<open>Setting up\<close>

text \<open>
  \<open>_nvram_init\<close>; \<open>img\<close> is what \<open>_nvram_read\<close> delivers with its result, \<open>mem\<close> tells whether there is
  memory for it.
\<close>

definition nv_init :: "'h nvram_port \<Rightarrow> 'h nvram \<Rightarrow> bool \<Rightarrow> int \<Rightarrow> nvram_header \<Rightarrow> bytes \<Rightarrow> ('h nvram \<times> int) option" where
  "nv_init P st mem ret header data =
     (if \<not> mem then Some (st, - ENOMEM)
      else if ret = 0 \<and> nvh_magic header = NVRAM_MAGIC then
        map_option (\<lambda>(st', r). (st', ret)) (nv_rehash P st header data)
      else Some (st, ret))"

end
