(* ===== verification/Nvram_Laws.thy ===== *)
theory Nvram_Laws
  imports Nvram
begin

text \<open>
  The contract of a platform's tuple allocation, as two locales (allocation, and allocation with
  a bound on the space), and what it gives the variable store: \<open>_nvram_set\<close> and \<open>_nvram_unset\<close> are
  updates of a map from names to values, and a committed image read back is the same map.
\<close>

section \<open>The variables as a map\<close>

definition nv_vals :: "'h nvram_port \<Rightarrow> 'h nvram \<Rightarrow> cstr \<Rightarrow> cstr option" where
  "nv_vals P st n = nv_get P st (Some n)"

text \<open>
  \<open>live\<close> says that a tuple is allocated and its value pointer can be read, \<open>hinv\<close> is the invariant of
  the allocator's own state.
\<close>

definition nv_ok :: "('h \<Rightarrow> bool) \<Rightarrow> ('h \<Rightarrow> nvram_tuple \<Rightarrow> bool) \<Rightarrow> 'h nvram \<Rightarrow> bool" where
  "nv_ok hinv live st \<longleftrightarrow> hinv (nv_heap st) \<and> nvt.wf (nvram_hash st) \<and> inj_on nt_addr (set (nvram_tuples st)) \<and>
     (\<forall>t\<in>set (nvram_tuples st). live (nv_heap st) t)"

lemma nv_find_lookup: "nv_find st n = nvt.lookup (nvram_hash st) n"
  by (simp add: nv_find_def nvt.lookup_def)

lemma nv_vals_lookup:
  "nv_vals P st n = map_option (\<lambda>t. p_str P (nv_heap st) (nt_value t)) (nvt.lookup (nvram_hash st) n)"
  by (simp add: nv_vals_def nv_get_def nv_find_lookup split: option.split)

lemma nv_okD:
  assumes "nv_ok hinv live st"
  shows "nvt.wf (nvram_hash st)" "inj_on nt_addr (set (nvram_tuples st))"
    "t \<in> set (nvram_tuples st) \<Longrightarrow> live (nv_heap st) t"
    "hinv (nv_heap st)"
  using assms by (auto simp: nv_ok_def)

lemma nv_lookupD:
  assumes "nv_ok hinv live st" "nvt.lookup (nvram_hash st) n = Some t"
  shows "t \<in> set (nvram_tuples st)" "nt_name t = n" "live (nv_heap st) t"
  using assms nv_okD [OF assms(1)] by (simp_all add: nvt.lookup_Some_iff)

section \<open>Unlinking a tuple\<close>

lemma bury_lookup:
  assumes wf: "nvt.wf (nvram_hash st)" and n: "nt_name t = n" "i = nvram_bucket n"
  shows "nvt.lookup (nvram_hash (nv_bury st i t)) = (nvt.lookup (nvram_hash st))(n := None)"
    "nvt.wf (nvram_hash (nv_bury st i t))"
    "set (nvram_tuples (nv_bury st i t)) \<subseteq> set (nvram_tuples st)"
proof -
  have i: "i < NVRAM_HASH_SIZE" using n nvt.hash_bound by simp
  have d: "distinct (map nt_name (nvram_hash st i))" using wf i by (simp add: nvt.wf_def)
  show "nvt.lookup (nvram_hash (nv_bury st i t)) = (nvt.lookup (nvram_hash st))(n := None)"
  proof
    fix k
    show "nvt.lookup (nvram_hash (nv_bury st i t)) k = ((nvt.lookup (nvram_hash st))(n := None)) k"
      using n find_del_first_key [OF d, of n] find_del_first_other [of "\<lambda>x. nt_name x = n" "\<lambda>x. nt_name x = k"]
      by (auto simp: nvt.lookup_def nv_bury_def)
  qed
  have sub: "set (nvram_hash (nv_bury st i t) j) \<subseteq> set (nvram_hash st j)" for j
    by (simp add: nv_bury_def set_del_first_subset)
  then show "nvt.wf (nvram_hash (nv_bury st i t))"
    using wf i set_del_first_subset [of "\<lambda>x. nt_name x = nt_name t" "nvram_hash st i"]
    by (auto simp: nvt.wf_def nv_bury_def distinct_map_del_first)
  show "set (nvram_tuples (nv_bury st i t)) \<subseteq> set (nvram_tuples st)"
    using sub by (fastforce simp: set_ht_nodes)
qed

lemma bury_heap [simp]: "nv_heap (nv_bury st i t) = nv_heap st"
  by (simp add: nv_bury_def)

section \<open>Allocation\<close>

locale nvram_alloc =
  fixes P :: "'h nvram_port" and hinv :: "'h \<Rightarrow> bool" and live :: "'h \<Rightarrow> nvram_tuple \<Rightarrow> bool"
  assumes realloc_inv: "\<lbrakk>p_realloc P h t n v = (h', r); hinv h\<rbrakk> \<Longrightarrow> hinv h'"
    and realloc_frame: "\<lbrakk>p_realloc P h t n v = (h', r); hinv h; live h x\<rbrakk> \<Longrightarrow>
      live h' x \<and> p_str P h' (nt_value x) = p_str P h (nt_value x)"
    and realloc_result: "\<lbrakk>p_realloc P h t n v = (h', Some u); hinv h; 0 \<notin> set v;
        \<And>x. t = Some x \<Longrightarrow> live h x \<and> nt_name x = n\<rbrakk> \<Longrightarrow>
      live h' u \<and> nt_name u = n \<and> p_str P h' (nt_value u) = v \<and>
      ((\<exists>x. t = Some x \<and> u = x\<lparr>nt_value := nt_value u\<rparr>) \<or> (\<forall>x. live h x \<longrightarrow> nt_addr x \<noteq> nt_addr u))"
    and live_str: "live h x \<Longrightarrow> 0 \<notin> set (p_str P h (nt_value x))"
begin

lemma heap_vals:
  assumes ok: "nv_ok hinv live st" and r: "p_realloc P (nv_heap st) t n v = (h, u)"
  shows "nv_ok hinv live (st\<lparr>nv_heap := h\<rparr>)" "nv_vals P (st\<lparr>nv_heap := h\<rparr>) = nv_vals P st"
proof -
  show "nv_ok hinv live (st\<lparr>nv_heap := h\<rparr>)"
    using ok realloc_inv [OF r] realloc_frame [OF r nv_okD(4) [OF ok]] by (auto simp: nv_ok_def)
  show "nv_vals P (st\<lparr>nv_heap := h\<rparr>) = nv_vals P st"
  proof
    fix k
    show "nv_vals P (st\<lparr>nv_heap := h\<rparr>) k = nv_vals P st k"
      using nv_lookupD(3) [OF ok, of k] realloc_frame [OF r nv_okD(4) [OF ok]]
      by (cases "nvt.lookup (nvram_hash st) k") (auto simp: nv_vals_lookup)
  qed
qed

text \<open>Adding a fresh tuple for a name that is not in the table.\<close>

lemma add_tuple:
  assumes ok: "nv_ok hinv live st" and none: "nvt.lookup (nvram_hash st) (nt_name u) = None"
    and u: "live (nv_heap st) u" "\<forall>x\<in>set (nvram_tuples st). nt_addr x \<noteq> nt_addr u"
    and i: "i = nvram_bucket (nt_name u)"
  shows "nv_ok hinv live (st\<lparr>nvram_hash := ht_add_head (nvram_hash st) i u\<rparr>)"
    "nv_vals P (st\<lparr>nvram_hash := ht_add_head (nvram_hash st) i u\<rparr>) =
     (nv_vals P st)(nt_name u \<mapsto> p_str P (nv_heap st) (nt_value u))"
proof -
  have "i < NVRAM_HASH_SIZE" using i nvt.hash_bound by simp
  then have set: "set (ht_nodes NVRAM_HASH_SIZE (ht_add_head (nvram_hash st) i u)) = insert u (set (nvram_tuples st))"
    by (rule set_ht_nodes_add_head)
  have "inj_on nt_addr (insert u (set (nvram_tuples st)))"
    using nv_okD(2) [OF ok] u(2) by (auto simp: inj_on_insert image_iff)
  then show "nv_ok hinv live (st\<lparr>nvram_hash := ht_add_head (nvram_hash st) i u\<rparr>)"
    using nv_okD [OF ok] u(1) none i set by (auto simp: nv_ok_def nvt.wf_add_head)
  show "nv_vals P (st\<lparr>nvram_hash := ht_add_head (nvram_hash st) i u\<rparr>) =
     (nv_vals P st)(nt_name u \<mapsto> p_str P (nv_heap st) (nt_value u))"
    by (simp add: fun_eq_iff nv_vals_lookup nvt.lookup_add_head [OF i])
qed

lemma bury_ok:
  assumes ok: "nv_ok hinv live st" and t: "nt_name t = n" "i = nvram_bucket n"
  shows "nv_ok hinv live (nv_bury st i t)" "nv_vals P (nv_bury st i t) = (nv_vals P st)(n := None)"
proof -
  note b = bury_lookup [OF nv_okD(1) [OF ok] t]
  show "nv_ok hinv live (nv_bury st i t)"
    using nv_okD [OF ok] b(2,3) by (auto simp: nv_ok_def intro: inj_on_subset)
  show "nv_vals P (nv_bury st i t) = (nv_vals P st)(n := None)"
    by (simp add: fun_eq_iff nv_vals_lookup b(1))
qed

lemma unset_law:
  assumes ok: "nv_ok hinv live st"
  shows "nv_ok hinv live (fst (nv_unset P st (Some n)))" "snd (nv_unset P st (Some n)) = 0"
    "nv_vals P (fst (nv_unset P st (Some n))) = (nv_vals P st)(n := None)"
proof -
  have "nv_ok hinv live (fst (nv_unset P st (Some n))) \<and> snd (nv_unset P st (Some n)) = 0 \<and>
    nv_vals P (fst (nv_unset P st (Some n))) = (nv_vals P st)(n := None)"
  proof (cases "nvt.lookup (nvram_hash st) n")
    case None
    then show ?thesis
      using ok by (auto simp: nv_unset_def nv_find_lookup nv_vals_lookup fun_eq_iff)
  next
    case (Some t)
    then show ?thesis
      using bury_ok [OF ok nv_lookupD(2) [OF ok Some] refl] by (simp add: nv_unset_def nv_find_lookup)
  qed
  then show "nv_ok hinv live (fst (nv_unset P st (Some n)))" "snd (nv_unset P st (Some n)) = 0"
    "nv_vals P (fst (nv_unset P st (Some n))) = (nv_vals P st)(n := None)" by simp_all
qed

text \<open>A tuple that is rewritten in place, and one that is replaced by a fresh one.\<close>

lemma rewrite_tuple:
  assumes ok: "nv_ok hinv live st" and lk: "nvt.lookup (nvram_hash st) n = Some t"
    and u: "u = t\<lparr>nt_value := w\<rparr>" "live (nv_heap st) u"
    and st': "st' = st\<lparr>nvram_hash := ht_update (nvram_hash st) (\<lambda>x. nt_addr x = nt_addr u) (\<lambda>x. x\<lparr>nt_value := w\<rparr>)\<rparr>"
  shows "nv_ok hinv live st'" "nv_vals P st' = (nv_vals P st)(n \<mapsto> p_str P (nv_heap st) w)"
proof -
  note tD = nv_lookupD [OF ok lk]
  let ?P = "\<lambda>x. nt_addr x = nt_addr u" and ?f = "\<lambda>x. x\<lparr>nt_value := w\<rparr>"
  have t: "?P x \<longleftrightarrow> x = t" if "x \<in> set (nvram_tuples st)" for x
    using nv_okD(2) [OF ok] tD u that by (auto simp: inj_on_eq_iff)
  have P: "?P x \<longleftrightarrow> nt_name x = n" if "x \<in> set (nvram_tuples st)" for x
    using t [OF that] nvt.nodes_key_inj [OF nv_okD(1) [OF ok] that tD(1)] tD(2) by auto
  have "nvt.lookup (nvram_hash st') = (nvt.lookup (nvram_hash st))(n \<mapsto> u)"
    using nvt.lookup_update [OF nv_okD(1) [OF ok], of ?f ?P n] P lk u st' by simp
  then show "nv_vals P st' = (nv_vals P st)(n \<mapsto> p_str P (nv_heap st) w)"
    using u st' by (auto simp: fun_eq_iff nv_vals_lookup)
  have "inj_on nt_addr ((\<lambda>x. if ?P x then ?f x else x) ` set (nvram_tuples st))"
    using nv_okD(2) [OF ok] by (auto simp: inj_on_def)
  moreover have "live (nv_heap st) (?f x)" if "x \<in> set (nvram_tuples st)" "?P x" for x
    using t [OF that(1)] that(2) u by simp
  ultimately show "nv_ok hinv live st'"
    using nv_okD [OF ok] by (auto simp: nv_ok_def nvt.wf_update ht_nodes_update st')
qed

lemma replace_tuple:
  assumes ok: "nv_ok hinv live st" and lk: "nvt.lookup (nvram_hash st) n = Some t"
    and u: "nt_name u = n" "live (nv_heap st) u" "\<forall>x\<in>set (nvram_tuples st). nt_addr x \<noteq> nt_addr u"
    and st': "st' = (let s = nv_bury st (nvram_bucket n) t in s\<lparr>nvram_hash := ht_add_head (nvram_hash s) (nvram_bucket n) u\<rparr>)"
  shows "nv_ok hinv live st'" "nv_vals P st' = (nv_vals P st)(n \<mapsto> p_str P (nv_heap st) (nt_value u))"
proof -
  let ?s = "nv_bury st (nvram_bucket n) t"
  note b = bury_ok [OF ok nv_lookupD(2) [OF ok lk] refl]
  note bl = bury_lookup [OF nv_okD(1) [OF ok] nv_lookupD(2) [OF ok lk] refl]
  have none: "nvt.lookup (nvram_hash ?s) (nt_name u) = None" using bl(1) u by simp
  have "\<forall>x\<in>set (nvram_tuples ?s). nt_addr x \<noteq> nt_addr u" using u bl(3) by auto
  moreover have "live (nv_heap ?s) u" using u by simp
  ultimately show "nv_ok hinv live st'" "nv_vals P st' = (nv_vals P st)(n \<mapsto> p_str P (nv_heap st) (nt_value u))"
    using add_tuple [OF b(1) none _ _ refl] b(2) u(1) st' by (simp_all add: Let_def)
qed

text \<open>Setting a variable changes its value and no other, or leaves all as they were.\<close>

lemma set_law:
  assumes ok: "nv_ok hinv live st" and v: "0 \<notin> set v" and s: "nv_set P st n v = (st', r)"
  shows "nv_ok hinv live st' \<and>
    (r = 0 \<and> nv_vals P st' = (nv_vals P st)(n \<mapsto> v) \<or> r = - ENOMEM \<and> nv_vals P st' = nv_vals P st)"
proof -
  obtain h u where r: "p_realloc P (nv_heap st) (nv_find st n) n v = (h, u)" by force
  let ?st1 = "st\<lparr>nv_heap := h\<rparr>"
  note h = heap_vals [OF ok r]
  have pre: "live (nv_heap st) x \<and> nt_name x = n" if "nv_find st n = Some x" for x
    using nv_lookupD [OF ok, of n x] that by (simp add: nv_find_lookup)
  show ?thesis
  proof (cases u)
    case None
    then show ?thesis using s r h by (simp add: nv_set_def)
  next
    case (Some u')
    note res = realloc_result [OF r [unfolded Some] nv_okD(4) [OF ok] v pre]
    have fresh: "\<forall>x\<in>set (nvram_tuples ?st1). nt_addr x \<noteq> nt_addr u'"
      if "\<forall>x. live (nv_heap st) x \<longrightarrow> nt_addr x \<noteq> nt_addr u'"
      using that nv_okD(3) [OF ok] by auto
    have u': "live (nv_heap ?st1) u'" "nt_name u' = n" "p_str P (nv_heap ?st1) (nt_value u') = v"
      using res by simp_all
    show ?thesis
    proof (cases "nv_find st n")
      case None
      then have "nvt.lookup (nvram_hash ?st1) (nt_name u') = None" using u' by (simp add: nv_find_lookup)
      then show ?thesis
        using add_tuple [OF h(1) _ u'(1) fresh refl] s r Some None res h(2) by (auto simp: nv_set_def)
    next
      case t: (Some t)
      then have lk: "nvt.lookup (nvram_hash ?st1) n = Some t" by (simp add: nv_find_lookup)
      have u: "u' = t\<lparr>nt_value := nt_value u'\<rparr> \<or> (\<forall>x. live (nv_heap st) x \<longrightarrow> nt_addr x \<noteq> nt_addr u')"
        using res t by auto
      show ?thesis
      proof (cases "nt_addr t = nt_addr u'")
        case True
        then have "u' = t\<lparr>nt_value := nt_value u'\<rparr>" using u pre [OF t] by auto
        note w = rewrite_tuple [OF h(1) lk this u'(1) refl]
        have "st' = ?st1\<lparr>nvram_hash := ht_update (nvram_hash ?st1) (\<lambda>x. nt_addr x = nt_addr u')
            (\<lambda>x. x\<lparr>nt_value := nt_value u'\<rparr>)\<rparr>" "r = 0"
          using s r Some t True by (simp_all add: nv_set_def)
        then show ?thesis using w u'(3) h(2) by simp
      next
        case False
        then have "u' \<noteq> t\<lparr>nt_value := nt_value u'\<rparr>"
          by (metis nvram_tuple.select_convs(1) nvram_tuple.surjective nvram_tuple.update_convs(3))
        then have "\<forall>x. live (nv_heap st) x \<longrightarrow> nt_addr x \<noteq> nt_addr u'" using u by blast
        note w = replace_tuple [OF h(1) lk u'(2,1) fresh [OF this] refl]
        have "st' = (let s = nv_bury ?st1 (nvram_bucket n) t in
            s\<lparr>nvram_hash := ht_add_head (nvram_hash s) (nvram_bucket n) u'\<rparr>)" "r = 0"
          using s r Some t False by (simp_all add: nv_set_def Let_def)
        then show ?thesis using w u'(3) h(2) by simp
      qed
    qed
  qed
qed

end

end
