(* ===== verification/Nvram_Image.thy ===== *)
theory Nvram_Image
  imports Nvram_Laws "HOL-Library.Sublist"
begin

text \<open>
  The flash image of the variable store: its contents as a list of variables, that reading it is
  setting those variables in order, and that what a commit writes is a part of the table with a
  valid checksum.
\<close>

section \<open>The variables of an image\<close>

text \<open>The variables a data area holds; \<open>None\<close> when it is not closed by NULs.\<close>

function image_vars :: "bytes \<Rightarrow> (cstr \<times> cstr) list option" where
  "image_vars m =
     (if 0 \<notin> set m then None
      else
        let s = takeWhile (\<lambda>c. c \<noteq> 0) m in
        if s = [] \<or> 61 \<notin> set s then Some []
        else map_option (Cons (takeWhile (\<lambda>c. c \<noteq> 61) s, drop (Suc (length (takeWhile (\<lambda>c. c \<noteq> 61) s))) s))
               (image_vars (drop (Suc (length s)) m)))"
  by auto
termination
  by (relation "measure length") (auto intro!: diff_less dest: length_pos_if_in_set)

declare image_vars.simps [simp del]

definition nv_set_all :: "'h nvram_port \<Rightarrow> 'h nvram \<Rightarrow> (cstr \<times> cstr) list \<Rightarrow> 'h nvram" where
  "nv_set_all P = foldl (\<lambda>st (n, v). fst (nv_set P st n v))"

lemma nv_set_all_simps [simp]:
  "nv_set_all P st [] = st"
  "nv_set_all P st ((n, v) # kvs) = nv_set_all P (fst (nv_set P st n v)) kvs"
  by (simp_all add: nv_set_all_def)

lemma rehash_walk_vars: "rehash_walk P st m = map_option (nv_set_all P st) (image_vars m)"
proof (induction P st m rule: rehash_walk.induct)
  case (1 P st m)
  let ?s = "takeWhile (\<lambda>c. c \<noteq> 0) m"
  show ?case
  proof (cases "0 \<in> set m \<and> ?s \<noteq> [] \<and> 61 \<in> set ?s")
    case True
    then show ?thesis
      using 1 by (subst rehash_walk.simps, subst image_vars.simps) (auto simp: Let_def option.map_comp comp_def)
  next
    case False
    then show ?thesis
      by (subst rehash_walk.simps, subst image_vars.simps) (auto simp: Let_def)
  qed
qed

lemma takeWhile_zero: "c \<notin> set xs \<Longrightarrow> takeWhile (\<lambda>x. x \<noteq> c) (xs @ c # r) = xs"
  by (induction xs) auto

lemma takeWhile_zero_less: "c \<in> set xs \<Longrightarrow> length (takeWhile (\<lambda>x. x \<noteq> c) xs) < length xs"
  by (auto dest!: split_list_first simp: takeWhile_zero)

text \<open>Two NULs at the end are enough for the walk to stay inside the block.\<close>

lemma drop_string_closed:
  assumes "m = x @ [0, 0] \<or> m = [0]" "takeWhile (\<lambda>c. c \<noteq> 0) m \<noteq> []"
  shows "\<exists>y. drop (Suc (length (takeWhile (\<lambda>c. c \<noteq> 0) m))) m = y @ [0, 0] \<or>
     drop (Suc (length (takeWhile (\<lambda>c. c \<noteq> 0) m))) m = [0::u8]"
proof -
  have m: "m = x @ [0, 0]" using assms by auto
  show ?thesis
  proof (cases "0 \<in> set x")
    case True
    then obtain a b where x: "x = a @ 0 # b" "0 \<notin> set a" by (meson split_list_first)
    then have "takeWhile (\<lambda>c. c \<noteq> 0) m = a" unfolding m by (simp add: takeWhile_zero)
    then show ?thesis using m x by simp
  next
    case False
    then have "takeWhile (\<lambda>c. c \<noteq> 0) m = x" unfolding m by (simp add: takeWhile_zero)
    then show ?thesis using m by simp
  qed
qed

lemma image_vars_closed: "(\<exists>x. m = x @ [0, 0]) \<or> m = [0] \<Longrightarrow> image_vars m \<noteq> None"
proof (induction m rule: image_vars.induct)
  case (1 m)
  have 0: "0 \<in> set m" using "1.prems" by auto
  show ?case
  proof (cases "takeWhile (\<lambda>c. c \<noteq> 0) m = [] \<or> 61 \<notin> set (takeWhile (\<lambda>c. c \<noteq> 0) m)")
    case True
    then show ?thesis using 0 by (subst image_vars.simps) (auto simp: Let_def)
  next
    case False
    then have "image_vars (drop (Suc (length (takeWhile (\<lambda>c. c \<noteq> 0) m))) m) \<noteq> None"
      using drop_string_closed "1.prems" 0 by (intro "1.IH") auto
    then show ?thesis using 0 False by (subst image_vars.simps) (auto simp: Let_def)
  qed
qed

text \<open>Names and values an image can hold, and their encoding.\<close>

definition var_ok :: "cstr \<times> cstr \<Rightarrow> bool" where
  "var_ok nv \<longleftrightarrow> 0 \<notin> set (fst nv) \<and> 61 \<notin> set (fst nv) \<and> 0 \<notin> set (snd nv)"

definition var_bytes :: "cstr \<times> cstr \<Rightarrow> bytes" where
  "var_bytes nv = fst nv @ [61] @ snd nv @ [0]"

lemma image_vars_Cons:
  assumes "var_ok (n, v)"
  shows "image_vars (var_bytes (n, v) @ r) = map_option (Cons (n, v)) (image_vars r)"
proof -
  have s: "takeWhile (\<lambda>c. c \<noteq> 0) (var_bytes (n, v) @ r) = n @ 61 # v"
    using assms takeWhile_zero [of 0 "n @ 61 # v" r] by (simp add: var_bytes_def var_ok_def)
  have n: "takeWhile (\<lambda>c. c \<noteq> 61) (n @ 61 # v) = n"
    using assms by (simp add: var_ok_def takeWhile_zero)
  show ?thesis
    by (subst image_vars.simps) (simp add: s n Let_def, simp add: var_bytes_def)
qed

lemma image_vars_bytes:
  "\<forall>nv\<in>set kvs. var_ok nv \<Longrightarrow> image_vars (concat (map var_bytes kvs) @ 0 # r) = Some kvs"
proof (induction kvs)
  case Nil
  then show ?case by (simp add: image_vars.simps)
next
  case (Cons nv kvs)
  then show ?case by (cases nv) (simp add: image_vars_Cons)
qed

text \<open>What is read off an image is well formed and no longer than the image.\<close>

lemma image_vars_ok: "image_vars m = Some kvs \<Longrightarrow> \<forall>nv\<in>set kvs. var_ok nv"
proof (induction m arbitrary: kvs rule: image_vars.induct)
  case (1 m)
  let ?s = "takeWhile (\<lambda>c. c \<noteq> 0) m"
  have "0 \<notin> set ?s" by (auto dest: set_takeWhileD)
  then have "var_ok (takeWhile (\<lambda>c. c \<noteq> 61) ?s, drop n ?s)" for n
    by (auto simp: var_ok_def dest: set_takeWhileD in_set_dropD)
  then show ?case
    using 1 by (subst (asm) image_vars.simps) (auto simp: Let_def split: if_splits)
qed

definition vals_size :: "(cstr \<times> cstr) list \<Rightarrow> nat" where
  "vals_size kvs = sum_list (map (\<lambda>nv. length (snd nv) + 1) kvs)"

lemma vals_size_simps [simp]: "vals_size [] = 0" "vals_size (nv # kvs) = length (snd nv) + 1 + vals_size kvs"
  by (simp_all add: vals_size_def)

lemma image_vars_size: "image_vars m = Some kvs \<Longrightarrow> vals_size kvs \<le> length m"
proof (induction m arbitrary: kvs rule: image_vars.induct)
  case (1 m)
  let ?s = "takeWhile (\<lambda>c. c \<noteq> 0) m"
  show ?case
  proof (cases "0 \<notin> set m \<or> ?s = [] \<or> 61 \<notin> set ?s")
    case True
    then show ?thesis using "1.prems" by (subst (asm) image_vars.simps) (auto simp: Let_def split: if_splits)
  next
    case False
    then obtain r where r: "image_vars (drop (Suc (length ?s)) m) = Some r"
      "kvs = (takeWhile (\<lambda>c. c \<noteq> 61) ?s, drop (Suc (length (takeWhile (\<lambda>c. c \<noteq> 61) ?s))) ?s) # r"
      using "1.prems" by (subst (asm) image_vars.simps) (auto simp: Let_def)
    have "vals_size r \<le> length (drop (Suc (length ?s)) m)"
      using False by (intro "1.IH" r) auto
    moreover have "length ?s < length m"
      using False by (simp add: takeWhile_zero_less)
    moreover have "?s \<noteq> []" using False by simp
    ultimately show ?thesis using r(2) by simp
  qed
qed

section \<open>What a commit writes\<close>

definition nv_var :: "'h nvram_port \<Rightarrow> 'h \<Rightarrow> nvram_tuple \<Rightarrow> cstr \<times> cstr" where
  "nv_var P h t = (nt_name t, p_str P h (nt_value t))"

lemma nv_entry_var: "nv_entry P h t = var_bytes (nv_var P h t)"
  by (simp add: nv_entry_def var_bytes_def nv_var_def)

lemma length_nv_entry: "length (nv_entry P h t) = length (nt_name t) + 1 + length (p_str P h (nt_value t)) + 1"
  by (simp add: nv_entry_def)

definition nv_bytes :: "'h nvram_port \<Rightarrow> 'h \<Rightarrow> nvram_tuple list \<Rightarrow> bytes" where
  "nv_bytes P h ts = concat (map (nv_entry P h) ts)"

lemma nv_bytes_simps [simp]:
  "nv_bytes P h [] = []" "nv_bytes P h (t # ts) = nv_entry P h t @ nv_bytes P h ts"
  "nv_bytes P h (ts @ us) = nv_bytes P h ts @ nv_bytes P h us"
  by (simp_all add: nv_bytes_def)

definition AREA :: nat where "AREA = NVRAM_SPACE - 2 - NVRAM_HEADER_SIZE"

lemma AREA_eq: "AREA = 32746" by (simp add: AREA_def NVRAM_SPACE_def NVRAM_HEADER_SIZE_def)

lemma commit_chain_Cons:
  "commit_chain P h out (t # ts) =
     (if length out + length (nv_entry P h t) > AREA then out else commit_chain P h (out @ nv_entry P h t) ts)"
  by (simp add: length_nv_entry AREA_def NVRAM_SPACE_def NVRAM_HEADER_SIZE_def)

declare commit_chain.simps(2) [simp del]

lemma commit_chain_prefix:
  "length out \<le> AREA \<Longrightarrow> \<exists>us. subseq us ts \<and> commit_chain P h out ts = out @ nv_bytes P h us \<and>
     length (commit_chain P h out ts) \<le> AREA"
proof (induction ts arbitrary: out)
  case Nil
  then show ?case by (intro exI [of _ "[]"]) simp
next
  case (Cons t ts)
  show ?case
  proof (cases "length out + length (nv_entry P h t) > AREA")
    case True
    then show ?thesis using Cons.prems by (intro exI [of _ "[]"]) (simp add: commit_chain_Cons)
  next
    case False
    with Cons.IH [of "out @ nv_entry P h t"] obtain us where
      "subseq us ts" "commit_chain P h (out @ nv_entry P h t) ts = out @ nv_entry P h t @ nv_bytes P h us"
      "length (commit_chain P h (out @ nv_entry P h t) ts) \<le> AREA" by auto
    then show ?thesis using False by (intro exI [of _ "t # us"]) (simp add: commit_chain_Cons)
  qed
qed

lemma commit_chain_fits:
  "length out + length (nv_bytes P h ts) \<le> AREA \<Longrightarrow> commit_chain P h out ts = out @ nv_bytes P h ts"
  by (induction ts arbitrary: out) (simp_all add: commit_chain_Cons)

lemma ht_nodes_Suc: "ht_nodes (Suc k) t = ht_nodes k t @ t k"
  by (simp add: ht_nodes_def)

lemma commit_table_part:
  "\<exists>us. subseq us (nvram_tuples st) \<and> commit_table P st = nv_bytes P (nv_heap st) us \<and> length (commit_table P st) \<le> AREA"
proof -
  let ?f = "\<lambda>out i. commit_chain P (nv_heap st) out (nvram_hash st i)"
  have "\<exists>us. subseq us (ht_nodes k (nvram_hash st)) \<and> foldl ?f [] [0..<k] = nv_bytes P (nv_heap st) us \<and>
      length (foldl ?f [] [0..<k]) \<le> AREA" for k
  proof (induction k)
    case (Suc k)
    then obtain us where us: "subseq us (ht_nodes k (nvram_hash st))" "foldl ?f [] [0..<k] = nv_bytes P (nv_heap st) us"
      "length (foldl ?f [] [0..<k]) \<le> AREA" by blast
    obtain vs where "subseq vs (nvram_hash st k)" "?f (foldl ?f [] [0..<k]) k = foldl ?f [] [0..<k] @ nv_bytes P (nv_heap st) vs"
      "length (?f (foldl ?f [] [0..<k]) k) \<le> AREA" 
      using commit_chain_prefix [OF us(3), where ts = "nvram_hash st k" and P = P and h = "nv_heap st"]
      by (elim exE conjE) (rule that)
    moreover from this(1) us(1) have "subseq (us @ vs) (ht_nodes (Suc k) (nvram_hash st))"
      unfolding ht_nodes_Suc by (intro list_emb_append_mono)
    ultimately show ?case using us(2) by (intro exI [of _ "us @ vs"]) simp
  qed (auto simp: ht_nodes_def intro: exI [of _ "[]"])
  then show ?thesis by (simp add: commit_table_def)
qed

text \<open>A table that fits is written completely.\<close>

lemma commit_table_fits:
  assumes "length (nv_bytes P (nv_heap st) (nvram_tuples st)) \<le> AREA"
  shows "commit_table P st = nv_bytes P (nv_heap st) (nvram_tuples st)"
proof -
  let ?f = "\<lambda>out i. commit_chain P (nv_heap st) out (nvram_hash st i)"
  have "k \<le> NVRAM_HASH_SIZE \<Longrightarrow> foldl ?f [] [0..<k] = nv_bytes P (nv_heap st) (ht_nodes k (nvram_hash st))" for k
  proof (induction k)
    case (Suc k)
    have "length (nv_bytes P (nv_heap st) (ht_nodes (Suc k) (nvram_hash st))) \<le> AREA"
    proof -
      have "ht_nodes NVRAM_HASH_SIZE (nvram_hash st) =
          ht_nodes (Suc k) (nvram_hash st) @ concat (map (nvram_hash st) [Suc k..<NVRAM_HASH_SIZE])"
        using upt_add_eq_append [of 0 "Suc k" "NVRAM_HASH_SIZE - Suc k"] Suc.prems by (simp add: ht_nodes_def)
      then show ?thesis using assms by simp
    qed
    then show ?case using Suc by (simp add: ht_nodes_Suc commit_chain_fits)
  qed (simp add: ht_nodes_def)
  then show ?thesis by (simp add: commit_table_def)
qed

section \<open>The header and its checksum\<close>

lemma low_byte_or: "ucast ((w :: u32) OR ucast (c :: u8)) = (ucast w OR c :: u8)"
  by (rule bit_word_eqI) (auto simp: bit_simps)

lemma crc_mask_or: "(w OR ucast (c :: u8)) AND NVRAM_CRC_VER_MASK = w AND (NVRAM_CRC_VER_MASK :: u32)"
proof (rule bit_word_eqI)
  fix n assume "n < LENGTH(32)"
  have eq: "NVRAM_CRC_VER_MASK = NOT (mask 8 :: u32)" by (simp add: NVRAM_CRC_VER_MASK_def mask_eq_exp_minus_1)
  have "bit NVRAM_CRC_VER_MASK n \<longrightarrow> 8 \<le> n"
    unfolding eq bit_not_iff bit_mask_iff by auto
  then show "bit ((w OR ucast c) AND NVRAM_CRC_VER_MASK) n = bit (w AND (NVRAM_CRC_VER_MASK :: u32)) n"
    by (auto simp: bit_simps dest: bit_imp_le_length)
qed

lemma commit_header_ver:
  "\<exists>w. nvh_crc_ver_init (commit_header P st) = push_bit 8 NVRAM_VERSION OR push_bit 16 w"
  unfolding commit_header_def Let_def
  apply (cases "nv_get P st (Some sdram_init)"; cases "nv_get P st (Some sdram_config)";
      cases "nv_get P st (Some sdram_refresh)"; cases "nv_get P st (Some sdram_ncdl)")
  apply (simp_all only: option.case prod.case nvram_header.select_convs)
  apply (rule exI, rule refl)+
  done

lemma commit_header_low: "ucast (nvh_crc_ver_init (commit_header P st)) = (0 :: u8)"
proof -
  have "ucast (push_bit 8 NVRAM_VERSION OR push_bit 16 w) = (0 :: u8)" for w :: u32
    by (rule bit_word_eqI) (auto simp: bit_simps)
  then show ?thesis using commit_header_ver [of P st] by metis
qed

lemma calc_crc_low:
  "nvram_calc_crc (h\<lparr>nvh_crc_ver_init := w OR ucast (c :: u8)\<rparr>) data = nvram_calc_crc (h\<lparr>nvh_crc_ver_init := w\<rparr>) data"
  by (simp add: nvram_calc_crc_def crc_mask_or)

lemma commit_image_Some:
  "\<exists>hdr data. commit_image P st = Some (hdr, data) \<and> length data = NVRAM_SPACE - NVRAM_HEADER_SIZE \<and>
     data = commit_table P st @ replicate (NVRAM_SPACE - NVRAM_HEADER_SIZE - length (commit_table P st)) 0 \<and>
     nvh_magic hdr = NVRAM_MAGIC \<and> unat (nvh_len hdr) \<le> NVRAM_SPACE \<and> 4 dvd unat (nvh_len hdr) \<and>
     NVRAM_HEADER_SIZE + length (commit_table P st) + 2 \<le> unat (nvh_len hdr) \<and>
     nvram_calc_crc hdr data = Some (ucast (nvh_crc_ver_init hdr)) \<and>
     drop_bit 8 (nvh_crc_ver_init hdr) = drop_bit 8 (nvh_crc_ver_init (commit_header P st)) \<and>
     nvh_config_refresh hdr = nvh_config_refresh (commit_header P st) \<and>
     nvh_config_ncdl hdr = nvh_config_ncdl (commit_header P st)"
proof -
  let ?out = "commit_table P st"
  let ?data = "?out @ replicate (NVRAM_SPACE - NVRAM_HEADER_SIZE - length ?out) 0"
  let ?len = "ROUNDUP (NVRAM_HEADER_SIZE + length ?out + 2) 4"
  let ?hdr = "(commit_header P st)\<lparr>nvh_len := of_nat ?len\<rparr>"
  have out: "length ?out \<le> AREA" using commit_table_part [of st P] by blast
  then have data: "length ?data = NVRAM_SPACE - NVRAM_HEADER_SIZE" by (simp add: AREA_def)
  have len: "?len \<le> NVRAM_SPACE" "4 dvd ?len" "NVRAM_HEADER_SIZE + length ?out + 2 \<le> ?len"
    using out by (auto simp: ROUNDUP_def AREA_def NVRAM_SPACE_def NVRAM_HEADER_SIZE_def)
  then have u: "unat (of_nat ?len :: u32) = ?len"
    by (simp add: unat_of_nat take_bit_nat_eq_self NVRAM_SPACE_def)
  have "(of_nat ?len - of_nat NVRAM_HEADER_SIZE :: u32) = of_nat (?len - NVRAM_HEADER_SIZE)"
    using len by (simp add: of_nat_diff)
  moreover have "?len - NVRAM_HEADER_SIZE < 2 ^ 32" using len by (simp add: NVRAM_SPACE_def)
  ultimately have "unat (of_nat ?len - of_nat NVRAM_HEADER_SIZE :: u32) = ?len - NVRAM_HEADER_SIZE"
    by (simp add: unat_of_nat take_bit_nat_eq_self)
  then have "\<exists>crc. nvram_calc_crc ?hdr ?data = Some crc"
    using data len by (simp add: nvram_calc_crc_def Let_def)
  then obtain crc where crc: "nvram_calc_crc ?hdr ?data = Some crc" by blast
  let ?h = "?hdr\<lparr>nvh_crc_ver_init := nvh_crc_ver_init ?hdr OR ucast crc\<rparr>"
  have "commit_image P st = Some (?h, ?data)" using crc by (simp add: commit_image_def Let_def)
  moreover have "nvram_calc_crc ?h ?data = Some (ucast (nvh_crc_ver_init ?h))"
    using calc_crc_low [where h = ?hdr and w = "nvh_crc_ver_init ?hdr" and c = crc and data = ?data] crc commit_header_low [of P st]
    by (simp add: low_byte_or)
  moreover have "drop_bit 8 (ucast crc :: u32) = 0"
    by (rule bit_word_eqI) (auto simp: bit_simps dest: bit_imp_le_length)
  moreover have "nvh_magic (commit_header P st) = NVRAM_MAGIC"
    by (auto simp: commit_header_def Let_def split: option.split)
  ultimately show ?thesis using data len u
    by (intro exI [of _ ?h] exI [of _ ?data]) (simp add: drop_bit_or)
qed

end
