(* ===== verification/Nvram_Store.thy ===== *)
theory Nvram_Store
  imports Nvram_Image
begin

text \<open>
  The store over an allocator whose space is known: reading an image loads all its variables, and
  a commit keeps every variable it does not drop for lack of space.
\<close>

definition sdram_names :: "cstr set" where
  "sdram_names = {sdram_init, sdram_config, sdram_refresh, sdram_ncdl}"

definition name_ok :: "cstr \<Rightarrow> bool" where
  "name_ok n \<longleftrightarrow> 0 \<notin> set n \<and> 61 \<notin> set n"

locale nvram_space = nvram_alloc +
  fixes ready :: "'a \<Rightarrow> bool" and room :: "'a \<Rightarrow> nat"
  assumes realloc_room: "\<lbrakk>hinv h; ready h; length v + 1 \<le> room h\<rbrakk> \<Longrightarrow>
      \<exists>h' u. p_realloc P h t n v = (h', Some u) \<and> room h \<le> room h' + (length v + 1)"
    and realloc_ready: "p_realloc P h t n v = (h', r) \<Longrightarrow> ready h \<Longrightarrow> ready h'"
    and free_inv: "hinv h \<Longrightarrow> hinv (p_free P h t)"
    and free_ready: "ready h \<Longrightarrow> ready (p_free P h t)"
    and free_room: "room (p_free P h None) = NVRAM_SPACE"
begin

lemma free_all: "hinv h \<and> ready h \<Longrightarrow>
    hinv (foldl (\<lambda>h t. p_free P h (Some t)) h ts) \<and> ready (foldl (\<lambda>h t. p_free P h (Some t)) h ts)"
  by (induction ts arbitrary: h) (simp_all add: free_inv free_ready)

lemma free_law:
  assumes "hinv (nv_heap st)" "ready (nv_heap st)"
  shows "nv_ok hinv live (nv_free P st)" "nv_vals P (nv_free P st) = Map.empty"
    "ready (nv_heap (nv_free P st))" "room (nv_heap (nv_free P st)) = NVRAM_SPACE"
proof -
  note f = free_all [OF conjI [OF assms], of "nvram_tuples st"]
  note g = free_all [OF f, of "nvram_dead st"]
  have e: "nvram_tuples (nv_free P st) = []"
    by (simp add: nv_free_def Let_def ht_nodes_def)
  show "nv_ok hinv live (nv_free P st)"
    using g e by (auto simp: nv_ok_def nv_free_def Let_def free_inv intro: nvt.wf_empty)
  show "nv_vals P (nv_free P st) = Map.empty"
    by (simp add: fun_eq_iff nv_vals_lookup nv_free_def Let_def nvt.lookup_empty)
  show "ready (nv_heap (nv_free P st))" "room (nv_heap (nv_free P st)) = NVRAM_SPACE"
    using g by (simp_all add: nv_free_def Let_def free_ready free_room)
qed

lemma set_heap: "nv_heap (fst (nv_set P st n v)) = fst (p_realloc P (nv_heap st) (nv_find st n) n v)"
  by (auto simp: nv_set_def Let_def split: option.split prod.split)

lemma set_result: "snd (nv_set P st n v) = (if snd (p_realloc P (nv_heap st) (nv_find st n) n v) = None then - ENOMEM else 0)"
  by (auto simp: nv_set_def Let_def split: option.split prod.split)

lemma set_ready: "ready (nv_heap st) \<Longrightarrow> ready (nv_heap (fst (nv_set P st n v)))"
  unfolding set_heap by (rule realloc_ready [OF surjective_pairing])

text \<open>With room for the value a set succeeds, and uses no more than the value's length.\<close>

lemma set_room:
  assumes ok: "nv_ok hinv live st" and r: "ready (nv_heap st)" "length v + 1 \<le> room (nv_heap st)" and v: "0 \<notin> set v"
  shows "nv_ok hinv live (fst (nv_set P st n v))" "snd (nv_set P st n v) = 0"
    "nv_vals P (fst (nv_set P st n v)) = (nv_vals P st)(n \<mapsto> v)"
    "room (nv_heap st) \<le> room (nv_heap (fst (nv_set P st n v))) + (length v + 1)"
proof -
  obtain h u where h: "p_realloc P (nv_heap st) (nv_find st n) n v = (h, Some u)"
    "room (nv_heap st) \<le> room h + (length v + 1)"
    using realloc_room [OF nv_okD(4) [OF ok] r] by blast
  then show 0: "snd (nv_set P st n v) = 0" by (simp add: set_result)
  show "room (nv_heap st) \<le> room (nv_heap (fst (nv_set P st n v))) + (length v + 1)"
    using h by (simp add: set_heap)
  show "nv_ok hinv live (fst (nv_set P st n v))" "nv_vals P (fst (nv_set P st n v)) = (nv_vals P st)(n \<mapsto> v)"
    using set_law [OF ok v surjective_pairing, of n] 0 by (simp_all add: ENOMEM_def)
qed

lemma set_all_law:
  assumes "nv_ok hinv live st" "ready (nv_heap st)" "vals_size kvs \<le> room (nv_heap st)" "\<forall>nv\<in>set kvs. var_ok nv"
  shows "nv_ok hinv live (nv_set_all P st kvs) \<and> ready (nv_heap (nv_set_all P st kvs)) \<and>
    nv_vals P (nv_set_all P st kvs) = nv_vals P st ++ map_of (rev kvs) \<and>
    room (nv_heap st) \<le> room (nv_heap (nv_set_all P st kvs)) + vals_size kvs"
  using assms
proof (induction kvs arbitrary: st)
  case (Cons nv kvs)
  obtain n v where nv: "nv = (n, v)" by (cases nv)
  have "0 \<notin> set v" "length v + 1 \<le> room (nv_heap st)" using Cons.prems nv by (auto simp: var_ok_def)
  note s = set_room [OF Cons.prems(1,2) this(2,1), of n] set_ready [OF Cons.prems(2), of n v]
  have "vals_size kvs \<le> room (nv_heap (fst (nv_set P st n v)))" using s(4) Cons.prems(3) nv by simp
  then show ?case using Cons.IH [OF s(1,5)] s(3,4) Cons.prems(4) nv by (auto simp: map_add_def fun_eq_iff split: option.split)
qed simp

text \<open>A default is set only where there is no value.\<close>

lemma default_law:
  assumes "nv_ok hinv live st" "ready (nv_heap st)" "0 \<notin> set v"
  shows "nv_ok hinv live (nv_default P n v st) \<and> ready (nv_heap (nv_default P n v st)) \<and>
    (nv_vals P (nv_default P n v st) = nv_vals P st \<or>
     nv_vals P st n = None \<and> nv_vals P (nv_default P n v st) = (nv_vals P st)(n \<mapsto> v))"
proof (cases "nv_get P st (Some n) = None")
  case True
  then show ?thesis
    using set_law [OF assms(1,3) surjective_pairing, of n] set_ready [OF assms(2), of n v]
    by (auto simp: nv_default_def nv_vals_def [abs_def])
qed (use assms in \<open>auto simp: nv_default_def\<close>)

lemma default_room:
  assumes "nv_ok hinv live st" "ready (nv_heap st)" "0 \<notin> set v" "length v + 1 \<le> room (nv_heap st)"
  shows "nv_vals P (nv_default P n v st) = (nv_vals P st)(n \<mapsto> (case nv_vals P st n of None \<Rightarrow> v | Some w \<Rightarrow> w))"
    "room (nv_heap st) \<le> room (nv_heap (nv_default P n v st)) + (length v + 1)"
  using set_room [OF assms(1,2,4,3), of n]
  by (auto simp: nv_default_def nv_vals_def [abs_def] fun_eq_iff split: option.split)

end

section \<open>Reading\<close>

definition image_area :: "bytes \<Rightarrow> bytes" where
  "image_area data = take (NVRAM_SPACE - NVRAM_HEADER_SIZE - 2) data @ [0, 0]"

definition sdram_defaults :: "nvram_header \<Rightarrow> (cstr \<times> cstr) list" where
  "sdram_defaults header =
     [(sdram_init, fmt_hex 4 (unat (drop_bit 16 (nvh_crc_ver_init header)))),
      (sdram_config, fmt_hex 4 (unat (nvh_config_refresh header AND 0xffff))),
      (sdram_refresh, fmt_hex 4 (unat (drop_bit 16 (nvh_config_refresh header) AND 0xffff))),
      (sdram_ncdl, fmt_hex 8 (unat (nvh_config_ncdl header)))]"

lemma nv_rehash_eq:
  "nv_rehash P st header data =
     map_option (\<lambda>kvs. (foldl (\<lambda>st (n, v). nv_default P n v st) (nv_set_all P (nv_free P st) kvs) (sdram_defaults header), 0))
       (image_vars (image_area data))"
  by (simp add: nv_rehash_def rehash_walk_vars image_area_def sdram_defaults_def Let_def split: option.split)

lemma image_area_closed: "\<exists>kvs. image_vars (image_area data) = Some kvs"
  using image_vars_closed [of "image_area data"] by (auto simp: image_area_def)

lemma sdram_defaults_no_nul: "\<forall>(n, v)\<in>set (sdram_defaults header). 0 \<notin> set v \<and> n \<in> sdram_names"
  by (simp add: sdram_defaults_def fmt_hex_no_nul sdram_names_def)

lemma nv_bytes_vars: "nv_bytes P h us = concat (map var_bytes (map (nv_var P h) us))"
  by (induction us) (simp_all add: nv_entry_var)

lemma subseq_set: "subseq xs ys \<Longrightarrow> set xs \<subseteq> set ys"
  by (induction xs ys rule: list_emb.induct) auto

lemma subseq_distinct: "subseq xs ys \<Longrightarrow> distinct ys \<Longrightarrow> distinct xs"
  by (induction xs ys rule: list_emb.induct) (auto dest: subseq_set)

lemma map_of_find: "map_of (map (\<lambda>t. (f t, g t)) xs) k = map_option g (List.find (\<lambda>t. f t = k) xs)"
  by (induction xs) auto

lemma vals_map_of:
  assumes "nvt.wf (nvram_hash st)"
  shows "nv_vals P st = map_of (map (nv_var P (nv_heap st)) (nvram_tuples st))"
  by (simp add: fun_eq_iff nv_var_def [abs_def] map_of_find nvt.find_nodes_lookup [OF assms] nv_vals_lookup)

lemma vars_rev:
  assumes "nvt.wf (nvram_hash st)" "subseq us (nvram_tuples st)"
  shows "map_of (rev (map (nv_var P h) us)) = map_of (map (nv_var P h) us)"
proof -
  have "distinct (map fst (map (nv_var P h) us))"
    using nvt.distinct_nodes_key [OF assms(1)] assms(2)
    by (auto simp: comp_def nv_var_def elim: subseq_distinct [OF subseq_map])
  then show ?thesis by (subst map_of_inject_set) (simp_all flip: rev_map)
qed

context nvram_space begin

lemma defaults_law:
  assumes "nv_ok hinv live st" "ready (nv_heap st)" "\<forall>(n, v)\<in>set ds. 0 \<notin> set v \<and> n \<in> N"
  shows "nv_ok hinv live (foldl (\<lambda>st (n, v). nv_default P n v st) st ds) \<and>
    ready (nv_heap (foldl (\<lambda>st (n, v). nv_default P n v st) st ds)) \<and>
    nv_vals P st \<subseteq>\<^sub>m nv_vals P (foldl (\<lambda>st (n, v). nv_default P n v st) st ds) \<and>
    (\<forall>k. k \<notin> N \<longrightarrow> nv_vals P (foldl (\<lambda>st (n, v). nv_default P n v st) st ds) k = nv_vals P st k)"
  using assms
proof (induction ds arbitrary: st)
  case (Cons d ds)
  obtain n v where d: "d = (n, v)" by (cases d)
  have v: "0 \<notin> set v" "n \<in> N" using Cons.prems(3) d by auto
  let ?s = "nv_default P n v st"
  note l = default_law [OF Cons.prems(1,2) v(1), of n]
  have "\<forall>(n, v)\<in>set ds. 0 \<notin> set v \<and> n \<in> N" using Cons.prems(3) by simp
  note i = Cons.IH [of ?s, OF l [THEN conjunct1] l [THEN conjunct2, THEN conjunct1] this]
  have "nv_vals P st \<subseteq>\<^sub>m nv_vals P ?s" "\<forall>k. k \<notin> N \<longrightarrow> nv_vals P ?s k = nv_vals P st k"
    using l v(2) by (auto simp: map_le_def)
  with i d show ?case by (auto intro: map_le_trans)
qed simp

text \<open>Every variable of an image is loaded, the last value of a name that occurs twice.\<close>

lemma rehash_law:
  assumes h: "hinv (nv_heap st)" "ready (nv_heap st)" and kvs: "image_vars (image_area data) = Some kvs"
  shows "\<exists>st'. nv_rehash P st header data = Some (st', 0) \<and> nv_ok hinv live st' \<and> ready (nv_heap st') \<and>
    map_of (rev kvs) \<subseteq>\<^sub>m nv_vals P st' \<and> (\<forall>n. n \<notin> sdram_names \<longrightarrow> nv_vals P st' n = map_of (rev kvs) n)"
proof -
  note f = free_law [OF h]
  have "length (image_area data) \<le> NVRAM_SPACE" by (simp add: image_area_def NVRAM_SPACE_def NVRAM_HEADER_SIZE_def)
  then have "vals_size kvs \<le> room (nv_heap (nv_free P st))" using image_vars_size [OF kvs] f(4) by simp
  note s = set_all_law [OF f(1,3) this image_vars_ok [OF kvs]]
  note d = defaults_law [OF s [THEN conjunct1] s [THEN conjunct2, THEN conjunct1] sdram_defaults_no_nul [of header]]
  show ?thesis using s d kvs f(2) by (auto simp: nv_rehash_eq)
qed

section \<open>Committing\<close>

lemma commit_law:
  assumes ok: "nv_ok hinv live st" "ready (nv_heap st)" and names: "\<forall>n\<in>dom (nv_vals P st). name_ok n"
  shows "\<exists>st' hdr data us. nv_commit P st = Some (st', (hdr, data), 0) \<and> commit_image P st = Some (hdr, data) \<and>
    nv_ok hinv live st' \<and> ready (nv_heap st') \<and> subseq us (nvram_tuples st) \<and>
    (length (nv_bytes P (nv_heap st) (nvram_tuples st)) \<le> AREA \<longrightarrow> us = nvram_tuples st) \<and>
    commit_table P st = nv_bytes P (nv_heap st) us \<and>
    (\<forall>z. image_vars (nv_bytes P (nv_heap st) us @ 0 # z) = Some (map (nv_var P (nv_heap st)) us)) \<and>
    (let vs = map_of (map (nv_var P (nv_heap st)) us) in vs \<subseteq>\<^sub>m nv_vals P st \<and> vs \<subseteq>\<^sub>m nv_vals P st' \<and>
       (\<forall>n. n \<notin> sdram_names \<longrightarrow> nv_vals P st' n = vs n))"
proof -
  let ?h = "nv_heap st"
  obtain us where us: "subseq us (nvram_tuples st)" "commit_table P st = nv_bytes P ?h us" "length (nv_bytes P ?h us) \<le> AREA"
    "length (nv_bytes P ?h (nvram_tuples st)) \<le> AREA \<longrightarrow> us = nvram_tuples st"
    using commit_table_part [of st P] commit_table_fits [of P st] by (metis subseq_order.refl)
  obtain hdr data where img: "commit_image P st = Some (hdr, data)"
    "data = nv_bytes P ?h us @ replicate (NVRAM_SPACE - NVRAM_HEADER_SIZE - length (nv_bytes P ?h us)) 0"
    using commit_image_Some [of P st] us(2) by auto
  let ?kvs = "map (nv_var P ?h) us"
  have "image_area data = nv_bytes P ?h us @ replicate (AREA - length (nv_bytes P ?h us)) 0 @ [0, 0]"
    using us(3) img(2) by (simp add: image_area_def AREA_def)
  then have area: "\<exists>r. image_area data = concat (map var_bytes ?kvs) @ 0 # r"
    by (cases "AREA - length (nv_bytes P ?h us)") (simp_all add: nv_bytes_vars)
  have sub: "set us \<subseteq> set (nvram_tuples st)" by (rule subseq_set) (rule us(1))
  have "\<forall>nv\<in>set ?kvs. var_ok nv"
  proof
    fix nv assume "nv \<in> set ?kvs"
    then obtain t where t: "t \<in> set (nvram_tuples st)" "nv = nv_var P ?h t" using sub by auto
    then have "nt_name t \<in> dom (nv_vals P st)"
      using nvt.lookup_Some_iff [OF nv_okD(1) [OF ok(1)], of "nt_name t" t] by (auto simp: nv_vals_lookup)
    then show "var_ok nv"
      using names live_str [OF nv_okD(3) [OF ok(1) t(1)]] t(2) by (auto simp: var_ok_def nv_var_def name_ok_def)
  qed
  then have vars: "image_vars (concat (map var_bytes ?kvs) @ 0 # z) = Some ?kvs" for z
    by (rule image_vars_bytes)
  then have kvs: "image_vars (image_area data) = Some ?kvs" using area by auto
  have rev: "map_of (rev ?kvs) = map_of ?kvs" by (rule vars_rev [OF nv_okD(1) [OF ok(1)] us(1)])
  have le: "map_of ?kvs \<subseteq>\<^sub>m nv_vals P st"
    unfolding map_le_def
  proof
    fix n assume "n \<in> dom (map_of ?kvs)"
    then obtain v where v: "map_of ?kvs n = Some v" by auto
    then obtain t where t: "t \<in> set us" "n = nt_name t" "v = p_str P ?h (nt_value t)"
      by (auto dest!: map_of_SomeD simp: nv_var_def)
    with sub have "nvt.lookup (nvram_hash st) n = Some t"
      using nvt.lookup_Some_iff [OF nv_okD(1) [OF ok(1)]] by auto
    then show "map_of ?kvs n = nv_vals P st n" using v t by (simp add: nv_vals_lookup)
  qed
  show ?thesis
    using rehash_law [OF nv_okD(4) [OF ok(1)] ok(2) kvs, of hdr] img(1) us(1,2,4) le rev vars
    by (auto simp: nv_commit_def Let_def nv_bytes_vars)
qed

end

end
