(* ===== verification/Nvram_Linux.thy ===== *)
theory Nvram_Linux
  imports Nvram_Store
begin

text \<open>
  The Linux port of the variable store (nvram_linux.c): the allocation of values in the page-aligned
  buffer that user space maps, read-only access before the memory and flash subsystems are up, the
  calls of the kernel interface, and the character device. The driver is built in (\<open>MODULE\<close> is off);
  \<open>WPS\<close>, \<open>CFE_UPDATE\<close> and \<open>NLS_XFR\<close> are off, as the file has them. Spin locks and the semaphore are not modelled: an
  operation is atomic.
\<close>

section \<open>The value buffer\<close>

record linux_heap =
  lx_os :: osl
  nvram_buf :: bytes
  nvram_offset :: nat

definition c_string :: "bytes \<Rightarrow> nat \<Rightarrow> cstr" where
  "c_string m p = takeWhile (\<lambda>c. c \<noteq> 0) (drop p m)"

text \<open>\<open>strcpy\<close> to position \<open>p\<close>.\<close>

definition c_strcpy :: "bytes \<Rightarrow> nat \<Rightarrow> cstr \<Rightarrow> bytes" where
  "c_strcpy m p s = take p m @ s @ [0] @ drop (p + length s + 1) m"

definition linux_realloc :: "linux_heap \<Rightarrow> nvram_tuple option \<Rightarrow> cstr \<Rightarrow> cstr \<Rightarrow> linux_heap \<times> nvram_tuple option" where
  "linux_realloc h t name val =
     (if nvram_offset h + length val + 1 > NVRAM_SPACE then (h, None)
      else
        let copy = (\<lambda>h t. (h\<lparr>nvram_buf := c_strcpy (nvram_buf h) (nvram_offset h) val,
              nvram_offset := nvram_offset h + (length val + 1)\<rparr>, Some (t\<lparr>nt_value := nvram_offset h\<rparr>))) in
        case t of
          None \<Rightarrow>
            (let (os, p) = MALLOC (lx_os h) in
             if p = 0 then (h\<lparr>lx_os := os\<rparr>, None)
             else copy (h\<lparr>lx_os := os\<rparr>) \<lparr>nt_addr = p, nt_name = name, nt_value = 0\<rparr>)
        | Some t \<Rightarrow> if c_string (nvram_buf h) (nt_value t) \<noteq> val then copy h t else (h, Some t))"

definition linux_free :: "linux_heap \<Rightarrow> nvram_tuple option \<Rightarrow> linux_heap" where
  "linux_free h t = (case t of None \<Rightarrow> h\<lparr>nvram_offset := 0\<rparr> | Some t \<Rightarrow> h)"

definition linux_port :: "linux_heap nvram_port" where
  "linux_port = \<lparr>p_realloc = linux_realloc, p_free = linux_free, p_str = (\<lambda>h p. c_string (nvram_buf h) p)\<rparr>"

text \<open>The buffer is full-size; a live tuple's value is a closed string below the fill mark.\<close>

definition linux_inv :: "linux_heap \<Rightarrow> bool" where
  "linux_inv h \<longleftrightarrow> length (nvram_buf h) = NVRAM_SPACE \<and> nvram_offset h \<le> NVRAM_SPACE"

definition linux_live :: "linux_heap \<Rightarrow> nvram_tuple \<Rightarrow> bool" where
  "linux_live h t \<longleftrightarrow> nt_addr t \<le> mem_seq (lx_os h) \<and>
     0 \<in> set (drop (nt_value t) (take (nvram_offset h) (nvram_buf h)))"

lemma c_string_take:
  "0 \<in> set (drop p (take k m)) \<Longrightarrow> c_string m p = c_string (take k m) p"
proof -
  assume 0: "0 \<in> set (drop p (take k m))"
  then have pk: "p \<le> k" by (metis drop_all empty_iff length_take list.set(1) min.cobounded2 nle_le order_trans)
  then have "drop p m = drop p (take k m) @ drop k m"
    by (metis (no_types) append_take_drop_id drop_append drop_drop drop_take le_add_diff_inverse add.commute)
  then show ?thesis using 0 by (simp add: c_string_def) 
qed

lemma c_strcpy_take: "p \<le> length m \<Longrightarrow> k \<le> p \<Longrightarrow> take k (c_strcpy m p s) = take k m"
  by (simp add: c_strcpy_def min_def)

lemma c_strcpy_read: "p \<le> length m \<Longrightarrow> 0 \<notin> set s \<Longrightarrow> c_string (c_strcpy m p s) p = s"
  by (simp add: c_strcpy_def c_string_def takeWhile_zero)

lemma length_c_strcpy: "p + length s + 1 \<le> length m \<Longrightarrow> length (c_strcpy m p s) = length m"
  by (simp add: c_strcpy_def)

lemma c_string_no_nul: "0 \<notin> set (c_string m p)"
  by (auto simp: c_string_def dest: set_takeWhileD)

lemma set_drop_take_mono: "k \<le> k' \<Longrightarrow> set (drop n (take k m)) \<subseteq> set (drop n (take k' m))"
  by (simp add: drop_take set_take_subset_set_take)

text \<open>Copying a value behind the fill mark leaves what is below it as it is.\<close>

lemma live_write:
  assumes h: "linux_inv h" "nvram_offset h + length s + 1 \<le> NVRAM_SPACE" and l: "linux_live h x"
    and h': "nvram_buf h' = c_strcpy (nvram_buf h) (nvram_offset h) s" "nvram_offset h' = nvram_offset h + (length s + 1)"
      "mem_seq (lx_os h) \<le> mem_seq (lx_os h')"
  shows "linux_live h' x \<and> c_string (nvram_buf h') (nt_value x) = c_string (nvram_buf h) (nt_value x)"
proof -
  have t: "take (nvram_offset h) (nvram_buf h') = take (nvram_offset h) (nvram_buf h)"
    using h h' by (simp add: linux_inv_def c_strcpy_take)
  have 0: "0 \<in> set (drop (nt_value x) (take (nvram_offset h) (nvram_buf h')))"
    using l t by (simp add: linux_live_def)
  then have "0 \<in> set (drop (nt_value x) (take (nvram_offset h') (nvram_buf h')))"
    by (rule subsetD [OF set_drop_take_mono, rotated]) (simp add: h')
  moreover have "c_string (nvram_buf h') (nt_value x) = c_string (nvram_buf h) (nt_value x)"
    using c_string_take [OF 0] c_string_take [OF 0 [unfolded t]] t by simp
  ultimately show ?thesis using l h'(3) by (simp add: linux_live_def)
qed

lemma live_new:
  assumes h: "linux_inv h" "nvram_offset h + length s + 1 \<le> NVRAM_SPACE" and u: "nt_value u = nvram_offset h" "nt_addr u \<le> mem_seq (lx_os h')"
    and h': "nvram_buf h' = c_strcpy (nvram_buf h) (nvram_offset h) s" "nvram_offset h' = nvram_offset h + (length s + 1)"
  shows "linux_live h' u"
  using assms by (auto simp: linux_live_def linux_inv_def c_strcpy_def)

lemma linux_realloc_cases:
  assumes "linux_realloc h t n v = (h', r)"
  obtains (full) "nvram_offset h + length v + 1 > NVRAM_SPACE" "h' = h" "r = None"
  | (oom) "t = None" "r = None" "nvram_buf h' = nvram_buf h" "nvram_offset h' = nvram_offset h" "mem_seq (lx_os h') = Suc (mem_seq (lx_os h))"
      "mem_ok (lx_os h') = mem_ok (lx_os h)" "\<not> mem_reliable (lx_os h)"
  | (fresh) u where "t = None" "r = Some u" "nt_name u = n" "nt_addr u = Suc (mem_seq (lx_os h))" "nt_value u = nvram_offset h"
      "nvram_offset h + length v + 1 \<le> NVRAM_SPACE" "nvram_buf h' = c_strcpy (nvram_buf h) (nvram_offset h) v"
      "nvram_offset h' = nvram_offset h + (length v + 1)" "mem_seq (lx_os h') = Suc (mem_seq (lx_os h))"
      "mem_ok (lx_os h') = mem_ok (lx_os h)"
  | (copy) x where "t = Some x" "r = Some (x\<lparr>nt_value := nvram_offset h\<rparr>)"
      "nvram_offset h + length v + 1 \<le> NVRAM_SPACE" "nvram_buf h' = c_strcpy (nvram_buf h) (nvram_offset h) v"
      "nvram_offset h' = nvram_offset h + (length v + 1)" "lx_os h' = lx_os h"
  | (same) x where "t = Some x" "r = Some x" "c_string (nvram_buf h) (nt_value x) = v" "h' = h"
proof (cases "nvram_offset h + length v + 1 > NVRAM_SPACE")
  case True
  with assms show ?thesis by (intro full) (simp_all add: linux_realloc_def)
next
  case False
  show ?thesis
  proof (cases t)
    case None
    show ?thesis
    proof (cases "snd (MALLOC (lx_os h)) = 0")
      case True
      with None False assms show ?thesis
        by (intro oom) (auto simp: linux_realloc_def MALLOC_def mem_reliable_def split: if_splits)
    next
      case ok: False
      then have "snd (MALLOC (lx_os h)) = Suc (mem_seq (lx_os h))" by (auto simp: MALLOC_def split: if_splits)
      with None False ok assms show ?thesis
        by (intro fresh [of "the r"]) (auto simp: linux_realloc_def MALLOC_def Let_def)
    qed
  next
    case (Some x)
    show ?thesis
    proof (cases "c_string (nvram_buf h) (nt_value x) = v")
      case True
      with Some False assms show ?thesis by (intro same [of x]) (auto simp: linux_realloc_def)
    next
      case ne: False
      with Some False assms show ?thesis by (intro copy [of x]) (auto simp: linux_realloc_def)
    qed
  qed
qed

definition linux_ready :: "linux_heap \<Rightarrow> bool" where
  "linux_ready h \<longleftrightarrow> mem_reliable (lx_os h)"

definition linux_room :: "linux_heap \<Rightarrow> nat" where
  "linux_room h = NVRAM_SPACE - nvram_offset h"

lemma linux_port_simps [simp]:
  "p_realloc linux_port = linux_realloc" "p_free linux_port = linux_free"
  "p_str linux_port h p = c_string (nvram_buf h) p"
  by (simp_all add: linux_port_def)

lemma linux_realloc_frame:
  assumes r: "linux_realloc h t n v = (h', r)" and h: "linux_inv h" and x: "linux_live h x"
  shows "linux_live h' x \<and> c_string (nvram_buf h') (nt_value x) = c_string (nvram_buf h) (nt_value x)"
  using r
proof (cases rule: linux_realloc_cases)
  case oom
  then show ?thesis using x by (simp add: linux_live_def)
next
  case fresh
  then show ?thesis using live_write [OF h _ x] by simp
next
  case copy
  then show ?thesis using live_write [OF h _ x] by simp
qed (use x in simp_all)

lemma linux_realloc_result:
  assumes r: "linux_realloc h t n v = (h', Some u)" and h: "linux_inv h" and v: "0 \<notin> set v"
    and t: "\<And>x. t = Some x \<Longrightarrow> linux_live h x \<and> nt_name x = n"
  shows "linux_live h' u \<and> nt_name u = n \<and> c_string (nvram_buf h') (nt_value u) = v \<and>
    ((\<exists>x. t = Some x \<and> u = x\<lparr>nt_value := nt_value u\<rparr>) \<or> (\<forall>x. linux_live h x \<longrightarrow> nt_addr x \<noteq> nt_addr u))"
  using r
proof (cases rule: linux_realloc_cases)
  case (fresh u')
  then show ?thesis
    using live_new [OF h, of v u h'] v h by (auto simp: c_strcpy_read linux_inv_def linux_live_def)
next
  case (copy x)
  then show ?thesis
    using live_new [OF h, of v u h'] v h t [of x] by (auto simp: c_strcpy_read linux_inv_def linux_live_def)
qed (use t in auto)

interpretation linux_nv: nvram_space linux_port linux_inv linux_live linux_ready linux_room
proof unfold_locales
  fix h t n v h' r
  assume r: "p_realloc linux_port h t n v = (h', r)"
  then have r': "linux_realloc h t n v = (h', r)" by simp
  then show "linux_inv h \<Longrightarrow> linux_inv h'"
    by (cases rule: linux_realloc_cases) (auto simp: linux_inv_def length_c_strcpy)
  show "linux_ready h \<Longrightarrow> linux_ready h'"
    using r' by (cases rule: linux_realloc_cases) (auto simp: linux_ready_def mem_reliable_def)
next
  fix h and v :: cstr and t n
  assume "linux_inv h" "linux_ready h" "length v + 1 \<le> linux_room h"
  then show "\<exists>h' u. p_realloc linux_port h t n v = (h', Some u) \<and> linux_room h \<le> linux_room h' + (length v + 1)"
    using surjective_pairing [of "linux_realloc h t n v"]
    by (elim linux_realloc_cases) (auto simp: linux_room_def linux_ready_def linux_inv_def prod_eq_iff)
qed (use linux_realloc_frame linux_realloc_result in
    \<open>auto simp: c_string_no_nul linux_free_def linux_inv_def linux_ready_def linux_room_def split: option.split\<close>)

section \<open>Access before the device is up\<close>

definition un_le32 :: "bytes \<Rightarrow> u32" where
  "un_le32 b = ucast (b ! 0) OR push_bit 8 (ucast (b ! 1)) OR push_bit 16 (ucast (b ! 2)) OR push_bit 24 (ucast (b ! 3))"

definition read_header :: "bytes \<Rightarrow> nvram_header option" where
  "read_header m =
     (if length m < NVRAM_HEADER_SIZE then None
      else Some \<lparr>nvh_magic = un_le32 m, nvh_len = un_le32 (drop 4 m), nvh_crc_ver_init = un_le32 (drop 8 m),
        nvh_config_refresh = un_le32 (drop 12 m), nvh_config_ncdl = un_le32 (drop 16 m)\<rparr>)"

datatype flash_core =
    NO_CORE | CORE_PFLASH | CORE_SFLASH "nat option" | CORE_OTHER

definition SI_FLASH1_SZ :: nat where "SI_FLASH1_SZ = 0x00400000"
definition SI_FLASH2_SZ :: nat where "SI_FLASH2_SZ = 0x02000000"
definition FLASH_MIN :: nat where "FLASH_MIN = 0x00020000"

text \<open>The window to search; \<open>CORE_SFLASH\<close> has the size \<open>sflash_init\<close> found.\<close>

definition early_lim :: "flash_core \<Rightarrow> nat option" where
  "early_lim c = (case c of NO_CORE \<Rightarrow> Some SI_FLASH1_SZ | CORE_PFLASH \<Rightarrow> Some SI_FLASH2_SZ
     | CORE_SFLASH s \<Rightarrow> s | CORE_OTHER \<Rightarrow> None)"

text \<open>
  A header with the right magic and checksum at position \<open>p\<close> of the flash window \<open>fl\<close>; \<open>None\<close> when
  the window is left.
\<close>

definition header_valid :: "bytes \<Rightarrow> nat \<Rightarrow> bool option" where
  "header_valid fl p =
     (case read_header (drop p fl) of
        None \<Rightarrow> None
      | Some h \<Rightarrow>
          if nvh_magic h = NVRAM_MAGIC then
            map_option (\<lambda>c. c = ucast (nvh_crc_ver_init h)) (nvram_calc_crc h (drop (p + NVRAM_HEADER_SIZE) fl))
          else Some False)"

function early_scan :: "bytes \<Rightarrow> nat \<Rightarrow> nat \<Rightarrow> nat option option" where
  "early_scan fl lim off =
     (if off = 0 \<or> lim < off then Some None
      else case header_valid fl (off - NVRAM_SPACE) of
        None \<Rightarrow> None
      | Some True \<Rightarrow> Some (Some (off - NVRAM_SPACE))
      | Some False \<Rightarrow> early_scan fl lim (2 * off))"
  by pat_completeness auto
termination
  by (relation "measure (\<lambda>(fl, lim, off). Suc lim - off)") auto

declare early_scan.simps [simp del]

definition early_find :: "bytes \<Rightarrow> nat \<Rightarrow> nat option option" where
  "early_find fl lim =
     (case early_scan fl lim FLASH_MIN of
        None \<Rightarrow> None
      | Some (Some p) \<Rightarrow> Some (Some p)
      | Some None \<Rightarrow>
          (case header_valid fl (4 * 1024) of
             None \<Rightarrow> None
           | Some True \<Rightarrow> Some (Some (4 * 1024))
           | Some False \<Rightarrow>
               map_option (\<lambda>v. if v then Some (1 * 1024) else None) (header_valid fl (1 * 1024))))"

text \<open>\<open>early_nvram_init\<close>: the image is copied up to its length, in words, into \<open>nvram_buf\<close>.\<close>

definition early_nvram_init :: "flash_core \<Rightarrow> bytes \<Rightarrow> bytes \<Rightarrow> (bytes \<times> int) option" where
  "early_nvram_init c fl buf =
     (case early_lim c of
        None \<Rightarrow> Some (buf, - 1)
      | Some lim \<Rightarrow>
          (case early_find fl lim of
             None \<Rightarrow> None
           | Some None \<Rightarrow> Some (buf, - 1)
           | Some (Some p) \<Rightarrow>
               (case read_header (drop p fl) of
                  None \<Rightarrow> None
                | Some h \<Rightarrow>
                    let n = max NVRAM_HEADER_SIZE (ROUNDUP (min (unat (nvh_len h)) NVRAM_SPACE) 4) in
                    if length (drop p fl) < n then None else Some (take n (drop p fl) @ drop n buf, 0))))"

text \<open>The search through \<open>name=value\<close> strings; \<open>None\<close> is a read past the end.\<close>

function early_walk :: "cstr \<Rightarrow> bytes \<Rightarrow> cstr option option" where
  "early_walk name m =
     (if 0 \<notin> set m then None
      else
        let s = takeWhile (\<lambda>c. c \<noteq> 0) m in
        if s = [] then Some None
        else if 61 \<notin> set s then Some None
        else
          let n = length (takeWhile (\<lambda>c. c \<noteq> 61) s) in
          if n = length name \<and> take n s = name then Some (Some (drop (Suc n) s))
          else early_walk name (drop (Suc (length s)) m))"
  by auto
termination
  by (relation "measure (\<lambda>(name, m). length m)") (auto intro!: diff_less dest: length_pos_if_in_set)

declare early_walk.simps [simp del]

text \<open>The buffer is loaded when its first byte is still 0; the last two bytes are set to NUL.\<close>

definition early_load :: "bool \<Rightarrow> flash_core \<Rightarrow> bytes \<Rightarrow> bytes \<Rightarrow> (bytes \<times> bool) option" where
  "early_load sih c fl buf =
     (if \<not> sih then Some (buf, False)
      else if buf ! 0 = 0 then
        map_option (\<lambda>(b, r). (b, r = 0)) (early_nvram_init c fl buf)
      else Some (buf, True))"

definition close_buf :: "bytes \<Rightarrow> bytes" where
  "close_buf buf = take (NVRAM_SPACE - 2) buf @ [0, 0]"

definition early_nvram_get :: "bool \<Rightarrow> flash_core \<Rightarrow> bytes \<Rightarrow> bytes \<Rightarrow> cstr option \<Rightarrow> (bytes \<times> cstr option) option" where
  "early_nvram_get sih c fl buf name =
     (case name of None \<Rightarrow> Some (buf, None)
      | Some n \<Rightarrow>
          (case early_load sih c fl buf of
             None \<Rightarrow> None
           | Some (b, False) \<Rightarrow> Some (b, None)
           | Some (b, True) \<Rightarrow>
               map_option (\<lambda>v. (close_buf b, v)) (early_walk n (drop NVRAM_HEADER_SIZE (close_buf b)))))"

function early_copy :: "nat \<Rightarrow> bytes \<Rightarrow> bytes \<Rightarrow> bytes option" where
  "early_copy count out m =
     (if 0 \<notin> set m then None
      else
        let s = takeWhile (\<lambda>c. c \<noteq> 0) m in
        if s = [] then Some out
        else if count - length out \<le> length s + 1 then Some out
        else early_copy count (out @ s @ [0]) (drop (Suc (length s)) m))"
  by auto
termination
  by (relation "measure (\<lambda>(count, out, m). length m)") (auto intro!: diff_less dest: length_pos_if_in_set)

declare early_copy.simps [simp del]

text \<open>The result has the caller's buffer when it was written.\<close>

definition early_nvram_getall :: "bool \<Rightarrow> flash_core \<Rightarrow> bytes \<Rightarrow> bytes \<Rightarrow> nat \<Rightarrow> (bytes \<times> bytes option \<times> int) option" where
  "early_nvram_getall sih c fl buf count =
     (case early_load sih c fl buf of
        None \<Rightarrow> None
      | Some (b, False) \<Rightarrow> Some (b, None, - 1)
      | Some (b, True) \<Rightarrow>
          map_option (\<lambda>out. (close_buf b, Some (out @ replicate (count - length out) 0), 0))
            (early_copy count [] (drop NVRAM_HEADER_SIZE (close_buf b))))"

section \<open>The kernel interface\<close>

text \<open>\<open>nvram_set\<close>: when a value does not fit, the table is rebuilt from its image, which closes the
  gaps that old values left in the buffer, and the call is tried once more.\<close>

definition nvram_set :: "linux_heap nvram \<Rightarrow> cstr \<Rightarrow> cstr \<Rightarrow> (linux_heap nvram \<times> int) option" where
  "nvram_set st name val =
     (let (st1, ret) = nv_set linux_port st name val in
      if ret \<noteq> 0 then
        let (os, p) = MALLOC (lx_os (nv_heap st1)); st2 = st1\<lparr>nv_heap := (nv_heap st1)\<lparr>lx_os := os\<rparr>\<rparr> in
        if p \<noteq> 0 then
          (case nv_commit linux_port st2 of
             None \<Rightarrow> None
           | Some (st3, _, r) \<Rightarrow> if r = 0 then Some (nv_set linux_port st3 name val) else Some (st3, ret))
        else Some (st2, ret)
      else Some (st1, ret))"

definition real_nvram_get :: "linux_heap nvram \<Rightarrow> cstr option \<Rightarrow> cstr option" where
  "real_nvram_get st name = nv_get linux_port st name"

definition nvram_get :: "int \<Rightarrow> bool \<Rightarrow> flash_core \<Rightarrow> bytes \<Rightarrow> linux_heap nvram \<Rightarrow> cstr option \<Rightarrow>
    (linux_heap nvram \<times> cstr option) option" where
  "nvram_get major sih c fl st name =
     (if major \<ge> 0 then Some (st, real_nvram_get st name)
      else map_option (\<lambda>(b, v). (st\<lparr>nv_heap := (nv_heap st)\<lparr>nvram_buf := b\<rparr>\<rparr>, v))
        (early_nvram_get sih c fl (nvram_buf (nv_heap st)) name))"

definition nvram_unset :: "linux_heap nvram \<Rightarrow> cstr \<Rightarrow> linux_heap nvram \<times> int" where
  "nvram_unset st name = nv_unset linux_port st (Some name)"

definition nvram_getall :: "int \<Rightarrow> bool \<Rightarrow> flash_core \<Rightarrow> bytes \<Rightarrow> linux_heap nvram \<Rightarrow> nat \<Rightarrow>
    (linux_heap nvram \<times> bytes option \<times> int) option" where
  "nvram_getall major sih c fl st count =
     (if major \<ge> 0 then (let (out, r) = nv_getall linux_port st count in Some (st, Some out, r))
      else map_option (\<lambda>(b, out, r). (st\<lparr>nv_heap := (nv_heap st)\<lparr>nvram_buf := b\<rparr>\<rparr>, out, r))
        (early_nvram_getall sih c fl (nvram_buf (nv_heap st)) count))"

end
