(* ===== verification/Nvram_Flash.thy ===== *)
theory Nvram_Flash
  imports Nvram_Linux
begin

text \<open>
  The commit of the variable store to flash (nvram_linux.c) over a flash device given by its read,
  write and erase operations, the character device, and reading back at start-up. What the flash
  operations promise is the locale \<open>nor_mtd\<close>; the serial flash driver provides it.
\<close>

section \<open>Flash devices\<close>

text \<open>
  \<open>struct mtd_info\<close>: the operations over a device state. A read gives the status, the length read and
  the bytes; a write the status and the length written.
\<close>

record 'f mtd =
  mtd_size :: u32
  mtd_erasesize :: u32
  mtd_read :: "'f \<Rightarrow> u32 \<Rightarrow> nat \<Rightarrow> 'f \<times> int \<times> nat \<times> bytes"
  mtd_write :: "'f \<Rightarrow> u32 \<Rightarrow> bytes \<Rightarrow> 'f \<times> int \<times> nat"
  mtd_erase :: "'f \<Rightarrow> u32 \<Rightarrow> u32 \<Rightarrow> 'f \<times> int"
  mtd_unlock :: "('f \<Rightarrow> u32 \<Rightarrow> u32 \<Rightarrow> 'f) option"

definition EIO :: int where "EIO = 5"
definition EFAULT :: int where "EFAULT = 14"
definition ENODEV :: int where "ENODEV = 19"
definition EINVAL :: int where "EINVAL = 22"

definition header_bytes :: "nvram_header \<Rightarrow> bytes" where
  "header_bytes h = le32 (nvh_magic h) @ le32 (nvh_len h) @ le32 (nvh_crc_ver_init h) @
     le32 (nvh_config_refresh h) @ le32 (nvh_config_ncdl h)"

text \<open>
  \<open>_nvram_read\<close>: the last \<open>NVRAM_SPACE\<close> bytes of the device, or what early access left in
  \<open>nvram_buf\<close>. A header cannot be taken from a short buffer.
\<close>

definition nvram_read :: "'f mtd option \<Rightarrow> 'f \<Rightarrow> bytes \<Rightarrow> 'f \<times> bytes \<times> int" where
  "nvram_read mtd f nvbuf =
     (case mtd of None \<Rightarrow> (f, nvbuf, 0)
      | Some M \<Rightarrow>
          (let (f', r, len, b) = mtd_read M f (mtd_size M - of_nat NVRAM_SPACE) NVRAM_SPACE in
           if r \<noteq> 0 \<or> len \<noteq> NVRAM_SPACE \<or> map_option nvh_magic (read_header b) \<noteq> Some NVRAM_MAGIC
           then (f', nvbuf, 0) else (f', b, 0)))"

section \<open>Committing\<close>

definition unlock :: "'f mtd \<Rightarrow> 'f \<Rightarrow> u32 \<Rightarrow> 'f" where
  "unlock M f off = (case mtd_unlock M of None \<Rightarrow> f | Some u \<Rightarrow> u f off (mtd_erasesize M))"

text \<open>
  The device states between the operations of a commit are kept in a list, the latest first, as a
  power failure may leave the device in any of them. The erase loop ends with the states and the
  status; \<open>None\<close> is a loop that does not end.
\<close>

partial_function (option) erase_loop :: "'f mtd \<Rightarrow> u32 \<Rightarrow> u32 \<Rightarrow> 'f list \<Rightarrow> ('f list \<times> int) option" where
  "erase_loop M limit offset tr =
     (if offset < limit then
        let f = unlock M (hd tr) offset;
            f' = fst (mtd_erase M f offset (mtd_erasesize M)); ret = snd (mtd_erase M f offset (mtd_erasesize M))
        in if ret \<noteq> 0 then Some (f' # f # tr, ret)
           else erase_loop M limit (offset + mtd_erasesize M) (f' # f # tr)
      else Some (tr, 0))"

declare erase_loop.simps [code]

text \<open>The size of the sectors to be erased, in 32-bit arithmetic.\<close>

definition commit_erasesize :: "'f mtd \<Rightarrow> u32" where
  "commit_erasesize M = ((of_nat NVRAM_SPACE + (mtd_erasesize M - 1)) div mtd_erasesize M) * mtd_erasesize M"

text \<open>
  The first part: what shares the sectors with the image is saved, and the magic on the device is
  cleared. The result is the status, the saved bytes and the states.
\<close>

definition commit_clear :: "'f mtd \<Rightarrow> 'f \<Rightarrow> int \<times> bytes \<times> 'f list" where
  "commit_clear M f =
     (let i = commit_erasesize M - of_nat NVRAM_SPACE; offset = mtd_size M - commit_erasesize M;
          (f1, ok, pre) =
            (if i > 0 then
               let (f1, ret, len, pre) = mtd_read M f offset (unat i) in (f1, ret = 0 \<and> len = unat i, pre)
             else (f, True, []))
      in if \<not> ok then (- EIO, pre, [f1, f])
         else
           let f2 = unlock M f1 offset;
               (f3, ret, len) = mtd_write M f2 (offset + i) (le32 NVRAM_CLEAR_MAGIC)
           in (if ret \<noteq> 0 \<or> len \<noteq> 4 then - EIO else 0, pre, [f3, f2, f1, f]))"

text \<open>
  The last part: data with an invalid magic, then the magic. \<open>buf\<close> is the saved bytes, header and
  data.
\<close>

definition commit_write :: "'f mtd \<Rightarrow> bytes \<Rightarrow> nvram_header \<Rightarrow> bytes \<Rightarrow> 'f list \<Rightarrow> 'f list \<times> int" where
  "commit_write M pre hdr data tr =
     (let i = commit_erasesize M - of_nat NVRAM_SPACE; offset = mtd_size M - commit_erasesize M;
          n = unat (i + nvh_len hdr);
          (f1, ret1, len1) = mtd_write M (hd tr) offset
             (take n (pre @ header_bytes (hdr\<lparr>nvh_magic := NVRAM_INVALID_MAGIC\<rparr>) @ data))
      in if ret1 \<noteq> 0 \<or> len1 \<noteq> n then (f1 # tr, - EIO)
         else
           let (f2, ret2, len2) = mtd_write M f1 (offset + i) (le32 NVRAM_MAGIC) in
           if ret2 \<noteq> 0 \<or> len2 \<noteq> 4 then (f2 # f1 # tr, - EIO)
           else let (f3, ret3, _) = mtd_read M f2 offset 4 in (f3 # f2 # f1 # tr, ret3))"

text \<open>
  \<open>nvram_commit\<close>; \<open>irq\<close> and \<open>mem\<close> tell whether it is called in an interrupt and whether there is
  memory for the sectors. \<open>None\<close> is an erase size of 0, an erase loop without end, or an access
  outside the image.
\<close>

definition nvram_commit ::
  "'f mtd option \<Rightarrow> bool \<Rightarrow> bool \<Rightarrow> linux_heap nvram \<Rightarrow> 'f \<Rightarrow> (linux_heap nvram \<times> 'f list \<times> int) option" where
  "nvram_commit mtd irq mem st f =
     (case mtd of None \<Rightarrow> Some (st, [f], - ENODEV)
      | Some M \<Rightarrow>
          if irq then Some (st, [f], - EINVAL)
          else if mtd_erasesize M = 0 then None
          else if \<not> mem then Some (st, [f], - ENOMEM)
          else
            let (ret, pre, tr) = commit_clear M f in
            if ret \<noteq> 0 then Some (st, tr, ret)
            else
              (case nv_commit linux_port st of
                 None \<Rightarrow> None
               | Some (st', (hdr, data), ret) \<Rightarrow>
                   if ret \<noteq> 0 then Some (st', tr, ret)
                   else
                     (case erase_loop M (mtd_size M - of_nat NVRAM_SPACE + nvh_len hdr)
                          (mtd_size M - commit_erasesize M) tr of
                        None \<Rightarrow> None
                      | Some (tr', ret) \<Rightarrow>
                          if ret \<noteq> 0 then Some (st', tr', ret)
                          else let (tr2, ret2) = commit_write M pre hdr data tr' in Some (st', tr2, ret2))))"

section \<open>The character device\<close>

text \<open>
  The buffer a request is read into: \<open>tmp\<close> on the stack, or \<open>kmalloc\<close>ed. \<open>user\<close> is the user's data,
  \<open>None\<close> when it cannot be accessed. The result is an error or the memory at \<open>name\<close>.
\<close>

definition dev_request :: "linux_heap nvram \<Rightarrow> nat \<Rightarrow> bytes option \<Rightarrow> bytes \<Rightarrow> linux_heap nvram \<times> (int + bytes)" where
  "dev_request st count user stack =
     (let (os, p) = (if count > 100 then MALLOC (lx_os (nv_heap st)) else (lx_os (nv_heap st), 1));
          st1 = st\<lparr>nv_heap := (nv_heap st)\<lparr>lx_os := os\<rparr>\<rparr>
      in if p = 0 then (st1, Inl (- ENOMEM))
         else case user of None \<Rightarrow> (st1, Inl (- EFAULT))
              | Some b \<Rightarrow> (st1, Inr (take count b @ (if count > 100 then [] else drop count stack))))"

text \<open>A read: all variables, or the offset of a value in the mapped buffer. The last component is what
  is written to the user's buffer; \<open>out_ok\<close> tells whether it can be. \<open>None\<close> is a request that
  is not closed by a NUL.\<close>

definition dev_nvram_read :: "linux_heap nvram \<Rightarrow> nat \<Rightarrow> bytes option \<Rightarrow> bytes \<Rightarrow> bool \<Rightarrow>
    (linux_heap nvram \<times> int \<times> bytes) option" where
  "dev_nvram_read st count user stack out_ok =
     (case dev_request st count user stack of
        (st1, Inl e) \<Rightarrow> Some (st1, e, [])
      | (st1, Inr name) \<Rightarrow>
          if name = [] then None
          else if hd name = 0 then
            (let (out, ret) = nv_getall linux_port st1 count in
             if ret = 0 then
               if out_ok then Some (st1, int count, out) else Some (st1, - EFAULT, [])
             else Some (st1, ret, []))
          else if 0 \<notin> set name then None
          else
            (case nv_find st1 (c_string name 0) of
               None \<Rightarrow> Some (st1, 0, [])
             | Some t \<Rightarrow> if out_ok then Some (st1, 4, le32 (of_nat (nt_value t))) else Some (st1, - EFAULT, [])))"

text \<open>A write: \<open>name=value\<close> sets a variable, \<open>name\<close> alone removes it.\<close>

definition dev_nvram_write :: "linux_heap nvram \<Rightarrow> nat \<Rightarrow> bytes option \<Rightarrow> bytes \<Rightarrow> (linux_heap nvram \<times> int) option" where
  "dev_nvram_write st count user stack =
     (case dev_request st count user stack of
        (st1, Inl e) \<Rightarrow> Some (st1, e)
      | (st1, Inr m) \<Rightarrow>
          let name = takeWhile (\<lambda>c. c \<noteq> 0 \<and> c \<noteq> 61) m; rest = drop (length name) m;
              done = map_option (\<lambda>(st2, ret). (st2, if ret \<noteq> 0 then ret else int count))
          in if rest = [] then None
             else if hd rest = 61 then
               if 0 \<notin> set (tl rest) then None else done (nvram_set st1 name (c_string (tl rest) 0))
             else done (Some (nvram_unset st1 name)))"

definition dev_nvram_ioctl :: "'f mtd option \<Rightarrow> bool \<Rightarrow> bool \<Rightarrow> linux_heap nvram \<Rightarrow> 'f \<Rightarrow> u32 \<Rightarrow>
    (linux_heap nvram \<times> 'f list \<times> int) option" where
  "dev_nvram_ioctl mtd irq mem st f cmd =
     (if cmd \<noteq> NVRAM_MAGIC then Some (st, [f], - EINVAL) else nvram_commit mtd irq mem st f)"

section \<open>What a flash device promises\<close>

text \<open>Programming clears bits and erasing sets them, only in the given range, and completely when the
  call succeeds; a call that fails may have been carried out in part. A write that reaches the end of
  the device promises no more than a call that fails: the serial flash driver does not notice there
  that the chip rejects it.\<close>

definition outside :: "bytes \<Rightarrow> bytes \<Rightarrow> nat \<Rightarrow> nat \<Rightarrow> bool" where
  "outside b b' p n \<longleftrightarrow> length b' = length b \<and> (\<forall>i < length b. \<not> (p \<le> i \<and> i < p + n) \<longrightarrow> b' ! i = b ! i)"

locale nor_mtd =
  fixes M :: "'f mtd" and flash_ok :: "'f \<Rightarrow> bool" and content :: "'f \<Rightarrow> bytes"
  assumes size: "flash_ok f \<Longrightarrow> length (content f) = unat (mtd_size M)"
    and geometry: "mtd_erasesize M \<noteq> 0" "unat (mtd_erasesize M) dvd unat (mtd_size M)"
    and unlock_ok: "\<lbrakk>flash_ok f; mtd_unlock M = Some u\<rbrakk> \<Longrightarrow> flash_ok (u f p m) \<and> content (u f p m) = content f"
    and read_ok: "\<lbrakk>flash_ok f; mtd_read M f p n = (f', r, len, b)\<rbrakk> \<Longrightarrow> flash_ok f' \<and> content f' = content f \<and>
      (r = 0 \<and> 0 < n \<longrightarrow> len = n \<and> b = take n (drop (unat p) (content f)) \<and> unat p + n \<le> unat (mtd_size M))"
    and write_ok: "\<lbrakk>flash_ok f; mtd_write M f p b = (f', r, len); b \<noteq> []\<rbrakk> \<Longrightarrow>
      flash_ok f' \<and> outside (content f) (content f') (unat p) (length b) \<and>
      (\<forall>i < length b. unat p + i < unat (mtd_size M) \<longrightarrow>
         content f' ! (unat p + i) \<in> {content f ! (unat p + i), content f ! (unat p + i) AND b ! i}) \<and>
      (r = 0 \<longrightarrow> len = length b \<and> unat p + length b \<le> unat (mtd_size M)) \<and>
      (r = 0 \<and> unat p + length b < unat (mtd_size M) \<longrightarrow>
         (\<forall>i < length b. content f' ! (unat p + i) = content f ! (unat p + i) AND b ! i))"
    and erase_ok: "\<lbrakk>flash_ok f; mtd_erase M f p (mtd_erasesize M) = (f', r);
        unat (mtd_erasesize M) dvd unat p; unat p < unat (mtd_size M)\<rbrakk> \<Longrightarrow>
      flash_ok f' \<and> outside (content f) (content f') (unat p) (unat (mtd_erasesize M)) \<and>
      (\<forall>i < unat (mtd_erasesize M). content f' ! (unat p + i) \<in> {content f ! (unat p + i), 0xff}) \<and>
      (r = 0 \<longrightarrow> (\<forall>i < unat (mtd_erasesize M). content f' ! (unat p + i) = 0xff))"

text \<open>A device whose calls do not fail.\<close>

locale live_mtd = nor_mtd +
  assumes read_live: "\<lbrakk>flash_ok f; 0 < n; unat p + n \<le> unat (mtd_size M); mtd_read M f p n = (f', r, len, b)\<rbrakk> \<Longrightarrow> r = 0"
    and write_live: "\<lbrakk>flash_ok f; b \<noteq> []; unat p + length b \<le> unat (mtd_size M); mtd_write M f p b = (f', r, len)\<rbrakk> \<Longrightarrow> r = 0"
    and erase_live: "\<lbrakk>flash_ok f; unat (mtd_erasesize M) dvd unat p; unat p < unat (mtd_size M);
        mtd_erase M f p (mtd_erasesize M) = (f', r)\<rbrakk> \<Longrightarrow> r = 0"

end
