(* ===== verification/Sflash.thy ===== *)
theory Sflash
  imports Nvram_Flash
begin

text \<open>
  The serial flash driver: the command level of sflash.c and its MTD device of
  devices/sflash.c, over a model of an ST serial flash chip behind the flash registers of the
  chip common core. The chip (hardware, not code of the repository) follows the register and
  opcode definitions of sbchipc.h: a page program clears bits within one 256-byte page, a sector
  erase sets a sector, both need the write-enable latch, and the status register shows a write in
  progress. How long it stays busy, and which programs it rejects, is left open.
\<close>

section \<open>The chip\<close>

record sf_chip =
  c_mem :: bytes
  c_id :: u32
  c_addr :: u32
  c_data :: u32
  c_wel :: bool
  c_held :: "(nat \<times> bytes) option"
  c_cs :: bool
  c_busy :: nat
  c_seq :: nat
  c_delay :: "nat \<Rightarrow> nat"
  c_accept :: "nat \<Rightarrow> bool"

definition SECTOR :: nat where "SECTOR = 65536"

definition SFLASH_ST_CSA :: u32 where "SFLASH_ST_CSA = 0x1000"
definition SFLASH_ST_WREN :: u32 where "SFLASH_ST_WREN = 0x0006"
definition SFLASH_ST_RDSR :: u32 where "SFLASH_ST_RDSR = 0x0105"
definition SFLASH_ST_PP :: u32 where "SFLASH_ST_PP = 0x0302"
definition SFLASH_ST_SE :: u32 where "SFLASH_ST_SE = 0x02d8"
definition SFLASH_ST_DP :: u32 where "SFLASH_ST_DP = 0x00b9"
definition SFLASH_ST_RES :: u32 where "SFLASH_ST_RES = 0x03ab"
definition SFLASH_ST_WIP :: u32 where "SFLASH_ST_WIP = 0x01"
definition SFLASH_AT_STATUS :: u32 where "SFLASH_AT_STATUS = 0x01d7"
definition SFLASH_AT_BUF1_WRITE :: u32 where "SFLASH_AT_BUF1_WRITE = 0x0384"
definition SFLASH_AT_BUF1_PROGRAM :: u32 where "SFLASH_AT_BUF1_PROGRAM = 0x0288"
definition SFLASH_AT_BUF1_LOAD :: u32 where "SFLASH_AT_BUF1_LOAD = 0x0253"
definition SFLASH_AT_PAGE_ERASE :: u32 where "SFLASH_AT_PAGE_ERASE = 0x0281"
definition SFLASH_AT_READY :: u32 where "SFLASH_AT_READY = 0x80"

text \<open>Bytes shifted in beyond the end of a page go to its beginning.\<close>

fun page_program :: "bytes \<Rightarrow> nat \<Rightarrow> bytes \<Rightarrow> bytes" where
  "page_program mem a [] = mem"
| "page_program mem a (b # bs) =
     page_program (mem[a := mem ! a AND b]) (if (a + 1) mod 256 = 0 then a + 1 - 256 else a + 1) bs"

definition chip_start :: "bool \<Rightarrow> sf_chip \<Rightarrow> bytes \<Rightarrow> sf_chip" where
  "chip_start accept c mem =
     (let n = c_seq c in
      if accept then c\<lparr>c_mem := mem, c_wel := False, c_busy := c_delay c n, c_seq := Suc n\<rparr>
      else c\<lparr>c_wel := False, c_seq := Suc n\<rparr>)"

definition chip_release :: "sf_chip \<Rightarrow> sf_chip" where
  "chip_release c = (case c_held c of None \<Rightarrow> c
     | Some (a, bs) \<Rightarrow> chip_start (c_accept c (c_seq c)) (c\<lparr>c_held := None\<rparr>) (page_program (c_mem c) a bs))"

definition sector_erase :: "bytes \<Rightarrow> nat \<Rightarrow> bytes" where
  "sector_erase mem a =
     (let s = a div SECTOR * SECTOR in take s mem @ replicate (min SECTOR (length mem - s)) 0xff @ drop (s + SECTOR) mem)"

definition chip_cmd :: "sf_chip \<Rightarrow> u32 \<Rightarrow> sf_chip" where
  "chip_cmd c op =
     (case c_held c of
        Some (a, bs) \<Rightarrow>
          let c1 = c\<lparr>c_held := Some (a, bs @ [ucast op])\<rparr> in
          if op AND SFLASH_ST_CSA = 0 \<and> \<not> c_cs c then chip_release c1 else c1
      | None \<Rightarrow>
          let code = op AND 0xfff in
          if code = SFLASH_ST_RDSR then
            c\<lparr>c_data := (if c_busy c > 0 then SFLASH_ST_WIP else 0) OR (if c_wel c then 2 else 0), c_busy := c_busy c - 1\<rparr>
          else if c_busy c > 0 then c
          else if code = SFLASH_ST_WREN then c\<lparr>c_wel := True\<rparr>
          else if code = SFLASH_ST_RES then c\<lparr>c_data := c_id c\<rparr>
          else if \<not> c_wel c then c
          else if code = SFLASH_ST_PP then
            if op AND SFLASH_ST_CSA \<noteq> 0 \<or> c_cs c then c\<lparr>c_held := Some (unat (c_addr c), [ucast (c_data c)])\<rparr>
            else chip_start (c_accept c (c_seq c)) c (page_program (c_mem c) (unat (c_addr c)) [ucast (c_data c)])
          else if code = SFLASH_ST_SE then chip_start True c (sector_erase (c_mem c) (unat (c_addr c)))
          else c)"

section \<open>Commands\<close>

record sflash =
  sf_blocksize :: u32
  sf_numblocks :: u32
  sf_type :: u32
  sf_size :: u32

record si_info =
  si_chipid :: u32
  si_chiprev :: u32
  si_ccrev :: u32
  si_cccaps :: u32

definition CC_CAP_FLASH_MASK :: u32 where "CC_CAP_FLASH_MASK = 0x700"
definition FLASH_NONE :: u32 where "FLASH_NONE = 0"
definition SFLASH_ST :: u32 where "SFLASH_ST = 0x100"
definition SFLASH_AT :: u32 where "SFLASH_AT = 0x200"
definition BCM4712_CHIP_ID :: u32 where "BCM4712_CHIP_ID = 0x4712"
definition BCM4716_CHIP_ID :: u32 where "BCM4716_CHIP_ID = 0x4716"
definition BCM4748_CHIP_ID :: u32 where "BCM4748_CHIP_ID = 0x4748"

text \<open>The controller is taken to finish each command.\<close>

definition sflash_cmd :: "sf_chip \<Rightarrow> u32 \<Rightarrow> sf_chip" where
  "sflash_cmd c op = chip_cmd c op"

definition set_addr :: "sf_chip \<Rightarrow> u32 \<Rightarrow> sf_chip" where "set_addr c a = c\<lparr>c_addr := a\<rparr>"
definition set_data :: "sf_chip \<Rightarrow> u32 \<Rightarrow> sf_chip" where "set_data c d = c\<lparr>c_data := d\<rparr>"
definition set_cs :: "sf_chip \<Rightarrow> sf_chip" where "set_cs c = c\<lparr>c_cs := True\<rparr>"
definition clear_cs :: "sf_chip \<Rightarrow> sf_chip" where "clear_cs c = chip_release (c\<lparr>c_cs := False\<rparr>)"

text \<open>The geometry of the parts that are known, from their identification.\<close>

definition sflash_st_blocks :: "u32 \<Rightarrow> u32" where
  "sflash_st_blocks part =
     (if part = 0x11 then 4 else if part = 0x12 then 8 else if part = 0x13 then 16 else if part = 0x14 then 32
      else if part = 0x15 then 64 else if part = 0x16 then 128 else if part = 0x17 then 256 else 0)"

definition sflash_at_geometry :: "u32 \<Rightarrow> u32 \<times> u32" where
  "sflash_at_geometry part =
     (if part = 0xc then (256, 512) else if part = 0x14 then (256, 1024) else if part = 0x1c then (256, 2048)
      else if part = 0x24 then (256, 4096) else if part = 0x2c then (512, 4096) else if part = 0x34 then (512, 8192)
      else if part = 0x3c then (1024, 8192) else (0, 0))"

definition sflash_init :: "si_info \<Rightarrow> sf_chip \<Rightarrow> sf_chip \<times> sflash option" where
  "sflash_init sih c =
     (let type = si_cccaps sih AND CC_CAP_FLASH_MASK;
          (c', bs, nb) =
            (if type = SFLASH_ST then
               let c1 = sflash_cmd (sflash_cmd c SFLASH_ST_DP) SFLASH_ST_RES; jid = c_data c1 in
               if jid = 0xbf then
                 let c2 = sflash_cmd (set_addr c1 1) SFLASH_ST_RES in
                 if c_data c2 = 0x44 then (c2, 64 * 1024, 8) else (c2, 0, 0)
               else if sflash_st_blocks jid \<noteq> 0 then (c1, 64 * 1024, sflash_st_blocks jid) else (c1, 0, 0)
             else if type = SFLASH_AT then
               let c1 = sflash_cmd c SFLASH_AT_STATUS; (bs, nb) = sflash_at_geometry (c_data c1 AND 0x3c) in (c1, bs, nb)
             else (c, 0, 0));
          size = bs * nb;
          size' = (if (si_chipid sih = BCM4716_CHIP_ID \<or> si_chipid sih = BCM4748_CHIP_ID) \<and> si_chiprev sih = 0 \<and>
                      size > 4 * 1024 * 1024 then 4 * 1024 * 1024 else size)
      in (c', if size' \<noteq> 0 then Some \<lparr>sf_blocksize = bs, sf_numblocks = nb, sf_type = type, sf_size = size'\<rparr> else None))"

text \<open>
  \<open>sflash_read\<close>: the status or number of bytes, and the bytes; \<open>buf\<close> is the address of the
  destination. Reads go through the window that maps the chip.
\<close>

definition sflash_read :: "sflash \<Rightarrow> sf_chip \<Rightarrow> u32 \<Rightarrow> u32 \<Rightarrow> nat \<Rightarrow> int \<times> bytes" where
  "sflash_read sfl c offset len buf =
     (if len = 0 then (0, [])
      else if offset + len > sf_size sfl then (- 22, [])
      else
        let cnt = (if len \<ge> 4 \<and> offset AND 3 \<noteq> 0 then 4 - unat (offset AND 3)
                   else if len \<ge> 4 \<and> buf mod 4 \<noteq> 0 then 4 - buf mod 4 else unat len);
            n = (if cnt < 4 then cnt else cnt - cnt mod 4)
        in (int n, take n (drop (unat offset) (c_mem c))))"

definition sflash_poll :: "sflash \<Rightarrow> sf_chip \<Rightarrow> u32 \<Rightarrow> sf_chip \<times> int" where
  "sflash_poll sfl c offset =
     (if offset \<ge> sf_size sfl then (c, - 22)
      else if sf_type sfl = SFLASH_ST then
        let c1 = sflash_cmd c SFLASH_ST_RDSR in (c1, uint (c_data c1 AND SFLASH_ST_WIP))
      else if sf_type sfl = SFLASH_AT then
        let c1 = sflash_cmd c SFLASH_AT_STATUS in (c1, if c_data c1 AND SFLASH_AT_READY = 0 then 1 else 0)
      else (c, 0))"

text \<open>The rest of a page program: bytes up to the end of the page, and whether it was reached.\<close>

fun st_burst :: "sf_chip \<Rightarrow> u32 \<Rightarrow> u32 \<Rightarrow> bytes \<Rightarrow> int \<Rightarrow> sf_chip \<times> u32 \<times> int \<times> bool" where
  "st_burst c csa off [] ret = (c, off, ret, False)"
| "st_burst c csa off (b # bs) ret =
     (if off AND 255 = 0 then (c, off, ret, True)
      else st_burst (sflash_cmd c (csa OR ucast b)) csa (off + 1) bs (ret + 1))"

text \<open>
  One page program with chip select held, by the general purpose output on the 4712 (\<open>gpio\<close>) or by the
  controller: the status, whether the end of the page was reached, and the poll after it.
\<close>

definition st_attempt :: "bool \<Rightarrow> sflash \<Rightarrow> sf_chip \<Rightarrow> u32 \<Rightarrow> bytes \<Rightarrow> sf_chip \<times> int \<times> bool \<times> int" where
  "st_attempt gpio sfl c offset buf =
     (let c1 = sflash_cmd c SFLASH_ST_WREN;
          c2 = set_data (set_addr c1 offset) (ucast (hd buf));
          c3 = (if gpio then set_cs c2 else c2);
          c4 = sflash_cmd c3 (if gpio then SFLASH_ST_PP else SFLASH_ST_CSA OR SFLASH_ST_PP);
          (c5, off, ret, page_end) = st_burst c4 (if gpio then 0 else SFLASH_ST_CSA) (offset + 1) (tl buf) 1;
          c6 = (if gpio then clear_cs c5 else chip_release c5);
          (c7, p) = sflash_poll sfl c6 off
      in (c7, ret, page_end, p))"

definition ST_RETRIES :: nat where "ST_RETRIES = 3"

text \<open>A chip that is idle after the program is taken to have rejected it.\<close>

fun st_write :: "nat \<Rightarrow> bool \<Rightarrow> sflash \<Rightarrow> sf_chip \<Rightarrow> u32 \<Rightarrow> bytes \<Rightarrow> sf_chip \<times> int" where
  "st_write tries gpio sfl c offset buf =
     (let (c', ret, page_end, p) = st_attempt gpio sfl c offset buf in
      if p = 0 then
        (case tries of 0 \<Rightarrow> (c', if page_end then - 11 else - 12)
         | Suc t \<Rightarrow> st_write t gpio sfl c' offset buf)
      else (c', ret))"

declare st_write.simps [simp del]

text \<open>\<open>SPINWAIT\<close>: the condition is tried every 10 microseconds.\<close>

primrec spin_poll :: "nat \<Rightarrow> sflash \<Rightarrow> sf_chip \<Rightarrow> u32 \<Rightarrow> sf_chip" where
  "spin_poll 0 sfl c offset = fst (sflash_poll sfl c offset)"
| "spin_poll (Suc n) sfl c offset =
     (let (c', p) = sflash_poll sfl c offset in if p = 0 then c' else spin_poll n sfl c' offset)"

fun at_fill :: "sf_chip \<Rightarrow> u32 \<Rightarrow> u32 \<Rightarrow> bytes \<Rightarrow> int \<Rightarrow> sf_chip \<times> int" where
  "at_fill c blocksize byte [] ret = (c, ret)"
| "at_fill c blocksize byte (b # bs) ret =
     (if byte < blocksize then
        at_fill (sflash_cmd (set_data (set_addr c byte) (ucast b)) SFLASH_AT_BUF1_WRITE) blocksize (byte + 1) bs (ret + 1)
      else (c, ret))"

definition sflash_write :: "si_info \<Rightarrow> sflash \<Rightarrow> sf_chip \<Rightarrow> u32 \<Rightarrow> bytes \<Rightarrow> sf_chip \<times> int" where
  "sflash_write sih sfl c offset buf =
     (if buf = [] then (c, 0)
      else if offset + of_nat (length buf) > sf_size sfl then (c, - 22)
      else if sf_type sfl = SFLASH_ST then
        if si_chipid sih = BCM4712_CHIP_ID \<and> si_chiprev sih = 3 then st_write ST_RETRIES True sfl c offset buf
        else if si_ccrev sih \<ge> 20 then st_write ST_RETRIES False sfl c offset buf
        else (sflash_cmd (set_data (set_addr (sflash_cmd c SFLASH_ST_WREN) offset) (ucast (hd buf))) SFLASH_ST_PP, 1)
      else if sf_type sfl = SFLASH_AT then
        let mask = sf_blocksize sfl - 1; page = push_bit 1 (offset AND NOT mask); byte = offset AND mask;
            c1 = (if byte \<noteq> 0 \<or> of_nat (length buf) < sf_blocksize sfl
                  then spin_poll 100 sfl (sflash_cmd (set_addr c page) SFLASH_AT_BUF1_LOAD) offset else c);
            (c2, ret) = at_fill c1 (sf_blocksize sfl) byte buf 0
        in (sflash_cmd (set_addr c2 page) SFLASH_AT_BUF1_PROGRAM, ret)
      else (c, 0))"

definition sflash_erase :: "sflash \<Rightarrow> sf_chip \<Rightarrow> u32 \<Rightarrow> sf_chip \<times> int" where
  "sflash_erase sfl c offset =
     (if offset \<ge> sf_size sfl then (c, - 22)
      else if sf_type sfl = SFLASH_ST then
        (sflash_cmd (set_addr (sflash_cmd c SFLASH_ST_WREN) offset) SFLASH_ST_SE, uint (sf_blocksize sfl))
      else if sf_type sfl = SFLASH_AT then
        (sflash_cmd (set_addr c (push_bit 1 offset)) SFLASH_AT_PAGE_ERASE, uint (sf_blocksize sfl))
      else (c, 0))"

section \<open>Read, modify, erase and write\<close>

text \<open>\<open>while (sflash_poll(...));\<close>, a wait that may not end.\<close>

partial_function (option) poll_wait :: "sflash \<Rightarrow> sf_chip \<Rightarrow> u32 \<Rightarrow> sf_chip option" where
  "poll_wait sfl c offset =
     (if snd (sflash_poll sfl c offset) = 0 then Some (fst (sflash_poll sfl c offset))
      else poll_wait sfl (fst (sflash_poll sfl c offset)) offset)"

text \<open>A failed read is not noticed in the copy of a block: the loop then does not end as meant (\<open>None\<close>).\<close>

partial_function (option) read_block :: "sflash \<Rightarrow> sf_chip \<Rightarrow> u32 \<Rightarrow> u32 \<Rightarrow> nat \<Rightarrow> bytes option" where
  "read_block sfl c offset len buf =
     (if len = 0 then Some []
      else if fst (sflash_read sfl c offset len buf) < 0 then None
      else Option.bind
        (read_block sfl c (offset + of_int (fst (sflash_read sfl c offset len buf)))
          (len - of_int (fst (sflash_read sfl c offset len buf))) (buf + nat (fst (sflash_read sfl c offset len buf))))
        (\<lambda>r. Some (snd (sflash_read sfl c offset len buf) @ r)))"

partial_function (option) write_block :: "si_info \<Rightarrow> sflash \<Rightarrow> sf_chip \<Rightarrow> u32 \<Rightarrow> bytes \<Rightarrow> (sf_chip \<times> int) option" where
  "write_block sih sfl c offset block =
     (if block = [] then Some (c, 0)
      else if snd (sflash_write sih sfl c offset block) < 0 then
        Some (sflash_write sih sfl c offset block)
      else
        case poll_wait sfl (fst (sflash_write sih sfl c offset block)) offset of
          None \<Rightarrow> None
        | Some c' \<Rightarrow> write_block sih sfl c' (offset + of_int (snd (sflash_write sih sfl c offset block)))
            (drop (nat (snd (sflash_write sih sfl c offset block))) block))"

text \<open>
  One turn of \<open>sflash_commit\<close> for the block of \<open>offset\<close>; \<open>buf\<close> is the data still to be written,
  \<open>None\<close> to erase only, and \<open>at\<close> the address of the holding block, whose old contents are \<open>block\<close>.
\<close>

definition commit_block :: "si_info \<Rightarrow> sflash \<Rightarrow> sf_chip \<Rightarrow> nat \<Rightarrow> bytes \<Rightarrow> u32 \<Rightarrow> u32 \<Rightarrow> bytes option \<Rightarrow>
    (sf_chip \<times> bytes \<times> int) option" where
  "commit_block sih sfl c at block offset len buf =
     (let mask = sf_blocksize sfl - 1; cur_offset = offset AND NOT mask;
          remainder = sf_blocksize sfl - (offset AND mask); cur_retlen = min len remainder in
      case (case buf of None \<Rightarrow> Some block
            | Some b \<Rightarrow>
                map_option (\<lambda>old. take (unat (offset AND mask)) old @ take (unat cur_retlen) b @
                    drop (unat (offset AND mask) + unat cur_retlen) old)
                  (if offset AND mask \<noteq> 0 \<or> len < sf_blocksize sfl
                   then read_block sfl c cur_offset (sf_blocksize sfl) at else Some block)) of
        None \<Rightarrow> None
      | Some new \<Rightarrow>
          let (c1, ret) = sflash_erase sfl c cur_offset in
          if ret < 0 then Some (c1, new, ret)
          else
            (case poll_wait sfl c1 cur_offset of None \<Rightarrow> None
             | Some c2 \<Rightarrow>
                 if buf = None then Some (c2, new, 0)
                 else map_option (\<lambda>(c3, ret). (c3, new, ret)) (write_block sih sfl c2 cur_offset new)))"

partial_function (option) commit_loop :: "si_info \<Rightarrow> sflash \<Rightarrow> sf_chip \<Rightarrow> nat \<Rightarrow> bytes \<Rightarrow> u32 \<Rightarrow> u32 \<Rightarrow> bytes option \<Rightarrow>
    (sf_chip \<times> int) option" where
  "commit_loop sih sfl c at block offset len buf =
     (if len = 0 then Some (c, 0)
      else
        let n = min len (sf_blocksize sfl - (offset AND (sf_blocksize sfl - 1))) in
        case commit_block sih sfl c at block offset len buf of
          None \<Rightarrow> None
        | Some r \<Rightarrow>
            if snd (snd r) < 0 then Some (fst r, snd (snd r))
            else commit_loop sih sfl (fst r) at (fst (snd r)) (offset + n) (len - n) (map_option (drop (unat n)) buf))"

definition sflash_commit :: "si_info \<Rightarrow> sflash \<Rightarrow> sf_chip \<Rightarrow> nat \<Rightarrow> bytes \<Rightarrow> u32 \<Rightarrow> u32 \<Rightarrow> bytes option \<Rightarrow>
    (sf_chip \<times> int) option" where
  "sflash_commit sih sfl c at block offset len buf =
     (if len = 0 then Some (c, 0)
      else if offset + len > sf_size sfl then Some (c, - 1)
      else if at = 0 then Some (c, - 1)
      else commit_loop sih sfl c at block offset len buf)"

section \<open>The MTD device\<close>

definition ETIMEDOUT :: int where "ETIMEDOUT = 145"

text \<open>\<open>sflash_mtd_poll\<close>; \<open>lim\<close> is the number of polls that fit into the timeout.\<close>

primrec sflash_mtd_poll :: "nat \<Rightarrow> sflash \<Rightarrow> sf_chip \<Rightarrow> u32 \<Rightarrow> sf_chip \<times> int" where
  "sflash_mtd_poll 0 sfl c offset =
     (let (c', p) = sflash_poll sfl c offset in (c', if p = 0 then 0 else - ETIMEDOUT))"
| "sflash_mtd_poll (Suc n) sfl c offset =
     (let (c', p) = sflash_poll sfl c offset in if p = 0 then (c', 0) else sflash_mtd_poll n sfl c' offset)"

text \<open>The read loop; the status, the length and the bytes read.\<close>

function mtd_read_loop :: "sflash \<Rightarrow> sf_chip \<Rightarrow> nat \<Rightarrow> nat \<Rightarrow> nat \<Rightarrow> int \<times> nat \<times> bytes" where
  "mtd_read_loop sfl c from len buf =
     (if len = 0 then (0, 0, [])
      else
        let (n, b) = sflash_read sfl c (of_nat from) (of_nat len) buf in
        if n < 0 then (n, 0, [])
        else if n = 0 then (0, 0, [])
        else
          let (r, rl, rest) = mtd_read_loop sfl c (from + nat n) (len - nat n) (buf + nat n) in
          (r, nat n + rl, b @ rest))"
  by auto
termination
  by (relation "measure (\<lambda>(sfl, c, from, len, buf). len)") auto

declare mtd_read_loop.simps [simp del]

definition sflash_mtd_read :: "sflash \<Rightarrow> nat \<Rightarrow> sf_chip \<Rightarrow> nat \<Rightarrow> nat \<Rightarrow> int \<times> nat \<times> bytes" where
  "sflash_mtd_read sfl buf c from len =
     (if len = 0 then (0, 0, [])
      else if from + len > unat (sf_size sfl) then (- EINVAL, 0, [])
      else mtd_read_loop sfl c from len buf)"

partial_function (option) mtd_write_loop :: "nat \<Rightarrow> si_info \<Rightarrow> sflash \<Rightarrow> sf_chip \<Rightarrow> nat \<Rightarrow> bytes \<Rightarrow> nat \<Rightarrow>
    (sf_chip \<times> int \<times> nat) option" where
  "mtd_write_loop lim sih sfl c to buf retlen =
     (if buf = [] then Some (c, 0, retlen)
      else
        let c1 = fst (sflash_write sih sfl c (of_nat to) buf); n = snd (sflash_write sih sfl c (of_nat to) buf) in
        if n < 0 then Some (c1, n, retlen)
        else
          let c2 = fst (sflash_mtd_poll lim sfl c1 (of_nat to)); p = snd (sflash_mtd_poll lim sfl c1 (of_nat to)) in
          if p \<noteq> 0 then Some (c2, p, retlen)
          else mtd_write_loop lim sih sfl c2 (to + nat n) (drop (nat n) buf) (retlen + nat n))"

definition sflash_mtd_write :: "nat \<Rightarrow> si_info \<Rightarrow> sflash \<Rightarrow> sf_chip \<Rightarrow> nat \<Rightarrow> bytes \<Rightarrow> (sf_chip \<times> int \<times> nat) option" where
  "sflash_mtd_write lim sih sfl c to buf =
     (if buf = [] then Some (c, 0, 0)
      else if to + length buf > unat (sf_size sfl) then Some (c, - EINVAL, 0)
      else mtd_write_loop lim sih sfl c to buf 0)"

text \<open>
  The erase loop over the blocks \<open>j\<close> of the one erase region: a block is erased when the address has
  reached it. A failure ends the loop.
\<close>

fun mtd_erase_loop :: "nat \<Rightarrow> sflash \<Rightarrow> nat list \<Rightarrow> sf_chip \<Rightarrow> u32 \<Rightarrow> u32 \<Rightarrow> sf_chip \<times> int" where
  "mtd_erase_loop lim sfl [] c addr len = (c, 0)"
| "mtd_erase_loop lim sfl (j # js) c addr len =
     (if addr = sf_blocksize sfl * of_nat j \<and> len \<ge> sf_blocksize sfl then
        let (c1, r) = sflash_erase sfl c addr in
        if r < 0 then (c1, r)
        else
          let (c2, p) = sflash_mtd_poll lim sfl c1 addr in
          if p \<noteq> 0 then (c2, p)
          else mtd_erase_loop lim sfl js c2 (addr + sf_blocksize sfl) (len - sf_blocksize sfl)
      else mtd_erase_loop lim sfl js c addr len)"

definition sflash_mtd_erase :: "nat \<Rightarrow> sflash \<Rightarrow> sf_chip \<Rightarrow> u32 \<Rightarrow> u32 \<Rightarrow> sf_chip \<times> int" where
  "sflash_mtd_erase lim sfl c addr len =
     (if len = 0 then (c, 0)
      else if addr + len > sf_size sfl then (c, - EINVAL)
      else mtd_erase_loop lim sfl [0..<unat (sf_numblocks sfl)] c addr len)"

text \<open>The \<open>mtd_info\<close> of the device; \<open>buf\<close> is where its users' buffers start. A write that does not
  return has no entry here: the laws show that there is none.\<close>

definition sflash_mtd :: "nat \<Rightarrow> nat \<Rightarrow> si_info \<Rightarrow> sflash \<Rightarrow> sf_chip mtd" where
  "sflash_mtd lim buf sih sfl =
     \<lparr>mtd_size = sf_size sfl, mtd_erasesize = sf_blocksize sfl,
      mtd_read = (\<lambda>c p n. let (r, l, b) = sflash_mtd_read sfl buf c (unat p) n in (c, r, l, b)),
      mtd_write = (\<lambda>c p b. the (sflash_mtd_write lim sih sfl c (unat p) b)),
      mtd_erase = (\<lambda>c p n. sflash_mtd_erase lim sfl c p n),
      mtd_unlock = None\<rparr>"

end
