(* ===== verification/Sflash_Laws.thy ===== *)
theory Sflash_Laws
  imports Sflash
begin

text \<open>
  The serial flash driver on an ST chip keeps the contract of a flash device: a page program stays
  in its page, the retries are harmless, the loops over a buffer end, and what a call reports is in
  the chip.
\<close>

section \<open>Programming\<close>

text \<open>The bits a program of \<open>bs\<close> at \<open>a\<close> leaves set at position \<open>i\<close>; some, or all, of it carried out.\<close>

definition pmask :: "nat \<Rightarrow> bytes \<Rightarrow> nat \<Rightarrow> u8" where
  "pmask a bs i = (if a \<le> i \<and> i < a + length bs then bs ! (i - a) else - 1)"

definition prog_some :: "bytes \<Rightarrow> bytes \<Rightarrow> nat \<Rightarrow> bytes \<Rightarrow> bool" where
  "prog_some m m' a bs \<longleftrightarrow> length m' = length m \<and>
     (\<forall>i < length m. m' ! i = m ! i \<or> m' ! i = m ! i AND pmask a bs i)"

definition prog_all :: "bytes \<Rightarrow> bytes \<Rightarrow> nat \<Rightarrow> bytes \<Rightarrow> bool" where
  "prog_all m m' a bs \<longleftrightarrow> length m' = length m \<and> (\<forall>i < length m. m' ! i = m ! i AND pmask a bs i)"

lemma prog_some_refl [simp]: "prog_some m m a bs"
  by (simp add: prog_some_def)

lemma prog_all_Nil [simp]: "prog_all m m a []"
  by (auto simp: prog_all_def pmask_def)

lemma prog_all_some: "prog_all m m' a bs \<Longrightarrow> prog_some m m' a bs"
  by (simp add: prog_all_def prog_some_def)

lemma and_twice: "(x AND y) AND y = (x AND y :: u8)"
  by (simp add: and.assoc)

lemma prog_again:
  "prog_some m m1 a bs \<Longrightarrow> prog_some m1 m2 a bs \<Longrightarrow> prog_some m m2 a bs"
  "prog_some m m1 a bs \<Longrightarrow> prog_all m1 m2 a bs \<Longrightarrow> prog_all m m2 a bs"
  unfolding prog_some_def prog_all_def by (metis and_twice)+

lemma pmask_append: "pmask a (xs @ ys) i = pmask a xs i AND pmask (a + length xs) ys i"
  by (auto simp: pmask_def nth_append)

lemma pmask_one: "pmask a xs i = - 1 \<or> pmask (a + length xs) ys i = - 1"
  by (auto simp: pmask_def)

text \<open>Two adjacent ranges.\<close>

lemma prog_append:
  "prog_some m m1 a xs \<Longrightarrow> prog_some m1 m2 (a + length xs) ys \<Longrightarrow> prog_some m m2 a (xs @ ys)"
  "prog_all m m1 a xs \<Longrightarrow> prog_all m1 m2 (a + length xs) ys \<Longrightarrow> prog_all m m2 a (xs @ ys)"
proof -
  assume "prog_some m m1 a xs" "prog_some m1 m2 (a + length xs) ys"
  then show "prog_some m m2 a (xs @ ys)"
    unfolding prog_some_def pmask_append using pmask_one [of a xs _ ys] by (metis and.right_neutral and.left_neutral)
next
  assume "prog_all m m1 a xs" "prog_all m1 m2 (a + length xs) ys"
  then show "prog_all m m2 a (xs @ ys)"
    unfolding prog_all_def pmask_append by (simp add: and.assoc)
qed

lemma page_program_law:
  "a mod 256 + length bs \<le> 256 \<Longrightarrow> a + length bs \<le> length m \<Longrightarrow> prog_all m (page_program m a bs) a bs"
proof (induction m a bs rule: page_program.induct)
  case (2 m a b bs)
  have 1: "prog_all m (m[a := m ! a AND b]) a [b]"
    using 2(3) by (auto simp: prog_all_def pmask_def nth_list_update)
  show ?case
  proof (cases bs)
    case Nil
    then show ?thesis using 1 by simp
  next
    case (Cons c cs)
    then have "a mod 256 < 255" using 2(2) by simp
    then have "(a + 1) mod 256 = a mod 256 + 1" by (simp add: mod_Suc)
    then have "prog_all (m[a := m ! a AND b]) (page_program m a (b # bs)) (a + 1) bs"
      using 2 by simp
    then show ?thesis using prog_append(2) [OF 1, of _ bs] by simp
  qed
qed simp

section \<open>Commands\<close>

text \<open>Between two calls chip select is released; the chip may still be busy, for at most \<open>lim\<close> polls.
  With \<open>acc\<close> it accepts every program, and is busy with it when it is first polled.\<close>

definition chip_inv :: "bool \<Rightarrow> nat \<Rightarrow> sflash \<Rightarrow> sf_chip \<Rightarrow> bool" where
  "chip_inv acc lim sfl c \<longleftrightarrow> c_held c = None \<and> \<not> c_cs c \<and> length (c_mem c) = unat (sf_size sfl) \<and> c_busy c \<le> lim \<and>
     (\<forall>n. c_delay c n \<le> lim \<and> (acc \<longrightarrow> c_accept c n \<and> 0 < c_delay c n))"

definition chip_ok :: "bool \<Rightarrow> nat \<Rightarrow> sflash \<Rightarrow> sf_chip \<Rightarrow> bool" where
  "chip_ok acc lim sfl c \<longleftrightarrow> chip_inv acc lim sfl c \<and> c_busy c = 0"

lemmas opcode_defs = SFLASH_ST_CSA_def SFLASH_ST_WREN_def SFLASH_ST_RDSR_def SFLASH_ST_PP_def SFLASH_ST_SE_def
  SFLASH_ST_DP_def SFLASH_ST_RES_def SFLASH_ST_WIP_def

lemma cmd_WREN: "c_held c = None \<Longrightarrow> c_busy c = 0 \<Longrightarrow> sflash_cmd c SFLASH_ST_WREN = c\<lparr>c_wel := True\<rparr>"
  by (simp add: sflash_cmd_def chip_cmd_def opcode_defs)

lemma cmd_PP_held:
  assumes "c_held c = None" "c_busy c = 0" "c_wel c" "csa = SFLASH_ST_CSA \<or> csa = 0 \<and> c_cs c"
  shows "sflash_cmd c (csa OR SFLASH_ST_PP) = c\<lparr>c_held := Some (unat (c_addr c), [ucast (c_data c)])\<rparr>"
  using assms by (auto simp: sflash_cmd_def chip_cmd_def opcode_defs)

lemma cmd_SE:
  assumes "c_held c = None" "c_busy c = 0" "c_wel c"
  shows "sflash_cmd c SFLASH_ST_SE = chip_start True c (sector_erase (c_mem c) (unat (c_addr c)))"
  using assms by (auto simp: sflash_cmd_def chip_cmd_def opcode_defs)

lemma CSA_push: "SFLASH_ST_CSA = push_bit 12 1"
  by (simp add: SFLASH_ST_CSA_def)

lemma low_byte_CSA: "ucast (SFLASH_ST_CSA OR ucast b) = (b :: u8)"
proof -
  have "ucast (push_bit 12 w OR ucast b) = b" for w :: u32 by (rule bit_word_eqI) (auto simp: bit_simps)
  then show ?thesis unfolding CSA_push .
qed

lemma CSA_absorb: "(SFLASH_ST_CSA OR w) AND SFLASH_ST_CSA = SFLASH_ST_CSA"
  by (rule bit_word_eqI) (auto simp: bit_simps)

lemma cmd_byte:
  assumes "c_held c = Some (a, bs)" "csa = SFLASH_ST_CSA \<or> csa = 0 \<and> c_cs c"
  shows "sflash_cmd c (csa OR ucast (b :: u8)) = c\<lparr>c_held := Some (a, bs @ [b])\<rparr>"
  using assms(2)
proof
  assume csa: "csa = SFLASH_ST_CSA"
  have "SFLASH_ST_CSA \<noteq> 0" by (simp add: SFLASH_ST_CSA_def)
  then show ?thesis
    using assms(1) by (simp add: sflash_cmd_def chip_cmd_def csa low_byte_CSA CSA_absorb)
next
  assume "csa = 0 \<and> c_cs c"
  moreover have "ucast (ucast b :: u32) = b" by (rule bit_word_eqI) (auto simp: bit_simps)
  ultimately show ?thesis using assms(1) by (simp add: sflash_cmd_def chip_cmd_def)
qed

lemma poll_ST:
  assumes "sf_type sfl = SFLASH_ST" "off < sf_size sfl" "c_held c = None"
  shows "\<exists>d. sflash_poll sfl c off = (c\<lparr>c_data := d, c_busy := c_busy c - 1\<rparr>, if c_busy c > 0 then 1 else 0)"
  using assms by (auto simp: sflash_poll_def sflash_cmd_def chip_cmd_def opcode_defs not_le Let_def)

section \<open>Page programs\<close>

text \<open>How many of \<open>len\<close> bytes fit before the next page boundary.\<close>

definition page_room :: "u32 \<Rightarrow> nat \<Rightarrow> nat" where
  "page_room off len = (if unat off mod 256 = 0 then 0 else min len (256 - unat off mod 256))"

lemma off_page: "off AND 255 = (0 :: u32) \<longleftrightarrow> unat off mod 256 = 0"
proof -
  have "off AND 255 = take_bit 8 off" by (simp add: take_bit_eq_mask mask_eq_exp_minus_1)
  moreover have "unat (take_bit 8 off) = take_bit 8 (unat off)" by (rule unsigned_take_bit_eq)
  moreover have "take_bit 8 (unat off) = unat off mod 256" by (simp add: take_bit_eq_mod)
  ultimately show ?thesis by (metis unat_eq_zero)
qed

lemma off_next: "unat (off + 1 :: u32) mod 256 = (unat off mod 256 + 1) mod 256"
  by (simp add: unat_word_ariths mod_mod_cancel mod_Suc_eq)

lemma page_room_Suc: "Suc (page_room (off + 1) len) = min (Suc len) (256 - unat off mod 256)"
  by (auto simp: page_room_def off_next mod_Suc min_def)

lemma st_burst_law:
  assumes "c_held c = Some (a, bs)" "csa = SFLASH_ST_CSA \<or> csa = 0 \<and> c_cs c"
  shows "\<exists>pe. st_burst c csa off buf ret =
    (c\<lparr>c_held := Some (a, bs @ take (page_room off (length buf)) buf)\<rparr>, off + of_nat (page_room off (length buf)),
     ret + int (page_room off (length buf)), pe)"
  using assms
proof (induction buf arbitrary: c off bs ret)
  case Nil
  then show ?case by (auto simp: page_room_def)
next
  case (Cons b buf)
  show ?case
  proof (cases "unat off mod 256 = 0")
    case True
    then show ?thesis using Cons.prems by (auto simp: off_page page_room_def)
  next
    case False
    then have n: "page_room off (length (b # buf)) = Suc (page_room (off + 1) (length buf))"
      unfolding page_room_Suc by (simp add: page_room_def)
    show ?thesis
      using Cons.IH [of "c\<lparr>c_held := Some (a, bs @ [b])\<rparr>" "bs @ [b]" "off + 1" "ret + 1"] Cons.prems False
        cmd_byte [OF Cons.prems, of b] n
      by (simp add: off_page algebra_simps)
  qed
qed

text \<open>What is left to be seen of a program after chip select is released.\<close>

lemma chip_release_law:
  assumes c: "chip_inv acc lim sfl (c\<lparr>c_held := None\<rparr>)" "c_busy c = 0" "c_held c = Some (a, bs)"
    and r: "a mod 256 + length bs \<le> 256" "a + length bs \<le> length (c_mem c)"
  shows "chip_inv acc lim sfl (chip_release c)" "prog_some (c_mem c) (c_mem (chip_release c)) a bs" "c_wel (chip_release c) = False"
    "c_busy (chip_release c) \<noteq> 0 \<Longrightarrow> prog_all (c_mem c) (c_mem (chip_release c)) a bs"
    "c_held (chip_release c) = None" "acc \<Longrightarrow> c_busy (chip_release c) \<noteq> 0"
proof -
  note p = page_program_law [OF r]
  show "chip_inv acc lim sfl (chip_release c)"
    using c p by (auto simp: chip_inv_def chip_release_def chip_start_def Let_def prog_all_def)
  show "prog_some (c_mem c) (c_mem (chip_release c)) a bs" "c_wel (chip_release c) = False" "c_held (chip_release c) = None"
    "acc \<Longrightarrow> c_busy (chip_release c) \<noteq> 0"
    "c_busy (chip_release c) \<noteq> 0 \<Longrightarrow> prog_all (c_mem c) (c_mem (chip_release c)) a bs"
    using c p by (auto simp: chip_inv_def chip_release_def chip_start_def Let_def prog_all_some split: if_splits)
qed

definition page_count :: "nat \<Rightarrow> nat \<Rightarrow> nat" where
  "page_count off len = min len (256 - off mod 256)"

lemma page_count_pos: "0 < len \<Longrightarrow> 0 < page_count off len" "page_count off len \<le> len"
  by (simp_all add: page_count_def)

lemma st_attempt_law:
  assumes c: "chip_ok acc lim sfl c" and ty: "sf_type sfl = SFLASH_ST" and b: "buf \<noteq> []"
    and r: "unat offset + length buf \<le> unat (sf_size sfl)"
  defines "n \<equiv> page_count (unat offset) (length buf)"
  shows "\<exists>c' pe p. st_attempt gpio sfl c offset buf = (c', int n, pe, p) \<and> chip_inv acc lim sfl c' \<and>
    prog_some (c_mem c) (c_mem c') (unat offset) (take n buf) \<and> (p = 0 \<longrightarrow> c_busy c' = 0 \<and> \<not> acc) \<and>
    (p \<noteq> 0 \<and> unat offset + n < unat (sf_size sfl) \<longrightarrow> prog_all (c_mem c) (c_mem c') (unat offset) (take n buf))"
proof -
  let ?csa = "if gpio then 0 else SFLASH_ST_CSA"
  define c3 where "c3 = (if gpio then set_cs else (\<lambda>c. c)) (set_data (set_addr (c\<lparr>c_wel := True\<rparr>) offset) (ucast (hd buf)))"
  have c0: "c_held c = None" "c_busy c = 0" "\<not> c_cs c" using c by (simp_all add: chip_ok_def chip_inv_def)
  have ub: "ucast (ucast x :: u32) = (x :: u8)" for x by (rule bit_word_eqI) (auto simp: bit_simps)
  have c4: "sflash_cmd c3 (?csa OR SFLASH_ST_PP) = c3\<lparr>c_held := Some (unat offset, [hd buf])\<rparr>"
    using cmd_PP_held [of c3 ?csa] c0 by (auto simp: c3_def set_cs_def set_data_def set_addr_def ub)
  define c4 where "c4 = c3\<lparr>c_held := Some (unat offset, [hd buf])\<rparr>"
  let ?k = "page_room (offset + 1) (length (tl buf))"
  have k: "Suc ?k = n" using b by (simp add: page_room_Suc n_def page_count_def)
  have nb: "n \<le> length buf" by (simp add: n_def page_count_def)
  have tk: "hd buf # take ?k (tl buf) = take n buf" using b by (cases buf) (simp_all flip: k)
  have h4: "c_held c4 = Some (unat offset, [hd buf])" "?csa = SFLASH_ST_CSA \<or> ?csa = 0 \<and> c_cs c4"
    by (simp_all add: c4_def c3_def set_cs_def)
  have e: "offset + 1 + of_nat ?k = offset + of_nat n" "1 + int ?k = int n" "[hd buf] @ take ?k (tl buf) = take n buf"
    using tk by (simp_all flip: k)
  obtain pe where bu: "st_burst c4 ?csa (offset + 1) (tl buf) 1 =
      (c4\<lparr>c_held := Some (unat offset, take n buf)\<rparr>, offset + of_nat n, int n, pe)"
    using st_burst_law [OF h4, of "offset + 1" "tl buf" 1] unfolding e by blast
  define c6 where "c6 = c3\<lparr>c_cs := False, c_held := Some (unat offset, take n buf)\<rparr>"
  have rel: "(if gpio then clear_cs (c4\<lparr>c_held := Some (unat offset, take n buf)\<rparr>)
      else chip_release (c4\<lparr>c_held := Some (unat offset, take n buf)\<rparr>)) = chip_release c6"
    using c0(3) by (cases c) (simp add: c6_def c4_def c3_def clear_cs_def set_cs_def set_data_def set_addr_def)
  have c6: "chip_inv acc lim sfl (c6\<lparr>c_held := None\<rparr>)" "c_busy c6 = 0" "c_mem c6 = c_mem c" "c_held c6 = Some (unat offset, take n buf)"
    using c by (auto simp: c6_def c3_def chip_ok_def chip_inv_def set_cs_def set_data_def set_addr_def)
  have ln: "length (take n buf) = n" using nb by simp
  have r1: "unat offset mod 256 + length (take n buf) \<le> 256" "unat offset + length (take n buf) \<le> length (c_mem c6)"
    using r nb c c6(3) by (auto simp: n_def page_count_def chip_ok_def chip_inv_def)
  note cr = chip_release_law [OF c6(1,2,4) r1, unfolded c6(3)]
  have at: "st_attempt gpio sfl c offset buf =
      (let (c7, p) = sflash_poll sfl (chip_release c6) (offset + of_nat n) in (c7, int n, pe, p))"
    using bu rel c4 cmd_WREN [OF c0(1,2)] by (auto simp: st_attempt_def Let_def c3_def c4_def)
  have off: "unat (offset + of_nat n) = unat offset + n"
  proof -
    have "unat (of_nat n :: u32) = n" using r nb unat_lt32 [of "sf_size sfl"] by (intro unat_of_nat32) linarith
    then show ?thesis using r nb unat_add_le [of offset "of_nat n" "sf_size sfl"] by simp
  qed
  show ?thesis
  proof (cases "sf_size sfl \<le> offset + of_nat n")
    case True
    then have "unat (sf_size sfl) \<le> unat offset + n" using off by (simp add: word_le_nat_alt)
    then show ?thesis using at True cr by (simp add: sflash_poll_def)
  next
    case False
    then have "offset + of_nat n < sf_size sfl" by simp
    then obtain d where "sflash_poll sfl (chip_release c6) (offset + of_nat n) =
        ((chip_release c6)\<lparr>c_data := d, c_busy := c_busy (chip_release c6) - 1\<rparr>, if c_busy (chip_release c6) > 0 then 1 else 0)"
      using poll_ST [OF ty _ cr(5)] by blast
    then show ?thesis using at cr by (auto simp: chip_inv_def)
  qed
qed

text \<open>With the retries: a negative status leaves an idle chip, another one the number of bytes.\<close>

definition st_done :: "bool \<Rightarrow> nat \<Rightarrow> sflash \<Rightarrow> sf_chip \<Rightarrow> nat \<Rightarrow> bytes \<Rightarrow> nat \<Rightarrow> sf_chip \<times> int \<Rightarrow> bool" where
  "st_done acc lim sfl c off buf n r \<longleftrightarrow> chip_inv acc lim sfl (fst r) \<and>
     prog_some (c_mem c) (c_mem (fst r)) off (take n buf) \<and>
     (snd r < 0 \<and> c_busy (fst r) = 0 \<and> \<not> acc \<or>
      snd r = int n \<and> (off + n < unat (sf_size sfl) \<longrightarrow> prog_all (c_mem c) (c_mem (fst r)) off (take n buf)))"

lemma st_write_law:
  assumes "chip_ok acc lim sfl c" "sf_type sfl = SFLASH_ST" "buf \<noteq> []" "unat offset + length buf \<le> unat (sf_size sfl)"
  shows "st_done acc lim sfl c (unat offset) buf (page_count (unat offset) (length buf)) (st_write tries gpio sfl c offset buf)"
  using assms
proof (induction tries arbitrary: c)
  case 0
  then obtain c' pe p where a: "st_attempt gpio sfl c offset buf = (c', int (page_count (unat offset) (length buf)), pe, p)"
    and l: "chip_inv acc lim sfl c'" "prog_some (c_mem c) (c_mem c') (unat offset) (take (page_count (unat offset) (length buf)) buf)"
      "p = 0 \<longrightarrow> c_busy c' = 0 \<and> \<not> acc" "p \<noteq> 0 \<and> unat offset + page_count (unat offset) (length buf) < unat (sf_size sfl) \<longrightarrow>
        prog_all (c_mem c) (c_mem c') (unat offset) (take (page_count (unat offset) (length buf)) buf)"
    using st_attempt_law [of acc lim sfl c buf offset gpio] by blast
  then show ?case by (auto simp: st_write.simps st_done_def)
next
  case (Suc tries)
  then obtain c' pe p where a: "st_attempt gpio sfl c offset buf = (c', int (page_count (unat offset) (length buf)), pe, p)"
    and l: "chip_inv acc lim sfl c'" "prog_some (c_mem c) (c_mem c') (unat offset) (take (page_count (unat offset) (length buf)) buf)"
      "p = 0 \<longrightarrow> c_busy c' = 0 \<and> \<not> acc" "p \<noteq> 0 \<and> unat offset + page_count (unat offset) (length buf) < unat (sf_size sfl) \<longrightarrow>
        prog_all (c_mem c) (c_mem c') (unat offset) (take (page_count (unat offset) (length buf)) buf)"
    using st_attempt_law [of acc lim sfl c buf offset gpio] by blast
  show ?case
  proof (cases "p = 0")
    case True
    then have "chip_ok acc lim sfl c'" using l by (simp add: chip_ok_def)
    note ih = Suc.IH [OF this Suc.prems(2-4)]
    have "st_write (Suc tries) gpio sfl c offset buf = st_write tries gpio sfl c' offset buf"
      using a True by (simp add: st_write.simps [of "Suc tries"])
    then show ?thesis using ih prog_again(1) [OF l(2)] prog_again(2) [OF l(2)] unfolding st_done_def by metis
  next
    case False
    then show ?thesis using a l by (simp add: st_write.simps st_done_def)
  qed
qed

definition held_write :: "si_info \<Rightarrow> bool" where
  "held_write sih \<longleftrightarrow> si_chipid sih = BCM4712_CHIP_ID \<and> si_chiprev sih = 3 \<or> 20 \<le> si_ccrev sih"

lemma sflash_write_law:
  assumes c: "chip_ok acc lim sfl c" and ty: "sf_type sfl = SFLASH_ST" and b: "buf \<noteq> []"
    and r: "unat offset + length buf \<le> unat (sf_size sfl)" and h: "held_write sih"
  shows "st_done acc lim sfl c (unat offset) buf (page_count (unat offset) (length buf)) (sflash_write sih sfl c offset buf)"
proof -
  have n: "unat (of_nat (length buf) :: u32) = length buf"
    using r unat_lt32 [of "sf_size sfl"] by (intro unat_of_nat32) linarith
  then have "unat (offset + of_nat (length buf)) = unat offset + length buf"
    using r unat_add_le [of offset "of_nat (length buf)" "sf_size sfl"] by simp
  then have "\<not> offset + of_nat (length buf) > sf_size sfl" using r by (simp add: word_less_nat_alt)
  then show ?thesis
    using st_write_law [OF c ty b r] h b ty by (auto simp: sflash_write_def held_write_def)
qed

section \<open>Waiting\<close>

lemma mtd_poll_law:
  assumes "chip_inv acc lim sfl c" "sf_type sfl = SFLASH_ST" "off < sf_size sfl" "c_busy c \<le> n"
  shows "\<exists>c'. sflash_mtd_poll n sfl c off = (c', 0) \<and> chip_ok acc lim sfl c' \<and> c_mem c' = c_mem c"
  using assms
proof (induction n arbitrary: c)
  case 0
  obtain d where "sflash_poll sfl c off = (c\<lparr>c_data := d, c_busy := c_busy c - 1\<rparr>, if c_busy c > 0 then 1 else 0)"
    using poll_ST [OF 0(2,3)] 0(1) by (auto simp: chip_inv_def)
  then show ?case using 0 by (simp add: chip_ok_def chip_inv_def)
next
  case (Suc n)
  obtain d where p: "sflash_poll sfl c off = (c\<lparr>c_data := d, c_busy := c_busy c - 1\<rparr>, if c_busy c > 0 then 1 else 0)"
    using poll_ST [OF Suc.prems(2,3)] Suc.prems(1) by (auto simp: chip_inv_def)
  show ?case
  proof (cases "c_busy c")
    case 0
    then show ?thesis using p Suc.prems by (simp add: chip_ok_def chip_inv_def)
  next
    case (Suc k)
    let ?c = "c\<lparr>c_data := d, c_busy := c_busy c - 1\<rparr>"
    have "chip_inv acc lim sfl ?c" "c_busy ?c \<le> n" using Suc.prems Suc by (auto simp: chip_inv_def)
    then show ?thesis using Suc.IH [of ?c] Suc.prems(2,3) p Suc by simp
  qed
qed

section \<open>The MTD calls\<close>

lemma mtd_write_loop_law:
  assumes "chip_ok acc lim sfl c" "sf_type sfl = SFLASH_ST" "held_write sih" "to + length buf \<le> unat (sf_size sfl)"
  shows "\<exists>c' r rl. mtd_write_loop lim sih sfl c to buf retlen = Some (c', r, rl) \<and> chip_ok acc lim sfl c' \<and>
    prog_some (c_mem c) (c_mem c') to buf \<and> (r = 0 \<longrightarrow> rl = retlen + length buf) \<and> (acc \<longrightarrow> r = 0) \<and>
    (r = 0 \<and> to + length buf < unat (sf_size sfl) \<longrightarrow> prog_all (c_mem c) (c_mem c') to buf)"
  using assms
proof (induction "length buf" arbitrary: c to buf retlen rule: less_induct)
  case less
  show ?case
  proof (cases "buf = []")
    case True
    then show ?thesis using less.prems by (simp add: mtd_write_loop.simps)
  next
    case False
    then have lt: "to < unat (sf_size sfl)" using less.prems(4) by (cases buf) simp_all
    have u: "unat (of_nat to :: u32) = to" using lt unat_lt32 [of "sf_size sfl"] by (intro unat_of_nat32) linarith
    define n where "n = page_count to (length buf)"
    have n: "0 < n" "n \<le> length buf" using False page_count_pos(1) [of "length buf" to] page_count_pos(2) [of to "length buf"]
      by (simp_all add: n_def)
    obtain c1 r1 where w: "sflash_write sih sfl c (of_nat to) buf = (c1, r1)" by force
    have d: "st_done acc lim sfl c to buf n (c1, r1)"
      using sflash_write_law [of acc lim sfl c buf "of_nat to" sih] less.prems False u w by (simp add: n_def)
    have take_some: "prog_some m m' to (take n buf) \<Longrightarrow> prog_some m m' to buf" for m m'
      using prog_append(1) [of m m' to "take n buf" m' "drop n buf"] by simp
    show ?thesis
    proof (cases "r1 < 0")
      case True
      then have "mtd_write_loop lim sih sfl c to buf retlen = Some (c1, r1, retlen)"
        using w False by (simp add: mtd_write_loop.simps [of lim sih sfl c to buf retlen])
      then show ?thesis using d True take_some by (auto simp: st_done_def chip_ok_def)
    next
      case r1: False
      then have r: "r1 = int n" "chip_inv acc lim sfl c1" "prog_some (c_mem c) (c_mem c1) to (take n buf)"
        "to + n < unat (sf_size sfl) \<longrightarrow> prog_all (c_mem c) (c_mem c1) to (take n buf)"
        using d by (auto simp: st_done_def)
      have "of_nat to < sf_size sfl" using lt u by (simp add: word_less_nat_alt)
      moreover have "c_busy c1 \<le> lim" using r(2) by (simp add: chip_inv_def)
      ultimately obtain c2 where p: "sflash_mtd_poll lim sfl c1 (of_nat to) = (c2, 0)" "chip_ok acc lim sfl c2" "c_mem c2 = c_mem c1"
        using mtd_poll_law [OF r(2) less.prems(2)] by blast
      have "length (drop n buf) < length buf" "to + n + length (drop n buf) \<le> unat (sf_size sfl)"
        using n less.prems(4) by simp_all
      then obtain c' rr rl where ih: "mtd_write_loop lim sih sfl c2 (to + n) (drop n buf) (retlen + n) = Some (c', rr, rl)"
        "chip_ok acc lim sfl c'" "prog_some (c_mem c1) (c_mem c') (to + n) (drop n buf)" "rr = 0 \<longrightarrow> rl = retlen + n + length (drop n buf)"
        "acc \<longrightarrow> rr = 0"
        "rr = 0 \<and> to + n + length (drop n buf) < unat (sf_size sfl) \<longrightarrow> prog_all (c_mem c1) (c_mem c') (to + n) (drop n buf)"
        using less.hyps [of "drop n buf" c2 "to + n" "retlen + n", OF _ p(2) less.prems(2,3)] unfolding p(3) by blast
      have ln: "length (take n buf) = n" using n by simp
      have "mtd_write_loop lim sih sfl c to buf retlen = Some (c', rr, rl)"
        using w r1 r(1) p(1) ih(1) False by (simp add: mtd_write_loop.simps [of lim sih sfl c to buf retlen] Let_def)
      moreover have "prog_some (c_mem c) (c_mem c') to buf"
        using prog_append(1) [OF r(3), of "c_mem c'" "drop n buf"] ih(3) ln by simp
      moreover have "prog_all (c_mem c) (c_mem c') to buf" if "rr = 0" "to + length buf < unat (sf_size sfl)"
        using prog_append(2) [of "c_mem c" "c_mem c1" to "take n buf" "c_mem c'" "drop n buf"] ih(6) r(4) that ln n by simp
      ultimately show ?thesis using ih(2,4,5) n by simp
    qed
  qed
qed

end
