(* ===== verification/Nvram_Flash_Laws.thy ===== *)
theory Nvram_Flash_Laws
  imports Nvram_Flash
begin

text \<open>
  The commit to a flash device that keeps the contract \<open>nor_mtd\<close>: the states it passes through, and
  what a successful commit leaves on the device.
\<close>

lemma outside_refl [simp]: "outside b b p n"
  by (simp add: outside_def)

lemma outside_trans:
  "outside a b p n \<Longrightarrow> outside b c q m \<Longrightarrow> r \<le> p \<Longrightarrow> p + n \<le> r + k \<Longrightarrow> r \<le> q \<Longrightarrow> q + m \<le> r + k \<Longrightarrow> outside a c r k"
  by (auto simp: outside_def)

lemma outside_weaken: "outside a b p n \<Longrightarrow> r \<le> p \<Longrightarrow> p + n \<le> r + k \<Longrightarrow> outside a b r k"
  by (auto simp: outside_def)

lemma outside_length: "outside a b p n \<Longrightarrow> length b = length a"
  by (simp add: outside_def)

lemma commit_erasesize_eq:
  fixes M :: "'f mtd"
  assumes e: "mtd_erasesize M \<noteq> 0" "unat (mtd_erasesize M) \<le> 2 ^ 31"
  defines "es \<equiv> unat (mtd_erasesize M)"
  shows "unat (commit_erasesize M) = (NVRAM_SPACE + (es - 1)) div es * es"
    "es dvd unat (commit_erasesize M)" "NVRAM_SPACE \<le> unat (commit_erasesize M)"
proof -
  have es: "0 < es" "es \<le> 2 ^ 31" using e by (auto simp: es_def unat_gt_0)
  let ?q = "(NVRAM_SPACE + (es - 1)) div es"
  have "mtd_erasesize M - 1 = of_nat (es - 1)" using es by (simp add: es_def of_nat_diff)
  then have "of_nat NVRAM_SPACE + (mtd_erasesize M - 1) = (of_nat (NVRAM_SPACE + (es - 1)) :: u32)" by simp
  moreover have lt: "NVRAM_SPACE + (es - 1) < 2 ^ 32" using es by (simp add: NVRAM_SPACE_def)
  ultimately have "unat (of_nat NVRAM_SPACE + (mtd_erasesize M - 1)) = NVRAM_SPACE + (es - 1)"
    by (simp only: unat_of_nat32)
  then have "unat ((of_nat NVRAM_SPACE + (mtd_erasesize M - 1)) div mtd_erasesize M) = ?q"
    by (simp add: unat_div_distrib es_def)
  moreover have "x = of_nat (unat x)" for x :: u32 by simp
  ultimately have d: "(of_nat NVRAM_SPACE + (mtd_erasesize M - 1)) div mtd_erasesize M = of_nat ?q" by metis
  have "mtd_erasesize M = of_nat es" by (simp add: es_def)
  then have "commit_erasesize M = of_nat (?q * es)"
    unfolding commit_erasesize_def d by (simp only: of_nat_mult)
  moreover have "?q * es < 2 ^ 32"
    using lt by (rule le_less_trans [rotated]) simp
  ultimately show eq: "unat (commit_erasesize M) = ?q * es" by (simp only: unat_of_nat32)
  show "es dvd unat (commit_erasesize M)" by (simp add: eq)
  have "NVRAM_SPACE + (es - 1) < (?q + 1) * es"
    using es(1) by (metis dividend_less_div_times mult.commute add.commute mult_Suc Suc_eq_plus1)
  then show "NVRAM_SPACE \<le> unat (commit_erasesize M)" using es(1) eq by simp
qed

text \<open>\<open>b\<close> is \<open>a\<close> with some of the bytes from position \<open>p\<close> on erased.\<close>

definition erased :: "bytes \<Rightarrow> bytes \<Rightarrow> nat \<Rightarrow> bool" where
  "erased a b p \<longleftrightarrow> length b = length a \<and> (\<forall>i < length a. b ! i = a ! i \<or> p \<le> i \<and> b ! i = 0xff)"

lemma erased_refl [simp]: "erased a a p"
  by (simp add: erased_def)

lemma erased_trans: "erased a b p \<Longrightarrow> erased b c q \<Longrightarrow> p \<le> q \<Longrightarrow> erased a c p"
  by (fastforce simp: erased_def)

lemma erased_weaken: "erased a b q \<Longrightarrow> p \<le> q \<Longrightarrow> erased a b p"
  by (fastforce simp: erased_def)

context nor_mtd begin

lemma unlock_law:
  assumes "flash_ok f"
  shows "flash_ok (unlock M f p)" "content (unlock M f p) = content f"
  using unlock_ok [OF assms] assms by (auto simp: unlock_def split: option.split)

text \<open>One turn of the erase loop.\<close>

lemma erase_step:
  assumes ok: "flash_ok f0" and p: "unat (mtd_erasesize M) dvd unat p" "unat p < unat (mtd_size M)"
    and f: "f = unlock M f0 p" and e: "mtd_erase M f p (mtd_erasesize M) = (f', r)"
  shows "flash_ok f" "content f = content f0" "flash_ok f'" "erased (content f0) (content f') (unat p)"
    "unat (p + mtd_erasesize M) = unat p + unat (mtd_erasesize M)"
    "unat p + unat (mtd_erasesize M) \<le> unat (mtd_size M)"
    "r = 0 \<Longrightarrow> unat p \<le> i \<Longrightarrow> i < unat p + unat (mtd_erasesize M) \<Longrightarrow> content f' ! i = 0xff"
proof -
  let ?es = "unat (mtd_erasesize M)" and ?sz = "unat (mtd_size M)"
  show f': "flash_ok f" "content f = content f0" using unlock_law [OF ok] f by simp_all
  note law = erase_ok [OF f'(1) e p]
  show "flash_ok f'" using law by simp
  show "erased (content f0) (content f') (unat p)"
    unfolding erased_def
  proof (intro conjI allI impI)
    show "length (content f') = length (content f0)" using law f'(2) by (simp add: outside_def)
    fix i assume i: "i < length (content f0)"
    show "content f' ! i = content f0 ! i \<or> unat p \<le> i \<and> content f' ! i = 0xff"
    proof (cases "unat p \<le> i \<and> i < unat p + ?es")
      case True
      then obtain j where "i = unat p + j" "j < ?es" by (metis le_add_diff_inverse nat_add_left_cancel_less)
      then show ?thesis using law f'(2) by auto
    next
      case False
      then show ?thesis using law f'(2) i by (auto simp: outside_def)
    qed
  qed
  have "?es dvd ?sz - unat p" using p(1) geometry(2) by simp
  then show le: "unat p + ?es \<le> ?sz" using p(2) by (auto dest: dvd_imp_le)
  then show "unat (p + mtd_erasesize M) = unat p + ?es" by (rule unat_add_le)
  assume "r = 0" "unat p \<le> i" "i < unat p + ?es"
  then show "content f' ! i = 0xff" using law by (metis le_add_diff_inverse nat_add_left_cancel_less)
qed

lemma erase_loop_law:
  assumes "flash_ok (hd tr)" "unat (mtd_erasesize M) dvd unat p" "limit \<le> mtd_size M"
  shows "\<exists>new r. erase_loop M limit p tr = Some (new @ tr, r) \<and>
    (\<forall>g\<in>set new. flash_ok g \<and> erased (content (hd tr)) (content g) (unat p)) \<and>
    (r = 0 \<longrightarrow> (\<forall>i. unat p \<le> i \<and> i < unat limit \<longrightarrow> content (hd (new @ tr)) ! i = 0xff))"
  using assms
proof (induction "unat (mtd_size M) - unat p" arbitrary: p tr rule: less_induct)
  case less
  show ?case
  proof (cases "p < limit")
    case False
    then show ?thesis by (intro exI [of _ "[]"]) (auto simp: erase_loop.simps word_less_nat_alt)
  next
    case True
    define f where "f = unlock M (hd tr) p"
    obtain f' r where e: "mtd_erase M f p (mtd_erasesize M) = (f', r)" by force
    have lt: "unat p < unat (mtd_size M)"
      using True less.prems(3) by (simp add: word_less_nat_alt word_le_nat_alt)
    note s = erase_step [OF less.prems(1,2) lt f_def e]
    show ?thesis
    proof (cases "r = 0")
      case False
      then show ?thesis using True e s by (intro exI [of _ "[f', f]"] exI [of _ r])
          (simp add: erase_loop.simps f_def Let_def)
    next
      case r: True
      let ?q = "p + mtd_erasesize M"
      have "unat (mtd_size M) - unat ?q < unat (mtd_size M) - unat p"
        using s(5) lt geometry(1) unat_gt_0 [of "mtd_erasesize M"] by linarith
      moreover have "unat (mtd_erasesize M) dvd unat ?q" using s(5) less.prems(2) by simp
      ultimately obtain new r' where ih: "erase_loop M limit ?q (f' # f # tr) = Some (new @ f' # f # tr, r')"
        "\<forall>g\<in>set new. flash_ok g \<and> erased (content f') (content g) (unat ?q)"
        "r' = 0 \<longrightarrow> (\<forall>i. unat ?q \<le> i \<and> i < unat limit \<longrightarrow> content (hd (new @ f' # f # tr)) ! i = 0xff)"
        using less.hyps [of ?q "f' # f # tr"] less.prems(3) s(3) by auto
      have "erased (content (hd tr)) (content g) (unat p)" if "g \<in> set new" for g
        using erased_trans [OF s(4), of "content g" "unat ?q"] ih(2) that s(5) by simp
      moreover have "content (hd (new @ f' # f # tr)) ! i = 0xff" if "r' = 0" "unat p \<le> i" "i < unat limit" for i
      proof (cases "i < unat ?q")
        case True
        have "erased (content f') (content (hd (new @ f' # f # tr))) (unat ?q)" using ih(2) by (cases new) auto
        moreover have "i < length (content f')" using True s(5,6) size [OF s(3)] by linarith
        moreover have "content f' ! i = 0xff" using s(7) [OF r that(2)] True s(5) by simp
        ultimately show ?thesis by (auto simp: erased_def)
      qed (use ih(3) that in simp)
      moreover have "erase_loop M limit p tr = Some ((new @ [f', f]) @ tr, r')"
        using True e r ih(1) by (simp add: erase_loop.simps [of M limit p tr] f_def Let_def)
      ultimately show ?thesis using ih(2) s(1-4)
        by (intro exI [of _ "new @ [f', f]"] exI [of _ r']) auto
    qed
  qed
qed

end

section \<open>The image on the device\<close>

definition commit_fits :: "'f mtd \<Rightarrow> bool" where
  "commit_fits M \<longleftrightarrow> unat (mtd_erasesize M) \<le> 2 ^ 31 \<and> unat (commit_erasesize M) \<le> unat (mtd_size M)"

definition image_at :: "bytes \<Rightarrow> bytes" where
  "image_at b = drop (length b - NVRAM_SPACE) b"

definition magic_valid :: "bytes \<Rightarrow> bool" where
  "magic_valid b \<longleftrightarrow> take 4 (image_at b) = le32 NVRAM_MAGIC"

lemma le32_MAGIC: "le32 NVRAM_MAGIC = [0x46, 0x4c, 0x53, 0x48]"
  by (simp add: le32_def NVRAM_MAGIC_def)

lemma le32_CLEAR: "le32 NVRAM_CLEAR_MAGIC = [0, 0, 0, 0]"
  by (simp add: le32_def NVRAM_CLEAR_MAGIC_def)

lemma le32_INVALID: "le32 NVRAM_INVALID_MAGIC = [0xff, 0xff, 0xff, 0xff]"
  by (simp add: le32_def NVRAM_INVALID_MAGIC_def)

lemma length_le32 [simp]: "length (le32 w) = 4"
  by (simp add: le32_def)

lemma length_header_bytes: "length (header_bytes h) = NVRAM_HEADER_SIZE"
  by (simp add: header_bytes_def NVRAM_HEADER_SIZE_def)

lemma magic_valid_nth:
  assumes "NVRAM_SPACE \<le> length b"
  shows "magic_valid b \<longleftrightarrow> (\<forall>i < 4. b ! (length b - NVRAM_SPACE + i) = le32 NVRAM_MAGIC ! i)"
proof -
  have "4 \<le> length (image_at b)" using assms by (simp add: image_at_def NVRAM_SPACE_def)
  then show ?thesis using assms by (simp add: magic_valid_def list_eq_iff_nth_eq image_at_def)
qed

lemma MAGIC_nth: "i < 4 \<Longrightarrow> le32 NVRAM_MAGIC ! i \<noteq> 0 \<and> le32 NVRAM_MAGIC ! i \<noteq> 0xff"
proof -
  have "\<forall>x\<in>set (le32 NVRAM_MAGIC). x \<noteq> 0 \<and> x \<noteq> 0xff" by (simp add: le32_MAGIC)
  then show "i < 4 \<Longrightarrow> ?thesis" by (metis length_le32 nth_mem)
qed

lemma CLEAR_nth: "i < 4 \<Longrightarrow> le32 NVRAM_CLEAR_MAGIC ! i = 0"
proof -
  have "\<forall>x\<in>set (le32 NVRAM_CLEAR_MAGIC). x = 0" by (simp add: le32_CLEAR)
  then show "i < 4 \<Longrightarrow> ?thesis" by (metis length_le32 nth_mem)
qed

lemma INVALID_nth: "i < 4 \<Longrightarrow> le32 NVRAM_INVALID_MAGIC ! i = 0xff"
proof -
  have "\<forall>x\<in>set (le32 NVRAM_INVALID_MAGIC). x = 0xff" by (simp add: le32_INVALID)
  then show "i < 4 \<Longrightarrow> ?thesis" by (metis length_le32 nth_mem)
qed

lemma and_ff: "0xff AND x = (x :: u8)"
proof -
  have "(0xff :: u8) = - 1" by simp
  then show ?thesis by (simp only: and.left_neutral)
qed

text \<open>Clearing the magic, even in part, leaves the image as it was or invalid.\<close>

lemma cleared_magic:
  assumes l: "NVRAM_SPACE \<le> length a" and o: "outside a b (length a - NVRAM_SPACE) 4"
    and c: "\<forall>i < 4. b ! (length a - NVRAM_SPACE + i) \<in> {a ! (length a - NVRAM_SPACE + i), 0}"
  shows "b = a \<or> \<not> magic_valid b"
proof (cases "\<forall>i < 4. b ! (length a - NVRAM_SPACE + i) = a ! (length a - NVRAM_SPACE + i)")
  case True
  have "b = a"
  proof (rule nth_equalityI)
    show len: "length b = length a" using o by (simp add: outside_def)
    fix j assume "j < length b"
    then show "b ! j = a ! j"
      using o True len by (cases "length a - NVRAM_SPACE \<le> j \<and> j < length a - NVRAM_SPACE + 4")
        (auto simp: outside_def dest: spec [of _ "j - (length a - NVRAM_SPACE)"])
  qed
  then show ?thesis ..
next
  case False
  then obtain i where "i < 4" "b ! (length a - NVRAM_SPACE + i) = 0" using c by auto
  then show ?thesis using l o MAGIC_nth by (auto simp: magic_valid_nth outside_def)
qed

context nor_mtd begin

lemma commit_geometry:
  assumes "commit_fits M"
  defines "ez \<equiv> unat (commit_erasesize M)" and "sz \<equiv> unat (mtd_size M)"
  shows "NVRAM_SPACE \<le> ez" "ez \<le> sz" "unat (mtd_size M - commit_erasesize M) = sz - ez"
    "unat (commit_erasesize M - of_nat NVRAM_SPACE) = ez - NVRAM_SPACE"
    "unat (mtd_size M - commit_erasesize M + (commit_erasesize M - of_nat NVRAM_SPACE)) = sz - NVRAM_SPACE"
    "unat (mtd_erasesize M) dvd sz - ez" "unat (mtd_size M - of_nat NVRAM_SPACE) = sz - NVRAM_SPACE"
proof -
  note e = commit_erasesize_eq [OF geometry(1)]
  show ez: "NVRAM_SPACE \<le> ez" "ez \<le> sz" using assms(1) e(3) by (simp_all add: commit_fits_def ez_def sz_def)
  have sp: "unat (of_nat NVRAM_SPACE :: u32) = NVRAM_SPACE" by (rule unat_of_nat32) (simp add: NVRAM_SPACE_def)
  show a: "unat (mtd_size M - commit_erasesize M) = sz - ez"
    using ez by (simp add: unat_sub word_le_nat_alt ez_def sz_def)
  show b: "unat (commit_erasesize M - of_nat NVRAM_SPACE) = ez - NVRAM_SPACE"
    using ez sp by (simp add: unat_sub word_le_nat_alt ez_def)
  show "unat (mtd_size M - commit_erasesize M + (commit_erasesize M - of_nat NVRAM_SPACE)) = sz - NVRAM_SPACE"
    using a b ez by (subst unat_add_le [of _ _ "mtd_size M"]) (simp_all add: sz_def)
  show "unat (mtd_erasesize M) dvd sz - ez"
    using e(2) assms(1) geometry(2) by (simp add: commit_fits_def ez_def sz_def)
  show "unat (mtd_size M - of_nat NVRAM_SPACE) = sz - NVRAM_SPACE"
    using ez sp by (simp add: unat_sub word_le_nat_alt sz_def)
qed

lemma commit_clear_law:
  assumes ok: "flash_ok f" and fits: "commit_fits M" and c: "commit_clear M f = (ret, pre, tr)"
  shows "tr \<noteq> [] \<and> last tr = f \<and>
    (\<forall>g\<in>set tr. flash_ok g \<and> (content g = content f \<or> \<not> magic_valid (content g)) \<and>
       outside (content f) (content g) (unat (mtd_size M) - NVRAM_SPACE) 4) \<and>
    (ret = 0 \<longrightarrow> length pre = unat (commit_erasesize M) - NVRAM_SPACE \<and>
       pre = take (unat (commit_erasesize M) - NVRAM_SPACE) (drop (unat (mtd_size M) - unat (commit_erasesize M)) (content f)) \<and>
       (\<forall>i < 4. content (hd tr) ! (unat (mtd_size M) - NVRAM_SPACE + i) = 0))"
proof -
  let ?ez = "unat (commit_erasesize M)" and ?sz = "unat (mtd_size M)"
  let ?i = "commit_erasesize M - of_nat NVRAM_SPACE" and ?offset = "mtd_size M - commit_erasesize M"
  note g = commit_geometry [OF fits]
  obtain f1 b where r: "(if ?i > 0 then let (f1, ret, len, pre) = mtd_read M f ?offset (unat ?i)
      in (f1, ret = 0 \<and> len = unat ?i, pre) else (f, True, [])) = (f1, b, pre)"
    using c by (auto simp: commit_clear_def Let_def split: prod.splits if_splits)
  have f1: "flash_ok f1" "content f1 = content f"
    and pre: "b \<Longrightarrow> length pre = ?ez - NVRAM_SPACE \<and> pre = take (?ez - NVRAM_SPACE) (drop (?sz - ?ez) (content f))"
  proof -
    have "flash_ok f1 \<and> content f1 = content f \<and>
      (b \<longrightarrow> length pre = ?ez - NVRAM_SPACE \<and> pre = take (?ez - NVRAM_SPACE) (drop (?sz - ?ez) (content f)))"
    proof (cases "?i > 0")
      case True
      obtain f1' r' l' p' where m: "mtd_read M f ?offset (unat ?i) = (f1', r', l', p')" using prod_cases4 by blast
      then have "f1' = f1" "b = (r' = 0 \<and> l' = unat ?i)" "p' = pre" using r True by auto
      moreover have "0 < unat ?i" using True by (simp add: unat_gt_0 word_greater_zero_iff)
      ultimately show ?thesis using read_ok [OF ok m] g size [OF ok] by auto
    next
      case False
      then have "unat ?i = 0" by (simp add: word_greater_zero_iff)
      then show ?thesis using r False ok g(4) by auto
    qed
    then show "flash_ok f1" "content f1 = content f" "b \<Longrightarrow> length pre = ?ez - NVRAM_SPACE \<and>
      pre = take (?ez - NVRAM_SPACE) (drop (?sz - ?ez) (content f))" by blast+
  qed
  show ?thesis
  proof (cases b)
    case False
    then have "tr = [f1, f] \<and> ret = - EIO" using c r by (simp add: commit_clear_def Let_def)
    then show ?thesis using f1 ok by (simp add: EIO_def)
  next
    case True
    obtain f3 ret3 len3 where w: "mtd_write M (unlock M f1 ?offset) (?offset + ?i) (le32 NVRAM_CLEAR_MAGIC) = (f3, ret3, len3)"
      using prod_cases3 by blast
    have tr: "tr = [f3, unlock M f1 ?offset, f1, f]" and ret: "ret = (if ret3 \<noteq> 0 \<or> len3 \<noteq> 4 then - EIO else 0)"
      using c r w True by (simp_all add: commit_clear_def Let_def)
    note u = unlock_law [OF f1(1), of ?offset]
    have len: "length (content f) = ?sz" "NVRAM_SPACE \<le> ?sz" using size [OF ok] g(1,2) by simp_all
    have ne: "le32 NVRAM_CLEAR_MAGIC \<noteq> []" by (simp add: le32_CLEAR)
    note law = write_ok [OF u(1) w ne, unfolded g(5) u(2) f1(2) length_le32]
    have "\<forall>i < 4. content f3 ! (?sz - NVRAM_SPACE + i) \<in> {content f ! (?sz - NVRAM_SPACE + i), 0}"
      using law CLEAR_nth len(2) by (fastforce simp: NVRAM_SPACE_def)
    then have "content f3 = content f \<or> \<not> magic_valid (content f3)"
      using cleared_magic [of "content f" "content f3"] law len by simp
    moreover have "ret3 = 0 \<longrightarrow> (\<forall>i < 4. content f3 ! (?sz - NVRAM_SPACE + i) = 0)"
    proof -
      have "?sz - NVRAM_SPACE + 4 < ?sz" using len(2) by (simp add: NVRAM_SPACE_def)
      then show ?thesis using law CLEAR_nth by simp
    qed
    ultimately show ?thesis using tr ret law u f1 ok pre True by (auto simp: EIO_def)
  qed
qed

end

text \<open>What is written in the last part, and the states it passes through.\<close>

definition commit_payload :: "bytes \<Rightarrow> nvram_header \<Rightarrow> bytes \<Rightarrow> u32 \<Rightarrow> bytes" where
  "commit_payload pre hdr data m = pre @ header_bytes (hdr\<lparr>nvh_magic := m\<rparr>) @ data"

lemma payload_nth:
  "commit_payload pre hdr data m ! j =
     (if length pre \<le> j \<and> j < length pre + 4 then le32 m ! (j - length pre) else commit_payload pre hdr data m' ! j)"
  by (auto simp: commit_payload_def header_bytes_def nth_append)

lemma payload_magic: "i < 4 \<Longrightarrow> commit_payload pre hdr data m ! (length pre + i) = le32 m ! i"
  by (auto simp: commit_payload_def header_bytes_def nth_append)

lemma length_payload: "length (commit_payload pre hdr data m) = length pre + NVRAM_HEADER_SIZE + length data"
  by (simp add: commit_payload_def length_header_bytes)

text \<open>A device that was written with the payload and an invalid magic.\<close>

lemma magic_completes:
  assumes P: "P + length pre = length b - NVRAM_SPACE" "NVRAM_SPACE \<le> length b" and n: "length pre + 4 \<le> n" "P + n \<le> length b"
    "n \<le> length (commit_payload pre hdr data NVRAM_MAGIC)"
    and b: "\<forall>j < n. b ! (P + j) = commit_payload pre hdr data NVRAM_INVALID_MAGIC ! j"
    and o: "outside b c (P + length pre) 4" and m: "magic_valid c"
  shows "take n (drop P c) = take n (commit_payload pre hdr data NVRAM_MAGIC)"
proof (rule nth_equalityI)
  have len: "length c = length b" using o by (simp add: outside_def)
  then show l: "length (take n (drop P c)) = length (take n (commit_payload pre hdr data NVRAM_MAGIC))" using n by simp
  fix j assume "j < length (take n (drop P c))"
  then have j: "j < n" by simp
  show "take n (drop P c) ! j = take n (commit_payload pre hdr data NVRAM_MAGIC) ! j"
  proof (cases "length pre \<le> j \<and> j < length pre + 4")
    case True
    have "\<forall>i < 4. c ! (length c - NVRAM_SPACE + i) = le32 NVRAM_MAGIC ! i"
      using m magic_valid_nth [of c] len P by simp
    moreover have "j - length pre < 4" using True by auto
    ultimately have "c ! (length c - NVRAM_SPACE + (j - length pre)) = le32 NVRAM_MAGIC ! (j - length pre)" by blast
    moreover have "length c - NVRAM_SPACE + (j - length pre) = P + j" using True P len by simp
    moreover have "commit_payload pre hdr data NVRAM_MAGIC ! j = le32 NVRAM_MAGIC ! (j - length pre)"
      using payload_magic [of "j - length pre" pre hdr data NVRAM_MAGIC] True by auto
    ultimately show ?thesis using j n len by simp
  next
    case False
    then have "c ! (P + j) = b ! (P + j)" using o j n by (auto simp: outside_def)
    then show ?thesis
      using False j n len b payload_nth [of pre hdr data NVRAM_MAGIC j NVRAM_INVALID_MAGIC] by auto
  qed
qed

context nor_mtd begin

lemma commit_write_law:
  assumes ok: "flash_ok (hd tr)" and fits: "commit_fits M" and pre: "length pre = unat (commit_erasesize M) - NVRAM_SPACE"
    and data: "length data = NVRAM_SPACE - NVRAM_HEADER_SIZE"
    and len: "NVRAM_HEADER_SIZE \<le> unat (nvh_len hdr)" "unat (nvh_len hdr) < NVRAM_SPACE"
    and er: "\<forall>i. unat (mtd_size M) - unat (commit_erasesize M) \<le> i \<and> i < unat (mtd_size M) - NVRAM_SPACE + unat (nvh_len hdr)
        \<longrightarrow> content (hd tr) ! i = 0xff"
    and c: "commit_write M pre hdr data tr = (tr', r)"
  defines "img \<equiv> take (unat (commit_erasesize M) - NVRAM_SPACE + unat (nvh_len hdr)) (commit_payload pre hdr data NVRAM_MAGIC)"
  defines "at \<equiv> (\<lambda>g. take (length img) (drop (unat (mtd_size M) - unat (commit_erasesize M)) (content g)))"
  shows "\<exists>new. tr' = new @ tr \<and> (\<forall>g\<in>set new. flash_ok g \<and> (magic_valid (content g) \<longrightarrow> at g = img) \<and>
       outside (content (hd tr)) (content g) (unat (mtd_size M) - unat (commit_erasesize M)) (unat (commit_erasesize M))) \<and>
    (r = 0 \<longrightarrow> new \<noteq> [] \<and> magic_valid (content (hd new)) \<and> at (hd new) = img)"
proof -
  let ?ez = "unat (commit_erasesize M)" and ?sz = "unat (mtd_size M)" and ?L = "unat (nvh_len hdr)"
  let ?i = "commit_erasesize M - of_nat NVRAM_SPACE" and ?offset = "mtd_size M - commit_erasesize M"
  let ?P = "?sz - ?ez" and ?k = "?ez - NVRAM_SPACE"
  note g = commit_geometry [OF fits]
  define n where "n = ?k + ?L"
  have n: "unat (?i + nvh_len hdr) = n"
    unfolding n_def using g len by (subst unat_add_le [of _ _ "mtd_size M"]) simp_all
  have nb: "n \<le> ?k + NVRAM_SPACE" "?k + 20 \<le> n" "n \<le> ?ez" "?P + n < ?sz" using len g by (simp_all add: n_def NVRAM_HEADER_SIZE_def)
  let ?pl = "commit_payload pre hdr data"
  have lp: "length (?pl m) = ?k + NVRAM_SPACE" for m
    using pre data by (simp add: length_payload NVRAM_SPACE_def NVRAM_HEADER_SIZE_def)
  let ?buf = "take n (?pl NVRAM_INVALID_MAGIC)"
  have lb: "length ?buf = n" using lp nb by simp
  have limg: "length img = n" using lp nb by (simp add: img_def n_def)
  have sz: "length (content (hd tr)) = ?sz" using size [OF ok] .
  obtain f1 ret1 len1 where w1: "mtd_write M (hd tr) ?offset ?buf = (f1, ret1, len1)" using prod_cases3 by blast
  have ne: "?buf \<noteq> []" using lb nb by auto
  note law1 = write_ok [OF ok w1 ne, unfolded g(3) lb]
  have ff: "content (hd tr) ! (?P + j) = 0xff" if "j < n" for j
  proof -
    have "?P \<le> ?P + j" "?P + j < ?sz - NVRAM_SPACE + ?L" using that g(1,2) by (simp_all add: n_def)
    then show ?thesis using er by blast
  qed
  have magic: "?pl NVRAM_INVALID_MAGIC ! (?k + i) = 0xff" "?P + (?k + i) = ?sz - NVRAM_SPACE + i" if "i < 4" for i
  proof -
    show "?pl NVRAM_INVALID_MAGIC ! (?k + i) = 0xff"
      using payload_magic [OF that, of pre hdr data NVRAM_INVALID_MAGIC] INVALID_nth [OF that] pre by simp
    show "?P + (?k + i) = ?sz - NVRAM_SPACE + i" using g(1,2) by simp
  qed
  have inv: "\<not> magic_valid (content f1)"
  proof -
    have k: "?k < n" "?P + ?k < ?sz" using nb g by (simp_all add: NVRAM_SPACE_def)
    then have "content f1 ! (?P + ?k) \<in> {content (hd tr) ! (?P + ?k), content (hd tr) ! (?P + ?k) AND ?buf ! ?k}"
      using law1 by blast
    then have "content f1 ! (?P + (?k + 0)) = 0xff" using ff [OF k(1)] magic(1) [of 0] k(1) by simp
    moreover have "length (content f1) = ?sz" using size law1 by simp
    ultimately show ?thesis
      using magic(2) [of 0] MAGIC_nth [of 0] g by (auto simp: magic_valid_nth intro!: exI [of _ 0])
  qed
  have o1: "outside (content (hd tr)) (content f1) ?P ?ez" using law1 nb by (auto elim: outside_weaken)
  show ?thesis
  proof (cases "ret1 \<noteq> 0 \<or> len1 \<noteq> n")
    case True
    then have "tr' = [f1] @ tr" "r = - EIO"
      using c w1 n by (simp_all add: commit_write_def commit_payload_def Let_def)
    then show ?thesis using law1 inv o1 by (intro exI [of _ "[f1]"]) (simp add: EIO_def)
  next
    case False
    have b1: "\<forall>j < n. content f1 ! (?P + j) = ?pl NVRAM_INVALID_MAGIC ! j"
      using law1 False ff nb(4) by (simp add: and_ff)
    obtain f2 ret2 len2 where w2: "mtd_write M f1 (?offset + ?i) (le32 NVRAM_MAGIC) = (f2, ret2, len2)" using prod_cases3 by blast
    have ne2: "le32 NVRAM_MAGIC \<noteq> []" by (simp add: le32_MAGIC)
    note law2 = write_ok [OF law1 [THEN conjunct1] w2 ne2, unfolded g(5) length_le32]
    have sz1: "length (content f1) = ?sz" using size law1 by simp
    have at2: "magic_valid (content f2) \<longrightarrow> at f2 = img"
    proof
      assume m: "magic_valid (content f2)"
      have "outside (content f1) (content f2) (?P + length pre) 4" using law2 pre g by simp
      moreover have "?P + length pre = length (content f1) - NVRAM_SPACE" "NVRAM_SPACE \<le> length (content f1)"
        using pre sz1 g by simp_all
      moreover have "length pre + 4 \<le> n" "?P + n \<le> length (content f1)" "n \<le> length (?pl NVRAM_MAGIC)"
        using pre sz1 lp [of NVRAM_MAGIC] nb by linarith+
      ultimately have "take n (drop ?P (content f2)) = take n (?pl NVRAM_MAGIC)"
        by (intro magic_completes [OF _ _ _ _ _ b1 _ m])
      then show "at f2 = img" unfolding at_def limg unfolding img_def n_def .
    qed
    have v2: "ret2 = 0 \<longrightarrow> magic_valid (content f2)"
    proof
      assume "ret2 = 0"
      then have "content f2 ! (?sz - NVRAM_SPACE + i) = content f1 ! (?sz - NVRAM_SPACE + i) AND le32 NVRAM_MAGIC ! i"
        if "i < 4" for i
      proof -
        have "?sz - NVRAM_SPACE + 4 < ?sz" using g(1,2) by (simp add: NVRAM_SPACE_def)
        then show ?thesis using law2 that \<open>ret2 = 0\<close> by blast
      qed
      moreover have "content f1 ! (?sz - NVRAM_SPACE + i) = 0xff" if "i < 4" for i
      proof -
        have "?k + i < n" using nb(2) that by linarith
        then have "content f1 ! (?P + (?k + i)) = ?pl NVRAM_INVALID_MAGIC ! (?k + i)" using b1 by blast
        then show ?thesis unfolding magic [OF that] .
      qed
      ultimately show "magic_valid (content f2)"
        using size law2 g by (simp add: magic_valid_nth and_ff)
    qed
    have o2: "outside (content (hd tr)) (content f2) ?P ?ez"
      by (rule outside_trans [OF o1 law2 [THEN conjunct2, THEN conjunct1]]) (use g in \<open>auto simp: NVRAM_SPACE_def\<close>)
    obtain f3 r3 l3 b3 where r3: "mtd_read M f2 ?offset 4 = (f3, r3, l3, b3)" using prod_cases4 by blast
    note law3 = read_ok [OF law2 [THEN conjunct1] r3]
    show ?thesis
    proof (cases "ret2 \<noteq> 0 \<or> len2 \<noteq> 4")
      case True
      then have "tr' = [f2, f1] @ tr" "r = - EIO"
        using c w1 w2 n False by (simp_all add: commit_write_def commit_payload_def Let_def)
      then show ?thesis using law1 law2 inv o1 o2 at2 by (intro exI [of _ "[f2, f1]"]) (simp add: EIO_def)
    next
      case ok2: False
      then have "tr' = [f3, f2, f1] @ tr" "r = r3"
        using c w1 w2 r3 n False by (simp_all add: commit_write_def commit_payload_def Let_def)
      then show ?thesis using law1 law2 law3 inv o1 o2 at2 v2 ok2
        by (intro exI [of _ "[f3, f2, f1]"]) (simp add: at_def)
    qed
  qed
qed

end

end
