(* ===== verification/Nvram_Commit.thy ===== *)
theory Nvram_Commit
  imports Nvram_Flash_Laws
begin

text \<open>
  The whole commit: the device always holds the old image, no valid image, or the complete new
  one, and what a successful commit wrote is read back at start-up.
\<close>

section \<open>The commit\<close>

text \<open>The device holds the image \<open>hdr\<close>, \<open>data\<close>, up to the length in the header.\<close>

definition holds_image :: "bytes \<Rightarrow> nvram_header \<Rightarrow> bytes \<Rightarrow> bool" where
  "holds_image b hdr data \<longleftrightarrow>
     take (unat (nvh_len hdr)) (image_at b) = take (unat (nvh_len hdr)) (header_bytes hdr @ data)"

lemma erased_magic:
  assumes l: "NVRAM_SPACE \<le> length a" and e: "erased a b p"
    and z: "\<forall>i < 4. a ! (length a - NVRAM_SPACE + i) = 0"
  shows "\<not> magic_valid b"
proof -
  let ?p = "length a - NVRAM_SPACE"
  have p: "?p < length a" using l by (simp add: NVRAM_SPACE_def)
  have "a ! ?p = 0" using z by (auto dest: spec [of _ 0])
  moreover have "b ! ?p = a ! ?p \<or> b ! ?p = 0xff" using e p unfolding erased_def by blast
  ultimately have "b ! ?p \<noteq> le32 NVRAM_MAGIC ! 0" using MAGIC_nth [of 0] by auto
  then show ?thesis using l e by (auto simp: magic_valid_nth erased_def intro!: exI [of _ 0])
qed

lemma erased_outside: "erased a b p \<Longrightarrow> p + n = length a \<Longrightarrow> outside a b p n"
  by (auto simp: erased_def outside_def)

lemma holds_imageI:
  assumes at: "take (k + unat (nvh_len hdr)) (drop P b) = take (k + unat (nvh_len hdr)) (commit_payload pre hdr data NVRAM_MAGIC)"
    and pre: "length pre = k" "P + k = length b - NVRAM_SPACE" and m: "nvh_magic hdr = NVRAM_MAGIC"
  shows "holds_image b hdr data" "take k (drop P b) = pre"
proof -
  have h: "hdr\<lparr>nvh_magic := NVRAM_MAGIC\<rparr> = hdr" using m by (cases hdr) simp
  have "drop k (take (k + unat (nvh_len hdr)) (drop P b)) = drop k (take (k + unat (nvh_len hdr)) (commit_payload pre hdr data NVRAM_MAGIC))"
    using at by simp
  then show "holds_image b hdr data"
    using pre h by (simp add: drop_take holds_image_def image_at_def commit_payload_def add.commute)
  have "take k (take (k + unat (nvh_len hdr)) (drop P b)) = take k (take (k + unat (nvh_len hdr)) (commit_payload pre hdr data NVRAM_MAGIC))"
    using at by simp
  then show "take k (drop P b) = pre" using pre by (simp add: commit_payload_def min_def)
qed

context nor_mtd begin

text \<open>The states of the commit from the old content \<open>b0\<close> and for a new image.\<close>

definition commit_state :: "bytes \<Rightarrow> nvram_header \<Rightarrow> bytes \<Rightarrow> 'f \<Rightarrow> bool" where
  "commit_state b0 hdr data g \<longleftrightarrow> flash_ok g \<and>
     outside b0 (content g) (unat (mtd_size M) - unat (commit_erasesize M)) (unat (commit_erasesize M)) \<and>
     (content g = b0 \<or> \<not> magic_valid (content g) \<or> holds_image (content g) hdr data)"

lemma nvram_commit_law:
  assumes ok: "nv_ok linux_inv linux_live st" "linux_ready (nv_heap st)" and names: "\<forall>n\<in>dom (nv_vals linux_port st). name_ok n"
    and f: "flash_ok f" and fits: "commit_fits M" and img: "commit_image linux_port st = Some (hdr, data)"
    and brim: "unat (nvh_len hdr) < NVRAM_SPACE"
  shows "\<exists>st' tr r. nvram_commit (Some M) irq mem st f = Some (st', tr, r) \<and> tr \<noteq> [] \<and>
    nv_ok linux_inv linux_live st' \<and> linux_ready (nv_heap st') \<and> (\<forall>g\<in>set tr. commit_state (content f) hdr data g) \<and>
    (r = 0 \<longrightarrow> nv_commit linux_port st = Some (st', (hdr, data), 0) \<and> magic_valid (content (hd tr)) \<and>
       holds_image (content (hd tr)) hdr data \<and>
       take (unat (mtd_size M) - NVRAM_SPACE) (content (hd tr)) = take (unat (mtd_size M) - NVRAM_SPACE) (content f))"
proof -
  let ?ez = "unat (commit_erasesize M)" and ?sz = "unat (mtd_size M)" and ?L = "unat (nvh_len hdr)"
  let ?limit = "mtd_size M - of_nat NVRAM_SPACE + nvh_len hdr" and ?P = "mtd_size M - commit_erasesize M"
  note geo = commit_geometry [OF fits]
  have data: "length data = NVRAM_SPACE - NVRAM_HEADER_SIZE" "nvh_magic hdr = NVRAM_MAGIC" "?L \<le> NVRAM_SPACE" "NVRAM_HEADER_SIZE \<le> ?L"
    using commit_image_Some [of linux_port st] img by auto
  have sz: "length (content g) = ?sz" if "flash_ok g" for g using size that by simp
  obtain st' where nc: "nv_commit linux_port st = Some (st', (hdr, data), 0)" "nv_ok linux_inv linux_live st'" "linux_ready (nv_heap st')"
    using linux_nv.commit_law [OF ok names] img by auto
  obtain ret pre tr where c: "commit_clear M f = (ret, pre, tr)" using prod_cases3 by blast
  note cl = commit_clear_law [OF f fits c]
  have s0: "\<forall>g\<in>set tr. commit_state (content f) hdr data g"
    using cl geo by (auto simp: commit_state_def NVRAM_SPACE_def elim!: outside_weaken)
  have ne: "tr \<noteq> []" using cl by simp
  have f0: "commit_state (content f) hdr data f" using f by (simp add: commit_state_def)
  have res: "nvram_commit (Some M) irq mem st f = (if irq then Some (st, [f], - EINVAL) else if \<not> mem then Some (st, [f], - ENOMEM)
      else if ret \<noteq> 0 then Some (st, tr, ret)
      else (case erase_loop M ?limit ?P tr of None \<Rightarrow> None
        | Some (tr', ret) \<Rightarrow> if ret \<noteq> 0 then Some (st', tr', ret)
            else let (tr2, ret2) = commit_write M pre hdr data tr' in Some (st', tr2, ret2)))"
    using geometry(1) c nc(1) by (simp add: nvram_commit_def)
  show ?thesis
  proof (cases "irq \<or> \<not> mem \<or> ret \<noteq> 0")
    case True
    then show ?thesis using res ok f0 s0 ne by (auto simp: EINVAL_def ENOMEM_def)
  next
    case False
    have hd: "flash_ok (hd tr)" "hd tr \<in> set tr" using cl by auto
    have lim: "unat ?limit = ?sz - NVRAM_SPACE + ?L"
      using geo data by (subst unat_add_le [of _ _ "mtd_size M"]) simp_all
    then have "?limit \<le> mtd_size M" using geo data by (simp add: word_le_nat_alt)
    then obtain new r where el: "erase_loop M ?limit ?P tr = Some (new @ tr, r)"
      "\<forall>g\<in>set new. flash_ok g \<and> erased (content (hd tr)) (content g) (?sz - ?ez)"
      "r = 0 \<longrightarrow> (\<forall>i. ?sz - ?ez \<le> i \<and> i < ?sz - NVRAM_SPACE + ?L \<longrightarrow> content (hd (new @ tr)) ! i = 0xff)"
      using erase_loop_law [of tr ?P ?limit] hd(1) geo lim by auto
    have s1: "commit_state (content f) hdr data g" if "g \<in> set new" for g
    proof -
      have e: "erased (content (hd tr)) (content g) (?sz - ?ez)" "flash_ok g" using el(2) that by auto
      have "\<not> magic_valid (content g)"
        using erased_magic [OF _ e(1)] cl False sz [OF hd(1)] geo by simp
      moreover have "outside (content (hd tr)) (content g) (?sz - ?ez) ?ez"
        by (rule erased_outside [OF e(1)]) (use sz [OF hd(1)] geo in simp)
      then have "outside (content f) (content g) (?sz - ?ez) ?ez"
        using s0 hd(2) by (auto simp: commit_state_def intro: outside_trans)
      ultimately show ?thesis using e(2) by (simp add: commit_state_def)
    qed
    show ?thesis
    proof (cases "r = 0")
      case r: False
      then show ?thesis using res False el(1) s0 s1 nc ne by auto
    next
      case True
      let ?tr = "new @ tr"
      have h: "commit_state (content f) hdr data (hd ?tr)" using s0 s1 hd(2) by (cases new) auto
      obtain tr2 r2 where w: "commit_write M pre hdr data ?tr = (tr2, r2)" by force
      have pre: "length pre = ?ez - NVRAM_SPACE" using cl False by blast
      have ok1: "flash_ok (hd ?tr)" using h by (simp add: commit_state_def)
      have er: "\<forall>i. ?sz - ?ez \<le> i \<and> i < ?sz - NVRAM_SPACE + ?L \<longrightarrow> content (hd ?tr) ! i = 0xff" using el(3) True by blast
      note wl = commit_write_law [OF ok1 fits pre data(1,4) brim er w]
      let ?k = "?ez - NVRAM_SPACE" and ?pl = "commit_payload pre hdr data NVRAM_MAGIC"
      have pl: "length (take (?k + ?L) ?pl) = ?k + ?L" using pre data by (simp add: length_payload)
      from wl [unfolded pl] obtain new2 where n2: "tr2 = new2 @ ?tr"
        "\<forall>g\<in>set new2. flash_ok g \<and> (magic_valid (content g) \<longrightarrow>
            take (?k + ?L) (drop (?sz - ?ez) (content g)) = take (?k + ?L) ?pl) \<and>
          outside (content (hd ?tr)) (content g) (?sz - ?ez) ?ez"
        "r2 = 0 \<longrightarrow> new2 \<noteq> [] \<and> magic_valid (content (hd new2)) \<and>
            take (?k + ?L) (drop (?sz - ?ez) (content (hd new2))) = take (?k + ?L) ?pl" by auto
      have hold: "holds_image (content g) hdr data" "take ?k (drop (?sz - ?ez) (content g)) = pre"
        if "take (?k + ?L) (drop (?sz - ?ez) (content g)) = take (?k + ?L) ?pl" "flash_ok g" for g
        using holds_imageI [where k = ?k and P = "?sz - ?ez" and b = "content g" and pre = pre, OF that(1) pre _ data(2)] sz [OF that(2)] geo by simp_all
      have s2: "commit_state (content f) hdr data g" if "g \<in> set new2" for g
        using n2(2) that hold(1) h by (auto simp: commit_state_def intro: outside_trans)
      have keep: "take (?sz - NVRAM_SPACE) (content g) = take (?sz - NVRAM_SPACE) (content f)"
        if "commit_state (content f) hdr data g" "take ?k (drop (?sz - ?ez) (content g)) = pre" for g
      proof -
        have "take (?sz - ?ez) (content g) = take (?sz - ?ez) (content f)"
          using that(1) by (auto simp: commit_state_def outside_def intro!: nth_equalityI)
        moreover have "pre = take ?k (drop (?sz - ?ez) (content f))" using cl False by blast
        moreover have "?sz - NVRAM_SPACE = (?sz - ?ez) + ?k" using geo by simp
        ultimately show ?thesis using that(2) by (simp only: take_add)
      qed
      have "nvram_commit (Some M) irq mem st f = Some (st', tr2, r2)" using res False el(1) True w by simp
      moreover have "r2 = 0 \<longrightarrow> magic_valid (content (hd tr2)) \<and> holds_image (content (hd tr2)) hdr data \<and>
          take (?sz - NVRAM_SPACE) (content (hd tr2)) = take (?sz - NVRAM_SPACE) (content f)"
        using n2 hold keep s2 by (cases new2) auto
      ultimately show ?thesis using n2(1) s0 s1 s2 nc ne by auto
    qed
  qed
qed

end

section \<open>A device that does not fail\<close>

context live_mtd begin

lemma erase_loop_live:
  assumes "flash_ok (hd tr)" "unat (mtd_erasesize M) dvd unat p" "limit \<le> mtd_size M"
    "erase_loop M limit p tr = Some (tr', r)"
  shows "r = 0"
  using assms
proof (induction "unat (mtd_size M) - unat p" arbitrary: p tr rule: less_induct)
  case less
  show ?case
  proof (cases "p < limit")
    case False
    then show ?thesis using less.prems(4) by (simp add: erase_loop.simps)
  next
    case True
    define f where "f = unlock M (hd tr) p"
    obtain f' r' where e: "mtd_erase M f p (mtd_erasesize M) = (f', r')" by force
    have lt: "unat p < unat (mtd_size M)"
      using True less.prems(3) by (simp add: word_less_nat_alt word_le_nat_alt)
    note s = erase_step [OF less.prems(1,2) lt f_def e]
    have "r' = 0" using erase_live [OF s(1) less.prems(2) lt e] .
    then have rec: "erase_loop M limit (p + mtd_erasesize M) (f' # f # tr) = Some (tr', r)"
      using less.prems(4) True e by (simp add: erase_loop.simps [of M limit p tr] f_def Let_def)
    have "unat (mtd_size M) - unat (p + mtd_erasesize M) < unat (mtd_size M) - unat p"
      using s(5) lt geometry(1) unat_gt_0 [of "mtd_erasesize M"] by linarith
    then show ?thesis
      by (rule less.hyps [OF _ _ _ less.prems(3) rec]) (use s(3,5) less.prems(2) in simp_all)
  qed
qed

lemma commit_clear_live:
  assumes ok: "flash_ok f" and fits: "commit_fits M" and c: "commit_clear M f = (ret, pre, tr)"
  shows "ret = 0"
proof -
  let ?i = "commit_erasesize M - of_nat NVRAM_SPACE" and ?offset = "mtd_size M - commit_erasesize M"
  note g = commit_geometry [OF fits]
  obtain f1 r1 l1 p1 where m: "mtd_read M f ?offset (unat ?i) = (f1, r1, l1, p1)" using prod_cases4 by blast
  have rd: "flash_ok f1 \<and> (0 < unat ?i \<longrightarrow> r1 = 0 \<and> l1 = unat ?i)"
    using read_ok [OF ok m] read_live [OF ok _ _ m] g by auto
  have w: "fst (snd (mtd_write M (unlock M h ?offset) (?offset + ?i) (le32 NVRAM_CLEAR_MAGIC))) = 0 \<and>
      snd (snd (mtd_write M (unlock M h ?offset) (?offset + ?i) (le32 NVRAM_CLEAR_MAGIC))) = 4" if "flash_ok h" for h
  proof -
    obtain f3 r3 l3 where w: "mtd_write M (unlock M h ?offset) (?offset + ?i) (le32 NVRAM_CLEAR_MAGIC) = (f3, r3, l3)"
      using prod_cases3 by blast
    have ne: "le32 NVRAM_CLEAR_MAGIC \<noteq> []" by (simp add: le32_CLEAR)
    note u = unlock_law(1) [OF that, of ?offset]
    have "unat (?offset + ?i) + length (le32 NVRAM_CLEAR_MAGIC) \<le> unat (mtd_size M)"
      using g by (simp add: NVRAM_SPACE_def)
    then have "r3 = 0" using write_live [OF u ne _ w] by simp
    then show ?thesis using write_ok [OF u w ne] w by simp
  qed
  show ?thesis
  proof (cases "0 < ?i")
    case True
    then have "0 < unat ?i" by (simp add: unat_gt_0 word_greater_zero_iff)
    then show ?thesis using c m rd w [of f1] True by (auto simp: commit_clear_def Let_def split: prod.splits)
  next
    case False
    then show ?thesis using c w [OF ok] by (auto simp: commit_clear_def Let_def split: prod.splits)
  qed
qed

lemma commit_write_live:
  assumes ok: "flash_ok (hd tr)" and fits: "commit_fits M" and pre: "length pre = unat (commit_erasesize M) - NVRAM_SPACE"
    and data: "length data = NVRAM_SPACE - NVRAM_HEADER_SIZE"
    and len: "NVRAM_HEADER_SIZE \<le> unat (nvh_len hdr)" "unat (nvh_len hdr) \<le> NVRAM_SPACE"
    and c: "commit_write M pre hdr data tr = (tr', r)"
  shows "r = 0"
proof -
  let ?i = "commit_erasesize M - of_nat NVRAM_SPACE" and ?offset = "mtd_size M - commit_erasesize M"
  note g = commit_geometry [OF fits]
  define n where "n = unat (?i + nvh_len hdr)"
  have n: "n = unat (commit_erasesize M) - NVRAM_SPACE + unat (nvh_len hdr)"
    unfolding n_def using g len by (subst unat_add_le [of _ _ "mtd_size M"]) simp_all
  let ?buf = "take n (pre @ header_bytes (hdr\<lparr>nvh_magic := NVRAM_INVALID_MAGIC\<rparr>) @ data)"
  have lb: "length ?buf = n" "0 < n" "unat ?offset + n \<le> unat (mtd_size M)"
    using pre data len g n by (simp_all add: length_header_bytes NVRAM_SPACE_def NVRAM_HEADER_SIZE_def)
  obtain f1 r1 l1 where w1: "mtd_write M (hd tr) ?offset ?buf = (f1, r1, l1)" using prod_cases3 by blast
  have ne1: "?buf \<noteq> []" using lb by auto
  have r1: "r1 = 0" using write_live [OF ok ne1 _ w1] lb by simp
  note o1 = write_ok [OF ok w1 ne1, unfolded lb(1)]
  obtain f2 r2 l2 where w2: "mtd_write M f1 (?offset + ?i) (le32 NVRAM_MAGIC) = (f2, r2, l2)" using prod_cases3 by blast
  have ne2: "le32 NVRAM_MAGIC \<noteq> []" by (simp add: le32_MAGIC)
  have r2: "r2 = 0" using write_live [OF o1 [THEN conjunct1] ne2 _ w2] g by (simp add: NVRAM_SPACE_def)
  note o2 = write_ok [OF o1 [THEN conjunct1] w2 ne2]
  obtain f3 r3 l3 b3 where rd: "mtd_read M f2 ?offset 4 = (f3, r3, l3, b3)" using prod_cases4 by blast
  have "r3 = 0" by (rule read_live [OF o2 [THEN conjunct1] _ _ rd]) (use g in \<open>simp_all add: NVRAM_SPACE_def\<close>)
  moreover have "commit_write M pre hdr data tr = (f3 # f2 # f1 # tr, r3)"
    using w1 w2 rd r1 r2 o1 o2 by (simp add: commit_write_def Let_def flip: n_def)
  ultimately show ?thesis using c by simp
qed

text \<open>On such a device a commit succeeds.\<close>

lemma nvram_commit_live:
  assumes ok: "nv_ok linux_inv linux_live st" "linux_ready (nv_heap st)" and names: "\<forall>n\<in>dom (nv_vals linux_port st). name_ok n"
    and f: "flash_ok f" and fits: "commit_fits M"
  shows "\<exists>st' tr. nvram_commit (Some M) False True st f = Some (st', tr, 0)"
proof -
  let ?ez = "unat (commit_erasesize M)" and ?sz = "unat (mtd_size M)"
  note geo = commit_geometry [OF fits]
  obtain st' hdr data where nc: "nv_commit linux_port st = Some (st', (hdr, data), 0)" "commit_image linux_port st = Some (hdr, data)"
    using linux_nv.commit_law [OF ok names] by auto
  have data: "length data = NVRAM_SPACE - NVRAM_HEADER_SIZE" "unat (nvh_len hdr) \<le> NVRAM_SPACE" "NVRAM_HEADER_SIZE \<le> unat (nvh_len hdr)"
    using commit_image_Some [of linux_port st] nc(2) by auto
  obtain ret pre tr where c: "commit_clear M f = (ret, pre, tr)" using prod_cases3 by blast
  note cl = commit_clear_law [OF f fits c]
  have ret: "ret = 0" by (rule commit_clear_live [OF f fits c])
  have hd: "flash_ok (hd tr)" using cl by auto
  let ?limit = "mtd_size M - of_nat NVRAM_SPACE + nvh_len hdr" and ?P = "mtd_size M - commit_erasesize M"
  have "unat ?limit = ?sz - NVRAM_SPACE + unat (nvh_len hdr)"
    using geo data by (subst unat_add_le [of _ _ "mtd_size M"]) simp_all
  then have lim: "?limit \<le> mtd_size M" using geo data by (simp add: word_le_nat_alt)
  have dvd: "unat (mtd_erasesize M) dvd unat ?P" using geo by simp
  obtain new r where el: "erase_loop M ?limit ?P tr = Some (new @ tr, r)" "\<forall>g\<in>set new. flash_ok g"
    using erase_loop_law [OF hd dvd lim] by auto
  have r: "r = 0" by (rule erase_loop_live [OF hd dvd lim el(1)])
  have hd2: "flash_ok (hd (new @ tr))" using el(2) hd by (cases new) auto
  obtain tr2 r2 where w: "commit_write M pre hdr data (new @ tr) = (tr2, r2)" by force
  have "length pre = ?ez - NVRAM_SPACE" using cl ret by blast
  from commit_write_live [OF hd2 fits this data(1,3,2) w] have "r2 = 0" .
  then show ?thesis using geometry(1) c nc(1) ret el(1) r w by (simp add: nvram_commit_def)
qed

end

section \<open>Reading back\<close>

lemma un_le32_le32: "un_le32 (le32 w @ r) = w"
proof (rule bit_word_eqI)
  fix n assume "n < LENGTH(32)"
  then have "n < 8 \<or> 8 \<le> n \<and> n < 16 \<or> 16 \<le> n \<and> n < 24 \<or> 24 \<le> n \<and> n < 32" by auto
  then show "bit (un_le32 (le32 w @ r)) n = bit w n"
    by (auto simp: un_le32_def le32_def bit_simps)
qed

lemma read_header_bytes: "read_header (header_bytes h @ r) = Some h"
  using un_le32_le32
  by (simp add: read_header_def header_bytes_def NVRAM_HEADER_SIZE_def)

text \<open>\<open>_nvram_init\<close> of the Linux port: what \<open>_nvram_read\<close> delivers goes into the table.\<close>

definition linux_nvram_init :: "'f mtd option \<Rightarrow> bool \<Rightarrow> linux_heap nvram \<Rightarrow> 'f \<Rightarrow> (linux_heap nvram \<times> 'f \<times> int) option" where
  "linux_nvram_init mtd mem st f =
     (let (f', b, r) = nvram_read mtd f (nvram_buf (nv_heap st)) in
      case read_header b of None \<Rightarrow> None
      | Some h \<Rightarrow> map_option (\<lambda>(st', r'). (st', f', r')) (nv_init linux_port st mem r h (drop NVRAM_HEADER_SIZE b)))"

lemma image_prefix_area:
  assumes d: "take m d = take m (out @ replicate k 0)" and m: "length out + 2 \<le> m" "length out + 2 \<le> length out + k"
    and out: "length out \<le> AREA"
  shows "\<exists>z. image_area d = out @ 0 # z"
proof -
  have "take (length out + 2) (take m d) = take (length out + 2) (take m (out @ replicate k 0))" using d by simp
  moreover obtain e where "m = length out + 2 + e" using m(1) le_Suc_ex by blast
  moreover obtain e' where "k = 2 + e'" using m(2) le_Suc_ex by (metis add_le_cancel_left)
  ultimately have "take (length out + 2) d = out @ [0, 0]" by (simp add: numeral_2_eq_2)
  then obtain r where d': "d = out @ [0, 0] @ r" by (metis append_take_drop_id append_assoc)
  show ?thesis
  proof (cases "length out = AREA")
    case True
    then show ?thesis using d' by (simp add: image_area_def AREA_def)
  next
    case False
    then obtain k where "AREA - length out = Suc k" using out by (metis diff_is_0_eq not0_implies_Suc le_antisym)
    then show ?thesis using d' by (simp add: image_area_def AREA_def)
  qed
qed

lemma holds_image_parts:
  assumes h: "holds_image b hdr data" and L: "NVRAM_HEADER_SIZE \<le> unat (nvh_len hdr)"
  shows "read_header (image_at b) = Some hdr"
    "take (unat (nvh_len hdr) - NVRAM_HEADER_SIZE) (drop NVRAM_HEADER_SIZE (image_at b)) =
     take (unat (nvh_len hdr) - NVRAM_HEADER_SIZE) data"
proof -
  let ?L = "unat (nvh_len hdr)"
  have "take NVRAM_HEADER_SIZE (take ?L (image_at b)) = take NVRAM_HEADER_SIZE (take ?L (header_bytes hdr @ data))"
    using h by (simp add: holds_image_def)
  then have "take NVRAM_HEADER_SIZE (image_at b) = header_bytes hdr"
    using L by (simp add: min_def length_header_bytes)
  then have "image_at b = header_bytes hdr @ drop NVRAM_HEADER_SIZE (image_at b)" by (metis append_take_drop_id)
  then show "read_header (image_at b) = Some hdr" by (metis read_header_bytes)
  have "drop NVRAM_HEADER_SIZE (take ?L (image_at b)) = drop NVRAM_HEADER_SIZE (take ?L (header_bytes hdr @ data))"
    using h by (simp add: holds_image_def)
  then show "take (?L - NVRAM_HEADER_SIZE) (drop NVRAM_HEADER_SIZE (image_at b)) = take (?L - NVRAM_HEADER_SIZE) data"
    using L by (simp add: drop_take length_header_bytes min_def)
qed

text \<open>
  What a reader finds in a block that starts with a committed image, whichever port committed it: the variables
  the commit kept.
\<close>

context nvram_space begin

lemma image_written:
  assumes ok: "nv_ok hinv live st" "ready (nv_heap st)" and names: "\<forall>n\<in>dom (nv_vals P st). name_ok n"
    and c: "nv_commit P st = Some (st', (hdr, data), 0)"
    and d: "take (unat (nvh_len hdr) - NVRAM_HEADER_SIZE) d = take (unat (nvh_len hdr) - NVRAM_HEADER_SIZE) data"
  shows "\<exists>kvs. image_vars (image_area d) = Some kvs \<and> nvh_magic hdr = NVRAM_MAGIC \<and>
    (\<forall>n. n \<notin> sdram_names \<longrightarrow> nv_vals P st' n = map_of (rev kvs) n) \<and>
    (length (nv_bytes P (nv_heap st) (nvram_tuples st)) \<le> AREA \<longrightarrow> nv_vals P st = map_of (rev kvs))"
proof -
  have img: "commit_image P st = Some (hdr, data)"
    using c by (auto simp: nv_commit_def split: option.splits)
  obtain us where us: "commit_table P st = nv_bytes P (nv_heap st) us"
    "\<And>z. image_vars (nv_bytes P (nv_heap st) us @ 0 # z) = Some (map (nv_var P (nv_heap st)) us)"
    "length (nv_bytes P (nv_heap st) (nvram_tuples st)) \<le> AREA \<longrightarrow> us = nvram_tuples st"
    "subseq us (nvram_tuples st)"
    "\<forall>n. n \<notin> sdram_names \<longrightarrow> nv_vals P st' n = map_of (map (nv_var P (nv_heap st)) us) n"
    using commit_law [OF ok names] c by (auto simp: Let_def)
  let ?out = "nv_bytes P (nv_heap st) us" and ?L = "unat (nvh_len hdr)"
  have h: "data = ?out @ replicate (NVRAM_SPACE - NVRAM_HEADER_SIZE - length ?out) 0" "nvh_magic hdr = NVRAM_MAGIC"
    "NVRAM_HEADER_SIZE + length ?out + 2 \<le> ?L" "?L \<le> NVRAM_SPACE"
    using commit_image_Some [of P st] img us(1) by auto
  have "\<exists>z. image_area d = ?out @ 0 # z"
    using h(2-4) by (intro image_prefix_area [OF d [unfolded h(1)]]) (auto simp: AREA_def)
  then have kvs: "image_vars (image_area d) = Some (map (nv_var P (nv_heap st)) us)" using us(2) by auto
  note wf = nv_okD(1) [OF ok(1)]
  have v: "us = nvram_tuples st \<longrightarrow> nv_vals P st = map_of (map (nv_var P (nv_heap st)) us)"
    using vals_map_of [OF wf] by simp
  show ?thesis
    by (rule exI [of _ "map (nv_var P (nv_heap st)) us"], unfold vars_rev [OF wf us(4)]) (use kvs h(2) us(3,5) v in blast)
qed

end

text \<open>A store set up from an image that was committed has the committed variables.\<close>

lemma readback_law:
  assumes ok: "nv_ok linux_inv linux_live st" "linux_ready (nv_heap st)" and names: "\<forall>n\<in>dom (nv_vals linux_port st). name_ok n"
    and c: "nv_commit linux_port st = Some (st', (hdr, data), 0)" and b: "holds_image b hdr data"
    and h0: "linux_inv (nv_heap st0)" "linux_ready (nv_heap st0)"
  shows "\<exists>st2. nv_init linux_port st0 True 0 hdr (drop NVRAM_HEADER_SIZE (image_at b)) = Some (st2, 0) \<and>
    nv_ok linux_inv linux_live st2 \<and>
    (\<forall>n. n \<notin> sdram_names \<longrightarrow> nv_vals linux_port st2 n = nv_vals linux_port st' n) \<and>
    (length (nv_bytes linux_port (nv_heap st) (nvram_tuples st)) \<le> AREA \<longrightarrow> nv_vals linux_port st \<subseteq>\<^sub>m nv_vals linux_port st2)"
proof -
  have "commit_image linux_port st = Some (hdr, data)" using c by (auto simp: nv_commit_def split: option.splits)
  then have L: "NVRAM_HEADER_SIZE \<le> unat (nvh_len hdr)" using commit_image_Some [of linux_port st] by auto
  let ?d = "drop NVRAM_HEADER_SIZE (image_at b)"
  obtain kvs where k: "image_vars (image_area ?d) = Some kvs" "nvh_magic hdr = NVRAM_MAGIC"
    "\<forall>n. n \<notin> sdram_names \<longrightarrow> nv_vals linux_port st' n = map_of (rev kvs) n"
    "length (nv_bytes linux_port (nv_heap st) (nvram_tuples st)) \<le> AREA \<longrightarrow> nv_vals linux_port st = map_of (rev kvs)"
    using linux_nv.image_written [OF ok names c holds_image_parts(2) [OF b L]] by blast
  from linux_nv.rehash_law [OF h0 k(1), of hdr] k(2-4) show ?thesis by (fastforce simp: nv_init_def)
qed

end
