(* ===== verification/Nvram_Early.thy ===== *)
theory Nvram_Early
  imports Nvram_Commit
begin

text \<open>
  Early access to the variables against the table; the memory parameters in the header through a
  read and a commit; the retry of \<open>nvram_set\<close>; requests of the character device.
\<close>

section \<open>Early access\<close>

lemma early_walk_vars: "image_vars m = Some kvs \<Longrightarrow> early_walk name m = Some (map_of kvs name)"
proof (induction name m arbitrary: kvs rule: early_walk.induct)
  case (1 name m)
  let ?s = "takeWhile (\<lambda>c. c \<noteq> 0) m" and ?n = "takeWhile (\<lambda>c. c \<noteq> 61) (takeWhile (\<lambda>c. c \<noteq> 0) m)"
  have t: "length ?n = length name \<and> take (length ?n) ?s = name \<longleftrightarrow> ?n = name"
    by (auto simp flip: takeWhile_eq_take)
  show ?case
  proof (cases "0 \<notin> set m \<or> ?s = [] \<or> 61 \<notin> set ?s")
    case True
    then show ?thesis using "1.prems"
      by (subst early_walk.simps, subst (asm) image_vars.simps) (auto simp: Let_def split: if_splits)
  next
    case False
    then obtain r where r: "image_vars (drop (Suc (length ?s)) m) = Some r"
      "kvs = (?n, drop (Suc (length ?n)) ?s) # r"
      using "1.prems" by (subst (asm) image_vars.simps) (auto simp: Let_def)
    show ?thesis
    proof (cases "?n = name")
      case True
      then show ?thesis using False t r(2) by (subst early_walk.simps) (simp add: Let_def)
    next
      case ne: False
      have "early_walk name (drop (Suc (length ?s)) m) = Some (map_of r name)"
        by (rule "1.IH" [OF _ refl _ _ refl _ r(1)]) (use False ne t in auto)
      then show ?thesis using False ne t r(2) by (subst early_walk.simps) (auto simp: Let_def)
    qed
  qed
qed

text \<open>The buffer holds an image when its first \<open>NVRAM_SPACE - 2\<close> bytes are its.\<close>

lemma early_get_image:
  assumes "length buf = NVRAM_SPACE" "buf ! 0 \<noteq> 0" "image_vars (image_area (drop NVRAM_HEADER_SIZE buf)) = Some kvs"
  shows "early_nvram_get True c fl buf (Some n) = Some (close_buf buf, map_of kvs n)"
proof -
  have "drop NVRAM_HEADER_SIZE (close_buf buf) = image_area (drop NVRAM_HEADER_SIZE buf)"
    using assms(1) by (simp add: close_buf_def image_area_def NVRAM_SPACE_def NVRAM_HEADER_SIZE_def drop_take)
  then show ?thesis using assms early_walk_vars by (simp add: early_nvram_get_def early_load_def)
qed

text \<open>What the search of the flash finds has the magic and a matching checksum.\<close>

lemma early_scan_valid: "early_scan fl lim off = Some (Some p) \<Longrightarrow> header_valid fl p = Some True"
  by (induction fl lim off rule: early_scan.induct)
    (subst (asm) (2) early_scan.simps, auto split: if_splits option.splits bool.splits)

lemma early_find_valid: "early_find fl lim = Some (Some p) \<Longrightarrow> header_valid fl p = Some True"
  by (auto simp: early_find_def early_scan_valid split: option.splits bool.splits if_splits)

section \<open>The memory parameters\<close>

lemma strtoul_hex16: "fst (bcm_strtoul (fmt_hex 4 (unat (w :: u32))) 0) = w" if "unat w < 2 ^ 16"
  using strtoul_hex [of "unat w" 4 "[]"] that unat_lt32 [of w] by (simp add: ends_digits_def)

lemma length_hex_digits: "length (hex_digits k n) = k"
  by (induction k n rule: hex_digits.induct) auto

lemma length_fmt_hex: "length (fmt_hex k n) = k + 2"
  by (simp add: fmt_hex_def length_hex_digits)

lemma mask16: "0xffff = (mask 16 :: u32)"
  by (simp add: mask_eq_exp_minus_1)

lemma low16: "unat (w AND 0xffff :: u32) < 2 ^ 16"
proof -
  have "w AND 0xffff = take_bit 16 w" by (simp only: mask16 take_bit_eq_mask)
  moreover have "unat (take_bit 16 w) = take_bit 16 (unat w)" by (simp add: unsigned_take_bit_eq)
  ultimately show ?thesis using take_bit_nat_less_exp [of 16 "unat w"] by simp
qed

lemma high16: "drop_bit 16 (w :: u32) AND 0xffff = drop_bit 16 w"
  unfolding mask16 by (rule bit_word_eqI) (auto simp: bit_simps dest: bit_imp_le_length)

lemma halves: "w AND 0xffff OR push_bit 16 (drop_bit 16 w) = (w :: u32)"
proof (unfold mask16, rule bit_word_eqI)
  fix n assume "n < LENGTH(32)"
  then show "bit (w AND mask 16 OR push_bit 16 (drop_bit 16 w)) n = bit w n"
    by (cases "n < 16") (auto simp: bit_simps)
qed

lemma low16_twice: "(w AND 0xffff) AND 0xffff = (w AND 0xffff :: u32)"
  by (simp add: and.assoc)

text \<open>The halves of the words a commit puts together.\<close>

lemma field_high_ver: "drop_bit 16 (push_bit 8 NVRAM_VERSION OR push_bit 16 (w AND 0xffff)) = (w AND 0xffff :: u32)"
proof (unfold mask16, rule bit_word_eqI)
  fix n assume "n < LENGTH(32)"
  have "\<not> bit NVRAM_VERSION (n + 8)" by (simp add: NVRAM_VERSION_def bit_1_iff)
  then show "bit (drop_bit 16 (push_bit 8 NVRAM_VERSION OR push_bit 16 (w AND mask 16))) n = bit (w AND mask 16) n"
    by (auto simp: bit_simps add.commute dest: bit_imp_le_length)
qed

lemma field_low: "((v AND 0xffff) OR push_bit 16 (w AND 0xffff)) AND 0xffff = (v AND 0xffff :: u32)"
  unfolding mask16 by (rule bit_word_eqI) (auto simp: bit_simps)

lemma field_high: "drop_bit 16 ((v AND 0xffff) OR push_bit 16 (w AND 0xffff)) = (w AND 0xffff :: u32)"
  unfolding mask16 by (rule bit_word_eqI) (auto simp: bit_simps dest: bit_imp_le_length)

lemma strtoul_hex32: "fst (bcm_strtoul (fmt_hex 8 (unat (w :: u32))) 0) = w"
  using strtoul_hex [of "unat w" 8 "[]"] unat_lt32 [of w] by (simp add: ends_digits_def)

text \<open>A parameter of an image: the number its variable holds, or else the word in the header.\<close>

definition image_param :: "(cstr \<rightharpoonup> cstr) \<Rightarrow> cstr \<Rightarrow> u32 \<Rightarrow> u32" where
  "image_param m n w = (case m n of None \<Rightarrow> w | Some v \<Rightarrow> fst (bcm_strtoul v 0))"

text \<open>There is space for the parameters the image does not have: their values take 32 bytes.\<close>

definition params_fit :: "(cstr \<times> cstr) list \<Rightarrow> bool" where
  "params_fit kvs \<longleftrightarrow> sdram_names \<subseteq> fst ` set kvs \<or> vals_size kvs + 32 \<le> NVRAM_SPACE"

lemma sdram_distinct:
  "sdram_init \<noteq> sdram_config" "sdram_init \<noteq> sdram_refresh" "sdram_init \<noteq> sdram_ncdl" "sdram_config \<noteq> sdram_refresh"
  "sdram_config \<noteq> sdram_ncdl" "sdram_refresh \<noteq> sdram_ncdl"
  by (simp_all add: sdram_init_def sdram_config_def sdram_refresh_def sdram_ncdl_def cstr_def)

context nvram_space begin

lemma foldl_default:
  assumes "nv_ok hinv live st" "ready (nv_heap st)" "vals_size ds \<le> room (nv_heap st)" "\<forall>(n, v)\<in>set ds. 0 \<notin> set v"
  shows "nv_vals P (foldl (\<lambda>st (n, v). nv_default P n v st) st ds) = map_of ds ++ nv_vals P st"
  using assms
proof (induction ds arbitrary: st)
  case (Cons d ds)
  obtain n v where d: "d = (n, v)" by (cases d)
  have v: "0 \<notin> set v" "length v + 1 \<le> room (nv_heap st)" using Cons.prems(3,4) d by auto
  let ?s = "nv_default P n v st"
  note l = default_law [OF Cons.prems(1,2) v(1), of n] and r = default_room [OF Cons.prems(1,2) v, of n]
  have "vals_size ds \<le> room (nv_heap ?s)" using r(2) Cons.prems(3) d by simp
  moreover have "\<forall>(n, v)\<in>set ds. 0 \<notin> set v" using Cons.prems(4) by simp
  moreover have "nv_vals P ?s = [n \<mapsto> v] ++ nv_vals P st"
    using r(1) by (auto simp: fun_eq_iff map_add_def split: option.split)
  ultimately have "nv_vals P (foldl (\<lambda>st (n, v). nv_default P n v st) ?s ds) = map_of ds ++ ([n \<mapsto> v] ++ nv_vals P st)"
    using Cons.IH [of ?s] l by simp
  moreover have "map_of ds ++ ([n \<mapsto> v] ++ nv_vals P st) = map_of (d # ds) ++ nv_vals P st"
    by (auto simp: fun_eq_iff map_add_def d split: option.split)
  moreover have "foldl (\<lambda>st (n, v). nv_default P n v st) st (d # ds) = foldl (\<lambda>st (n, v). nv_default P n v st) ?s ds"
    by (simp add: d)
  ultimately show ?case by (simp only:)
qed simp

lemma foldl_default_id:
  "\<forall>(n, v)\<in>set ds. nv_vals P st n \<noteq> None \<Longrightarrow> foldl (\<lambda>st (n, v). nv_default P n v st) st ds = st"
  by (induction ds) (auto simp: nv_default_def nv_vals_def)

lemma set_defaults:
  assumes "nv_ok hinv live st" "ready (nv_heap st)" "sdram_names \<subseteq> dom (nv_vals P st) \<or> 32 \<le> room (nv_heap st)"
  shows "nv_vals P (foldl (\<lambda>st (n, v). nv_default P n v st) st (sdram_defaults h)) = map_of (sdram_defaults h) ++ nv_vals P st"
proof (cases "32 \<le> room (nv_heap st)")
  case True
  moreover have "vals_size (sdram_defaults h) = 32" by (simp add: sdram_defaults_def length_fmt_hex)
  ultimately show ?thesis using foldl_default [OF assms(1,2)] sdram_defaults_no_nul [of h] by (simp add: split_beta)
next
  case False
  then have dom: "sdram_names \<subseteq> dom (nv_vals P st)" using assms(3) by simp
  then have "\<forall>(n, v)\<in>set (sdram_defaults h). nv_vals P st n \<noteq> None"
    using sdram_defaults_no_nul [of h] by fastforce
  then have "foldl (\<lambda>st (n, v). nv_default P n v st) st (sdram_defaults h) = st" by (rule foldl_default_id)
  moreover have "map_of (sdram_defaults h) ++ nv_vals P st = nv_vals P st"
  proof
    fix n
    have "map_of (sdram_defaults h) n = None" if "nv_vals P st n = None"
      using dom sdram_defaults_no_nul [of h] that by (cases "map_of (sdram_defaults h) n") (auto dest!: map_of_SomeD)
    then show "(map_of (sdram_defaults h) ++ nv_vals P st) n = nv_vals P st n"
      by (cases "nv_vals P st n") (simp_all add: map_add_def)
  qed
  ultimately show ?thesis by simp
qed

lemma rehash_vals:
  assumes h: "hinv (nv_heap st)" "ready (nv_heap st)" and kvs: "image_vars (image_area data) = Some kvs"
    and fit: "params_fit kvs" and r: "nv_rehash P st hdr data = Some (st', 0)"
  shows "nv_vals P st' = map_of (sdram_defaults hdr) ++ map_of (rev kvs)"
proof -
  note f = free_law [OF h]
  have "length (image_area data) \<le> NVRAM_SPACE" by (simp add: image_area_def NVRAM_SPACE_def NVRAM_HEADER_SIZE_def)
  then have "vals_size kvs \<le> room (nv_heap (nv_free P st))" using image_vars_size [OF kvs] f(4) by simp
  note s = set_all_law [OF f(1,3) this image_vars_ok [OF kvs]]
  have v: "nv_vals P (nv_set_all P (nv_free P st) kvs) = map_of (rev kvs)" using s f(2) by simp
  have "sdram_names \<subseteq> dom (map_of (rev kvs)) \<or> 32 \<le> room (nv_heap (nv_set_all P (nv_free P st) kvs))"
    using fit s f(4) by (auto simp: params_fit_def dom_map_of_conv_image_fst)
  then have "nv_vals P (foldl (\<lambda>st (n, v). nv_default P n v st) (nv_set_all P (nv_free P st) kvs) (sdram_defaults hdr)) =
      map_of (sdram_defaults hdr) ++ map_of (rev kvs)"
    using set_defaults [of "nv_set_all P (nv_free P st) kvs" hdr] s unfolding v by blast
  moreover have "foldl (\<lambda>st (n, v). nv_default P n v st) (nv_set_all P (nv_free P st) kvs) (sdram_defaults hdr) = st'"
    using r kvs by (simp add: nv_rehash_eq)
  ultimately show ?thesis by simp
qed

lemma rehash_header:
  assumes h: "hinv (nv_heap st)" "ready (nv_heap st)" and kvs: "image_vars (image_area data) = Some kvs"
    and fit: "params_fit kvs" and r: "nv_rehash P st hdr data = Some (st', 0)"
  defines "m \<equiv> map_of (rev kvs)" and "H \<equiv> commit_header P st'"
  shows "drop_bit 16 (nvh_crc_ver_init H) = image_param m sdram_init (drop_bit 16 (nvh_crc_ver_init hdr)) AND 0xffff"
    "nvh_config_refresh H AND 0xffff = image_param m sdram_config (nvh_config_refresh hdr) AND 0xffff"
    "drop_bit 16 (nvh_config_refresh H) = image_param m sdram_refresh (drop_bit 16 (nvh_config_refresh hdr)) AND 0xffff"
    "nvh_config_ncdl H = image_param m sdram_ncdl (nvh_config_ncdl hdr)"
proof -
  define val where "val n = the (nv_get P st' (Some n))" for n
  have vals: "nv_get P st' (Some n) = (map_of (sdram_defaults hdr) ++ m) n" for n
    using rehash_vals [OF h kvs fit r] by (metis m_def nv_vals_def)
  have g: "nv_get P st' (Some sdram_init) = Some (val sdram_init)" "nv_get P st' (Some sdram_config) = Some (val sdram_config)"
    "nv_get P st' (Some sdram_refresh) = Some (val sdram_refresh)" "nv_get P st' (Some sdram_ncdl) = Some (val sdram_ncdl)"
    unfolding val_def vals using sdram_distinct by (simp_all add: sdram_defaults_def map_add_def split: option.split)
  have num: "fst (bcm_strtoul (val sdram_init) 0) = image_param m sdram_init (drop_bit 16 (nvh_crc_ver_init hdr))"
    "fst (bcm_strtoul (val sdram_config) 0) AND 0xffff = image_param m sdram_config (nvh_config_refresh hdr) AND 0xffff"
    "fst (bcm_strtoul (val sdram_refresh) 0) AND 0xffff = image_param m sdram_refresh (drop_bit 16 (nvh_config_refresh hdr)) AND 0xffff"
    "fst (bcm_strtoul (val sdram_ncdl) 0) = image_param m sdram_ncdl (nvh_config_ncdl hdr)"
    unfolding val_def vals image_param_def using sdram_distinct strtoul_hex16 [OF low16] strtoul_hex32
      strtoul_hex16 [OF low16 [of "drop_bit 16 (nvh_crc_ver_init hdr)"], unfolded high16]
    by (simp_all add: sdram_defaults_def map_add_def low16_twice split: option.split)
  have H: "H = \<lparr>nvh_magic = NVRAM_MAGIC, nvh_len = 0,
      nvh_crc_ver_init = push_bit 8 NVRAM_VERSION OR push_bit 16 (fst (bcm_strtoul (val sdram_init) 0) AND 0xffff),
      nvh_config_refresh = (fst (bcm_strtoul (val sdram_config) 0) AND 0xffff) OR push_bit 16 (fst (bcm_strtoul (val sdram_refresh) 0) AND 0xffff),
      nvh_config_ncdl = fst (bcm_strtoul (val sdram_ncdl) 0)\<rparr>"
    unfolding H_def commit_header_def Let_def g option.case prod.case ..
  show "drop_bit 16 (nvh_crc_ver_init H) = image_param m sdram_init (drop_bit 16 (nvh_crc_ver_init hdr)) AND 0xffff"
    unfolding H nvram_header.select_convs field_high_ver num(1) ..
  show "nvh_config_refresh H AND 0xffff = image_param m sdram_config (nvh_config_refresh hdr) AND 0xffff"
    unfolding H nvram_header.select_convs field_low num(2) ..
  show "drop_bit 16 (nvh_config_refresh H) = image_param m sdram_refresh (drop_bit 16 (nvh_config_refresh hdr)) AND 0xffff"
    unfolding H nvram_header.select_convs field_high num(3) ..
  show "nvh_config_ncdl H = image_param m sdram_ncdl (nvh_config_ncdl hdr)"
    unfolding H nvram_header.select_convs num(4) ..
qed

text \<open>
  The header of a table that has all four parameters and fits into the image stays the same over any number of commits.
\<close>

lemma commit_header_stable:
  assumes ok: "nv_ok hinv live st" "ready (nv_heap st)" and names: "\<forall>n\<in>dom (nv_vals P st). name_ok n"
    and fits: "length (nv_bytes P (nv_heap st) (nvram_tuples st)) \<le> AREA" and all: "sdram_names \<subseteq> dom (nv_vals P st)"
    and c: "nv_commit P st = Some (st', img, r)"
  shows "commit_header P st' = commit_header P st"
proof -
  have wf: "nvt.wf (nvram_hash st)" by (rule nv_okD(1) [OF ok(1)])
  from commit_law [OF ok names, unfolded Let_def] obtain st2 hdr data us where
    s: "nv_commit P st = Some (st2, (hdr, data), 0)" "us = nvram_tuples st"
      "map_of (map (nv_var P (nv_heap st)) us) \<subseteq>\<^sub>m nv_vals P st2"
    using fits by blast
  have "map_of (map (nv_var P (nv_heap st)) us) = nv_vals P st" unfolding s(2) by (rule vals_map_of [OF wf, symmetric])
  moreover have "st2 = st'" using s(1) c by simp
  ultimately have "nv_vals P st \<subseteq>\<^sub>m nv_vals P st'" using s(3) by simp
  then have "nv_vals P st' n = nv_vals P st n" if "n \<in> sdram_names" for n
    using subsetD [OF all that] by (simp add: map_le_def)
  then have g: "nv_get P st' (Some n) = nv_get P st (Some n)" if "n \<in> sdram_names" for n
    using that by (simp add: nv_vals_def)
  show ?thesis
    unfolding commit_header_def using g [of sdram_init] g [of sdram_config] g [of sdram_refresh] g [of sdram_ncdl]
    by (simp add: sdram_names_def)
qed

end

section \<open>Setting with a retry\<close>

lemma sdram_name_ok: "n \<in> sdram_names \<Longrightarrow> name_ok n"
  by (auto simp: sdram_names_def name_ok_def sdram_init_def sdram_config_def sdram_refresh_def sdram_ncdl_def cstr_def)

text \<open>Counting an allocation changes no variable.\<close>

definition linux_tick :: "linux_heap nvram \<Rightarrow> osl \<Rightarrow> linux_heap nvram" where
  "linux_tick st os = st\<lparr>nv_heap := (nv_heap st)\<lparr>lx_os := os\<rparr>\<rparr>"

lemma linux_tick_law:
  assumes "nv_ok linux_inv linux_live st" "linux_ready (nv_heap st)" "MALLOC (lx_os (nv_heap st)) = (os, p)"
  shows "nv_ok linux_inv linux_live (linux_tick st os)" "linux_ready (nv_heap (linux_tick st os))" "p \<noteq> 0"
    "nv_vals linux_port (linux_tick st os) = nv_vals linux_port st"
    "nv_bytes linux_port (nv_heap (linux_tick st os)) ts = nv_bytes linux_port (nv_heap st) ts"
    "nvram_tuples (linux_tick st os) = nvram_tuples st"
proof -
  note m = MALLOC_D [OF assms(3)]
  show "nv_ok linux_inv linux_live (linux_tick st os)"
    using assms(1) m(2) by (auto simp: nv_ok_def linux_tick_def linux_inv_def linux_live_def)
  show "linux_ready (nv_heap (linux_tick st os))" "p \<noteq> 0"
    using assms(2) m(1,3) by (auto simp: linux_ready_def linux_tick_def mem_reliable_def)
  show "nv_vals linux_port (linux_tick st os) = nv_vals linux_port st"
    by (simp add: fun_eq_iff nv_vals_lookup linux_tick_def)
  show "nv_bytes linux_port (nv_heap (linux_tick st os)) ts = nv_bytes linux_port (nv_heap st) ts"
    by (simp add: nv_bytes_def linux_tick_def nv_entry_def [abs_def])
  show "nvram_tuples (linux_tick st os) = nvram_tuples st" by (simp add: linux_tick_def)
qed

lemma nv_bytes_frame:
  assumes ok: "nv_ok linux_inv linux_live st" and s: "nv_set linux_port st n v = (st1, r)" "r \<noteq> 0"
  shows "nvram_tuples st1 = nvram_tuples st"
    "nv_bytes linux_port (nv_heap st1) (nvram_tuples st) = nv_bytes linux_port (nv_heap st) (nvram_tuples st)"
proof -
  obtain h u where r: "linux_realloc (nv_heap st) (nv_find st n) n v = (h, u)" by force
  have st1: "st1 = st\<lparr>nv_heap := h\<rparr>"
    using s r by (auto simp: nv_set_def Let_def split: option.splits if_splits)
  then show "nvram_tuples st1 = nvram_tuples st" by simp
  have "nv_entry linux_port h t = nv_entry linux_port (nv_heap st) t" if "t \<in> set (nvram_tuples st)" for t
    using linux_realloc_frame [OF r nv_okD(4) [OF ok] nv_okD(3) [OF ok that]] by (simp add: nv_entry_def)
  then show "nv_bytes linux_port (nv_heap st1) (nvram_tuples st) = nv_bytes linux_port (nv_heap st) (nvram_tuples st)"
    by (simp add: st1 nv_bytes_def cong: map_cong)
qed

definition nv_good :: "linux_heap nvram \<Rightarrow> bool" where
  "nv_good st \<longleftrightarrow> nv_ok linux_inv linux_live st \<and> linux_ready (nv_heap st) \<and> (\<forall>n\<in>dom (nv_vals linux_port st). name_ok n)"

definition nv_full :: "linux_heap nvram \<Rightarrow> bool" where
  "nv_full st \<longleftrightarrow> AREA < length (nv_bytes linux_port (nv_heap st) (nvram_tuples st))"

lemma nv_set_good:
  assumes g: "nv_good st" and n: "name_ok n" and v: "0 \<notin> set v" and s: "nv_set linux_port st n v = (st', r)"
  shows "nv_good st'" "r = 0 \<and> nv_vals linux_port st' = (nv_vals linux_port st)(n \<mapsto> v) \<or>
    r = - ENOMEM \<and> nv_vals linux_port st' = nv_vals linux_port st"
proof -
  have ok: "nv_ok linux_inv linux_live st" "linux_ready (nv_heap st)" using g by (simp_all add: nv_good_def)
  note l = linux_nv.set_law [OF ok(1) v s]
  show "r = 0 \<and> nv_vals linux_port st' = (nv_vals linux_port st)(n \<mapsto> v) \<or>
    r = - ENOMEM \<and> nv_vals linux_port st' = nv_vals linux_port st" using l by blast
  then show "nv_good st'"
    using linux_nv.set_ready [OF ok(2), of n v] l s g n by (auto simp: nv_good_def split: if_splits)
qed

lemma nv_commit_good:
  assumes g: "nv_good st"
  shows "\<exists>st' img. nv_commit linux_port st = Some (st', img, 0) \<and> nv_good st' \<and>
    (\<forall>n. n \<notin> sdram_names \<longrightarrow> nv_vals linux_port st' n = nv_vals linux_port st n \<or> nv_vals linux_port st' n = None) \<and>
    (\<not> nv_full st \<longrightarrow> nv_vals linux_port st \<subseteq>\<^sub>m nv_vals linux_port st')"
proof -
  have ok: "nv_ok linux_inv linux_live st" "linux_ready (nv_heap st)" "\<forall>n\<in>dom (nv_vals linux_port st). name_ok n"
    using g by (simp_all add: nv_good_def)
  obtain st' hdr data us where c: "nv_commit linux_port st = Some (st', (hdr, data), 0)" "nv_ok linux_inv linux_live st'"
    "linux_ready (nv_heap st')" "\<not> nv_full st \<longrightarrow> us = nvram_tuples st"
    and vs: "map_of (map (nv_var linux_port (nv_heap st)) us) \<subseteq>\<^sub>m nv_vals linux_port st"
      "map_of (map (nv_var linux_port (nv_heap st)) us) \<subseteq>\<^sub>m nv_vals linux_port st'"
      "\<forall>n. n \<notin> sdram_names \<longrightarrow> nv_vals linux_port st' n = map_of (map (nv_var linux_port (nv_heap st)) us) n"
    using linux_nv.commit_law [OF ok] by (auto simp: Let_def nv_full_def not_less)
  have other: "nv_vals linux_port st' n = nv_vals linux_port st n \<or> nv_vals linux_port st' n = None" if "n \<notin> sdram_names" for n
    using vs(1,3) that by (cases "map_of (map (nv_var linux_port (nv_heap st)) us) n") (auto simp: map_le_def dom_def)
  have "name_ok n" if "n \<in> dom (nv_vals linux_port st')" for n
    using other [of n] sdram_name_ok ok(3) that by (cases "n \<in> sdram_names") auto
  moreover have "nv_vals linux_port st \<subseteq>\<^sub>m nv_vals linux_port st'" if "\<not> nv_full st"
    using vs(2) c(4) that vals_map_of [OF nv_okD(1) [OF ok(1)]] by simp
  ultimately show ?thesis using c other by (auto simp: nv_good_def)
qed

lemma nvram_set_law:
  assumes g: "nv_good st" and n: "name_ok n" and v: "0 \<notin> set v"
  shows "\<exists>st' r. nvram_set st n v = Some (st', r) \<and> nv_good st' \<and> (r = 0 \<or> r = - ENOMEM) \<and>
    (r = 0 \<longrightarrow> nv_vals linux_port st' n = Some v) \<and>
    (\<forall>k. k \<noteq> n \<and> k \<notin> sdram_names \<longrightarrow> nv_vals linux_port st' k = nv_vals linux_port st k \<or> nv_vals linux_port st' k = None) \<and>
    (\<not> nv_full st \<longrightarrow> (\<forall>k. k \<noteq> n \<and> nv_vals linux_port st k \<noteq> None \<longrightarrow> nv_vals linux_port st' k = nv_vals linux_port st k))"
proof -
  obtain st1 r1 where s1: "nv_set linux_port st n v = (st1, r1)" by force
  note l1 = nv_set_good [OF g n v s1]
  show ?thesis
  proof (cases "r1 = 0")
    case True
    then have "nvram_set st n v = Some (st1, 0)" using s1 by (simp add: nvram_set_def)
    then show ?thesis using l1 True by (auto simp: ENOMEM_def)
  next
    case False
    obtain os p where m: "MALLOC (lx_os (nv_heap st1)) = (os, p)" by force
    have ok1: "nv_ok linux_inv linux_live st1" "linux_ready (nv_heap st1)" using l1(1) by (simp_all add: nv_good_def)
    note t = linux_tick_law [OF ok1 m]
    have ok: "nv_ok linux_inv linux_live st" using g by (simp add: nv_good_def)
    note fr = nv_bytes_frame [OF ok s1 False]
    have g2: "nv_good (linux_tick st1 os)" using t(1,2,4) l1(1) by (simp add: nv_good_def)
    have full: "nv_full (linux_tick st1 os) = nv_full st" using t(5,6) fr by (simp add: nv_full_def)
    obtain st3 img where c: "nv_commit linux_port (linux_tick st1 os) = Some (st3, img, 0)" "nv_good st3"
      "\<forall>n. n \<notin> sdram_names \<longrightarrow> nv_vals linux_port st3 n = nv_vals linux_port st n \<or> nv_vals linux_port st3 n = None"
      "\<not> nv_full st \<longrightarrow> nv_vals linux_port st \<subseteq>\<^sub>m nv_vals linux_port st3"
      using nv_commit_good [OF g2] t(4) l1(2) False full by auto
    obtain st4 r4 where s4: "nv_set linux_port st3 n v = (st4, r4)" by force
    note l4 = nv_set_good [OF c(2) n v s4]
    have "nvram_set st n v = Some (st4, r4)"
      using s1 False m t(3) c(1) s4 by (simp add: nvram_set_def Let_def linux_tick_def)
    then show ?thesis using l4 c(3,4) by (auto simp: map_le_def dom_def ENOMEM_def)
  qed
qed

end
