(* ===== verification/Sflash_Mtd.thy ===== *)
theory Sflash_Mtd
  imports Sflash_Laws Nvram_Early
begin

text \<open>
  The MTD device of an ST serial flash as a flash device in the sense of \<open>nor_mtd\<close>, and the commit
  of the variable store on it.
\<close>

section \<open>Reading\<close>

lemma sflash_read_law:
  assumes "0 < n" "p + n \<le> unat (sf_size sfl)"
  shows "\<exists>k. 0 < k \<and> k \<le> n \<and> sflash_read sfl c (of_nat p) (of_nat n) buf = (int k, take k (drop p (c_mem c)))"
proof -
  let ?p = "of_nat p :: u32" and ?n = "of_nat n :: u32"
  have u: "unat ?p = p" "unat ?n = n"
    using assms unat_lt32 [of "sf_size sfl"] by (auto intro!: unat_of_nat32)
  have "unat (?p + ?n) = p + n" using assms u unat_add_le [of ?p ?n "sf_size sfl"] by simp
  then have nofault: "\<not> ?p + ?n > sf_size sfl" using assms by (simp add: word_less_nat_alt)
  have nz: "?n \<noteq> 0" using u(2) assms(1) by (metis unat_0 less_irrefl)
  have a: "unat (?p AND 3) < 4"
    by (rule order_le_less_trans [OF word_and_le1 [of ?p 3, unfolded word_le_nat_alt]]) simp
  define cnt where "cnt = (if ?n \<ge> 4 \<and> ?p AND 3 \<noteq> 0 then 4 - unat (?p AND 3)
     else if ?n \<ge> 4 \<and> buf mod 4 \<noteq> 0 then 4 - buf mod 4 else unat ?n)"
  have cnt: "0 < cnt" "cnt \<le> n"
    using a u(2) assms(1) by (auto simp: cnt_def word_le_nat_alt)
  define k where "k = (if cnt < 4 then cnt else cnt - cnt mod 4)"
  have "0 < k" "k \<le> n" using cnt by (auto simp: k_def) 
  moreover have "sflash_read sfl c ?p ?n buf = (int k, take k (drop p (c_mem c)))"
    using nz nofault u by (simp add: sflash_read_def cnt_def k_def Let_def)
  ultimately show ?thesis by blast
qed

lemma mtd_read_loop_law:
  "p + n \<le> unat (sf_size sfl) \<Longrightarrow> length (c_mem c) = unat (sf_size sfl) \<Longrightarrow>
     mtd_read_loop sfl c p n buf = (0, n, take n (drop p (c_mem c)))"
proof (induction n arbitrary: p buf rule: less_induct)
  case (less n)
  show ?case
  proof (cases "n = 0")
    case True
    then show ?thesis by (simp add: mtd_read_loop.simps)
  next
    case False
    then obtain k where k: "0 < k" "k \<le> n" "sflash_read sfl c (of_nat p) (of_nat n) buf = (int k, take k (drop p (c_mem c)))"
      using sflash_read_law [of n p sfl c buf] less.prems by auto
    have "mtd_read_loop sfl c (p + k) (n - k) (buf + k) = (0, n - k, take (n - k) (drop (p + k) (c_mem c)))"
      using less k by (intro less.IH) auto
    moreover have "take k (drop p (c_mem c)) @ take (n - k) (drop (p + k) (c_mem c)) = take n (drop p (c_mem c))"
      using k(2) by (metis add.commute drop_drop le_add_diff_inverse take_add)
    ultimately show ?thesis using False k by (simp add: mtd_read_loop.simps [of sfl c p n buf])
  qed
qed

section \<open>Erasing\<close>

definition st_geometry :: "sflash \<Rightarrow> bool" where
  "st_geometry sfl \<longleftrightarrow> sf_type sfl = SFLASH_ST \<and> unat (sf_blocksize sfl) = SECTOR \<and> 0 < unat (sf_numblocks sfl) \<and>
     unat (sf_size sfl) = unat (sf_numblocks sfl) * SECTOR"

lemma st_geometry_unat:
  assumes g: "st_geometry sfl" and j: "j < unat (sf_numblocks sfl)"
  shows "unat (sf_blocksize sfl * of_nat j) = SECTOR * j" "SECTOR * j + SECTOR \<le> unat (sf_size sfl)"
proof -
  have "j * SECTOR + SECTOR \<le> unat (sf_numblocks sfl) * SECTOR"
    using j by (metis Suc_leI add.commute mult_Suc mult_le_mono1)
  then show le: "SECTOR * j + SECTOR \<le> unat (sf_size sfl)" using g by (simp add: st_geometry_def mult.commute)
  have "sf_blocksize sfl = of_nat SECTOR" using g by (metis of_nat_unat ucast_id st_geometry_def)
  then have "sf_blocksize sfl * of_nat j = of_nat (SECTOR * j)" by simp
  moreover have "SECTOR * j < 2 ^ 32" using le unat_lt32 [of "sf_size sfl"] by linarith
  ultimately show "unat (sf_blocksize sfl * of_nat j) = SECTOR * j" by (simp only: unat_of_nat32)
qed

lemma erase_block_law:
  assumes c: "chip_ok acc lim sfl c" and g: "st_geometry sfl" and j: "j < unat (sf_numblocks sfl)"
  defines "a \<equiv> sf_blocksize sfl * of_nat j"
  shows "\<exists>c1 c'. sflash_erase sfl c a = (c1, int SECTOR) \<and> sflash_mtd_poll lim sfl c1 a = (c', 0) \<and> chip_ok acc lim sfl c' \<and>
    c_mem c' = sector_erase (c_mem c) (SECTOR * j)"
proof -
  note u = st_geometry_unat [OF g j, folded a_def]
  have lt: "a < sf_size sfl" using u by (simp add: word_less_nat_alt SECTOR_def)
  have ty: "sf_type sfl = SFLASH_ST" using g by (simp add: st_geometry_def)
  define c1 where "c1 = chip_start True (c\<lparr>c_wel := True, c_addr := a\<rparr>) (sector_erase (c_mem c) (SECTOR * j))"
  have h: "c_held c = None" "c_busy c = 0" using c by (simp_all add: chip_ok_def chip_inv_def)
  have "uint (sf_blocksize sfl) = int SECTOR" using g by (metis st_geometry_def uint_nat)
  then have "sflash_erase sfl c a = (c1, int SECTOR)"
    using lt ty cmd_WREN [OF h] cmd_SE [of "c\<lparr>c_wel := True, c_addr := a\<rparr>"] h u(1)
    by (simp add: sflash_erase_def set_addr_def c1_def)
  moreover have "length (sector_erase (c_mem c) (SECTOR * j)) = length (c_mem c)"
    using u(2) c by (simp add: sector_erase_def chip_ok_def chip_inv_def Let_def SECTOR_def)
  then have inv: "chip_inv acc lim sfl c1" using c by (auto simp: c1_def chip_start_def chip_ok_def chip_inv_def Let_def)
  moreover have "c_busy c1 \<le> lim" using inv by (simp add: chip_inv_def)
  moreover have "c_mem c1 = sector_erase (c_mem c) (SECTOR * j)" by (simp add: c1_def chip_start_def Let_def)
  ultimately show ?thesis using mtd_poll_law [OF inv ty lt] by force
qed

lemma erase_loop_skip:
  "\<forall>j\<in>set js. a \<noteq> sf_blocksize sfl * of_nat j \<or> len < sf_blocksize sfl \<Longrightarrow>
     mtd_erase_loop lim sfl (js @ ks) c a len = mtd_erase_loop lim sfl ks c a len"
  by (induction js) auto

lemma mtd_erase_law:
  assumes c: "chip_ok acc lim sfl c" and g: "st_geometry sfl" and j: "j < unat (sf_numblocks sfl)"
  shows "\<exists>c'. sflash_mtd_erase lim sfl c (sf_blocksize sfl * of_nat j) (sf_blocksize sfl) = (c', 0) \<and> chip_ok acc lim sfl c' \<and>
    c_mem c' = sector_erase (c_mem c) (SECTOR * j)"
proof -
  let ?a = "sf_blocksize sfl * of_nat j" and ?nb = "unat (sf_numblocks sfl)"
  obtain c1 c' where e: "sflash_erase sfl c ?a = (c1, int SECTOR)" "sflash_mtd_poll lim sfl c1 ?a = (c', 0)"
    "chip_ok acc lim sfl c'" "c_mem c' = sector_erase (c_mem c) (SECTOR * j)"
    using erase_block_law [OF c g j] by blast
  note u = st_geometry_unat [OF g j]
  have bs: "sf_blocksize sfl \<noteq> 0" using g by (auto simp: st_geometry_def SECTOR_def)
  have "?a \<noteq> sf_blocksize sfl * of_nat i" if "i < j" for i
    using u(1) st_geometry_unat(1) [OF g, of i] that j by (auto simp: SECTOR_def)
  then have s1: "\<forall>i\<in>set [0..<j]. ?a \<noteq> sf_blocksize sfl * of_nat i \<or> sf_blocksize sfl < sf_blocksize sfl" by simp
  have s2: "\<forall>i\<in>set [Suc j..<?nb]. ?a + sf_blocksize sfl \<noteq> sf_blocksize sfl * of_nat i \<or> 0 < sf_blocksize sfl"
    using bs by (simp add: word_greater_zero_iff)
  have split: "[0..<?nb] = [0..<j] @ j # [Suc j..<?nb]"
    using upt_add_eq_append [of 0 j "?nb - j"] j by (simp add: upt_conv_Cons)
  have "mtd_erase_loop lim sfl [0..<?nb] c ?a (sf_blocksize sfl) = (c', 0)"
    unfolding split using erase_loop_skip [OF s1] erase_loop_skip [of "[Suc j..<?nb]" "?a + sf_blocksize sfl" sfl 0 lim "[]"] s2 e
    by simp
  moreover have "unat (?a + sf_blocksize sfl) = SECTOR * j + SECTOR"
    using u g unat_add_le [of ?a "sf_blocksize sfl" "sf_size sfl"] by (simp add: st_geometry_def)
  then have "\<not> ?a + sf_blocksize sfl > sf_size sfl" using u(2) by (simp add: word_less_nat_alt)
  ultimately show ?thesis using e bs by (simp add: sflash_mtd_erase_def)
qed

lemma sector_erase_nth:
  assumes "SECTOR * j + SECTOR \<le> length m"
  shows "length (sector_erase m (SECTOR * j)) = length m"
    "i < length m \<Longrightarrow> sector_erase m (SECTOR * j) ! i = (if SECTOR * j \<le> i \<and> i < SECTOR * j + SECTOR then 0xff else m ! i)"
proof -
  let ?s = "SECTOR * j"
  have s: "sector_erase m ?s = take ?s m @ replicate SECTOR 0xff @ drop (?s + SECTOR) m"
    using assms by (simp add: sector_erase_def SECTOR_def Let_def mult.commute)
  show "length (sector_erase m ?s) = length m" using assms by (simp add: s)
  show "i < length m \<Longrightarrow> sector_erase m ?s ! i = (if ?s \<le> i \<and> i < ?s + SECTOR then 0xff else m ! i)"
    using assms by (auto simp: s nth_append)
qed

section \<open>The contract\<close>

locale st_flash =
  fixes acc :: bool and lim buf :: nat and sih :: si_info and sfl :: sflash
  assumes st_geometry: "st_geometry sfl" and held_write: "held_write sih"
begin

lemma write_law:
  assumes ok: "chip_ok acc lim sfl c" and w: "mtd_write (sflash_mtd lim buf sih sfl) c p b = (c', r, len)" and b: "b \<noteq> []"
  shows "chip_ok acc lim sfl c' \<and> prog_some (c_mem c) (c_mem c') (unat p) b \<and>
    (acc \<and> unat p + length b \<le> unat (sf_size sfl) \<longrightarrow> r = 0) \<and>
    (r = 0 \<longrightarrow> len = length b \<and> unat p + length b \<le> unat (sf_size sfl)) \<and>
    (r = 0 \<and> unat p + length b < unat (sf_size sfl) \<longrightarrow> prog_all (c_mem c) (c_mem c') (unat p) b)"
proof (cases "unat p + length b > unat (sf_size sfl)")
  case True
  then show ?thesis using w ok b by (simp add: sflash_mtd_def sflash_mtd_write_def EINVAL_def)
next
  case False
  moreover have "sf_type sfl = SFLASH_ST" using st_geometry by (simp add: st_geometry_def)
  ultimately show ?thesis
    using mtd_write_loop_law [OF ok _ held_write, of "unat p" b 0] w b by (auto simp: sflash_mtd_def sflash_mtd_write_def)
qed

lemma erase_law:
  assumes ok: "chip_ok acc lim sfl c" and e: "mtd_erase (sflash_mtd lim buf sih sfl) c p (sf_blocksize sfl) = (c', r)"
    and p: "SECTOR dvd unat p" "unat p < unat (sf_size sfl)"
  shows "chip_ok acc lim sfl c' \<and> r = 0 \<and> c_mem c' = sector_erase (c_mem c) (unat p) \<and> unat p + SECTOR \<le> length (c_mem c)"
proof -
  obtain j where j: "unat p = SECTOR * j" using p(1) by auto
  have nb: "j < unat (sf_numblocks sfl)"
    using p(2) st_geometry j by (auto simp: st_geometry_def SECTOR_def)
  note u = st_geometry_unat [OF st_geometry nb]
  have "p = sf_blocksize sfl * of_nat j" using u(1) j by (simp add: word_unat_eq_iff)
  then show ?thesis
    using mtd_erase_law [OF ok st_geometry nb] e u(2) j ok by (auto simp: sflash_mtd_def chip_ok_def chip_inv_def)
qed

end

sublocale st_flash < dev: nor_mtd "sflash_mtd lim buf sih sfl" "chip_ok acc lim sfl" c_mem
proof unfold_locales
  fix f assume "chip_ok acc lim sfl f"
  then show "length (c_mem f) = unat (mtd_size (sflash_mtd lim buf sih sfl))"
    by (simp add: sflash_mtd_def chip_ok_def chip_inv_def)
next
  show "mtd_erasesize (sflash_mtd lim buf sih sfl) \<noteq> 0"
    using st_geometry by (auto simp: sflash_mtd_def st_geometry_def SECTOR_def)
  show "unat (mtd_erasesize (sflash_mtd lim buf sih sfl)) dvd unat (mtd_size (sflash_mtd lim buf sih sfl))"
    using st_geometry by (simp add: sflash_mtd_def st_geometry_def)
next
  fix f p n f' r len b
  assume ok: "chip_ok acc lim sfl f" and "mtd_read (sflash_mtd lim buf sih sfl) f p n = (f', r, len, b)"
  then show "chip_ok acc lim sfl f' \<and> c_mem f' = c_mem f \<and>
      (r = 0 \<and> 0 < n \<longrightarrow> len = n \<and> b = take n (drop (unat p) (c_mem f)) \<and> unat p + n \<le> unat (mtd_size (sflash_mtd lim buf sih sfl)))"
    using mtd_read_loop_law [of "unat p" n sfl f buf]
    by (auto simp: sflash_mtd_def sflash_mtd_read_def EINVAL_def chip_ok_def chip_inv_def split: if_splits)
next
  fix f p b f' r len
  assume ok: "chip_ok acc lim sfl f" and w: "mtd_write (sflash_mtd lim buf sih sfl) f p b = (f', r, len)" and b: "b \<noteq> []"
  note law = write_law [OF ok w b]
  have sz: "length (c_mem f) = unat (sf_size sfl)" using ok by (simp add: chip_ok_def chip_inv_def)
  show "chip_ok acc lim sfl f' \<and> outside (c_mem f) (c_mem f') (unat p) (length b) \<and>
      (\<forall>i<length b. unat p + i < unat (mtd_size (sflash_mtd lim buf sih sfl)) \<longrightarrow>
         c_mem f' ! (unat p + i) \<in> {c_mem f ! (unat p + i), c_mem f ! (unat p + i) AND b ! i}) \<and>
      (r = 0 \<longrightarrow> len = length b \<and> unat p + length b \<le> unat (mtd_size (sflash_mtd lim buf sih sfl))) \<and>
      (r = 0 \<and> unat p + length b < unat (mtd_size (sflash_mtd lim buf sih sfl)) \<longrightarrow>
         (\<forall>i<length b. c_mem f' ! (unat p + i) = c_mem f ! (unat p + i) AND b ! i))"
    using law sz by (auto simp: sflash_mtd_def outside_def prog_some_def prog_all_def pmask_def)
next
  fix f p f' r
  assume ok: "chip_ok acc lim sfl f" and "mtd_erase (sflash_mtd lim buf sih sfl) f p (mtd_erasesize (sflash_mtd lim buf sih sfl)) = (f', r)"
    and "unat (mtd_erasesize (sflash_mtd lim buf sih sfl)) dvd unat p" "unat p < unat (mtd_size (sflash_mtd lim buf sih sfl))"
  moreover have bs: "unat (sf_blocksize sfl) = SECTOR" using st_geometry by (simp add: st_geometry_def)
  ultimately have law: "chip_ok acc lim sfl f' \<and> r = 0 \<and> c_mem f' = sector_erase (c_mem f) (unat p) \<and> unat p + SECTOR \<le> length (c_mem f)"
    and "SECTOR dvd unat p"
    using erase_law [OF ok] by (simp_all add: sflash_mtd_def)
  then obtain j where "unat p = SECTOR * j" by auto
  then show "chip_ok acc lim sfl f' \<and> outside (c_mem f) (c_mem f') (unat p) (unat (mtd_erasesize (sflash_mtd lim buf sih sfl))) \<and>
      (\<forall>i<unat (mtd_erasesize (sflash_mtd lim buf sih sfl)). c_mem f' ! (unat p + i) \<in> {c_mem f ! (unat p + i), 0xff}) \<and>
      (r = 0 \<longrightarrow> (\<forall>i<unat (mtd_erasesize (sflash_mtd lim buf sih sfl)). c_mem f' ! (unat p + i) = 0xff))"
    using law bs sector_erase_nth [of j "c_mem f"] by (auto simp: outside_def sflash_mtd_def)
qed (simp add: sflash_mtd_def)

text \<open>A chip that accepts every program, and is seen busy with it, does not fail.\<close>

locale st_flash_live = st_flash True lim buf sih sfl
  for lim buf :: nat and sih :: si_info and sfl :: sflash

sublocale st_flash_live < live: live_mtd "sflash_mtd lim buf sih sfl" "chip_ok True lim sfl" c_mem
proof unfold_locales
  fix f p n f' r len b
  assume "chip_ok True lim sfl f" "0 < n" "unat p + n \<le> unat (mtd_size (sflash_mtd lim buf sih sfl))"
    "mtd_read (sflash_mtd lim buf sih sfl) f p n = (f', r, len, b)"
  then show "r = 0"
    using mtd_read_loop_law [of "unat p" n sfl f buf]
    by (auto simp: sflash_mtd_def sflash_mtd_read_def chip_ok_def chip_inv_def split: if_splits)
next
  fix f p b f' r len
  assume "chip_ok True lim sfl f" "b \<noteq> []" "unat p + length b \<le> unat (mtd_size (sflash_mtd lim buf sih sfl))"
    "mtd_write (sflash_mtd lim buf sih sfl) f p b = (f', r, len)"
  then show "r = 0" using write_law [of f p b f' r len] by (simp add: sflash_mtd_def)
next
  fix f p f' r
  assume "chip_ok True lim sfl f" "unat (mtd_erasesize (sflash_mtd lim buf sih sfl)) dvd unat p"
    "unat p < unat (mtd_size (sflash_mtd lim buf sih sfl))"
    "mtd_erase (sflash_mtd lim buf sih sfl) f p (mtd_erasesize (sflash_mtd lim buf sih sfl)) = (f', r)"
  then show "r = 0"
    using erase_law [of f p f' r] st_geometry by (simp add: sflash_mtd_def st_geometry_def)
qed

section \<open>Known parts\<close>

definition st_info :: "u32 \<Rightarrow> sflash" where
  "st_info part = \<lparr>sf_blocksize = 64 * 1024, sf_numblocks = sflash_st_blocks part, sf_type = SFLASH_ST,
     sf_size = 64 * 1024 * sflash_st_blocks part\<rparr>"

definition st_parts :: "u32 list" where
  "st_parts = [0x11, 0x12, 0x13, 0x14, 0x15, 0x16, 0x17]"

lemma st_info_geometry: "part \<in> set st_parts \<Longrightarrow> st_geometry (st_info part)"
  by (auto simp: st_parts_def st_geometry_def st_info_def sflash_st_blocks_def SECTOR_def)

text \<open>An idle chip of a known part is found, with its geometry.\<close>

lemma sflash_init_law:
  assumes c: "c_held c = None" "c_busy c = 0" "c_id c \<in> set st_parts"
    and s: "si_cccaps sih AND CC_CAP_FLASH_MASK = SFLASH_ST" "si_chipid sih \<noteq> BCM4716_CHIP_ID" "si_chipid sih \<noteq> BCM4748_CHIP_ID"
  shows "snd (sflash_init sih c) = Some (st_info (c_id c))"
proof -
  have "c_data (sflash_cmd (sflash_cmd c SFLASH_ST_DP) SFLASH_ST_RES) = c_id c"
    using c by (simp add: sflash_cmd_def chip_cmd_def opcode_defs)
  then show ?thesis
    using c(3) s by (auto simp: sflash_init_def st_parts_def st_info_def sflash_st_blocks_def Let_def)
qed

text \<open>The largest part the boards have, on a chip common core that holds chip select itself.\<close>

definition board_si :: si_info where
  "board_si = \<lparr>si_chipid = 0x4718, si_chiprev = 1, si_ccrev = 31, si_cccaps = SFLASH_ST\<rparr>"

interpretation m25p64: st_flash acc lim buf board_si "st_info 0x16" for acc lim buf
  by unfold_locales (simp_all add: st_info_geometry st_parts_def held_write_def board_si_def)

interpretation m25p64_live: st_flash_live lim buf board_si "st_info 0x16" for lim buf
  by unfold_locales

end
