(* ===== verification/Store_Properties.thy ===== *)
theory Store_Properties
  imports Sflash_Mtd
begin

text \<open>
  The properties of the variable store, its checksums and number formats, and the serial flash it is
  kept in.
\<close>

section \<open>A store and a chip to start from\<close>

definition fresh_heap :: linux_heap where
  "fresh_heap = \<lparr>lx_os = \<lparr>mem_seq = 0, mem_ok = (\<lambda>_. True)\<rparr>, nvram_buf = replicate NVRAM_SPACE 0, nvram_offset = 0\<rparr>"

definition fresh_nv :: "linux_heap nvram" where
  "fresh_nv = \<lparr>nvram_hash = (\<lambda>_. []), nvram_dead = [], nv_heap = fresh_heap\<rparr>"

definition a_header :: nvram_header where
  "a_header = \<lparr>nvh_magic = NVRAM_MAGIC, nvh_len = 28, nvh_crc_ver_init = 0x04190100, nvh_config_refresh = 0x80400000,
     nvh_config_ncdl = 5\<rparr>"

lemma fresh_heap_ok: "linux_inv fresh_heap" "linux_ready fresh_heap"
  by (simp_all add: fresh_heap_def linux_inv_def linux_ready_def mem_reliable_def)

lemma fresh_nv_tuples [simp]: "nvram_tuples fresh_nv = []"
  by (simp add: fresh_nv_def ht_nodes_def)

lemma fresh_nv_vals [simp]: "nv_vals linux_port fresh_nv = Map.empty"
  by (simp add: fun_eq_iff nv_vals_lookup fresh_nv_def nvt.lookup_empty)

lemma fresh_nv_good: "nv_good fresh_nv"
proof -
  have "nvt.wf (nvram_hash fresh_nv)" by (rule nvt.wf_empty) (simp add: fresh_nv_def)
  moreover have "nv_heap fresh_nv = fresh_heap" by (simp add: fresh_nv_def)
  ultimately show ?thesis using fresh_heap_ok by (simp add: nv_good_def nv_ok_def)
qed

lemma fresh_commit:
  "\<exists>hdr data. commit_image linux_port fresh_nv = Some (hdr, data) \<and> unat (nvh_len hdr) < NVRAM_SPACE"
proof -
  have "commit_table linux_port fresh_nv = []"
    by (subst commit_table_fits) simp_all
  then have "commit_image linux_port fresh_nv \<noteq> None" 
    using commit_image_Some [of linux_port fresh_nv] by auto
  then obtain hdr data where i: "commit_image linux_port fresh_nv = Some (hdr, data)" by auto
  have "unat (nvh_len hdr) = 24"
    using i \<open>commit_table linux_port fresh_nv = []\<close>
    by (auto simp: commit_image_def Let_def NVRAM_HEADER_SIZE_def ROUNDUP_def)
  then show ?thesis using i by (simp add: NVRAM_SPACE_def)
qed

abbreviation m25p64_mtd :: "nat \<Rightarrow> sf_chip mtd" where
  "m25p64_mtd lim \<equiv> sflash_mtd lim 0 board_si (st_info 0x16)"

definition fresh_chip :: sf_chip where
  "fresh_chip = \<lparr>c_mem = replicate (128 * SECTOR) 0xff, c_id = 0x16, c_addr = 0, c_data = 0, c_wel = False, c_held = None,
     c_cs = False, c_busy = 0, c_seq = 0, c_delay = (\<lambda>_. 5), c_accept = (\<lambda>_. True)\<rparr>"

lemma m25p64_size: "unat (sf_size (st_info 0x16)) = 128 * SECTOR" "unat (sf_blocksize (st_info 0x16)) = SECTOR"
  by (simp_all add: st_info_def sflash_st_blocks_def SECTOR_def)

lemma fresh_chip_ok: "chip_ok True 9 (st_info 0x16) fresh_chip"
  using m25p64_size by (simp add: chip_ok_def chip_inv_def fresh_chip_def)

lemma m25p64_fits: "commit_fits (m25p64_mtd lim)"
proof -
  have e: "mtd_erasesize (m25p64_mtd lim) \<noteq> 0" "unat (mtd_erasesize (m25p64_mtd lim)) \<le> 2 ^ 31"
    using m25p64_size by (auto simp: sflash_mtd_def SECTOR_def)
  have "unat (commit_erasesize (m25p64_mtd lim)) = SECTOR"
    using commit_erasesize_eq(1) [OF e] m25p64_size by (simp add: sflash_mtd_def SECTOR_def NVRAM_SPACE_def)
  then show ?thesis using e m25p64_size by (simp add: commit_fits_def sflash_mtd_def)
qed

section \<open>Commits\<close>

text \<open>
  C2: A commit of the variables to a serial flash that may stay busy, may reject page programs, and
  may make the commit fail at any point, always returns, and leaves the chip, between any two
  operations, with its old contents, without a valid image, or with the complete new image; a
  power failure never leaves a half-written image that is taken for a valid one. The image is shorter than the
  block, so that no program ends at the end of the chip, where the driver's poll is refused.
\<close>

theorem commit_power_safe:
  assumes "nv_good st" "chip_ok acc lim (st_info 0x16) f" "commit_image linux_port st = Some (hdr, data)"
    "unat (nvh_len hdr) < NVRAM_SPACE"
  shows "\<exists>st' tr r. nvram_commit (Some (m25p64_mtd lim)) irq mem st f = Some (st', tr, r) \<and>
    (\<forall>g\<in>set tr. c_mem g = c_mem f \<or> \<not> magic_valid (c_mem g) \<or> holds_image (c_mem g) hdr data) \<and>
    (r = 0 \<longrightarrow> magic_valid (c_mem (hd tr)) \<and> holds_image (c_mem (hd tr)) hdr data)"
proof -
  have ok: "nv_ok linux_inv linux_live st" "linux_ready (nv_heap st)" "\<forall>n\<in>dom (nv_vals linux_port st). name_ok n"
    using assms(1) by (simp_all add: nv_good_def)
  from m25p64.dev.nvram_commit_law [OF ok assms(2) m25p64_fits assms(3,4), of irq mem]
  show ?thesis by (auto simp: m25p64.dev.commit_state_def)
qed

theorem commit_power_safe_witness:
  "\<exists>st' tr r hdr data. nvram_commit (Some (m25p64_mtd 9)) False True fresh_nv fresh_chip = Some (st', tr, r) \<and>
    (\<forall>g\<in>set tr. c_mem g = c_mem fresh_chip \<or> \<not> magic_valid (c_mem g) \<or> holds_image (c_mem g) hdr data)"
proof -
  obtain hdr data where "commit_image linux_port fresh_nv = Some (hdr, data)" "unat (nvh_len hdr) < NVRAM_SPACE"
    using fresh_commit by blast
  from commit_power_safe [OF fresh_nv_good fresh_chip_ok this, of False True] show ?thesis by blast
qed

text \<open>
  C6: What a successful commit to the serial flash wrote is what the next start-up reads: every
  variable has the value it had after the commit, up to the four memory parameters that are
  filled in from the header, and when the table fits into the image no variable is lost. The image is shorter
  than the block, as for the safety of the commit.
\<close>

theorem commit_read_back:
  assumes "nv_good st" "chip_ok acc lim (st_info 0x16) f" "commit_image linux_port st = Some (hdr, data)"
    "unat (nvh_len hdr) < NVRAM_SPACE" "linux_inv (nv_heap st0)" "linux_ready (nv_heap st0)"
    and c: "nvram_commit (Some (m25p64_mtd lim)) irq mem st f = Some (st', tr, 0)"
  shows "\<exists>st2 f'. linux_nvram_init (Some (m25p64_mtd lim)) True st0 (hd tr) = Some (st2, f', 0) \<and>
    (\<forall>n. n \<notin> sdram_names \<longrightarrow> nv_vals linux_port st2 n = nv_vals linux_port st' n) \<and>
    (\<not> nv_full st \<longrightarrow> nv_vals linux_port st \<subseteq>\<^sub>m nv_vals linux_port st2)"
proof -
  have ok: "nv_ok linux_inv linux_live st" "linux_ready (nv_heap st)" "\<forall>n\<in>dom (nv_vals linux_port st). name_ok n"
    using assms(1) by (simp_all add: nv_good_def)
  have sz: "unat (mtd_size (m25p64_mtd lim)) = 128 * SECTOR" using m25p64_size by (simp add: sflash_mtd_def)
  from m25p64.dev.nvram_commit_law [OF ok assms(2) m25p64_fits assms(3,4), of irq mem] c
  have g: "nv_commit linux_port st = Some (st', (hdr, data), 0)" "magic_valid (c_mem (hd tr))" "holds_image (c_mem (hd tr)) hdr data"
    and s: "\<forall>g\<in>set tr. m25p64.dev.commit_state lim 0 acc (c_mem f) hdr data g" "tr \<noteq> []"
    by auto
  have "chip_ok acc lim (st_info 0x16) (hd tr)"
    using s by (simp add: m25p64.dev.commit_state_def)
  then have len: "length (c_mem (hd tr)) = 128 * SECTOR" using m25p64_size by (simp add: chip_ok_def chip_inv_def)
  have L: "NVRAM_HEADER_SIZE \<le> unat (nvh_len hdr)"
    using commit_image_Some [of linux_port st] assms(3) by auto
  note hp = holds_image_parts [OF g(3) L]
  let ?p = "mtd_size (m25p64_mtd lim) - of_nat NVRAM_SPACE"
  have p: "unat ?p = 128 * SECTOR - NVRAM_SPACE"
    using m25p64.dev.commit_geometry(7) [OF m25p64_fits] sz by simp
  have "mtd_read (m25p64_mtd lim) (hd tr) ?p NVRAM_SPACE =
      (hd tr, 0, NVRAM_SPACE, take NVRAM_SPACE (drop (unat ?p) (c_mem (hd tr))))"
    using mtd_read_loop_law [of "unat ?p" NVRAM_SPACE "st_info 0x16" "hd tr" 0] p len m25p64_size
    by (simp add: sflash_mtd_def sflash_mtd_read_def NVRAM_SPACE_def SECTOR_def)
  also have "take NVRAM_SPACE (drop (unat ?p) (c_mem (hd tr))) = image_at (c_mem (hd tr))"
    using p len by (simp add: image_at_def SECTOR_def NVRAM_SPACE_def)
  finally have rd: "mtd_read (m25p64_mtd lim) (hd tr) ?p NVRAM_SPACE = (hd tr, 0, NVRAM_SPACE, image_at (c_mem (hd tr)))" .
  have m: "nvh_magic hdr = NVRAM_MAGIC" using commit_image_Some [of linux_port st] assms(3) by auto
  from readback_law [OF ok g(1,3) assms(5,6)] show ?thesis
    using rd hp(1) m by (auto simp: linux_nvram_init_def nvram_read_def nv_full_def not_less)
qed

theorem commit_read_back_witness:
  "\<exists>st' tr. nvram_commit (Some (m25p64_mtd 9)) False True fresh_nv fresh_chip = Some (st', tr, 0) \<and>
    (\<exists>st2 f'. linux_nvram_init (Some (m25p64_mtd 9)) True fresh_nv (hd tr) = Some (st2, f', 0) \<and>
      (\<forall>n. n \<notin> sdram_names \<longrightarrow> nv_vals linux_port st2 n = nv_vals linux_port st' n))"
proof -
  obtain hdr data where i: "commit_image linux_port fresh_nv = Some (hdr, data)" "unat (nvh_len hdr) < NVRAM_SPACE"
    using fresh_commit by blast
  have ok: "nv_ok linux_inv linux_live fresh_nv" "linux_ready (nv_heap fresh_nv)" "\<forall>n\<in>dom (nv_vals linux_port fresh_nv). name_ok n"
    using fresh_nv_good by (simp_all add: nv_good_def)
  obtain st' tr where c: "nvram_commit (Some (m25p64_mtd 9)) False True fresh_nv fresh_chip = Some (st', tr, 0)"
    using m25p64_live.live.nvram_commit_live [OF ok fresh_chip_ok m25p64_fits] by blast
  have h: "linux_inv (nv_heap fresh_nv)" "linux_ready (nv_heap fresh_nv)"
    using fresh_heap_ok by (simp_all add: fresh_nv_def)
  from commit_read_back [OF fresh_nv_good fresh_chip_ok i h c] c show ?thesis by blast
qed

text \<open>
  C7: On a chip that accepts every program and is seen busy with it when it is first polled, a
  commit outside an interrupt and with memory for the sector always ends and succeeds.
\<close>

theorem commit_succeeds:
  assumes "nv_good st" "chip_ok True lim (st_info 0x16) f"
  shows "\<exists>st' tr. nvram_commit (Some (m25p64_mtd lim)) False True st f = Some (st', tr, 0)"
  using m25p64_live.live.nvram_commit_live [OF _ _ _ assms(2) m25p64_fits] assms(1) by (simp add: nv_good_def)

theorem commit_succeeds_witness:
  "\<exists>st' tr. nvram_commit (Some (m25p64_mtd 9)) False True fresh_nv fresh_chip = Some (st', tr, 0)"
  by (rule commit_succeeds [OF fresh_nv_good fresh_chip_ok])

section \<open>Variables\<close>

text \<open>
  C10: Setting a variable either gives it the value and changes no other variable, or fails with
  \<open>-ENOMEM\<close> and changes none, whatever the value buffer and the allocator have left; the invariant
  of the table and the buffer is kept. The table is the map from names to values.
\<close>

theorem set_updates_map:
  assumes "nv_ok linux_inv linux_live st" "0 \<notin> set v"
  shows "case nv_set linux_port st n v of (st', r) \<Rightarrow> nv_ok linux_inv linux_live st' \<and>
    (r = 0 \<and> nv_vals linux_port st' = (nv_vals linux_port st)(n \<mapsto> v) \<or>
     r = - ENOMEM \<and> nv_vals linux_port st' = nv_vals linux_port st)"
  using linux_nv.set_law [OF assms surjective_pairing, of n] by (simp add: split_beta)

theorem set_updates_map_witness:
  "case nv_set linux_port fresh_nv (cstr ''a'') (cstr ''1'') of (st', r) \<Rightarrow>
    r = 0 \<and> nv_vals linux_port st' (cstr ''a'') = Some (cstr ''1'') \<or> r = - ENOMEM"
proof -
  have "nv_ok linux_inv linux_live fresh_nv" using fresh_nv_good by (simp add: nv_good_def)
  from set_updates_map [OF this, of "cstr ''1''" "cstr ''a''"] show ?thesis
    by (auto simp: cstr_def split: prod.splits)
qed

text \<open>
  Removing a variable removes it and no other, always succeeds, and keeps the invariant.
\<close>

theorem unset_updates_map:
  assumes "nv_ok linux_inv linux_live st"
  shows "case nv_unset linux_port st (Some n) of (st', r) \<Rightarrow> r = 0 \<and> nv_ok linux_inv linux_live st' \<and>
    nv_vals linux_port st' = (nv_vals linux_port st)(n := None)"
  using linux_nv.unset_law [OF assms, of n] by (simp add: split_beta)

theorem unset_updates_map_witness:
  "case nv_unset linux_port fresh_nv (Some (cstr ''a'')) of (st', r) \<Rightarrow> r = 0 \<and> nv_vals linux_port st' = Map.empty"
proof -
  have "nv_ok linux_inv linux_live fresh_nv" using fresh_nv_good by (simp add: nv_good_def)
  from unset_updates_map [OF this, of "cstr ''a''"] show ?thesis by (auto split: prod.splits)
qed

text \<open>
  C17: \<open>nvram_set\<close> of the kernel interface, with its retry after the table is rebuilt, always
  returns; success means that the variable has the value; no other variable changes its value
  (the memory parameters apart), though the rebuild may drop one when the image is full; when the
  table fits into the image none is dropped.
\<close>

theorem nvram_set_safe:
  assumes "nv_good st" "name_ok n" "0 \<notin> set v"
  shows "\<exists>st' r. nvram_set st n v = Some (st', r) \<and> nv_good st' \<and> (r = 0 \<or> r = - ENOMEM) \<and>
    (r = 0 \<longrightarrow> nv_vals linux_port st' n = Some v) \<and>
    (\<forall>k. k \<noteq> n \<and> k \<notin> sdram_names \<longrightarrow> nv_vals linux_port st' k = nv_vals linux_port st k \<or> nv_vals linux_port st' k = None) \<and>
    (\<not> nv_full st \<longrightarrow> (\<forall>k. k \<noteq> n \<and> nv_vals linux_port st k \<noteq> None \<longrightarrow> nv_vals linux_port st' k = nv_vals linux_port st k))"
  by (rule nvram_set_law [OF assms])

theorem nvram_set_safe_witness:
  "\<exists>st' r. nvram_set fresh_nv (cstr ''a'') (cstr ''1'') = Some (st', r) \<and> nv_good st' \<and>
    (r = 0 \<longrightarrow> nv_vals linux_port st' (cstr ''a'') = Some (cstr ''1''))"
  using nvram_set_safe [OF fresh_nv_good, of "cstr ''a''" "cstr ''1''"] by (auto simp: name_ok_def cstr_def)

text \<open>
  C18: Reading an image always ends inside the block, whatever the block holds, loads every variable
  of it, the last value of a name that occurs twice, and sets nothing else but the four memory
  parameters.
\<close>

theorem rehash_loads_image:
  assumes "linux_inv (nv_heap st)" "linux_ready (nv_heap st)"
  shows "\<exists>kvs st'. image_vars (image_area data) = Some kvs \<and> nv_rehash linux_port st header data = Some (st', 0) \<and>
    map_of (rev kvs) \<subseteq>\<^sub>m nv_vals linux_port st' \<and>
    (\<forall>n. n \<notin> sdram_names \<longrightarrow> nv_vals linux_port st' n = map_of (rev kvs) n)"
proof -
  obtain kvs where "image_vars (image_area data) = Some kvs" using image_area_closed by blast
  with linux_nv.rehash_law [OF assms this, of header] show ?thesis by blast
qed

theorem rehash_loads_image_witness:
  "\<exists>kvs st'. image_vars (image_area [97, 61, 49, 0]) = Some kvs \<and>
    nv_rehash linux_port fresh_nv a_header [97, 61, 49, 0] = Some (st', 0) \<and> map_of (rev kvs) \<subseteq>\<^sub>m nv_vals linux_port st'"
proof -
  have "linux_inv (nv_heap fresh_nv)" "linux_ready (nv_heap fresh_nv)" using fresh_heap_ok by (simp_all add: fresh_nv_def)
  from rehash_loads_image [OF this, of "[97, 61, 49, 0]" a_header] show ?thesis by blast
qed

lemma getall_chain_bound: "length out \<le> count \<Longrightarrow> length (getall_chain P h count out ts) \<le> count"
proof (induction ts arbitrary: out)
  case (Cons t ts)
  then show ?case by (auto simp: length_nv_entry)
qed simp

text \<open>
  A listing of the variables fills the caller's buffer exactly, however many variables there are
  and however small it is.
\<close>

theorem getall_bound: "length (fst (nv_getall P st count)) = count"
proof -
  have "length (foldl (\<lambda>out i. getall_chain P (nv_heap st) count out (nvram_hash st i)) [] is) \<le> count" for "is"
    by (induction "is" rule: rev_induct) (simp_all add: getall_chain_bound)
  then show ?thesis by (simp add: nv_getall_def Let_def)
qed

text \<open>
  C27: The image a commit makes holds \<open>name=value\<close> strings of variables of the table, in the order of the table and all of them when
  they fit; behind the last one the data area is zero to its end, and the length in the header takes in
  at least two of these NULs. The length is a multiple of 4 and fits into the block, and the checksum over it is one
  that the reader's check accepts.
\<close>

theorem commit_image_valid:
  "\<exists>hdr data us. commit_image P st = Some (hdr, data) \<and> length data = NVRAM_SPACE - NVRAM_HEADER_SIZE \<and>
     nvh_magic hdr = NVRAM_MAGIC \<and> unat (nvh_len hdr) \<le> NVRAM_SPACE \<and> 4 dvd unat (nvh_len hdr) \<and>
     subseq us (nvram_tuples st) \<and>
     (length (nv_bytes P (nv_heap st) (nvram_tuples st)) \<le> AREA \<longrightarrow> us = nvram_tuples st) \<and>
     data = nv_bytes P (nv_heap st) us @ replicate (length data - length (nv_bytes P (nv_heap st) us)) 0 \<and>
     NVRAM_HEADER_SIZE + length (nv_bytes P (nv_heap st) us) + 2 \<le> unat (nvh_len hdr) \<and>
     nvram_calc_crc hdr data = Some (ucast (nvh_crc_ver_init hdr))"
proof -
  obtain us where us: "subseq us (nvram_tuples st)" "commit_table P st = nv_bytes P (nv_heap st) us"
      "length (nv_bytes P (nv_heap st) (nvram_tuples st)) \<le> AREA \<longrightarrow> us = nvram_tuples st"
    using commit_table_part [of st P] commit_table_fits [of P st] by (metis subseq_order.refl)
  with commit_image_Some [of P st] show ?thesis by auto
qed

text \<open>A table with the one variable \<open>a\<close>, which is 1.\<close>

definition one_nv :: "linux_heap nvram" where
  "one_nv = \<lparr>nvram_hash = (\<lambda>i. if i = nvram_bucket (cstr ''a'') then [\<lparr>nt_addr = 1, nt_name = cstr ''a'', nt_value = 0\<rparr>] else []),
     nvram_dead = [], nv_heap = fresh_heap\<lparr>nvram_buf := [49, 0], nvram_offset := 2\<rparr>\<rparr>"

lemma ht_nodes_single: "ht_nodes n (\<lambda>i. if i = k then xs else []) = (if k < n then xs else [])"
  by (induction n) (auto simp: ht_nodes_Suc ht_nodes_def)

theorem commit_image_valid_witness:
  "\<exists>hdr data. commit_image linux_port one_nv = Some (hdr, data) \<and> take 6 data = [97, 61, 49, 0, 0, 0] \<and>
    26 \<le> unat (nvh_len hdr) \<and> nvram_calc_crc hdr data = Some (ucast (nvh_crc_ver_init hdr))"
proof -
  have "nvram_tuples one_nv = [\<lparr>nt_addr = 1, nt_name = cstr ''a'', nt_value = 0\<rparr>]"
    unfolding one_nv_def using nvt.hash_bound by (simp add: ht_nodes_single)
  then have b: "nv_bytes linux_port (nv_heap one_nv) (nvram_tuples one_nv) = [97, 61, 49, 0]"
    by (simp add: nv_entry_def linux_port_def c_string_def one_nv_def cstr_def)
  obtain hdr data us where i: "commit_image linux_port one_nv = Some (hdr, data)" "us = nvram_tuples one_nv"
      "length data = NVRAM_SPACE - NVRAM_HEADER_SIZE"
      "data = nv_bytes linux_port (nv_heap one_nv) us @ replicate (length data - length (nv_bytes linux_port (nv_heap one_nv) us)) 0"
      "NVRAM_HEADER_SIZE + length (nv_bytes linux_port (nv_heap one_nv) us) + 2 \<le> unat (nvh_len hdr)"
      "nvram_calc_crc hdr data = Some (ucast (nvh_crc_ver_init hdr))"
    using commit_image_valid [of linux_port one_nv] b by (auto simp: AREA_eq)
  have "take 6 data = [97, 61, 49, 0, 0, 0]"
  proof -
    have "take 6 data = [97, 61, 49, 0] @ take 2 (replicate (length data - 4) 0)" by (subst i(4)) (simp add: i(2) b)
    also have "take 2 (replicate (length data - 4) (0 :: u8)) = [0, 0]"
      using i(3) by (simp add: NVRAM_SPACE_def NVRAM_HEADER_SIZE_def numeral_2_eq_2)
    finally show ?thesis by simp
  qed
  then show ?thesis using i(1,5,6) b i(2) by (simp add: NVRAM_HEADER_SIZE_def)
qed

text \<open>
  C28: Reading an image and committing the table makes a header whose memory parameters are, each for itself, the number the
  image's variable of that name holds (the last one's, cut to 16 bits where the header has a half word), and without such a variable the
  one the header had before: those go through variables in hexadecimal and back to the same words. The image must have all four
  variables, as an image made by a commit with them has, or leave 32 bytes of the value buffer for the defaults.
\<close>

theorem header_round_trip:
  assumes "linux_inv (nv_heap st)" "linux_ready (nv_heap st)" "image_vars (image_area data) = Some kvs" "params_fit kvs"
  shows "\<exists>st'. nv_rehash linux_port st hdr data = Some (st', 0) \<and>
    (let H = commit_header linux_port st'; m = map_of (rev kvs) in
     drop_bit 16 (nvh_crc_ver_init H) = image_param m sdram_init (drop_bit 16 (nvh_crc_ver_init hdr)) AND 0xffff \<and>
     nvh_config_refresh H AND 0xffff = image_param m sdram_config (nvh_config_refresh hdr) AND 0xffff \<and>
     drop_bit 16 (nvh_config_refresh H) = image_param m sdram_refresh (drop_bit 16 (nvh_config_refresh hdr)) AND 0xffff \<and>
     nvh_config_ncdl H = image_param m sdram_ncdl (nvh_config_ncdl hdr))"
proof -
  obtain st' where r: "nv_rehash linux_port st hdr data = Some (st', 0)"
    using linux_nv.rehash_law [OF assms(1-3), of hdr] by blast
  then show ?thesis using linux_nv.rehash_header [OF assms r] by (simp add: Let_def)
qed

text \<open>
  A header written from a table with all four parameters stays as it is over further commits, when the table fits into the image.
\<close>

theorem committed_header_stable:
  assumes "nv_good st" "\<not> nv_full st" "sdram_names \<subseteq> dom (nv_vals linux_port st)"
    "nv_commit linux_port st = Some (st', img, r)"
  shows "commit_header linux_port st' = commit_header linux_port st"
  using linux_nv.commit_header_stable [OF _ _ _ _ assms(3,4)] assms(1,2) by (simp add: nv_good_def nv_full_def)

lemma image_area_zero: "\<exists>r. image_area (replicate k 0) = 0 # r"
  by (cases k; cases "NVRAM_SPACE - NVRAM_HEADER_SIZE - 2") (auto simp: image_area_def)

lemma image_vars_zero: "image_vars (image_area (replicate k 0)) = Some []"
  using image_area_zero [of k] image_vars_bytes [of "[]"] by auto

text \<open>An image with two of the parameters.\<close>

definition two_params :: "(cstr \<times> cstr) list" where
  "two_params = [(sdram_config, cstr ''0x62''), (sdram_ncdl, cstr ''7'')]"

lemma two_params_image: "image_vars (image_area (concat (map var_bytes two_params) @ [0])) = Some two_params"
proof -
  have "length (concat (map var_bytes two_params) @ [0]) \<le> NVRAM_SPACE - NVRAM_HEADER_SIZE - 2"
    by (simp add: two_params_def var_bytes_def sdram_config_def sdram_ncdl_def cstr_def NVRAM_SPACE_def NVRAM_HEADER_SIZE_def)
  then have "image_area (concat (map var_bytes two_params) @ [0]) = concat (map var_bytes two_params) @ 0 # [0, 0]"
    by (simp add: image_area_def)
  moreover have "\<forall>nv\<in>set two_params. var_ok nv"
    by (simp add: two_params_def var_ok_def sdram_config_def sdram_ncdl_def cstr_def)
  ultimately show ?thesis using image_vars_bytes [of two_params "[0, 0]"] by simp
qed

theorem header_round_trip_witness:
  "\<exists>st'. nv_rehash linux_port fresh_nv a_header (concat (map var_bytes two_params) @ [0]) = Some (st', 0) \<and>
    drop_bit 16 (nvh_crc_ver_init (commit_header linux_port st')) = 0x419 \<and>
    nvh_config_refresh (commit_header linux_port st') AND 0xffff = 0x62 \<and>
    drop_bit 16 (nvh_config_refresh (commit_header linux_port st')) = 0x8040 \<and>
    nvh_config_ncdl (commit_header linux_port st') = 7"
proof -
  have h: "linux_inv (nv_heap fresh_nv)" "linux_ready (nv_heap fresh_nv)" using fresh_heap_ok by (simp_all add: fresh_nv_def)
  have fit: "params_fit two_params" by (simp add: params_fit_def two_params_def cstr_def NVRAM_SPACE_def)
  have num: "bcm_strtoul (cstr ''0x62'') 0 = (0x62, Some [])" "bcm_strtoul (cstr ''7'') 0 = (7, Some [])" by code_simp+
  have m: "image_param (map_of (rev two_params)) sdram_init w = w" "image_param (map_of (rev two_params)) sdram_config w = 0x62"
    "image_param (map_of (rev two_params)) sdram_refresh w = w" "image_param (map_of (rev two_params)) sdram_ncdl w = 7" for w
    using sdram_distinct num by (simp_all add: image_param_def two_params_def)
  show ?thesis
    using header_round_trip [OF h two_params_image fit, of a_header] unfolding m Let_def by (simp add: a_header_def)
qed

text \<open>
  C29: Before the device is up, a lookup in the raw image gives the value the table will have once
  the same image is loaded, when no name occurs twice in it. The exceptions are the four memory parameters where the image does
  not have them: the lookup then gives \<open>NULL\<close>, while the table gets the header's value as a default when its buffer has
  space for it.
\<close>

theorem early_get_agrees:
  assumes "length buf = NVRAM_SPACE" "buf ! 0 \<noteq> 0" "image_vars (image_area (drop NVRAM_HEADER_SIZE buf)) = Some kvs"
    "distinct (map fst kvs)" "linux_inv (nv_heap st)" "linux_ready (nv_heap st)"
  shows "\<exists>st'. nv_rehash linux_port st header (drop NVRAM_HEADER_SIZE buf) = Some (st', 0) \<and>
    early_nvram_get True c fl buf (Some n) =
      Some (close_buf buf, if n \<in> sdram_names \<and> n \<notin> fst ` set kvs then None else nv_vals linux_port st' n) \<and>
    (n \<in> sdram_names \<and> n \<notin> fst ` set kvs \<and> params_fit kvs \<longrightarrow>
      nv_vals linux_port st' n = map_of (sdram_defaults header) n \<and> nv_vals linux_port st' n \<noteq> None)"
proof -
  have same: "map_of (rev kvs) = map_of kvs"
    by (subst map_of_inject_set) (use assms(4) in \<open>simp_all flip: rev_map\<close>)
  obtain st' where st': "nv_rehash linux_port st header (drop NVRAM_HEADER_SIZE buf) = Some (st', 0)"
      "map_of kvs \<subseteq>\<^sub>m nv_vals linux_port st'" "\<forall>n. n \<notin> sdram_names \<longrightarrow> nv_vals linux_port st' n = map_of kvs n"
    using linux_nv.rehash_law [OF assms(5,6,3), of header] same by auto
  have none: "map_of kvs n = None \<longleftrightarrow> n \<notin> fst ` set kvs" by (rule map_of_eq_None_iff)
  have "map_of kvs n = nv_vals linux_port st' n" if "\<not> (n \<in> sdram_names \<and> n \<notin> fst ` set kvs)"
    using that st'(2,3) none unfolding map_le_def by (cases "n \<in> sdram_names") (auto simp: dom_def)
  then have "early_nvram_get True c fl buf (Some n) =
      Some (close_buf buf, if n \<in> sdram_names \<and> n \<notin> fst ` set kvs then None else nv_vals linux_port st' n)"
    using early_get_image [OF assms(1-3), of c fl n] none by auto
  moreover have "nv_vals linux_port st' n = map_of (sdram_defaults header) n \<and> nv_vals linux_port st' n \<noteq> None"
    if "n \<in> sdram_names" "n \<notin> fst ` set kvs" "params_fit kvs"
  proof -
    have "nv_vals linux_port st' n = (map_of (sdram_defaults header) ++ map_of kvs) n"
      using linux_nv.rehash_vals [OF assms(5,6,3) that(3) st'(1)] same by simp
    then have "nv_vals linux_port st' n = map_of (sdram_defaults header) n" using none that(2) by (simp add: map_add_def)
    moreover have "map_of (sdram_defaults header) n \<noteq> None"
      using that(1) by (auto simp: sdram_defaults_def sdram_names_def)
    ultimately show ?thesis by simp
  qed
  ultimately show ?thesis using st'(1) by blast
qed

theorem early_get_agrees_witness:
  "\<exists>st'. nv_rehash linux_port fresh_nv a_header (replicate (NVRAM_SPACE - NVRAM_HEADER_SIZE) 0) = Some (st', 0) \<and>
    early_nvram_get True CORE_PFLASH [] (70 # replicate (NVRAM_SPACE - 1) 0) (Some sdram_init) =
      Some (close_buf (70 # replicate (NVRAM_SPACE - 1) 0), None) \<and>
    nv_vals linux_port st' sdram_init = Some (fmt_hex 4 0x419)"
proof -
  let ?b = "70 # replicate (NVRAM_SPACE - 1) 0 :: bytes"
  have d: "drop NVRAM_HEADER_SIZE ?b = replicate (NVRAM_SPACE - NVRAM_HEADER_SIZE) 0"
    by (simp add: NVRAM_HEADER_SIZE_def NVRAM_SPACE_def)
  have h: "linux_inv (nv_heap fresh_nv)" "linux_ready (nv_heap fresh_nv)" using fresh_heap_ok by (simp_all add: fresh_nv_def)
  have n: "sdram_init \<in> sdram_names" "params_fit []" "map_of (sdram_defaults a_header) sdram_init = Some (fmt_hex 4 0x419)"
    by (simp_all add: sdram_names_def params_fit_def NVRAM_SPACE_def sdram_defaults_def a_header_def)
  show ?thesis
    using early_get_agrees [of ?b "[]" fresh_nv a_header CORE_PFLASH "[]" sdram_init] d h n image_vars_zero
    by (auto simp: NVRAM_SPACE_def)
qed

section \<open>The character device\<close>

text \<open>
  Writing \<open>name=value\<close>, closed by a NUL, to the device sets the variable: the call returns the
  length of the request exactly when the value is in the table, and \<open>-ENOMEM\<close> otherwise.
\<close>

theorem dev_write_sets:
  assumes g: "nv_good st" and n: "name_ok n" and v: "0 \<notin> set v"
    and u: "user = n @ 61 # v @ 0 # rest" "count = length user"
  shows "\<exists>st' r. dev_nvram_write st count (Some user) stack = Some (st', r) \<and> nv_good st' \<and>
    (r = int count \<and> nv_vals linux_port st' n = Some v \<or> r = - ENOMEM)"
proof -
  let ?m = "user @ (if count > 100 then [] else drop count stack)"
  obtain os p where m: "(if count > 100 then MALLOC (lx_os (nv_heap st)) else (lx_os (nv_heap st), 1)) = (os, p)" by force
  have ok: "nv_ok linux_inv linux_live st" "linux_ready (nv_heap st)" using g by (simp_all add: nv_good_def)
  have tick: "nv_good (linux_tick st os) \<and> p \<noteq> 0"
  proof (cases "count > 100")
    case True
    then have "MALLOC (lx_os (nv_heap st)) = (os, p)" using m by simp
    from linux_tick_law [OF ok this] g show ?thesis by (simp add: nv_good_def)
  next
    case False
    then have "linux_tick st os = st" "p = 1" using m by (auto simp: linux_tick_def)
    then show ?thesis using g by simp
  qed
  have req: "dev_request st count (Some user) stack = (linux_tick st os, Inr ?m)"
    using m tick u(2) by (simp add: dev_request_def linux_tick_def)
  have name: "takeWhile (\<lambda>c. c \<noteq> 0 \<and> c \<noteq> 61) ?m = n"
  proof -
    have "\<forall>c\<in>set n. c \<noteq> 0 \<and> c \<noteq> 61" using n by (auto simp: name_ok_def)
    then show ?thesis unfolding u(1) by (simp add: takeWhile_append2)
  qed
  have val: "c_string (v @ 0 # w) 0 = v" for w using v by (simp add: c_string_def takeWhile_zero)
  obtain st' r where s: "nvram_set (linux_tick st os) n v = Some (st', r)" "nv_good st'" "r = 0 \<or> r = - ENOMEM"
    "r = 0 \<longrightarrow> nv_vals linux_port st' n = Some v"
    using nvram_set_law [OF tick [THEN conjunct1] n v] by blast
  have "dev_nvram_write st count (Some user) stack = Some (st', if r \<noteq> 0 then r else int count)"
    unfolding dev_nvram_write_def req using name s(1) val by (simp add: u(1) Let_def)
  then show ?thesis using s by auto
qed

theorem dev_write_sets_witness:
  "\<exists>st' r. dev_nvram_write fresh_nv (length [97, 61, 49, 0 :: u8]) (Some [97, 61, 49, 0]) [] = Some (st', r) \<and>
    nv_good st' \<and> (r = int (length [97, 61, 49, 0 :: u8]) \<and> nv_vals linux_port st' [97] = Some [49] \<or> r = - ENOMEM)"
proof -
  have n: "name_ok [97]" and v: "0 \<notin> set [49 :: u8]" by (simp_all add: name_ok_def)
  have u: "[97, 61, 49, 0] = [97] @ 61 # [49] @ 0 # ([] :: bytes)" by simp
  show ?thesis by (rule dev_write_sets [OF fresh_nv_good n v u refl])
qed

text \<open>
  A read request of more than 100 bytes that holds no NUL makes the driver look for the end of
  the name behind the buffer it has allocated.
\<close>

theorem dev_read_unterminated:
  assumes "100 < count" "length b = count" "0 \<notin> set b" "linux_ready (nv_heap st)"
  shows "dev_nvram_read st count (Some b) stack out_ok = None"
proof -
  have "snd (MALLOC (lx_os (nv_heap st))) \<noteq> 0" using assms(4) by (simp add: linux_ready_def)
  moreover have "b \<noteq> []" "hd b \<noteq> 0" using assms(1-3) by (cases b; auto)+
  ultimately show ?thesis
    using assms by (simp add: dev_nvram_read_def dev_request_def split_beta Let_def)
qed

theorem dev_read_unterminated_witness: "dev_nvram_read fresh_nv 101 (Some (replicate 101 65)) [] True = None"
  using dev_read_unterminated [of 101 "replicate 101 65" fresh_nv "[]" True] fresh_heap_ok by (simp add: fresh_nv_def)

section \<open>The serial flash\<close>

text \<open>
  C30: A write to the flash device always returns; it clears only bits of its own range; when it
  reports success and the range ends before the end of the chip, every byte is programmed, and
  a chip that accepts its programs gives success.
\<close>

theorem flash_write_programs:
  assumes "chip_ok acc lim (st_info 0x16) c" "b \<noteq> []" "to + length b \<le> 128 * SECTOR"
  shows "\<exists>c' r len. sflash_mtd_write lim board_si (st_info 0x16) c to b = Some (c', r, len) \<and>
    chip_ok acc lim (st_info 0x16) c' \<and> prog_some (c_mem c) (c_mem c') to b \<and> (acc \<longrightarrow> r = 0) \<and>
    (r = 0 \<longrightarrow> len = length b) \<and> (r = 0 \<and> to + length b < 128 * SECTOR \<longrightarrow> prog_all (c_mem c) (c_mem c') to b)"
proof -
  have "sf_type (st_info 0x16) = SFLASH_ST" "held_write board_si"
    by (simp_all add: st_info_def held_write_def board_si_def)
  from mtd_write_loop_law [OF assms(1) this, of to b 0] assms(2,3) m25p64_size show ?thesis
    by (auto simp: sflash_mtd_write_def)
qed

theorem flash_write_programs_witness:
  "\<exists>c' r len. sflash_mtd_write 9 board_si (st_info 0x16) fresh_chip 255 [1, 2] = Some (c', r, len) \<and> r = 0 \<and>
    prog_all (c_mem fresh_chip) (c_mem c') 255 [1, 2]"
  using flash_write_programs [OF fresh_chip_ok, of "[1, 2]" 255] by (auto simp: SECTOR_def)

text \<open>
  A program that the chip rejects is reported as written when it ends at the end of the chip: the
  status poll there is refused for its offset, and the refusal is taken for a busy chip.
\<close>

theorem flash_end_unnoticed:
  assumes "chip_ok acc lim (st_info 0x16) c" "\<not> c_accept c (c_seq c)"
  shows "\<exists>c'. sflash_mtd_write lim board_si (st_info 0x16) c (128 * SECTOR - 1) [b] = Some (c', 0, 1) \<and>
    c_mem c' = c_mem c"
proof -
  let ?sfl = "st_info 0x16" and ?p = "128 * SECTOR - 1"
  have sz: "sf_size ?sfl = 8388608" "sf_type ?sfl = SFLASH_ST" "?p = 8388607"
    by (simp_all add: st_info_def sflash_st_blocks_def SECTOR_def)
  have h: "c_held c = None" "c_busy c = 0" "\<not> c_cs c" "chip_inv acc lim ?sfl c"
    using assms(1) by (simp_all add: chip_ok_def chip_inv_def)
  define c1 where "c1 = c\<lparr>c_addr := 8388607, c_data := ucast b, c_wel := False, c_seq := Suc (c_seq c)\<rparr>"
  have "st_attempt False ?sfl c 8388607 [b] = (c1, 1, False, - 22)"
  proof -
    have "sflash_cmd (set_data (set_addr (c\<lparr>c_wel := True\<rparr>) 8388607) (ucast b)) (SFLASH_ST_CSA OR SFLASH_ST_PP) =
        c\<lparr>c_addr := 8388607, c_data := ucast b, c_wel := True, c_held := Some (8388607, [ucast (ucast b :: u32)])\<rparr>"
      using cmd_PP_held [of "set_data (set_addr (c\<lparr>c_wel := True\<rparr>) 8388607) (ucast b)" SFLASH_ST_CSA] h
      by (simp add: set_data_def set_addr_def)
    then show ?thesis
      using h assms(2) sz cmd_WREN [OF h(1,2)]
      by (simp add: st_attempt_def chip_release_def chip_start_def sflash_poll_def c1_def)
  qed
  then have w: "sflash_write board_si ?sfl c 8388607 [b] = (c1, 1)"
    using sz by (simp add: sflash_write_def board_si_def st_write.simps ST_RETRIES_def BCM4712_CHIP_ID_def)
  have "chip_inv acc lim ?sfl c1" using h(4) by (simp add: chip_inv_def c1_def)
  then obtain c2 where p: "sflash_mtd_poll lim ?sfl c1 8388607 = (c2, 0)" "c_mem c2 = c_mem c1"
    using mtd_poll_law [of acc lim ?sfl c1 8388607 lim] sz h(2) by (auto simp: c1_def)
  show ?thesis
    unfolding sz(3) using w p sz
    by (simp add: sflash_mtd_write_def mtd_write_loop.simps c1_def)
qed

theorem flash_end_unnoticed_witness:
  "\<exists>c'. sflash_mtd_write 9 board_si (st_info 0x16) (fresh_chip\<lparr>c_accept := \<lambda>_. False\<rparr>) (128 * SECTOR - 1) [0] = Some (c', 0, 1) \<and>
    c_mem c' = c_mem fresh_chip"
proof -
  have "chip_ok False 9 (st_info 0x16) (fresh_chip\<lparr>c_accept := \<lambda>_. False\<rparr>)"
    using fresh_chip_ok by (simp add: chip_ok_def chip_inv_def)
  from flash_end_unnoticed [OF this, of 0] show ?thesis by simp
qed

text \<open>
  An erase of a sector's length at an address that is not the start of a sector reports success
  and erases nothing.
\<close>

theorem erase_misaligned:
  assumes "st_geometry sfl" "\<not> SECTOR dvd unat a" "a + sf_blocksize sfl \<le> sf_size sfl"
  shows "sflash_mtd_erase lim sfl c a (sf_blocksize sfl) = (c, 0)"
proof -
  have "a \<noteq> sf_blocksize sfl * of_nat j" if "j < unat (sf_numblocks sfl)" for j
    using st_geometry_unat(1) [OF assms(1) that] assms(2) by auto
  then have "mtd_erase_loop lim sfl ([0..<unat (sf_numblocks sfl)] @ []) c a (sf_blocksize sfl) =
      mtd_erase_loop lim sfl [] c a (sf_blocksize sfl)"
    by (intro erase_loop_skip) simp
  then show ?thesis using assms(3) by (auto simp: sflash_mtd_erase_def leD)
qed

theorem erase_misaligned_witness:
  "sflash_mtd_erase 9 (st_info 0x11) fresh_chip 4 (sf_blocksize (st_info 0x11)) = (fresh_chip, 0)"
  using erase_misaligned [of "st_info 0x11" 4 9 fresh_chip] st_info_geometry [of "0x11"]
  by (simp add: st_parts_def SECTOR_def st_info_def sflash_st_blocks_def)

section \<open>Checksums and numbers\<close>

text \<open>
  C35: The CRC-32 routine, which takes whole words where the buffer is aligned, computes the division
  by the reflected polynomial bit by bit, whatever the alignment of the buffer.
\<close>

theorem crc32_is_division: "hndcrc32 p b c = crc_ref 0xedb88320 b c"
  by (simp add: hndcrc32_bytes crc32_bytes_ref)

text \<open>
  The table-driven CRC-8 and CRC-16 routines compute the division by their polynomials bit by bit.
\<close>

theorem crc8_crc16_are_division:
  "hndcrc8 b c = crc_ref 0xab b c \<and> hndcrc16 b d = crc_ref 0x8408 b d"
  by (simp add: hndcrc8_ref hndcrc16_ref)

text \<open>
  Data with its complemented check value appended, low byte first, gives the documented good value,
  for each of the three checksums.
\<close>

theorem crc_good_values:
  "hndcrc8 (b @ [NOT (hndcrc8 b x)]) x = CRC8_GOOD_VALUE \<and>
   hndcrc16 (b @ (let c = NOT (hndcrc16 b y) in [ucast c, ucast (drop_bit 8 c)])) y = CRC16_GOOD_VALUE \<and>
   hndcrc32 p (b @ (let c = NOT (hndcrc32 q b z) in [ucast c, ucast (drop_bit 8 c), ucast (drop_bit 16 c), ucast (drop_bit 24 c)])) z =
     CRC32_GOOD_VALUE"
proof -
  have app: "crc_ref p (xs @ ys) c = crc_ref p ys (crc_ref p xs c)" for p c :: "'a::len word" and xs ys
    by (induction xs arbitrary: c) simp_all
  show ?thesis
    by (simp add: hndcrc8_ref hndcrc16_ref hndcrc32_bytes crc32_bytes_ref app crc8_residue crc16_residue crc32_residue Let_def del: crc_ref_Cons)
qed

text \<open>
  \<open>bcm_strtoul\<close> reads the hexadecimal form the store writes, in base 0, back to the number, and
  stops at the first character that is not a hexadecimal digit.
\<close>

theorem strtoul_reads_hex:
  assumes "n < 16 ^ k" "n < 2 ^ 32" "ends_digits 16 cp"
  shows "bcm_strtoul (fmt_hex k n @ cp) 0 = (of_nat n, Some cp)"
  by (rule strtoul_hex [OF assms])

theorem strtoul_reads_hex_witness: "bcm_strtoul (fmt_hex 4 0x419 @ [59]) 0 = (0x419, Some [59])"
  using strtoul_reads_hex [of "0x419" 4 "[59]"] by (simp add: ends_digits_def) code_simp

text \<open>
  The overflow check of \<open>bcm_strtoul\<close> compares with the previous value only and misses products
  that wrap past it: 6000000000 is read as 1705032704, without a sign of overflow.
\<close>

theorem strtoul_overflow_missed: "bcm_strtoul (cstr ''6000000000'') 10 = (1705032704, Some [])"
  by code_simp

end
