(* ===== verification/Pktq.thy ===== *)
theory Pktq
  imports Router_Prelude
begin

text \<open>
  The packet queues of bcmutils.c: lists of packets threaded through the packets' link words, one list
  per precedence. A packet is its address, and the link words are a map from addresses. \<open>None\<close> is an
  access through a null pointer or outside the array of precedences, or a walk that does not end.
  The assertions of the code are compiled out and not part of the model.
\<close>

section \<open>Data\<close>

type_synonym links = "addr \<Rightarrow> addr"

record pktq_prec =
  q_head :: addr
  q_tail :: addr
  q_len :: u16
  q_max :: u16

record pktq =
  pq_num_prec :: u16
  pq_hi_prec :: u16
  pq_max :: u16
  pq_len :: u16
  pq_q :: "pktq_prec list"

definition PKTQ_MAX_PREC :: nat where "PKTQ_MAX_PREC = 16"

definition pktq_full :: "pktq \<Rightarrow> bool" where
  "pktq_full pq \<longleftrightarrow> pq_len pq \<ge> pq_max pq"

definition pktq_pfull :: "pktq \<Rightarrow> nat \<Rightarrow> bool" where
  "pktq_pfull pq prec \<longleftrightarrow> q_len (pq_q pq ! prec) \<ge> q_max (pq_q pq ! prec)"

definition pktq_init :: "pktq \<Rightarrow> nat \<Rightarrow> int \<Rightarrow> pktq option" where
  "pktq_init pq num_prec max_len =
     (if length (pq_q pq) < num_prec then None
      else Some \<lparr>pq_num_prec = of_nat num_prec, pq_hi_prec = 0, pq_max = of_int max_len, pq_len = 0,
        pq_q = replicate num_prec \<lparr>q_head = 0, q_tail = 0, q_len = 0, q_max = of_int max_len\<rparr> @ drop num_prec (pq_q pq)\<rparr>)"

section \<open>One precedence\<close>

definition pktq_penq :: "links \<Rightarrow> pktq \<Rightarrow> nat \<Rightarrow> addr \<Rightarrow> (links \<times> pktq \<times> addr) option" where
  "pktq_penq L pq prec p =
     (if length (pq_q pq) \<le> prec then None
      else
        let q = pq_q pq ! prec in
        if q_head q \<noteq> 0 \<and> q_tail q = 0 then None
        else
          let L' = (if q_head q \<noteq> 0 then L(q_tail q := p) else L);
              q1 = (if q_head q \<noteq> 0 then q else q\<lparr>q_head := p\<rparr>);
              q2 = q1\<lparr>q_tail := p, q_len := q_len q1 + 1\<rparr>
          in Some (L', pq\<lparr>pq_q := (pq_q pq)[prec := q2], pq_len := pq_len pq + 1,
               pq_hi_prec := (if unat (pq_hi_prec pq) < prec then ucast (of_nat prec :: u8) else pq_hi_prec pq)\<rparr>, p))"

definition pktq_penq_head :: "links \<Rightarrow> pktq \<Rightarrow> nat \<Rightarrow> addr \<Rightarrow> (links \<times> pktq \<times> addr) option" where
  "pktq_penq_head L pq prec p =
     (if length (pq_q pq) \<le> prec then None
      else
        let q = pq_q pq ! prec;
            q1 = (if q_head q = 0 then q\<lparr>q_tail := p\<rparr> else q);
            L' = L(p := q_head q1);
            q2 = q1\<lparr>q_head := p, q_len := q_len q1 + 1\<rparr>
        in Some (L', pq\<lparr>pq_q := (pq_q pq)[prec := q2], pq_len := pq_len pq + 1,
             pq_hi_prec := (if unat (pq_hi_prec pq) < prec then ucast (of_nat prec :: u8) else pq_hi_prec pq)\<rparr>, p))"

text \<open>The first packet of a precedence is taken out; 0 when there is none.\<close>

definition take_head :: "links \<Rightarrow> pktq \<Rightarrow> nat \<Rightarrow> links \<times> pktq \<times> addr" where
  "take_head L pq prec =
     (let q = pq_q pq ! prec; p = q_head q in
      if p = 0 then (L, pq, 0)
      else
        let q1 = q\<lparr>q_head := L p\<rparr>; q2 = (if L p = 0 then q1\<lparr>q_tail := 0\<rparr> else q1);
            q3 = q2\<lparr>q_len := q_len q2 - 1\<rparr>
        in (L(p := 0), pq\<lparr>pq_q := (pq_q pq)[prec := q3], pq_len := pq_len pq - 1\<rparr>, p))"

definition pktq_pdeq :: "links \<Rightarrow> pktq \<Rightarrow> nat \<Rightarrow> (links \<times> pktq \<times> addr) option" where
  "pktq_pdeq L pq prec = (if length (pq_q pq) \<le> prec then None else Some (take_head L pq prec))"

text \<open>\<open>for (prev = NULL; p != q->tail; p = PKTLINK(p)) prev = p;\<close>\<close>

partial_function (option) walk_to :: "links \<Rightarrow> addr \<Rightarrow> addr \<Rightarrow> addr \<Rightarrow> (addr \<times> addr) option" where
  "walk_to L prev p t = (if p = t then Some (prev, p) else if p = 0 then None else walk_to L p (L p) t)"

text \<open>The last packet of a precedence; only \<open>pktq_deq_tail\<close> clears its link (\<open>clr\<close>).\<close>

definition take_tail :: "bool \<Rightarrow> links \<Rightarrow> pktq \<Rightarrow> nat \<Rightarrow> (links \<times> pktq \<times> addr) option" where
  "take_tail clr L pq prec =
     (let q = pq_q pq ! prec in
      if q_head q = 0 then Some (L, pq, 0)
      else
        (case walk_to L 0 (q_head q) (q_tail q) of
           None \<Rightarrow> None
         | Some (prev, p) \<Rightarrow>
             let L1 = (if prev \<noteq> 0 then L(prev := 0) else L);
                 q1 = (if prev \<noteq> 0 then q else q\<lparr>q_head := 0\<rparr>);
                 q2 = q1\<lparr>q_tail := prev, q_len := q_len q1 - 1\<rparr>
             in Some (if clr then L1(p := 0) else L1,
                  pq\<lparr>pq_q := (pq_q pq)[prec := q2], pq_len := pq_len pq - 1\<rparr>, p)))"

definition pktq_pdeq_tail :: "links \<Rightarrow> pktq \<Rightarrow> nat \<Rightarrow> (links \<times> pktq \<times> addr) option" where
  "pktq_pdeq_tail L pq prec = (if length (pq_q pq) \<le> prec then None else take_tail False L pq prec)"

text \<open>
  The loop of \<open>pktq_pflush\<close>; \<open>fn\<close> tells which packets to free (all of them for a null function), and
  the freed ones are collected.
\<close>

partial_function (option) pflush_loop ::
  "(addr \<Rightarrow> bool) \<Rightarrow> links \<Rightarrow> pktq_prec \<Rightarrow> u16 \<Rightarrow> addr list \<Rightarrow> addr \<Rightarrow> addr \<Rightarrow> (links \<times> pktq_prec \<times> u16 \<times> addr list) option" where
  "pflush_loop fn L q len fr prev p =
     (if p = 0 then Some (L, q, len, fr)
      else if fn p then
        if p = q_head q then
          pflush_loop fn (L(p := 0)) (q\<lparr>q_head := L p, q_len := q_len q - 1\<rparr>) (len - 1) (fr @ [p]) prev (L p)
        else if prev = 0 then None
        else
          pflush_loop fn (L(prev := L p, p := 0)) (q\<lparr>q_len := q_len q - 1\<rparr>) (len - 1) (fr @ [p]) prev
            ((L(prev := L p, p := 0)) prev)
      else pflush_loop fn L q len fr p (L p))"

definition pktq_pflush :: "(addr \<Rightarrow> bool) \<Rightarrow> links \<Rightarrow> pktq \<Rightarrow> nat \<Rightarrow> (links \<times> pktq \<times> addr list) option" where
  "pktq_pflush fn L pq prec =
     (if length (pq_q pq) \<le> prec then None
      else
        (case pflush_loop fn L (pq_q pq ! prec) (pq_len pq) [] 0 (q_head (pq_q pq ! prec)) of
           None \<Rightarrow> None
         | Some (L', q, len, fr) \<Rightarrow>
             let q' = (if q_head q = 0 then q\<lparr>q_tail := 0\<rparr> else q) in
             Some (L', pq\<lparr>pq_q := (pq_q pq)[prec := q'], pq_len := len\<rparr>, fr)))"

fun flush_precs :: "(addr \<Rightarrow> bool) \<Rightarrow> links \<Rightarrow> pktq \<Rightarrow> addr list \<Rightarrow> nat list \<Rightarrow> (links \<times> pktq \<times> addr list) option" where
  "flush_precs fn L pq fr [] = Some (L, pq, fr)"
| "flush_precs fn L pq fr (prec # precs) =
     (case pktq_pflush fn L pq prec of None \<Rightarrow> None
      | Some (L', pq', fr') \<Rightarrow> flush_precs fn L' pq' (fr @ fr') precs)"

definition pktq_flush :: "(addr \<Rightarrow> bool) \<Rightarrow> links \<Rightarrow> pktq \<Rightarrow> (links \<times> pktq \<times> addr list) option" where
  "pktq_flush fn L pq = flush_precs fn L pq [] [0..<unat (pq_num_prec pq)]"

text \<open>\<open>for (p = q->head; p && PKTLINK(p) != pktbuf; p = PKTLINK(p));\<close>\<close>

partial_function (option) find_prev :: "links \<Rightarrow> addr \<Rightarrow> addr \<Rightarrow> addr option" where
  "find_prev L p b = (if p = 0 then Some 0 else if L p = b then Some p else find_prev L (L p) b)"

definition pktq_pdel :: "links \<Rightarrow> pktq \<Rightarrow> addr \<Rightarrow> nat \<Rightarrow> (links \<times> pktq \<times> bool) option" where
  "pktq_pdel L pq b prec =
     (if b = 0 then Some (L, pq, False)
      else if length (pq_q pq) \<le> prec then None
      else
        let q = pq_q pq ! prec;
            unlinked = (\<lambda>L' q'. Some (L'(b := 0), pq\<lparr>pq_q := (pq_q pq)[prec := q'\<lparr>q_len := q_len q' - 1\<rparr>],
              pq_len := pq_len pq - 1\<rparr>, True))
        in if q_head q = b then
             unlinked L (if L b = 0 then q\<lparr>q_head := L b, q_tail := 0\<rparr> else q\<lparr>q_head := L b\<rparr>)
           else
             (case find_prev L (q_head q) b of
                None \<Rightarrow> None
              | Some p \<Rightarrow>
                  if p = 0 then Some (L, pq, False)
                  else unlinked (L(p := L b)) (if q_tail q = b then q\<lparr>q_tail := p\<rparr> else q)))"

section \<open>The whole queue\<close>

text \<open>The highest precedence with packets, at or below the hint; 0 when there is none.\<close>

fun hint_down :: "pktq_prec list \<Rightarrow> nat \<Rightarrow> nat" where
  "hint_down qs 0 = 0"
| "hint_down qs (Suc n) = (if q_head (qs ! Suc n) = 0 then hint_down qs n else Suc n)"

definition drop_hint :: "pktq \<Rightarrow> pktq" where
  "drop_hint pq = pq\<lparr>pq_hi_prec := of_nat (hint_down (pq_q pq) (unat (pq_hi_prec pq)))\<rparr>"

text \<open>The result of a removal has the precedence, when there was a packet.\<close>

definition pktq_deq :: "links \<Rightarrow> pktq \<Rightarrow> (links \<times> pktq \<times> addr \<times> nat option) option" where
  "pktq_deq L pq =
     (if pq_len pq = 0 then Some (L, pq, 0, None)
      else if length (pq_q pq) \<le> unat (pq_hi_prec pq) then None
      else
        let pq1 = drop_hint pq; prec = unat (pq_hi_prec pq1); (L', pq2, p) = take_head L pq1 prec
        in Some (L', pq2, p, if p = 0 then None else Some prec))"

text \<open>The lowest precedence with packets, below the hint; \<open>n\<close> precedences are left to try.\<close>

fun scan_up :: "pktq_prec list \<Rightarrow> nat \<Rightarrow> nat \<Rightarrow> nat" where
  "scan_up qs prec 0 = prec"
| "scan_up qs prec (Suc n) = (if q_head (qs ! prec) \<noteq> 0 then prec else scan_up qs (Suc prec) n)"

definition pktq_deq_tail :: "links \<Rightarrow> pktq \<Rightarrow> (links \<times> pktq \<times> addr \<times> nat option) option" where
  "pktq_deq_tail L pq =
     (if pq_len pq = 0 then Some (L, pq, 0, None)
      else if length (pq_q pq) \<le> unat (pq_hi_prec pq) then None
      else
        let prec = scan_up (pq_q pq) 0 (unat (pq_hi_prec pq)) in
        map_option (\<lambda>(L', pq', p). (L', pq', p, if p = 0 then None else Some prec)) (take_tail True L pq prec))"

definition pktq_peek :: "pktq \<Rightarrow> (pktq \<times> addr \<times> nat option) option" where
  "pktq_peek pq =
     (if pq_len pq = 0 then Some (pq, 0, None)
      else if length (pq_q pq) \<le> unat (pq_hi_prec pq) then None
      else
        let pq1 = drop_hint pq; prec = unat (pq_hi_prec pq1) in
        Some (pq1, q_head (pq_q pq1 ! prec), Some prec))"

definition pktq_peek_tail :: "pktq \<Rightarrow> (addr \<times> nat option) option" where
  "pktq_peek_tail pq =
     (if pq_len pq = 0 then Some (0, None)
      else if length (pq_q pq) \<le> unat (pq_hi_prec pq) then None
      else let prec = scan_up (pq_q pq) 0 (unat (pq_hi_prec pq)) in Some (q_tail (pq_q pq ! prec), Some prec))"

definition pktq_mlen :: "pktq \<Rightarrow> u32 \<Rightarrow> nat option" where
  "pktq_mlen pq prec_bmp =
     (if length (pq_q pq) \<le> unat (pq_hi_prec pq) then None
      else Some (sum_list (map (\<lambda>prec. unat (q_len (pq_q pq ! prec)))
        (filter (\<lambda>prec. prec_bmp AND push_bit prec 1 \<noteq> 0) [0..<Suc (unat (pq_hi_prec pq))]))))"

text \<open>The highest precedence of the set with packets, at or below \<open>prec\<close>.\<close>

fun mask_down :: "pktq_prec list \<Rightarrow> u32 \<Rightarrow> nat \<Rightarrow> nat option" where
  "mask_down qs bmp prec =
     (if bmp AND push_bit prec 1 = 0 \<or> q_head (qs ! prec) = 0 then
        (case prec of 0 \<Rightarrow> None | Suc n \<Rightarrow> mask_down qs bmp n)
      else Some prec)"

declare mask_down.simps [simp del]

definition pktq_mdeq :: "links \<Rightarrow> pktq \<Rightarrow> u32 \<Rightarrow> (links \<times> pktq \<times> addr \<times> nat option) option" where
  "pktq_mdeq L pq prec_bmp =
     (if pq_len pq = 0 then Some (L, pq, 0, None)
      else if length (pq_q pq) \<le> unat (pq_hi_prec pq) then None
      else
        let pq1 = drop_hint pq in
        (case mask_down (pq_q pq1) prec_bmp (unat (pq_hi_prec pq1)) of
           None \<Rightarrow> Some (L, pq1, 0, None)
         | Some prec \<Rightarrow>
             let (L', pq2, p) = take_head L pq1 prec in Some (L', pq2, p, if p = 0 then None else Some prec)))"

end
