(* ===== verification/Chains.thy ===== *)
theory Chains
  imports Router_Prelude
begin

text \<open>
  Singly linked lists in memory: \<open>chain L p xs\<close> says that following the links \<open>L\<close> from \<open>p\<close> goes
  through the addresses \<open>xs\<close> and ends in the null pointer.
\<close>

fun chain :: "(addr \<Rightarrow> addr) \<Rightarrow> addr \<Rightarrow> addr list \<Rightarrow> bool" where
  "chain L p [] \<longleftrightarrow> p = 0"
| "chain L p (x # xs) \<longleftrightarrow> p = x \<and> x \<noteq> 0 \<and> chain L (L x) xs"

lemma chain_cong: "chain L p xs \<Longrightarrow> (\<And>x. x \<in> set xs \<Longrightarrow> L' x = L x) \<Longrightarrow> chain L' p xs"
  by (induction xs arbitrary: p) auto

lemma chain_null: "chain L 0 xs \<longleftrightarrow> xs = []"
  by (cases xs) auto

lemma chain_nonzero: "chain L p xs \<Longrightarrow> 0 \<notin> set xs"
  by (induction xs arbitrary: p) auto

lemma chain_nil: "chain L p xs \<Longrightarrow> p = 0 \<longleftrightarrow> xs = []"
  by (cases xs) auto

lemma chain_head: "chain L p xs \<Longrightarrow> p = (if xs = [] then 0 else hd xs)"
  by (cases xs) auto

lemma chain_tail: "chain L p (us @ e # ws) \<Longrightarrow> chain L (L e) ws"
  by (induction us arbitrary: p) auto

lemma chain_append:
  "xs \<noteq> [] \<Longrightarrow> chain L p (xs @ ys) \<longleftrightarrow>
    chain (L(last xs := 0)) p xs \<and> chain L (L (last xs)) ys" if "distinct xs"
  using that
proof (induction xs arbitrary: p)
  case (Cons x xs)
  show ?case
  proof (cases "xs = []")
    case False
    then have "x \<noteq> last xs" using Cons.prems(2) by auto
    with Cons False show ?thesis by auto
  qed auto
qed simp

lemma chain_snoc:
  assumes "chain L p (xs @ [x])" "distinct (xs @ [x])"
  shows "chain (if xs = [] then L else L(last xs := 0)) (if xs = [] then 0 else p) xs" "L x = 0"
  using assms chain_append [of xs L p "[x]"] by (cases "xs = []"; auto)+

lemma chain_insert_last:
  assumes "chain L p xs" "xs \<noteq> []" "distinct xs" "y \<notin> set xs" "y \<noteq> 0" "L y = 0"
  shows "chain (L(last xs := y)) p (xs @ [y])"
proof -
  have "L (last xs) = 0" using assms(1-3) chain_append [of xs L p "[]"] by simp
  then have "chain (L(last xs := 0)) p xs" using assms(1) by (simp add: fun_upd_idem)
  moreover have "last xs \<noteq> y" using assms(2,4) last_in_set by blast
  ultimately show ?thesis using assms by (simp add: chain_append)
qed

text \<open>Linking a new node in between.\<close>

lemma chain_insert:
  assumes "chain L p (us @ ws)" "distinct (us @ ws)" "e \<notin> set (us @ ws)" "e \<noteq> 0"
  shows "chain (if us = [] then L(e := if ws = [] then 0 else hd ws) else L(e := if ws = [] then 0 else hd ws, last us := e))
    (if us = [] then e else p) (us @ e # ws)"
proof (cases "us = []")
  case True
  let ?h = "if ws = [] then 0 else hd ws"
  have c: "chain L p ws" "p = ?h" using assms(1) True chain_head [of L p ws] by simp_all
  have "chain (L(e := ?h)) ?h ws" unfolding c(2) [symmetric] by (rule chain_cong [OF c(1)]) (use assms(3) True in auto)
  then show ?thesis using True assms(4) by simp
next
  case False
  let ?h = "if ws = [] then 0 else hd ws"
  have c: "chain (L(last us := 0)) p us" "chain L (L (last us)) ws"
    using assms(1,2) False chain_append [of us L p ws] by auto
  have lu: "last us \<noteq> e" "last us \<notin> set ws" "last us \<in> set us"
    using False assms(2,3) last_in_set [OF False] by (auto simp: disjoint_iff)
  have h: "?h = L (last us)" using chain_head [OF c(2)] by simp
  let ?L = "L(e := ?h, last us := e)"
  have "chain (?L(last us := 0)) p us" by (rule chain_cong [OF c(1)]) (use assms(3) in auto)
  moreover have "chain ?L ?h ws" unfolding h by (rule chain_cong [OF c(2)]) (use lu assms(3) in auto)
  ultimately have "chain ?L p (us @ e # ws)"
    using False assms(2,4) lu by (subst chain_append) (simp_all del: fun_upd_apply add: fun_upd_same fun_upd_other)
  then show ?thesis using False by simp
qed

text \<open>Taking a node out.\<close>

lemma chain_remove:
  assumes "chain L p (us @ e # ws)" "distinct (us @ e # ws)"
  shows "chain (if us = [] then L(e := 0) else L(last us := L e, e := 0)) (if us = [] then L e else p) (us @ ws)"
proof (cases "us = []")
  case True
  then have "chain L (L e) ws" using assms(1) by simp
  then have "chain (L(e := 0)) (L e) ws" by (rule chain_cong) (use assms(2) True in auto)
  then show ?thesis using True by simp
next
  case False
  have c: "chain (L(last us := 0)) p us" "L (last us) = e" "chain L (L e) ws"
    using assms False chain_append [of us L p "e # ws"] by auto
  have lu: "last us \<noteq> e" "last us \<notin> set ws" "last us \<in> set us" "e \<notin> set us" "e \<notin> set ws"
    using False assms(2) last_in_set [OF False] by (auto simp: disjoint_iff)
  let ?L = "L(last us := L e, e := 0)"
  have "chain (?L(last us := 0)) p us" by (rule chain_cong [OF c(1)]) (use lu in auto)
  moreover have "chain ?L (L e) ws" by (rule chain_cong [OF c(3)]) (use lu in auto)
  moreover have "?L (last us) = L e" using lu by simp
  ultimately have "chain ?L p (us @ ws)"
    using False assms(2) by (subst chain_append) simp_all
  then show ?thesis using False by simp
qed

end
