(* ===== verification/Pktq_Laws.thy ===== *)
theory Pktq_Laws
  imports Pktq Chains
begin

text \<open>
  The packet queues implement a list of packet lists, one per precedence. \<open>pq_rel\<close> relates the
  pointer structure to the lists; each operation has a law over it.
\<close>

section \<open>The relation\<close>

definition prec_rel :: "links \<Rightarrow> pktq_prec \<Rightarrow> addr list \<Rightarrow> bool" where
  "prec_rel L q xs \<longleftrightarrow> chain L (q_head q) xs \<and> q_tail q = (if xs = [] then 0 else last xs) \<and>
     unat (q_len q) = length xs"

definition pq_rel :: "links \<Rightarrow> pktq \<Rightarrow> addr list list \<Rightarrow> bool" where
  "pq_rel L pq Q \<longleftrightarrow> length Q = unat (pq_num_prec pq) \<and> length Q \<le> length (pq_q pq) \<and> length Q \<le> PKTQ_MAX_PREC \<and>
     unat (pq_hi_prec pq) < length Q \<and> (\<forall>i<length Q. unat (pq_hi_prec pq) < i \<longrightarrow> Q ! i = []) \<and>
     unat (pq_len pq) = sum_list (map length Q) \<and>
     (\<forall>i<length Q. prec_rel L (pq_q pq ! i) (Q ! i) \<and> distinct (Q ! i)) \<and>
     (\<forall>i<length Q. \<forall>j<length Q. i \<noteq> j \<longrightarrow> set (Q ! i) \<inter> set (Q ! j) = {})"

abbreviation packets :: "addr list list \<Rightarrow> addr set" where
  "packets Q \<equiv> \<Union> (set ` set Q)"

lemma pq_relD:
  assumes "pq_rel L pq Q"
  shows "length Q = unat (pq_num_prec pq)" "length Q \<le> length (pq_q pq)" "length Q \<le> 16"
    "unat (pq_hi_prec pq) < length Q" "\<And>i. i < length Q \<Longrightarrow> unat (pq_hi_prec pq) < i \<Longrightarrow> Q ! i = []"
    "unat (pq_len pq) = sum_list (map length Q)" "\<And>i. i < length Q \<Longrightarrow> prec_rel L (pq_q pq ! i) (Q ! i)"
    "\<And>i. i < length Q \<Longrightarrow> distinct (Q ! i)"
    "\<And>i j. i < length Q \<Longrightarrow> j < length Q \<Longrightarrow> i \<noteq> j \<Longrightarrow> set (Q ! i) \<inter> set (Q ! j) = {}"
  using assms by (simp_all add: pq_rel_def PKTQ_MAX_PREC_def)

lemma sum_length_update:
  "k < length Q \<Longrightarrow> sum_list (map length (Q[k := ys])) + length (Q ! k) = sum_list (map length Q) + length ys"
proof (induction Q arbitrary: k)
  case (Cons x Q)
  then show ?case by (cases k) auto
qed simp

lemma length_le_sum: "k < length Q \<Longrightarrow> length (Q ! k) \<le> sum_list (map length Q)"
proof (induction Q arbitrary: k)
  case (Cons x Q)
  then show ?case by (cases k) (auto simp: trans_le_add2)
qed simp

text \<open>Changing one precedence, with the links of the others as they were.\<close>

lemma pq_rel_upd:
  assumes rel: "pq_rel L pq Q" and k: "k < length Q"
    and L: "\<And>x. x \<notin> set (Q ! k) \<Longrightarrow> x \<in> packets Q \<Longrightarrow> L' x = L x"
    and q: "prec_rel L' q' ys" "distinct ys"
    and new: "set ys \<inter> (packets Q - set (Q ! k)) = {}"
    and len: "unat len' + length (Q ! k) = sum_list (map length Q) + length ys"
    and hi: "unat hi' < length Q" "\<And>i. i < length Q \<Longrightarrow> unat hi' < i \<Longrightarrow> Q[k := ys] ! i = []"
  shows "pq_rel L' (pq\<lparr>pq_q := (pq_q pq)[k := q'], pq_len := len', pq_hi_prec := hi'\<rparr>) (Q[k := ys])"
proof -
  note d = pq_relD [OF rel]
  have in_p: "set (Q ! i) \<subseteq> packets Q" if "i < length Q" for i using nth_mem [OF that] by blast
  have prec: "prec_rel L' ((pq_q pq)[k := q'] ! i) (Q[k := ys] ! i) \<and> distinct (Q[k := ys] ! i)" if i: "i < length Q" for i
  proof (cases "i = k")
    case True
    then show ?thesis using q k d(2) by simp
  next
    case False
    have "L' x = L x" if "x \<in> set (Q ! i)" for x
      using L [of x] in_p [OF i] d(9) [OF i k False] that by blast
    then have "chain L' (q_head (pq_q pq ! i)) (Q ! i)"
      using chain_cong d(7) [OF i] unfolding prec_rel_def by blast
    then show ?thesis using False d(7,8) [OF i] by (simp add: prec_rel_def)
  qed
  have disj: "set (Q[k := ys] ! i) \<inter> set (Q[k := ys] ! j) = {}" if ij: "i < length Q" "j < length Q" "i \<noteq> j" for i j
  proof -
    have "set ys \<inter> set (Q ! m) = {}" if "m < length Q" "m \<noteq> k" for m
      using new in_p [OF that(1)] d(9) [OF that(1) k that(2)] by blast
    then show ?thesis using ij d(9) [OF ij] k by (auto simp: nth_list_update)
  qed
  have "unat len' = sum_list (map length (Q[k := ys]))"
    using len sum_length_update [OF k, of ys] by simp
  then show ?thesis
    using d(1-4) prec disj hi unfolding pq_rel_def PKTQ_MAX_PREC_def by simp
qed

section \<open>Enqueueing\<close>

lemma unat_inc16: "unat (w :: u16) < 65535 \<Longrightarrow> unat (w + 1) = Suc (unat w)"
  by (simp add: unat_word_ariths)

lemma hi_prec_cast: "prec < 16 \<Longrightarrow> unat (ucast (of_nat prec :: u8) :: u16) = prec"
  by (simp add: unsigned_ucast_eq unsigned_of_nat take_bit_nat_eq_self)

lemma raise_hint:
  assumes "pq_rel L pq Q" "k < length Q"
  defines "hi \<equiv> if unat (pq_hi_prec pq) < k then ucast (of_nat k :: u8) else pq_hi_prec pq"
  shows "unat hi < length Q" "i < length Q \<Longrightarrow> unat hi < i \<Longrightarrow> Q[k := ys] ! i = []"
  using pq_relD(3-5) [OF assms(1)] assms(2) by (auto simp: hi_def hi_prec_cast nth_list_update split: if_splits)

lemma penq_law:
  assumes rel: "pq_rel L pq Q" and k: "prec < length Q" and p: "p \<noteq> 0" "p \<notin> packets Q" "L p = 0"
    and room: "sum_list (map length Q) < 65535"
  shows "\<exists>L' pq'. pktq_penq L pq prec p = Some (L', pq', p) \<and> pq_rel L' pq' (Q[prec := Q ! prec @ [p]]) \<and>
    (\<forall>x. x \<notin> packets Q \<longrightarrow> L' x = L x)"
proof -
  note d = pq_relD [OF rel]
  let ?q = "pq_q pq ! prec" and ?xs = "Q ! prec"
  have q: "chain L (q_head ?q) ?xs" "q_tail ?q = (if ?xs = [] then 0 else last ?xs)" "unat (q_len ?q) = length ?xs"
    using d(7) [OF k] by (simp_all add: prec_rel_def)
  have nil: "q_head ?q = 0 \<longleftrightarrow> ?xs = []" by (rule chain_nil [OF q(1)])
  have len: "length ?xs < 65535" using length_le_sum [OF k] room by simp
  have pnew: "p \<notin> set ?xs" using p(2) k by auto
  let ?L = "if q_head ?q \<noteq> 0 then L(q_tail ?q := p) else L"
  let ?q' = "(if q_head ?q \<noteq> 0 then ?q else ?q\<lparr>q_head := p\<rparr>)\<lparr>q_tail := p, q_len := q_len ?q + 1\<rparr>"
  have "chain ?L (q_head ?q') (?xs @ [p])"
    using chain_insert_last [OF q(1) _ d(8) [OF k] pnew p(1,3)] nil q(2) p(1,3) by auto
  then have prel: "prec_rel ?L ?q' (?xs @ [p])"
    using q(3) len by (simp add: prec_rel_def unat_inc16)
  have tl: "q_tail ?q \<in> set ?xs" if "q_head ?q \<noteq> 0" using that nil q(2) by simp
  then have tl0: "q_head ?q = 0 \<or> q_tail ?q \<noteq> 0" using chain_nonzero [OF q(1)] by metis
  have ex: "pktq_penq L pq prec p = Some (?L, pq\<lparr>pq_q := (pq_q pq)[prec := ?q'], pq_len := pq_len pq + 1,
      pq_hi_prec := (if unat (pq_hi_prec pq) < prec then ucast (of_nat prec :: u8) else pq_hi_prec pq)\<rparr>, p)"
    using k d(2) tl0 by (cases "q_head ?q = 0") (simp_all add: pktq_penq_def Let_def)
  have "pq_rel ?L (pq\<lparr>pq_q := (pq_q pq)[prec := ?q'], pq_len := pq_len pq + 1,
      pq_hi_prec := (if unat (pq_hi_prec pq) < prec then ucast (of_nat prec :: u8) else pq_hi_prec pq)\<rparr>) (Q[prec := ?xs @ [p]])"
    by (rule pq_rel_upd [OF rel k _ prel])
      (use tl d(8) [OF k] pnew p(2) d(6) room raise_hint [OF rel k] in \<open>auto simp: unat_inc16\<close>)
  then show ?thesis using ex tl k by (auto 0 3)
qed

lemma penq_head_law:
  assumes rel: "pq_rel L pq Q" and k: "prec < length Q" and p: "p \<noteq> 0" "p \<notin> packets Q"
    and room: "sum_list (map length Q) < 65535"
  shows "\<exists>L' pq'. pktq_penq_head L pq prec p = Some (L', pq', p) \<and> pq_rel L' pq' (Q[prec := p # Q ! prec]) \<and>
    (\<forall>x. x \<notin> packets Q \<longrightarrow> x \<noteq> p \<longrightarrow> L' x = L x)"
proof -
  note d = pq_relD [OF rel]
  let ?q = "pq_q pq ! prec" and ?xs = "Q ! prec"
  have q: "chain L (q_head ?q) ?xs" "q_tail ?q = (if ?xs = [] then 0 else last ?xs)" "unat (q_len ?q) = length ?xs"
    using d(7) [OF k] by (simp_all add: prec_rel_def)
  have nil: "q_head ?q = 0 \<longleftrightarrow> ?xs = []" by (rule chain_nil [OF q(1)])
  have len: "length ?xs < 65535" using length_le_sum [OF k] room by simp
  have pnew: "p \<notin> set ?xs" using p(2) k by auto
  let ?q1 = "if q_head ?q = 0 then ?q\<lparr>q_tail := p\<rparr> else ?q"
  let ?L = "L(p := q_head ?q1)"
  let ?q' = "?q1\<lparr>q_head := p, q_len := q_len ?q1 + 1\<rparr>"
  have "chain ?L (q_head ?q) ?xs" by (rule chain_cong [OF q(1)]) (use pnew in auto)
  then have prel: "prec_rel ?L ?q' (p # ?xs)"
    using q(2,3) len p(1) nil by (auto simp: prec_rel_def unat_inc16)
  have "pq_rel ?L (pq\<lparr>pq_q := (pq_q pq)[prec := ?q'], pq_len := pq_len pq + 1,
      pq_hi_prec := (if unat (pq_hi_prec pq) < prec then ucast (of_nat prec :: u8) else pq_hi_prec pq)\<rparr>) (Q[prec := p # ?xs])"
    by (rule pq_rel_upd [OF rel k _ prel])
      (use d(8) [OF k] pnew p(2) d(6) room raise_hint [OF rel k] in \<open>auto simp: unat_inc16\<close>)
  then show ?thesis using k d(2) by (auto simp: pktq_penq_head_def Let_def)
qed

section \<open>Removing from one precedence\<close>

text \<open>Removals leave the hint as it is; the new list is part of the old one.\<close>

lemma pq_rel_shrink:
  assumes rel: "pq_rel L pq Q" and k: "k < length Q"
    and L: "\<And>x. x \<notin> set (Q ! k) \<Longrightarrow> x \<in> packets Q \<Longrightarrow> L' x = L x"
    and q: "prec_rel L' q' ys" "distinct ys" "set ys \<subseteq> set (Q ! k)"
    and len: "unat len' + length (Q ! k) = sum_list (map length Q) + length ys"
  shows "pq_rel L' (pq\<lparr>pq_q := (pq_q pq)[k := q'], pq_len := len'\<rparr>) (Q[k := ys])"
proof -
  have "Q[k := ys] ! i = []" if "i < length Q" "unat (pq_hi_prec pq) < i" for i
    using pq_relD(5) [OF rel that] q(3) that by (cases "i = k") auto
  then have "pq_rel L' (pq\<lparr>pq_q := (pq_q pq)[k := q'], pq_len := len', pq_hi_prec := pq_hi_prec pq\<rparr>) (Q[k := ys])"
    using q(3) by (intro pq_rel_upd [OF rel k L q(1,2) _ len pq_relD(4) [OF rel]]) auto
  then show ?thesis by simp
qed

lemma unat_dec16: "0 < unat (w :: u16) \<Longrightarrow> unat (w - 1) = unat w - 1"
  by (rule unat_dec)

lemma take_head_law:
  assumes rel: "pq_rel L pq Q" and k: "k < length Q"
  shows "Q ! k = [] \<Longrightarrow> take_head L pq k = (L, pq, 0)"
    "Q ! k = x # xs \<Longrightarrow> \<exists>L' pq'. take_head L pq k = (L', pq', x) \<and> pq_rel L' pq' (Q[k := xs]) \<and>
      x \<noteq> 0 \<and> L' = L(x := 0)"
proof -
  note d = pq_relD [OF rel]
  let ?q = "pq_q pq ! k"
  have q: "chain L (q_head ?q) (Q ! k)" "q_tail ?q = (if Q ! k = [] then 0 else last (Q ! k))"
    "unat (q_len ?q) = length (Q ! k)"
    using d(7) [OF k] by (simp_all add: prec_rel_def)
  {
    assume "Q ! k = []"
    then show "take_head L pq k = (L, pq, 0)" using q(1) by (simp add: take_head_def)
  next
    assume Qk: "Q ! k = x # xs"
    then have x: "q_head ?q = x" "x \<noteq> 0" "chain L (L x) xs" using q(1) by simp_all
    let ?L = "L(x := 0)"
    let ?q1 = "?q\<lparr>q_head := L x\<rparr>"
    let ?q' = "(if L x = 0 then ?q1\<lparr>q_tail := 0\<rparr> else ?q1)\<lparr>q_len := q_len ?q - 1\<rparr>"
    have xs: "x \<notin> set xs" "distinct xs" using d(8) [OF k] Qk by auto
    have "chain ?L (L x) xs" by (rule chain_cong [OF x(3)]) (use xs in auto)
    then have "prec_rel ?L ?q' xs"
      using q(2,3) Qk chain_nil [OF x(3)] by (auto simp: prec_rel_def unat_dec16)
    then have "pq_rel ?L (pq\<lparr>pq_q := (pq_q pq)[k := ?q'], pq_len := pq_len pq - 1\<rparr>) (Q[k := xs])"
      using xs Qk length_le_sum [OF k] d(6) by (intro pq_rel_shrink [OF rel k]) (auto simp: unat_dec16)
    moreover have "take_head L pq k = (?L, pq\<lparr>pq_q := (pq_q pq)[k := ?q'], pq_len := pq_len pq - 1\<rparr>, x)"
      using x by (simp add: take_head_def Let_def)
    ultimately show "\<exists>L' pq'. take_head L pq k = (L', pq', x) \<and> pq_rel L' pq' (Q[k := xs]) \<and> x \<noteq> 0 \<and> L' = L(x := 0)"
      using x(2) by blast
  }
qed

text \<open>The walk to the tail ends at the last packet, with the one before it.\<close>

lemma walk_to_last:
  "chain L p xs \<Longrightarrow> distinct xs \<Longrightarrow> xs \<noteq> [] \<Longrightarrow>
    walk_to L prev p (last xs) = Some (if butlast xs = [] then prev else last (butlast xs), last xs)"
proof (induction xs arbitrary: p prev)
  case (Cons x xs)
  show ?case
  proof (cases "xs = []")
    case True
    then show ?thesis using Cons.prems by (simp add: walk_to.simps)
  next
    case False
    then have "x \<noteq> last xs" using Cons.prems(2) by auto
    moreover have "walk_to L x (L x) (last xs) = Some (if butlast xs = [] then x else last (butlast xs), last xs)"
      using Cons False by simp
    ultimately show ?thesis using False Cons.prems(1) by (simp add: walk_to.simps [of L prev])
  qed
qed simp

lemma take_tail_law:
  assumes rel: "pq_rel L pq Q" and k: "k < length Q"
  shows "Q ! k = [] \<Longrightarrow> take_tail clr L pq k = Some (L, pq, 0)"
    "Q ! k = xs @ [x] \<Longrightarrow> \<exists>L' pq'. take_tail clr L pq k = Some (L', pq', x) \<and> pq_rel L' pq' (Q[k := xs]) \<and>
      x \<noteq> 0 \<and> L' x = 0 \<and> (\<forall>y. y \<notin> packets Q \<longrightarrow> L' y = L y)"
proof -
  note d = pq_relD [OF rel]
  let ?q = "pq_q pq ! k"
  have q: "chain L (q_head ?q) (Q ! k)" "q_tail ?q = (if Q ! k = [] then 0 else last (Q ! k))"
    "unat (q_len ?q) = length (Q ! k)"
    using d(7) [OF k] by (simp_all add: prec_rel_def)
  {
    assume "Q ! k = []"
    then show "take_tail clr L pq k = Some (L, pq, 0)" using q(1) by (simp add: take_tail_def)
  next
    assume Qk: "Q ! k = xs @ [x]"
    define prev where "prev = (if xs = [] then 0 else last xs)"
    have nz: "0 \<notin> set (Q ! k)" using chain_nonzero [OF q(1)] .
    have "last xs \<noteq> 0" if "xs \<noteq> []" using last_in_set [OF that] nz Qk by (metis UnCI set_append)
    then have prev0: "prev = 0 \<longleftrightarrow> xs = []" "prev \<noteq> 0 \<longrightarrow> prev \<in> set xs"
      by (auto simp: prev_def)
    have dx: "distinct (xs @ [x])" "x \<noteq> 0" using d(8) [OF k] nz Qk by auto
    let ?L1 = "if prev \<noteq> 0 then L(prev := 0) else L"
    let ?L = "if clr then ?L1(x := 0) else ?L1"
    let ?q1 = "if prev \<noteq> 0 then ?q else ?q\<lparr>q_head := 0\<rparr>"
    let ?q' = "?q1\<lparr>q_tail := prev, q_len := q_len ?q1 - 1\<rparr>"
    have sn: "chain (if xs = [] then L else L(last xs := 0)) (if xs = [] then 0 else q_head ?q) xs" "L x = 0"
      using chain_snoc [of L "q_head ?q" xs x] q(1) dx(1) unfolding Qk by simp_all
    have ch: "chain ?L (q_head ?q') xs"
    proof (cases "xs = []")
      case False
      then have p: "prev = last xs" "prev \<noteq> 0" using prev0 by (simp_all add: prev_def)
      have "chain (L(last xs := 0)) (q_head ?q) xs" using sn(1) False by simp
      then have "chain ?L (q_head ?q) xs" by (rule chain_cong) (use p dx in auto)
      then show ?thesis using p(2) by simp
    qed (simp add: prev_def)
    then have pr: "prec_rel ?L ?q' xs" using q(3) Qk prev0 by (auto simp: prec_rel_def unat_dec16 prev_def)
    have walk: "walk_to L 0 (q_head ?q) (q_tail ?q) = Some (prev, x)"
      using walk_to_last [OF q(1), of 0] dx(1) q(2) Qk by (simp add: prev_def)
    have "q_head ?q \<noteq> 0" using chain_nil [OF q(1)] Qk by simp
    then have ex: "take_tail clr L pq k = Some (?L, pq\<lparr>pq_q := (pq_q pq)[k := ?q'], pq_len := pq_len pq - 1\<rparr>, x)"
      using walk by (simp add: take_tail_def Let_def)
    have "pq_rel ?L (pq\<lparr>pq_q := (pq_q pq)[k := ?q'], pq_len := pq_len pq - 1\<rparr>) (Q[k := xs])"
      using dx Qk prev0 length_le_sum [OF k] d(6) by (intro pq_rel_shrink [OF rel k _ pr]) (auto simp: unat_dec16)
    moreover have "?L x = 0" using sn(2) by simp
    moreover have "?L y = L y" if "y \<notin> packets Q" for y
    proof -
      have "y \<notin> set (xs @ [x])" using that k Qk nth_mem by fastforce
      then show ?thesis using prev0 by auto
    qed
    ultimately show "\<exists>L' pq'. take_tail clr L pq k = Some (L', pq', x) \<and> pq_rel L' pq' (Q[k := xs]) \<and>
      x \<noteq> 0 \<and> L' x = 0 \<and> (\<forall>y. y \<notin> packets Q \<longrightarrow> L' y = L y)"
      using ex dx(2) by blast
  }
qed

section \<open>Flushing and deleting\<close>

lemma chain_split:
  assumes "distinct (ks @ x # rs)" "ks \<noteq> []" "chain L p (ks @ x # rs)"
  shows "chain (L(last ks := 0)) p ks" "L (last ks) = x" "x \<noteq> 0" "chain L (L x) rs"
  using assms chain_append [of ks L p "x # rs"] by auto

lemma chain_unlink:
  assumes d: "distinct (ks @ x # rs)" and ne: "ks \<noteq> []" and c: "chain L p (ks @ x # rs)"
  shows "chain (L(last ks := L x, x := 0)) p (ks @ rs)"
proof -
  let ?L = "L(last ks := L x, x := 0)"
  have x: "x \<noteq> last ks" "x \<notin> set ks" "x \<notin> set rs" "last ks \<notin> set rs" "last ks \<in> set ks"
    using d last_in_set [OF ne] by (auto simp: disjoint_iff)
  note s = chain_split [OF d ne c]
  have "chain (?L(last ks := 0)) p ks" by (rule chain_cong [OF s(1)]) (use x in auto)
  moreover have "chain ?L (L x) rs" by (rule chain_cong [OF s(4)]) (use x in auto)
  ultimately show ?thesis using d ne x(1) by (simp add: chain_append)
qed

lemma pflush_loop_law:
  "\<lbrakk>chain L (q_head q) (ks @ rs); distinct (ks @ rs); p = (if rs = [] then 0 else hd rs);
    prev = (if ks = [] then 0 else last ks); unat (q_len q) = length (ks @ rs); length rs \<le> unat len\<rbrakk> \<Longrightarrow>
   \<exists>L' q' len'. pflush_loop fn L q len fr prev p = Some (L', q', len', fr @ filter fn rs) \<and>
     chain L' (q_head q') (ks @ filter (\<lambda>x. \<not> fn x) rs) \<and>
     unat (q_len q') = length (ks @ filter (\<lambda>x. \<not> fn x) rs) \<and>
     unat len' + length rs = unat len + length (filter (\<lambda>x. \<not> fn x) rs) \<and>
     q_tail q' = q_tail q \<and> (\<forall>x. x \<notin> set (ks @ rs) \<longrightarrow> L' x = L x) \<and> (\<forall>x\<in>set rs. fn x \<longrightarrow> L' x = 0)"
proof (induction rs arbitrary: L q len fr prev p ks)
  case Nil
  then show ?case by (simp add: pflush_loop.simps)
next
  case (Cons x rs)
  note hyp = Cons.prems
  have p: "p = x" "x \<noteq> 0" "x \<in> set (ks @ x # rs)"
    using hyp(1,3) chain_nonzero [OF hyp(1)] by auto
  have nxt: "L x = (if rs = [] then 0 else hd rs)"
    using hyp(1,2) chain_split [OF hyp(2) _ hyp(1)] by (cases "ks = []") (auto dest: chain_head)
  show ?case
  proof (cases "fn x")
    case False
    have "pflush_loop fn L q len fr prev p = pflush_loop fn L q len fr x (L x)"
      using False p by (simp add: pflush_loop.simps [of fn L q])
    moreover have "\<exists>L' q' len'. pflush_loop fn L q len fr x (L x) = Some (L', q', len', fr @ filter fn rs) \<and>
     chain L' (q_head q') ((ks @ [x]) @ filter (\<lambda>x. \<not> fn x) rs) \<and>
     unat (q_len q') = length ((ks @ [x]) @ filter (\<lambda>x. \<not> fn x) rs) \<and>
     unat len' + length rs = unat len + length (filter (\<lambda>x. \<not> fn x) rs) \<and>
     q_tail q' = q_tail q \<and> (\<forall>y. y \<notin> set ((ks @ [x]) @ rs) \<longrightarrow> L' y = L y) \<and> (\<forall>x\<in>set rs. fn x \<longrightarrow> L' x = 0)"
      using hyp by (intro Cons.IH) (simp_all add: nxt)
    ultimately show ?thesis using False by auto
  next
    case True
    have len: "unat (len - 1) = unat len - 1" "unat (q_len q - 1) = unat (q_len q) - 1"
      using hyp(5,6) unat_dec16 [of len] unat_dec16 [of "q_len q"] by (simp_all del: One_nat_def)
    show ?thesis
    proof (cases "ks = []")
      case ks: True
      let ?L = "L(x := 0)" and ?q = "q\<lparr>q_head := L x, q_len := q_len q - 1\<rparr>"
      have c: "chain ?L (L x) rs" by (rule chain_cong [of L]) (use hyp(1,2) ks in auto)
      have "pflush_loop fn L q len fr prev p = pflush_loop fn ?L ?q (len - 1) (fr @ [x]) prev (L x)"
        using True p hyp(1) ks by (simp add: pflush_loop.simps [of fn L q])
      moreover have "\<exists>L' q' len'. pflush_loop fn ?L ?q (len - 1) (fr @ [x]) prev (L x) = Some (L', q', len', (fr @ [x]) @ filter fn rs) \<and>
         chain L' (q_head q') ([] @ filter (\<lambda>x. \<not> fn x) rs) \<and>
         unat (q_len q') = length ([] @ filter (\<lambda>x. \<not> fn x) rs) \<and>
         unat len' + length rs = unat (len - 1) + length (filter (\<lambda>x. \<not> fn x) rs) \<and>
         q_tail q' = q_tail ?q \<and> (\<forall>y. y \<notin> set ([] @ rs) \<longrightarrow> L' y = ?L y) \<and> (\<forall>x\<in>set rs. fn x \<longrightarrow> L' x = 0)"
        using hyp ks c nxt len by (intro Cons.IH) (auto simp del: fun_upd_apply)
      ultimately show ?thesis using True ks len hyp(2,6) by auto
    next
      case ks: False
      let ?L = "L(prev := L x, x := 0)" and ?q = "q\<lparr>q_len := q_len q - 1\<rparr>"
      have prev: "prev = last ks" "prev \<in> set ks" using hyp(4) ks by simp_all
      have "0 \<notin> set ks" using chain_nonzero [OF hyp(1)] by simp
      then have px: "prev \<noteq> x" "prev \<noteq> 0" "x \<noteq> q_head q"
        using prev(2) hyp(2) chain_head [OF hyp(1)] ks by auto
      have "pflush_loop fn L q len fr prev p = pflush_loop fn ?L ?q (len - 1) (fr @ [x]) prev (L x)"
        using True p px by (simp add: pflush_loop.simps [of fn L q])
      moreover have "\<exists>L' q' len'. pflush_loop fn ?L ?q (len - 1) (fr @ [x]) prev (L x) = Some (L', q', len', (fr @ [x]) @ filter fn rs) \<and>
         chain L' (q_head q') (ks @ filter (\<lambda>x. \<not> fn x) rs) \<and>
         unat (q_len q') = length (ks @ filter (\<lambda>x. \<not> fn x) rs) \<and>
         unat len' + length rs = unat (len - 1) + length (filter (\<lambda>x. \<not> fn x) rs) \<and>
         q_tail q' = q_tail ?q \<and> (\<forall>y. y \<notin> set (ks @ rs) \<longrightarrow> L' y = ?L y) \<and> (\<forall>x\<in>set rs. fn x \<longrightarrow> L' x = 0)"
        using hyp chain_unlink [OF hyp(2) ks hyp(1)] prev nxt len ks by (intro Cons.IH) (auto simp del: fun_upd_apply)
      ultimately show ?thesis using True ks len hyp(2,6) prev by auto
    qed
  qed
qed

text \<open>
  A flush keeps the queue well-formed only when it leaves a precedence empty or keeps its last packet: the
  tail pointer is not moved to the new last packet.
\<close>

lemma pflush_law:
  assumes rel: "pq_rel L pq Q" and k: "prec < length Q"
    and ok: "filter (\<lambda>x. \<not> fn x) (Q ! prec) = [] \<or> \<not> fn (last (Q ! prec))"
  shows "\<exists>L' pq'. pktq_pflush fn L pq prec = Some (L', pq', filter fn (Q ! prec)) \<and>
    pq_rel L' pq' (Q[prec := filter (\<lambda>x. \<not> fn x) (Q ! prec)]) \<and>
    (\<forall>x. x \<notin> packets Q \<longrightarrow> L' x = L x) \<and> (\<forall>x\<in>set (Q ! prec). fn x \<longrightarrow> L' x = 0)"
proof -
  note d = pq_relD [OF rel]
  let ?q = "pq_q pq ! prec" and ?xs = "Q ! prec" and ?ys = "filter (\<lambda>x. \<not> fn x) (Q ! prec)"
  have q: "chain L (q_head ?q) ?xs" "q_tail ?q = (if ?xs = [] then 0 else last ?xs)" "unat (q_len ?q) = length ?xs"
    using d(7) [OF k] by (simp_all add: prec_rel_def)
  have "length ?xs \<le> unat (pq_len pq)" using length_le_sum [OF k] d(6) by simp
  then obtain L' q' len' where f: "pflush_loop fn L ?q (pq_len pq) [] 0 (q_head ?q) = Some (L', q', len', filter fn ?xs)"
    "chain L' (q_head q') ?ys" "unat (q_len q') = length ?ys"
    "unat len' + length ?xs = unat (pq_len pq) + length ?ys" "q_tail q' = q_tail ?q"
    "\<forall>x. x \<notin> set ?xs \<longrightarrow> L' x = L x" "\<forall>x\<in>set ?xs. fn x \<longrightarrow> L' x = 0"
    using pflush_loop_law [of L ?q "[]" ?xs "q_head ?q" 0 "pq_len pq" fn "[]"] q d(8) [OF k] chain_head [OF q(1)] by auto
  have "last ?ys = last ?xs" if "?ys \<noteq> []"
  proof -
    have "?xs \<noteq> []" using that by auto
    then obtain zs z where z: "?xs = zs @ [z]" by (metis rev_exhaust)
    then show ?thesis using ok that by (cases "fn z") auto
  qed
  then have pr: "prec_rel L' (if q_head q' = 0 then q'\<lparr>q_tail := 0\<rparr> else q') ?ys"
    using f(2,3,5) q(2) chain_nil [OF f(2)] by (auto simp: prec_rel_def)
  have "pq_rel L' (pq\<lparr>pq_q := (pq_q pq)[prec := if q_head q' = 0 then q'\<lparr>q_tail := 0\<rparr> else q'], pq_len := len'\<rparr>) (Q[prec := ?ys])"
    using f(4,6) d(6) d(8) [OF k] by (intro pq_rel_shrink [OF rel k _ pr]) auto
  moreover have "\<forall>x. x \<notin> packets Q \<longrightarrow> L' x = L x"
    using f(6) k nth_mem by fastforce
  ultimately show ?thesis using f(1,7) k d(2) by (auto simp: pktq_pflush_def)
qed

lemma find_prev_hit:
  "chain L p (ys @ a # b # zs) \<Longrightarrow> distinct (ys @ a # b # zs) \<Longrightarrow> find_prev L p b = Some a"
proof (induction ys arbitrary: p)
  case Nil
  then show ?case by (subst find_prev.simps) auto
next
  case (Cons y ys)
  then have "L y \<noteq> b" by (cases ys) auto
  then show ?case using Cons by (subst find_prev.simps) auto
qed

lemma find_prev_miss: "chain L p xs \<Longrightarrow> b \<notin> set xs \<Longrightarrow> b \<noteq> 0 \<Longrightarrow> find_prev L p b = Some 0"
proof (induction xs arbitrary: p)
  case Nil
  then show ?case by (simp add: find_prev.simps)
next
  case (Cons x xs)
  then have "L x \<noteq> b" by (cases xs) auto
  then show ?case using Cons by (subst find_prev.simps) auto
qed

lemma pdel_law:
  assumes rel: "pq_rel L pq Q" and k: "prec < length Q" and b: "b \<noteq> 0"
  shows "b \<notin> set (Q ! prec) \<Longrightarrow> pktq_pdel L pq b prec = Some (L, pq, False)"
    "b \<in> set (Q ! prec) \<Longrightarrow> \<exists>L' pq'. pktq_pdel L pq b prec = Some (L', pq', True) \<and>
      pq_rel L' pq' (Q[prec := remove1 b (Q ! prec)]) \<and> L' b = 0 \<and> (\<forall>y. y \<notin> packets Q \<longrightarrow> L' y = L y)"
proof -
  note d = pq_relD [OF rel]
  let ?q = "pq_q pq ! prec" and ?xs = "Q ! prec"
  have q: "chain L (q_head ?q) ?xs" "q_tail ?q = (if ?xs = [] then 0 else last ?xs)" "unat (q_len ?q) = length ?xs"
    using d(7) [OF k] by (simp_all add: prec_rel_def)
  have kq: "prec < length (pq_q pq)" using k d(2) by simp
  {
    assume nb: "b \<notin> set ?xs"
    then have "q_head ?q \<noteq> b" using chain_head [OF q(1)] b hd_in_set by metis
    then show "pktq_pdel L pq b prec = Some (L, pq, False)"
      using kq b find_prev_miss [OF q(1) nb b] by (simp add: pktq_pdel_def Let_def)
  next
    assume "b \<in> set ?xs"
    then obtain ks zs where xs: "?xs = ks @ b # zs" "b \<notin> set ks" by (meson split_list_first)
    then have dx: "distinct (ks @ b # zs)" "b \<notin> set zs" "remove1 b ?xs = ks @ zs"
      using d(8) [OF k] by (auto simp: remove1_append)
    have fin: "pq_rel L' (pq\<lparr>pq_q := (pq_q pq)[prec := q'\<lparr>q_len := q_len ?q - 1\<rparr>], pq_len := pq_len pq - 1\<rparr>) (Q[prec := ks @ zs])"
      if c: "chain L' (q_head q') (ks @ zs)" "q_tail q' = (if ks @ zs = [] then 0 else last (ks @ zs))"
        "\<forall>y. y \<notin> set ?xs \<longrightarrow> L' y = L y" for L' q'
    proof -
      have "prec_rel L' (q'\<lparr>q_len := q_len ?q - 1\<rparr>) (ks @ zs)"
        using c q(3) xs(1) by (simp add: prec_rel_def unat_dec16)
      then show ?thesis
        using c(3) dx(1) xs(1) length_le_sum [OF k] d(6) by (intro pq_rel_shrink [OF rel k]) (auto simp: unat_dec16)
    qed
    have out: "\<forall>y. y \<notin> packets Q \<longrightarrow> y \<notin> set ?xs" using k nth_mem by fastforce
    show "\<exists>L' pq'. pktq_pdel L pq b prec = Some (L', pq', True) \<and>
      pq_rel L' pq' (Q[prec := remove1 b ?xs]) \<and> L' b = 0 \<and> (\<forall>y. y \<notin> packets Q \<longrightarrow> L' y = L y)"
    proof (cases "ks = []")
      case True
      let ?q' = "if L b = 0 then ?q\<lparr>q_head := L b, q_tail := 0\<rparr> else ?q\<lparr>q_head := L b\<rparr>"
      have h: "q_head ?q = b" "chain L (L b) zs" using q(1) xs(1) True by simp_all
      have c: "chain (L(b := 0)) (L b) zs" by (rule chain_cong [OF h(2)]) (use dx in auto)
      have "pktq_pdel L pq b prec = Some (L(b := 0), pq\<lparr>pq_q := (pq_q pq)[prec := ?q'\<lparr>q_len := q_len ?q - 1\<rparr>], pq_len := pq_len pq - 1\<rparr>, True)"
        using b kq h(1) by (simp add: pktq_pdel_def Let_def)
      moreover have "pq_rel (L(b := 0)) (pq\<lparr>pq_q := (pq_q pq)[prec := ?q'\<lparr>q_len := q_len ?q - 1\<rparr>], pq_len := pq_len pq - 1\<rparr>) (Q[prec := ks @ zs])"
        using c True chain_nil [OF h(2)] q(2) xs(1) by (intro fin) auto
      ultimately show ?thesis using dx(3) out xs(1) by (auto intro!: exI)
    next
      case False
      then obtain ys a where ks: "ks = ys @ [a]" by (metis rev_exhaust)
      let ?L = "L(a := L b)" and ?q' = "if q_tail ?q = b then ?q\<lparr>q_tail := a\<rparr> else ?q"
      have a: "a \<noteq> 0" using chain_nonzero [OF q(1)] xs(1) ks by auto
      have hb: "q_head ?q \<noteq> b" using chain_head [OF q(1)] xs(1) False dx(1) by (cases ks) auto
      have "find_prev L (q_head ?q) b = Some a"
        using find_prev_hit [of L "q_head ?q" ys a b zs] q(1) dx(1) xs(1) ks by simp
      then have "pktq_pdel L pq b prec = Some (?L(b := 0), pq\<lparr>pq_q := (pq_q pq)[prec := ?q'\<lparr>q_len := q_len ?q - 1\<rparr>], pq_len := pq_len pq - 1\<rparr>, True)"
        using b kq hb a by (simp add: pktq_pdel_def Let_def)
      moreover have "pq_rel (?L(b := 0)) (pq\<lparr>pq_q := (pq_q pq)[prec := ?q'\<lparr>q_len := q_len ?q - 1\<rparr>], pq_len := pq_len pq - 1\<rparr>) (Q[prec := ks @ zs])"
      proof (rule fin)
        show "chain (?L(b := 0)) (q_head ?q') (ks @ zs)"
          using chain_unlink [OF dx(1) False, of L "q_head ?q"] q(1) xs(1) ks by (simp split: if_splits)
        show "q_tail ?q' = (if ks @ zs = [] then 0 else last (ks @ zs))"
          using q(2) xs(1) ks dx by (auto simp: last_append split: if_splits)
        show "\<forall>y. y \<notin> set ?xs \<longrightarrow> (?L(b := 0)) y = L y" using xs(1) ks by auto
      qed
      ultimately show ?thesis using dx(3) out xs(1) ks by (auto intro!: exI)
    qed
  }
qed

end
