(* ===== verification/Simulation.thy ===== *)
theory Simulation
  imports Main
begin

text \<open>
  Refinement of a state machine with results: a step of the code that simulates a step of the
  specification under a condition on the request carries over to sequences of requests.
\<close>

fun run_steps :: "('o \<Rightarrow> 's \<Rightarrow> ('s \<times> 'r) option) \<Rightarrow> 'o list \<Rightarrow> 's \<Rightarrow> ('s \<times> 'r list) option" where
  "run_steps step [] s = Some (s, [])"
| "run_steps step (x # xs) s =
     (case step x s of None \<Rightarrow> None
      | Some (s1, r) \<Rightarrow> map_option (\<lambda>(s2, rs). (s2, r # rs)) (run_steps step xs s1))"

fun run_spec :: "('o \<Rightarrow> 'a \<Rightarrow> 'a \<times> 'r) \<Rightarrow> 'o list \<Rightarrow> 'a \<Rightarrow> 'a \<times> 'r list" where
  "run_spec spec [] a = (a, [])"
| "run_spec spec (x # xs) a =
     (let (a1, r) = spec x a; (a2, rs) = run_spec spec xs a1 in (a2, r # rs))"

fun all_ok :: "('o \<Rightarrow> 'a \<Rightarrow> 'a \<times> 'r) \<Rightarrow> ('a \<Rightarrow> 'o \<Rightarrow> bool) \<Rightarrow> 'o list \<Rightarrow> 'a \<Rightarrow> bool" where
  "all_ok spec good [] a \<longleftrightarrow> True"
| "all_ok spec good (x # xs) a \<longleftrightarrow> good a x \<and> all_ok spec good xs (fst (spec x a))"

locale simulation =
  fixes step :: "'o \<Rightarrow> 's \<Rightarrow> ('s \<times> 'r) option"
    and spec :: "'o \<Rightarrow> 'a \<Rightarrow> 'a \<times> 'r"
    and rel :: "'s \<Rightarrow> 'a \<Rightarrow> bool"
    and good :: "'a \<Rightarrow> 'o \<Rightarrow> bool"
  assumes step_sim: "rel s a \<Longrightarrow> good a x \<Longrightarrow> \<exists>s'. step x s = Some (s', snd (spec x a)) \<and> rel s' (fst (spec x a))"
begin

lemma run_sim:
  "rel s a \<Longrightarrow> all_ok spec good xs a \<Longrightarrow>
    \<exists>s'. run_steps step xs s = Some (s', snd (run_spec spec xs a)) \<and> rel s' (fst (run_spec spec xs a))"
proof (induction xs arbitrary: s a)
  case (Cons x xs)
  obtain s1 where s1: "step x s = Some (s1, snd (spec x a))" "rel s1 (fst (spec x a))"
    using step_sim Cons.prems by fastforce
  then obtain s2 where "run_steps step xs s1 = Some (s2, snd (run_spec spec xs (fst (spec x a))))"
    "rel s2 (fst (run_spec spec xs (fst (spec x a))))"
    using Cons.IH [OF s1(2)] Cons.prems by auto
  with s1 show ?case by (auto simp: Let_def split: prod.splits)
qed simp

end

end
