(* ===== verification/Pktq_Queue.thy ===== *)
theory Pktq_Queue
  imports Pktq_Laws Simulation
begin

text \<open>
  The operations on a whole packet queue, and the refinement of a specification in which a queue
  is a list of packet lists.
\<close>

section \<open>Searching the precedences\<close>

lemma find_rev_upt_snoc: "find P (rev [0..<Suc n]) = (if P n then Some n else find P (rev [0..<n]))"
  by simp

lemma find_rev_upt: "(find P (rev [0..<n]) = Some k) \<longleftrightarrow> k < n \<and> P k \<and> (\<forall>i. k < i \<longrightarrow> i < n \<longrightarrow> \<not> P i)"
proof (induction n)
  case (Suc n)
  then show ?case using less_Suc_eq by (auto simp: find_rev_upt_snoc simp del: upt_Suc)
qed simp

lemma find_rev_upt_none: "(find P (rev [0..<n]) = None) \<longleftrightarrow> (\<forall>i<n. \<not> P i)"
  by (auto simp: find_None_iff)

lemma find_rev_upt_cong: "(\<And>i. i < n \<Longrightarrow> P i = P' i) \<Longrightarrow> find P (rev [0..<n]) = find P' (rev [0..<n])"
  by (rule find_cong) auto

lemma find_rev_upt_shorten:
  "m \<le> n \<Longrightarrow> (\<And>i. m \<le> i \<Longrightarrow> i < n \<Longrightarrow> \<not> P i) \<Longrightarrow> find P (rev [0..<n]) = find P (rev [0..<m])"
proof (induction n)
  case (Suc n)
  then show ?case by (cases "m = Suc n") (auto simp: find_rev_upt_snoc simp del: upt_Suc)
qed simp

lemma hint_down_eq:
  "hint_down qs n = (case find (\<lambda>i. q_head (qs ! i) \<noteq> 0) (rev [0..<Suc n]) of None \<Rightarrow> 0 | Some k \<Rightarrow> k)"
  by (induction n) (auto simp: find_rev_upt_snoc simp del: upt_Suc)

lemma mask_down_eq:
  "mask_down qs bmp n = find (\<lambda>i. bit bmp i \<and> q_head (qs ! i) \<noteq> 0) (rev [0..<Suc n])"
proof (induction n)
  case (Suc n)
  then show ?case
    by (subst mask_down.simps) (simp add: find_rev_upt_snoc bit_iff_and_push_bit_not_eq_0 del: upt_Suc)
qed (subst mask_down.simps, simp add: bit_iff_and_push_bit_not_eq_0)

lemma scan_up_eq:
  "scan_up qs p n = (case find (\<lambda>i. q_head (qs ! i) \<noteq> 0) [p..<p + n] of None \<Rightarrow> p + n | Some k \<Rightarrow> k)"
proof (induction n arbitrary: p)
  case (Suc n)
  have "[p..<p + Suc n] = p # [Suc p..<Suc p + n]" by (subst upt_conv_Cons) auto
  then show ?case using Suc [of "Suc p"] by (auto simp del: upt_Suc split: option.splits)
qed simp

lemma find_upt_extend:
  "find P [0..<n] = Some k \<Longrightarrow> m \<le> n \<Longrightarrow> k \<le> m \<Longrightarrow> (case find P [0..<m] of None \<Rightarrow> m | Some k \<Rightarrow> k) = k"
proof -
  assume a: "find P [0..<n] = Some k" "m \<le> n" "k \<le> m"
  then have k: "k < n" "P k" "\<And>i. i < k \<Longrightarrow> \<not> P i" by (auto simp: find_Some_iff)
  show ?thesis
  proof (cases "k < m")
    case True
    then have "find P [0..<m] = Some k" using k by (auto simp: find_Some_iff)
    then show ?thesis by simp
  next
    case False
    then have "find P [0..<m] = None" using k by (auto simp: find_None_iff)
    then show ?thesis using False a(3) by simp
  qed
qed

section \<open>The specification\<close>

definition highest :: "addr list list \<Rightarrow> nat option" where
  "highest Q = find (\<lambda>i. Q ! i \<noteq> []) (rev [0..<length Q])"

definition lowest :: "addr list list \<Rightarrow> nat option" where
  "lowest Q = find (\<lambda>i. Q ! i \<noteq> []) [0..<length Q]"

definition highest_of :: "u32 \<Rightarrow> addr list list \<Rightarrow> nat option" where
  "highest_of bmp Q = find (\<lambda>i. bit bmp i \<and> Q ! i \<noteq> []) (rev [0..<length Q])"

datatype pktq_op =
    Penq nat addr | Penq_head nat addr | Pdeq nat | Pdeq_tail nat | Pdel addr nat
  | Pflush nat "addr \<Rightarrow> bool" | Deq | Deq_tail | Peek | Peek_tail | Mdeq u32 | Mlen u32
  | Flush "addr \<Rightarrow> bool"

datatype pktq_res = Packet addr "nat option" | Found bool | Number nat | Freed "addr list"

fun take_first :: "addr list list \<Rightarrow> nat option \<Rightarrow> addr list list \<times> pktq_res" where
  "take_first Q None = (Q, Packet 0 None)"
| "take_first Q (Some k) = (Q[k := tl (Q ! k)], Packet (hd (Q ! k)) (Some k))"

fun take_last :: "addr list list \<Rightarrow> nat option \<Rightarrow> addr list list \<times> pktq_res" where
  "take_last Q None = (Q, Packet 0 None)"
| "take_last Q (Some k) = (Q[k := butlast (Q ! k)], Packet (last (Q ! k)) (Some k))"

fun pktq_spec :: "pktq_op \<Rightarrow> addr list list \<Rightarrow> addr list list \<times> pktq_res" where
  "pktq_spec (Penq k p) Q = (Q[k := Q ! k @ [p]], Packet p None)"
| "pktq_spec (Penq_head k p) Q = (Q[k := p # Q ! k], Packet p None)"
| "pktq_spec (Pdeq k) Q = (Q[k := tl (Q ! k)], Packet (if Q ! k = [] then 0 else hd (Q ! k)) None)"
| "pktq_spec (Pdeq_tail k) Q = (Q[k := butlast (Q ! k)], Packet (if Q ! k = [] then 0 else last (Q ! k)) None)"
| "pktq_spec (Pdel p k) Q = (Q[k := remove1 p (Q ! k)], Found (p \<in> set (Q ! k)))"
| "pktq_spec (Pflush k fn) Q = (Q[k := filter (\<lambda>x. \<not> fn x) (Q ! k)], Freed (filter fn (Q ! k)))"
| "pktq_spec Deq Q = take_first Q (highest Q)"
| "pktq_spec Deq_tail Q = take_last Q (lowest Q)"
| "pktq_spec Peek Q = (Q, case highest Q of None \<Rightarrow> Packet 0 None | Some k \<Rightarrow> Packet (hd (Q ! k)) (Some k))"
| "pktq_spec Peek_tail Q = (Q, case lowest Q of None \<Rightarrow> Packet 0 None | Some k \<Rightarrow> Packet (last (Q ! k)) (Some k))"
| "pktq_spec (Mdeq bmp) Q = take_first Q (highest_of bmp Q)"
| "pktq_spec (Mlen bmp) Q = (Q, Number (sum_list (map (\<lambda>i. length (Q ! i)) (filter (bit bmp) [0..<length Q]))))"
| "pktq_spec (Flush fn) Q = (map (filter (\<lambda>x. \<not> fn x)) Q, Freed (concat (map (filter fn) Q)))"

text \<open>What the callers have to see to; it is what the assertions of the code check, where they can.\<close>

definition flush_good :: "(addr \<Rightarrow> bool) \<Rightarrow> addr list \<Rightarrow> bool" where
  "flush_good fn xs \<longleftrightarrow> filter (\<lambda>x. \<not> fn x) xs = [] \<or> \<not> fn (last xs)"

fun op_good :: "addr list list \<Rightarrow> pktq_op \<Rightarrow> bool" where
  "op_good Q (Penq k p) \<longleftrightarrow> k < length Q \<and> p \<noteq> 0 \<and> p \<notin> set (concat Q) \<and> int (sum_list (map length Q)) < 65535"
| "op_good Q (Penq_head k p) \<longleftrightarrow> k < length Q \<and> p \<noteq> 0 \<and> p \<notin> set (concat Q) \<and> int (sum_list (map length Q)) < 65535"
| "op_good Q (Pdeq k) \<longleftrightarrow> k < length Q"
| "op_good Q (Pdeq_tail k) \<longleftrightarrow> k < length Q"
| "op_good Q (Pdel p k) \<longleftrightarrow> k < length Q"
| "op_good Q (Pflush k fn) \<longleftrightarrow> k < length Q \<and> flush_good fn (Q ! k)"
| "op_good Q (Flush fn) \<longleftrightarrow> (\<forall>xs\<in>set Q. flush_good fn xs)"
| "op_good Q x \<longleftrightarrow> True"

section \<open>The steps of the code\<close>

definition with_prec :: "(links \<times> pktq \<times> addr \<times> nat option) option \<Rightarrow> ((links \<times> pktq) \<times> pktq_res) option" where
  "with_prec r = map_option (\<lambda>(L, pq, p, prec). ((L, pq), Packet p prec)) r"

definition no_prec :: "(links \<times> pktq \<times> addr) option \<Rightarrow> ((links \<times> pktq) \<times> pktq_res) option" where
  "no_prec r = map_option (\<lambda>(L, pq, p). ((L, pq), Packet p None)) r"

fun pktq_step :: "pktq_op \<Rightarrow> links \<times> pktq \<Rightarrow> ((links \<times> pktq) \<times> pktq_res) option" where
  "pktq_step (Penq k p) (L, pq) = no_prec (pktq_penq L pq k p)"
| "pktq_step (Penq_head k p) (L, pq) = no_prec (pktq_penq_head L pq k p)"
| "pktq_step (Pdeq k) (L, pq) = no_prec (pktq_pdeq L pq k)"
| "pktq_step (Pdeq_tail k) (L, pq) = no_prec (pktq_pdeq_tail L pq k)"
| "pktq_step (Pdel p k) (L, pq) = map_option (\<lambda>(L', pq', b). ((L', pq'), Found b)) (pktq_pdel L pq p k)"
| "pktq_step (Pflush k fn) (L, pq) = map_option (\<lambda>(L', pq', fr). ((L', pq'), Freed fr)) (pktq_pflush fn L pq k)"
| "pktq_step Deq (L, pq) = with_prec (pktq_deq L pq)"
| "pktq_step Deq_tail (L, pq) = with_prec (pktq_deq_tail L pq)"
| "pktq_step Peek (L, pq) = map_option (\<lambda>(pq', p, prec). ((L, pq'), Packet p prec)) (pktq_peek pq)"
| "pktq_step Peek_tail (L, pq) = map_option (\<lambda>(p, prec). ((L, pq), Packet p prec)) (pktq_peek_tail pq)"
| "pktq_step (Mdeq bmp) (L, pq) = with_prec (pktq_mdeq L pq bmp)"
| "pktq_step (Mlen bmp) (L, pq) = map_option (\<lambda>n. ((L, pq), Number n)) (pktq_mlen pq bmp)"
| "pktq_step (Flush fn) (L, pq) = map_option (\<lambda>(L', pq', fr). ((L', pq'), Freed fr)) (pktq_flush fn L pq)"

text \<open>Packets outside the queue have a null link.\<close>

definition queue_rel :: "links \<times> pktq \<Rightarrow> addr list list \<Rightarrow> bool" where
  "queue_rel = (\<lambda>(L, pq) Q. pq_rel L pq Q \<and> (\<forall>x. x \<notin> packets Q \<longrightarrow> L x = 0))"

section \<open>The laws\<close>

lemma pq_rel_head: "pq_rel L pq Q \<Longrightarrow> i < length Q \<Longrightarrow> q_head (pq_q pq ! i) = (if Q ! i = [] then 0 else hd (Q ! i))"
  using pq_relD(7) [of L pq Q i] chain_head [of L "q_head (pq_q pq ! i)" "Q ! i"] by (simp add: prec_rel_def)

lemma pq_rel_head_null: "pq_rel L pq Q \<Longrightarrow> i < length Q \<Longrightarrow> q_head (pq_q pq ! i) = 0 \<longleftrightarrow> Q ! i = []"
  using pq_relD(7) [of L pq Q i] chain_nil by (auto simp: prec_rel_def)

lemma pq_rel_tail: "pq_rel L pq Q \<Longrightarrow> i < length Q \<Longrightarrow> q_tail (pq_q pq ! i) = (if Q ! i = [] then 0 else last (Q ! i))"
  using pq_relD(7) [of L pq Q i] by (auto simp: prec_rel_def)

lemma empty_queue: "pq_rel L pq Q \<Longrightarrow> pq_len pq = 0 \<longleftrightarrow> (\<forall>i<length Q. Q ! i = [])"
  using pq_relD(6) [of L pq Q] by (auto simp: unat_eq_0 [symmetric] in_set_conv_nth all_set_conv_all_nth)

lemma highest_hint:
  assumes rel: "pq_rel L pq Q"
  shows "hint_down (pq_q pq) (unat (pq_hi_prec pq)) = (case highest Q of None \<Rightarrow> 0 | Some k \<Rightarrow> k)"
proof -
  let ?h = "unat (pq_hi_prec pq)"
  have "find (\<lambda>i. q_head (pq_q pq ! i) \<noteq> 0) (rev [0..<Suc ?h]) = find (\<lambda>i. Q ! i \<noteq> []) (rev [0..<Suc ?h])"
    using pq_rel_head_null [OF rel] pq_relD(4) [OF rel] by (intro find_rev_upt_cong) auto
  also have "\<dots> = highest Q"
    unfolding highest_def using pq_relD(4,5) [OF rel] by (intro find_rev_upt_shorten [symmetric]) auto
  finally show ?thesis by (simp add: hint_down_eq del: upt_Suc)
qed

lemma highestD: "highest Q = Some k \<Longrightarrow> k < length Q \<and> Q ! k \<noteq> [] \<and> (\<forall>i<length Q. k < i \<longrightarrow> Q ! i = [])"
  by (auto simp: highest_def find_rev_upt)

lemma lowestD: "lowest Q = Some k \<Longrightarrow> k < length Q \<and> Q ! k \<noteq> []"
  by (auto simp: lowest_def find_Some_iff)

lemma highest_none: "highest Q = None \<longleftrightarrow> (\<forall>i<length Q. Q ! i = [])"
  by (auto simp: highest_def find_rev_upt_none)

lemma lowest_none: "lowest Q = None \<longleftrightarrow> (\<forall>i<length Q. Q ! i = [])"
  by (auto simp: lowest_def find_None_iff)

lemma drop_hint_law:
  assumes rel: "pq_rel L pq Q"
  shows "pq_rel L (drop_hint pq) Q"
    "unat (pq_hi_prec (drop_hint pq)) = (case highest Q of None \<Rightarrow> 0 | Some k \<Rightarrow> k)"
    "pq_q (drop_hint pq) = pq_q pq"
proof -
  have "(case highest Q of None \<Rightarrow> 0 | Some k \<Rightarrow> k) < length Q"
    using pq_relD(4) [OF rel] highestD [of Q] by (auto split: option.split)
  then show u: "unat (pq_hi_prec (drop_hint pq)) = (case highest Q of None \<Rightarrow> 0 | Some k \<Rightarrow> k)"
    using highest_hint [OF rel] pq_relD(3) [OF rel]
    by (simp add: drop_hint_def unsigned_of_nat take_bit_nat_eq_self)
  show "pq_q (drop_hint pq) = pq_q pq" by (simp add: drop_hint_def)
  have above: "Q ! i = []" if "i < length Q" "(case highest Q of None \<Rightarrow> 0 | Some k \<Rightarrow> k) < i" for i
    using that highestD [of Q] by (auto simp: highest_none split: option.splits)
  have "(case highest Q of None \<Rightarrow> 0 | Some k \<Rightarrow> k) < length Q"
    using pq_relD(4) [OF rel] highestD [of Q] by (auto split: option.split)
  then show "pq_rel L (drop_hint pq) Q"
    using rel above unfolding pq_rel_def u by (simp add: drop_hint_def)
qed

text \<open>Taking the first packet of a precedence keeps the rest of the relation.\<close>

lemma queue_relI:
  "pq_rel L' pq' Q' \<Longrightarrow> (\<And>x. x \<notin> packets Q' \<Longrightarrow> L' x = 0) \<Longrightarrow> queue_rel (L', pq') Q'"
  by (simp add: queue_rel_def)

lemma packets_iff: "x \<in> packets Q \<longleftrightarrow> (\<exists>i<length Q. x \<in> set (Q ! i))"
proof
  assume "x \<in> packets Q"
  then obtain xs where "xs \<in> set Q" "x \<in> set xs" by blast
  then show "\<exists>i<length Q. x \<in> set (Q ! i)" by (metis in_set_conv_nth)
next
  assume "\<exists>i<length Q. x \<in> set (Q ! i)"
  then show "x \<in> packets Q" using nth_mem by blast
qed

lemma packets_upd:
  assumes "k < length Q"
  shows "x \<in> packets (Q[k := ys]) \<longleftrightarrow> x \<in> set ys \<or> (\<exists>i<length Q. i \<noteq> k \<and> x \<in> set (Q ! i))"
  unfolding packets_iff using assms by (metis length_list_update nth_list_update_eq nth_list_update_neq)

lemma gone_or_kept:
  assumes "k < length Q" "x \<notin> packets (Q[k := ys])" "set (Q ! k) \<subseteq> set ys \<union> S"
  shows "x \<notin> packets Q \<or> x \<in> S"
proof -
  have "x \<notin> set ys" "\<And>i. i < length Q \<Longrightarrow> i \<noteq> k \<Longrightarrow> x \<notin> set (Q ! i)"
    using assms(2) unfolding packets_upd [OF assms(1)] by blast+
  then show ?thesis using assms(3) unfolding packets_iff by blast
qed

lemma queue_shrinkI:
  assumes rel: "queue_rel (L, pq) Q" and k: "k < length Q" and pq: "pq_rel L' pq' (Q[k := ys])"
    and out: "\<And>y. y \<notin> packets Q \<Longrightarrow> L' y = L y" and S: "set (Q ! k) \<subseteq> set ys \<union> S" "\<And>x. x \<in> S \<Longrightarrow> L' x = 0"
  shows "queue_rel (L', pq') (Q[k := ys])"
proof (rule queue_relI [OF pq])
  fix x
  assume "x \<notin> packets (Q[k := ys])"
  then have "x \<notin> packets Q \<or> x \<in> S" by (rule gone_or_kept [OF k _ S(1)])
  then show "L' x = 0" using out S(2) rel by (auto simp: queue_rel_def)
qed

lemma take_head_sim:
  assumes rel: "queue_rel (L, pq) Q" and k: "k < length Q" and ne: "Q ! k \<noteq> []"
  shows "\<exists>L' pq'. take_head L pq k = (L', pq', hd (Q ! k)) \<and> hd (Q ! k) \<noteq> 0 \<and>
    queue_rel (L', pq') (Q[k := tl (Q ! k)])"
proof -
  have r: "pq_rel L pq Q" using rel by (auto simp: queue_rel_def)
  have Qk: "Q ! k = hd (Q ! k) # tl (Q ! k)" using ne by simp
  obtain L' pq' where h: "take_head L pq k = (L', pq', hd (Q ! k))" "pq_rel L' pq' (Q[k := tl (Q ! k)])"
    "hd (Q ! k) \<noteq> 0" "L' = L(hd (Q ! k) := 0)"
    using take_head_law(2) [OF r k Qk] by blast
  have "hd (Q ! k) \<in> packets Q" using ne k unfolding packets_iff by auto
  then have "queue_rel (L', pq') (Q[k := tl (Q ! k)])"
    using h(4) by (intro queue_shrinkI [OF rel k h(2), of "{hd (Q ! k)}"]) (auto, metis Qk set_ConsD)
  then show ?thesis using h by blast
qed

lemma take_tail_sim:
  assumes rel: "queue_rel (L, pq) Q" and k: "k < length Q" and ne: "Q ! k \<noteq> []"
  shows "\<exists>L' pq'. take_tail clr L pq k = Some (L', pq', last (Q ! k)) \<and> last (Q ! k) \<noteq> 0 \<and>
    queue_rel (L', pq') (Q[k := butlast (Q ! k)])"
proof -
  have r: "pq_rel L pq Q" using rel by (auto simp: queue_rel_def)
  have Qk: "Q ! k = butlast (Q ! k) @ [last (Q ! k)]" using ne by simp
  obtain L' pq' where h: "take_tail clr L pq k = Some (L', pq', last (Q ! k))" "pq_rel L' pq' (Q[k := butlast (Q ! k)])"
    "last (Q ! k) \<noteq> 0" "L' (last (Q ! k)) = 0" "\<forall>y. y \<notin> packets Q \<longrightarrow> L' y = L y"
    using take_tail_law(2) [OF r k Qk] by blast
  have "set (Q ! k) \<subseteq> set (butlast (Q ! k)) \<union> {last (Q ! k)}" by (subst Qk) simp
  then have "queue_rel (L', pq') (Q[k := butlast (Q ! k)])"
    using h(4,5) by (intro queue_shrinkI [OF rel k h(2), of "{last (Q ! k)}"]) auto
  then show ?thesis using h by blast
qed

section \<open>The steps implement the specification\<close>

lemma queue_relD: "queue_rel (L, pq) Q \<Longrightarrow> pq_rel L pq Q" "queue_rel (L, pq) Q \<Longrightarrow> x \<notin> packets Q \<Longrightarrow> L x = 0"
  by (auto simp: queue_rel_def)

lemma hint_in_range: "pq_rel L pq Q \<Longrightarrow> \<not> length (pq_q pq) \<le> unat (pq_hi_prec pq)"
  using pq_relD(2,4) [of L pq Q] by simp

lemma none_queued: "pq_rel L pq Q \<Longrightarrow> highest Q = None \<Longrightarrow> pq_len pq = 0"
  "pq_rel L pq Q \<Longrightarrow> lowest Q = None \<Longrightarrow> pq_len pq = 0"
  using empty_queue [of L pq Q] by (simp_all add: highest_none lowest_none)

lemma queue_rel_drop_hint: "queue_rel (L, pq) Q \<Longrightarrow> queue_rel (L, drop_hint pq) Q"
  using drop_hint_law(1) by (auto simp: queue_rel_def)

lemma deq_sim:
  assumes rel: "queue_rel (L, pq) Q"
  shows "\<exists>s'. pktq_step Deq (L, pq) = Some (s', snd (pktq_spec Deq Q)) \<and> queue_rel s' (fst (pktq_spec Deq Q))"
proof (cases "highest Q")
  case None
  then show ?thesis
    using rel none_queued [OF queue_relD(1) [OF rel]] by (simp add: pktq_deq_def with_prec_def)
next
  case (Some k)
  note k = highestD [OF Some]
  note r = queue_relD(1) [OF rel]
  obtain L' pq' where h: "take_head L (drop_hint pq) k = (L', pq', hd (Q ! k))" "hd (Q ! k) \<noteq> 0"
    "queue_rel (L', pq') (Q[k := tl (Q ! k)])"
    using take_head_sim [OF queue_rel_drop_hint [OF rel]] k by blast
  have "pq_len pq \<noteq> 0" using empty_queue [OF r] k by auto
  then have "pktq_step Deq (L, pq) = Some ((L', pq'), Packet (hd (Q ! k)) (Some k))"
    using hint_in_range [OF r] drop_hint_law(2) [OF r] Some h by (simp add: pktq_deq_def with_prec_def Let_def)
  then show ?thesis using h Some by simp
qed

lemma lowest_scan:
  assumes rel: "pq_rel L pq Q" and k: "lowest Q = Some k"
  shows "scan_up (pq_q pq) 0 (unat (pq_hi_prec pq)) = k"
proof -
  let ?h = "unat (pq_hi_prec pq)"
  have kh: "k \<le> ?h" using lowestD [OF k] pq_relD(5) [OF rel] by (metis not_le)
  have "find (\<lambda>i. q_head (pq_q pq ! i) \<noteq> 0) [0..<?h] = find (\<lambda>i. Q ! i \<noteq> []) [0..<?h]"
    using pq_rel_head_null [OF rel] pq_relD(4) [OF rel] by (intro find_cong) auto
  then have "scan_up (pq_q pq) 0 ?h = (case find (\<lambda>i. Q ! i \<noteq> []) [0..<?h] of None \<Rightarrow> ?h | Some k \<Rightarrow> k)"
    by (simp add: scan_up_eq split: option.split)
  also have "\<dots> = k"
    using find_upt_extend [of "\<lambda>i. Q ! i \<noteq> []" "length Q" k ?h] k kh pq_relD(4) [OF rel] by (simp add: lowest_def)
  finally show ?thesis .
qed

lemma deq_tail_sim:
  assumes rel: "queue_rel (L, pq) Q"
  shows "\<exists>s'. pktq_step Deq_tail (L, pq) = Some (s', snd (pktq_spec Deq_tail Q)) \<and> queue_rel s' (fst (pktq_spec Deq_tail Q))"
proof (cases "lowest Q")
  case None
  then show ?thesis
    using rel none_queued [OF queue_relD(1) [OF rel]] by (simp add: pktq_deq_tail_def with_prec_def)
next
  case (Some k)
  note k = lowestD [OF Some]
  note r = queue_relD(1) [OF rel]
  obtain L' pq' where h: "take_tail True L pq k = Some (L', pq', last (Q ! k))" "last (Q ! k) \<noteq> 0"
    "queue_rel (L', pq') (Q[k := butlast (Q ! k)])"
    using take_tail_sim [OF rel] k by blast
  have "pq_len pq \<noteq> 0" using empty_queue [OF r] k by auto
  then have "pktq_step Deq_tail (L, pq) = Some ((L', pq'), Packet (last (Q ! k)) (Some k))"
    using hint_in_range [OF r] lowest_scan [OF r Some] h by (simp add: pktq_deq_tail_def with_prec_def Let_def)
  then show ?thesis using h Some by simp
qed

lemma peek_sim:
  assumes rel: "queue_rel (L, pq) Q"
  shows "\<exists>s'. pktq_step Peek (L, pq) = Some (s', snd (pktq_spec Peek Q)) \<and> queue_rel s' Q"
    "\<exists>s'. pktq_step Peek_tail (L, pq) = Some (s', snd (pktq_spec Peek_tail Q)) \<and> queue_rel s' Q"
proof -
  note r = queue_relD(1) [OF rel]
  show "\<exists>s'. pktq_step Peek (L, pq) = Some (s', snd (pktq_spec Peek Q)) \<and> queue_rel s' Q"
  proof (cases "highest Q")
    case None
    then show ?thesis using rel none_queued [OF r] by (simp add: pktq_peek_def)
  next
    case (Some k)
    then show ?thesis
      using highestD [OF Some] empty_queue [OF r] hint_in_range [OF r] drop_hint_law(2,3) [OF r]
        pq_rel_head [OF r] queue_rel_drop_hint [OF rel] by (auto simp: pktq_peek_def Let_def)
  qed
  show "\<exists>s'. pktq_step Peek_tail (L, pq) = Some (s', snd (pktq_spec Peek_tail Q)) \<and> queue_rel s' Q"
  proof (cases "lowest Q")
    case None
    then show ?thesis using rel none_queued [OF r] by (simp add: pktq_peek_tail_def)
  next
    case (Some k)
    then show ?thesis
      using lowestD [OF Some] empty_queue [OF r] hint_in_range [OF r] lowest_scan [OF r Some]
        pq_rel_tail [OF r] rel by (auto simp: pktq_peek_tail_def Let_def)
  qed
qed

lemma highest_of_le:
  assumes "highest Q = Some h"
  shows "highest_of bmp Q = find (\<lambda>i. bit bmp i \<and> Q ! i \<noteq> []) (rev [0..<Suc h])"
  unfolding highest_of_def using highestD [OF assms] by (intro find_rev_upt_shorten) auto

lemma mdeq_sim:
  assumes rel: "queue_rel (L, pq) Q"
  shows "\<exists>s'. pktq_step (Mdeq bmp) (L, pq) = Some (s', snd (pktq_spec (Mdeq bmp) Q)) \<and>
    queue_rel s' (fst (pktq_spec (Mdeq bmp) Q))"
proof (cases "highest Q")
  case None
  then have "highest_of bmp Q = None" by (auto simp: highest_of_def find_rev_upt_none highest_none)
  then show ?thesis
    using None rel none_queued [OF queue_relD(1) [OF rel]] by (simp add: pktq_mdeq_def with_prec_def)
next
  case (Some h)
  note r = queue_relD(1) [OF rel]
  have "find (\<lambda>i. bit bmp i \<and> q_head (pq_q pq ! i) \<noteq> 0) (rev [0..<Suc h]) = highest_of bmp Q"
    unfolding highest_of_le [OF Some]
    using pq_rel_head_null [OF r] highestD [OF Some] by (intro find_rev_upt_cong) auto
  then have m: "mask_down (pq_q (drop_hint pq)) bmp (unat (pq_hi_prec (drop_hint pq))) = highest_of bmp Q"
    using Some drop_hint_law(2,3) [OF r] by (simp add: mask_down_eq del: upt_Suc)
  have ne: "pq_len pq \<noteq> 0" using empty_queue [OF r] highestD [OF Some] by auto
  show ?thesis
  proof (cases "highest_of bmp Q")
    case None
    then show ?thesis
      using ne m hint_in_range [OF r] queue_rel_drop_hint [OF rel] by (simp add: pktq_mdeq_def with_prec_def Let_def)
  next
    case (Some k)
    then have k: "k < length Q" "Q ! k \<noteq> []" by (auto simp: highest_of_def find_rev_upt)
    obtain L' pq' where h: "take_head L (drop_hint pq) k = (L', pq', hd (Q ! k))" "hd (Q ! k) \<noteq> 0"
      "queue_rel (L', pq') (Q[k := tl (Q ! k)])"
      using take_head_sim [OF queue_rel_drop_hint [OF rel] k] by blast
    then show ?thesis using ne m Some hint_in_range [OF r] by (simp add: pktq_mdeq_def with_prec_def Let_def)
  qed
qed

lemma penq_sim:
  assumes rel: "queue_rel (L, pq) Q" and good: "op_good Q (Penq k p)"
  shows "\<exists>s'. pktq_step (Penq k p) (L, pq) = Some (s', snd (pktq_spec (Penq k p) Q)) \<and> queue_rel s' (fst (pktq_spec (Penq k p) Q))"
    "\<exists>s'. pktq_step (Penq_head k p) (L, pq) = Some (s', snd (pktq_spec (Penq_head k p) Q)) \<and>
      queue_rel s' (fst (pktq_spec (Penq_head k p) Q))"
proof -
  note r = queue_relD [OF rel]
  have g: "k < length Q" "p \<noteq> 0" "p \<notin> packets Q" "sum_list (map length Q) < 65535" using good by auto
  have keep: "queue_rel (L', pq') (Q[k := ys])"
    if "pq_rel L' pq' (Q[k := ys])" "\<forall>x. x \<notin> packets Q \<longrightarrow> x \<noteq> p \<longrightarrow> L' x = L x" "set ys = insert p (set (Q ! k))" for L' pq' ys
  proof (rule queue_relI [OF that(1)])
    fix x
    assume x: "x \<notin> packets (Q[k := ys])"
    then have y: "x \<notin> set ys" "\<forall>i<length Q. i \<noteq> k \<longrightarrow> x \<notin> set (Q ! i)"
      unfolding packets_upd [OF g(1)] by blast+
    then have "x \<noteq> p" "x \<notin> set (Q ! k)" using that(3) by blast+
    moreover have "x \<notin> packets Q" using y(2) \<open>x \<notin> set (Q ! k)\<close> unfolding packets_iff by metis
    ultimately show "L' x = 0" using that(2) r(2) by metis
  qed
  obtain L' pq' where h: "pktq_penq L pq k p = Some (L', pq', p)" "pq_rel L' pq' (Q[k := Q ! k @ [p]])"
    "\<forall>x. x \<notin> packets Q \<longrightarrow> L' x = L x"
    using penq_law [OF r(1) g(1-3) r(2) g(4)] g(3) by blast
  then show "\<exists>s'. pktq_step (Penq k p) (L, pq) = Some (s', snd (pktq_spec (Penq k p) Q)) \<and> queue_rel s' (fst (pktq_spec (Penq k p) Q))"
    using keep [OF h(2)] by (auto simp: no_prec_def)
  obtain L' pq' where h: "pktq_penq_head L pq k p = Some (L', pq', p)" "pq_rel L' pq' (Q[k := p # Q ! k])"
    "\<forall>x. x \<notin> packets Q \<longrightarrow> x \<noteq> p \<longrightarrow> L' x = L x"
    using penq_head_law [OF r(1) g] by blast
  then show "\<exists>s'. pktq_step (Penq_head k p) (L, pq) = Some (s', snd (pktq_spec (Penq_head k p) Q)) \<and>
      queue_rel s' (fst (pktq_spec (Penq_head k p) Q))"
    using keep [OF h(2)] by (auto simp: no_prec_def)
qed

lemma pdeq_sim:
  assumes rel: "queue_rel (L, pq) Q" and k: "k < length Q"
  shows "\<exists>s'. pktq_step (Pdeq k) (L, pq) = Some (s', snd (pktq_spec (Pdeq k) Q)) \<and> queue_rel s' (fst (pktq_spec (Pdeq k) Q))"
    "\<exists>s'. pktq_step (Pdeq_tail k) (L, pq) = Some (s', snd (pktq_spec (Pdeq_tail k) Q)) \<and>
      queue_rel s' (fst (pktq_spec (Pdeq_tail k) Q))"
proof -
  note r = queue_relD(1) [OF rel]
  have range: "\<not> length (pq_q pq) \<le> k" using pq_relD(2) [OF r] k by simp
  show "\<exists>s'. pktq_step (Pdeq k) (L, pq) = Some (s', snd (pktq_spec (Pdeq k) Q)) \<and> queue_rel s' (fst (pktq_spec (Pdeq k) Q))"
    using take_head_sim [OF rel k] take_head_law(1) [OF r k] range rel list_update_id [of Q k]
    by (cases "Q ! k = []") (auto simp: pktq_pdeq_def no_prec_def)
  show "\<exists>s'. pktq_step (Pdeq_tail k) (L, pq) = Some (s', snd (pktq_spec (Pdeq_tail k) Q)) \<and>
      queue_rel s' (fst (pktq_spec (Pdeq_tail k) Q))"
    using take_tail_sim [OF rel k, of False] take_tail_law(1) [OF r k] range rel list_update_id [of Q k]
    by (cases "Q ! k = []") (auto simp: pktq_pdeq_tail_def no_prec_def)
qed

lemma pdel_sim:
  assumes rel: "queue_rel (L, pq) Q" and k: "k < length Q"
  shows "\<exists>s'. pktq_step (Pdel p k) (L, pq) = Some (s', snd (pktq_spec (Pdel p k) Q)) \<and> queue_rel s' (fst (pktq_spec (Pdel p k) Q))"
proof -
  note r = queue_relD(1) [OF rel]
  have nz: "0 \<notin> set (Q ! k)" using pq_relD(7) [OF r k] chain_nonzero by (auto simp: prec_rel_def)
  consider "p = 0" | "p \<noteq> 0" "p \<notin> set (Q ! k)" | "p \<noteq> 0" "p \<in> set (Q ! k)" by blast
  then show ?thesis
  proof cases
    case 1
    then show ?thesis using rel nz by (simp add: pktq_pdel_def remove1_idem)
  next
    case 2
    then show ?thesis using rel pdel_law(1) [OF r k 2] by (simp add: remove1_idem)
  next
    case 3
    obtain L' pq' where h: "pktq_pdel L pq p k = Some (L', pq', True)" "pq_rel L' pq' (Q[k := remove1 p (Q ! k)])"
      "L' p = 0" "\<forall>y. y \<notin> packets Q \<longrightarrow> L' y = L y"
      using pdel_law(2) [OF r k 3] by blast
    have "set (Q ! k) \<subseteq> set (remove1 p (Q ! k)) \<union> {p}" using pq_relD(8) [OF r k] by auto
    then have "queue_rel (L', pq') (Q[k := remove1 p (Q ! k)])"
      using h(3,4) by (intro queue_shrinkI [OF rel k h(2), of "{p}"]) auto
    then show ?thesis using h(1) 3 by simp
  qed
qed

lemma pflush_sim:
  assumes rel: "queue_rel (L, pq) Q" and k: "k < length Q" and ok: "flush_good fn (Q ! k)"
  shows "\<exists>L' pq'. pktq_pflush fn L pq k = Some (L', pq', filter fn (Q ! k)) \<and>
    queue_rel (L', pq') (Q[k := filter (\<lambda>x. \<not> fn x) (Q ! k)])"
proof -
  note r = queue_relD(1) [OF rel]
  obtain L' pq' where h: "pktq_pflush fn L pq k = Some (L', pq', filter fn (Q ! k))"
    "pq_rel L' pq' (Q[k := filter (\<lambda>x. \<not> fn x) (Q ! k)])" "\<forall>x. x \<notin> packets Q \<longrightarrow> L' x = L x"
    "\<forall>x\<in>set (Q ! k). fn x \<longrightarrow> L' x = 0"
    using pflush_law [OF r k ok [unfolded flush_good_def]] by blast
  have "queue_rel (L', pq') (Q[k := filter (\<lambda>x. \<not> fn x) (Q ! k)])"
    using h(3,4) by (intro queue_shrinkI [OF rel k h(2), of "set (filter fn (Q ! k))"]) auto
  then show ?thesis using h(1) by blast
qed

lemma flush_precs_sim:
  "queue_rel (L, pq) Q \<Longrightarrow> length Q = k + n \<Longrightarrow> (\<And>i. k \<le> i \<Longrightarrow> i < length Q \<Longrightarrow> flush_good fn (Q ! i)) \<Longrightarrow>
   \<exists>L' pq'. flush_precs fn L pq fr [k..<k + n] = Some (L', pq', fr @ concat (map (filter fn) (drop k Q))) \<and>
     queue_rel (L', pq') (take k Q @ map (filter (\<lambda>x. \<not> fn x)) (drop k Q))"
proof (induction n arbitrary: L pq Q k fr)
  case (Suc n)
  let ?Q = "Q[k := filter (\<lambda>x. \<not> fn x) (Q ! k)]"
  have k: "k < length Q" using Suc.prems(2) by simp
  have up: "[k..<k + Suc n] = k # [Suc k..<Suc k + n]" by (subst upt_conv_Cons) auto
  obtain L1 pq1 where h: "pktq_pflush fn L pq k = Some (L1, pq1, filter fn (Q ! k))" "queue_rel (L1, pq1) ?Q"
    using pflush_sim [OF Suc.prems(1) k] Suc.prems(3) k by blast
  have "\<exists>L' pq'. flush_precs fn L1 pq1 (fr @ filter fn (Q ! k)) [Suc k..<Suc k + n] =
      Some (L', pq', (fr @ filter fn (Q ! k)) @ concat (map (filter fn) (drop (Suc k) ?Q))) \<and>
     queue_rel (L', pq') (take (Suc k) ?Q @ map (filter (\<lambda>x. \<not> fn x)) (drop (Suc k) ?Q))"
    using Suc.prems by (intro Suc.IH [OF h(2)]) auto
  moreover have "drop k Q = Q ! k # drop (Suc k) Q" using k by (simp add: Cons_nth_drop_Suc)
  ultimately show ?case using h(1) k unfolding up by (simp add: take_Suc_conv_app_nth del: upt_Suc)
qed auto

lemma mlen_sim:
  assumes rel: "pq_rel L pq Q"
  shows "pktq_mlen pq bmp = Some (sum_list (map (\<lambda>i. length (Q ! i)) (filter (bit bmp) [0..<length Q])))"
proof -
  let ?h = "unat (pq_hi_prec pq)"
  obtain d where "length Q = Suc ?h + d" using pq_relD(4) [OF rel] by (metis Suc_leI le_Suc_ex)
  then have "[0..<length Q] = [0..<Suc ?h] @ [Suc ?h..<length Q]"
    using upt_add_eq_append [of 0 "Suc ?h" d] by (simp only: zero_le)
  moreover have "sum_list (map (\<lambda>i. length (Q ! i)) (filter (bit bmp) [Suc ?h..<length Q])) = 0"
    using pq_relD(5) [OF rel] by auto
  ultimately have "sum_list (map (\<lambda>i. length (Q ! i)) (filter (bit bmp) [0..<length Q])) =
    sum_list (map (\<lambda>i. length (Q ! i)) (filter (bit bmp) [0..<Suc ?h]))" by (simp only: filter_append map_append sum_list_append)
  moreover have "map (\<lambda>i. unat (q_len (pq_q pq ! i))) (filter (bit bmp) [0..<Suc ?h]) =
    map (\<lambda>i. length (Q ! i)) (filter (bit bmp) [0..<Suc ?h])"
    using pq_relD(4,7) [OF rel] by (intro map_cong) (auto simp: prec_rel_def simp del: upt_Suc)
  moreover have "(\<lambda>prec. bmp AND push_bit prec 1 \<noteq> 0) = bit bmp" by (simp add: fun_eq_iff bit_iff_and_push_bit_not_eq_0)
  ultimately show ?thesis using hint_in_range [OF rel] by (simp only: pktq_mlen_def if_False)
qed

interpretation pktq: simulation pktq_step pktq_spec queue_rel op_good
proof
  fix s Q x
  assume rel: "queue_rel s Q" and good: "op_good Q x"
  obtain L pq where s: "s = (L, pq)" by (cases s)
  note rel' = rel [unfolded s] and r = queue_relD(1) [OF rel [unfolded s]]
  show "\<exists>s'. pktq_step x s = Some (s', snd (pktq_spec x Q)) \<and> queue_rel s' (fst (pktq_spec x Q))"
  proof (cases x)
    case (Flush fn)
    have "length Q = 0 + unat (pq_num_prec pq)" using pq_relD(1) [OF r] by simp
    then show ?thesis
      using flush_precs_sim [OF rel', of 0 "unat (pq_num_prec pq)" fn "[]"] good Flush s by (auto simp: pktq_flush_def)
  next
    case (Pflush k fn)
    then show ?thesis using pflush_sim [OF rel', of k fn] good s by auto
  next
    case (Mlen bmp)
    then show ?thesis using mlen_sim [OF r] rel s by simp
  qed (use good s rel' penq_sim [OF rel'] pdeq_sim [OF rel'] pdel_sim [OF rel'] deq_sim [OF rel'] deq_tail_sim [OF rel']
      peek_sim [OF rel'] mdeq_sim [OF rel'] in auto)
qed

lemma init_rel:
  assumes "0 < n" "n \<le> PKTQ_MAX_PREC" "n \<le> length (pq_q pq)"
  shows "\<exists>pq'. pktq_init pq n m = Some pq' \<and> queue_rel (\<lambda>_. 0, pq') (replicate n [])"
  using assms by (auto simp: pktq_init_def queue_rel_def pq_rel_def prec_rel_def PKTQ_MAX_PREC_def nth_append
    unsigned_of_nat take_bit_nat_eq_self map_replicate_const)

end
