(* ===== verification/Bcm_Tlv.thy ===== *)
theory Bcm_Tlv
  imports Router_Prelude
begin

text \<open>
  Information elements: the one-byte tag, one-byte length, value triples of bcmutils.c. A buffer is
  the list of the bytes that may be read from its address on, an element pointer an offset
  into it, and reading behind it is \<open>None\<close>; lengths are the code's \<open>int\<close>s.
\<close>

section \<open>The functions of the code\<close>

definition rd :: "u8 list \<Rightarrow> nat \<Rightarrow> u8 option" where
  "rd buf k = (if k < length buf then Some (buf ! k) else None)"

definition bcm_valid_tlv :: "u8 list \<Rightarrow> nat \<Rightarrow> int \<Rightarrow> bool option" where
  "bcm_valid_tlv buf elt buflen =
     (if buflen \<ge> 2 then map_option (\<lambda>len. buflen \<ge> 2 + uint len) (rd buf (elt + 1)) else Some False)"

text \<open>The next element (\<open>None\<close> inside the result for a null pointer) and the new \<open>*buflen\<close>.\<close>

definition bcm_next_tlv :: "u8 list \<Rightarrow> nat \<Rightarrow> int \<Rightarrow> (nat option \<times> int) option" where
  "bcm_next_tlv buf elt buflen =
     (case bcm_valid_tlv buf elt buflen of
        None \<Rightarrow> None
      | Some False \<Rightarrow> Some (None, buflen)
      | Some True \<Rightarrow>
          let len = buf ! (elt + 1); elt' = elt + 2 + unat len; buflen' = buflen - (2 + uint len) in
          map_option (\<lambda>v. (if v then Some elt' else None, buflen')) (bcm_valid_tlv buf elt' buflen'))"

function parse_tlvs :: "u8 list \<Rightarrow> u32 \<Rightarrow> nat \<Rightarrow> int \<Rightarrow> nat option option" where
  "parse_tlvs buf key elt totlen =
     (if totlen \<ge> 2 then
        (case (rd buf (elt + 1), rd buf elt) of
           (Some len, Some tg) \<Rightarrow>
             if ucast tg = key \<and> totlen \<ge> uint len + 2 then Some (Some elt)
             else parse_tlvs buf key (elt + (unat len + 2)) (totlen - (uint len + 2))
         | _ \<Rightarrow> None)
      else Some None)"
  by pat_completeness auto
termination
  by (relation "measure (\<lambda>(buf, key, elt, totlen). nat totlen)") (auto intro: le_less_trans [where y = 0])

definition bcm_parse_tlvs :: "u8 list \<Rightarrow> int \<Rightarrow> u32 \<Rightarrow> nat option option" where
  "bcm_parse_tlvs buf buflen key = parse_tlvs buf key 0 buflen"

function parse_ordered_tlvs :: "u8 list \<Rightarrow> u32 \<Rightarrow> nat \<Rightarrow> int \<Rightarrow> nat option option" where
  "parse_ordered_tlvs buf key elt totlen =
     (if totlen \<ge> 2 then
        (case (rd buf elt, rd buf (elt + 1)) of
           (Some tg, Some len) \<Rightarrow>
             if (ucast tg :: u32) > key then Some None
             else if ucast tg = key \<and> totlen \<ge> uint len + 2 then Some (Some elt)
             else parse_ordered_tlvs buf key (elt + (unat len + 2)) (totlen - (uint len + 2))
         | _ \<Rightarrow> None)
      else Some None)"
  by pat_completeness auto
termination
  by (relation "measure (\<lambda>(buf, key, elt, totlen). nat totlen)") (auto intro: le_less_trans [where y = 0])

definition bcm_parse_ordered_tlvs :: "u8 list \<Rightarrow> int \<Rightarrow> u32 \<Rightarrow> nat option option" where
  "bcm_parse_ordered_tlvs buf buflen key = parse_ordered_tlvs buf key 0 buflen"

declare parse_tlvs.simps [simp del] parse_ordered_tlvs.simps [simp del]

section \<open>Elements as a list\<close>

text \<open>
  The elements of a string of bytes with their offsets, up to the first that does not fit.
\<close>

fun tlvs :: "nat \<Rightarrow> u8 list \<Rightarrow> (nat \<times> u8 \<times> u8 list) list" where
  "tlvs k (tg # len # s) =
     (if unat len \<le> length s then
        (k, tg, take (unat len) s) # tlvs (k + (unat len + 2)) (drop (unat len) s)
      else [])"
| "tlvs k s = []"

fun encode_tlvs :: "(u8 \<times> u8 list) list \<Rightarrow> u8 list" where
  "encode_tlvs [] = []"
| "encode_tlvs ((tg, d) # ts) = tg # of_nat (length d) # d @ encode_tlvs ts"

lemma tlvs_encode:
  "(\<And>tg d. (tg, d) \<in> set ts \<Longrightarrow> length d < 256) \<Longrightarrow> map snd (tlvs k (encode_tlvs ts)) = ts"
proof (induction ts arbitrary: k)
  case (Cons t ts)
  obtain tg d where t: "t = (tg, d)" by (cases t)
  have "length d < 256" using Cons.prems t by auto
  then have u: "unat (of_nat (length d) :: u8) = length d" by (simp add: unsigned_of_nat take_bit_nat_eq_self)
  show ?case using Cons t by (auto simp: u)
qed simp

lemma tlvs_range:
  "(m, tg, d) \<in> set (tlvs k s) \<Longrightarrow> k \<le> m \<and> m + 2 + length d \<le> k + length s \<and> s ! (m - k) = tg \<and>
    unat (s ! (m - k + 1)) = length d \<and> take (length d) (drop (m - k + 2) s) = d"
proof (induction k s rule: tlvs.induct)
  case (1 k i len s)
  show ?case
  proof (cases "m = k \<and> tg = i \<and> d = take (unat len) s \<and> unat len \<le> length s")
    case False
    then have fits: "unat len \<le> length s" and m: "(m, tg, d) \<in> set (tlvs (k + (unat len + 2)) (drop (unat len) s))"
      using "1.prems" by (auto split: if_splits)
    note ih = "1.IH" [OF fits m]
    obtain j where j: "m = k + (unat len + 2) + j" using ih le_Suc_ex by blast
    have "m - k = Suc (Suc (unat len + j))" "m - (k + (unat len + 2)) = j" using j by simp_all
    then show ?thesis using ih fits j by (simp add: add.commute add.left_commute)
  qed auto
qed auto

lemma tlvs_at:
  "(m, tg, d) \<in> set (tlvs k s) \<Longrightarrow>
    tlvs m (drop (m - k) s) = (m, tg, d) # tlvs (m + 2 + length d) (drop (m - k + 2 + length d) s)"
proof (induction k s rule: tlvs.induct)
  case (1 k i len s)
  show ?case
  proof (cases "m = k \<and> tg = i \<and> d = take (unat len) s \<and> unat len \<le> length s")
    case False
    then have fits: "unat len \<le> length s" and m: "(m, tg, d) \<in> set (tlvs (k + (unat len + 2)) (drop (unat len) s))"
      using "1.prems" by (auto split: if_splits)
    obtain j where j: "m = k + (unat len + 2) + j" using tlvs_range [OF m] le_Suc_ex by blast
    have "m - k = Suc (Suc (unat len + j))" "m - (k + (unat len + 2)) = j" using j by simp_all
    then show ?thesis using "1.IH" [OF fits m] by (simp add: ac_simps)
  qed (auto simp: min_def ac_simps)
qed auto

lemma rd_drop: "rd buf (k + j) = rd (drop k buf) j"
  by (auto simp: rd_def)

text \<open>The elements in a window of a buffer, one at a time.\<close>

abbreviation window :: "u8 list \<Rightarrow> nat \<Rightarrow> int \<Rightarrow> u8 list" where
  "window buf elt totlen \<equiv> take (nat totlen) (drop elt buf)"

lemma tlvs_two: "length s < 2 \<Longrightarrow> tlvs k s = []"
  by (cases "(k, s)" rule: tlvs.cases) auto

lemma tlvs_short: "totlen < 2 \<Longrightarrow> tlvs k (window buf elt totlen) = []"
  by (rule tlvs_two) auto

lemma tlvs_window:
  assumes len: "int elt + totlen \<le> int (length buf)" and two: "2 \<le> totlen"
  obtains tg l where "rd buf elt = Some tg" "rd buf (elt + 1) = Some l"
    "tlvs elt (window buf elt totlen) =
      (if uint l + 2 \<le> totlen
       then (elt, tg, take (unat l) (drop (elt + 2) buf)) #
         tlvs (elt + (unat l + 2)) (window buf (elt + (unat l + 2)) (totlen - (uint l + 2)))
       else [])"
proof -
  let ?s = "window buf elt totlen"
  have slen: "length ?s = nat totlen" using len two by simp
  then obtain tg l s where s: "?s = tg # l # s" using two
    by (metis (no_types, opaque_lifting) One_nat_def Suc_1 Suc_le_length_iff nat_le_iff nat_numeral nat_mono)
  have "?s ! 0 = tg" "?s ! 1 = l" unfolding s by simp_all
  then have r: "rd buf elt = Some tg" "rd buf (elt + 1) = Some l"
    using two len by (auto simp: rd_def)
  have sl: "length s = nat totlen - 2" using slen s by simp
  have ul: "uint l = int (unat l)" by (rule uint_nat)
  have n: "nat (totlen - (uint l + 2)) = nat totlen - (unat l + 2)" unfolding ul by arith
  have "drop (unat l) s = drop (unat l + 2) ?s" unfolding s by simp
  also have "\<dots> = take (nat totlen - (unat l + 2)) (drop (unat l + 2) (drop elt buf))" by (rule drop_take)
  also have "drop (unat l + 2) (drop elt buf) = drop (elt + (unat l + 2)) buf" by (metis drop_drop add.commute)
  finally have d: "drop (unat l) s = window buf (elt + (unat l + 2)) (totlen - (uint l + 2))" unfolding n .
  have fits: "uint l + 2 \<le> totlen \<longleftrightarrow> unat l \<le> length s" using sl two unfolding ul by arith
  have "take (unat l) s = take (unat l) (drop (elt + 2) buf)" if "unat l \<le> length s"
  proof -
    have "s = take (nat totlen - 2) (drop (elt + 2) buf)" using arg_cong [OF s, of "drop 2"] by (simp add: drop_take)
    then show ?thesis using that sl by (simp add: min_def)
  qed
  then have "tlvs elt ?s = (if uint l + 2 \<le> totlen
       then (elt, tg, take (unat l) (drop (elt + 2) buf)) #
         tlvs (elt + (unat l + 2)) (window buf (elt + (unat l + 2)) (totlen - (uint l + 2)))
       else [])"
    unfolding s fits using d by simp
  then show thesis using r that by blast
qed

text \<open>The loops are searches of the list of elements, when what they may read is there.\<close>

lemma parse_tlvs_find:
  assumes "int elt + totlen \<le> int (length buf)"
  shows "parse_tlvs buf key elt totlen =
    Some (map_option fst (find (\<lambda>(k, tg, d). ucast tg = key) (tlvs elt (window buf elt totlen))))"
  using assms
proof (induction buf key elt totlen rule: parse_tlvs.induct)
  case (1 buf key elt totlen)
  show ?case
  proof (cases "totlen \<ge> 2")
    case True
    obtain tg l where r: "rd buf elt = Some tg" "rd buf (elt + 1) = Some l"
      and w: "tlvs elt (window buf elt totlen) =
      (if uint l + 2 \<le> totlen
       then (elt, tg, take (unat l) (drop (elt + 2) buf)) #
         tlvs (elt + (unat l + 2)) (window buf (elt + (unat l + 2)) (totlen - (uint l + 2)))
       else [])" using tlvs_window [OF "1.prems" True] .
    show ?thesis
    proof (cases "ucast tg = key \<and> totlen \<ge> uint l + 2")
      case hit: True
      then have "parse_tlvs buf key elt totlen = Some (Some elt)" using True r by (subst parse_tlvs.simps) simp
      then show ?thesis unfolding w using hit by simp
    next
      case miss: False
      have "parse_tlvs buf key elt totlen = parse_tlvs buf key (elt + (unat l + 2)) (totlen - (uint l + 2))"
        using True r miss by (subst parse_tlvs.simps) auto
      also have "\<dots> = Some (map_option fst (find (\<lambda>(k, tg, d). ucast tg = key)
          (tlvs (elt + (unat l + 2)) (window buf (elt + (unat l + 2)) (totlen - (uint l + 2))))))"
        by (rule "1.IH" [OF True refl r(2) r(1)]) (use miss "1.prems" in auto)
      finally show ?thesis
        unfolding w using miss tlvs_short [of "totlen - (uint l + 2)"] by (auto simp del: tlvs.simps)
    qed
  next
    case False
    then show ?thesis by (subst parse_tlvs.simps) (simp add: tlvs_short)
  qed
qed

lemma parse_ordered_find:
  assumes "int elt + totlen \<le> int (length buf)"
  shows "parse_ordered_tlvs buf key elt totlen =
    Some (map_option fst (find (\<lambda>(k, tg, d). ucast tg = key)
      (takeWhile (\<lambda>(k, tg, d). ucast tg \<le> key) (tlvs elt (window buf elt totlen)))))"
  using assms
proof (induction buf key elt totlen rule: parse_ordered_tlvs.induct)
  case (1 buf key elt totlen)
  show ?case
  proof (cases "totlen \<ge> 2")
    case True
    obtain tg l where r: "rd buf elt = Some tg" "rd buf (elt + 1) = Some l"
      and w: "tlvs elt (window buf elt totlen) =
      (if uint l + 2 \<le> totlen
       then (elt, tg, take (unat l) (drop (elt + 2) buf)) #
         tlvs (elt + (unat l + 2)) (window buf (elt + (unat l + 2)) (totlen - (uint l + 2)))
       else [])" using tlvs_window [OF "1.prems" True] .
    consider "(ucast tg :: u32) > key" | "ucast tg = key \<and> totlen \<ge> uint l + 2"
      | "ucast tg \<le> key" "\<not> (ucast tg = key \<and> totlen \<ge> uint l + 2)" by force
    then show ?thesis
    proof cases
      case 1
      then have "parse_ordered_tlvs buf key elt totlen = Some None" using True r by (subst parse_ordered_tlvs.simps) simp
      then show ?thesis unfolding w using 1 by (auto simp del: tlvs.simps)
    next
      case hit: 2
      then have "parse_ordered_tlvs buf key elt totlen = Some (Some elt)" using True r
        by (subst parse_ordered_tlvs.simps) simp
      then show ?thesis unfolding w using hit by simp
    next
      case miss: 3
      have "parse_ordered_tlvs buf key elt totlen = parse_ordered_tlvs buf key (elt + (unat l + 2)) (totlen - (uint l + 2))"
        using True r miss by (subst parse_ordered_tlvs.simps) auto
      also have "\<dots> = Some (map_option fst (find (\<lambda>(k, tg, d). ucast tg = key)
          (takeWhile (\<lambda>(k, tg, d). ucast tg \<le> key)
            (tlvs (elt + (unat l + 2)) (window buf (elt + (unat l + 2)) (totlen - (uint l + 2)))))))"
        by (rule "1.IH" [OF True refl r(1) r(2)]) (use miss "1.prems" in auto)
      finally show ?thesis
        unfolding w using miss tlvs_short [of "totlen - (uint l + 2)"] by (auto simp del: tlvs.simps)
    qed
  next
    case False
    then show ?thesis by (subst parse_ordered_tlvs.simps) (simp add: tlvs_short)
  qed
qed

lemma find_ordered:
  "sorted (map f xs) \<Longrightarrow> find (\<lambda>x. f x = k) (takeWhile (\<lambda>x. f x \<le> k) xs) = find (\<lambda>x. f x = k) xs"
  for f :: "'a \<Rightarrow> 'b::linorder"
proof (induction xs)
  case (Cons x xs)
  have "find (\<lambda>x. f x = k) xs = None" if "\<not> f x \<le> k"
    using Cons.prems that by (auto simp: find_None_iff)
  then show ?case using Cons by auto
qed simp

lemma ucast_tag: "unat (ucast (tg :: u8) :: u32) = unat tg"
  by (simp add: unsigned_ucast_eq) (rule take_bit_nat_eq_self, rule order_less_le_trans [OF unsigned_less], simp)

text \<open>\<open>bcm_next_tlv\<close> goes from an element to the next one, and stays within the buffer.\<close>

lemma next_tlv_window:
  assumes len: "int elt + buflen \<le> int (length buf)"
  shows "bcm_next_tlv buf elt buflen =
    Some (case tlvs elt (window buf elt buflen) of
        [] \<Rightarrow> (None, buflen)
      | (k, tg, d) # ts \<Rightarrow> (map_option fst (case ts of [] \<Rightarrow> None | t # _ \<Rightarrow> Some t), buflen - (2 + int (length d))))"
proof (cases "buflen \<ge> 2")
  case True
  obtain tg l where r: "rd buf elt = Some tg" "rd buf (elt + 1) = Some l"
    and w: "tlvs elt (window buf elt buflen) =
    (if uint l + 2 \<le> buflen
     then (elt, tg, take (unat l) (drop (elt + 2) buf)) #
       tlvs (elt + (unat l + 2)) (window buf (elt + (unat l + 2)) (buflen - (uint l + 2)))
     else [])" using tlvs_window [OF len True] .
  have l: "buf ! (elt + 1) = l" using r(2) by (auto simp: rd_def split: if_splits)
  show ?thesis
  proof (cases "uint l + 2 \<le> buflen")
    case fits: True
    let ?e = "elt + (unat l + 2)" and ?b = "buflen - (uint l + 2)"
    have v: "bcm_valid_tlv buf elt buflen = Some True" using True r fits by (simp add: bcm_valid_tlv_def)
    have dl: "length (take (unat l) (drop (elt + 2) buf)) = unat l" using fits len unfolding uint_nat by (simp del: of_nat_unat)
    have "int ?e + ?b \<le> int (length buf)" using len by simp
    note len' = this
    have "bcm_valid_tlv buf ?e ?b = Some (tlvs ?e (window buf ?e ?b) \<noteq> [])"
      and "tlvs ?e (window buf ?e ?b) \<noteq> [] \<Longrightarrow> fst (hd (tlvs ?e (window buf ?e ?b))) = ?e"
    proof -
      have "bcm_valid_tlv buf ?e ?b = Some (tlvs ?e (window buf ?e ?b) \<noteq> []) \<and>
        (tlvs ?e (window buf ?e ?b) \<noteq> [] \<longrightarrow> fst (hd (tlvs ?e (window buf ?e ?b))) = ?e)"
      proof (cases "?b \<ge> 2")
        case True
        obtain tg' l' where r': "rd buf ?e = Some tg'" "rd buf (?e + 1) = Some l'" and w': "tlvs ?e (window buf ?e ?b) =
          (if uint l' + 2 \<le> ?b
           then (?e, tg', take (unat l') (drop (?e + 2) buf)) #
             tlvs (?e + (unat l' + 2)) (window buf (?e + (unat l' + 2)) (?b - (uint l' + 2)))
           else [])" using tlvs_window [OF len' True] .
        have "bcm_valid_tlv buf ?e ?b = Some (uint l' + 2 \<le> ?b)"
          using True r'(2) unfolding bcm_valid_tlv_def by (simp only: add.commute if_True option.map)
        then show ?thesis unfolding w' by simp
      next
        case False
        then show ?thesis by (simp add: bcm_valid_tlv_def tlvs_short)
      qed
      then show "bcm_valid_tlv buf ?e ?b = Some (tlvs ?e (window buf ?e ?b) \<noteq> [])"
        "tlvs ?e (window buf ?e ?b) \<noteq> [] \<Longrightarrow> fst (hd (tlvs ?e (window buf ?e ?b))) = ?e" by blast+
    qed
    note nxt = this
    obtain T where T: "tlvs ?e (window buf ?e ?b) = T" by blast
    have b: "buflen - (2 + int (unat l)) = ?b" by simp
    have "bcm_next_tlv buf elt buflen = Some (if T \<noteq> [] then Some ?e else None, ?b)"
      using v l nxt(1) unfolding T by (simp add: bcm_next_tlv_def Let_def add.commute)
    then show ?thesis
      using fits nxt(2) dl unfolding w T by (cases T) auto
  next
    case False
    then show ?thesis using True r w by (simp add: bcm_next_tlv_def bcm_valid_tlv_def)
  qed
next
  case False
  then show ?thesis by (simp add: bcm_next_tlv_def bcm_valid_tlv_def tlvs_short)
qed

end
