(* ===== verification/Bcm_Pkt.thy ===== *)
theory Bcm_Pkt
  imports Router_Prelude
begin

text \<open>
  Chains of packet buffers of bcmutils.c. A chain is the list of its buffers' bytes (the null pointer
  is the empty list); the caller's flat buffer is the list of the bytes it has. \<open>None\<close> is an access
  outside a buffer or through a null pointer.
\<close>

section \<open>The functions of the code\<close>

type_synonym pkt = "u8 list list"

definition PKTLEN :: "u8 list \<Rightarrow> u32" where "PKTLEN s = of_nat (length s)"

fun skip_bufs :: "u32 \<Rightarrow> pkt \<Rightarrow> u32 \<times> pkt" where
  "skip_bufs offset [] = (offset, [])"
| "skip_bufs offset (s # p) =
     (if offset = 0 \<or> offset < PKTLEN s then (offset, s # p) else skip_bufs (offset - PKTLEN s) p)"

text \<open>The bytes written to \<open>buf\<close>, one piece per buffer; their number is what \<open>pktcopy\<close> returns.\<close>

fun copy_out :: "u32 \<Rightarrow> u32 \<Rightarrow> pkt \<Rightarrow> u8 list option" where
  "copy_out offset len [] = Some []"
| "copy_out offset len (s # p) =
     (if len = 0 then Some []
      else
        let n = min (PKTLEN s - offset) len in
        if length s < unat offset + unat n then None
        else map_option (\<lambda>bs. take (unat n) (drop (unat offset) s) @ bs) (copy_out 0 (len - n) p))"

definition pktcopy :: "pkt \<Rightarrow> u32 \<Rightarrow> int \<Rightarrow> (u8 list \<times> u32) option" where
  "pktcopy p offset len =
     (let (offset', p') = skip_bufs offset p in
      if p' = [] then Some ([], 0)
      else map_option (\<lambda>bs. (bs, of_nat (length bs))) (copy_out offset' (of_int (if len < 0 then 4096 else len)) p'))"

text \<open>The chain after the copy and the number of bytes taken from \<open>buf\<close>.\<close>

fun copy_in :: "u32 \<Rightarrow> u32 \<Rightarrow> u8 list \<Rightarrow> u32 \<Rightarrow> pkt \<Rightarrow> (pkt \<times> u32) option" where
  "copy_in offset len buf ret [] = Some ([], ret)"
| "copy_in offset len buf ret (s # p) =
     (if len = 0 then Some (s # p, ret)
      else
        let n = min (PKTLEN s - offset) len in
        if length buf < unat n \<or> length s < unat offset + unat n then None
        else map_option (\<lambda>(p', r).
            ((take (unat offset) s @ take (unat n) buf @ drop (unat offset + unat n) s) # p', r))
          (copy_in 0 (len - n) (drop (unat n) buf) (ret + n) p))"

definition pktfrombuf :: "pkt \<Rightarrow> u32 \<Rightarrow> int \<Rightarrow> u8 list \<Rightarrow> (pkt \<times> u32) option" where
  "pktfrombuf p offset len buf =
     (let (offset', p') = skip_bufs offset p in
      if p' = [] then Some (p, 0)
      else map_option (\<lambda>(q, r). (take (length p - length p') p @ q, r)) (copy_in offset' (of_int len) buf 0 p'))"

fun pkttotlen :: "pkt \<Rightarrow> u32" where
  "pkttotlen [] = 0"
| "pkttotlen (s # p) = PKTLEN s + pkttotlen p"

fun pktlast :: "pkt \<Rightarrow> u8 list option" where
  "pktlast [] = None"
| "pktlast (s # p) = (if p = [] then Some s else pktlast p)"

fun pktsegcnt :: "pkt \<Rightarrow> u32" where
  "pktsegcnt [] = 0"
| "pktsegcnt (s # p) = pktsegcnt p + 1"

section \<open>The bytes of a chain\<close>

definition pkt_ok :: "pkt \<Rightarrow> bool" where
  "pkt_ok p \<longleftrightarrow> (\<forall>s\<in>set p. length s < 2 ^ 31)"

lemma pktlen: "length s < 2 ^ 31 \<Longrightarrow> unat (PKTLEN s) = length s"
  by (simp add: PKTLEN_def unat_of_nat32)

lemma pktlen_sub:
  "length s < 2 ^ 31 \<Longrightarrow> unat offset \<le> length s \<Longrightarrow> unat (PKTLEN s - offset) = length s - unat offset"
  by (subst unat_sub) (simp_all add: pktlen word_le_nat_alt)

lemma skip_bufs_law:
  "pkt_ok p \<Longrightarrow> skip_bufs offset p = (o', p') \<Longrightarrow>
    \<exists>q. p = q @ p' \<and> (p' \<noteq> [] \<longrightarrow> unat offset = length (concat q) + unat o' \<and> unat o' \<le> length (hd p')) \<and>
      (p' = [] \<longrightarrow> length (concat q) \<le> unat offset)"
proof (induction offset p rule: skip_bufs.induct)
  case (2 offset s p)
  have s: "length s < 2 ^ 31" "pkt_ok p" using "2.prems"(1) by (simp_all add: pkt_ok_def)
  show ?case
  proof (cases "offset = 0 \<or> offset < PKTLEN s")
    case True
    then show ?thesis using "2.prems"(2) s pktlen [of s]
      by (intro exI [of _ "[]"]) (auto simp: word_less_nat_alt)
  next
    case False
    then have le: "PKTLEN s \<le> offset" by (simp add: not_less)
    then have u: "unat (offset - PKTLEN s) = unat offset - length s" "length s \<le> unat offset"
      using pktlen [of s] s by (simp_all add: unat_sub word_le_nat_alt)
    obtain q where "p = q @ p'" "p' \<noteq> [] \<longrightarrow> unat (offset - PKTLEN s) = length (concat q) + unat o' \<and> unat o' \<le> length (hd p')"
      "p' = [] \<longrightarrow> length (concat q) \<le> unat (offset - PKTLEN s)"
      using "2.IH" [OF False s(2)] "2.prems"(2) False by auto
    then show ?thesis using u by (intro exI [of _ "s # q"]) auto
  qed
qed simp

lemma copy_out_law:
  "pkt_ok p \<Longrightarrow> (p \<noteq> [] \<Longrightarrow> unat offset \<le> length (hd p)) \<Longrightarrow>
    copy_out offset len p = Some (take (unat len) (drop (unat offset) (concat p)))" if "p = [] \<Longrightarrow> offset = 0"
  using that
proof (induction offset len p rule: copy_out.induct)
  case (2 offset len s p)
  have s: "length s < 2 ^ 31" "pkt_ok p" "unat offset \<le> length s" using "2.prems" by (simp_all add: pkt_ok_def)
  let ?n = "min (PKTLEN s - offset) len"
  have n: "unat ?n = min (length s - unat offset) (unat len)"
    using pktlen_sub [OF s(1,3)] by (auto simp: min_def word_le_nat_alt)
  have ln: "unat (len - ?n) = unat len - unat ?n" by (simp add: unat_sub)
  show ?case
  proof (cases "len = 0")
    case False
    have "copy_out 0 (len - ?n) p = Some (take (unat (len - ?n)) (drop (unat (0 :: u32)) (concat p)))"
      by (rule "2.IH" [OF False refl]) (use n s in auto)
    then show ?thesis using False n s(3) unfolding ln by (auto simp: Let_def min_def)
  qed simp
qed simp

lemma pktcopy_law:
  fixes len :: int
  assumes "pkt_ok p"
  defines "n \<equiv> if len < 0 then 4096 else nat len"
  assumes "n < 2 ^ 32"
  shows "pktcopy p offset len = Some (take n (drop (unat offset) (concat p)),
    of_nat (length (take n (drop (unat offset) (concat p)))))"
proof -
  obtain o' p' where sk: "skip_bufs offset p = (o', p')" by fastforce
  obtain q where q: "p = q @ p'" "p' \<noteq> [] \<longrightarrow> unat offset = length (concat q) + unat o' \<and> unat o' \<le> length (hd p')"
    "p' = [] \<longrightarrow> length (concat q) \<le> unat offset"
    using skip_bufs_law [OF assms(1) sk] by blast
  show ?thesis
  proof (cases "p' = []")
    case False
    have "pkt_ok p'" using assms(1) q(1) by (simp add: pkt_ok_def)
    then have "copy_out o' (of_int (if len < 0 then 4096 else len)) p' =
      Some (take (unat (of_int (if len < 0 then 4096 else len) :: u32)) (drop (unat o') (concat p')))"
      using q(2) False by (intro copy_out_law) auto
    moreover have "unat (of_int (if len < 0 then 4096 else len) :: u32) = n"
    proof (cases "len < 0")
      case False
      then have "(of_int len :: u32) = of_nat n" by (simp add: n_def)
      then show ?thesis using False assms(3) by (simp add: unat_of_nat32)
    qed (simp add: n_def)
    moreover have "drop (unat offset) (concat p) = drop (unat o') (concat p')" using q(1,2) False by simp
    ultimately show ?thesis using False by (simp add: pktcopy_def sk)
  next
    case True
    then have "length (concat p) \<le> unat offset" using q by simp
    then show ?thesis using True by (simp add: pktcopy_def sk)
  qed
qed

text \<open>Overwriting a piece of a list.\<close>

definition put_at :: "nat \<Rightarrow> 'a list \<Rightarrow> 'a list \<Rightarrow> 'a list" where
  "put_at k new xs = take k xs @ new @ drop (k + length new) xs"

lemma put_at_nil [simp]: "put_at k [] xs = xs"
  by (simp add: put_at_def)

lemma length_put_at: "k + length new \<le> length xs \<Longrightarrow> length (put_at k new xs) = length xs"
  by (simp add: put_at_def)

lemma take_put_at: "k \<le> length xs \<Longrightarrow> take (length new) (drop k (put_at k new xs)) = new"
  by (simp add: put_at_def)

lemma nth_put_at: "k < off \<or> off + length new \<le> k \<Longrightarrow> k < length xs \<Longrightarrow> put_at off new xs ! k = xs ! k"
  by (auto simp: put_at_def nth_append)

lemma put_at_append1: "k + length new \<le> length xs \<Longrightarrow> put_at k new (xs @ ys) = put_at k new xs @ ys"
  by (simp add: put_at_def)

lemma put_at_append2: "put_at (length xs + k) new (xs @ ys) = xs @ put_at k new ys"
  by (simp add: put_at_def add.assoc)

lemma put_at_split:
  "length xs = k + length a \<Longrightarrow> put_at k (a @ b) (xs @ ys) = put_at k a xs @ put_at 0 b ys"
  by (simp add: put_at_def)

lemma min_split: "(k :: nat) \<le> s \<Longrightarrow> min (s + c - k) l = min (s - k) l + min c (l - min (s - k) l)"
  by arith

lemma copy_in_law:
  "pkt_ok p \<Longrightarrow> (p \<noteq> [] \<Longrightarrow> unat offset \<le> length (hd p)) \<Longrightarrow> (p = [] \<Longrightarrow> offset = 0) \<Longrightarrow>
    m = min (length (concat p) - unat offset) (unat len) \<Longrightarrow> m \<le> length buf \<Longrightarrow>
   \<exists>p'. copy_in offset len buf ret p = Some (p', ret + of_nat m) \<and> map length p' = map length p \<and>
     concat p' = put_at (unat offset) (take m buf) (concat p)"
proof (induction p arbitrary: offset len buf ret m)
  case (Cons s p)
  have s: "length s < 2 ^ 31" "pkt_ok p" "unat offset \<le> length s" using Cons.prems by (simp_all add: pkt_ok_def)
  let ?n = "min (PKTLEN s - offset) len"
  have n: "unat ?n = min (length s - unat offset) (unat len)"
    using pktlen_sub [OF s(1,3)] by (auto simp: min_def word_le_nat_alt)
  have ln: "unat (len - ?n) = unat len - unat ?n" by (simp add: unat_sub)
  show ?case
  proof (cases "len = 0")
    case False
    let ?m = "min (length (concat p) - unat (0 :: u32)) (unat (len - ?n))"
    have "length (concat (s # p)) = length s + length (concat p)" by simp
    then have mm: "m = unat ?n + ?m"
      using Cons.prems(4) min_split [OF s(3), of "length (concat p)" "unat len"] unfolding ln n by (simp only: unsigned_0 diff_zero)
    have nm: "unat ?n \<le> m" using mm by simp
    have nb: "?m \<le> length (drop (unat ?n) buf)" using mm Cons.prems(5) by (simp only: length_drop) linarith
    obtain p' where p': "copy_in 0 (len - ?n) (drop (unat ?n) buf) (ret + ?n) p = Some (p', ret + ?n + of_nat ?m)"
      "map length p' = map length p" "concat p' = put_at 0 (take ?m (drop (unat ?n) buf)) (concat p)"
      using Cons.IH [OF s(2) _ _ refl nb, of "ret + ?n"] by auto
    have fit: "unat ?n \<le> length buf" "unat offset + unat ?n \<le> length s" using nm Cons.prems(5) n s(3) by auto
    let ?s = "put_at (unat offset) (take (unat ?n) buf) s"
    have "copy_in offset len buf ret (s # p) = Some (?s # p', ret + of_nat m)"
      using False fit p'(1) mm by (simp add: Let_def put_at_def min_def)
    moreover have "length ?s = length s" using fit by (intro length_put_at) simp
    moreover have "?s @ put_at 0 (take ?m (drop (unat ?n) buf)) (concat p) = put_at (unat offset) (take m buf) (s @ concat p)"
    proof (cases "unat offset + unat ?n = length s")
      case True
      have "take m buf = take (unat ?n) buf @ take ?m (drop (unat ?n) buf)" unfolding mm by (rule take_add)
      then show ?thesis using True fit by (simp add: put_at_split min_def)
    next
      case False
      then have "?m = 0" using n ln fit by auto
      then show ?thesis using mm fit by (simp add: put_at_append1)
    qed
    ultimately show ?thesis using p'(2,3) by auto
  qed (use Cons.prems in auto)
qed auto

lemma pktfrombuf_law:
  fixes len :: int and offset :: u32
  assumes "pkt_ok p" "0 \<le> len" "nat len \<le> length buf" "len < 2 ^ 32"
  defines "n \<equiv> min (nat len) (length (concat p) - unat offset)"
  shows "\<exists>p'. pktfrombuf p offset len buf = Some (p', of_nat n) \<and> map length p' = map length p \<and>
    concat p' = put_at (unat offset) (take n buf) (concat p)"
proof -
  obtain o' p' where sk: "skip_bufs offset p = (o', p')" by fastforce
  obtain q where q: "p = q @ p'" "p' \<noteq> [] \<longrightarrow> unat offset = length (concat q) + unat o' \<and> unat o' \<le> length (hd p')"
    "p' = [] \<longrightarrow> length (concat q) \<le> unat offset"
    using skip_bufs_law [OF assms(1) sk] by blast
  have un: "unat (of_int len :: u32) = nat len"
  proof -
    have "unat (of_nat (nat len) :: u32) = nat len"
      by (rule unat_of_nat32) (use assms(2,4) in \<open>simp add: nat_less_iff\<close>)
    then show ?thesis using assms(2) by simp
  qed
  show ?thesis
  proof (cases "p' = []")
    case True
    then have "n = 0" using q by (simp add: n_def)
    then show ?thesis using True by (simp add: pktfrombuf_def sk)
  next
    case False
    have n: "n = min (length (concat p') - unat o') (unat (of_int len :: u32))"
      using q(1,2) False un by (simp add: n_def min.commute)
    have "pkt_ok p'" using assms(1) q(1) by (simp add: pkt_ok_def)
    moreover have nb: "n \<le> length buf" using assms(3) by (simp add: n_def)
    ultimately obtain r where c: "copy_in o' (of_int len) buf 0 p' = Some (r, 0 + of_nat n)" "map length r = map length p'"
      "concat r = put_at (unat o') (take n buf) (concat p')"
      using copy_in_law [OF _ _ _ n nb, of 0] q(2) False by blast
    have "take (length p - length p') p = q" using q(1) by simp
    then have "pktfrombuf p offset len buf = Some (q @ r, of_nat n)" using c(1) False by (simp add: pktfrombuf_def sk)
    moreover have "map length (q @ r) = map length p" using c(2) q(1) by simp
    moreover have "concat (q @ r) = put_at (unat offset) (take n buf) (concat p)"
      using c(3) q(1,2) False put_at_append2 [of "concat q" "unat o'"] by simp
    ultimately show ?thesis by blast
  qed
qed

lemma pkttotlen_law: "pkttotlen p = of_nat (length (concat p))"
  by (induction p) (simp_all add: PKTLEN_def)

lemma pktsegcnt_law: "pktsegcnt p = of_nat (length p)"
  by (induction p) simp_all

lemma pktlast_law: "pktlast p = (if p = [] then None else Some (last p))"
  by (induction p) auto

end
