(* ===== verification/Bcm_Vars.thy ===== *)
theory Bcm_Vars
  imports Bcm_Str
begin

text \<open>
  The board variables of bcmutils.c: lookup of a name in a block of \<open>name=value\<close> strings with the
  NVRAM variables behind it, and the GPIO pins named there. The NVRAM lookup \<open>nvram_get\<close> is an argument.
  \<open>None\<close> is a read behind the block.
\<close>

section \<open>The functions of the code\<close>

text \<open>\<open>bcmp\<close> reads as many bytes as the name has, even when the string at \<open>s\<close> is shorter.\<close>

function getvar_walk :: "cstr \<Rightarrow> u8 list \<Rightarrow> cstr option option" where
  "getvar_walk name s =
     (if s = [] then None
      else if hd s = 0 then Some None
      else if length s < length name \<or> s = name then None
      else if take (length name) s = name \<and> s ! length name = 61 then
        (let v = drop (length name + 1) s in
         if 0 \<in> set v then Some (Some (takeWhile (\<lambda>c. c \<noteq> 0) v)) else None)
      else if 0 \<notin> set s then None
      else getvar_walk name (drop (Suc (length (takeWhile (\<lambda>c. c \<noteq> 0) s))) s))"
  by auto
termination
  by (relation "measure (\<lambda>(name, s). length s)") (auto intro!: diff_less)

declare getvar_walk.simps [simp del]

definition getvar :: "(cstr \<Rightarrow> cstr option) \<Rightarrow> u8 list option \<Rightarrow> cstr option \<Rightarrow> cstr option option" where
  "getvar nvram_get vars name =
     (case name of None \<Rightarrow> Some None
      | Some n \<Rightarrow>
          if n = [] then Some None
          else
            (case (case vars of None \<Rightarrow> Some None | Some m \<Rightarrow> getvar_walk n m) of
               None \<Rightarrow> None
             | Some (Some v) \<Rightarrow> Some (Some v)
             | Some None \<Rightarrow> Some (nvram_get n)))"

definition getintvar :: "(cstr \<Rightarrow> cstr option) \<Rightarrow> u8 list option \<Rightarrow> cstr \<Rightarrow> int option" where
  "getintvar nvram_get vars name =
     map_option (\<lambda>v. case v of None \<Rightarrow> 0 | Some val \<Rightarrow> sint (fst (bcm_strtoul val 0))) (getvar nvram_get vars (Some name))"

function findmatch :: "cstr \<Rightarrow> cstr \<Rightarrow> bool" where
  "findmatch s name =
     (if 44 \<in> set s then
        (let c = length (takeWhile (\<lambda>x. x \<noteq> 44) s) in
         if length name = c \<and> take (length name) s = name then True
         else findmatch (drop (c + 1) s) name)
      else s = name)"
  by auto
termination
  by (relation "measure (\<lambda>(s, name). length s)") (auto intro!: diff_less dest: length_pos_if_in_set)

declare findmatch.simps [simp del]

definition GPIO_NUMPINS :: nat where "GPIO_NUMPINS = 32"
definition GPIO_PIN_NOTDEFINED :: u32 where "GPIO_PIN_NOTDEFINED = 0x20"

text \<open>\<open>%d\<close>, and \<open>snprintf\<close> into a buffer of \<open>n\<close> bytes.\<close>

fun dec_digits :: "nat \<Rightarrow> nat list" where
  "dec_digits n = (if n < 10 then [n] else dec_digits (n div 10) @ [n mod 10])"

declare dec_digits.simps [simp del]

definition fmt_d :: "int \<Rightarrow> cstr" where
  "fmt_d k = (if k < 0 then 45 # map digit_char (dec_digits (nat (- k))) else map digit_char (dec_digits (nat k)))"

definition snprintf :: "nat \<Rightarrow> cstr \<Rightarrow> cstr" where
  "snprintf n s = take (n - 1) s"

definition gpio_name :: "u32 \<Rightarrow> cstr" where
  "gpio_name pin = snprintf 9 (cstr ''gpio'' @ fmt_d (sint pin))"

fun gpio_scan :: "(cstr \<Rightarrow> cstr option) \<Rightarrow> u8 list option \<Rightarrow> cstr \<Rightarrow> nat list \<Rightarrow> nat option option" where
  "gpio_scan nvram_get vars pin_name [] = Some None"
| "gpio_scan nvram_get vars pin_name (pin # pins) =
     (case getvar nvram_get vars (Some (gpio_name (of_nat pin))) of
        None \<Rightarrow> None
      | Some val \<Rightarrow>
          if (case val of None \<Rightarrow> False | Some v \<Rightarrow> findmatch v pin_name) then Some (Some pin)
          else gpio_scan nvram_get vars pin_name pins)"

definition getgpiopin :: "(cstr \<Rightarrow> cstr option) \<Rightarrow> u8 list option \<Rightarrow> cstr \<Rightarrow> u32 \<Rightarrow> u32 option" where
  "getgpiopin nvram_get vars pin_name def_pin =
     (case gpio_scan nvram_get vars pin_name [0..<GPIO_NUMPINS] of
        None \<Rightarrow> None
      | Some (Some pin) \<Rightarrow> Some (of_nat pin)
      | Some None \<Rightarrow>
          if def_pin \<noteq> GPIO_PIN_NOTDEFINED then
            map_option (\<lambda>v. if v \<noteq> None then GPIO_PIN_NOTDEFINED else def_pin)
              (getvar nvram_get vars (Some (gpio_name def_pin)))
          else Some def_pin)"

section \<open>A block of variables\<close>

definition var_block :: "(cstr \<times> cstr) list \<Rightarrow> u8 list" where
  "var_block kvs = concat (map (\<lambda>(n, v). n @ [61] @ v @ [0]) kvs) @ [0]"

definition vars_ok :: "(cstr \<times> cstr) list \<Rightarrow> bool" where
  "vars_ok kvs \<longleftrightarrow> (\<forall>(n, v)\<in>set kvs. n \<noteq> [] \<and> 61 \<notin> set n \<and> 0 \<notin> set n \<and> 0 \<notin> set v)"

lemma name_matches:
  assumes "61 \<notin> set n" "61 \<notin> set name" "0 \<notin> set n" "0 \<notin> set name"
    and "length name < length (n @ 61 # r)"
  shows "take (length name) (n @ 61 # r) = name \<and> (n @ 61 # r) ! length name = 61 \<longleftrightarrow> n = name"
proof
  assume a: "take (length name) (n @ 61 # r) = name \<and> (n @ 61 # r) ! length name = 61"
  consider "length name < length n" | "length name = length n" | "length n < length name" by linarith
  then show "n = name"
  proof cases
    case 1
    then show ?thesis using a assms(1) nth_mem [of "length name" n] by (auto simp: nth_append)
  next
    case 3
    then have "name ! length n = 61" using a by (metis nth_append_length nth_take)
    then show ?thesis using 3 assms(2) nth_mem by metis
  qed (use a in auto)
qed auto

lemma getvar_walk_block:
  "vars_ok kvs \<Longrightarrow> 61 \<notin> set name \<Longrightarrow> 0 \<notin> set name \<Longrightarrow> length name \<le> length pad \<Longrightarrow>
    getvar_walk name (var_block kvs @ pad) = Some (map_of kvs name)"
proof (induction kvs)
  case (Cons kv kvs)
  obtain n v where kv: "kv = (n, v)" by (cases kv)
  have ok: "n \<noteq> []" "61 \<notin> set n" "0 \<notin> set n" "0 \<notin> set v" "vars_ok kvs"
    using Cons.prems(1) by (auto simp: vars_ok_def kv)
  let ?r = "v @ 0 # var_block kvs @ pad"
  have s: "var_block (kv # kvs) @ pad = n @ 61 # ?r" by (simp add: var_block_def kv)
  have len: "length name < length (n @ 61 # ?r)" using Cons.prems(4) by simp
  have ih: "getvar_walk name (var_block kvs @ pad) = Some (map_of kvs name)" using Cons ok(5) by simp
  have tw: "takeWhile (\<lambda>c. c \<noteq> 0) (n @ 61 # ?r) = n @ 61 # v"
    using ok by (auto simp: takeWhile_append)
  have hd: "hd (n @ 61 # ?r) \<noteq> 0" using ok(1,3) by (cases n) auto
  note nm = name_matches [OF ok(2) Cons.prems(2) ok(3) Cons.prems(3) len]
  have "takeWhile (\<lambda>c. c \<noteq> 0) ?r = v" "0 \<in> set ?r" using ok(4) by (auto simp: takeWhile_append)
  then show ?case
    unfolding s using len nm hd tw ih by (subst getvar_walk.simps) (auto simp: kv Let_def)
qed (simp add: var_block_def getvar_walk.simps)

section \<open>Lists of names\<close>

fun split_on :: "'a \<Rightarrow> 'a list \<Rightarrow> 'a list list" where
  "split_on c [] = [[]]"
| "split_on c (x # xs) = (if x = c then [] # split_on c xs else (x # hd (split_on c xs)) # tl (split_on c xs))"

lemma split_on_not_nil [simp]: "split_on c xs \<noteq> []"
  by (cases xs) auto

lemma split_on_none: "c \<notin> set xs \<Longrightarrow> split_on c xs = [xs]"
  by (induction xs) auto

lemma split_on_first: "c \<notin> set xs \<Longrightarrow> split_on c (xs @ c # ys) = xs # split_on c ys"
  by (induction xs) auto

lemma findmatch_split: "findmatch s name \<longleftrightarrow> name \<in> set (split_on 44 s)"
proof (induction s name rule: findmatch.induct)
  case (1 s name)
  show ?case
  proof (cases "44 \<in> set s")
    case True
    then obtain xs ys where s: "s = xs @ 44 # ys" "44 \<notin> set xs" by (meson split_list_first)
    have tw: "takeWhile (\<lambda>x. x \<noteq> 44) s = xs" using s by (simp add: takeWhile_append)
    have "findmatch ys name = (name \<in> set (split_on 44 ys))" if "\<not> (length name = length xs \<and> take (length name) s = name)"
      using "1.IH" [OF True refl] that tw s by simp
    then show ?thesis
      using True tw s split_on_first [OF s(2), of ys] by (subst findmatch.simps) (auto simp: Let_def)
  next
    case False
    then show ?thesis by (subst findmatch.simps) (auto simp: split_on_none)
  qed
qed

lemma gpio_scan_law:
  "(\<And>pin. pin \<in> set pins \<Longrightarrow> getvar nv vars (Some (gpio_name (of_nat pin))) = Some (val pin)) \<Longrightarrow>
    gpio_scan nv vars pin_name pins =
      Some (find (\<lambda>pin. case val pin of None \<Rightarrow> False | Some v \<Rightarrow> pin_name \<in> set (split_on 44 v)) pins)"
  by (induction pins) (auto simp: findmatch_split split: option.splits)

section \<open>The names of the pins\<close>

lemma dec_digits_bound: "d \<in> set (dec_digits n) \<Longrightarrow> d < 10"
  by (induction n rule: dec_digits.induct) (subst (asm) (2) dec_digits.simps, auto split: if_splits)

lemma digit_char_plain: "v < 10 \<Longrightarrow> digit_char v \<noteq> 61 \<and> digit_char v \<noteq> 0"
proof -
  assume "v < 10"
  then have "v \<in> {0, 1, 2, 3, 4, 5, 6, 7, 8, 9}" unfolding insert_iff empty_iff by presburger
  then show ?thesis by (elim insertE emptyE; simp add: digit_char_def)
qed

lemma fmt_d_plain: "61 \<notin> set (fmt_d k)" "0 \<notin> set (fmt_d k)"
proof -
  have "digit_char d \<noteq> 61 \<and> digit_char d \<noteq> 0" if "d \<in> set (dec_digits n)" for d n
    using that dec_digits_bound digit_char_plain by blast
  then have "\<forall>n. 61 \<notin> set (map digit_char (dec_digits n)) \<and> 0 \<notin> set (map digit_char (dec_digits n))" by force
  then show "61 \<notin> set (fmt_d k)" "0 \<notin> set (fmt_d k)" by (simp_all add: fmt_d_def)
qed

lemma gpio_name_plain:
  "gpio_name pin \<noteq> []" "61 \<notin> set (gpio_name pin)" "0 \<notin> set (gpio_name pin)" "length (gpio_name pin) \<le> 8"
  using fmt_d_plain [of "sint pin"] in_set_takeD [of _ 4 "fmt_d (sint pin)"]
  by (auto simp: gpio_name_def snprintf_def cstr_def)

end
