(* ===== verification/Bcm_Conv.thy ===== *)
theory Bcm_Conv
  imports Bcm_Vars
begin

text \<open>
  Conversions and formatting of bcmutils.c: transmit power in quarter dBm and milliwatts, bit counts,
  printed addresses, I/O variables and the bounded string buffer.
\<close>

section \<open>Power\<close>

definition QDBM_OFFSET :: int where "QDBM_OFFSET = 153"
definition QDBM_TABLE_LEN :: int where "QDBM_TABLE_LEN = 40"
definition QDBM_TABLE_LOW_BOUND :: u32 where "QDBM_TABLE_LOW_BOUND = 6493"

definition nqdBm_to_mW_map :: "u16 list" where
  "nqdBm_to_mW_map = [
     6683, 7079, 7499, 7943, 8414, 8913, 9441, 10000,
     10593, 11220, 11885, 12589, 13335, 14125, 14962, 15849,
     16788, 17783, 18836, 19953, 21135, 22387, 23714, 25119,
     26607, 28184, 29854, 31623, 33497, 35481, 37584, 39811,
     42170, 44668, 47315, 50119, 53088, 56234, 59566, 63096]"

function qdbm_scale :: "int \<Rightarrow> u32 \<Rightarrow> int \<times> u32" where
  "qdbm_scale idx factor = (if idx < 0 then qdbm_scale (idx + 40) (factor * 10) else (idx, factor))"
  by auto
termination
  by (relation "measure (\<lambda>(idx, _). nat (- idx))") auto

declare qdbm_scale.simps [simp del]

definition bcm_qdbm_to_mw :: "u8 \<Rightarrow> u16" where
  "bcm_qdbm_to_mw qdbm =
     (let idx = uint qdbm - QDBM_OFFSET in
      if idx \<ge> QDBM_TABLE_LEN then 0xffff
      else
        let (idx', factor) = qdbm_scale idx 1 in
        ucast ((ucast (nqdBm_to_mW_map ! nat idx') + factor div 2) div factor))"

text \<open>A power of 0 would never get into the range of the table; \<open>bcm_mw_to_qdbm\<close> handles it before.\<close>

partial_function (option) mw_scale :: "u32 \<Rightarrow> int \<Rightarrow> (u32 \<times> int) option" where
  "mw_scale mw offset = (if mw < QDBM_TABLE_LOW_BOUND then mw_scale (mw * 10) (offset - 40) else Some (mw, offset))"

fun mw_search :: "u32 \<Rightarrow> nat \<Rightarrow> nat \<Rightarrow> nat" where
  "mw_search mw 0 qdbm = qdbm"
| "mw_search mw (Suc n) qdbm =
     (let a = ucast (nqdBm_to_mW_map ! qdbm); b = ucast (nqdBm_to_mW_map ! (qdbm + 1)); boundary = a + (b - a) div 2 in
      if mw < boundary then qdbm else mw_search mw n (qdbm + 1))"

definition bcm_mw_to_qdbm :: "u16 \<Rightarrow> u8 option" where
  "bcm_mw_to_qdbm mw =
     (if (ucast mw :: u32) \<le> 1 then Some 0
      else
        map_option (\<lambda>(mw', offset). of_nat (mw_search mw' (nat (QDBM_TABLE_LEN - 1)) 0) + of_int offset)
          (mw_scale (ucast mw) QDBM_OFFSET))"

section \<open>Bits\<close>

function popcount_byte :: "u8 \<Rightarrow> u32 \<Rightarrow> u32" where
  "popcount_byte tmp bitcount = (if tmp \<noteq> 0 then popcount_byte (tmp AND (tmp - 1)) (bitcount + 1) else bitcount)"
  by auto
termination
proof (relation "measure (\<lambda>(tmp, _). unat tmp)")
  fix tmp :: u8 and bitcount :: u32
  assume "tmp \<noteq> 0"
  then have "tmp - 1 < tmp" by (simp add: word_less_nat_alt unat_minus_one word_gt_0 unat_gt_0)
  moreover have "tmp AND (tmp - 1) \<le> tmp - 1" by (rule word_and_le1)
  ultimately have "tmp AND (tmp - 1) < tmp" by simp
  then show "((tmp AND (tmp - 1), bitcount + 1), tmp, bitcount) \<in> measure (\<lambda>(tmp, _). unat tmp)"
    by (simp add: word_less_nat_alt)
qed simp

declare popcount_byte.simps [simp del]

definition bcm_bitcount :: "u8 list \<Rightarrow> u32" where
  "bcm_bitcount bitmap = foldl (\<lambda>n tmp. popcount_byte tmp n) 0 bitmap"

section \<open>Printed addresses\<close>

definition hex_char :: "nat \<Rightarrow> u8" where
  "hex_char v = (if v < 10 then of_nat (48 + v) else of_nat (87 + v))"

definition fmt_02x :: "u8 \<Rightarrow> cstr" where
  "fmt_02x b = [hex_char (unat b div 16), hex_char (unat b mod 16)]"

definition join :: "u8 \<Rightarrow> cstr list \<Rightarrow> cstr" where
  "join c ss = concat (map (\<lambda>s. s @ [c]) (butlast ss)) @ last ss"

definition bcm_ether_ntoa :: "u8 list \<Rightarrow> cstr" where
  "bcm_ether_ntoa ea = snprintf 18 (join 58 (map fmt_02x ea))"

definition bcm_ip_ntoa :: "u8 list \<Rightarrow> cstr" where
  "bcm_ip_ntoa ia = snprintf 16 (join 46 (map (\<lambda>b. fmt_d (uint b)) ia))"

text \<open>\<open>%x\<close> and \<open>%03x\<close>.\<close>

fun hex_digs :: "nat \<Rightarrow> nat list" where
  "hex_digs n = (if n < 16 then [n] else hex_digs (n div 16) @ [n mod 16])"

declare hex_digs.simps [simp del]

definition bcm_chipname :: "u32 \<Rightarrow> nat \<Rightarrow> cstr" where
  "bcm_chipname chipid len =
     snprintf len (if chipid > 0xa000 \<or> chipid < 0x4000 then fmt_d (sint chipid) else map hex_char (hex_digs (unat chipid)))"

definition bcm_brev_str :: "u32 \<Rightarrow> cstr" where
  "bcm_brev_str brev =
     snprintf 8
       (if brev < 0x100 then fmt_d (uint (drop_bit 4 (brev AND 0xf0))) @ [46] @ fmt_d (uint (brev AND 0xf))
        else
          let v = unat (brev AND 0xfff) in
          (if brev AND 0xf000 = 0x1000 then 80 else 65) # map hex_char [v div 256, v div 16 mod 16, v mod 16])"

section \<open>Strings\<close>

definition bcmstrstr :: "cstr \<Rightarrow> cstr \<Rightarrow> nat option" where
  "bcmstrstr haystack needle =
     find (\<lambda>i. take (length needle) (drop i haystack) = needle) [0..<nat (int (length haystack) - int (length needle) + 1)]"

section \<open>I/O variables\<close>

record bcm_iovar =
  iov_name :: cstr
  iov_varid :: u16
  iov_flags :: u16
  iov_type :: u16
  iov_minlen :: u16

definition IOVT_VOID :: u16 where "IOVT_VOID = 0"
definition IOVT_BOOL :: u16 where "IOVT_BOOL = 1"
definition IOVT_INT8 :: u16 where "IOVT_INT8 = 2"
definition IOVT_UINT8 :: u16 where "IOVT_UINT8 = 3"
definition IOVT_INT16 :: u16 where "IOVT_INT16 = 4"
definition IOVT_UINT16 :: u16 where "IOVT_UINT16 = 5"
definition IOVT_INT32 :: u16 where "IOVT_INT32 = 6"
definition IOVT_UINT32 :: u16 where "IOVT_UINT32 = 7"
definition IOVT_BUFFER :: u16 where "IOVT_BUFFER = 8"
definition BCME_UNSUPPORTED :: int where "BCME_UNSUPPORTED = - 23"
definition BCME_BUFTOOSHORT :: int where "BCME_BUFTOOSHORT = - 14"
definition BCME_BUFTOOLONG :: int where "BCME_BUFTOOLONG = - 15"

text \<open>The table ends in an entry without a name, which the list leaves out.\<close>

definition bcm_iovar_lookup :: "bcm_iovar list \<Rightarrow> cstr \<Rightarrow> bcm_iovar option" where
  "bcm_iovar_lookup table name =
     (let lookup_name = (if 58 \<in> set name then rev (takeWhile (\<lambda>c. c \<noteq> 58) (rev name)) else name) in
      find (\<lambda>vi. iov_name vi = lookup_name) table)"

definition bcm_iovar_lencheck :: "bcm_iovar \<Rightarrow> int \<Rightarrow> bool \<Rightarrow> int" where
  "bcm_iovar_lencheck vi len set' =
     (if iov_type vi \<in> {IOVT_BOOL, IOVT_INT8, IOVT_INT16, IOVT_INT32, IOVT_UINT8, IOVT_UINT16, IOVT_UINT32} then
        (if len < 4 then BCME_BUFTOOSHORT else 0)
      else if iov_type vi = IOVT_BUFFER then
        (if len < uint (iov_minlen vi) then BCME_BUFTOOSHORT else 0)
      else if iov_type vi = IOVT_VOID then
        (if \<not> set' then BCME_UNSUPPORTED else if len \<noteq> 0 then BCME_BUFTOOLONG else 0)
      else BCME_UNSUPPORTED)"

text \<open>
  The name and its data in one buffer; \<open>strncpy\<close> fills up with NULs. \<open>None\<close> is a write behind
  \<open>buf\<close> or a read behind \<open>data\<close>.
\<close>

definition bcm_mkiovar :: "cstr \<Rightarrow> u8 list \<Rightarrow> u32 \<Rightarrow> u8 list \<Rightarrow> u32 \<Rightarrow> (u8 list \<times> u32) option" where
  "bcm_mkiovar name data datalen buf buflen =
     (let len = of_nat (length name) + 1 in
      if len + datalen > buflen then Some (buf, 0)
      else
        let n = unat buflen; p = unat len; k = unat datalen;
            buf1 = take n (name @ replicate n 0) @ drop n buf
        in if length buf < n \<or> length buf < p + k \<or> length data < k then None
           else Some (take p buf1 @ take k data @ drop (p + k) buf1, len + datalen))"

section \<open>The bounded string buffer\<close>

record bcmstrbuf =
  sb_buf :: nat
  sb_size :: u32
  sb_origbuf :: nat
  sb_origsize :: u32

definition bcm_binit :: "nat \<Rightarrow> u32 \<Rightarrow> bcmstrbuf" where
  "bcm_binit buf n = \<lparr>sb_buf = buf, sb_size = n, sb_origbuf = buf, sb_origsize = n\<rparr>"

text \<open>
  One formatted print of the string \<open>s\<close>: what \<open>vsnprintf\<close> writes at \<open>sb_buf\<close>, closed by a NUL
  when there is room for one, and the buffer after it. Its result is the length of \<open>s\<close>.
\<close>

definition vsnprintf :: "nat \<Rightarrow> nat \<Rightarrow> cstr \<Rightarrow> u8 list \<Rightarrow> u8 list option" where
  "vsnprintf p n s m =
     (if n = 0 then Some m
      else
        let out = take (n - 1) s @ [0] in
        if length m < p + length out then None else Some (take p m @ out @ drop (p + length out) m))"

definition bcm_bprintf :: "bcmstrbuf \<Rightarrow> u8 list \<Rightarrow> cstr \<Rightarrow> (bcmstrbuf \<times> u8 list \<times> int) option" where
  "bcm_bprintf b m s =
     map_option (\<lambda>m'. let r = int (length s) in
         (if r = -1 \<or> r \<ge> sint (sb_size b) \<or> r = 0 then b\<lparr>sb_size := 0\<rparr>
          else b\<lparr>sb_size := sb_size b - of_int r, sb_buf := sb_buf b + nat r\<rparr>, m', r))
       (vsnprintf (sb_buf b) (unat (sb_size b)) s m)"

end
