(* ===== verification/Bcm_Conv_Laws.thy ===== *)
theory Bcm_Conv_Laws
  imports Bcm_Conv
begin

text \<open>
  Round trips of the power table and the printed addresses, the bit count, and what a sequence of
  bounded prints leaves in its buffer.
\<close>

section \<open>Power\<close>

text \<open>Four multiplications by 10 bring every power from 2 on into the range of the table.\<close>

fun mw_scale_n :: "nat \<Rightarrow> u32 \<Rightarrow> int \<Rightarrow> u32 \<times> int" where
  "mw_scale_n 0 mw offset = (mw, offset)"
| "mw_scale_n (Suc n) mw offset =
     (if mw < QDBM_TABLE_LOW_BOUND then mw_scale_n n (mw * 10) (offset - 40) else (mw, offset))"

lemma low_bound: "mw < QDBM_TABLE_LOW_BOUND \<longleftrightarrow> unat mw < 6493"
  by (simp add: QDBM_TABLE_LOW_BOUND_def word_less_nat_alt)

lemma mw_scale_up:
  assumes "\<And>v off. k * 10 \<le> unat v \<Longrightarrow> mw_scale v off = Some (mw_scale_n n v off)" "k \<le> unat w"
  shows "mw_scale w off = Some (mw_scale_n (Suc n) w off)"
proof (cases "unat w < 6493")
  case True
  then have "unat (w * 10) = unat w * 10" by (simp add: unat_word_ariths)
  then have "k * 10 \<le> unat (w * 10)" using assms(2) by linarith
  from assms(1) [OF this] show ?thesis using True by (subst mw_scale.simps) (simp add: low_bound)
qed (subst mw_scale.simps, simp add: low_bound)

lemma mw_scale_ends: "2 \<le> unat w \<Longrightarrow> mw_scale w off = Some (mw_scale_n 4 w off)"
proof -
  have 0: "mw_scale v off = Some (mw_scale_n 0 v off)" if "6500 \<le> unat v" for v off
    using that by (subst mw_scale.simps) (simp add: low_bound)
  have 1: "mw_scale v off = Some (mw_scale_n 1 v off)" if "650 \<le> unat v" for v off
    using mw_scale_up [of 650 0 v] 0 that by simp
  have 2: "mw_scale v off = Some (mw_scale_n 2 v off)" if "65 \<le> unat v" for v off
    using mw_scale_up [of 65 1 v] 1 that by (simp add: numeral_2_eq_2)
  have 3: "mw_scale v off = Some (mw_scale_n 3 v off)" if "7 \<le> unat v" for v off
    using mw_scale_up [of 7 2 v] 2 that by (simp add: numeral_3_eq_3 numeral_2_eq_2)
  assume "2 \<le> unat w"
  then show ?thesis using mw_scale_up [of 2 3 w] 3 by (simp add: eval_nat_numeral)
qed

lemma mw_to_qdbm_eq [code]:
  "bcm_mw_to_qdbm mw =
     (if (ucast mw :: u32) \<le> 1 then Some 0
      else let (mw', offset) = mw_scale_n 4 (ucast mw) QDBM_OFFSET in
        Some (of_nat (mw_search mw' (nat (QDBM_TABLE_LEN - 1)) 0) + of_int offset))"
  by (auto simp: bcm_mw_to_qdbm_def mw_scale_ends word_le_nat_alt split: prod.split)

lemma mw_to_qdbm_total: "bcm_mw_to_qdbm mw \<noteq> None"
  by (simp add: mw_to_qdbm_eq Let_def split: prod.split)

section \<open>Printed addresses\<close>

lemma hex_char_class:
  assumes "v < 16"
  shows "bcm_isxdigit (hex_char v) \<and> digit_value (hex_char v) = of_nat v \<and> \<not> bcm_isspace (hex_char v) \<and>
    hex_char v \<noteq> 43 \<and> hex_char v \<noteq> 45 \<and> hex_char v \<noteq> 120 \<and> hex_char v \<noteq> 88 \<and> hex_char v \<noteq> 0"
proof -
  have "v \<in> {0, 1, 2, 3, 4, 5, 6, 7, 8, 9, 10, 11, 12, 13, 14, 15}" unfolding insert_iff empty_iff using assms by presburger
  then show ?thesis
    by (elim insertE emptyE; simp add: hex_char_def bcm_isxdigit_def bcm_isspace_def bcm_ismask_def
        bcm_ctype_def digit_value_def bcm_isdigit_def bcm_toupper_def bcm_islower_def)
qed

lemma not_xdigit: "\<not> bcm_isxdigit 58" "\<not> bcm_isxdigit 0"
  by (simp_all add: bcm_isxdigit_def bcm_ismask_def bcm_ctype_def)

lemma strtoul_02x:
  assumes "cp = [] \<or> hd cp = 58"
  shows "bcm_strtoul (fmt_02x b @ cp) 16 = (ucast b, Some cp)"
proof -
  have b8: "unat b < 2 ^ 8" by (rule order_less_le_trans [OF unsigned_less]) simp
  then have n: "unat b div 16 < 16" "unat b mod 16 < 16" by (simp_all add: less_mult_imp_div_less)
  note d = hex_char_class [OF n(1)] hex_char_class [OF n(2)]
  let ?s = "fmt_02x b @ cp"
  have "dropWhile bcm_isspace ?s = ?s" using d by (simp add: fmt_02x_def)
  moreover have "strtoul_sign ?s = (False, ?s)" using d by (simp add: strtoul_sign_def at0_def fmt_02x_def)
  moreover have "strtoul_base 16 ?s = (16, ?s)" using d by (simp add: strtoul_base_def at0_def fmt_02x_def)
  moreover have "strtoul_loop 16 False 0 ?s = (ucast b, Some cp)"
  proof -
    have lt: "(of_nat (unat b div 16) :: u32) < 16" "(of_nat (unat b mod 16) :: u32) < 16"
      using n by (simp_all add: word_less_nat_alt unsigned_of_nat take_bit_nat_eq_self)
    have v: "(of_nat (unat b div 16) :: u32) * 16 + of_nat (unat b mod 16) = ucast b"
    proof -
      have "(of_nat (unat b div 16) :: u32) * 16 + of_nat (unat b mod 16) = of_nat (unat b div 16 * 16 + unat b mod 16)"
        by (simp only: of_nat_add of_nat_mult of_nat_numeral)
      also have "\<dots> = ucast b" by (simp only: div_mult_mod_eq of_nat_unat)
      finally show ?thesis .
    qed
    have mono: "\<not> (ucast b :: u32) < of_nat (unat b div 16)"
    proof -
      have "unat (of_nat (unat b div 16) :: u32) \<le> unat (ucast b :: u32)"
        using n(1) b8 by (simp add: unsigned_of_nat unsigned_ucast_eq take_bit_nat_eq_self)
      then show ?thesis by (simp add: word_less_nat_alt)
    qed
    have "strtoul_loop 16 False (ucast b) cp = (ucast b, Some cp)"
      using assms not_xdigit by (cases cp) auto
    then show ?thesis using d lt v mono by (simp add: fmt_02x_def Let_def)
  qed
  ultimately show ?thesis by (simp add: bcm_strtoul_def)
qed

lemma ucast_back: "ucast (ucast (b :: u8) :: u32) = b"
  by (rule bit_word_eqI) (auto simp: bit_simps)

lemma atoe_loop_join:
  "ea \<noteq> [] \<Longrightarrow> length ea = n \<Longrightarrow> atoe_loop n (join 58 (map fmt_02x ea)) = ea"
proof (induction ea arbitrary: n)
  case (Cons b ea)
  show ?case
  proof (cases "ea = []")
    case True
    have "bcm_strtoul (fmt_02x b) 16 = (ucast b, Some [])" using strtoul_02x [of "[]" b] by simp
    then show ?thesis using True Cons.prems(2) by (auto simp: join_def at0_def ucast_back)
  next
    case False
    then have "join 58 (map fmt_02x (b # ea)) = fmt_02x b @ 58 # join 58 (map fmt_02x ea)" by (simp add: join_def)
    moreover have "bcm_strtoul (fmt_02x b @ 58 # join 58 (map fmt_02x ea)) 16 = (ucast b, Some (58 # join 58 (map fmt_02x ea)))"
      by (rule strtoul_02x) simp
    ultimately show ?thesis using Cons False by (cases n) (simp_all add: at0_def ucast_back)
  qed
qed simp

lemma length_join: "ss \<noteq> [] \<Longrightarrow> (\<And>s. s \<in> set ss \<Longrightarrow> length s = k) \<Longrightarrow> length (join c ss) = length ss * k + (length ss - 1)"
proof -
  assume a: "ss \<noteq> []" "\<And>s. s \<in> set ss \<Longrightarrow> length s = k"
  have "length (concat (map (\<lambda>s. s @ [c]) xs)) = length xs * (k + 1)" if "set xs \<subseteq> set ss" for xs
    using that a(2) by (induction xs) auto
  from this [of "butlast ss"] have "length (concat (map (\<lambda>s. s @ [c]) (butlast ss))) = (length ss - 1) * (k + 1)"
    by (auto dest: in_set_butlastD)
  then show ?thesis using a by (cases "length ss") (simp_all add: join_def)
qed

section \<open>The bounded string buffer\<close>

text \<open>A sequence of prints.\<close>

fun bprints :: "bcmstrbuf \<Rightarrow> u8 list \<Rightarrow> cstr list \<Rightarrow> (bcmstrbuf \<times> u8 list) option" where
  "bprints b m [] = Some (b, m)"
| "bprints b m (s # ss) = (case bcm_bprintf b m s of None \<Rightarrow> None | Some (b', m', _) \<Rightarrow> bprints b' m' ss)"

lemma bprints_full: "sb_size b = 0 \<Longrightarrow> \<exists>b'. bprints b m ss = Some (b', m)"
  by (induction ss arbitrary: b) (auto simp: bcm_bprintf_def vsnprintf_def)

text \<open>What a sequence leaves: the strings as far as they fit, closed by a NUL, and nothing else changed.\<close>

lemma bprints_law:
  "\<lbrakk>[] \<notin> set ss; ss \<noteq> []; unat (sb_size b) < 2 ^ 31; 0 < unat (sb_size b); sb_buf b + unat (sb_size b) \<le> length m\<rbrakk> \<Longrightarrow>
    \<exists>b'. bprints b m ss = Some (b', take (sb_buf b) m @ take (unat (sb_size b) - 1) (concat ss) @ [0] @
      drop (sb_buf b + length (take (unat (sb_size b) - 1) (concat ss)) + 1) m)"
proof (induction ss arbitrary: b m)
  case (Cons s ss)
  let ?n = "unat (sb_size b)" and ?p = "sb_buf b"
  let ?out = "take (?n - 1) s @ [0]"
  let ?m1 = "take ?p m @ ?out @ drop (?p + length ?out) m"
  have s: "s \<noteq> []" using Cons.prems(1) by auto
  have "sint (sb_size b) = uint (sb_size b)"
  proof -
    have "int (unat (sb_size b)) < int (2 ^ 31)" using Cons.prems(3) by (simp only: of_nat_less_iff)
    then have "uint (sb_size b) < 2 ^ 31" by simp
    moreover have "- (2 ^ 31) \<le> uint (sb_size b)" by (rule order_trans [OF _ uint_ge_0]) simp
    ultimately show ?thesis unfolding sint_uint by (intro signed_take_bit_int_eq_self) simp_all
  qed
  then have sz: "sint (sb_size b) = int ?n" unfolding uint_nat .
  have ge: "sint (sb_size b) \<le> int (length s) \<longleftrightarrow> \<not> length s < ?n" unfolding sz by linarith
  have v: "vsnprintf ?p ?n s m = Some ?m1" using Cons.prems(4,5) by (auto simp: vsnprintf_def Let_def)
  show ?case
  proof (cases "length s < ?n")
    case False
    then have "bcm_bprintf b m s = Some (b\<lparr>sb_size := 0\<rparr>, ?m1, int (length s))" using v ge by (simp add: bcm_bprintf_def Let_def)
    moreover obtain b' where "bprints (b\<lparr>sb_size := 0\<rparr>) ?m1 ss = Some (b', ?m1)" using bprints_full [of "b\<lparr>sb_size := 0\<rparr>"] by auto
    moreover have "take (?n - 1) (concat (s # ss)) = take (?n - 1) s" using False by simp
    ultimately show ?thesis using False by (auto simp: min_def)
  next
    case True
    let ?b = "b\<lparr>sb_size := sb_size b - of_int (int (length s)), sb_buf := ?p + length s\<rparr>"
    have b: "bcm_bprintf b m s = Some (?b, ?m1, int (length s))"
      using True v ge s by (simp add: bcm_bprintf_def Let_def)
    have n': "unat (sb_size ?b) = ?n - length s"
      using True Cons.prems(3) by (simp add: unat_sub word_le_nat_alt unat_of_nat32)
    have m1: "?m1 = take ?p m @ s @ [0] @ drop (?p + length s + 1) m" "length ?m1 = length m"
      using True Cons.prems(4,5) by auto
    show ?thesis
    proof (cases "ss = []")
      case True
      then show ?thesis using b m1(1) \<open>length s < ?n\<close> by auto
    next
      case ss: False
      let ?out' = "take (?n - length s - 1) (concat ss)"
      have buf: "sb_buf ?b = ?p + length s" by simp
      have "\<exists>b'. bprints ?b ?m1 ss = Some (b', take (sb_buf ?b) ?m1 @ take (unat (sb_size ?b) - 1) (concat ss) @ [0] @
          drop (sb_buf ?b + length (take (unat (sb_size ?b) - 1) (concat ss)) + 1) ?m1)"
      proof (rule Cons.IH [OF _ ss])
        show "[] \<notin> set ss" using Cons.prems(1) by simp
        show "unat (sb_size ?b) < 2 ^ 31" "0 < unat (sb_size ?b)" unfolding n' using Cons.prems(3) True by simp_all
        show "sb_buf ?b + unat (sb_size ?b) \<le> length ?m1" unfolding n' buf m1(2) using Cons.prems(5) True by simp
      qed
      then obtain b' where "bprints ?b ?m1 ss = Some (b', take (?p + length s) ?m1 @ ?out' @ [0] @ drop (?p + length s + length ?out' + 1) ?m1)"
        unfolding n' buf by blast
      moreover have "take (?p + length s) ?m1 = take ?p m @ s" unfolding m1(1) using Cons.prems(5) True by simp
      moreover have "take (?n - 1) (concat (s # ss)) = s @ ?out'" using True by simp
      moreover have "drop (?p + length s + length ?out' + 1) ?m1 = drop (?p + length (s @ ?out') + 1) m"
        unfolding m1(1) using Cons.prems(5) True by (simp add: ac_simps)
      ultimately show ?thesis using b by (simp only: bprints.simps option.case prod.case append.assoc) blast
    qed
  qed
qed simp

end
