(* ===== verification/Utility_Properties.thy ===== *)
theory Utility_Properties
  imports Pktq_Queue Bcm_Tlv Bcm_Pkt Bcm_Conv_Laws Nvram_Early
begin

text \<open>
  Properties of the Broadcom utilities that the drivers share.
\<close>

section \<open>Packet queues\<close>

text \<open>C4: A packet queue that \<open>pktq_init\<close> has set up implements a list of packet lists, one per
  precedence: any sequence of the operations of \<open>bcmutils.c\<close> (at both ends of a precedence, deleting,
  flushing, taking and peeking at the highest or lowest precedence, or at the highest of a set) gives the results
  of the lists, follows no null or dangling pointer, and leaves every packet that is not queued with a null link, as
  long as no packet is queued twice, the precedences exist, the lengths fit into 16 bits and no flush frees
  the last packet of a precedence and keeps another.\<close>

theorem packet_queue_refines:
  assumes "0 < n" "n \<le> PKTQ_MAX_PREC" "n \<le> length (pq_q pq)" "pktq_init pq n m = Some pq0"
    and "all_ok pktq_spec op_good ops (replicate n [])"
  shows "\<exists>L' pq'. run_steps pktq_step ops (\<lambda>_. 0, pq0) = Some ((L', pq'), snd (run_spec pktq_spec ops (replicate n []))) \<and>
    queue_rel (L', pq') (fst (run_spec pktq_spec ops (replicate n [])))"
proof -
  have "queue_rel (\<lambda>_. 0, pq0) (replicate n [])" using init_rel [OF assms(1-3), of m] assms(4) by simp
  then show ?thesis using pktq.run_sim [OF _ assms(5)] by (metis surj_pair)
qed

lemma packet_queue_refines_witness:
  "\<exists>s. run_steps pktq_step [Penq 1 8, Penq 3 16, Penq 1 24, Penq_head 3 32, Deq, Pdel 8 1, Mlen 2, Mdeq 2, Deq_tail]
      (\<lambda>_. 0, \<lparr>pq_num_prec = 4, pq_hi_prec = 0, pq_max = 128, pq_len = 0,
        pq_q = replicate 4 \<lparr>q_head = 0, q_tail = 0, q_len = 0, q_max = 128\<rparr>\<rparr>) =
    Some (s, [Packet 8 None, Packet 16 None, Packet 24 None, Packet 32 None, Packet 32 (Some 3), Found True, Number 1,
      Packet 24 (Some 1), Packet 16 (Some 3)])"
proof -
  let ?e = "\<lparr>q_head = 0, q_tail = 0, q_len = 0, q_max = 0\<rparr> :: pktq_prec"
  let ?pq = "\<lparr>pq_num_prec = 0, pq_hi_prec = 0, pq_max = 0, pq_len = 0, pq_q = replicate 4 ?e\<rparr> :: pktq"
  let ?ops = "[Penq 1 8, Penq 3 16, Penq 1 24, Penq_head 3 32, Deq, Pdel 8 1, Mlen 2, Mdeq 2, Deq_tail]"
  have ok: "all_ok pktq_spec op_good ?ops (replicate 4 []) \<and>
    snd (run_spec pktq_spec ?ops (replicate 4 [])) = [Packet 8 None, Packet 16 None, Packet 24 None, Packet 32 None,
      Packet 32 (Some 3), Found True, Number 1, Packet 24 (Some 1), Packet 16 (Some 3)]"
    by code_simp
  then show ?thesis
    using packet_queue_refines [of 4 ?pq 128 "\<lparr>pq_num_prec = 4, pq_hi_prec = 0, pq_max = 128, pq_len = 0,
        pq_q = replicate 4 \<lparr>q_head = 0, q_tail = 0, q_len = 0, q_max = 128\<rparr>\<rparr>" ?ops]
    by (auto simp: pktq_init_def PKTQ_MAX_PREC_def)
qed

text \<open>C39: A flush that frees the last packet of a precedence and keeps another leaves the tail pointer on the
  freed packet, and the next packet queued there is linked from the freed one and not in the list.\<close>

theorem flush_leaves_freed_tail:
  assumes "pq_rel L pq Q" "prec < length Q" "fn (last (Q ! prec))" "filter (\<lambda>x. \<not> fn x) (Q ! prec) \<noteq> []"
    and "p \<noteq> 0" "p \<notin> packets Q"
  shows "\<exists>L1 pq1 fr L2 pq2. pktq_pflush fn L pq prec = Some (L1, pq1, fr) \<and> last (Q ! prec) \<in> set fr \<and>
    q_tail (pq_q pq1 ! prec) = last (Q ! prec) \<and> pktq_penq L1 pq1 prec p = Some (L2, pq2, p) \<and>
    L2 = L1(last (Q ! prec) := p) \<and> chain L2 (q_head (pq_q pq2 ! prec)) (filter (\<lambda>x. \<not> fn x) (Q ! prec))"
proof -
  note d = pq_relD [OF assms(1)]
  let ?q = "pq_q pq ! prec" and ?xs = "Q ! prec" and ?ys = "filter (\<lambda>x. \<not> fn x) (Q ! prec)"
  have ne: "?xs \<noteq> []" using assms(4) by auto
  have q: "chain L (q_head ?q) ?xs" "q_tail ?q = last ?xs" "unat (q_len ?q) = length ?xs"
    using d(7) [OF assms(2)] ne by (simp_all add: prec_rel_def)
  have "length ?xs \<le> unat (pq_len pq)" using length_le_sum [OF assms(2)] d(6) by simp
  then obtain L' q' len' where f: "pflush_loop fn L ?q (pq_len pq) [] 0 (q_head ?q) = Some (L', q', len', filter fn ?xs)"
    "chain L' (q_head q') ?ys" "q_tail q' = q_tail ?q"
    using pflush_loop_law [of L ?q "[]" ?xs "q_head ?q" 0 "pq_len pq" fn "[]"] q d(8) [OF assms(2)] chain_head [OF q(1)] by auto
  have tl: "last ?xs \<in> set ?xs" "q_head q' \<noteq> 0" using ne chain_nil [OF f(2)] assms(4) by auto
  then have "last ?xs \<noteq> 0" using chain_nonzero [OF q(1)] by metis
  note tl = tl this
  have "chain (L'(last ?xs := p)) (q_head q') ?ys" by (rule chain_cong [OF f(2)]) (use assms(3) in auto)
  then show ?thesis
    using f tl q(2) assms(2,3) d(2) by (auto simp: pktq_pflush_def pktq_penq_def Let_def)
qed

lemma flush_leaves_freed_tail_witness:
  "\<exists>L pq L1 pq1 fr L2 pq2. pktq_pflush (\<lambda>x. x = 16) L pq 0 = Some (L1, pq1, fr) \<and> 16 \<in> set fr \<and>
    q_tail (pq_q pq1 ! 0) = 16 \<and> pktq_penq L1 pq1 0 24 = Some (L2, pq2, 24) \<and> L2 = L1(16 := 24) \<and>
    chain L2 (q_head (pq_q pq2 ! 0)) [8]"
proof -
  let ?pq = "\<lparr>pq_num_prec = 1, pq_hi_prec = 0, pq_max = 128, pq_len = 2,
    pq_q = [\<lparr>q_head = 8, q_tail = 16, q_len = 2, q_max = 128\<rparr>]\<rparr> :: pktq"
  have "pq_rel ((\<lambda>_. 0)(8 := 16)) ?pq [[8, 16]]"
    by (simp add: pq_rel_def prec_rel_def PKTQ_MAX_PREC_def)
  from flush_leaves_freed_tail [OF this, of 0 "\<lambda>x. x = 16" 24] show ?thesis
    by (simp del: fun_upd_apply chain.simps) blast
qed

section \<open>Information elements\<close>

text \<open>C15: The search for an information element in any bytes, well-formed or not, reads nothing behind the length it is
  given and finds the first element with the tag among those that fit, or reports that there is none; the
  element it finds lies within the buffer with all its data. Stepping with \<open>bcm_next_tlv\<close> from an element
  goes to the next of these elements.\<close>

theorem tlv_search_exact:
  assumes "buflen \<le> int (length buf)"
  shows "bcm_parse_tlvs buf buflen key =
      Some (map_option fst (find (\<lambda>(k, tg, d). ucast tg = key) (tlvs 0 (take (nat buflen) buf)))) \<and>
    (\<forall>(k, tg, d)\<in>set (tlvs 0 (take (nat buflen) buf)).
      int (k + 2 + length d) \<le> buflen \<and> buf ! k = tg \<and> unat (buf ! (k + 1)) = length d \<and> take (length d) (drop (k + 2) buf) = d \<and>
      bcm_next_tlv buf k (buflen - int k) =
        Some (map_option fst (case tlvs (k + 2 + length d) (drop (k + 2 + length d) (take (nat buflen) buf)) of
            [] \<Rightarrow> None | t # _ \<Rightarrow> Some t), buflen - int (k + 2 + length d)))"
proof (intro conjI ballI, goal_cases)
  case 1
  show ?case unfolding bcm_parse_tlvs_def using parse_tlvs_find [of 0 buflen buf key] assms by simp
next
  case (2 x)
  obtain k tg d where x: "x = (k, tg, d)" by (cases x)
  note r = tlvs_range [OF 2 [unfolded x]]
  have le: "k + 2 + length d \<le> nat buflen" "int k \<le> buflen" using r assms by auto
  have w: "window buf k (buflen - int k) = drop k (take (nat buflen) buf)"
    using le by (simp add: drop_take nat_diff_distrib)
  have "tlvs k (drop k (take (nat buflen) buf)) =
      (k, tg, d) # tlvs (k + 2 + length d) (drop (k + 2 + length d) (take (nat buflen) buf))"
    using tlvs_at [OF 2 [unfolded x]] by simp
  then have "bcm_next_tlv buf k (buflen - int k) =
      Some (map_option fst (case tlvs (k + 2 + length d) (drop (k + 2 + length d) (take (nat buflen) buf)) of
          [] \<Rightarrow> None | t # _ \<Rightarrow> Some t), buflen - int (k + 2 + length d))"
    using next_tlv_window [of k "buflen - int k" buf] assms unfolding w by simp
  moreover have "buf ! k = tg" "unat (buf ! (k + 1)) = length d" "take (length d) (drop (k + 2) buf) = d"
  proof -
    have "k + 1 < nat buflen" using le by simp
    then show "buf ! k = tg" "unat (buf ! (k + 1)) = length d" using r by simp_all
    have "take (length d) (drop (k + 2) (take (nat buflen) buf)) = take (length d) (drop (k + 2) buf)"
      using le(1) by (simp add: drop_take min_def)
    then show "take (length d) (drop (k + 2) buf) = d" using r by simp
  qed
  ultimately show ?case using le unfolding x by simp
qed

lemma tlv_search_exact_witness:
  "bcm_parse_tlvs [1, 1, 0xaa, 0xdd, 2, 0xbb, 0xcc, 0xdd, 9] 9 0xdd = Some (Some 3) \<and>
    bcm_parse_tlvs [1, 1, 0xaa, 0xdd, 2, 0xbb, 0xcc, 0xdd, 9] 9 3 = Some None"
  using tlv_search_exact [of 9 "[1, 1, 0xaa, 0xdd, 2, 0xbb, 0xcc, 0xdd, 9]" "0xdd"]
    tlv_search_exact [of 9 "[1, 1, 0xaa, 0xdd, 2, 0xbb, 0xcc, 0xdd, 9]" 3] by simp

text \<open>On elements in the order of their tags the search that stops early finds the same element as the
  one that does not, for every tag.\<close>

theorem tlv_ordered_agrees:
  assumes "buflen \<le> int (length buf)" "sorted (map (fst \<circ> snd) (tlvs 0 (take (nat buflen) buf)))"
  shows "bcm_parse_ordered_tlvs buf buflen key = bcm_parse_tlvs buf buflen key"
proof -
  let ?ts = "tlvs 0 (take (nat buflen) buf)"
  have mono: "sorted (map (\<lambda>t. ucast (fst (snd t)) :: u32) ?ts)"
    using assms(2) by (simp add: sorted_iff_nth_mono word_le_nat_alt ucast_tag)
  have "bcm_parse_ordered_tlvs buf buflen key =
      Some (map_option fst (find (\<lambda>t. ucast (fst (snd t)) = key) (takeWhile (\<lambda>t. ucast (fst (snd t)) \<le> key) ?ts)))"
    unfolding bcm_parse_ordered_tlvs_def using parse_ordered_find [of 0 buflen buf key] assms(1)
    by (simp add: case_prod_unfold)
  also have "\<dots> = Some (map_option fst (find (\<lambda>t. ucast (fst (snd t)) = key) ?ts))"
    by (subst find_ordered [OF mono]) simp
  also have "\<dots> = bcm_parse_tlvs buf buflen key"
    unfolding bcm_parse_tlvs_def using parse_tlvs_find [of 0 buflen buf key] assms(1) by (simp add: case_prod_unfold)
  finally show ?thesis .
qed

lemma tlv_ordered_agrees_witness:
  "bcm_parse_ordered_tlvs [1, 1, 0xaa, 0x30, 2, 0xbb, 0xcc] 7 0x30 = bcm_parse_tlvs [1, 1, 0xaa, 0x30, 2, 0xbb, 0xcc] 7 0x30"
  by (rule tlv_ordered_agrees) simp_all

section \<open>Packet chains\<close>

text \<open>C26: What is copied into a chain of packet buffers at an offset can be copied out there again, as far as the
  chain reaches, with no access outside its buffers; their sizes and all other bytes of the chain stay.\<close>

theorem chain_copy_round_trip:
  assumes "pkt_ok p" "0 \<le> len" "nat len \<le> length buf" "len < 2 ^ 31"
  shows "\<exists>p'. pktfrombuf p offset len buf = Some (p', of_nat (min (nat len) (length (concat p) - unat offset))) \<and>
    map length p' = map length p \<and>
    pktcopy p' offset len = Some (take (length (concat p) - unat offset) (take (nat len) buf),
      of_nat (min (nat len) (length (concat p) - unat offset))) \<and>
    (\<forall>k<length (concat p). k < unat offset \<or> unat offset + nat len \<le> k \<longrightarrow> concat p' ! k = concat p ! k)"
proof -
  let ?n = "min (nat len) (length (concat p) - unat offset)"
  obtain p' where p': "pktfrombuf p offset len buf = Some (p', of_nat ?n)" "map length p' = map length p"
    "concat p' = put_at (unat offset) (take ?n buf) (concat p)"
    using pktfrombuf_law [OF assms(1-3), of offset] assms(4) by auto
  have len: "length (concat p') = length (concat p)"
    using p'(2) by (metis length_concat)
  have "pkt_ok q = (\<forall>n\<in>set (map length q). n < 2 ^ 31)" for q by (simp add: pkt_ok_def)
  then have "pkt_ok p'" using assms(1) by (simp only: p'(2))
  then have out: "pktcopy p' offset len = Some (take (nat len) (drop (unat offset) (concat p')),
      of_nat (length (take (nat len) (drop (unat offset) (concat p')))))"
    using pktcopy_law [of p' len offset] assms(2,4) by (simp add: nat_less_iff)
  have "take (nat len) (drop (unat offset) (concat p')) = take ?n buf"
  proof (cases "unat offset \<le> length (concat p)")
    case True
    have "take (nat len) (drop (unat offset) (concat p')) = take ?n (drop (unat offset) (concat p'))"
      using len by (simp add: min_def)
    also have "\<dots> = take ?n buf"
      using take_put_at [OF True, of "take ?n buf"] assms(3) unfolding p'(3) by (simp add: min_def split: if_splits)
    finally show ?thesis .
  qed (use len in simp)
  moreover have "take (length (concat p) - unat offset) (take (nat len) buf) = take ?n buf" by (simp add: min.commute)
  moreover have "concat p' ! k = concat p ! k"
    if "k < length (concat p)" "k < unat offset \<or> unat offset + nat len \<le> k" for k
    unfolding p'(3) using that by (intro nth_put_at) auto
  ultimately show ?thesis using p' out assms(3) by (auto simp: min_def)
qed

lemma chain_copy_round_trip_witness:
  "\<exists>p'. pktfrombuf [[1, 2, 3], [4, 5]] 1 3 [7, 8, 9] = Some (p', 3) \<and> pktcopy p' 1 3 = Some ([7, 8, 9], 3)"
  using chain_copy_round_trip [of "[[1, 2, 3], [4, 5]]" 3 "[7, 8, 9]" 1] by (auto simp: pkt_ok_def)

section \<open>Board variables\<close>

text \<open>What the table of NVRAM variables gives for a name, as the fallback of \<open>getvar\<close>.\<close>

abbreviation table_get :: "linux_heap nvram \<Rightarrow> cstr \<Rightarrow> cstr option" where
  "table_get st \<equiv> (\<lambda>n. real_nvram_get st (Some n))"

lemma getvar_block:
  assumes "vars_ok kvs" "name \<noteq> []" "61 \<notin> set name" "0 \<notin> set name" "length name \<le> length pad"
  shows "getvar (table_get st) (Some (var_block kvs @ pad)) (Some name) = Some ((nv_vals linux_port st ++ map_of kvs) name)"
  using assms getvar_walk_block [OF assms(1,3-5)]
  by (simp add: getvar_def real_nvram_get_def nv_vals_def map_add_def split: option.split)

text \<open>C34: A board variable has the value its block of variables gives it, and otherwise the one the NVRAM variable
  table holds; the lookup stays within the block when as many bytes as the name has follow it.\<close>

theorem board_vars_layered:
  assumes "vars_ok kvs" "name \<noteq> []" "61 \<notin> set name" "0 \<notin> set name" "length name \<le> length pad"
  shows "getvar (table_get st) (Some (var_block kvs @ pad)) (Some name) = Some ((nv_vals linux_port st ++ map_of kvs) name) \<and>
    getintvar (table_get st) (Some (var_block kvs @ pad)) name =
      Some (case (nv_vals linux_port st ++ map_of kvs) name of None \<Rightarrow> 0 | Some v \<Rightarrow> sint (fst (bcm_strtoul v 0)))"
  using getvar_block [OF assms] by (simp add: getintvar_def)

definition blank_nv :: "linux_heap nvram" where
  "blank_nv = \<lparr>nvram_hash = (\<lambda>_. []), nvram_dead = [],
     nv_heap = \<lparr>lx_os = \<lparr>mem_seq = 0, mem_ok = (\<lambda>_. True)\<rparr>, nvram_buf = replicate NVRAM_SPACE 0, nvram_offset = 0\<rparr>\<rparr>"

lemma blank_nv_vals [simp]: "nv_vals linux_port blank_nv = Map.empty"
  by (simp add: fun_eq_iff nv_vals_def nv_get_def nv_find_def blank_nv_def)

lemma board_vars_layered_witness:
  "getintvar (table_get blank_nv) (Some (cstr ''boardrev=0x1101'' @ [0] @ cstr ''il=-1'' @ [0, 0] @ replicate 8 0)) (cstr ''boardrev'') = Some 0x1101"
proof -
  have b: "cstr ''boardrev=0x1101'' @ [0] @ cstr ''il=-1'' @ [0, 0] @ replicate 8 0 =
      var_block [(cstr ''boardrev'', cstr ''0x1101''), (cstr ''il'', cstr ''-1'')] @ replicate 8 0"
    by (simp add: var_block_def cstr_def)
  have ok: "vars_ok [(cstr ''boardrev'', cstr ''0x1101''), (cstr ''il'', cstr ''-1'')]"
    by (simp add: vars_ok_def cstr_def)
  have val: "fst (bcm_strtoul (cstr ''0x1101'') 0) = 0x1101"
    by code_simp
  show ?thesis
    unfolding b using board_vars_layered [OF ok, of "cstr ''boardrev''" "replicate 8 0" blank_nv] val by (simp add: cstr_def)
qed

text \<open>The pin of a feature is the lowest of the 32 whose variable names the feature in its comma-separated list;
  when none does it is the default pin, unless that pin's variable exists because something else uses
  it.\<close>

theorem gpio_pin_assigned:
  fixes st :: "linux_heap nvram"
  assumes "vars_ok kvs" "8 \<le> length pad"
  defines "V \<equiv> \<lambda>pin. (nv_vals linux_port st ++ map_of kvs) (gpio_name pin)"
  shows "getgpiopin (table_get st) (Some (var_block kvs @ pad)) feature def_pin =
    Some (case find (\<lambda>pin. case V (of_nat pin) of None \<Rightarrow> False | Some v \<Rightarrow> feature \<in> set (split_on 44 v)) [0..<32] of
        Some pin \<Rightarrow> of_nat pin
      | None \<Rightarrow> if V def_pin \<noteq> None then GPIO_PIN_NOTDEFINED else def_pin)"
proof -
  have get: "getvar (table_get st) (Some (var_block kvs @ pad)) (Some (gpio_name pin)) = Some (V pin)" for pin
    using gpio_name_plain [of pin] assms(2) unfolding V_def by (intro getvar_block assms(1)) auto
  have "gpio_scan (table_get st) (Some (var_block kvs @ pad)) feature [0..<GPIO_NUMPINS] =
    Some (find (\<lambda>pin. case V (of_nat pin) of None \<Rightarrow> False | Some v \<Rightarrow> feature \<in> set (split_on 44 v)) [0..<32])"
    unfolding GPIO_NUMPINS_def by (rule gpio_scan_law) (rule get)
  then show ?thesis by (auto simp: getgpiopin_def get split: option.split)
qed

lemma gpio_pin_assigned_witness:
  "getgpiopin (table_get blank_nv) (Some (cstr ''gpio1=robo_reset,wps_led'' @ [0, 0] @ replicate 8 0)) (cstr ''wps_led'') 5 = Some 1"
proof -
  have b: "cstr ''gpio1=robo_reset,wps_led'' @ [0, 0] @ replicate 8 0 =
      var_block [(cstr ''gpio1'', cstr ''robo_reset,wps_led'')] @ replicate 8 0"
    by (simp add: var_block_def cstr_def)
  have ok: "vars_ok [(cstr ''gpio1'', cstr ''robo_reset,wps_led'')]" by (simp add: vars_ok_def cstr_def)
  have d: "fmt_d 0 = [48]" "fmt_d 1 = [49]" by (simp_all add: fmt_d_def dec_digits.simps digit_char_def)
  have n: "gpio_name 0 = cstr ''gpio0''" "gpio_name 1 = cstr ''gpio1''"
    by (simp_all add: gpio_name_def snprintf_def d cstr_def)
  have l: "cstr ''wps_led'' \<in> set (split_on 44 (cstr ''robo_reset,wps_led''))"
  proof -
    have "cstr ''robo_reset,wps_led'' = cstr ''robo_reset'' @ 44 # cstr ''wps_led''" "44 \<notin> set (cstr ''robo_reset'')"
      "44 \<notin> set (cstr ''wps_led'')" by (simp_all add: cstr_def)
    then show ?thesis by (simp add: split_on_first split_on_none)
  qed
  let ?P = "\<lambda>pin. case (nv_vals linux_port blank_nv ++ map_of [(cstr ''gpio1'', cstr ''robo_reset,wps_led'')]) (gpio_name (of_nat pin)) of
      None \<Rightarrow> False | Some v \<Rightarrow> cstr ''wps_led'' \<in> set (split_on 44 v)"
  have "cstr ''gpio0'' \<noteq> cstr ''gpio1''" by (simp add: cstr_def)
  then have "\<not> ?P 0" "?P 1" using n l by (simp_all del: split_on.simps)
  moreover have "[0..<32] = 0 # 1 # [2..<32]" by (simp add: upt_conv_Cons)
  ultimately have "find ?P [0..<32] = Some 1" by (simp only: find.simps if_True if_False)
  then show ?thesis
    unfolding b using gpio_pin_assigned [OF ok, of "replicate 8 0" blank_nv "cstr ''wps_led''" 5] by (simp only: length_replicate option.case of_nat_1)
qed

section \<open>Addresses and bounded printing\<close>

text \<open>A printed hardware address fits into its buffer of 18 bytes and is read back to the six bytes it was
  printed from.\<close>

theorem ether_round_trip:
  assumes "length ea = 6"
  shows "length (bcm_ether_ntoa ea) = 17 \<and> bcm_ether_atoe (bcm_ether_ntoa ea) = Some ea"
proof -
  have ne: "ea \<noteq> []" using assms by auto
  have two: "length s = 2" if "s \<in> set (map fmt_02x ea)" for s using that by (auto simp: fmt_02x_def)
  have "length (join 58 (map fmt_02x ea)) = 17"
    using length_join [of "map fmt_02x ea" 2 58, OF _ two] assms ne by simp
  then have "bcm_ether_ntoa ea = join 58 (map fmt_02x ea)" "length (bcm_ether_ntoa ea) = 17"
    by (simp_all add: bcm_ether_ntoa_def snprintf_def)
  then show ?thesis using atoe_loop_join [OF ne, of 6] assms by (simp add: bcm_ether_atoe_def)
qed

lemma ether_round_trip_witness: "bcm_ether_atoe (bcm_ether_ntoa [0, 0x10, 0x18, 0xab, 0xcd, 0xef]) = Some [0, 0x10, 0x18, 0xab, 0xcd, 0xef]"
  using ether_round_trip [of "[0, 0x10, 0x18, 0xab, 0xcd, 0xef]"] by simp

text \<open>A sequence of prints into a string buffer of \<open>n\<close> bytes leaves there what they print one after the
  other, cut off after \<open>n - 1\<close> bytes and closed by a NUL, and writes nothing outside the buffer, when
  none of the prints is empty.\<close>

theorem prints_bounded:
  assumes "[] \<notin> set ss" "ss \<noteq> []" "0 < unat n" "unat n < 2 ^ 31" "p + unat n \<le> length m"
  shows "\<exists>b m'. bprints (bcm_binit p n) m ss = Some (b, m') \<and> length m' = length m \<and>
    takeWhile (\<lambda>c. c \<noteq> 0) (drop p m') = takeWhile (\<lambda>c. c \<noteq> 0) (take (unat n - 1) (concat ss)) \<and>
    take (unat n) (drop p m') = take (unat n) (take (unat n - 1) (concat ss) @ [0] @ drop (p + length (take (unat n - 1) (concat ss)) + 1) m) \<and>
    take p m' = take p m \<and> drop (p + unat n) m' = drop (p + unat n) m"
proof -
  let ?out = "take (unat n - 1) (concat ss)"
  have b: "unat (sb_size (bcm_binit p n)) = unat n" "sb_buf (bcm_binit p n) = p" by (simp_all add: bcm_binit_def)
  obtain b' where r: "bprints (bcm_binit p n) m ss = Some (b', take p m @ ?out @ [0] @ drop (p + length ?out + 1) m)"
    using bprints_law [of ss "bcm_binit p n" m] assms unfolding b by blast
  have out: "length ?out + 1 \<le> unat n" using assms(3) by simp
  have "takeWhile (\<lambda>c. c \<noteq> 0) (os @ [0] @ xs) = takeWhile (\<lambda>c. c \<noteq> 0) os" for os xs :: "u8 list"
    by (induction os) auto
  moreover have "drop (p + k) (take p m @ os @ [0] @ drop (p + length os + 1) m) = drop (p + k) m"
    if "length os + 1 \<le> k" for os k
  proof -
    obtain j where "k = length os + 1 + j" using \<open>length os + 1 \<le> k\<close> le_Suc_ex by blast
    then show ?thesis using assms(5) by (simp add: ac_simps)
  qed
  from this [OF out] have "drop (p + unat n) (take p m @ ?out @ [0] @ drop (p + length ?out + 1) m) = drop (p + unat n) m"
    .
  ultimately show ?thesis using r assms(5) out by (auto simp: min_def)
qed

lemma prints_bounded_witness:
  "\<exists>b m'. bprints (bcm_binit 2 6) [1, 1, 1, 1, 1, 1, 1, 1, 1, 1] [cstr ''ab'', cstr ''cdef''] = Some (b, m') \<and>
    takeWhile (\<lambda>c. c \<noteq> 0) (drop 2 m') = cstr ''abcde'' \<and> take 2 m' = [1, 1] \<and> drop 8 m' = [1, 1]"
  using prints_bounded [of "[cstr ''ab'', cstr ''cdef'']" 6 2 "[1, 1, 1, 1, 1, 1, 1, 1, 1, 1]"] by (auto simp: cstr_def)

end
