(* ===== verification/User_Timer.thy ===== *)
theory User_Timer
  imports Router_Prelude
begin

text \<open>
  The user-space timers of linux_timer.c: any number of timers over the process's one interval
  timer. The pending ones form a list in which each entry holds the time from the entry before it.
  \<open>None\<close> is an access through a null pointer, a walk over a list that loops, or the end of the process
  by \<open>exit\<close> or a failed assertion. Times are unbounded integers where the source has 32-bit ones, so that an overflow of
  seconds is not modelled. The locks are the blocking of \<open>SIGALRM\<close>, which is part of the state.
\<close>

section \<open>Times\<close>

record timeval =
  tv_sec :: int
  tv_usec :: int

record timespec =
  ts_sec :: int
  ts_nsec :: int

record itimerspec =
  sp_interval :: timespec
  sp_value :: timespec

text \<open>Division in C rounds towards 0.\<close>

definition TIMESPEC_TO_TIMEVAL :: "timespec \<Rightarrow> timeval" where
  "TIMESPEC_TO_TIMEVAL ts =
     \<lparr>tv_sec = ts_sec ts, tv_usec = (if ts_nsec ts < 0 then - (- ts_nsec ts div 1000) else ts_nsec ts div 1000)\<rparr>"

definition tv_zero :: timeval where "tv_zero = \<lparr>tv_sec = 0, tv_usec = 0\<rparr>"

definition timerisset :: "timeval \<Rightarrow> bool" where
  "timerisset t \<longleftrightarrow> tv_sec t \<noteq> 0 \<or> tv_usec t \<noteq> 0"

definition timercmp_less :: "timeval \<Rightarrow> timeval \<Rightarrow> bool" where
  "timercmp_less a b \<longleftrightarrow> (if tv_sec a = tv_sec b then tv_usec a < tv_usec b else tv_sec a < tv_sec b)"

definition timersub :: "timeval \<Rightarrow> timeval \<Rightarrow> timeval" where
  "timersub a b =
     (let s = tv_sec a - tv_sec b; u = tv_usec a - tv_usec b in
      if u < 0 then \<lparr>tv_sec = s - 1, tv_usec = u + 1000000\<rparr> else \<lparr>tv_sec = s, tv_usec = u\<rparr>)"

definition timeradd :: "timeval \<Rightarrow> timeval \<Rightarrow> timeval" where
  "timeradd a b =
     (let s = tv_sec a + tv_sec b; u = tv_usec a + tv_usec b in
      if u \<ge> 1000000 then \<lparr>tv_sec = s + 1, tv_usec = u - 1000000\<rparr> else \<lparr>tv_sec = s, tv_usec = u\<rparr>)"

definition ROUNDUP_us :: "int \<Rightarrow> int \<Rightarrow> int" where
  "ROUNDUP_us x y = ((x + y - 1) div y) * y"

definition timerroundup :: "int \<Rightarrow> timeval \<Rightarrow> timeval" where
  "timerroundup g t =
     (let t1 = (if timerisset t then t else t\<lparr>tv_usec := 1\<rparr>) in
      if tv_sec t1 = 0 then t1\<lparr>tv_usec := ROUNDUP_us (tv_usec t1) g\<rparr> else t1)"

section \<open>State\<close>

record event =
  it_interval :: timeval
  it_value :: timeval
  ev_func :: nat
  ev_arg :: int
  ev_flags :: u16
  ev_next :: addr

definition TFLAG_NONE :: u16 where "TFLAG_NONE = 0"
definition TFLAG_CANCELLED :: u16 where "TFLAG_CANCELLED = 1"
definition TFLAG_DELETED :: u16 where "TFLAG_DELETED = 2"

text \<open>
  \<open>itimer\<close> is the time left on \<open>ITIMER_REAL\<close>, 0 when it is off, and \<open>client\<close> the state of the functions the
  timers call, which the module does not touch: the calls they have seen.
\<close>

record utimers =
  ev :: "addr \<Rightarrow> event"
  event_queue :: addr
  event_freelist :: addr
  g_granularity :: int
  g_maxevents :: int
  itimer :: timeval
  block_count :: int
  alarm_blocked :: bool
  client :: "(addr \<times> int) list"

definition upd_ev :: "utimers \<Rightarrow> addr \<Rightarrow> (event \<Rightarrow> event) \<Rightarrow> utimers" where
  "upd_ev st a f = st\<lparr>ev := (ev st)(a := f (ev st a))\<rparr>"

text \<open>The kernel refuses a value that is not normalized.\<close>

definition setitimer :: "timeval \<Rightarrow> utimers \<Rightarrow> utimers" where
  "setitimer v st = (if 0 \<le> tv_sec v \<and> 0 \<le> tv_usec v \<and> tv_usec v < 1000000 then st\<lparr>itimer := v\<rparr> else st)"

definition block_timer :: "utimers \<Rightarrow> utimers" where
  "block_timer st =
     st\<lparr>alarm_blocked := (block_count st = 0 \<or> alarm_blocked st), block_count := block_count st + 1\<rparr>"

definition unblock_timer :: "utimers \<Rightarrow> utimers" where
  "unblock_timer st =
     st\<lparr>block_count := block_count st - 1, alarm_blocked := (block_count st - 1 \<noteq> 0 \<and> alarm_blocked st)\<rparr>"

text \<open>
  The events are one array, with \<open>base\<close> the address \<open>malloc\<close> returned; setting the interval timer to a
  microsecond and reading it back gives the clock tick of the kernel, \<open>jiffy\<close>.
\<close>

definition event0 :: event where
  "event0 = \<lparr>it_interval = tv_zero, it_value = tv_zero, ev_func = 0, ev_arg = 0, ev_flags = 0, ev_next = 0\<rparr>"

definition init_event_queue :: "int \<Rightarrow> addr \<Rightarrow> int \<Rightarrow> utimers \<Rightarrow> utimers option" where
  "init_event_queue n base jiffy st =
     (if n \<le> 0 \<or> base = 0 then None
      else Some (st\<lparr>g_maxevents := n, event_freelist := base,
        ev := (\<lambda>a. if base \<le> a \<and> a < base + nat n
                   then event0\<lparr>ev_next := (if a + 1 < base + nat n then a + 1 else 0)\<rparr> else ev st a),
        itimer := tv_zero, g_granularity := jiffy\<rparr>))"

section \<open>Creating and deleting\<close>

text \<open>The walk of \<open>check_event_queue\<close>; \<open>False\<close> when it ends the process.\<close>

function check_queue :: "(addr \<Rightarrow> event) \<Rightarrow> int \<Rightarrow> addr \<Rightarrow> int \<Rightarrow> bool" where
  "check_queue evs mx a i =
     (if a = 0 then True else if i > mx then False else check_queue evs mx (ev_next (evs a)) (i + 1))"
  by auto
termination
  by (relation "measure (\<lambda>(evs, mx, a, i). nat (mx + 1 - i))") auto

declare check_queue.simps [simp del]

definition check_event_queue :: "utimers \<Rightarrow> bool" where
  "check_event_queue st \<longleftrightarrow> check_queue (ev st) (g_maxevents st) (event_queue st) 0"

text \<open>
  A clock other than \<open>CLOCK_REALTIME\<close>, or a notification other than by \<open>SIGALRM\<close>, ends the process.
\<close>

definition CLOCK_REALTIME :: int where "CLOCK_REALTIME = 0"
definition SIGEV_SIGNAL :: int where "SIGEV_SIGNAL = 0"
definition SIGALRM :: int where "SIGALRM = 14"

record sigevent =
  sigev_notify :: int
  sigev_signo :: int

definition timer_create :: "utimers \<Rightarrow> int \<Rightarrow> sigevent option \<Rightarrow> (utimers \<times> addr) option" where
  "timer_create st clock_id evp =
     (let e = event_freelist st in
      if clock_id \<noteq> CLOCK_REALTIME then None
      else if (case evp of None \<Rightarrow> False | Some s \<Rightarrow> sigev_notify s \<noteq> SIGEV_SIGNAL \<or> sigev_signo s \<noteq> SIGALRM) then None
      else if e = 0 then None
      else
        let st1 = upd_ev st e (\<lambda>x. x\<lparr>ev_flags := TFLAG_NONE\<rparr>);
            st2 = st1\<lparr>event_freelist := ev_next (ev st1 e)\<rparr>;
            st3 = upd_ev st2 e (\<lambda>x. x\<lparr>ev_next := 0\<rparr>)
        in if check_event_queue st3 then Some (st3, e) else None)"

definition timer_connect :: "utimers \<Rightarrow> addr \<Rightarrow> nat \<Rightarrow> int \<Rightarrow> utimers option" where
  "timer_connect st e routine arg =
     (if routine = 0 then None else Some (upd_ev st e (\<lambda>x. x\<lparr>ev_func := routine, ev_arg := arg\<rparr>)))"

definition timer_change_settime :: "utimers \<Rightarrow> addr \<Rightarrow> itimerspec \<Rightarrow> utimers \<times> int" where
  "timer_change_settime st e value =
     (upd_ev st e (\<lambda>x. x\<lparr>it_interval := TIMESPEC_TO_TIMEVAL (sp_interval value),
        it_value := TIMESPEC_TO_TIMEVAL (sp_value value)\<rparr>), 1)"

section \<open>Cancelling\<close>

text \<open>The link to an event: the entry before it, 0 for the head of the list; \<open>None\<close> inside when it is not there.\<close>

partial_function (option) find_link :: "(addr \<Rightarrow> event) \<Rightarrow> addr \<Rightarrow> addr \<Rightarrow> addr \<Rightarrow> addr option option" where
  "find_link evs e prev a =
     (if a = 0 then Some None else if a = e then Some (Some prev) else find_link evs e a (ev_next (evs a)))"

definition set_link :: "addr \<Rightarrow> addr \<Rightarrow> utimers \<Rightarrow> utimers" where
  "set_link prev a st = (if prev = 0 then st\<lparr>event_queue := a\<rparr> else upd_ev st prev (\<lambda>x. x\<lparr>ev_next := a\<rparr>))"

text \<open>Arming the interval timer for the head of the list, which has to be at least a tick away.\<close>

definition arm_head :: "utimers \<Rightarrow> utimers option" where
  "arm_head st =
     (let h = event_queue st; st1 = upd_ev st h (\<lambda>x. x\<lparr>it_value := timerroundup (g_granularity st) (it_value x)\<rparr>);
          v0 = it_value (ev st1 h); v = (if timerisset v0 then v0 else \<lparr>tv_sec = 0, tv_usec = 1\<rparr>) in
      if (tv_sec v > 0 \<or> tv_usec v \<ge> g_granularity st) \<and> (tv_sec v0 > 0 \<or> tv_usec v0 \<ge> g_granularity st)
      then Some (setitimer v st1) else None)"

definition cancel_linked :: "addr \<Rightarrow> addr \<Rightarrow> utimers \<Rightarrow> utimers option" where
  "cancel_linked e prev st =
     (let next = ev_next (ev st e);
          st1 = (if e = event_queue st \<and> next \<noteq> 0 then
                   let s = upd_ev st e (\<lambda>x. x\<lparr>it_value := timersub (it_value x) (itimer st)\<rparr>)
                   in upd_ev s next (\<lambda>x. x\<lparr>it_value := timeradd (it_value x) (it_value (ev s e))\<rparr>)
                 else st);
          st2 = set_link prev next st1;
          st3 = upd_ev st2 e (\<lambda>x. x\<lparr>ev_next := 0\<rparr>)
      in if event_queue st3 \<noteq> 0 then arm_head st3 else Some (setitimer tv_zero st3))"

definition timer_cancel :: "utimers \<Rightarrow> addr \<Rightarrow> utimers option" where
  "timer_cancel st e =
     (if ev_flags (ev st e) AND TFLAG_CANCELLED \<noteq> 0 then Some st
      else
        let st1 = block_timer st in
        (case find_link (ev st1) e 0 (event_queue st1) of
           None \<Rightarrow> None
         | Some l \<Rightarrow>
             map_option (\<lambda>st2. unblock_timer (upd_ev st2 e (\<lambda>x. x\<lparr>ev_flags := ev_flags x OR TFLAG_CANCELLED\<rparr>)))
               (case l of None \<Rightarrow> Some st1 | Some prev \<Rightarrow> cancel_linked e prev st1)))"

definition timer_delete :: "utimers \<Rightarrow> addr \<Rightarrow> (utimers \<times> int) option" where
  "timer_delete st e =
     (if ev_flags (ev st e) AND TFLAG_DELETED \<noteq> 0 then Some (st, 1)
      else map_option (\<lambda>st1. ((upd_ev st1 e (\<lambda>x. x\<lparr>ev_flags := ev_flags x OR TFLAG_DELETED,
          ev_next := event_freelist st1\<rparr>))\<lparr>event_freelist := e\<rparr>, 0)) (timer_cancel st e))"

partial_function (option) cancel_walk :: "utimers \<Rightarrow> utimers option" where
  "cancel_walk st =
     (if event_queue st = 0 then Some st
      else
        let e = event_queue st; st1 = st\<lparr>event_queue := ev_next (ev st e)\<rparr>
        in cancel_walk (upd_ev st1 e (\<lambda>x. x\<lparr>ev_next := 0\<rparr>)))"

definition timer_cancel_all :: "utimers \<Rightarrow> utimers option" where
  "timer_cancel_all st = cancel_walk (setitimer tv_zero st)"

section \<open>Setting\<close>

text \<open>
  The march down the list: the new event's value is reduced by each entry it passes, and the entry
  it comes before is reduced by what is left. The result is the entry before it and the entry after it.
\<close>

partial_function (option) march :: "addr \<Rightarrow> (addr \<Rightarrow> event) \<Rightarrow> addr \<Rightarrow> addr \<Rightarrow> ((addr \<Rightarrow> event) \<times> addr \<times> addr) option" where
  "march e evs prev a =
     (if a = 0 then Some (evs, prev, a)
      else if timercmp_less (it_value (evs e)) (it_value (evs a)) then
        Some (evs(a := (evs a)\<lparr>it_value := timersub (it_value (evs a)) (it_value (evs e))\<rparr>), prev, a)
      else
        let evs1 = evs(e := (evs e)\<lparr>it_value := timersub (it_value (evs e)) (it_value (evs a))\<rparr>)
        in march e evs1 a (ev_next (evs1 a)))"

definition enqueue_event :: "addr \<Rightarrow> utimers \<Rightarrow> utimers option" where
  "enqueue_event e st =
     map_option (\<lambda>(evs, prev, a). set_link prev e (upd_ev (st\<lparr>ev := evs\<rparr>) e (\<lambda>x. x\<lparr>ev_next := a\<rparr>)))
       (march e (ev st) 0 (event_queue st))"

text \<open>The head's value becomes the time left on the interval timer.\<close>

definition sync_head :: "utimers \<Rightarrow> utimers" where
  "sync_head st =
     (if timerisset (itimer st) \<and> event_queue st \<noteq> 0 \<and> \<not> timercmp_less (it_value (ev st (event_queue st))) (itimer st)
      then upd_ev st (event_queue st) (\<lambda>x. x\<lparr>it_value := itimer st\<rparr>) else st)"

definition timer_settime :: "utimers \<Rightarrow> addr \<Rightarrow> itimerspec \<Rightarrow> (utimers \<times> int) option" where
  "timer_settime st e value =
     (let st1 = upd_ev st e (\<lambda>x. x\<lparr>it_interval := TIMESPEC_TO_TIMEVAL (sp_interval value),
            it_value := TIMESPEC_TO_TIMEVAL (sp_value value)\<rparr>) in
      if \<not> timerisset (it_value (ev st1 e)) then map_option (\<lambda>s. (s, 0)) (timer_cancel st1 e)
      else
        let st2 = block_timer st1;
            st3 = upd_ev st2 e (\<lambda>x. x\<lparr>it_value := timerroundup (g_granularity st2) (it_value x)\<rparr>) in
        (case enqueue_event e (sync_head st3) of
           None \<Rightarrow> None
         | Some st4 \<Rightarrow>
             if \<not> check_event_queue st4 then None
             else
               map_option (\<lambda>st5. (unblock_timer (upd_ev st5 e (\<lambda>x. x\<lparr>ev_flags := ev_flags x AND NOT TFLAG_CANCELLED\<rparr>)), 0))
                 (if e = event_queue st4 then arm_head st4 else Some st4)))"

section \<open>The alarm\<close>

text \<open>
  One round of the handler: the head is taken off, its function is called, and it is queued again when
  it is recurring and the function has not cancelled it. \<open>cb\<close> is what the functions do.
\<close>

type_synonym callbacks = "nat \<Rightarrow> addr \<Rightarrow> int \<Rightarrow> utimers \<Rightarrow> utimers option"

definition alarm_one :: "callbacks \<Rightarrow> utimers \<Rightarrow> utimers option" where
  "alarm_one cb st =
     (let e = event_queue st in
      if e = 0 then None
      else
        let st1 = upd_ev (st\<lparr>event_queue := ev_next (ev st e)\<rparr>) e (\<lambda>x. x\<lparr>ev_next := 0\<rparr>) in
        (case (if ev_func (ev st1 e) = 0 then None else cb (ev_func (ev st1 e)) e (ev_arg (ev st1 e)) st1) of
           None \<Rightarrow> None
         | Some st2 \<Rightarrow>
             (case (if ev_flags (ev st2 e) AND TFLAG_CANCELLED = 0 \<and> timerisset (it_interval (ev st2 e))
                    then enqueue_event e (upd_ev st2 e (\<lambda>x. x\<lparr>it_value := timerroundup (g_granularity st2) (it_interval x)\<rparr>))
                    else Some st2) of
                None \<Rightarrow> None
              | Some st3 \<Rightarrow> if check_event_queue st3 then Some st3 else None)))"

definition due_soon :: "utimers \<Rightarrow> bool" where
  "due_soon st \<longleftrightarrow> event_queue st \<noteq> 0 \<and>
     timercmp_less (it_value (ev st (event_queue st))) \<lparr>tv_sec = 0, tv_usec = g_granularity st div 2\<rparr>"

partial_function (option) alarm_loop :: "callbacks \<Rightarrow> utimers \<Rightarrow> utimers option" where
  "alarm_loop cb st =
     (case alarm_one cb st of None \<Rightarrow> None | Some st1 \<Rightarrow> if due_soon st1 then alarm_loop cb st1 else Some st1)"

text \<open>Without the assertions of \<open>arm_head\<close>.\<close>

definition rearm :: "utimers \<Rightarrow> utimers" where
  "rearm st =
     (if event_queue st \<noteq> 0 then
        let h = event_queue st; st1 = upd_ev st h (\<lambda>x. x\<lparr>it_value := timerroundup (g_granularity st) (it_value x)\<rparr>);
            v = it_value (ev st1 h)
        in setitimer (if timerisset v then v else \<lparr>tv_sec = 0, tv_usec = 1\<rparr>) st1
      else st)"

definition alarm_handler :: "callbacks \<Rightarrow> utimers \<Rightarrow> utimers option" where
  "alarm_handler cb st = map_option (\<lambda>st1. unblock_timer (rearm st1)) (alarm_loop cb (block_timer st))"

section \<open>The interface of the module\<close>

definition bcm_timer_module_init :: "int \<Rightarrow> addr \<Rightarrow> int \<Rightarrow> utimers \<Rightarrow> (utimers \<times> addr \<times> int) option" where
  "bcm_timer_module_init timer_entries base jiffy st =
     map_option (\<lambda>s. (s, event_freelist s, 0)) (init_event_queue timer_entries base jiffy st)"

definition bcm_timer_module_cleanup :: "utimers \<Rightarrow> utimers \<times> int" where
  "bcm_timer_module_cleanup st = (st, 0)"

definition bcm_timer_module_enable :: "utimers \<Rightarrow> int \<Rightarrow> utimers \<times> int" where
  "bcm_timer_module_enable st enable = (if enable \<noteq> 0 then unblock_timer st else block_timer st, 0)"

definition bcm_timer_create :: "utimers \<Rightarrow> (utimers \<times> addr \<times> int) option" where
  "bcm_timer_create st = map_option (\<lambda>(s, e). (s, e, 0)) (timer_create st CLOCK_REALTIME None)"

definition bcm_timer_delete :: "utimers \<Rightarrow> addr \<Rightarrow> (utimers \<times> int) option" where
  "bcm_timer_delete st e = timer_delete st e"

definition bcm_timer_gettime :: int where "bcm_timer_gettime = - 1"

definition bcm_timer_settime :: "utimers \<Rightarrow> addr \<Rightarrow> itimerspec \<Rightarrow> (utimers \<times> int) option" where
  "bcm_timer_settime st e value = timer_settime st e value"

definition bcm_timer_connect :: "utimers \<Rightarrow> addr \<Rightarrow> nat \<Rightarrow> int \<Rightarrow> (utimers \<times> int) option" where
  "bcm_timer_connect st e func data = map_option (\<lambda>s. (s, 0)) (timer_connect st e func data)"

definition bcm_timer_cancel :: "utimers \<Rightarrow> addr \<Rightarrow> (utimers \<times> int) option" where
  "bcm_timer_cancel st e = map_option (\<lambda>s. (s, 0)) (timer_cancel st e)"

definition bcm_timer_change_expirytime :: "utimers \<Rightarrow> addr \<Rightarrow> itimerspec \<Rightarrow> utimers \<times> int" where
  "bcm_timer_change_expirytime st e value = (fst (timer_change_settime st e value), 1)"

end
