(* ===== verification/User_Timer_Laws.thy ===== *)
theory User_Timer_Laws
  imports User_Timer Chains
begin

text \<open>
  The list of pending timers as a list of delays, and what setting, cancelling and expiry do to the time
  each timer is due.
\<close>

section \<open>Times as microseconds\<close>

definition us :: "timeval \<Rightarrow> int" where "us t = tv_sec t * 1000000 + tv_usec t"

definition normal :: "timeval \<Rightarrow> bool" where
  "normal t \<longleftrightarrow> 0 \<le> tv_sec t \<and> 0 \<le> tv_usec t \<and> tv_usec t < 1000000"

lemma us_nonneg: "normal t \<Longrightarrow> 0 \<le> us t"
  by (simp add: us_def normal_def)

lemma timercmp_us: "normal a \<Longrightarrow> normal b \<Longrightarrow> timercmp_less a b \<longleftrightarrow> us a < us b"
  by (auto simp: timercmp_less_def us_def normal_def)

lemma timerisset_us: "normal t \<Longrightarrow> timerisset t \<longleftrightarrow> us t \<noteq> 0"
proof -
  assume n: "normal t"
  have "tv_sec t = 0 \<and> tv_usec t = 0" if "us t = 0"
  proof
    show "tv_sec t = 0" "tv_usec t = 0" using that n unfolding us_def normal_def by linarith+
  qed
  then show ?thesis by (auto simp: timerisset_def us_def)
qed

lemma us_inject: "normal a \<Longrightarrow> normal b \<Longrightarrow> us a = us b \<Longrightarrow> a = b"
proof -
  assume n: "normal a" "normal b" "us a = us b"
  have "tv_sec a = tv_sec b" using n unfolding us_def normal_def by linarith
  then show ?thesis using n(3) by (simp add: us_def)
qed

lemma timersub_us:
  "normal a \<Longrightarrow> normal b \<Longrightarrow> us (timersub a b) = us a - us b"
  "normal a \<Longrightarrow> normal b \<Longrightarrow> us b \<le> us a \<Longrightarrow> normal (timersub a b)"
  by (auto simp: timersub_def us_def normal_def Let_def algebra_simps)

lemma timeradd_us:
  "normal a \<Longrightarrow> normal b \<Longrightarrow> us (timeradd a b) = us a + us b \<and> normal (timeradd a b)"
  by (auto simp: timeradd_def us_def normal_def Let_def algebra_simps)

lemma normal_zero [simp]: "normal tv_zero" "us tv_zero = 0" "\<not> timerisset tv_zero"
  by (simp_all add: tv_zero_def normal_def us_def timerisset_def)

text \<open>Rounding up to the tick, for a value that does not become a whole second by it.\<close>

definition round_ok :: "int \<Rightarrow> timeval \<Rightarrow> bool" where
  "round_ok g t \<longleftrightarrow> normal t \<and> (tv_sec t = 0 \<longrightarrow> ROUNDUP_us (max 1 (tv_usec t)) g < 1000000)"

lemma ROUNDUP_us_bounds: "0 < g \<Longrightarrow> x \<le> ROUNDUP_us x g \<and> ROUNDUP_us x g < x + g"
proof -
  assume g: "0 < g"
  have "(x + g - 1) div g * g + (x + g - 1) mod g = x + g - 1" by simp
  moreover have "0 \<le> (x + g - 1) mod g" "(x + g - 1) mod g < g" using g by simp_all
  ultimately show ?thesis unfolding ROUNDUP_us_def by linarith
qed

lemma ROUNDUP_us_pos: "0 < g \<Longrightarrow> 0 < x \<Longrightarrow> g \<le> ROUNDUP_us x g"
proof -
  assume g: "0 < g" "0 < x"
  then have "1 \<le> (x + g - 1) div g" using zdiv_mono1 [of g "x + g - 1" g] by simp
  then have "1 * g \<le> (x + g - 1) div g * g" using g by (intro mult_right_mono) auto
  then show ?thesis by (simp add: ROUNDUP_us_def)
qed

lemma ROUNDUP_us_idem: "0 < g \<Longrightarrow> ROUNDUP_us (ROUNDUP_us x g) g = ROUNDUP_us x g"
proof -
  assume g: "0 < g"
  have "((x + g - 1) div g * g + (g - 1)) div g = (x + g - 1) div g" using g
    by (metis add.commute add.right_neutral diff_ge_0_iff_ge div_mult_self3 div_pos_pos_trivial less_add_one
        less_iff_diff_less_0 less_le not_less zle_diff1_eq zless_add1_eq)
  then show ?thesis by (simp add: ROUNDUP_us_def algebra_simps)
qed

lemma timerroundup_law:
  assumes "0 < g" "round_ok g t"
  defines "r \<equiv> timerroundup g t"
  shows "normal r" "us t \<le> us r" "us r < us t + 1 + g" "timerisset r" "tv_sec r > 0 \<or> tv_usec r \<ge> g" "round_ok g r" "timerroundup g r = r"
proof -
  have n: "normal t" using assms(2) by (simp add: round_ok_def)
  define t1 where "t1 = (if timerisset t then t else t\<lparr>tv_usec := 1\<rparr>)"
  have t1: "tv_sec t1 = tv_sec t" "tv_sec t = 0 \<Longrightarrow> tv_usec t1 = max 1 (tv_usec t)" "tv_sec t \<noteq> 0 \<Longrightarrow> t1 = t"
    using n by (auto simp: t1_def timerisset_def normal_def)
  have r: "r = (if tv_sec t = 0 then t1\<lparr>tv_usec := ROUNDUP_us (tv_usec t1) g\<rparr> else t1)"
    by (simp add: r_def timerroundup_def t1_def [symmetric] Let_def t1(1))
  note b = ROUNDUP_us_bounds [OF assms(1), of "max 1 (tv_usec t)"] ROUNDUP_us_pos [OF assms(1), of "max 1 (tv_usec t)"]
  show nr: "normal r" using n b assms(2) t1 unfolding r by (auto simp: normal_def round_ok_def)
  show "us t \<le> us r" "us r < us t + 1 + g"
  proof -
    have "us t \<le> us r \<and> us r < us t + 1 + g"
    proof (cases "tv_sec t = 0")
      case True
      then have "us r = ROUNDUP_us (max 1 (tv_usec t)) g" "us t = tv_usec t" using t1(1,2) unfolding r us_def by simp_all
      then show ?thesis using b(1) n unfolding normal_def by linarith
    next
      case False
      then have "r = t" using t1(3) unfolding r by simp
      then show ?thesis using assms(1) by simp
    qed
    then show "us t \<le> us r" "us r < us t + 1 + g" by blast+
  qed
  show s: "timerisset r" using t1 b assms(1) unfolding r timerisset_def by (cases "tv_sec t = 0") auto
  show ge: "tv_sec r > 0 \<or> tv_usec r \<ge> g" using t1 b n unfolding r normal_def by (cases "tv_sec t = 0") auto
  have id: "tv_sec r = 0 \<Longrightarrow> ROUNDUP_us (tv_usec r) g = tv_usec r"
    using t1 ROUNDUP_us_idem [OF assms(1)] unfolding r by (auto split: if_splits)
  show "timerroundup g r = r" using s id by (simp add: timerroundup_def Let_def)
  have "max 1 (tv_usec r) = tv_usec r" if "tv_sec r = 0" using that ge assms(1) by auto
  then show "round_ok g r" using nr id by (auto simp: round_ok_def normal_def)
qed

section \<open>Lists of delays\<close>

fun dues :: "int \<Rightarrow> (addr \<times> int) list \<Rightarrow> (addr \<times> int) list" where
  "dues r [] = []"
| "dues r ((a, d) # xs) = (a, r + d) # dues (r + d) xs"

fun dq_insert :: "addr \<Rightarrow> int \<Rightarrow> (addr \<times> int) list \<Rightarrow> (addr \<times> int) list" where
  "dq_insert e v [] = [(e, v)]"
| "dq_insert e v ((a, d) # xs) = (if v < d then (e, v) # (a, d - v) # xs else (a, d) # dq_insert e (v - d) xs)"

lemma dues_fst [simp]: "map fst (dues r xs) = map fst xs"
  by (induction r xs rule: dues.induct) auto

lemma dues_insert: "e \<notin> fst ` set xs \<Longrightarrow> map_of (dues r (dq_insert e v xs)) = (map_of (dues r xs))(e \<mapsto> r + v)"
  by (induction e v xs arbitrary: r rule: dq_insert.induct) (auto simp: fun_upd_twist)

lemma dq_insert_set: "fst ` set (dq_insert e v xs) = insert e (fst ` set xs)"
  by (induction e v xs rule: dq_insert.induct) auto

lemma dq_insert_distinct: "distinct (map fst xs) \<Longrightarrow> e \<notin> fst ` set xs \<Longrightarrow> distinct (map fst (dq_insert e v xs))"
  by (induction e v xs rule: dq_insert.induct) (auto simp: dq_insert_set)

lemma dq_insert_nonneg:
  "0 \<le> v \<Longrightarrow> \<forall>(a, d)\<in>set xs. 0 \<le> d \<Longrightarrow> \<forall>(a, d)\<in>set (dq_insert e v xs). 0 \<le> d"
  by (induction e v xs rule: dq_insert.induct) auto

lemma length_dq_insert [simp]: "length (dq_insert e v xs) = Suc (length xs)"
  by (induction e v xs rule: dq_insert.induct) auto

section \<open>The list in memory\<close>

abbreviation links :: "(addr \<Rightarrow> event) \<Rightarrow> addr \<Rightarrow> addr" where
  "links evs \<equiv> (\<lambda>a. ev_next (evs a))"

definition holds :: "(addr \<Rightarrow> event) \<Rightarrow> (addr \<times> int) list \<Rightarrow> bool" where
  "holds evs xs \<longleftrightarrow> (\<forall>(a, d)\<in>set xs. normal (it_value (evs a)) \<and> us (it_value (evs a)) = d)"

definition queued :: "utimers \<Rightarrow> (addr \<times> int) list \<Rightarrow> bool" where
  "queued st xs \<longleftrightarrow> chain (links (ev st)) (event_queue st) (map fst xs) \<and> distinct (map fst xs) \<and> holds (ev st) xs"

lemma holds_cong: "holds evs xs \<Longrightarrow> (\<And>a. a \<in> fst ` set xs \<Longrightarrow> it_value (evs' a) = it_value (evs a)) \<Longrightarrow> holds evs' xs"
  by (fastforce simp: holds_def)

lemma holds_nonneg: "holds evs xs \<Longrightarrow> (a, d) \<in> set xs \<Longrightarrow> 0 \<le> d"
  using us_nonneg by (fastforce simp: holds_def)

lemma check_queue_ok: "chain (links evs) a xs \<Longrightarrow> i + int (length xs) \<le> mx + 1 \<Longrightarrow> check_queue evs mx a i"
proof (induction xs arbitrary: a i)
  case Nil
  then show ?case by (simp add: check_queue.simps)
next
  case (Cons x xs)
  then show ?case by (subst check_queue.simps) auto
qed

text \<open>The march finds the place \<open>dq_insert\<close> puts the new timer at, and changes only values.\<close>

lemma march_law:
  "\<lbrakk>chain (links evs) a (map fst xs); holds evs xs; distinct (map fst xs); e \<notin> fst ` set xs; normal (it_value (evs e)); e \<noteq> 0\<rbrakk> \<Longrightarrow>
   \<exists>evs' ys zs v. march e evs prev a = Some (evs', if ys = [] then prev else fst (last ys), if zs = [] then 0 else fst (hd zs)) \<and>
     dq_insert e (us (it_value (evs e))) xs = ys @ (e, v) # zs \<and> map fst xs = map fst (ys @ zs) \<and>
     holds evs' (ys @ (e, v) # zs) \<and> links evs' = links evs \<and>
     (\<forall>x. evs' x = (evs x)\<lparr>it_value := it_value (evs' x)\<rparr>) \<and> (\<forall>x. x \<notin> insert e (fst ` set xs) \<longrightarrow> evs' x = evs x)"
proof (induction xs arbitrary: evs prev a)
  case Nil
  then show ?case by (intro exI [of _ evs] exI [of _ "[]"] exI) (auto simp: march.simps holds_def)
next
  case (Cons x xs)
  obtain b d where x: "x = (b, d)" by (cases x)
  have b: "a = b" "b \<noteq> 0" "chain (links evs) (ev_next (evs b)) (map fst xs)" "b \<noteq> e" "b \<notin> fst ` set xs"
    using Cons.prems(1,3,4) by (auto simp: x)
  have hb: "normal (it_value (evs b))" "us (it_value (evs b)) = d" "holds evs xs" using Cons.prems(2) by (auto simp: holds_def x)
  let ?v = "us (it_value (evs e))"
  note cmp = timercmp_us [OF Cons.prems(5) hb(1)]
  show ?case
  proof (cases "?v < d")
    case True
    let ?evs = "evs(b := (evs b)\<lparr>it_value := timersub (it_value (evs b)) (it_value (evs e))\<rparr>)"
    have "march e evs prev a = Some (?evs, if [] = [] then prev else fst (last []),
        if (b, d - ?v) # xs = [] then 0 else fst (hd ((b, d - ?v) # xs)))"
      using True cmp hb(2) b(1,2) by (subst march.simps) simp
    moreover have "holds ?evs ([] @ (e, ?v) # (b, d - ?v) # xs)"
    proof -
      have "holds ?evs xs" by (rule holds_cong [OF hb(3)]) (use b(5) in auto)
      then show ?thesis
        using True Cons.prems(5) hb(1,2) timersub_us [OF hb(1) Cons.prems(5)] b(4) by (simp add: holds_def)
    qed
    moreover have "dq_insert e ?v (x # xs) = [] @ (e, ?v) # (b, d - ?v) # xs" using True by (simp add: x)
    moreover have "map fst (x # xs) = map fst ([] @ (b, d - ?v) # xs)" by (simp add: x)
    moreover have "links ?evs = links evs" "\<forall>y. ?evs y = (evs y)\<lparr>it_value := it_value (?evs y)\<rparr>"
      "\<forall>y. y \<notin> insert e (fst ` set (x # xs)) \<longrightarrow> ?evs y = evs y" by (auto simp: x)
    ultimately show ?thesis
      by - (rule exI [of _ ?evs], rule exI [of _ "[]"], rule exI [of _ "(b, d - ?v) # xs"], rule exI [of _ ?v], blast)
  next
    case False
    let ?evs = "evs(e := (evs e)\<lparr>it_value := timersub (it_value (evs e)) (it_value (evs b))\<rparr>)"
    have v: "us (it_value (?evs e)) = ?v - d" "normal (it_value (?evs e))"
      using False timersub_us [OF Cons.prems(5) hb(1)] hb(2) by simp_all
    have m: "march e evs prev a = march e ?evs b (ev_next (evs b))"
      using False cmp hb(2) b by (subst march.simps) (simp add: Let_def)
    have l: "links ?evs = links evs" by auto
    have c1: "chain (links ?evs) (ev_next (evs b)) (map fst xs)" unfolding l by (rule b(3))
    have h1: "holds ?evs xs" by (rule holds_cong [OF hb(3)]) (use Cons.prems(4) in \<open>auto simp: x\<close>)
    have d1: "distinct (map fst xs)" "e \<notin> fst ` set xs" using Cons.prems(3,4) by simp_all
    obtain evs' ys zs w where ih: "march e ?evs b (ev_next (evs b)) =
        Some (evs', if ys = [] then b else fst (last ys), if zs = [] then 0 else fst (hd zs))"
      "dq_insert e (?v - d) xs = ys @ (e, w) # zs" "map fst xs = map fst (ys @ zs)" "holds evs' (ys @ (e, w) # zs)"
      "links evs' = links ?evs" "\<forall>x. evs' x = (?evs x)\<lparr>it_value := it_value (evs' x)\<rparr>"
      "\<forall>x. x \<notin> insert e (fst ` set xs) \<longrightarrow> evs' x = ?evs x"
      using Cons.IH [OF c1 h1 d1 v(2) Cons.prems(6), of b, unfolded v(1)] by blast
    have "evs' b = evs b" using ih(7) b(4,5) by simp
    then have "holds evs' (((b, d) # ys) @ (e, w) # zs)" using ih(4) hb by (simp add: holds_def)
    moreover have "evs' y = (evs y)\<lparr>it_value := it_value (evs' y)\<rparr>" for y using ih(6) [rule_format, of y] by (cases "y = e") auto
    moreover have "march e evs prev a = Some (evs', if (b, d) # ys = [] then prev else fst (last ((b, d) # ys)),
        if zs = [] then 0 else fst (hd zs))" unfolding m ih(1) by simp
    moreover have "dq_insert e ?v (x # xs) = ((b, d) # ys) @ (e, w) # zs" using False ih(2) by (simp add: x)
    moreover have "map fst (x # xs) = map fst (((b, d) # ys) @ zs)" using ih(3) by (simp add: x)
    moreover have "links evs' = links evs" using ih(5) unfolding l .
    moreover have "\<forall>y. y \<notin> insert e (fst ` set (x # xs)) \<longrightarrow> evs' y = evs y" using ih(7) by (simp add: x)
    ultimately show ?thesis
      by - (rule exI [of _ evs'], rule exI [of _ "(b, d) # ys"], rule exI [of _ zs], rule exI [of _ w], blast)
  qed
qed

lemma enqueue_law:
  assumes q: "queued st xs" and e: "e \<notin> fst ` set xs" "e \<noteq> 0" "normal (it_value (ev st e))"
  shows "\<exists>st'. enqueue_event e st = Some st' \<and> queued st' (dq_insert e (us (it_value (ev st e))) xs) \<and>
    (\<forall>x. ev st' x = (ev st x)\<lparr>it_value := it_value (ev st' x), ev_next := ev_next (ev st' x)\<rparr>) \<and>
    (\<forall>x. x \<notin> insert e (fst ` set xs) \<longrightarrow> ev st' x = ev st x) \<and>
    st' = st\<lparr>ev := ev st', event_queue := event_queue st'\<rparr>"
proof -
  have q': "chain (links (ev st)) (event_queue st) (map fst xs)" "distinct (map fst xs)" "holds (ev st) xs"
    using q by (simp_all add: queued_def)
  obtain evs' ys zs v where m: "march e (ev st) 0 (event_queue st) =
      Some (evs', if ys = [] then 0 else fst (last ys), if zs = [] then 0 else fst (hd zs))"
    "dq_insert e (us (it_value (ev st e))) xs = ys @ (e, v) # zs" "map fst xs = map fst (ys @ zs)" "holds evs' (ys @ (e, v) # zs)"
    "links evs' = links (ev st)" "\<forall>x. evs' x = (ev st x)\<lparr>it_value := it_value (evs' x)\<rparr>"
    "\<forall>x. x \<notin> insert e (fst ` set xs) \<longrightarrow> evs' x = ev st x"
    using march_law [OF q'(1,3,2) e(1,3,2), of 0] by blast
  let ?prev = "if ys = [] then 0 else fst (last ys)" and ?a = "if zs = [] then 0 else fst (hd zs)"
  let ?st1 = "upd_ev (st\<lparr>ev := evs'\<rparr>) e (\<lambda>x. x\<lparr>ev_next := ?a\<rparr>)"
  let ?st' = "set_link ?prev e ?st1"
  define st2 where "st2 = ?st'"
  have s: "enqueue_event e st = Some st2" by (simp add: enqueue_event_def m(1) st2_def)
  have sets: "fst ` set xs = fst ` set ys \<union> fst ` set zs" using arg_cong [OF m(3), of set] by (simp only: set_map set_append image_Un)
  have c: "chain (links (ev st)) (event_queue st) (map fst ys @ map fst zs)" "distinct (map fst ys @ map fst zs)"
    "e \<notin> set (map fst ys @ map fst zs)" using q'(1,2) e(1) m(3) sets by auto
  have ly: "?prev = last (map fst ys)" "?prev \<noteq> 0" "?prev \<noteq> e" if "ys \<noteq> []"
    using that chain_nonzero [OF c(1)] c(3) last_in_set [OF that] by (auto simp: last_map image_iff)
  have hz: "?a = (if map fst zs = [] then 0 else hd (map fst zs))" by (simp add: hd_map)
  have lk: "links (ev st2) = (if map fst ys = [] then (links (ev st))(e := if map fst zs = [] then 0 else hd (map fst zs))
      else (links (ev st))(e := if map fst zs = [] then 0 else hd (map fst zs), last (map fst ys) := e))"
    unfolding hz [symmetric] using ly m(5) by (auto simp: st2_def set_link_def upd_ev_def fun_eq_iff)
  have hq: "event_queue st2 = (if map fst ys = [] then e else event_queue st)" using ly by (auto simp: st2_def set_link_def upd_ev_def)
  have "chain (links (ev st2)) (event_queue st2) (map fst (ys @ (e, v) # zs))"
    using chain_insert [OF c e(2)] unfolding lk hq by simp
  moreover have "holds (ev st2) (ys @ (e, v) # zs)"
    by (rule holds_cong [OF m(4)]) (auto simp: st2_def set_link_def upd_ev_def)
  moreover have "distinct (map fst (ys @ (e, v) # zs))" using c by auto
  ultimately have "queued st2 (ys @ (e, v) # zs)" by (simp add: queued_def)
  moreover have "ev st2 x = (ev st x)\<lparr>it_value := it_value (ev st2 x), ev_next := ev_next (ev st2 x)\<rparr>" for x
  proof -
    have 1: "ev st2 x = (evs' x)\<lparr>ev_next := ev_next (ev st2 x)\<rparr>" "it_value (ev st2 x) = it_value (evs' x)"
      by (auto simp: st2_def set_link_def upd_ev_def)
    have "ev st2 x = ((ev st x)\<lparr>it_value := it_value (evs' x)\<rparr>)\<lparr>ev_next := ev_next (ev st2 x)\<rparr>" using 1(1) m(6) by metis
    then show ?thesis by (simp only: 1(2))
  qed
  moreover have "ev st2 x = ev st x" if "x \<notin> insert e (fst ` set xs)" for x
  proof -
    have "x \<noteq> ?prev" if "ys \<noteq> []"
    proof -
      have "fst (last ys) \<in> fst ` set ys" using that by simp
      then show ?thesis using that \<open>x \<notin> insert e (fst ` set xs)\<close> unfolding sets by auto
    qed
    moreover have "evs' x = ev st x" "x \<noteq> e" using that m(7) by auto
    ultimately show ?thesis by (simp add: st2_def set_link_def upd_ev_def)
  qed
  moreover have "st2 = st\<lparr>ev := ev st2, event_queue := event_queue st2\<rparr>" by (simp add: st2_def set_link_def upd_ev_def)
  ultimately show ?thesis using s unfolding m(2) by blast
qed

end
