(* ===== verification/Timer_Ops_Laws.thy ===== *)
theory Timer_Ops_Laws
  imports User_Timer_Laws
begin

text \<open>
  What setting and cancelling a timer and the alarm do to the times the pending timers are due.
\<close>

section \<open>The pending timers\<close>

text \<open>The head is due when the interval timer runs out, each other timer its delay after the one before it.\<close>

definition pending :: "utimers \<Rightarrow> (addr \<times> int) list \<Rightarrow> bool" where
  "pending st xs \<longleftrightarrow> queued st xs \<and>
     (xs \<noteq> [] \<longrightarrow> normal (itimer st) \<and> timerisset (itimer st) \<and> us (itimer st) \<le> snd (hd xs))"

definition due :: "utimers \<Rightarrow> (addr \<times> int) list \<Rightarrow> addr \<rightharpoonup> int" where
  "due st xs = map_of (dues (us (itimer st) - snd (hd xs)) xs)"

definition sync :: "int \<Rightarrow> (addr \<times> int) list \<Rightarrow> (addr \<times> int) list" where
  "sync r xs = (case xs of [] \<Rightarrow> [] | (a, d) # ys \<Rightarrow> (a, r) # ys)"

lemma sync_simps [simp]: "map fst (sync r xs) = map fst xs" "fst ` set (sync r xs) = fst ` set xs" "sync r xs = [] \<longleftrightarrow> xs = []"
  by (cases xs; cases "hd xs"; simp add: sync_def)+

lemma length_sync [simp]: "length (sync r xs) = length xs"
  by (cases xs) (auto simp: sync_def)

lemma dues_sync: "map_of (dues 0 (sync (us (itimer st)) xs)) = due st xs"
  by (cases xs) (auto simp: due_def sync_def)

lemma due_hd: "snd (hd xs) = us (itimer st) \<Longrightarrow> due st xs = map_of (dues 0 xs)"
  by (simp add: due_def)

lemma queued_same: "ev st' = ev st \<Longrightarrow> event_queue st' = event_queue st \<Longrightarrow> queued st' xs = queued st xs"
  by (simp add: queued_def)

lemma queued_fields [simp]:
  "queued (block_timer st) xs = queued st xs" "queued (unblock_timer st) xs = queued st xs"
  "queued (setitimer v st) xs = queued st xs" "queued (st\<lparr>event_freelist := a\<rparr>) xs = queued st xs"
  by (auto simp: queued_def block_timer_def unblock_timer_def setitimer_def)

lemma queued_upd_other: "e \<notin> fst ` set xs \<Longrightarrow> queued st xs \<Longrightarrow> queued (upd_ev st e f) xs"
proof -
  assume e: "e \<notin> fst ` set xs" and q: "queued st xs"
  have "chain (links (ev (upd_ev st e f))) (event_queue st) (map fst xs)"
    by (rule chain_cong [of "links (ev st)"]) (use e q in \<open>auto simp: queued_def upd_ev_def\<close>)
  moreover have "holds (ev (upd_ev st e f)) xs"
    by (rule holds_cong [of "ev st"]) (use e q in \<open>auto simp: queued_def upd_ev_def\<close>)
  ultimately show ?thesis using q by (simp add: queued_def upd_ev_def)
qed

lemma queued_upd_keep:
  "queued st xs \<Longrightarrow> ev_next (f (ev st e)) = ev_next (ev st e) \<Longrightarrow> it_value (f (ev st e)) = it_value (ev st e) \<Longrightarrow>
   queued (upd_ev st e f) xs"
proof -
  assume q: "queued st xs" and f: "ev_next (f (ev st e)) = ev_next (ev st e)" "it_value (f (ev st e)) = it_value (ev st e)"
  have "links (ev (upd_ev st e f)) = links (ev st)" using f by (auto simp: upd_ev_def)
  moreover have "holds (ev (upd_ev st e f)) xs"
    by (rule holds_cong [of "ev st"]) (use f q in \<open>auto simp: queued_def upd_ev_def\<close>)
  ultimately show ?thesis using q by (simp add: queued_def upd_ev_def)
qed

lemma queued_head: "queued st xs \<Longrightarrow> event_queue st = (if xs = [] then 0 else fst (hd xs))"
  using chain_head [of "links (ev st)" "event_queue st" "map fst xs"] by (auto simp: queued_def hd_map)

lemma queued_nonzero: "queued st xs \<Longrightarrow> 0 \<notin> fst ` set xs"
  using chain_nonzero [of "links (ev st)" "event_queue st" "map fst xs"] by (simp add: queued_def)

lemma check_event_queue_ok: "queued st xs \<Longrightarrow> int (length xs) \<le> g_maxevents st + 1 \<Longrightarrow> check_event_queue st"
  using check_queue_ok [of "ev st" "event_queue st" "map fst xs" 0 "g_maxevents st"]
  by (simp add: queued_def check_event_queue_def)

text \<open>Changing the value of the head.\<close>

lemma queued_head_value:
  assumes "queued st ((a, d) # ys)" "normal (it_value (f (ev st a)))" "ev_next (f (ev st a)) = ev_next (ev st a)"
  shows "queued (upd_ev st a f) ((a, us (it_value (f (ev st a)))) # ys)"
proof -
  have q: "a \<notin> fst ` set ys" "holds (ev st) ys" using assms(1) by (auto simp: queued_def holds_def)
  have "links (ev (upd_ev st a f)) = links (ev st)" using assms(3) by (auto simp: upd_ev_def)
  moreover have "holds (ev (upd_ev st a f)) ys" by (rule holds_cong [OF q(2)]) (use q(1) in \<open>auto simp: upd_ev_def\<close>)
  ultimately show ?thesis using assms(1,2) by (auto simp: queued_def upd_ev_def holds_def)
qed

text \<open>The fields an operation on the list leaves alone.\<close>

definition same_rest :: "utimers \<Rightarrow> utimers \<Rightarrow> bool" where
  "same_rest st st' \<longleftrightarrow> event_freelist st' = event_freelist st \<and> g_granularity st' = g_granularity st \<and>
     g_maxevents st' = g_maxevents st \<and> block_count st' = block_count st \<and>
     (\<forall>x. it_interval (ev st' x) = it_interval (ev st x) \<and> ev_func (ev st' x) = ev_func (ev st x) \<and>
          ev_arg (ev st' x) = ev_arg (ev st x) \<and> ev_flags (ev st' x) = ev_flags (ev st x))"

lemma same_rest_refl [simp]: "same_rest st st"
  by (simp add: same_rest_def)

lemma same_rest_trans: "same_rest a b \<Longrightarrow> same_rest b c \<Longrightarrow> same_rest a c"
  by (simp add: same_rest_def)

lemma same_restI:
  assumes "\<forall>x. ev st' x = (ev st x)\<lparr>it_value := it_value (ev st' x), ev_next := ev_next (ev st' x)\<rparr>"
    "st' = st\<lparr>ev := ev st', event_queue := event_queue st'\<rparr>"
  shows "same_rest st st'" "itimer st' = itimer st" "alarm_blocked st' = alarm_blocked st"
proof -
  show "itimer st' = itimer st" "alarm_blocked st' = alarm_blocked st"
    using arg_cong [OF assms(2), of itimer] arg_cong [OF assms(2), of alarm_blocked] by simp_all
  have "it_interval (ev st' x) = it_interval (ev st x) \<and> ev_func (ev st' x) = ev_func (ev st x) \<and>
      ev_arg (ev st' x) = ev_arg (ev st x) \<and> ev_flags (ev st' x) = ev_flags (ev st x)" for x
    using arg_cong [OF assms(1) [rule_format, of x], of it_interval] arg_cong [OF assms(1) [rule_format, of x], of ev_func]
      arg_cong [OF assms(1) [rule_format, of x], of ev_arg] arg_cong [OF assms(1) [rule_format, of x], of ev_flags] by simp
  then show "same_rest st st'"
    using arg_cong [OF assms(2), of event_freelist] arg_cong [OF assms(2), of g_granularity]
      arg_cong [OF assms(2), of g_maxevents] arg_cong [OF assms(2), of block_count] by (simp add: same_rest_def)
qed

lemma sync_head_law:
  assumes "pending st xs"
  shows "queued (sync_head st) (sync (us (itimer st)) xs)" "same_rest st (sync_head st)" "itimer (sync_head st) = itimer st"
    "\<forall>x. x \<notin> fst ` set xs \<longrightarrow> ev (sync_head st) x = ev st x"
proof -
  have "queued (sync_head st) (sync (us (itimer st)) xs) \<and> same_rest st (sync_head st) \<and> itimer (sync_head st) = itimer st \<and>
    (\<forall>x. x \<notin> fst ` set xs \<longrightarrow> ev (sync_head st) x = ev st x)"
  proof (cases xs)
    case Nil
    then have "event_queue st = 0" using assms queued_head [of st xs] by (simp add: pending_def)
    then show ?thesis using assms Nil by (simp add: sync_head_def sync_def pending_def)
  next
    case (Cons x ys)
    obtain a d where x: "x = (a, d)" by (cases x)
    have q: "queued st ((a, d) # ys)" "normal (itimer st)" "timerisset (itimer st)" "us (itimer st) \<le> d"
      using assms by (simp_all add: pending_def Cons x)
    have a: "event_queue st = a" "a \<noteq> 0" using queued_head [OF q(1)] queued_nonzero [OF q(1)] by auto
    have "normal (it_value (ev st a))" "us (it_value (ev st a)) = d" using q(1) by (simp_all add: queued_def holds_def)
    then have "\<not> timercmp_less (it_value (ev st a)) (itimer st)" using timercmp_us q(2,4) by simp
    then have s: "sync_head st = upd_ev st a (\<lambda>x. x\<lparr>it_value := itimer st\<rparr>)" using q(3) a by (simp add: sync_head_def)
    have "queued (sync_head st) ((a, us (itimer st)) # ys)"
      using queued_head_value [OF q(1), of "\<lambda>x. x\<lparr>it_value := itimer st\<rparr>"] q(2) unfolding s by simp
    then show ?thesis unfolding s by (simp add: Cons x sync_def same_rest_def upd_ev_def)
  qed
  then show "queued (sync_head st) (sync (us (itimer st)) xs)" "same_rest st (sync_head st)" "itimer (sync_head st) = itimer st"
    "\<forall>x. x \<notin> fst ` set xs \<longrightarrow> ev (sync_head st) x = ev st x" by blast+
qed

lemma arm_head_law:
  assumes "queued st ((a, d) # ys)" "0 < g_granularity st" "round_ok (g_granularity st) (it_value (ev st a))"
  shows "\<exists>st'. arm_head st = Some st' \<and> queued st' ((a, us (timerroundup (g_granularity st) (it_value (ev st a)))) # ys) \<and>
    itimer st' = timerroundup (g_granularity st) (it_value (ev st a)) \<and> same_rest st st' \<and> alarm_blocked st' = alarm_blocked st \<and>
    (\<forall>x. ev_next (ev st' x) = ev_next (ev st x))"
proof -
  let ?r = "timerroundup (g_granularity st) (it_value (ev st a))"
  note r = timerroundup_law [OF assms(2,3)]
  have a: "event_queue st = a" using queued_head [OF assms(1)] by simp
  let ?st1 = "upd_ev st a (\<lambda>x. x\<lparr>it_value := timerroundup (g_granularity st) (it_value x)\<rparr>)"
  have v: "it_value (ev ?st1 a) = ?r" by (simp add: upd_ev_def)
  have "arm_head st = Some (setitimer ?r ?st1)" using r(4,5) unfolding arm_head_def Let_def a v by auto
  moreover have "queued ?st1 ((a, us ?r) # ys)"
    using queued_head_value [OF assms(1), of "\<lambda>x. x\<lparr>it_value := timerroundup (g_granularity st) (it_value x)\<rparr>"] r(1) by simp
  ultimately show ?thesis using r(1) by (auto simp: setitimer_def normal_def same_rest_def upd_ev_def queued_def)
qed

lemma dq_insert_hd: "hd (dq_insert e v xs) = (if xs = [] \<or> v < snd (hd xs) then (e, v) else hd xs)"
  by (cases xs; cases "hd xs") auto

lemma dq_insert_nonempty [simp]: "dq_insert e v xs \<noteq> []"
  using length_dq_insert [of e v xs] by (metis length_0_conv nat.distinct(1))

lemma sync_hd: "xs \<noteq> [] \<Longrightarrow> hd (sync r xs) = (fst (hd xs), r)"
  by (cases xs) (auto simp: sync_def)

section \<open>Setting a timer\<close>

lemma settime_law:
  fixes st e val
  defines "v \<equiv> TIMESPEC_TO_TIMEVAL (sp_value val)" and "g \<equiv> g_granularity st"
  assumes p: "pending st xs" and e: "e \<notin> fst ` set xs" "e \<noteq> 0" and g: "0 < g" "round_ok g v" "timerisset v"
    and n: "int (length xs) \<le> g_maxevents st"
  shows "\<exists>st' xs'. timer_settime st e val = Some (st', 0) \<and> pending st' xs' \<and>
    due st' xs' = (due st xs)(e \<mapsto> us (timerroundup g v)) \<and> map fst xs' = map fst (dq_insert e (us (timerroundup g v)) (sync (us (itimer st)) xs)) \<and>
    same_rest st (upd_ev st' e (\<lambda>x. x\<lparr>it_interval := it_interval (ev st e), ev_flags := ev_flags (ev st e)\<rparr>)) \<and>
    it_interval (ev st' e) = TIMESPEC_TO_TIMEVAL (sp_interval val) \<and>
    ev_flags (ev st' e) = ev_flags (ev st e) AND NOT TFLAG_CANCELLED \<and>
    (\<forall>x. x \<notin> insert e (fst ` set xs) \<longrightarrow> ev_next (ev st' x) = ev_next (ev st x))"
proof -
  let ?i = "TIMESPEC_TO_TIMEVAL (sp_interval val)" and ?r = "timerroundup g v" and ?xs = "sync (us (itimer st)) xs"
  note r = timerroundup_law [OF g(1,2)]
  define st1 where "st1 = upd_ev st e (\<lambda>x. x\<lparr>it_interval := ?i, it_value := v\<rparr>)"
  define st3 where "st3 = upd_ev (block_timer st1) e (\<lambda>x. x\<lparr>it_value := timerroundup (g_granularity (block_timer st1)) (it_value x)\<rparr>)"
  have e3: "ev st3 e = (ev st e)\<lparr>it_interval := ?i, it_value := ?r\<rparr>" "\<And>x. x \<noteq> e \<Longrightarrow> ev st3 x = ev st x"
    "itimer st3 = itimer st" "g_granularity st3 = g" "g_maxevents st3 = g_maxevents st" "event_freelist st3 = event_freelist st"
    "block_count st3 = block_count st + 1"
    by (simp_all add: st3_def st1_def upd_ev_def block_timer_def g_def)
  have "queued st3 xs" using p e(1) by (simp add: st3_def st1_def queued_upd_other pending_def)
  then have p3: "pending st3 xs" using p by (simp add: pending_def e3(3))
  note s = sync_head_law [OF p3, unfolded e3(3)]
  have es: "ev (sync_head st3) e = ev st3 e" using s(4) e(1) by blast
  obtain st4 where st4: "enqueue_event e (sync_head st3) = Some st4" "queued st4 (dq_insert e (us ?r) ?xs)"
    "\<forall>x. ev st4 x = (ev (sync_head st3) x)\<lparr>it_value := it_value (ev st4 x), ev_next := ev_next (ev st4 x)\<rparr>"
    "st4 = (sync_head st3)\<lparr>ev := ev st4, event_queue := event_queue st4\<rparr>"
    "\<forall>x. x \<notin> insert e (fst ` set ?xs) \<longrightarrow> ev st4 x = ev (sync_head st3) x"
    using enqueue_law [OF s(1), of e] e r(1) unfolding es e3(1) by auto
  note r4 = same_restI [OF st4(3,4)]
  let ?ys = "dq_insert e (us ?r) ?xs"
  have g4: "g_granularity st4 = g" "g_maxevents st4 = g_maxevents st" using r4(1) s(2) e3 by (simp_all add: same_rest_def)
  have "length ?ys = Suc (length xs)" using sync_simps(1) [of "us (itimer st)" xs] by (metis length_dq_insert length_map)
  then have ck: "check_event_queue st4" using check_event_queue_ok [OF st4(2)] n unfolding g4(2) by simp
  have "\<exists>st5. (if e = event_queue st4 then arm_head st4 else Some st4) = Some st5 \<and> queued st5 ?ys \<and> normal (itimer st5) \<and>
    timerisset (itimer st5) \<and> us (itimer st5) = snd (hd ?ys) \<and> same_rest st4 st5 \<and>
    (\<forall>x. ev_next (ev st5 x) = ev_next (ev st4 x))"
  proof (cases "e = event_queue st4")
    case True
    then have h: "fst (hd ?ys) = e" using queued_head [OF st4(2)] by simp
    have "\<not> (?xs \<noteq> [] \<and> \<not> us ?r < snd (hd ?xs))"
    proof
      assume "?xs \<noteq> [] \<and> \<not> us ?r < snd (hd ?xs)"
      then have "hd ?xs \<in> set ?xs" "fst (hd ?xs) = e" using h dq_insert_hd [of e "us ?r" ?xs] by auto
      then have "e \<in> fst ` set ?xs" by (metis image_eqI)
      then show False using e(1) by simp
    qed
    then have hy: "?ys = (e, us ?r) # tl ?ys" using dq_insert_hd [of e "us ?r" ?xs] dq_insert_nonempty [of e "us ?r" ?xs]
      by (metis list.collapse)
    have q: "queued st4 ((e, us ?r) # tl ?ys)" unfolding hy [symmetric] by (rule st4(2))
    then have "normal (it_value (ev st4 e))" "us (it_value (ev st4 e)) = us ?r" by (simp_all add: queued_def holds_def)
    then have v: "it_value (ev st4 e) = ?r" using us_inject r(1) by blast
    obtain st5 where "arm_head st4 = Some st5" "queued st5 ((e, us ?r) # tl ?ys)" "itimer st5 = ?r" "same_rest st4 st5"
        "\<forall>x. ev_next (ev st5 x) = ev_next (ev st4 x)"
      using arm_head_law [OF q] r(6,7) g(1) unfolding g4(1) v by metis
    moreover have "snd (hd ?ys) = us ?r" by (subst hy) simp
    moreover have "queued st5 ?ys" by (subst hy) fact
    ultimately show ?thesis using True r(1,4) by auto
  next
    case False
    then have h: "fst (hd ?ys) \<noteq> e" using queued_head [OF st4(2)] by simp
    then have "?xs \<noteq> []" "hd ?ys = hd ?xs" unfolding dq_insert_hd by (auto split: if_splits)
    then show ?thesis using False st4(2) r4(2) s(3) p sync_hd [of xs "us (itimer st)"] by (simp add: pending_def)
  qed
  then obtain st5 where st5: "(if e = event_queue st4 then arm_head st4 else Some st4) = Some st5" "queued st5 ?ys" "normal (itimer st5)"
    "timerisset (itimer st5)" "us (itimer st5) = snd (hd ?ys)" "same_rest st4 st5"
    "\<forall>x. ev_next (ev st5 x) = ev_next (ev st4 x)" by blast
  have rest: "same_rest st3 st5" using r4(1) st5(6) s(2) same_rest_trans by blast
  let ?st' = "unblock_timer (upd_ev st5 e (\<lambda>x. x\<lparr>ev_flags := ev_flags x AND NOT TFLAG_CANCELLED\<rparr>))"
  have f: "event_queue (sync_head st3) = event_queue (sync_head st3)" "ev st1 e = (ev st e)\<lparr>it_interval := ?i, it_value := v\<rparr>"
    by (simp_all add: st1_def upd_ev_def)
  have res: "timer_settime st e val = Some (?st', 0)"
    unfolding timer_settime_def Let_def st1_def [symmetric, unfolded v_def] st3_def [symmetric]
    using g(3) f(2) st4(1) ck st5(1) v_def by (simp add: upd_ev_def [of st])
  have "queued ?st' ?ys" using st5(2) by (simp add: queued_upd_keep)
  moreover have it: "itimer ?st' = itimer st5" by (simp add: unblock_timer_def upd_ev_def)
  ultimately have pend: "pending ?st' ?ys" using st5(3-5) by (simp add: pending_def)
  have "due ?st' ?ys = (due st xs)(e \<mapsto> us ?r)"
    using due_hd [of ?ys ?st'] st5(5) dues_insert [of e ?xs 0 "us ?r"] e(1) unfolding it dues_sync by simp
  moreover have "same_rest st (upd_ev ?st' e (\<lambda>x. x\<lparr>it_interval := it_interval (ev st e), ev_flags := ev_flags (ev st e)\<rparr>))"
    using rest e3 unfolding same_rest_def by (auto simp: upd_ev_def unblock_timer_def g_def)
  moreover have "it_interval (ev ?st' e) = ?i" "ev_flags (ev ?st' e) = ev_flags (ev st e) AND NOT TFLAG_CANCELLED"
    using rest e3 unfolding same_rest_def by (auto simp: upd_ev_def unblock_timer_def)
  moreover have "\<forall>x. x \<notin> insert e (fst ` set xs) \<longrightarrow> ev_next (ev ?st' x) = ev_next (ev st x)"
    using st5(7) st4(5) s(4) e3(2) by (simp add: unblock_timer_def upd_ev_def)
  ultimately show ?thesis using res pend
    by - (rule exI [of _ ?st'], rule exI [of _ ?ys], simp)
qed

end
