(* ===== verification/Timer_Cancel_Laws.thy ===== *)
theory Timer_Cancel_Laws
  imports Timer_Ops_Laws
begin

text \<open>
  Cancelling a timer, which takes it off the list and starts the interval timer anew for the head, and
  the free list the events come from.
\<close>

section \<open>Rounding in microseconds\<close>

definition tick :: "int \<Rightarrow> int \<Rightarrow> int" where
  "tick g d = (if d < 1000000 then ROUNDUP_us (max 1 d) g else d)"

definition tick_ok :: "int \<Rightarrow> int \<Rightarrow> bool" where
  "tick_ok g d \<longleftrightarrow> d \<ge> 1000000 \<or> ROUNDUP_us (max 1 d) g < 1000000"

lemma us_less_second: "normal t \<Longrightarrow> us t < 1000000 \<longleftrightarrow> tv_sec t = 0"
proof -
  assume n: "normal t"
  have "tv_sec t = 0" if "us t < 1000000" using that n unfolding us_def normal_def by linarith
  then show ?thesis using n by (auto simp: us_def normal_def)
qed

lemma round_ok_tick: "normal t \<Longrightarrow> round_ok g t \<longleftrightarrow> tick_ok g (us t)"
proof -
  assume n: "normal t"
  have "us t = tv_usec t" if "tv_sec t = 0" using that by (simp add: us_def)
  then show ?thesis using us_less_second [OF n] n unfolding round_ok_def tick_ok_def by auto
qed

lemma timerroundup_tick: "normal t \<Longrightarrow> us (timerroundup g t) = tick g (us t)"
proof -
  assume n: "normal t"
  show ?thesis
  proof (cases "tv_sec t = 0")
    case True
    then have "us t = tv_usec t" by (simp add: us_def)
    then show ?thesis using True us_less_second [OF n] n
      by (auto simp: timerroundup_def tick_def timerisset_def Let_def us_def normal_def max_def)
  next
    case False
    then show ?thesis using us_less_second [OF n] by (simp add: timerroundup_def tick_def timerisset_def Let_def)
  qed
qed

lemma tick_bounds: "0 < g \<Longrightarrow> 0 \<le> d \<Longrightarrow> d \<le> tick g d \<and> tick g d \<le> d + g \<and> 0 < tick g d"
  using ROUNDUP_us_bounds [of g "max 1 d"] by (auto simp: tick_def max_def)

section \<open>Taking a timer off\<close>

lemma find_link_law:
  "chain (links evs) a xs \<Longrightarrow> distinct xs \<Longrightarrow>
   find_link evs e prev a = Some (if e \<in> set xs then Some (last (prev # takeWhile (\<lambda>x. x \<noteq> e) xs)) else None)"
proof (induction xs arbitrary: prev a)
  case Nil
  then show ?case by (subst find_link.simps) simp
next
  case (Cons x xs)
  show ?case
  proof (cases "x = e")
    case True
    then show ?thesis using Cons.prems by (subst find_link.simps) simp
  next
    case False
    then have "find_link evs e prev a = find_link evs e x (links evs x)" using Cons.prems by (subst find_link.simps) simp
    then show ?thesis using Cons False by simp
  qed
qed

lemma unlink_law:
  assumes q: "queued st (ys @ (e, d) # zs)"
  defines "prev \<equiv> last (0 # map fst ys)"
  defines "st' \<equiv> upd_ev (set_link prev (ev_next (ev st e)) st) e (\<lambda>x. x\<lparr>ev_next := 0\<rparr>)"
  shows "queued st' (ys @ zs)" "same_rest st st'" "itimer st' = itimer st" "alarm_blocked st' = alarm_blocked st"
    "\<forall>x. it_value (ev st' x) = it_value (ev st x)"
proof -
  have q': "chain (links (ev st)) (event_queue st) (map fst ys @ e # map fst zs)" "distinct (map fst ys @ e # map fst zs)"
    "holds (ev st) (ys @ zs)" "0 \<notin> fst ` set ys" using q queued_nonzero [OF q] by (auto simp: queued_def holds_def)
  have p: "prev = (if ys = [] then 0 else last (map fst ys))" "ys \<noteq> [] \<Longrightarrow> prev \<noteq> 0 \<and> prev \<noteq> e"
    using q'(2,4) last_in_set [of "map fst ys"] by (auto simp: prev_def last_map image_iff)
  have lk: "links (ev st') = (if map fst ys = [] then (links (ev st))(e := 0)
      else (links (ev st))(last (map fst ys) := links (ev st) e, e := 0))"
    using p by (auto simp: st'_def set_link_def upd_ev_def fun_eq_iff)
  have hq: "event_queue st' = (if map fst ys = [] then links (ev st) e else event_queue st)"
    using p by (auto simp: st'_def set_link_def upd_ev_def)
  have "chain (links (ev st')) (event_queue st') (map fst ys @ map fst zs)"
    unfolding lk hq by (rule chain_remove [OF q'(1,2)])
  moreover show v: "\<forall>x. it_value (ev st' x) = it_value (ev st x)" by (simp add: st'_def set_link_def upd_ev_def)
  then have "holds (ev st') (ys @ zs)" using holds_cong [OF q'(3)] by blast
  ultimately show "queued st' (ys @ zs)" using q'(2) by (auto simp: queued_def)
  show "same_rest st st'" "itimer st' = itimer st" "alarm_blocked st' = alarm_blocked st"
    by (simp_all add: st'_def set_link_def upd_ev_def same_rest_def)
qed

text \<open>The list the interval timer is started for: the timer taken off, the head's delay restarted.\<close>

fun cancel_delays :: "addr \<Rightarrow> int \<Rightarrow> (addr \<times> int) list \<Rightarrow> (addr \<times> int) list" where
  "cancel_delays e left [] = []"
| "cancel_delays e left [(a, d)] = (if a = e then [] else [(a, d)])"
| "cancel_delays e left ((a, d) # (b, d') # zs) =
     (if a = e then (b, d' + (d - left)) # zs else (a, d) # filter (\<lambda>(x, _). x \<noteq> e) ((b, d') # zs))"

lemma filter_other: "e \<notin> fst ` set xs \<Longrightarrow> filter (\<lambda>(x, _). x \<noteq> e) xs = xs"
  by (induction xs) auto

lemma cancel_delays_later: "ys \<noteq> [] \<Longrightarrow> e \<notin> fst ` set (ys @ zs) \<Longrightarrow> cancel_delays e left (ys @ (e, d) # zs) = ys @ zs"
proof -
  assume "ys \<noteq> []" and e: "e \<notin> fst ` set (ys @ zs)"
  then obtain a d0 ys' where ys: "ys = (a, d0) # ys'" by (cases ys) auto
  have "cancel_delays e left (ys @ (e, d) # zs) = (a, d0) # filter (\<lambda>(x, _). x \<noteq> e) (ys' @ (e, d) # zs)"
    using e by (cases ys') (auto simp: ys)
  then show ?thesis using e filter_other [of e ys'] filter_other [of e zs] by (simp add: ys image_Un)
qed

lemma queued_value:
  assumes q: "queued st (ys @ (a, d) # zs)" and f: "normal (it_value (f (ev st a)))" "ev_next (f (ev st a)) = ev_next (ev st a)"
  shows "queued (upd_ev st a f) (ys @ (a, us (it_value (f (ev st a)))) # zs)"
proof -
  have n: "a \<notin> fst ` set (ys @ zs)" "holds (ev st) (ys @ zs)" using q by (auto simp: queued_def holds_def)
  have "links (ev (upd_ev st a f)) = links (ev st)" using f(2) by (auto simp: upd_ev_def)
  moreover have "holds (ev (upd_ev st a f)) (ys @ zs)" by (rule holds_cong [OF n(2)]) (use n(1) in \<open>auto simp: upd_ev_def\<close>)
  ultimately show ?thesis using q f(1) by (auto simp: queued_def upd_ev_def holds_def)
qed

text \<open>The head's share given to the timer after it: what has run of it, not what is left.\<close>

lemma give_share:
  fixes st e
  defines "b \<equiv> ev_next (ev st e)"
  defines "s1 \<equiv> upd_ev st e (\<lambda>x. x\<lparr>it_value := timersub (it_value x) (itimer st)\<rparr>)"
  defines "s2 \<equiv> upd_ev s1 b (\<lambda>x. x\<lparr>it_value := timeradd (it_value x) (it_value (ev s1 e))\<rparr>)"
  assumes q: "queued st ((e, d) # (b', d') # zs)" and i: "normal (itimer st)" "us (itimer st) \<le> d"
  shows "b' = b" "queued s2 ((e, d - us (itimer st)) # (b, d' + (d - us (itimer st))) # zs)" "same_rest st s2" "itimer s2 = itimer st"
    "alarm_blocked s2 = alarm_blocked st"
proof -
  show b: "b' = b" using q by (simp add: queued_def b_def)
  have v: "normal (it_value (ev st e))" "us (it_value (ev st e)) = d" "normal (it_value (ev st b))" "us (it_value (ev st b)) = d'" "b \<noteq> e"
    using q b by (auto simp: queued_def holds_def)
  have q1: "queued s1 ((e, d - us (itimer st)) # (b, d') # zs)"
    using queued_value [of st "[]" e d "(b, d') # zs" "\<lambda>x. x\<lparr>it_value := timersub (it_value x) (itimer st)\<rparr>"] q
      timersub_us [OF v(1) i(1)] i(2) v(2) unfolding b s1_def by simp
  have w: "it_value (ev s1 b) = it_value (ev st b)" "normal (it_value (ev s1 e))" "us (it_value (ev s1 e)) = d - us (itimer st)"
  proof -
    show "it_value (ev s1 b) = it_value (ev st b)" using v(5) by (simp add: s1_def upd_ev_def)
    have "holds (ev s1) ((e, d - us (itimer st)) # (b, d') # zs)" using q1 unfolding queued_def by blast
    then show "normal (it_value (ev s1 e))" "us (it_value (ev s1 e)) = d - us (itimer st)" unfolding holds_def by simp_all
  qed
  show "queued s2 ((e, d - us (itimer st)) # (b, d' + (d - us (itimer st))) # zs)"
    using queued_value [of s1 "[(e, d - us (itimer st))]" b d' zs "\<lambda>x. x\<lparr>it_value := timeradd (it_value x) (it_value (ev s1 e))\<rparr>"] q1
      timeradd_us [OF v(3) w(2)] w v(4) unfolding s2_def by simp
  show "same_rest st s2" "itimer s2 = itimer st" "alarm_blocked s2 = alarm_blocked st"
    by (simp_all add: s2_def s1_def upd_ev_def same_rest_def)
qed

lemma cancel_linked_law:
  assumes p: "pending st (ys @ (e, d) # zs)" and g: "0 < g_granularity st"
  defines "rs \<equiv> cancel_delays e (us (itimer st)) (ys @ (e, d) # zs)"
  assumes t: "rs \<noteq> [] \<Longrightarrow> tick_ok (g_granularity st) (snd (hd rs))"
  shows "\<exists>st'. cancel_linked e (last (0 # map fst ys)) st = Some st' \<and>
    pending st' (sync (tick (g_granularity st) (snd (hd rs))) rs) \<and>
    us (itimer st') = (if rs = [] then 0 else tick (g_granularity st) (snd (hd rs))) \<and> same_rest st st' \<and>
    (\<forall>x. x \<notin> insert e (fst ` set ys) \<longrightarrow> ev_next (ev st' x) = ev_next (ev st x))"
proof -
  have q: "queued st (ys @ (e, d) # zs)" and i: "normal (itimer st)" "us (itimer st) \<le> snd (hd (ys @ (e, d) # zs))"
    using p by (simp_all add: pending_def)
  have d: "distinct (map fst (ys @ (e, d) # zs))" using q by (simp add: queued_def)
  have e0: "e \<noteq> 0" using queued_nonzero [OF q] by simp
  have hd: "e = event_queue st \<longleftrightarrow> ys = []" using queued_head [OF q] d by (cases ys) auto
  define nxt where "nxt = ev_next (ev st e)"
  have "chain (links (ev st)) nxt (map fst zs)"
    using q chain_tail [of "links (ev st)" "event_queue st" "map fst ys" e "map fst zs"] unfolding queued_def nxt_def by simp
  then have nx: "nxt = 0 \<longleftrightarrow> zs = []" using chain_nil by fastforce
  define st1 where "st1 = (if e = event_queue st \<and> nxt \<noteq> 0 then
       let s = upd_ev st e (\<lambda>x. x\<lparr>it_value := timersub (it_value x) (itimer st)\<rparr>)
       in upd_ev s nxt (\<lambda>x. x\<lparr>it_value := timeradd (it_value x) (it_value (ev s e))\<rparr>) else st)"
  have "\<exists>d1 zs1. queued st1 (ys @ (e, d1) # zs1) \<and> ys @ zs1 = rs \<and> same_rest st st1 \<and> ev_next (ev st1 e) = nxt"
  proof (cases "ys = [] \<and> zs \<noteq> []")
    case True
    then obtain b d' zs' where zs: "ys = []" "zs = (b, d') # zs'" by (cases zs) auto
    have q2: "queued st ((e, d) # (b, d') # zs')" "us (itimer st) \<le> d" using q i(2) zs by simp_all
    have "st1 = upd_ev (upd_ev st e (\<lambda>x. x\<lparr>it_value := timersub (it_value x) (itimer st)\<rparr>)) nxt
       (\<lambda>x. x\<lparr>it_value := timeradd (it_value x) (it_value (ev (upd_ev st e (\<lambda>x. x\<lparr>it_value := timersub (it_value x) (itimer st)\<rparr>)) e))\<rparr>)"
      using hd nx zs by (simp add: st1_def Let_def)
    then have s: "queued st1 ((e, d - us (itimer st)) # (nxt, d' + (d - us (itimer st))) # zs')" "same_rest st st1"
      using give_share(2,3) [OF q2(1) i(1) q2(2)] by (simp_all add: nxt_def)
    have b: "b = nxt" using give_share(1) [OF q2(1) i(1) q2(2)] by (simp add: nxt_def)
    then have "ev_next (ev st1 e) = nxt" using s(1) by (simp add: queued_def)
    moreover have "rs = (nxt, d' + (d - us (itimer st))) # zs'" by (simp add: rs_def zs b)
    ultimately show ?thesis using s zs(1) by auto
  next
    case False
    then have "st1 = st" using hd nx by (auto simp: st1_def)
    moreover have "rs = ys @ zs" using False d cancel_delays_later [of ys e zs] by (cases "ys = []") (auto simp: rs_def)
    ultimately show ?thesis using q by (auto simp: nxt_def)
  qed
  then obtain d1 zs1 where s1: "queued st1 (ys @ (e, d1) # zs1)" "rs = ys @ zs1" "same_rest st st1" "ev_next (ev st1 e) = nxt" by blast
  define st3 where "st3 = upd_ev (set_link (last (0 # map fst ys)) nxt st1) e (\<lambda>x. x\<lparr>ev_next := 0\<rparr>)"
  have s3: "queued st3 rs" "same_rest st st3" using unlink_law(1,2) [OF s1(1)] s1(2-4) same_rest_trans
    unfolding st3_def by (simp, blast)
  have "\<forall>x. ev_next (ev st1 x) = ev_next (ev st x)" by (simp add: st1_def upd_ev_def Let_def)
  moreover have "last (0 # map fst ys) = 0 \<or> last (0 # map fst ys) \<in> fst ` set ys" 
    using last_in_set [of "map fst ys"] by (cases "ys = []") auto
  moreover have same_links: "ev_next (ev st3 x) = ev_next (ev st1 x)" if "x \<noteq> e" "last (0 # map fst ys) = 0 \<or> x \<noteq> last (0 # map fst ys)" for x
    using that by (auto simp: st3_def set_link_def upd_ev_def)
  ultimately have fr: "\<forall>x. x \<notin> insert e (fst ` set ys) \<longrightarrow> ev_next (ev st3 x) = ev_next (ev st x)"
    by (metis (no_types, lifting) insertCI same_links)
  have g3: "g_granularity st3 = g_granularity st" using s3(2) by (simp add: same_rest_def)
  have c: "cancel_linked e (last (0 # map fst ys)) st = (if event_queue st3 \<noteq> 0 then arm_head st3 else Some (setitimer tv_zero st3))"
    unfolding cancel_linked_def st1_def st3_def nxt_def Let_def by simp
  show ?thesis
  proof (cases rs)
    case Nil
    then have "event_queue st3 = 0" using queued_head [OF s3(1)] by simp
    then show ?thesis using c s3 fr Nil by (auto simp: setitimer_def tv_zero_def pending_def queued_def sync_def us_def same_rest_def)
  next
    case (Cons x rs')
    obtain a da where x: "x = (a, da)" by (cases x)
    have q3: "queued st3 ((a, da) # rs')" using s3(1) by (simp add: Cons x)
    have v: "normal (it_value (ev st3 a))" "us (it_value (ev st3 a)) = da" using q3 by (simp_all add: queued_def holds_def)
    have ok: "round_ok (g_granularity st3) (it_value (ev st3 a))" using t round_ok_tick [OF v(1)] v(2) g3 by (simp add: Cons x)
    note r = timerroundup_law [OF g ok [unfolded g3]] timerroundup_tick [OF v(1), of "g_granularity st", unfolded v(2)]
    obtain st' where st': "arm_head st3 = Some st'" "queued st' ((a, tick (g_granularity st) da) # rs')"
      "itimer st' = timerroundup (g_granularity st) (it_value (ev st3 a))" "same_rest st3 st'"
      "\<forall>x. ev_next (ev st' x) = ev_next (ev st3 x)"
      using arm_head_law [OF q3 _ ok] g unfolding g3 r(8) by blast
    have "event_queue st3 \<noteq> 0" using queued_head [OF q3] queued_nonzero [OF q3] by simp
    then show ?thesis using c fr st' r(1,4,8) same_rest_trans [OF s3(2) st'(4)] by (auto simp: pending_def sync_def Cons x)
  qed
qed

lemma timer_cancel_law:
  assumes p: "pending st xs" and e: "e \<in> fst ` set xs" "ev_flags (ev st e) AND TFLAG_CANCELLED = 0" and g: "0 < g_granularity st"
  defines "rs \<equiv> cancel_delays e (us (itimer st)) xs"
  assumes t: "rs \<noteq> [] \<Longrightarrow> tick_ok (g_granularity st) (snd (hd rs))"
  shows "\<exists>st'. timer_cancel st e = Some st' \<and> pending st' (sync (tick (g_granularity st) (snd (hd rs))) rs) \<and>
    us (itimer st') = (if rs = [] then 0 else tick (g_granularity st) (snd (hd rs))) \<and>
    same_rest st (upd_ev st' e (\<lambda>x. x\<lparr>ev_flags := ev_flags (ev st e)\<rparr>)) \<and>
    ev_flags (ev st' e) = ev_flags (ev st e) OR TFLAG_CANCELLED \<and>
    (\<forall>x. x \<notin> fst ` set xs \<longrightarrow> ev_next (ev st' x) = ev_next (ev st x))"
proof -
  obtain ys d zs where xs: "xs = ys @ (e, d) # zs" using e(1) by (auto simp: in_set_conv_decomp)
  let ?st1 = "block_timer st"
  have p1: "pending ?st1 (ys @ (e, d) # zs)" using p by (simp add: pending_def xs block_timer_def) (simp add: queued_def)
  have f1: "g_granularity ?st1 = g_granularity st" "itimer ?st1 = itimer st" "ev ?st1 = ev st" by (simp_all add: block_timer_def)
  obtain st2 where st2: "cancel_linked e (last (0 # map fst ys)) ?st1 = Some st2" "pending st2 (sync (tick (g_granularity st) (snd (hd rs))) rs)"
    "us (itimer st2) = (if rs = [] then 0 else tick (g_granularity st) (snd (hd rs)))" "same_rest ?st1 st2"
    "\<forall>x. x \<notin> insert e (fst ` set ys) \<longrightarrow> ev_next (ev st2 x) = ev_next (ev ?st1 x)"
    using cancel_linked_law [OF p1] g t unfolding f1 rs_def xs by blast
  have q: "chain (links (ev ?st1)) (event_queue ?st1) (map fst xs)" "distinct (map fst xs)"
    using p1 unfolding pending_def queued_def xs by blast+
  have "takeWhile (\<lambda>x. x \<noteq> e) (map fst xs) = map fst ys"
    using q(2) unfolding xs by (subst map_append, subst takeWhile_append2) auto
  then have fl: "find_link (ev ?st1) e 0 (event_queue ?st1) = Some (Some (last (0 # map fst ys)))"
    using find_link_law [OF q, of e 0] e(1) by simp
  let ?st' = "unblock_timer (upd_ev st2 e (\<lambda>x. x\<lparr>ev_flags := ev_flags x OR TFLAG_CANCELLED\<rparr>))"
  have "timer_cancel st e = Some ?st'" using e(2) fl st2(1) by (simp add: timer_cancel_def Let_def)
  moreover have "pending ?st' (sync (tick (g_granularity st) (snd (hd rs))) rs)"
    using st2(2) queued_upd_keep [of st2 "sync (tick (g_granularity st) (snd (hd rs))) rs" "\<lambda>x. x\<lparr>ev_flags := ev_flags x OR TFLAG_CANCELLED\<rparr>" e]
    by (simp add: pending_def) (simp add: unblock_timer_def upd_ev_def)
  moreover have "itimer ?st' = itimer st2" "ev_flags (ev ?st' e) = ev_flags (ev st e) OR TFLAG_CANCELLED"
    using st2(4) f1(3) by (simp_all add: unblock_timer_def upd_ev_def same_rest_def)
  moreover have "same_rest st (upd_ev ?st' e (\<lambda>x. x\<lparr>ev_flags := ev_flags (ev st e)\<rparr>))"
    using st2(4) by (auto simp: same_rest_def unblock_timer_def upd_ev_def block_timer_def)
  moreover have "\<forall>x. x \<notin> fst ` set xs \<longrightarrow> ev_next (ev ?st' x) = ev_next (ev st x)"
    using st2(5) by (auto simp: unblock_timer_def upd_ev_def block_timer_def xs)
  ultimately show ?thesis using st2(3) by simp
qed

section \<open>The free list\<close>

text \<open>The events are on the free list, pending, or with their owner.\<close>

definition free_list :: "utimers \<Rightarrow> addr list \<Rightarrow> bool" where
  "free_list st fs \<longleftrightarrow> chain (links (ev st)) (event_freelist st) fs \<and> distinct fs"

lemma init_free_list:
  assumes "0 < n" "base \<noteq> 0"
  shows "\<exists>st'. init_event_queue n base jiffy st = Some st' \<and> free_list st' [base..<base + nat n] \<and>
    g_maxevents st' = n \<and> g_granularity st' = jiffy \<and> event_queue st' = event_queue st"
proof -
  let ?L = "\<lambda>a. if base \<le> a \<and> a < base + nat n then if a + 1 < base + nat n then a + 1 else 0 else ev_next (ev st a)"
  have "chain ?L (if a < base + nat n then a else 0) [a..<base + nat n]" if "base \<le> a" "a \<le> base + nat n" for a
    using that(2,1)
  proof (induction a rule: inc_induct)
    case base
    then show ?case by simp
  next
    case (step m)
    have "chain ?L (?L m) [Suc m..<base + nat n]" using step by (auto simp: Suc_le_eq)
    then show ?case using step assms(2) by (subst upt_conv_Cons) auto
  qed
  from this [of base] have c: "chain ?L base [base..<base + nat n]" using assms(1) by simp
  let ?st' = "st\<lparr>g_maxevents := n, event_freelist := base,
        ev := (\<lambda>a. if base \<le> a \<and> a < base + nat n
                   then event0\<lparr>ev_next := (if a + 1 < base + nat n then a + 1 else 0)\<rparr> else ev st a),
        itimer := tv_zero, g_granularity := jiffy\<rparr>"
  have "links (ev ?st') = ?L" by (auto simp: fun_eq_iff)
  then have "free_list ?st' [base..<base + nat n]" using c by (simp add: free_list_def)
  moreover have "init_event_queue n base jiffy st = Some ?st'" using assms by (simp add: init_event_queue_def)
  ultimately show ?thesis by simp
qed

text \<open>
  \<open>xs\<close> are the pending timers and \<open>fs\<close> the free events; an event is not in both, and there are no more
  of them than were allocated, so the check of the list never ends the process.
\<close>

definition pool :: "utimers \<Rightarrow> (addr \<times> int) list \<Rightarrow> addr list \<Rightarrow> bool" where
  "pool st xs fs \<longleftrightarrow> pending st xs \<and> free_list st fs \<and> set fs \<inter> fst ` set xs = {} \<and>
     int (length xs + length fs) \<le> g_maxevents st"

lemma free_list_keep:
  "free_list st fs \<Longrightarrow> event_freelist st' = event_freelist st \<Longrightarrow> \<forall>x\<in>set fs. ev_next (ev st' x) = ev_next (ev st x) \<Longrightarrow> free_list st' fs"
  using chain_cong [of "links (ev st)" "event_freelist st" fs "links (ev st')"] by (simp add: free_list_def)

lemma pending_upd_keep:
  "pending st xs \<Longrightarrow> ev_next (f (ev st e)) = ev_next (ev st e) \<Longrightarrow> it_value (f (ev st e)) = it_value (ev st e) \<Longrightarrow> pending (upd_ev st e f) xs"
  using queued_upd_keep [of st xs f e] by (simp add: pending_def) (simp add: upd_ev_def)

lemma pending_upd_other: "e \<notin> fst ` set xs \<Longrightarrow> pending st xs \<Longrightarrow> pending (upd_ev st e f) xs"
  using queued_upd_other [of e xs st f] by (simp add: pending_def) (simp add: upd_ev_def)

lemma create_law:
  assumes p: "pool st xs (e # fs)"
  shows "\<exists>st'. timer_create st CLOCK_REALTIME None = Some (st', e) \<and> pool st' xs fs \<and> ev_flags (ev st' e) = TFLAG_NONE \<and>
    due st' xs = due st xs \<and> g_maxevents st' = g_maxevents st \<and> g_granularity st' = g_granularity st"
proof -
  have f: "event_freelist st = e" "e \<noteq> 0" "e \<notin> set fs" "chain (links (ev st)) (ev_next (ev st e)) fs" "distinct fs" "e \<notin> fst ` set xs"
    using p by (auto simp: pool_def free_list_def)
  let ?st1 = "upd_ev st e (\<lambda>x. x\<lparr>ev_flags := TFLAG_NONE\<rparr>)"
  let ?st3 = "upd_ev (?st1\<lparr>event_freelist := ev_next (ev ?st1 e)\<rparr>) e (\<lambda>x. x\<lparr>ev_next := 0\<rparr>)"
  have "pending ?st1 xs" using p f(6) by (simp add: pool_def pending_upd_other)
  then have "pending (?st1\<lparr>event_freelist := ev_next (ev ?st1 e)\<rparr>) xs" by (simp add: pending_def)
  then have p3: "pending ?st3 xs" by (rule pending_upd_other [OF f(6)])
  moreover have "check_event_queue ?st3"
    using check_event_queue_ok [of ?st3 xs] p3 p by (simp add: pending_def pool_def) (simp add: upd_ev_def)
  moreover have "chain (links (ev ?st3)) (ev_next (ev st e)) fs" by (rule chain_cong [OF f(4)]) (use f(3) in \<open>auto simp: upd_ev_def\<close>)
  then have "free_list ?st3 fs" using f(5) by (simp add: free_list_def) (simp add: upd_ev_def)
  moreover have "due ?st3 xs = due st xs" "g_maxevents ?st3 = g_maxevents st" "g_granularity ?st3 = g_granularity st"
    "ev_flags (ev ?st3 e) = TFLAG_NONE" by (simp_all add: due_def upd_ev_def)
  ultimately show ?thesis using p f(1,2) by (simp add: timer_create_def Let_def pool_def)
qed

lemma settime_pool:
  assumes p: "pool st xs fs" and e: "e \<notin> fst ` set xs" "e \<noteq> 0" "e \<notin> set fs"
    and g: "0 < g_granularity st" "normal (TIMESPEC_TO_TIMEVAL (sp_value val))" "0 < us (TIMESPEC_TO_TIMEVAL (sp_value val))"
      "tick_ok (g_granularity st) (us (TIMESPEC_TO_TIMEVAL (sp_value val)))"
    and n: "int (Suc (length xs) + length fs) \<le> g_maxevents st"
  shows "\<exists>st' xs'. timer_settime st e val = Some (st', 0) \<and> pool st' xs' fs \<and>
    due st' xs' = (due st xs)(e \<mapsto> tick (g_granularity st) (us (TIMESPEC_TO_TIMEVAL (sp_value val)))) \<and>
    g_maxevents st' = g_maxevents st \<and> g_granularity st' = g_granularity st \<and> fst ` set xs' = insert e (fst ` set xs)"
proof -
  let ?v = "TIMESPEC_TO_TIMEVAL (sp_value val)" and ?g = "g_granularity st"
  have r: "round_ok ?g ?v" "timerisset ?v" "us (timerroundup ?g ?v) = tick ?g (us ?v)"
    using g round_ok_tick timerisset_us timerroundup_tick by auto
  obtain st' xs' where s: "timer_settime st e val = Some (st', 0)" "pending st' xs'" "due st' xs' = (due st xs)(e \<mapsto> tick ?g (us ?v))"
    "map fst xs' = map fst (dq_insert e (tick ?g (us ?v)) (sync (us (itimer st)) xs))"
    "same_rest st (upd_ev st' e (\<lambda>x. x\<lparr>it_interval := it_interval (ev st e), ev_flags := ev_flags (ev st e)\<rparr>))"
    "\<forall>x. x \<notin> insert e (fst ` set xs) \<longrightarrow> ev_next (ev st' x) = ev_next (ev st x)"
    using settime_law [of st xs e val] p e g(1) r n unfolding pool_def by auto
  have f: "event_freelist st' = event_freelist st" "g_maxevents st' = g_maxevents st" "g_granularity st' = g_granularity st"
    using s(5) by (auto simp: same_rest_def upd_ev_def)
  have "fst ` set xs' = insert e (fst ` set xs)"
    using arg_cong [OF s(4), of set] dq_insert_set [of e "tick ?g (us ?v)" "sync (us (itimer st)) xs"] by simp
  moreover have "length xs' = Suc (length xs)" using arg_cong [OF s(4), of length] by simp
  moreover have "free_list st' fs" by (rule free_list_keep [of st]) (use p f(1) s(6) e(3) in \<open>auto simp: pool_def\<close>)
  ultimately show ?thesis using s(1-3) f p e n
    by - (rule exI [of _ st'], rule exI [of _ xs'], simp add: pool_def)
qed

lemma cancel_delays_set:
  "e \<in> fst ` set xs \<Longrightarrow> distinct (map fst xs) \<Longrightarrow>
   fst ` set (cancel_delays e l xs) = fst ` set xs - {e} \<and> length (cancel_delays e l xs) < length xs"
proof -
  assume e: "e \<in> fst ` set xs" and d: "distinct (map fst xs)"
  obtain ys d0 zs where xs: "xs = ys @ (e, d0) # zs" using e by (auto simp: in_set_conv_decomp)
  have n: "e \<notin> fst ` set (ys @ zs)" using d by (auto simp: xs)
  show ?thesis
  proof (cases "ys = []")
    case True
    then show ?thesis using n by (cases zs) (auto simp: xs)
  next
    case False
    then have "cancel_delays e l xs = ys @ zs" using cancel_delays_later [of ys e zs l d0] n by (simp add: xs)
    moreover have "fst ` set xs = insert e (fst ` set (ys @ zs))" by (auto simp: xs)
    ultimately show ?thesis using n by (simp add: xs)
  qed
qed

text \<open>What cancelling a timer leaves pending.\<close>

definition cancelled :: "utimers \<Rightarrow> addr \<Rightarrow> (addr \<times> int) list \<Rightarrow> (addr \<times> int) list" where
  "cancelled st e xs =
     (let rs = cancel_delays e (us (itimer st)) xs in sync (tick (g_granularity st) (snd (hd rs))) rs)"

lemma cancel_pool:
  assumes p: "pool st xs fs" and e: "e \<in> fst ` set xs" "ev_flags (ev st e) AND TFLAG_CANCELLED = 0" and g: "0 < g_granularity st"
    and t: "cancel_delays e (us (itimer st)) xs \<noteq> [] \<Longrightarrow> tick_ok (g_granularity st) (snd (hd (cancel_delays e (us (itimer st)) xs)))"
  shows "\<exists>st'. timer_cancel st e = Some st' \<and> pool st' (cancelled st e xs) fs \<and>
    due st' (cancelled st e xs) = map_of (dues 0 (cancelled st e xs)) \<and>
    fst ` set (cancelled st e xs) = fst ` set xs - {e} \<and> length (cancelled st e xs) < length xs \<and>
    g_maxevents st' = g_maxevents st \<and> g_granularity st' = g_granularity st \<and>
    ev_flags (ev st' e) = ev_flags (ev st e) OR TFLAG_CANCELLED \<and> event_freelist st' = event_freelist st"
proof -
  let ?rs = "cancel_delays e (us (itimer st)) xs"
  have pe: "pending st xs" and d: "distinct (map fst xs)" using p by (simp_all add: pool_def pending_def queued_def)
  obtain st' where s: "timer_cancel st e = Some st'" "pending st' (cancelled st e xs)"
    "us (itimer st') = (if ?rs = [] then 0 else tick (g_granularity st) (snd (hd ?rs)))"
    "same_rest st (upd_ev st' e (\<lambda>x. x\<lparr>ev_flags := ev_flags (ev st e)\<rparr>))"
    "ev_flags (ev st' e) = ev_flags (ev st e) OR TFLAG_CANCELLED"
    "\<forall>x. x \<notin> fst ` set xs \<longrightarrow> ev_next (ev st' x) = ev_next (ev st x)"
    using timer_cancel_law [OF pe e g] t unfolding cancelled_def Let_def by blast
  have f: "event_freelist st' = event_freelist st" "g_maxevents st' = g_maxevents st" "g_granularity st' = g_granularity st"
    using s(4) by (auto simp: same_rest_def upd_ev_def)
  have "due st' (cancelled st e xs) = map_of (dues 0 (cancelled st e xs))"
  proof (cases "?rs = []")
    case True
    then show ?thesis by (simp add: cancelled_def due_def sync_def)
  next
    case False
    then show ?thesis using s(3) sync_hd [OF False] by (intro due_hd) (simp add: cancelled_def Let_def)
  qed
  moreover have "free_list st' fs" by (rule free_list_keep [of st]) (use p f(1) s(6) in \<open>auto simp: pool_def\<close>)
  moreover have "fst ` set (cancelled st e xs) = fst ` set xs - {e}" "length (cancelled st e xs) < length xs"
    using cancel_delays_set [OF e(1) d] by (simp_all add: cancelled_def Let_def)
  ultimately show ?thesis using s(1,2,5) f p by (auto simp: pool_def)
qed

lemma free_push:
  assumes p: "pool st xs fs" and e: "e \<notin> fst ` set xs" "e \<notin> set fs" "e \<noteq> 0" "int (Suc (length xs + length fs)) \<le> g_maxevents st"
  shows "pool ((upd_ev st e (\<lambda>x. x\<lparr>ev_flags := ev_flags x OR TFLAG_DELETED, ev_next := event_freelist st\<rparr>))\<lparr>event_freelist := e\<rparr>) xs (e # fs)"
    (is "pool (?st1\<lparr>event_freelist := e\<rparr>) xs (e # fs)")
proof -
  have "pending ?st1 xs" using p by (simp add: pool_def pending_upd_other e(1))
  then have "pending (?st1\<lparr>event_freelist := e\<rparr>) xs" by (simp add: pending_def)
  moreover have "chain (links (ev ?st1)) (event_freelist st) fs"
    by (rule chain_cong [of "links (ev st)"]) (use p e(2) in \<open>auto simp: pool_def free_list_def upd_ev_def\<close>)
  then have "free_list (?st1\<lparr>event_freelist := e\<rparr>) (e # fs)"
    using p e(2,3) by (simp add: free_list_def pool_def) (simp add: upd_ev_def)
  ultimately show ?thesis using p e by (auto simp: pool_def) (simp add: upd_ev_def)
qed

lemma delete_pool:
  assumes p: "pool st xs fs" and e: "e \<in> fst ` set xs" "ev_flags (ev st e) AND TFLAG_CANCELLED = 0"
    "ev_flags (ev st e) AND TFLAG_DELETED = 0" and g: "0 < g_granularity st"
    and t: "cancel_delays e (us (itimer st)) xs \<noteq> [] \<Longrightarrow> tick_ok (g_granularity st) (snd (hd (cancel_delays e (us (itimer st)) xs)))"
  shows "\<exists>st'. timer_delete st e = Some (st', 0) \<and> pool st' (cancelled st e xs) (e # fs)"
proof -
  obtain st' where s: "timer_cancel st e = Some st'" "pool st' (cancelled st e xs) fs" "fst ` set (cancelled st e xs) = fst ` set xs - {e}"
    "length (cancelled st e xs) < length xs" "g_maxevents st' = g_maxevents st"
    using cancel_pool [OF p e(1,2) g t] by blast
  have "e \<notin> set fs" "e \<noteq> 0" using p e(1) queued_nonzero [of st xs] by (auto simp: pool_def pending_def)
  then show ?thesis using free_push [OF s(2), of e] s p e(3) by (simp add: timer_delete_def pool_def)
qed

end
