(* ===== verification/Timer_Alarm_Laws.thy ===== *)
theory Timer_Alarm_Laws
  imports Timer_Cancel_Laws
begin

text \<open>
  The alarm as a function on the list of delays: each round takes the first timer off and puts it back
  when it recurs, and the rounds go on as long as the next delay is below half a tick.
\<close>

section \<open>Rounds on the list of delays\<close>

definition recurs :: "utimers \<Rightarrow> addr \<Rightarrow> bool" where
  "recurs st e \<longleftrightarrow> ev_flags (ev st e) AND TFLAG_CANCELLED = 0 \<and> timerisset (it_interval (ev st e))"

definition period :: "utimers \<Rightarrow> addr \<Rightarrow> int option" where
  "period st e = (if recurs st e then Some (us (timerroundup (g_granularity st) (it_interval (ev st e)))) else None)"

fun fire :: "(addr \<Rightarrow> int option) \<Rightarrow> (addr \<times> int) list \<Rightarrow> (addr \<times> int) list" where
  "fire per [] = []"
| "fire per ((e, d) # xs) = (case per e of None \<Rightarrow> xs | Some p \<Rightarrow> dq_insert e p xs)"

definition soon :: "int \<Rightarrow> (addr \<times> int) list \<Rightarrow> bool" where
  "soon g xs \<longleftrightarrow> xs \<noteq> [] \<and> snd (hd xs) < g div 2"

lemma length_fire: "length (fire per xs) \<le> length xs"
  by (cases "(per, xs)" rule: fire.cases) (auto split: option.splits)

lemma fire_set: "fst ` set (fire per xs) \<subseteq> fst ` set xs"
  by (cases "(per, xs)" rule: fire.cases) (auto split: option.splits simp: dq_insert_set)

text \<open>The functions called only note that they were called.\<close>

definition log_calls :: callbacks where
  "log_calls f e arg st = Some (st\<lparr>client := client st @ [(e, arg)]\<rparr>)"

text \<open>Every pending timer has a function, and an interval the kernel takes.\<close>

definition ready :: "utimers \<Rightarrow> addr \<Rightarrow> bool" where
  "ready st e \<longleftrightarrow> ev_func (ev st e) \<noteq> 0 \<and> (recurs st e \<longrightarrow> round_ok (g_granularity st) (it_interval (ev st e)))"

definition armed :: "utimers \<Rightarrow> (addr \<times> int) list \<Rightarrow> bool" where
  "armed st xs \<longleftrightarrow> queued st xs \<and> 0 < g_granularity st \<and> g_granularity st < 1000000 \<and> int (length xs) \<le> g_maxevents st \<and>
     (\<forall>e\<in>fst ` set xs. ready st e)"

lemma same_rest_period: "same_rest st st' \<Longrightarrow> recurs st' = recurs st \<and> period st' = period st"
  by (simp add: same_rest_def recurs_def period_def fun_eq_iff)

lemma armed_mono:
  "\<lbrakk>armed st xs; same_rest st st'; queued st' ys; fst ` set ys \<subseteq> fst ` set xs; length ys \<le> length xs\<rbrakk> \<Longrightarrow> armed st' ys"
proof -
  assume a: "armed st xs" "same_rest st st'" "queued st' ys" "fst ` set ys \<subseteq> fst ` set xs" "length ys \<le> length xs"
  have "ready st' e = ready st e" for e using a(2) same_rest_period [OF a(2)] by (simp add: ready_def same_rest_def)
  then have "\<forall>e\<in>fst ` set ys. ready st' e" using a(1,4) by (metis (no_types, lifting) armed_def subsetD)
  then show ?thesis using a by (simp add: armed_def same_rest_def)
qed

lemma alarm_one_law:
  assumes a: "armed st xs" and ne: "xs \<noteq> []"
  shows "\<exists>st'. alarm_one log_calls st = Some st' \<and> armed st' (fire (period st) xs) \<and> same_rest st st' \<and>
    client st' = client st @ [(fst (hd xs), ev_arg (ev st (fst (hd xs))))] \<and> alarm_blocked st' = alarm_blocked st"
proof -
  obtain e d ys where xs: "xs = (e, d) # ys" using ne by (cases xs) auto
  have q: "queued st xs" using a by (simp add: armed_def)
  have e: "event_queue st = e" "e \<noteq> 0" "e \<notin> fst ` set ys" "ev_func (ev st e) \<noteq> 0"
    using queued_head [OF q] queued_nonzero [OF q] q a by (auto simp: xs queued_def armed_def ready_def)
  define st1 where "st1 = upd_ev (st\<lparr>event_queue := ev_next (ev st e)\<rparr>) e (\<lambda>x. x\<lparr>ev_next := 0\<rparr>)"
  define st2 where "st2 = st1\<lparr>client := client st @ [(e, ev_arg (ev st e))]\<rparr>"
  have cb: "(if ev_func (ev st1 e) = 0 then None else log_calls (ev_func (ev st1 e)) e (ev_arg (ev st1 e)) st1) = Some st2"
    using e(4) by (simp add: st1_def st2_def upd_ev_def log_calls_def)
  have "queued (st\<lparr>event_queue := ev_next (ev st e)\<rparr>) ys" using q by (auto simp: xs queued_def holds_def)
  then have "queued st1 ys" unfolding st1_def by (rule queued_upd_other [OF e(3)])
  then have q2: "queued st2 ys" by (simp add: st2_def queued_def)
  have s2: "same_rest st st2" "client st2 = client st @ [(e, ev_arg (ev st e))]" "alarm_blocked st2 = alarm_blocked st"
    by (auto simp: st2_def st1_def same_rest_def upd_ev_def)
  note per = same_rest_period [OF s2(1)]
  have g: "g_granularity st2 = g_granularity st" using s2(1) by (simp add: same_rest_def)
  let ?enq = "if ev_flags (ev st2 e) AND TFLAG_CANCELLED = 0 \<and> timerisset (it_interval (ev st2 e))
      then enqueue_event e (upd_ev st2 e (\<lambda>x. x\<lparr>it_value := timerroundup (g_granularity st2) (it_interval x)\<rparr>)) else Some st2"
  have "\<exists>st3. ?enq = Some st3 \<and> queued st3 (fire (period st) xs) \<and> same_rest st2 st3 \<and> client st3 = client st2 \<and> alarm_blocked st3 = alarm_blocked st2"
  proof (cases "recurs st e")
    case False
    then show ?thesis using per q2 by (auto simp: recurs_def fun_eq_iff xs period_def)
  next
    case True
    let ?v = "timerroundup (g_granularity st) (it_interval (ev st e))"
    let ?st2 = "upd_ev st2 e (\<lambda>x. x\<lparr>it_value := timerroundup (g_granularity st2) (it_interval x)\<rparr>)"
    have i: "it_interval (ev st2 e) = it_interval (ev st e)" using s2(1) by (simp add: same_rest_def)
    have v: "it_value (ev ?st2 e) = ?v" using g i by (simp add: upd_ev_def)
    have nv: "normal ?v" using timerroundup_law(1) a True by (auto simp: armed_def ready_def xs)
    have en: "normal (it_value (ev ?st2 e))" unfolding v by (rule nv)
    obtain st3 where st3: "enqueue_event e ?st2 = Some st3" "queued st3 (dq_insert e (us ?v) ys)"
      "\<forall>x. ev st3 x = (ev ?st2 x)\<lparr>it_value := it_value (ev st3 x), ev_next := ev_next (ev st3 x)\<rparr>"
      "st3 = ?st2\<lparr>ev := ev st3, event_queue := event_queue st3\<rparr>"
      using enqueue_law [OF queued_upd_other [OF e(3) q2] e(3,2) en] unfolding v by blast
    have r3: "same_rest st2 st3" "client st3 = client st2" "alarm_blocked st3 = alarm_blocked st2"
      using same_restI [OF st3(3,4)] arg_cong [OF st3(4), of client] by (auto simp: same_rest_def upd_ev_def)
    moreover have "?enq = Some st3" using True st3(1) per by (auto simp: recurs_def fun_eq_iff)
    moreover have "fire (period st) xs = dq_insert e (us ?v) ys" using True by (simp add: xs period_def)
    ultimately show ?thesis using st3(2) by auto
  qed
  then obtain st3 where st3: "?enq = Some st3" "queued st3 (fire (period st) xs)" "same_rest st2 st3" "client st3 = client st2"
    "alarm_blocked st3 = alarm_blocked st2" by blast
  have s3: "same_rest st st3" using s2(1) st3(3) same_rest_trans by blast
  have a3: "armed st3 (fire (period st) xs)" by (rule armed_mono [OF a s3 st3(2) fire_set length_fire])
  then have "check_event_queue st3" using check_event_queue_ok [OF st3(2)] by (simp add: armed_def)
  then have "alarm_one log_calls st = Some st3"
    unfolding alarm_one_def Let_def e(1) using e(2) cb st3(1) unfolding st1_def by simp
  then show ?thesis using a3 s3 st3(4,5) s2(2,3) by (simp add: xs)
qed

section \<open>The loop\<close>

lemma due_soon_law: "armed st xs \<Longrightarrow> due_soon st = soon (g_granularity st) xs"
proof (cases xs)
  case Nil
  assume "armed st xs"
  then show ?thesis using Nil queued_head [of st xs] by (simp add: armed_def due_soon_def soon_def)
next
  case (Cons x ys)
  assume a: "armed st xs"
  obtain e d where x: "x = (e, d)" by (cases x)
  have q: "queued st ((e, d) # ys)" using a by (simp add: armed_def Cons x)
  have e: "event_queue st = e" "e \<noteq> 0" "normal (it_value (ev st e))" "us (it_value (ev st e)) = d"
    using queued_head [OF q] queued_nonzero [OF q] q by (auto simp: queued_def holds_def)
  have h: "normal \<lparr>tv_sec = 0, tv_usec = g_granularity st div 2\<rparr>" "us \<lparr>tv_sec = 0, tv_usec = g_granularity st div 2\<rparr> = g_granularity st div 2"
    using a zdiv_mono1 [of "g_granularity st" 999999 2] by (auto simp: normal_def us_def armed_def)
  show ?thesis using timercmp_us [OF e(3) h(1)] e h(2) by (simp add: due_soon_def soon_def Cons x)
qed

definition called :: "utimers \<Rightarrow> (addr \<times> int) list \<Rightarrow> addr \<times> int" where
  "called st xs = (fst (hd xs), ev_arg (ev st (fst (hd xs))))"

lemma loop_stops:
  "\<lbrakk>armed st xs; xs \<noteq> []; \<forall>m<n. soon (g_granularity st) ((fire (period st) ^^ Suc m) xs);
    \<not> soon (g_granularity st) ((fire (period st) ^^ Suc n) xs)\<rbrakk> \<Longrightarrow>
   \<exists>st'. alarm_loop log_calls st = Some st' \<and> armed st' ((fire (period st) ^^ Suc n) xs) \<and> same_rest st st' \<and>
     client st' = client st @ map (\<lambda>m. called st ((fire (period st) ^^ m) xs)) [0..<Suc n] \<and> alarm_blocked st' = alarm_blocked st"
proof (induction n arbitrary: st xs)
  case 0
  obtain st1 where s: "alarm_one log_calls st = Some st1" "armed st1 (fire (period st) xs)" "same_rest st st1"
    "client st1 = client st @ [called st xs]" "alarm_blocked st1 = alarm_blocked st"
    using alarm_one_law [OF 0(1,2)] unfolding called_def by blast
  have "\<not> due_soon st1" using due_soon_law [OF s(2)] 0(4) s(3) by (simp add: same_rest_def)
  then show ?case using s by (subst alarm_loop.simps) simp
next
  case (Suc n)
  obtain st1 where s: "alarm_one log_calls st = Some st1" "armed st1 (fire (period st) xs)" "same_rest st st1"
    "client st1 = client st @ [called st xs]" "alarm_blocked st1 = alarm_blocked st"
    using alarm_one_law [OF Suc.prems(1,2)] unfolding called_def by blast
  have p: "period st1 = period st" "g_granularity st1 = g_granularity st" "called st1 = called st"
    using same_rest_period [OF s(3)] s(3) by (auto simp: same_rest_def called_def fun_eq_iff)
  have sh: "(fire (period st) ^^ k) (fire (period st) xs) = (fire (period st) ^^ Suc k) xs" for k
    by (simp add: funpow_swap1)
  have "soon (g_granularity st) (fire (period st) xs)" using Suc.prems(3) [rule_format, of 0] by simp
  then have d: "due_soon st1" "fire (period st) xs \<noteq> []" using due_soon_law [OF s(2)] p(2) by (simp_all add: soon_def)
  have m: "\<forall>m<n. soon (g_granularity st1) ((fire (period st1) ^^ Suc m) (fire (period st) xs))"
    using Suc.prems(3) unfolding p sh by auto
  have n: "\<not> soon (g_granularity st1) ((fire (period st1) ^^ Suc n) (fire (period st) xs))" using Suc.prems(4) unfolding p sh .
  obtain st2 where s2: "alarm_loop log_calls st1 = Some st2" "armed st2 ((fire (period st) ^^ Suc (Suc n)) xs)" "same_rest st1 st2"
    "client st2 = client st1 @ map (\<lambda>m. called st ((fire (period st) ^^ Suc m) xs)) [0..<Suc n]" "alarm_blocked st2 = alarm_blocked st1"
    using Suc.IH [OF s(2) d(2) m n] unfolding p sh by blast
  have "map (\<lambda>m. called st ((fire (period st) ^^ m) xs)) [0..<Suc (Suc n)] =
      called st xs # map (\<lambda>m. called st ((fire (period st) ^^ Suc m) xs)) [0..<Suc n]"
    by (subst upt_conv_Cons) (simp_all only: map_Suc_upt [symmetric] list.map map_map comp_def funpow_0 zero_less_Suc)
  then have "client st2 = client st @ map (\<lambda>m. called st ((fire (period st) ^^ m) xs)) [0..<Suc (Suc n)]"
    using s(4) s2(4) by simp
  moreover have "alarm_loop log_calls st = Some st2" using s(1) d(1) s2(1) by (subst alarm_loop.simps) simp
  ultimately show ?case using s2(2,5) s(5) same_rest_trans [OF s(3) s2(3)] by simp
qed

lemma loop_forever:
  assumes "armed st xs" "xs \<noteq> []" "\<forall>m. soon (g_granularity st) ((fire (period st) ^^ Suc m) xs)"
  shows "alarm_loop log_calls st = None"
proof (rule ccontr)
  assume "alarm_loop log_calls st \<noteq> None"
  then obtain y where y: "alarm_loop log_calls st = Some y" by auto
  let ?P = "\<lambda>cb st (y :: utimers). \<forall>xs. cb = log_calls \<longrightarrow> armed st xs \<longrightarrow> xs \<noteq> [] \<longrightarrow>
    (\<forall>m. soon (g_granularity st) ((fire (period st) ^^ Suc m) xs)) \<longrightarrow> False"
  have "?P log_calls st y"
  proof (rule alarm_loop.raw_induct [of ?P, OF _ y], intro allI impI)
    fix loop :: "callbacks \<Rightarrow> utimers \<Rightarrow> utimers option" and cb st y xs
    assume IH: "\<And>cb st y. loop cb st = Some y \<Longrightarrow> ?P cb st y"
      and body: "(case alarm_one cb st of None \<Rightarrow> None | Some st1 \<Rightarrow> if due_soon st1 then loop cb st1 else Some st1) = Some y"
      and cb: "cb = log_calls" and a: "armed st xs" "xs \<noteq> []" "\<forall>m. soon (g_granularity st) ((fire (period st) ^^ Suc m) xs)"
    obtain st1 where s: "alarm_one log_calls st = Some st1" "armed st1 (fire (period st) xs)" "same_rest st st1"
      using alarm_one_law [OF a(1,2)] by blast
    have p: "period st1 = period st" "g_granularity st1 = g_granularity st"
      using same_rest_period [OF s(3)] s(3) by (auto simp: same_rest_def)
    have sh: "(fire (period st) ^^ k) (fire (period st) xs) = (fire (period st) ^^ Suc k) xs" for k
      by (simp add: funpow_swap1)
    have "soon (g_granularity st) (fire (period st) xs)" using a(3) [rule_format, of 0] by simp
    then have d: "due_soon st1" "fire (period st) xs \<noteq> []" using due_soon_law [OF s(2)] p(2) by (simp_all add: soon_def)
    have "loop log_calls st1 = Some y" using body cb s(1) d(1) by simp
    moreover have "\<forall>m. soon (g_granularity st1) ((fire (period st1) ^^ Suc m) (fire (period st) xs))"
      using a(3) unfolding p sh by blast
    ultimately show False using IH s(2) d(2) by blast
  qed
  then show False using assms by blast
qed

section \<open>The handler\<close>

lemma armed_fields [simp]: "armed (block_timer st) xs = armed st xs" "armed (unblock_timer st) xs = armed st xs"
  by (simp_all add: armed_def ready_def recurs_def) (simp_all add: block_timer_def unblock_timer_def)

lemma armed_nonneg: "armed st xs \<Longrightarrow> (e, d) \<in> set xs \<Longrightarrow> 0 \<le> d"
  using holds_nonneg [of "ev st" xs e d] by (simp add: armed_def queued_def)

lemma rearm_law:
  assumes a: "armed st ys" and t: "ys \<noteq> [] \<Longrightarrow> tick_ok (g_granularity st) (snd (hd ys))"
  defines "zs \<equiv> sync (tick (g_granularity st) (snd (hd ys))) ys"
  shows "armed (rearm st) zs \<and> (ys \<noteq> [] \<longrightarrow> pending (rearm st) zs) \<and>
    (ys \<noteq> [] \<longrightarrow> us (itimer (rearm st)) = tick (g_granularity st) (snd (hd ys))) \<and> same_rest st (rearm st) \<and>
    client (rearm st) = client st \<and> alarm_blocked (rearm st) = alarm_blocked st"
proof (cases ys)
  case Nil
  then have "event_queue st = 0" using a queued_head [of st ys] by (simp add: armed_def)
  then show ?thesis using a Nil by (simp add: rearm_def zs_def sync_def)
next
  case (Cons x ys')
  obtain b d where x: "x = (b, d)" by (cases x)
  let ?g = "g_granularity st"
  have q: "queued st ((b, d) # ys')" "0 < ?g" using a by (simp_all add: armed_def Cons x)
  have e: "event_queue st = b" "b \<noteq> 0" "normal (it_value (ev st b))" "us (it_value (ev st b)) = d"
    using queued_head [OF q(1)] queued_nonzero [OF q(1)] q(1) by (auto simp: queued_def holds_def)
  let ?r = "timerroundup ?g (it_value (ev st b))"
  have ok: "round_ok ?g (it_value (ev st b))" using round_ok_tick [OF e(3)] e(4) t by (simp add: Cons x)
  note r = timerroundup_law [OF q(2) ok] timerroundup_tick [OF e(3), of ?g, unfolded e(4)]
  let ?st1 = "upd_ev st b (\<lambda>x. x\<lparr>it_value := timerroundup ?g (it_value x)\<rparr>)"
  have "it_value (ev ?st1 b) = ?r" by (simp add: upd_ev_def)
  then have s: "rearm st = setitimer ?r ?st1" using e(1,2) r(4) by (simp add: rearm_def Let_def)
  have q1: "queued ?st1 zs" using queued_head_value [OF q(1), of "\<lambda>x. x\<lparr>it_value := timerroundup ?g (it_value x)\<rparr>"] r(1,8)
    by (simp add: zs_def Cons x sync_def)
  have sr: "same_rest st (rearm st)" "itimer (rearm st) = ?r" "client (rearm st) = client st" "alarm_blocked (rearm st) = alarm_blocked st"
    unfolding s using r(1) by (auto simp: setitimer_def upd_ev_def same_rest_def normal_def)
  have qz: "queued (rearm st) zs" unfolding s by (simp add: q1)
  then have "armed (rearm st) zs" using armed_mono [OF a sr(1)] by (simp add: zs_def)
  moreover have "snd (hd zs) = us ?r" using r(8) by (simp add: zs_def Cons x sync_def)
  ultimately show ?thesis using qz sr r(1,4,8) by (simp add: pending_def Cons x)
qed

lemma handler_law:
  assumes "armed st xs" "xs \<noteq> []" "\<forall>m<n. soon (g_granularity st) ((fire (period st) ^^ Suc m) xs)"
    "\<not> soon (g_granularity st) ((fire (period st) ^^ Suc n) xs)"
  defines "ys \<equiv> (fire (period st) ^^ Suc n) xs"
  defines "zs \<equiv> sync (tick (g_granularity st) (snd (hd ys))) ys"
  assumes "ys \<noteq> [] \<Longrightarrow> tick_ok (g_granularity st) (snd (hd ys))"
  shows "\<exists>st'. alarm_handler log_calls st = Some st' \<and> armed st' zs \<and> (ys \<noteq> [] \<longrightarrow> pending st' zs) \<and>
    due st' zs = map_of (dues 0 zs) \<and> same_rest st st' \<and>
    client st' = client st @ map (\<lambda>m. called st ((fire (period st) ^^ m) xs)) [0..<Suc n]"
proof -
  let ?st0 = "block_timer st"
  have b: "g_granularity ?st0 = g_granularity st" "period ?st0 = period st" "called ?st0 = called st" "client ?st0 = client st"
    by (simp_all add: block_timer_def period_def recurs_def called_def fun_eq_iff)
  obtain st1 where s1: "alarm_loop log_calls ?st0 = Some st1" "armed st1 ys" "same_rest ?st0 st1"
    "client st1 = client st @ map (\<lambda>m. called st ((fire (period st) ^^ m) xs)) [0..<Suc n]"
    using loop_stops [of ?st0 xs n] assms(1-4) unfolding b ys_def by auto
  have g1: "g_granularity st1 = g_granularity st" using s1(3) b by (simp add: same_rest_def)
  have r: "armed (rearm st1) zs" "ys \<noteq> [] \<longrightarrow> pending (rearm st1) zs" "ys \<noteq> [] \<longrightarrow> us (itimer (rearm st1)) = tick (g_granularity st) (snd (hd ys))"
    "same_rest st1 (rearm st1)" "client (rearm st1) = client st1"
    using rearm_law [OF s1(2)] assms(7) unfolding g1 zs_def by blast+
  let ?st' = "unblock_timer (rearm st1)"
  have h: "alarm_handler log_calls st = Some ?st'" by (simp add: alarm_handler_def s1(1))
  have i: "itimer ?st' = itimer (rearm st1)" "client ?st' = client (rearm st1)" by (simp_all add: unblock_timer_def)
  have "due ?st' zs = map_of (dues 0 zs)"
  proof (cases "ys = []")
    case True
    then show ?thesis by (simp add: zs_def due_def sync_def)
  next
    case False
    then show ?thesis using r(3) i(1) sync_hd [OF False] by (intro due_hd) (simp add: zs_def)
  qed
  moreover have "same_rest st ?st'"
    using s1(3) r(4) by (auto simp: same_rest_def unblock_timer_def block_timer_def)
  moreover have "pending ?st' zs" if "ys \<noteq> []" using r(2) that i(1) by (simp add: pending_def)
  ultimately show ?thesis using h r(1,5) s1(4) i(2) by simp
qed

text \<open>Timers that do not recur leave the list from the front.\<close>

lemma fire_drop: "\<forall>e\<in>fst ` set (take m xs). per e = None \<Longrightarrow> m \<le> length xs \<Longrightarrow> (fire per ^^ m) xs = drop m xs"
proof (induction m)
  case (Suc m)
  then have "(fire per ^^ m) xs = drop m xs" by (auto simp: take_Suc_conv_app_nth)
  moreover obtain e d where x: "xs ! m = (e, d)" by (cases "xs ! m")
  then have "drop m xs = (e, d) # drop (Suc m) xs" using Suc.prems(2) Cons_nth_drop_Suc [of m xs] by simp
  moreover have "per e = None" using Suc.prems x by (simp add: take_Suc_conv_app_nth)
  ultimately show ?case by simp
qed simp

text \<open>Timers of one period whose delays add up to it go round.\<close>

lemma dq_insert_end:
  "\<forall>(a, d)\<in>set ys. 0 \<le> d \<Longrightarrow> sum_list (map snd ys) \<le> v \<Longrightarrow> dq_insert e v ys = ys @ [(e, v - sum_list (map snd ys))]"
proof (induction e v ys rule: dq_insert.induct)
  case (2 e v a d xs)
  have "0 \<le> sum_list (map snd xs)" using 2(2) by (intro sum_list_nonneg) auto
  then show ?case using 2 by (simp add: algebra_simps)
qed simp

lemma fire_rotate:
  assumes "xs \<noteq> []" "\<forall>(a, d)\<in>set xs. 0 \<le> d" "\<forall>(a, d)\<in>set xs. per a = Some p" "sum_list (map snd xs) = p"
  shows "fire per xs = rotate1 xs"
proof -
  obtain e d ys where xs: "xs = (e, d) # ys" using assms(1) by (cases xs) auto
  have "dq_insert e p ys = ys @ [(e, p - sum_list (map snd ys))]" by (rule dq_insert_end) (use assms in \<open>auto simp: xs\<close>)
  then show ?thesis using assms by (simp add: xs)
qed

lemma sum_list_rotate: "sum_list (rotate m (ys :: int list)) = sum_list ys"
proof (induction m)
  case (Suc m)
  have "sum_list (rotate1 zs) = sum_list zs" for zs :: "int list" by (cases zs) auto
  then show ?case using Suc by (simp add: rotate_def)
qed simp

lemma fire_rotations:
  assumes "xs \<noteq> []" "\<forall>(a, d)\<in>set xs. 0 \<le> d" "\<forall>(a, d)\<in>set xs. per a = Some p" "sum_list (map snd xs) = p"
  shows "(fire per ^^ m) xs = rotate m xs"
proof (induction m)
  case (Suc m)
  have "sum_list (map snd (rotate m xs)) = sum_list (map snd xs)"
    using sum_list_rotate [of m "map snd xs"] by (simp add: rotate_map)
  then have "fire per (rotate m xs) = rotate1 (rotate m xs)" using fire_rotate [of "rotate m xs" per p] assms by simp
  then show ?case using Suc by (simp add: rotate_def)
qed simp

section \<open>Consequences\<close>

lemma map_called: "map (\<lambda>m. called st (drop m (ys @ zs))) [0..<length ys] = map (\<lambda>(e, _). (e, ev_arg (ev st e))) ys"
  by (rule nth_equalityI) (auto simp: called_def hd_drop_conv_nth nth_append split: prod.splits)

lemma handler_once:
  assumes a: "armed st (ys @ zs)" and ne: "ys \<noteq> []" and once: "\<forall>e\<in>fst ` set ys. \<not> recurs st e"
    and late: "\<forall>(e, d)\<in>set (tl ys). d < g_granularity st div 2" "zs \<noteq> [] \<Longrightarrow> g_granularity st div 2 \<le> snd (hd zs)"
    and t: "zs \<noteq> [] \<Longrightarrow> tick_ok (g_granularity st) (snd (hd zs))"
  defines "ws \<equiv> sync (tick (g_granularity st) (snd (hd zs))) zs"
  shows "\<exists>st'. alarm_handler log_calls st = Some st' \<and> armed st' ws \<and> (zs \<noteq> [] \<longrightarrow> pending st' ws) \<and>
    due st' ws = map_of (dues 0 ws) \<and> client st' = client st @ map (\<lambda>(e, _). (e, ev_arg (ev st e))) ys"
proof -
  let ?n = "length ys - 1" and ?per = "period st" and ?xs = "ys @ zs"
  have n: "Suc ?n = length ys" using ne by (cases ys) auto
  have f: "(fire ?per ^^ m) ?xs = drop m ?xs" if "m \<le> length ys" for m
  proof (rule fire_drop)
    show "\<forall>e\<in>fst ` set (take m ?xs). ?per e = None" using once that by (auto simp: period_def dest: in_set_takeD)
  qed (use that in simp)
  have "soon (g_granularity st) ((fire ?per ^^ Suc m) ?xs)" if "m < ?n" for m
  proof -
    have m: "Suc m < length ys" using that n by simp
    then have h: "hd (drop (Suc m) ?xs) = tl ys ! m" by (simp add: hd_drop_conv_nth nth_append nth_tl)
    have "tl ys ! m \<in> set (tl ys)" using m by (intro nth_mem) simp
    then have "snd (tl ys ! m) < g_granularity st div 2" using bspec [OF late(1)] by (simp add: case_prod_beta)
    then show ?thesis using f [of "Suc m"] m h by (simp add: soon_def del: funpow.simps)
  qed
  then have sn: "\<forall>m<?n. soon (g_granularity st) ((fire ?per ^^ Suc m) ?xs)" by blast
  have e: "(fire ?per ^^ Suc ?n) ?xs = zs" using f [of "length ys"] n by simp
  have ns: "\<not> soon (g_granularity st) ((fire ?per ^^ Suc ?n) ?xs)" using late(2) unfolding e by (auto simp: soon_def)
  have te: "(fire ?per ^^ Suc ?n) ?xs \<noteq> [] \<Longrightarrow> tick_ok (g_granularity st) (snd (hd ((fire ?per ^^ Suc ?n) ?xs)))"
    unfolding e by (rule t)
  have xne: "?xs \<noteq> []" using ne by simp
  obtain st' where s: "alarm_handler log_calls st = Some st'" "armed st' ws" "zs \<noteq> [] \<longrightarrow> pending st' ws"
    "due st' ws = map_of (dues 0 ws)" "client st' = client st @ map (\<lambda>m. called st ((fire ?per ^^ m) ?xs)) [0..<Suc ?n]"
    using handler_law [OF a xne sn ns te] unfolding ws_def e by blast
  have "map (\<lambda>m. called st ((fire ?per ^^ m) ?xs)) [0..<Suc ?n] = map (\<lambda>m. called st (drop m ?xs)) [0..<length ys]"
    unfolding n by (rule map_cong) (use f in auto)
  also have "\<dots> = map (\<lambda>(e, _). (e, ev_arg (ev st e))) ys" by (rule map_called)
  finally show ?thesis using s by metis
qed

lemma period_tick: "armed st xs \<Longrightarrow> e \<in> fst ` set xs \<Longrightarrow> period st e = Some p \<Longrightarrow> g_granularity st \<le> p \<and> tick_ok (g_granularity st) p \<and> tick (g_granularity st) p = p"
proof -
  assume a: "armed st xs" "e \<in> fst ` set xs" "period st e = Some p"
  let ?g = "g_granularity st" and ?t = "it_interval (ev st e)"
  have ok: "0 < ?g" "?g < 1000000" "round_ok ?g ?t" "p = us (timerroundup ?g ?t)"
    using a by (auto simp: armed_def ready_def period_def split: if_splits)
  note r = timerroundup_law [OF ok(1,3)]
  have "?g \<le> us (timerroundup ?g ?t)"
  proof (cases "tv_sec (timerroundup ?g ?t) = 0")
    case True
    then show ?thesis using r(5) by (simp add: us_def)
  next
    case False
    then show ?thesis using us_less_second [OF r(1)] ok(2) by linarith
  qed
  then show ?thesis using r(6,7) round_ok_tick [OF r(1)] timerroundup_tick [OF r(1), of ?g] ok(4) by simp
qed

lemma rounds_end:
  assumes a: "armed st xs" "xs \<noteq> []" "length xs \<le> 2"
  shows "\<exists>n. \<not> soon (g_granularity st) ((fire (period st) ^^ Suc n) xs) \<and> (\<forall>m<n. soon (g_granularity st) ((fire (period st) ^^ Suc m) xs))"
proof -
  let ?g = "g_granularity st"
  have g: "0 < ?g" using a(1) by (simp add: armed_def)
  have per: "?g \<le> p" if "e \<in> fst ` set xs" "period st e = Some p" for e p using period_tick [OF a(1) that] by simp
  have "\<exists>n. \<not> soon ?g ((fire (period st) ^^ Suc n) xs)"
  proof (cases "length xs = 1")
    case True
    then obtain e d where "xs = [(e, d)]" by (cases xs) auto
    then have "\<not> soon ?g ((fire (period st) ^^ Suc 0) xs)" using per [of e] g by (auto simp: soon_def split: option.splits)
    then show ?thesis by blast
  next
    case False
    then obtain a d b d' where xs: "xs = [(a, d), (b, d')]" using assms(2,3) by (cases xs rule: remdups_adj.cases) auto
    have "\<not> soon ?g ((fire (period st) ^^ Suc 0) xs) \<or> \<not> soon ?g ((fire (period st) ^^ Suc 1) xs)"
      using per [of a] per [of b] g by (auto simp: xs soon_def split: option.splits if_splits)
    then show ?thesis by blast
  qed
  then have "\<not> soon ?g ((fire (period st) ^^ Suc (LEAST n. \<not> soon ?g ((fire (period st) ^^ Suc n) xs))) xs)" by (rule LeastI_ex)
  moreover have "\<forall>m<(LEAST n. \<not> soon ?g ((fire (period st) ^^ Suc n) xs)). soon ?g ((fire (period st) ^^ Suc m) xs)"
    using not_less_Least by blast
  ultimately show ?thesis by blast
qed

end
