(* ===== verification/Timer_Properties.thy ===== *)
theory Timer_Properties
  imports Timer_Alarm_Laws
begin

text \<open>The properties of the user-space timers.\<close>

section \<open>Setting\<close>

text \<open>
  C9: setting a timer that is not pending makes it due after its value, rounded up to a tick when it is
  below a second, and leaves the time every other timer is due as it is, whatever has run of the head's
  delay; no event is lost and the free events stay free. Excluded (\<open>tick_ok\<close>) is a value in the last tick before a
  second, whose rounded value the kernel refuses: see \<open>last_tick_never_armed\<close>.
\<close>

theorem settime_exact:
  assumes "pool st xs fs" "e \<notin> fst ` set xs" "e \<noteq> 0" "e \<notin> set fs" "0 < g_granularity st"
    "normal (TIMESPEC_TO_TIMEVAL (sp_value val))" "0 < us (TIMESPEC_TO_TIMEVAL (sp_value val))"
    "tick_ok (g_granularity st) (us (TIMESPEC_TO_TIMEVAL (sp_value val)))"
    "int (Suc (length xs) + length fs) \<le> g_maxevents st"
  shows "\<exists>st' xs'. timer_settime st e val = Some (st', 0) \<and> pool st' xs' fs \<and>
    due st' xs' = (due st xs)(e \<mapsto> tick (g_granularity st) (us (TIMESPEC_TO_TIMEVAL (sp_value val))))"
  using settime_pool [OF assms] by blast

text \<open>The module started for three events at 100, with a tick of 10 ms.\<close>

definition timers0 :: utimers where
  "timers0 = \<lparr>ev = (\<lambda>_. event0), event_queue = 0, event_freelist = 0, g_granularity = 0, g_maxevents = 0, itimer = tv_zero,
     block_count = 0, alarm_blocked = False, client = []\<rparr>"

definition started :: utimers where
  "started = the (init_event_queue 3 100 10000 timers0)"

lemma started_pool: "pool started [] [100, 101, 102]" "g_granularity started = 10000" "g_maxevents started = 3" "due started [] = Map.empty"
proof -
  show "pool started [] [100, 101, 102]"
    by (simp add: pool_def pending_def queued_def holds_def free_list_def started_def init_event_queue_def timers0_def)
  show "g_granularity started = 10000" "g_maxevents started = 3" "due started [] = Map.empty"
    by (simp_all add: started_def init_event_queue_def timers0_def due_def)
qed

definition after_ms :: "int \<Rightarrow> itimerspec" where
  "after_ms n = \<lparr>sp_interval = \<lparr>ts_sec = 0, ts_nsec = 0\<rparr>, sp_value = \<lparr>ts_sec = 0, ts_nsec = n * 1000000\<rparr>\<rparr>"

lemma after_ms_value: "TIMESPEC_TO_TIMEVAL (sp_value (after_ms 25)) = \<lparr>tv_sec = 0, tv_usec = 25000\<rparr>"
  by (simp add: after_ms_def TIMESPEC_TO_TIMEVAL_def)

lemma ticks: "tick 10000 25000 = 30000" "tick_ok 10000 25000" "tick 10000 7000 = 10000"
  by (simp_all add: tick_def tick_ok_def ROUNDUP_us_def)

lemma settime_exact_witness:
  "\<exists>st1 st' xs'. timer_create started CLOCK_REALTIME None = Some (st1, 100) \<and> timer_settime st1 100 (after_ms 25) = Some (st', 0) \<and>
     pool st' xs' [101, 102] \<and> due st' xs' 100 = Some 30000"
proof -
  obtain st1 where s: "timer_create started CLOCK_REALTIME None = Some (st1, 100)" "pool st1 [] [101, 102]" "due st1 [] = Map.empty"
    "g_maxevents st1 = 3" "g_granularity st1 = 10000" using create_law [OF started_pool(1)] started_pool(2-4) by auto
  obtain st' xs' where "timer_settime st1 100 (after_ms 25) = Some (st', 0)" "pool st' xs' [101, 102]"
    "due st' xs' = (due st1 [])(100 \<mapsto> tick (g_granularity st1) (us (TIMESPEC_TO_TIMEVAL (sp_value (after_ms 25)))))"
  proof -
    have "\<exists>st' xs'. timer_settime st1 100 (after_ms 25) = Some (st', 0) \<and> pool st' xs' [101, 102] \<and>
    due st' xs' = (due st1 [])(100 \<mapsto> tick (g_granularity st1) (us (TIMESPEC_TO_TIMEVAL (sp_value (after_ms 25)))))"
      by (rule settime_exact) (use s ticks in \<open>simp_all add: after_ms_value normal_def us_def\<close>)
    then show thesis using that by blast
  qed
  moreover from this have "due st' xs' 100 = Some 30000" using s(5) by (simp add: after_ms_value us_def ticks)
  ultimately show ?thesis using s(1) by blast
qed

section \<open>Cancelling\<close>

text \<open>
  C22: cancelling a pending timer leaves the others pending, in their order, with the interval timer
  started for the delay of the first of them. \<open>cancelled\<close> writes out what the code makes of the delays: when the
  first timer is cancelled, the time of it that has already run is added to the timer after it, not the time
  left; otherwise the first delay starts again and the delay of the cancelled timer is dropped, so the ones after it are due earlier.
  When another timer is left, the first delay must not be in the last tick before a second (\<open>tick_ok\<close>); when the cancelled timer was the
  only one, none is pending afterwards.
\<close>

theorem cancel_exact:
  assumes "pool st xs fs" "e \<in> fst ` set xs" "ev_flags (ev st e) AND TFLAG_CANCELLED = 0" "0 < g_granularity st"
    "cancel_delays e (us (itimer st)) xs \<noteq> [] \<Longrightarrow> tick_ok (g_granularity st) (snd (hd (cancel_delays e (us (itimer st)) xs)))"
  shows "\<exists>st'. timer_cancel st e = Some st' \<and> pool st' (cancelled st e xs) fs \<and>
    due st' (cancelled st e xs) = map_of (dues 0 (cancelled st e xs)) \<and> fst ` set (cancelled st e xs) = fst ` set xs - {e}"
  using cancel_pool [OF assms] by blast

text \<open>Three pending events 1, 2 and 3, with the interval timer started for the first.\<close>

definition trio :: "int \<Rightarrow> int \<Rightarrow> int \<Rightarrow> int \<Rightarrow> utimers" where
  "trio i d1 d2 d3 =
     \<lparr>ev = (\<lambda>a. \<lparr>it_interval = \<lparr>tv_sec = 0, tv_usec = i\<rparr>, it_value = \<lparr>tv_sec = 0, tv_usec = (if a = 1 then d1 else if a = 2 then d2 else d3)\<rparr>,
        ev_func = 7, ev_arg = int a, ev_flags = 0, ev_next = (if a = 1 then 2 else if a = 2 then 3 else 0)\<rparr>),
      event_queue = 1, event_freelist = 0, g_granularity = 10000, g_maxevents = 3, itimer = \<lparr>tv_sec = 0, tv_usec = d1\<rparr>,
      block_count = 0, alarm_blocked = False, client = []\<rparr>"

lemma trio_pool:
  assumes "0 < d1" "0 \<le> d2" "0 \<le> d3" "d1 < 1000000" "d2 < 1000000" "d3 < 1000000"
  shows "pool (trio i d1 d2 d3) [(1, d1), (2, d2), (3, d3)] []"
  using assms by (simp add: trio_def pool_def pending_def queued_def holds_def free_list_def normal_def us_def timerisset_def)

lemma trio_armed:
  assumes "0 \<le> d1" "0 \<le> d2" "0 \<le> d3" "d1 < 1000000" "d2 < 1000000" "d3 < 1000000" "0 \<le> i" "i < 1000000" "i = 0 \<or> ROUNDUP_us i 10000 < 1000000"
  shows "armed (trio i d1 d2 d3) [(1, d1), (2, d2), (3, d3)]"
    "period (trio i d1 d2 d3) = (\<lambda>_. if i = 0 then None else Some (ROUNDUP_us i 10000))"
proof -
  have "max 1 i = i" if "i \<noteq> 0" using that assms(7) by simp
  then show "armed (trio i d1 d2 d3) [(1, d1), (2, d2), (3, d3)]"
    using assms by (auto simp: trio_def armed_def queued_def holds_def normal_def us_def ready_def recurs_def timerisset_def round_ok_def)
  show "period (trio i d1 d2 d3) = (\<lambda>_. if i = 0 then None else Some (ROUNDUP_us i 10000))"
    by (simp add: trio_def period_def recurs_def timerisset_def timerroundup_def us_def fun_eq_iff TFLAG_CANCELLED_def)
qed

text \<open>
  Timers due after 20, 50 and 90 ms. Cancelling the second leaves the third due after 60 ms. 
\<close>

lemma cancel_exact_witness:
  "\<exists>st'. timer_cancel (trio 0 20000 30000 40000) 2 = Some st' \<and> due (trio 0 20000 30000 40000) [(1, 20000), (2, 30000), (3, 40000)] 3 = Some 90000 \<and>
     due st' [(1, 20000), (3, 40000)] 3 = Some 60000"
proof -
  let ?st = "trio 0 20000 30000 40000" and ?xs = "[(1, 20000), (2, 30000), (3, 40000)] :: (addr \<times> int) list"
  have g: "g_granularity ?st = 10000" "us (itimer ?st) = 20000" "ev_flags (ev ?st 2) = 0" by (simp_all add: trio_def us_def)
  have c: "cancelled ?st 2 ?xs = [(1, 20000), (3, 40000)]" unfolding cancelled_def g
    by (simp add: sync_def tick_def ROUNDUP_us_def)
  have "\<exists>st'. timer_cancel ?st 2 = Some st' \<and> pool st' (cancelled ?st 2 ?xs) [] \<and>
    due st' (cancelled ?st 2 ?xs) = map_of (dues 0 (cancelled ?st 2 ?xs)) \<and> fst ` set (cancelled ?st 2 ?xs) = fst ` set ?xs - {2}"
    by (rule cancel_exact [OF trio_pool]) (unfold g, simp_all add: tick_ok_def ROUNDUP_us_def)
  moreover have "due ?st ?xs 3 = Some 90000" by (simp add: due_def g)
  ultimately show ?thesis unfolding c by auto
qed

section \<open>The alarm\<close>

text \<open>
  C16: when the alarm goes off and the timers \<open>ys\<close> at the front do not recur, each of them after the first due less
  than half a tick after the one before it, their functions are called, each once, in the order of the list and with the
  timer's argument; the other timers stay, and the interval timer is started for the first of them, which
  is due after its delay rounded up to a tick (a delay in the last tick before a second is excluded).
\<close>

theorem alarm_fires:
  assumes "armed st (ys @ zs)" "ys \<noteq> []" "\<forall>e\<in>fst ` set ys. \<not> recurs st e"
    "\<forall>(e, d)\<in>set (tl ys). d < g_granularity st div 2" "zs \<noteq> [] \<Longrightarrow> g_granularity st div 2 \<le> snd (hd zs)"
    "zs \<noteq> [] \<Longrightarrow> tick_ok (g_granularity st) (snd (hd zs))"
  shows "\<exists>st' ws. alarm_handler log_calls st = Some st' \<and> client st' = client st @ map (\<lambda>(e, _). (e, ev_arg (ev st e))) ys \<and>
    ws = sync (tick (g_granularity st) (snd (hd zs))) zs \<and> armed st' ws \<and> due st' ws = map_of (dues 0 ws)"
  using handler_once [OF assms] by blast

text \<open>The first two of three timers, 4 ms apart, fire together; the third is due 20 ms after them.\<close>

lemma alarm_fires_witness:
  "\<exists>st'. alarm_handler log_calls (trio 0 30000 4000 20000) = Some st' \<and> client st' = [(1, 1), (2, 2)] \<and>
     due st' [(3, 20000)] 3 = Some 20000"
proof -
  let ?st = "trio 0 30000 4000 20000" and ?ys = "[(1, 30000), (2, 4000)] :: (addr \<times> int) list" and ?zs = "[(3, 20000)] :: (addr \<times> int) list"
  have g: "g_granularity ?st = 10000" "client ?st = []" "ev_arg (ev ?st 1) = 1" "ev_arg (ev ?st 2) = 2" by (simp_all add: trio_def)
  have r: "\<not> recurs ?st e" for e by (simp add: trio_def recurs_def timerisset_def)
  have a: "armed ?st (?ys @ ?zs)" using trio_armed(1) [of 30000 4000 20000 0] by simp
  have "\<exists>st' ws. alarm_handler log_calls ?st = Some st' \<and> client st' = client ?st @ map (\<lambda>(e, _). (e, ev_arg (ev ?st e))) ?ys \<and>
    ws = sync (tick (g_granularity ?st) (snd (hd ?zs))) ?zs \<and> armed st' ws \<and> due st' ws = map_of (dues 0 ws)"
    by (rule alarm_fires [OF a]) (unfold g, simp_all add: r tick_ok_def ROUNDUP_us_def)
  moreover have "sync (tick (g_granularity ?st) (snd (hd ?zs))) ?zs = [(3, 20000)]" unfolding g by (simp add: sync_def tick_def ROUNDUP_us_def)
  ultimately show ?thesis using g by auto
qed

definition alarms :: "nat \<Rightarrow> utimers \<Rightarrow> utimers option" where
  "alarms n st = ((\<lambda>s. Option.bind s (alarm_handler log_calls)) ^^ n) (Some st)"

lemma alarm_recurs:
  assumes a: "armed st [(e, d)]" and r: "period st e = Some p"
  shows "\<exists>st'. alarm_handler log_calls st = Some st' \<and> armed st' [(e, p)] \<and> period st' e = Some p \<and> pending st' [(e, p)] \<and>
    due st' [(e, p)] e = Some p \<and> client st' = client st @ [(e, ev_arg (ev st e))] \<and> ev_arg (ev st' e) = ev_arg (ev st e)"
proof -
  have p: "g_granularity st \<le> p" "tick_ok (g_granularity st) p" "tick (g_granularity st) p = p" using period_tick [OF a _ r] by simp_all
  have g: "0 < g_granularity st" using a by (simp add: armed_def)
  have f: "(fire (period st) ^^ Suc 0) [(e, d)] = [(e, p)]" using r by simp
  have ns: "\<not> soon (g_granularity st) ((fire (period st) ^^ Suc 0) [(e, d)])" unfolding f using p(1) g by (simp add: soon_def)
  have t: "tick_ok (g_granularity st) (snd (hd ((fire (period st) ^^ Suc 0) [(e, d)])))" unfolding f using p(2) by simp
  have z: "sync (tick (g_granularity st) (snd (hd [(e, p)]))) [(e, p)] = [(e, p)]" using p(3) by (simp add: sync_def)
  obtain st' where s: "alarm_handler log_calls st = Some st'" "armed st' [(e, p)]" "pending st' [(e, p)]"
    "due st' [(e, p)] = map_of (dues 0 [(e, p)])" "same_rest st st'"
    "client st' = client st @ map (\<lambda>m. called st ((fire (period st) ^^ m) [(e, d)])) [0..<Suc 0]"
    using handler_law [OF a _ _ ns] t unfolding f z by auto
  then show ?thesis using r same_rest_period [OF s(5)] by (simp add: called_def same_rest_def)
qed

lemma alarms_law:
  "armed st [(e, d)] \<Longrightarrow> period st e = Some p \<Longrightarrow> \<exists>st'. alarms (Suc n) st = Some st' \<and> armed st' [(e, p)] \<and> period st' e = Some p \<and>
     pending st' [(e, p)] \<and> due st' [(e, p)] e = Some p \<and> client st' = client st @ replicate (Suc n) (e, ev_arg (ev st e)) \<and>
     ev_arg (ev st' e) = ev_arg (ev st e)"
proof (induction n)
  case 0
  then show ?case using alarm_recurs [of st e d p] by (simp add: alarms_def)
next
  case (Suc n)
  then obtain st1 where s: "alarms (Suc n) st = Some st1" "armed st1 [(e, p)]" "period st1 e = Some p"
    "client st1 = client st @ replicate (Suc n) (e, ev_arg (ev st e))" "ev_arg (ev st1 e) = ev_arg (ev st e)" by blast
  have "alarms (Suc (Suc n)) st = alarm_handler log_calls st1" using s(1) by (simp add: alarms_def)
  then show ?case using alarm_recurs [OF s(2,3)] s(4,5) by (auto simp: replicate_append_same)
qed

text \<open>
  C21: a recurring timer keeps firing: when it is the only one pending, after \<open>n\<close> alarms its function has been called \<open>n\<close>
  times, and it is due again after its interval, rounded up to a tick when it is below a second.
\<close>

theorem recurring_timer_keeps_firing:
  assumes "armed st [(e, d)]" "period st e = Some p"
  shows "\<exists>st'. alarms (Suc n) st = Some st' \<and> pending st' [(e, p)] \<and> due st' [(e, p)] e = Some p \<and>
    client st' = client st @ replicate (Suc n) (e, ev_arg (ev st e))"
  using alarms_law [OF assms] by blast

definition solo :: utimers where
  "solo = (trio 25000 15000 0 0)\<lparr>ev := (ev (trio 25000 15000 0 0))(1 := (ev (trio 25000 15000 0 0) 1)\<lparr>ev_next := 0\<rparr>)\<rparr>"

lemma recurring_timer_keeps_firing_witness:
  "\<exists>st'. alarms 1000 solo = Some st' \<and> due st' [(1, 30000)] 1 = Some 30000 \<and> client st' = replicate 1000 (1, 1)"
proof -
  have "armed solo [(1, 15000)]" "period solo 1 = Some 30000"
    by (simp_all add: solo_def trio_def armed_def queued_def holds_def normal_def us_def ready_def recurs_def timerisset_def round_ok_def
        ROUNDUP_us_def period_def timerroundup_def TFLAG_CANCELLED_def)
  from recurring_timer_keeps_firing [OF this, of 999]
  have "\<exists>st'. alarms 1000 solo = Some st' \<and> pending st' [(1, 30000)] \<and> due st' [(1, 30000)] 1 = Some 30000 \<and>
    client st' = client solo @ replicate 1000 (1, ev_arg (ev solo 1))" by (simp del: replicate_Suc)
  then show ?thesis by (auto simp: solo_def trio_def)
qed

text \<open>
  C20: with at most two timers pending the alarm handler returns, recurring or not, whatever their delays.
\<close>

theorem alarm_returns:
  assumes "armed st xs" "xs \<noteq> []" "length xs \<le> 2"
  shows "\<exists>st'. alarm_handler log_calls st = Some st'"
proof -
  have a: "armed (block_timer st) xs" using assms(1) by simp
  show ?thesis using rounds_end [OF a assms(2,3)] loop_stops [OF a assms(2)] unfolding alarm_handler_def by (metis option.map(2))
qed

text \<open>
  C19: with more of them it may not: when the pending timers recur with one and the same interval, are each due
  less than half a tick after the one before it and all within one interval, they go round in the handler for ever,
  with the alarm blocked.
\<close>

theorem alarm_never_returns:
  assumes "armed st xs" "xs \<noteq> []" "\<forall>(e, d)\<in>set xs. period st e = Some p \<and> d < g_granularity st div 2" "sum_list (map snd xs) = p"
  shows "alarm_handler log_calls st = None"
proof -
  let ?st0 = "block_timer st"
  have b: "g_granularity ?st0 = g_granularity st" "period ?st0 = period st"
    by (simp_all add: block_timer_def period_def recurs_def fun_eq_iff)
  have r: "(fire (period st) ^^ m) xs = rotate m xs" for m
    by (rule fire_rotations) (use assms armed_nonneg [OF assms(1)] in auto)
  have "soon (g_granularity st) (rotate m xs)" for m
  proof -
    have "hd (rotate m xs) \<in> set xs" using assms(2) hd_in_set [of "rotate m xs"] by simp
    then have "snd (hd (rotate m xs)) < g_granularity st div 2" using bspec [OF assms(3)] by (simp add: case_prod_beta)
    then show ?thesis using assms(2) by (simp add: soon_def)
  qed
  then have "alarm_loop log_calls ?st0 = None"
    by (intro loop_forever [of _ xs]) (use assms(1,2) r b in \<open>simp_all del: funpow.simps rotate_Suc\<close>)
  then show ?thesis by (simp add: alarm_handler_def)
qed

text \<open>Three timers of 10 ms, 3 ms, 3 ms and 4 ms apart.\<close>

lemma alarm_never_returns_witness: "alarm_handler log_calls (trio 10000 3000 3000 4000) = None"
proof (rule alarm_never_returns [of _ "[(1, 3000), (2, 3000), (3, 4000)]" 10000])
  show "armed (trio 10000 3000 3000 4000) [(1, 3000), (2, 3000), (3, 4000)]" by (rule trio_armed) (simp_all add: ROUNDUP_us_def)
  have "period (trio 10000 3000 3000 4000) = (\<lambda>_. Some 10000)" using trio_armed(2) [of 3000 3000 4000 10000] by (simp add: ROUNDUP_us_def)
  moreover have "g_granularity (trio 10000 3000 3000 4000) = 10000" by (simp add: trio_def)
  ultimately show "\<forall>(e, d)\<in>set [(1, 3000), (2, 3000), (3, 4000)]. period (trio 10000 3000 3000 4000) e = Some 10000 \<and>
      d < g_granularity (trio 10000 3000 3000 4000) div 2" by simp
qed simp_all

lemma alarm_returns_witness: "\<exists>st'. alarm_handler log_calls solo = Some st'"
proof (rule alarm_returns [of _ "[(1, 15000)]"])
  show "armed solo [(1, 15000)]"
    by (simp add: solo_def trio_def armed_def queued_def holds_def normal_def us_def ready_def recurs_def timerisset_def round_ok_def ROUNDUP_us_def)
qed simp_all

text \<open>
  A value that rounding up to a tick makes a whole second is not carried into the seconds, so the kernel refuses
  it: when no other timer is pending, the timer is on the list and the call succeeds, but the interval timer stays off and the alarm never comes.
\<close>

theorem last_tick_never_armed:
  assumes "event_queue st = 0" "itimer st = tv_zero" "e \<noteq> 0" "0 < g_granularity st" "g_granularity st < 1000000" "0 \<le> g_maxevents st"
    "normal (TIMESPEC_TO_TIMEVAL (sp_value val))" "0 < us (TIMESPEC_TO_TIMEVAL (sp_value val))"
    "\<not> tick_ok (g_granularity st) (us (TIMESPEC_TO_TIMEVAL (sp_value val)))"
  shows "\<exists>st'. timer_settime st e val = Some (st', 0) \<and> event_queue st' = e \<and> itimer st' = tv_zero"
proof -
  let ?v = "TIMESPEC_TO_TIMEVAL (sp_value val)" and ?g = "g_granularity st"
  have s: "tv_sec ?v = 0" "0 < tv_usec ?v" "1000000 \<le> ROUNDUP_us (tv_usec ?v) ?g"
  proof -
    have l: "us ?v < 1000000" using assms(9) by (simp add: tick_ok_def)
    show z: "tv_sec ?v = 0" using us_less_second [OF assms(7)] l by blast
    then have u: "us ?v = tv_usec ?v" by (simp add: us_def)
    show "0 < tv_usec ?v" using assms(8) u by simp
    then show "1000000 \<le> ROUNDUP_us (tv_usec ?v) ?g" using assms(9) u by (simp add: tick_ok_def max_def split: if_splits)
  qed
  define t where "t = \<lparr>tv_sec = 0, tv_usec = ROUNDUP_us (tv_usec ?v) ?g\<rparr>"
  have r: "timerisset ?v" "timerisset t" using s by (simp_all add: timerisset_def t_def)
  moreover have "timerroundup ?g ?v = t" by (rule timeval.equality) (use s(1) r in \<open>simp_all add: timerroundup_def Let_def t_def\<close>)
  moreover have "timerroundup ?g t = t"
    by (rule timeval.equality) (use r ROUNDUP_us_idem [OF assms(4)] in \<open>simp_all add: timerroundup_def Let_def t_def\<close>)
  ultimately have r: "timerroundup ?g ?v = t" "timerroundup ?g t = t" "timerisset ?v" "timerisset t" by simp_all
  have m: "march e evs 0 0 = Some (evs, 0, 0)" for evs by (subst march.simps) simp
  have q: "check_queue evs (g_maxevents st) e 0" if "ev_next (evs e) = 0" for evs
    using that assms(3,6) by (simp add: check_queue.simps)
  have tg: "0 < tv_usec t" "?g \<le> tv_usec t" "\<not> tv_usec t < 1000000" "tv_sec t = 0" using s assms(4,5) by (auto simp: t_def)
  show ?thesis
    using assms(1-3) r tg
    by (simp add: timer_settime_def Let_def upd_ev_def block_timer_def unblock_timer_def sync_head_def enqueue_event_def m
        set_link_def check_event_queue_def q arm_head_def setitimer_def)
qed

lemma last_tick_never_armed_witness:
  "\<exists>st'. timer_settime started 100 (after_ms 995) = Some (st', 0) \<and> event_queue st' = 100 \<and> itimer st' = tv_zero"
proof -
  have v: "TIMESPEC_TO_TIMEVAL (sp_value (after_ms 995)) = \<lparr>tv_sec = 0, tv_usec = 995000\<rparr>"
    by (simp add: after_ms_def TIMESPEC_TO_TIMEVAL_def)
  show ?thesis
    by (rule last_tick_never_armed)
      (simp_all add: v normal_def us_def tick_ok_def ROUNDUP_us_def started_pool, simp_all add: started_def init_event_queue_def timers0_def)
qed

end
