(* ===== verification/Nvram_Boot.thy ===== *)
theory Nvram_Boot
  imports Nvram_Commit
begin

text \<open>
  The port of the variable store for direct mapped flash (nvram_rw.c), which the boot loader uses: the allocation of
  tuples, finding and reading the image in the flash window, start-up with the reset button, and the commit. \<open>NANDBOOT\<close> and \<open>__ECOS\<close>
  are off; \<open>_CFE_\<close> is an argument where the file depends on it. The locks are empty in this port.
\<close>

section \<open>Tuples\<close>

text \<open>A tuple's block holds its name and value; the value is known by the address of the block.\<close>

record rw_heap =
  rw_os :: osl
  rw_str :: "addr \<rightharpoonup> cstr"

definition rw_realloc :: "rw_heap \<Rightarrow> nvram_tuple option \<Rightarrow> cstr \<Rightarrow> cstr \<Rightarrow> rw_heap \<times> nvram_tuple option" where
  "rw_realloc h t name val =
     (let (os, p) = MALLOC (rw_os h) in
      if p = 0 then (h\<lparr>rw_os := os\<rparr>, None)
      else (h\<lparr>rw_os := os, rw_str := (rw_str h)(p \<mapsto> val)\<rparr>, Some \<lparr>nt_addr = p, nt_name = name, nt_value = p\<rparr>))"

text \<open>\<open>MFREE\<close> of a null pointer does nothing, and does not evaluate its size argument.\<close>

definition rw_free :: "rw_heap \<Rightarrow> nvram_tuple option \<Rightarrow> rw_heap" where
  "rw_free h t = (case t of None \<Rightarrow> h | Some t \<Rightarrow> h\<lparr>rw_str := (rw_str h)(nt_addr t := None)\<rparr>)"

definition rw_port :: "rw_heap nvram_port" where
  "rw_port = \<lparr>p_realloc = rw_realloc, p_free = rw_free, p_str = (\<lambda>h p. case rw_str h p of None \<Rightarrow> [] | Some s \<Rightarrow> s)\<rparr>"

definition rw_inv :: "rw_heap \<Rightarrow> bool" where
  "rw_inv h \<longleftrightarrow> (\<forall>p. rw_str h p \<noteq> None \<longrightarrow> p \<le> mem_seq (rw_os h))"

definition rw_live :: "rw_heap \<Rightarrow> nvram_tuple \<Rightarrow> bool" where
  "rw_live h t \<longleftrightarrow> nt_addr t = nt_value t \<and> nt_addr t \<le> mem_seq (rw_os h) \<and> (\<exists>s. rw_str h (nt_value t) = Some s \<and> 0 \<notin> set s)"

definition rw_ready :: "rw_heap \<Rightarrow> bool" where
  "rw_ready h \<longleftrightarrow> mem_reliable (rw_os h)"

lemma rw_port_simps [simp]:
  "p_realloc rw_port = rw_realloc" "p_free rw_port = rw_free"
  "p_str rw_port h p = (case rw_str h p of None \<Rightarrow> [] | Some s \<Rightarrow> s)"
  by (simp_all add: rw_port_def)

lemma rw_realloc_cases:
  assumes "rw_realloc h t n v = (h', r)"
  obtains (oom) "r = None" "rw_str h' = rw_str h" "mem_seq (rw_os h') = Suc (mem_seq (rw_os h))" "mem_ok (rw_os h') = mem_ok (rw_os h)"
      "\<not> mem_reliable (rw_os h)"
  | (fresh) "r = Some \<lparr>nt_addr = Suc (mem_seq (rw_os h)), nt_name = n, nt_value = Suc (mem_seq (rw_os h))\<rparr>"
      "rw_str h' = (rw_str h)(Suc (mem_seq (rw_os h)) \<mapsto> v)" "mem_seq (rw_os h') = Suc (mem_seq (rw_os h))"
      "mem_ok (rw_os h') = mem_ok (rw_os h)"
proof (cases "snd (MALLOC (rw_os h)) = 0")
  case True
  with assms show ?thesis by (intro oom) (auto simp: rw_realloc_def MALLOC_def mem_reliable_def split: if_splits)
next
  case False
  with assms show ?thesis by (intro fresh) (auto simp: rw_realloc_def MALLOC_def Let_def split: if_splits)
qed

interpretation rw_nv: nvram_space rw_port rw_inv rw_live rw_ready "\<lambda>_. NVRAM_SPACE"
proof unfold_locales
  fix h t n v h' r
  assume "p_realloc rw_port h t n v = (h', r)"
  then have r: "rw_realloc h t n v = (h', r)" by simp
  then show "rw_inv h \<Longrightarrow> rw_inv h'" by (cases rule: rw_realloc_cases) (auto simp: rw_inv_def intro: le_SucI)
  show "rw_ready h \<Longrightarrow> rw_ready h'" using r by (cases rule: rw_realloc_cases) (auto simp: rw_ready_def mem_reliable_def)
  show "rw_inv h \<Longrightarrow> rw_live h x \<Longrightarrow> rw_live h' x \<and> p_str rw_port h' (nt_value x) = p_str rw_port h (nt_value x)" for x
    using r by (cases rule: rw_realloc_cases) (auto simp: rw_live_def)
next
  fix h and t :: "nvram_tuple option" and n v h' u
  assume "p_realloc rw_port h t n v = (h', Some u)" "rw_inv h" "0 \<notin> set v"
  then have r: "rw_realloc h t n v = (h', Some u)" and v: "0 \<notin> set v" by simp_all
  show "rw_live h' u \<and> nt_name u = n \<and> p_str rw_port h' (nt_value u) = v \<and>
      ((\<exists>x. t = Some x \<and> u = x\<lparr>nt_value := nt_value u\<rparr>) \<or> (\<forall>x. rw_live h x \<longrightarrow> nt_addr x \<noteq> nt_addr u))"
    using r v by (cases rule: rw_realloc_cases) (auto simp: rw_live_def)
next
  fix h :: rw_heap and v :: cstr and t n
  assume "rw_ready h"
  then show "\<exists>h' u. p_realloc rw_port h t n v = (h', Some u) \<and> NVRAM_SPACE \<le> NVRAM_SPACE + (length v + 1)"
    using surjective_pairing [of "rw_realloc h t n v"] by (elim rw_realloc_cases) (auto simp: rw_ready_def prod_eq_iff)
qed (auto simp: rw_live_def rw_inv_def rw_free_def rw_ready_def split: option.splits if_splits)

section \<open>Finding and reading the image\<close>

definition magic_at :: "bytes \<Rightarrow> nat \<Rightarrow> bool option" where
  "magic_at fl p = (if length (drop p fl) < 4 then None else Some (un_le32 (drop p fl) = NVRAM_MAGIC))"

function find_scan :: "bytes \<Rightarrow> nat \<Rightarrow> nat option option" where
  "find_scan fl off =
     (if off = 0 \<or> SI_FLASH2_SZ < off then Some None
      else case magic_at fl (off - NVRAM_SPACE) of
        None \<Rightarrow> None
      | Some True \<Rightarrow> Some (Some (off - NVRAM_SPACE))
      | Some False \<Rightarrow> find_scan fl (2 * off))"
  by pat_completeness auto
termination
  by (relation "measure (\<lambda>(fl, off). Suc SI_FLASH2_SZ - off)") auto

declare find_scan.simps [simp del]

text \<open>
  The memory from the header on, and whether it is the embedded image; \<open>fl\<close> is the flash window and
  \<open>emb\<close> the array linked into the boot loader, when it is one.
\<close>

definition find_embedded :: "bytes \<Rightarrow> bytes option \<Rightarrow> bytes option option" where
  "find_embedded fl emb =
     (case magic_at fl (4 * 1024) of
        None \<Rightarrow> None
      | Some True \<Rightarrow> Some (Some (drop (4 * 1024) fl))
      | Some False \<Rightarrow>
          (case magic_at fl 1024 of
             None \<Rightarrow> None
           | Some True \<Rightarrow> Some (Some (drop 1024 fl))
           | Some False \<Rightarrow>
               (case emb of
                  None \<Rightarrow> Some None
                | Some e \<Rightarrow> map_option (\<lambda>m. if m then Some e else None) (magic_at e 0))))"

definition find_nvram :: "bytes \<Rightarrow> bytes option \<Rightarrow> bool \<Rightarrow> (bytes option \<times> bool) option" where
  "find_nvram fl emb embonly =
     (case (if embonly then Some None else find_scan fl FLASH_MIN) of
        None \<Rightarrow> None
      | Some (Some p) \<Rightarrow> Some (Some (drop p fl), False)
      | Some None \<Rightarrow> map_option (\<lambda>m. (m, True)) (find_embedded fl emb))"

text \<open>\<open>_nvram_read\<close> copies the image in words, up to its length, over what the buffer held.\<close>

definition rw_read :: "bytes option \<Rightarrow> bytes \<Rightarrow> (bytes \<times> int) option" where
  "rw_read header buf =
     (case header of None \<Rightarrow> Some (buf, - 19)
      | Some m \<Rightarrow>
          (case read_header m of None \<Rightarrow> None
           | Some h \<Rightarrow>
               let n = max NVRAM_HEADER_SIZE (ROUNDUP (min (unat (nvh_len h)) NVRAM_SPACE) 4) in
               if length m < n then None else Some (take n m @ drop n buf, 0)))"

section \<open>Start-up\<close>

record rw_nvram =
  rw_nv :: "rw_heap nvram"
  nvram_header :: "bytes option"
  nvram_do_reset :: bool
  nvram_status :: int

text \<open>\<open>_nvram_init\<close> with the port's allocation and reading; \<open>buf\<close> is what the allocated buffer holds.\<close>

definition rw_malloc :: "rw_heap nvram \<Rightarrow> rw_heap nvram \<times> addr" where
  "rw_malloc st = (let (os, p) = MALLOC (rw_os (nv_heap st)) in (st\<lparr>nv_heap := (nv_heap st)\<lparr>rw_os := os\<rparr>\<rparr>, p))"

definition rw_init :: "bytes \<Rightarrow> bytes option \<Rightarrow> rw_heap nvram \<Rightarrow> (rw_heap nvram \<times> int) option" where
  "rw_init buf header st =
     (let (st1, p) = rw_malloc st in
      case rw_read header buf of
        None \<Rightarrow> if p = 0 then Some (st1, - ENOMEM) else None
      | Some (b, r) \<Rightarrow>
          (case read_header b of
             None \<Rightarrow> None
           | Some h \<Rightarrow> nv_init rw_port st1 (p \<noteq> 0) r h (drop NVRAM_HEADER_SIZE b)))"

definition nvram_init :: "bytes \<Rightarrow> bytes option \<Rightarrow> bytes \<Rightarrow> rw_nvram \<Rightarrow> (rw_nvram \<times> int) option" where
  "nvram_init fl emb buf st =
     (let normal = (\<lambda>st.
        (case find_nvram fl emb False of
           None \<Rightarrow> None
         | Some (h, isemb) \<Rightarrow>
             map_option (\<lambda>(s, r). let ret = (if r = 0 \<and> h \<noteq> None \<and> isemb then 1 else r)
                in (st\<lparr>nvram_header := h, rw_nv := s, nvram_status := ret\<rparr>, ret)) (rw_init buf h (rw_nv st))))
      in
        if nvram_status st = 1 then Some (st, 1)
        else if nvram_status st = 0 \<and> \<not> nvram_do_reset st then Some (st, 0)
        else if nvram_do_reset st then
          (case find_nvram fl emb True of
             None \<Rightarrow> None
           | Some (h, _) \<Rightarrow>
               (case rw_init buf h (rw_nv st) of
                  None \<Rightarrow> None
                | Some (s, r) \<Rightarrow>
                    if r = 0 then Some (st\<lparr>nvram_header := h, rw_nv := s, nvram_status := 1\<rparr>, 1)
                    else normal (st\<lparr>nvram_header := h, rw_nv := nv_free rw_port s, nvram_status := - 1\<rparr>)))
        else normal st)"

definition nvram_exit :: "rw_nvram \<Rightarrow> rw_nvram" where
  "nvram_exit st = st\<lparr>rw_nv := nv_free rw_port (rw_nv st)\<rparr>"

definition nvram_append :: int where "nvram_append = 0"

section \<open>The reset button\<close>

text \<open>The pin; making it an input is up to the hardware, which also reads it: \<open>gpioin\<close> at each millisecond.\<close>

definition nvram_resetgpio_init :: "rw_nvram \<Rightarrow> int" where
  "nvram_resetgpio_init st =
     (case nv_get rw_port (rw_nv st) (Some (cstr ''reset_gpio'')) of
        None \<Rightarrow> - 1
      | Some v \<Rightarrow> let gpio = bcm_atoi v in if gpio > 31 then - 1 else gpio)"

definition nvram_reset :: "(nat \<Rightarrow> u32) \<Rightarrow> rw_nvram \<Rightarrow> rw_nvram \<times> bool" where
  "nvram_reset gpioin st =
     (let gpio = nvram_resetgpio_init st in
      if gpio < 0 then (st, False)
      else if list_ex (\<lambda>msec. gpioin msec AND push_bit (nat gpio) 1 \<noteq> 0) [0..<5000] then (st, False)
      else (st\<lparr>nvram_do_reset := True\<rparr>, True))"

section \<open>The interface\<close>

definition rw_nvram_get :: "rw_nvram \<Rightarrow> cstr option \<Rightarrow> cstr option" where
  "rw_nvram_get st name = nv_get rw_port (rw_nv st) name"

definition rw_nvram_getall :: "rw_nvram \<Rightarrow> nat \<Rightarrow> bytes \<times> int" where
  "rw_nvram_getall st count = nv_getall rw_port (rw_nv st) count"

definition rw_nvram_set :: "rw_nvram \<Rightarrow> cstr \<Rightarrow> cstr \<Rightarrow> rw_nvram \<times> int" where
  "rw_nvram_set st name val = (let (s, r) = nv_set rw_port (rw_nv st) name val in (st\<lparr>rw_nv := s\<rparr>, r))"

definition rw_nvram_unset :: "rw_nvram \<Rightarrow> cstr option \<Rightarrow> rw_nvram \<times> int" where
  "rw_nvram_unset st name = (let (s, r) = nv_unset rw_port (rw_nv st) name in (st\<lparr>rw_nv := s\<rparr>, r))"

section \<open>The commit\<close>

text \<open>
  What is handed to the flash routines, in order, and the result. With \<open>_CFE_\<close> the argument is the handle
  \<open>cfe_open\<close> gives or its error; otherwise it is the result of \<open>sysFlashInit\<close>.
\<close>

definition rw_nvram_commit :: "int + int \<Rightarrow> rw_nvram \<Rightarrow> (rw_nvram \<times> bytes list \<times> int) option" where
  "rw_nvram_commit dev st =
     (let (s, p) = rw_malloc (rw_nv st) in
      if p = 0 then Some (st\<lparr>rw_nv := s\<rparr>, [], - ENOMEM)
      else
        map_option (\<lambda>(s1, (hdr, data), r).
            (st\<lparr>rw_nv := s1\<rparr>,
             if r \<noteq> 0 then ([], r)
             else case dev of
               Inl handle \<Rightarrow> (if handle \<ge> 0 then [take (unat (nvh_len hdr)) (header_bytes hdr @ data)] else [], handle)
             | Inr e \<Rightarrow> (if e = 0 then [le32 NVRAM_CLEAR_MAGIC, header_bytes (hdr\<lparr>nvh_magic := NVRAM_INVALID_MAGIC\<rparr>) @ data,
                   le32 NVRAM_MAGIC] else [], 0)))
          (nv_commit rw_port s))"

end
