(* ===== verification/Boot_Properties.thy ===== *)
theory Boot_Properties
  imports Nvram_Boot Store_Properties
begin

text \<open>
  The variable store in the boot loader together with the one in the kernel: what the one commits the
  other reads.
\<close>

section \<open>Laws of the boot loader's port\<close>

definition rw_good :: "rw_heap nvram \<Rightarrow> bool" where
  "rw_good st \<longleftrightarrow> nv_ok rw_inv rw_live st \<and> rw_ready (nv_heap st) \<and> (\<forall>n\<in>dom (nv_vals rw_port st). name_ok n)"

lemma rw_malloc_law:
  assumes "rw_good st"
  shows "\<exists>st1 p. rw_malloc st = (st1, p) \<and> p \<noteq> 0 \<and> rw_good st1 \<and> nv_vals rw_port st1 = nv_vals rw_port st \<and>
    nvram_tuples st1 = nvram_tuples st \<and> rw_str (nv_heap st1) = rw_str (nv_heap st)"
proof -
  let ?h = "(nv_heap st)\<lparr>rw_os := fst (MALLOC (rw_os (nv_heap st)))\<rparr>"
  have r: "mem_reliable (rw_os (nv_heap st))" using assms by (simp add: rw_good_def rw_ready_def)
  have "rw_malloc st = (st\<lparr>nv_heap := ?h\<rparr>, Suc (mem_seq (rw_os (nv_heap st))))"
    using r by (simp add: rw_malloc_def split_beta)
  moreover have i: "rw_inv ?h" "rw_ready ?h" "rw_live (nv_heap st) x \<Longrightarrow> rw_live ?h x" for x
    using assms r by (auto simp: rw_good_def nv_ok_def rw_inv_def rw_ready_def rw_live_def intro: le_SucI)
  moreover have v: "nv_vals rw_port (st\<lparr>nv_heap := ?h\<rparr>) = nv_vals rw_port st" by (simp add: fun_eq_iff nv_vals_lookup)
  moreover have "nv_ok rw_inv rw_live (st\<lparr>nv_heap := ?h\<rparr>)" using assms i(1,3) by (auto simp: rw_good_def nv_ok_def)
  ultimately show ?thesis using assms i(2) by (simp add: rw_good_def)
qed

lemma header_bytes_len: "length (header_bytes h) = NVRAM_HEADER_SIZE"
  by (simp add: header_bytes_def le32_def NVRAM_HEADER_SIZE_def)

lemma take_prefix: "length (take n xs) = n \<Longrightarrow> take n (take n xs @ ys) = take n xs"
  by (subst take_append) simp

text \<open>What the boot loader hands to the flash.\<close>

lemma rw_commit_law:
  assumes g: "rw_good (rw_nv st)" and h: "0 \<le> handle"
  shows "\<exists>st1 s hdr data. rw_nvram_commit (Inl handle) st = Some (st\<lparr>rw_nv := s\<rparr>, [take (unat (nvh_len hdr)) (header_bytes hdr @ data)], handle) \<and>
    rw_good st1 \<and> nv_commit rw_port st1 = Some (s, (hdr, data), 0) \<and> nv_vals rw_port st1 = nv_vals rw_port (rw_nv st) \<and>
    nv_bytes rw_port (nv_heap st1) (nvram_tuples st1) = nv_bytes rw_port (nv_heap (rw_nv st)) (nvram_tuples (rw_nv st)) \<and>
    NVRAM_HEADER_SIZE \<le> unat (nvh_len hdr) \<and> unat (nvh_len hdr) \<le> NVRAM_SPACE \<and> length data = NVRAM_SPACE - NVRAM_HEADER_SIZE"
proof -
  obtain st1 p where m: "rw_malloc (rw_nv st) = (st1, p)" "p \<noteq> 0" "rw_good st1" "nv_vals rw_port st1 = nv_vals rw_port (rw_nv st)"
    "nvram_tuples st1 = nvram_tuples (rw_nv st)" "rw_str (nv_heap st1) = rw_str (nv_heap (rw_nv st))"
    using rw_malloc_law [OF g] by blast
  obtain s hdr data where c: "nv_commit rw_port st1 = Some (s, (hdr, data), 0)" "commit_image rw_port st1 = Some (hdr, data)"
    using rw_nv.commit_law [of st1] m(3) unfolding rw_good_def by blast
  have "nv_bytes rw_port (nv_heap st1) us = nv_bytes rw_port (nv_heap (rw_nv st)) us" for us
    using m(6) by (induction us) (simp_all add: nv_entry_def)
  moreover have "NVRAM_HEADER_SIZE \<le> unat (nvh_len hdr)" "unat (nvh_len hdr) \<le> NVRAM_SPACE" "length data = NVRAM_SPACE - NVRAM_HEADER_SIZE"
    using commit_image_Some [of rw_port st1] c(2) by auto
  ultimately show ?thesis using m c(1) h
    by - (rule exI [of _ st1], rule exI [of _ s], rule exI [of _ hdr], rule exI [of _ data], simp add: rw_nvram_commit_def)
qed

section \<open>From the boot loader to the kernel\<close>

text \<open>
  C5: what the boot loader commits the kernel reads: when the flash device gives a block that starts with what was
  written, the start-up of the kernel's store succeeds, and every variable has the value it has in the boot
  loader after the commit, up to the memory parameters filled in from the header; none is lost when the table fits into the image.
\<close>

theorem boot_commit_linux_reads:
  assumes g: "rw_good (rw_nv st)" and h: "0 \<le> handle" and l: "linux_inv (nv_heap st0)" "linux_ready (nv_heap st0)"
  shows "\<exists>st' w. rw_nvram_commit (Inl handle) st = Some (st', [w], handle) \<and> length w \<le> NVRAM_SPACE \<and>
    (\<forall>(M :: 'f mtd) f f' rest. length (w @ rest) = NVRAM_SPACE \<longrightarrow>
       mtd_read M f (mtd_size M - of_nat NVRAM_SPACE) NVRAM_SPACE = (f', 0, NVRAM_SPACE, w @ rest) \<longrightarrow>
       (\<exists>st2. linux_nvram_init (Some M) True st0 f = Some (st2, f', 0) \<and>
          (\<forall>n. n \<notin> sdram_names \<longrightarrow> nv_vals linux_port st2 n = nv_vals rw_port (rw_nv st') n) \<and>
          (length (nv_bytes rw_port (nv_heap (rw_nv st)) (nvram_tuples (rw_nv st))) \<le> AREA \<longrightarrow>
             nv_vals rw_port (rw_nv st) \<subseteq>\<^sub>m nv_vals linux_port st2)))"
proof -
  obtain st1 s hdr data where c: "rw_nvram_commit (Inl handle) st = Some (st\<lparr>rw_nv := s\<rparr>, [take (unat (nvh_len hdr)) (header_bytes hdr @ data)], handle)"
    "rw_good st1" "nv_commit rw_port st1 = Some (s, (hdr, data), 0)" "nv_vals rw_port st1 = nv_vals rw_port (rw_nv st)"
    "nv_bytes rw_port (nv_heap st1) (nvram_tuples st1) = nv_bytes rw_port (nv_heap (rw_nv st)) (nvram_tuples (rw_nv st))"
    "NVRAM_HEADER_SIZE \<le> unat (nvh_len hdr)" "unat (nvh_len hdr) \<le> NVRAM_SPACE" "length data = NVRAM_SPACE - NVRAM_HEADER_SIZE"
    using rw_commit_law [OF g h] by blast
  let ?L = "unat (nvh_len hdr)" and ?w = "take (unat (nvh_len hdr)) (header_bytes hdr @ data)"
  have wl: "length ?w = ?L" using c(6-8) by (simp add: header_bytes_len)
  have ok: "nv_ok rw_inv rw_live st1" "rw_ready (nv_heap st1)" "\<forall>n\<in>dom (nv_vals rw_port st1). name_ok n"
    using c(2) by (simp_all add: rw_good_def)
  have rd: "\<exists>st2. linux_nvram_init (Some M) True st0 f = Some (st2, f', 0) \<and>
      (\<forall>n. n \<notin> sdram_names \<longrightarrow> nv_vals linux_port st2 n = nv_vals rw_port (rw_nv (st\<lparr>rw_nv := s\<rparr>)) n) \<and>
      (length (nv_bytes rw_port (nv_heap (rw_nv st)) (nvram_tuples (rw_nv st))) \<le> AREA \<longrightarrow>
         nv_vals rw_port (rw_nv st) \<subseteq>\<^sub>m nv_vals linux_port st2)"
    if b: "length (?w @ rest) = NVRAM_SPACE" "mtd_read M f (mtd_size M - of_nat NVRAM_SPACE) NVRAM_SPACE = (f', 0, NVRAM_SPACE, ?w @ rest)"
    for M :: "'f mtd" and f f' rest
  proof -
    let ?b = "?w @ rest"
    have i: "image_at ?b = ?b" using b(1) by (simp add: image_at_def)
    have hb: "holds_image ?b hdr data" unfolding holds_image_def i by (rule take_prefix) (rule wl)
    note hp = holds_image_parts [OF hb c(6), unfolded i]
    obtain kvs where k: "image_vars (image_area (drop NVRAM_HEADER_SIZE ?b)) = Some kvs" "nvh_magic hdr = NVRAM_MAGIC"
      "\<forall>n. n \<notin> sdram_names \<longrightarrow> nv_vals rw_port s n = map_of (rev kvs) n"
      "length (nv_bytes rw_port (nv_heap st1) (nvram_tuples st1)) \<le> AREA \<longrightarrow> nv_vals rw_port st1 = map_of (rev kvs)"
      using rw_nv.image_written [OF ok c(3) hp(2)] by blast
    obtain st2 where s2: "nv_rehash linux_port st0 hdr (drop NVRAM_HEADER_SIZE ?b) = Some (st2, 0)"
      "map_of (rev kvs) \<subseteq>\<^sub>m nv_vals linux_port st2" "\<forall>n. n \<notin> sdram_names \<longrightarrow> nv_vals linux_port st2 n = map_of (rev kvs) n"
      using linux_nv.rehash_law [OF l k(1), of hdr] by blast
    have "linux_nvram_init (Some M) True st0 f = Some (st2, f', 0)"
      using b(2) hp(1) k(2) s2(1) by (simp add: linux_nvram_init_def nvram_read_def nv_init_def)
    then show ?thesis using s2(2,3) k(3,4) c(4,5) by simp
  qed
  show ?thesis
    by (rule exI [of _ "st\<lparr>rw_nv := s\<rparr>"], rule exI [of _ ?w], intro conjI allI impI)
      (use c(1) in blast, use wl c(7) in simp, rule rd)
qed

text \<open>A store with the variable \<open>a=1\<close>, and a device over the bytes the boot loader wrote.\<close>

definition fresh_rw :: "rw_heap nvram" where
  "fresh_rw = \<lparr>nvram_hash = (\<lambda>_. []), nvram_dead = [], nv_heap = \<lparr>rw_os = \<lparr>mem_seq = 0, mem_ok = (\<lambda>_. True)\<rparr>, rw_str = Map.empty\<rparr>\<rparr>"

definition rw_one :: rw_nvram where
  "rw_one = \<lparr>rw_nv = fst (nv_set rw_port fresh_rw (cstr ''a'') (cstr ''1'')), nvram_header = None, nvram_do_reset = False, nvram_status = 0\<rparr>"

definition ram_mtd :: "bytes mtd" where
  "ram_mtd = \<lparr>mtd_size = of_nat NVRAM_SPACE, mtd_erasesize = of_nat NVRAM_SPACE, mtd_read = (\<lambda>f p n. (f, 0, n, take n (drop (unat p) f))),
     mtd_write = (\<lambda>f p b. (f, 0, 0)), mtd_erase = (\<lambda>f p n. (f, 0)), mtd_unlock = None\<rparr>"

lemma fresh_rw_ok: "nv_ok rw_inv rw_live fresh_rw" "rw_ready (nv_heap fresh_rw)" "nv_vals rw_port fresh_rw = Map.empty"
proof -
  have "nvt.wf (nvram_hash fresh_rw)" by (rule nvt.wf_empty) (simp add: fresh_rw_def)
  then show "nv_ok rw_inv rw_live fresh_rw" by (simp add: nv_ok_def fresh_rw_def rw_inv_def ht_nodes_def)
  show "rw_ready (nv_heap fresh_rw)" "nv_vals rw_port fresh_rw = Map.empty"
    by (simp_all add: fresh_rw_def rw_ready_def mem_reliable_def fun_eq_iff nv_vals_lookup nvt.lookup_empty)
qed

lemma rw_one_good: "rw_good (rw_nv rw_one)" "nv_vals rw_port (rw_nv rw_one) = [cstr ''a'' \<mapsto> cstr ''1'']"
proof -
  have "0 \<notin> set (cstr ''1'')" "length (cstr ''1'') + 1 \<le> NVRAM_SPACE" by (simp_all add: cstr_def NVRAM_SPACE_def)
  note s = rw_nv.set_room(1) [OF fresh_rw_ok(1,2) this(2,1), of "cstr ''a''"] rw_nv.set_room(3) [OF fresh_rw_ok(1,2) this(2,1), of "cstr ''a''"]
    rw_nv.set_ready [OF fresh_rw_ok(2)]
  have "rw_nv rw_one = fst (nv_set rw_port fresh_rw (cstr ''a'') (cstr ''1''))" by (simp add: rw_one_def)
  moreover have "name_ok (cstr ''a'')" by (simp add: name_ok_def cstr_def)
  ultimately show "rw_good (rw_nv rw_one)" "nv_vals rw_port (rw_nv rw_one) = [cstr ''a'' \<mapsto> cstr ''1'']"
    using s(1,2,3) fresh_rw_ok(3) by (simp_all add: rw_good_def)
qed

theorem boot_commit_linux_reads_witness:
  "\<exists>st' w rest. rw_nvram_commit (Inl 3) rw_one = Some (st', [w], 3) \<and>
     (\<exists>st2. linux_nvram_init (Some ram_mtd) True fresh_nv (w @ rest) = Some (st2, w @ rest, 0) \<and>
        (\<forall>n. n \<notin> sdram_names \<longrightarrow> nv_vals linux_port st2 n = nv_vals rw_port (rw_nv st') n))"
proof -
  have l: "linux_inv (nv_heap fresh_nv)" "linux_ready (nv_heap fresh_nv)" using fresh_heap_ok by (simp_all add: fresh_nv_def)
  have h: "0 \<le> (3 :: int)" by simp
  obtain st' w where s: "rw_nvram_commit (Inl 3) rw_one = Some (st', [w], 3)" "length w \<le> NVRAM_SPACE"
    "\<forall>(M :: bytes mtd) f f' rest. length (w @ rest) = NVRAM_SPACE \<longrightarrow>
       mtd_read M f (mtd_size M - of_nat NVRAM_SPACE) NVRAM_SPACE = (f', 0, NVRAM_SPACE, w @ rest) \<longrightarrow>
       (\<exists>st2. linux_nvram_init (Some M) True fresh_nv f = Some (st2, f', 0) \<and>
          (\<forall>n. n \<notin> sdram_names \<longrightarrow> nv_vals linux_port st2 n = nv_vals rw_port (rw_nv st') n) \<and>
          (length (nv_bytes rw_port (nv_heap (rw_nv rw_one)) (nvram_tuples (rw_nv rw_one))) \<le> AREA \<longrightarrow>
             nv_vals rw_port (rw_nv rw_one) \<subseteq>\<^sub>m nv_vals linux_port st2))"
    using boot_commit_linux_reads [OF rw_one_good(1) h l, where 'f = bytes] by (elim exE conjE) (rule that)
  let ?rest = "replicate (NVRAM_SPACE - length w) 0"
  have "length (w @ ?rest) = NVRAM_SPACE" using s(2) by simp
  moreover have "mtd_read ram_mtd (w @ ?rest) (mtd_size ram_mtd - of_nat NVRAM_SPACE) NVRAM_SPACE = (w @ ?rest, 0, NVRAM_SPACE, w @ ?rest)"
    using s(2) by (simp add: ram_mtd_def)
  ultimately obtain st2 where "linux_nvram_init (Some ram_mtd) True fresh_nv (w @ ?rest) = Some (st2, w @ ?rest, 0)"
    "\<forall>n. n \<notin> sdram_names \<longrightarrow> nv_vals linux_port st2 n = nv_vals rw_port (rw_nv st') n" using s(3) by metis
  then show ?thesis using s(1) by blast
qed

section \<open>The reset button\<close>

lemma read_header_prefix:
  assumes "take NVRAM_HEADER_SIZE a = take NVRAM_HEADER_SIZE b" "NVRAM_HEADER_SIZE \<le> length a" "NVRAM_HEADER_SIZE \<le> length b"
  shows "read_header a = read_header b"
proof -
  have "a ! i = b ! i" if "i < 20" for i using assms(1) that by (metis NVRAM_HEADER_SIZE_def nth_take)
  then show ?thesis using assms(2,3) by (simp add: read_header_def un_le32_def NVRAM_HEADER_SIZE_def)
qed

lemma rw_init_law:
  assumes st: "rw_inv (nv_heap st)" "rw_ready (nv_heap st)" and b: "length buf = NVRAM_SPACE"
    and m: "read_header m = Some h" "nvh_magic h = NVRAM_MAGIC" "NVRAM_SPACE \<le> length m"
  shows "\<exists>s b kvs. rw_init buf (Some m) st = Some (s, 0) \<and> rw_read (Some m) buf = Some (b, 0) \<and>
    image_vars (image_area (drop NVRAM_HEADER_SIZE b)) = Some kvs \<and>
    (\<forall>n. n \<notin> sdram_names \<longrightarrow> nv_vals rw_port s n = map_of (rev kvs) n)"
proof -
  define n where "n = max NVRAM_HEADER_SIZE (ROUNDUP (min (unat (nvh_len h)) NVRAM_SPACE) 4)"
  have "ROUNDUP x 4 \<le> NVRAM_SPACE" if "x \<le> NVRAM_SPACE" for x
    using that unfolding ROUNDUP_def NVRAM_SPACE_def by (simp add: less_mult_imp_div_less div_le_mono)
  then have n: "NVRAM_HEADER_SIZE \<le> n" "n \<le> NVRAM_SPACE" by (auto simp: n_def NVRAM_HEADER_SIZE_def NVRAM_SPACE_def)
  let ?b = "take n m @ drop n buf"
  have rd: "rw_read (Some m) buf = Some (?b, 0)" using m(1,3) n(2) by (simp add: rw_read_def n_def [symmetric] Let_def)
  have "read_header ?b = read_header m"
    by (rule read_header_prefix) (use n m(3) b in \<open>auto simp: min_def\<close>)
  then have hb: "read_header ?b = Some h" using m(1) by simp
  obtain st1 p where a: "rw_malloc st = (st1, p)" "p \<noteq> 0" "rw_inv (nv_heap st1)" "rw_ready (nv_heap st1)"
    using st by (auto simp: rw_malloc_def split_beta rw_ready_def rw_inv_def intro: le_SucI)
  obtain kvs where k: "image_vars (image_area (drop NVRAM_HEADER_SIZE ?b)) = Some kvs" using image_area_closed by blast
  obtain s where s: "nv_rehash rw_port st1 h (drop NVRAM_HEADER_SIZE ?b) = Some (s, 0)"
    "\<forall>n. n \<notin> sdram_names \<longrightarrow> nv_vals rw_port s n = map_of (rev kvs) n"
    using rw_nv.rehash_law [OF a(3,4) k, of h] by blast
  have "rw_init buf (Some m) st = Some (s, 0)" using a(1,2) rd hb m(2) s(1) by (simp add: rw_init_def nv_init_def)
  then show ?thesis using rd k s(2) by blast
qed

lemma find_embedded_header:
  assumes "find_embedded fl emb = Some (Some m)" "NVRAM_HEADER_SIZE \<le> length m"
  shows "\<exists>h. read_header m = Some h \<and> nvh_magic h = NVRAM_MAGIC"
  using assms by (auto simp: find_embedded_def magic_at_def read_header_def split: option.splits bool.splits if_splits)

text \<open>
  C36: when the reset button was held, the start-up loads the image embedded in the boot loader, whatever the store and
  the flash hold, and says so; further starts change nothing and say so again.
\<close>

theorem reset_restores_defaults:
  assumes "rw_inv (nv_heap (rw_nv st))" "rw_ready (nv_heap (rw_nv st))" "nvram_do_reset st" "nvram_status st \<noteq> 1"
    "length buf = NVRAM_SPACE"
    "find_embedded fl emb = Some (Some m)" "NVRAM_SPACE \<le> length m"
  shows "\<exists>st' b kvs. nvram_init fl emb buf st = Some (st', 1) \<and> rw_read (Some m) buf = Some (b, 0) \<and>
    image_vars (image_area (drop NVRAM_HEADER_SIZE b)) = Some kvs \<and>
    (\<forall>n. n \<notin> sdram_names \<longrightarrow> rw_nvram_get st' (Some n) = map_of (rev kvs) n) \<and>
    (\<forall>fl' emb' buf'. nvram_init fl' emb' buf' st' = Some (st', 1))"
proof -
  have "NVRAM_HEADER_SIZE \<le> length m" using assms(7) by (simp add: NVRAM_HEADER_SIZE_def NVRAM_SPACE_def)
  then obtain h where h: "read_header m = Some h" "nvh_magic h = NVRAM_MAGIC" using find_embedded_header [OF assms(6)] by blast
  obtain s b kvs where s: "rw_init buf (Some m) (rw_nv st) = Some (s, 0)" "rw_read (Some m) buf = Some (b, 0)"
    "image_vars (image_area (drop NVRAM_HEADER_SIZE b)) = Some kvs" "\<forall>n. n \<notin> sdram_names \<longrightarrow> nv_vals rw_port s n = map_of (rev kvs) n"
    using rw_init_law [OF assms(1,2,5) h assms(7)] by blast
  let ?st' = "st\<lparr>nvram_header := Some m, rw_nv := s, nvram_status := 1\<rparr>"
  have "nvram_init fl emb buf st = Some (?st', 1)"
    using assms(3,4,6) s(1) by (simp add: nvram_init_def find_nvram_def)
  moreover have "nvram_init fl' emb' buf' ?st' = Some (?st', 1)" for fl' emb' buf' by (simp add: nvram_init_def)
  moreover have "rw_nvram_get ?st' (Some n) = map_of (rev kvs) n" if "n \<notin> sdram_names" for n
    using s(4) that by (simp add: rw_nvram_get_def nv_vals_def)
  ultimately show ?thesis using s(2,3) by blast
qed

text \<open>An embedded image without variables, and a store that cannot be read from flash.\<close>

definition held :: rw_nvram where
  "held = \<lparr>rw_nv = fresh_rw, nvram_header = None, nvram_do_reset = True, nvram_status = - 1\<rparr>"

definition embedded_fl :: bytes where
  "embedded_fl = replicate 4096 0xff @ le32 NVRAM_MAGIC @ replicate NVRAM_SPACE 0"

theorem reset_restores_defaults_witness:
  "\<exists>st'. nvram_init embedded_fl None (replicate NVRAM_SPACE 0xff) held = Some (st', 1) \<and>
     nvram_init [] None [] st' = Some (st', 1)"
proof -
  have u: "un_le32 (le32 NVRAM_MAGIC @ r) = NVRAM_MAGIC" for r by (simp add: un_le32_def le32_def NVRAM_MAGIC_def)
  have f: "find_embedded embedded_fl None = Some (Some (le32 NVRAM_MAGIC @ replicate NVRAM_SPACE 0))"
    by (simp add: find_embedded_def magic_at_def embedded_fl_def u)
  have "rw_inv (nv_heap (rw_nv held))" "rw_ready (nv_heap (rw_nv held))" "nvram_do_reset held" "nvram_status held \<noteq> 1"
    using fresh_rw_ok by (simp_all add: held_def nv_ok_def)
  from reset_restores_defaults [OF this _ f, of "replicate NVRAM_SPACE 0xff"] show ?thesis by auto
qed

end
