(* ===== verification/Dma_Ring.thy ===== *)
theory Dma_Ring
  imports Router_Prelude
begin

text \<open>
  Descriptor rings of hnddma.c: the index macros, which mask instead of dividing and so rely on a ring
  size that is a power of two, and the window of a ring, the entries from one index on in the order
  the indices are stepped through.
\<close>

section \<open>The index macros\<close>

definition XXD :: "u32 \<Rightarrow> u32 \<Rightarrow> u32" where
  "XXD x n = x AND (n - 1)"

text \<open>Array accesses; outside the array is \<open>None\<close>.\<close>

definition rd :: "'a list \<Rightarrow> nat \<Rightarrow> 'a option" where
  "rd xs i = (if i < length xs then Some (xs ! i) else None)"

definition wr :: "'a list \<Rightarrow> nat \<Rightarrow> 'a \<Rightarrow> 'a list option" where
  "wr xs i v = (if i < length xs then Some (xs[i := v]) else None)"

section \<open>Masking is taking the remainder\<close>

definition ring_size :: "u16 \<Rightarrow> bool" where
  "ring_size n \<longleftrightarrow> (\<exists>k\<le>9. unat n = 2 ^ k)"

lemma ring_sizeD:
  assumes "ring_size n"
  shows "0 < unat n" "unat n \<le> 512"
proof -
  obtain k where k: "k \<le> 9" "unat n = 2 ^ k" using assms by (auto simp: ring_size_def)
  have "(2 :: nat) ^ k \<le> 2 ^ 9" using k(1) by (intro power_increasing) auto
  then show "0 < unat n" "unat n \<le> 512" using k by auto
qed

lemma XXD_mod:
  assumes "ring_size n"
  shows "unat (XXD x (ucast n)) = unat x mod unat n"
proof -
  obtain k where k: "k \<le> 9" "unat n = 2 ^ k" using assms by (auto simp: ring_size_def)
  have p: "(2 :: nat) ^ k \<le> 2 ^ 9" using k(1) by (intro power_increasing) auto
  have "unat (ucast n :: u32) = unat (of_nat (2 ^ k) :: u32)"
    using k p by (simp add: unsigned_ucast_eq take_bit_nat_eq_self unat_of_nat32 del: of_nat_power)
  then have n: "(ucast n :: u32) = 2 ^ k" by (simp only: word_unat_eq_iff [symmetric] of_nat_power of_nat_numeral)
  have "XXD x (ucast n) = take_bit k x"
    unfolding XXD_def n by (simp add: take_bit_eq_mask mask_eq_decr_exp)
  then have "unat (XXD x (ucast n)) = take_bit k (unat x)" by (simp add: unsigned_take_bit_eq)
  then show ?thesis using k(2) by (simp add: take_bit_eq_mod)
qed

lemma XXD_lt: "ring_size n \<Longrightarrow> unat (XXD x (ucast n)) < unat n"
  using XXD_mod [of n x] ring_sizeD [of n] by simp

lemma XXD_id: "ring_size n \<Longrightarrow> unat x < unat n \<Longrightarrow> XXD x (ucast n) = x"
  by (simp add: word_unat_eq_iff XXD_mod)

lemma unat_ucast16: "unat (x :: u32) < 65536 \<Longrightarrow> unat (ucast x :: u16) = unat x"
  by (simp add: unsigned_ucast_eq take_bit_nat_eq_self)

lemma unat_lt16: "unat (i :: u16) < 65536"
  by (rule order_less_le_trans [OF unsigned_less]) simp

lemma ucast16_32 [simp]: "unat (ucast (i :: u16) :: u32) = unat i"
  using unat_lt16 [of i] by (simp add: unsigned_ucast_eq take_bit_nat_eq_self)

lemma mod_pow32: "k \<le> 9 \<Longrightarrow> x mod 4294967296 mod 2 ^ k = x mod (2 ^ k :: nat)"
proof -
  assume "k \<le> 9"
  then have "(2 :: nat) ^ k dvd 2 ^ 32" by (intro le_imp_power_dvd) simp
  then show ?thesis using mod_mod_cancel [of "2 ^ k" "2 ^ 32" x] by simp
qed

lemma XXD_add:
  assumes "ring_size n"
  shows "unat (XXD (x + y) (ucast n)) = (unat x + unat y) mod unat n"
proof -
  obtain k where k: "k \<le> 9" "unat n = 2 ^ k" using assms by (auto simp: ring_size_def)
  show ?thesis unfolding XXD_mod [OF assms] by (simp add: unat_word_ariths k mod_pow32)
qed

lemma XXD_sub:
  assumes "ring_size n" "unat y \<le> unat n"
  shows "unat (XXD (x - y) (ucast n)) = (unat x + unat n - unat y) mod unat n"
proof -
  obtain k where k: "k \<le> 9" "unat n = 2 ^ k" using assms by (auto simp: ring_size_def)
  have "x - y + y = x" by simp
  then have "unat x mod unat n = (unat (x - y) + unat y) mod unat n"
    using XXD_add [OF assms(1), of "x - y" y] XXD_mod [OF assms(1), of x] by simp
  then have "(unat x + (unat n - unat y)) mod unat n = ((unat (x - y) + unat y) + (unat n - unat y)) mod unat n"
    by (metis mod_add_left_eq)
  then show ?thesis using assms(2) by (simp add: XXD_mod [OF assms(1)])
qed

text \<open>Stepping an index on and back, and the number of steps between two.\<close>

lemma ring_lt16: "ring_size n \<Longrightarrow> x mod unat n < 65536"
  using ring_sizeD [of n] by (intro order_less_trans [OF mod_less_divisor]) auto

lemma ring_index: "ring_size n \<Longrightarrow> unat (ucast (XXD x (ucast n)) :: u16) = unat (XXD x (ucast n))"
  by (rule unat_ucast16) (simp add: XXD_mod ring_lt16)

lemma ring_next: "ring_size n \<Longrightarrow> unat (ucast (XXD (ucast (i :: u16) + 1) (ucast n)) :: u16) = Suc (unat i) mod unat n"
  by (simp add: ring_index XXD_add)

lemma ring_prev: "ring_size n \<Longrightarrow> unat (ucast (XXD (ucast (i :: u16) - 1) (ucast n)) :: u16) = (unat i + unat n - 1) mod unat n"
  using XXD_sub [of n 1 "ucast i"] ring_sizeD [of n] by (simp add: ring_index)

lemma ring_steps:
  assumes "ring_size n" "unat h < unat n" "unat (t :: u16) = (unat (h :: u16) + m) mod unat n" "m < unat n"
  shows "unat (XXD (ucast t - ucast h) (ucast n)) = m"
proof -
  have "unat (XXD (ucast t - ucast h) (ucast n)) = ((unat h + m) mod unat n + (unat n - unat h)) mod unat n"
    using XXD_sub [OF assms(1), of "ucast h" "ucast t"] assms(2,3) by simp
  also have "\<dots> = (unat h + m + (unat n - unat h)) mod unat n" by (rule mod_add_left_eq)
  also have "\<dots> = m" using assms(2,4) by simp
  finally show ?thesis .
qed

section \<open>Views\<close>

text \<open>
  \<open>rotate i xs\<close> shows a ring from index \<open>i\<close> on. Overwriting the entry at the index and stepping on
  takes the first entry of the view away and puts the new one at its end.
\<close>

lemma ring_inj_le: "j \<le> k \<Longrightarrow> k < n \<Longrightarrow> (i + k) mod n = (i + j) mod n \<Longrightarrow> k = (j :: nat)"
proof -
  assume a: "j \<le> k" "k < n" "(i + k) mod n = (i + j) mod n"
  then have "n dvd (i + k) - (i + j)" using mod_eq_dvd_iff_nat [of "i + j" "i + k" n] by simp
  then have "n dvd k - j" by simp
  then show "k = j" using a(1,2) by (auto dest: dvd_imp_le)
qed

lemma ring_inj: "j < n \<Longrightarrow> k < n \<Longrightarrow> (i + k) mod n = (i + j) mod n \<longleftrightarrow> k = (j :: nat)"
  by (metis linear ring_inj_le)

lemma rotate_drop: "i < length xs \<Longrightarrow> rotate i xs = drop i xs @ take i xs"
  by (simp add: rotate_drop_take)

lemma tl_drop_Suc: "tl (drop i xs) = drop (Suc i) xs"
  by (simp add: drop_Suc drop_tl)

lemma rotate_at: "i < length xs \<Longrightarrow> rotate i xs = xs ! i # tl (rotate i xs)"
  unfolding rotate_drop by (subst (1 2) Cons_nth_drop_Suc [symmetric]) simp_all

lemma rotate_split: "length us = m \<Longrightarrow> rotate m (us @ vs) = vs @ us"
  by (auto simp: rotate_append)

lemma ring_pop: "i < length xs \<Longrightarrow> rotate (Suc i) (xs[i := v]) = tl (rotate i xs) @ [v]"
proof -
  assume i: "i < length xs"
  then have "xs[i := v] = (take i xs @ [v]) @ drop (Suc i) xs" by (simp add: upd_conv_take_nth_drop)
  moreover have "rotate (Suc i) ((take i xs @ [v]) @ drop (Suc i) xs) = drop (Suc i) xs @ take i xs @ [v]"
    using i by (subst rotate_split) simp_all
  moreover have "tl (rotate i xs) = drop (Suc i) xs @ take i xs"
    using i by (simp add: rotate_drop tl_append2 tl_drop_Suc)
  ultimately show ?thesis by simp
qed

lemma ring_upd:
  assumes "k < length xs"
  shows "rotate i (xs[(i + k) mod length xs := v]) = (rotate i xs)[k := v]"
proof (rule nth_equalityI)
  fix j
  assume "j < length (rotate i (xs[(i + k) mod length xs := v]))"
  then have j: "j < length xs" by simp
  then have "0 < length xs" by linarith
  then have "(i + k) mod length xs < length xs" by simp
  with j assms show "rotate i (xs[(i + k) mod length xs := v]) ! j = (rotate i xs)[k := v] ! j"
    using ring_inj [OF j assms, of i] by (simp add: nth_rotate nth_list_update)
qed simp

lemma ring_nth: "k < length xs \<Longrightarrow> xs ! ((i + k) mod length xs) = rotate i xs ! k"
  by (simp add: nth_rotate)

lemma rotate_mod: "length xs = n \<Longrightarrow> rotate (i mod n) xs = rotate i xs"
  using rotate_conv_mod [of i xs] by simp

lemma ring_step: "length xs = n \<Longrightarrow> i < n \<Longrightarrow> rotate (Suc i mod n) (xs[i := v]) = tl (rotate i xs) @ [v]"
  using rotate_mod [of "xs[i := v]" n "Suc i"] ring_pop [of i xs v] by (simp only: length_list_update)

text \<open>Entries written from an index on, seen from an index before it.\<close>

lemma ring_write:
  assumes "length xs = n" "length ys = n" "i < n" "m + k \<le> n" "length ds = k"
    and "rotate ((i + m + k) mod n) ys = drop k (rotate ((i + m) mod n) xs) @ ds"
  shows "rotate i ys = take m (rotate i xs) @ ds @ drop (m + k) (rotate i xs)"
proof -
  let ?w = "take m (rotate i xs)" and ?r = "drop m (rotate i xs)"
  have l: "length ?w = m" "length ?r = n - m" using assms by simp_all
  have "rotate ((i + m) mod n) xs = rotate (m + i) xs" using assms(1) by (simp add: rotate_mod add.commute)
  also have "\<dots> = rotate m (?w @ ?r)" by (simp add: rotate_rotate)
  also have "\<dots> = ?r @ ?w" using l by (intro rotate_split)
  finally have e: "rotate ((i + m) mod n) xs = ?r @ ?w" .
  have "rotate ((i + m + k) mod n) ys = drop k ?r @ ?w @ ds"
    unfolding assms(6) e using assms(4) l by simp
  then have "rotate (n - m - k) (rotate (i + m + k) ys) = rotate (n - m - k) (drop k ?r @ (?w @ ds))"
    using assms(2) by (simp add: rotate_mod)
  also have "\<dots> = (?w @ ds) @ drop k ?r" using l by (intro rotate_split) simp
  finally have "rotate (n - m - k + (i + m + k)) ys = (?w @ ds) @ drop k ?r" by (simp only: rotate_rotate)
  moreover have "rotate (n - m - k + (i + m + k)) ys = rotate i ys"
    using assms(2-4) rotate_mod [of ys n "n - m - k + (i + m + k)"] by simp
  ultimately show ?thesis by (simp add: add.commute)
qed

section \<open>Rings as queues\<close>

text \<open>
  A ring of \<open>n\<close> descriptors \<open>ds\<close> and pointers \<open>ps\<close> holds the entries \<open>es\<close> from index \<open>i\<close> up to index \<open>o\<close>;
  everywhere else the pointers are null.
\<close>

definition ring_holds :: "u16 \<Rightarrow> u16 \<Rightarrow> u16 \<Rightarrow> 'd list \<Rightarrow> nat list \<Rightarrow> ('d \<times> nat) list \<Rightarrow> bool" where
  "ring_holds n i q ds ps es \<longleftrightarrow>
     ring_size n \<and> length ds = unat n \<and> length ps = unat n \<and> unat i < unat n \<and> length es < unat n \<and>
     unat q = (unat i + length es) mod unat n \<and>
     rotate (unat i) ps = map snd es @ replicate (unat n - length es) 0 \<and>
     take (length es) (rotate (unat i) ds) = map fst es"

lemma ring_holds_ends: "ring_holds n i q ds ps es \<Longrightarrow> unat i < unat n \<and> unat q < unat n"
  by (simp add: ring_holds_def)

lemma ring_holds_empty: "ring_holds n i q ds ps es \<Longrightarrow> i = q \<longleftrightarrow> es = []"
  using ring_inj [of 0 "unat n" "length es" "unat i"] by (auto simp: ring_holds_def word_unat_eq_iff)

lemma ring_holds_count: "ring_holds n i q ds ps es \<Longrightarrow> unat (XXD (ucast q - ucast i) (ucast n)) = length es"
  by (rule ring_steps) (auto simp: ring_holds_def)

text \<open>Taking the first entry, and appending one.\<close>

lemma ring_holds_pop:
  assumes "ring_holds n i q ds ps (e # es)" "unat i' = Suc (unat i) mod unat n"
  shows "ps ! unat i = snd e" "ds ! unat i = fst e" "ring_holds n i' q (ds[unat i := x]) (ps[unat i := 0]) es"
proof -
  let ?n = "unat n"
  have h: "ring_size n" "length ds = ?n" "length ps = ?n" "unat i < ?n" "Suc (length es) < ?n"
    "unat q = (unat i + Suc (length es)) mod ?n"
    and p: "rotate (unat i) ps = snd e # map snd es @ replicate (?n - Suc (length es)) 0"
    and d: "take (Suc (length es)) (rotate (unat i) ds) = fst e # map fst es"
    using assms(1) by (simp_all add: ring_holds_def)
  have rp: "rotate (unat i) ps = ps ! unat i # tl (rotate (unat i) ps)"
    and rd: "rotate (unat i) ds = ds ! unat i # tl (rotate (unat i) ds)"
    using h by (metis rotate_at)+
  show "ps ! unat i = snd e" using p rp by simp
  show "ds ! unat i = fst e" using d rd by (metis list.sel(1) take_Suc_Cons)
  have td: "take (length es) (tl (rotate (unat i) ds)) = map fst es"
    using d rd by (metis list.sel(3) take_Suc_Cons)
  have l: "?n - length es = Suc (?n - Suc (length es))" using h(5) by simp
  have "rotate (unat i') (ps[unat i := 0]) = tl (rotate (unat i) ps) @ [0]"
    unfolding assms(2) using h by (intro ring_step)
  also have "\<dots> = map snd es @ replicate (?n - length es) 0" using p l by (simp add: replicate_append_same)
  finally have 1: "rotate (unat i') (ps[unat i := 0]) = \<dots>" .
  have "rotate (unat i') (ds[unat i := x]) = tl (rotate (unat i) ds) @ [x]"
    unfolding assms(2) using h by (intro ring_step)
  then have 2: "take (length es) (rotate (unat i') (ds[unat i := x])) = map fst es" using td h by simp
  have "unat q = (unat i' + length es) mod ?n" unfolding assms(2) mod_add_left_eq h(6) by simp
  moreover have "unat i' < ?n" unfolding assms(2) using h(4) by (intro mod_less_divisor) simp
  ultimately show "ring_holds n i' q (ds[unat i := x]) (ps[unat i := 0]) es"
    unfolding ring_holds_def using h 1 2 by simp
qed

lemma ring_holds_push:
  assumes "ring_holds n i q ds ps es" "Suc (length es) < unat n" "unat q' = Suc (unat q) mod unat n"
  shows "ring_holds n i q' (ds[unat q := d]) (ps[unat q := p]) (es @ [(d, p)])"
proof -
  let ?n = "unat n" and ?m = "length es"
  have h: "ring_size n" "length ds = ?n" "length ps = ?n" "unat i < ?n" "unat q = (unat i + ?m) mod ?n"
    "rotate (unat i) ps = map snd es @ replicate (?n - ?m) 0" "take ?m (rotate (unat i) ds) = map fst es"
    using assms(1) by (simp_all add: ring_holds_def)
  have l: "?n - ?m = Suc (?n - Suc ?m)" using assms(2) by simp
  have "rotate (unat i) (ps[unat q := p]) = (rotate (unat i) ps)[?m := p]"
    unfolding h(5) using ring_upd [of ?m ps "unat i" p] h(3) assms(2) by simp
  then have 1: "rotate (unat i) (ps[unat q := p]) = map snd es @ p # replicate (?n - Suc ?m) 0"
    unfolding h(6) l by (simp add: list_update_append)
  have "rotate (unat i) (ds[unat q := d]) = (rotate (unat i) ds)[?m := d]"
    unfolding h(5) using ring_upd [of ?m ds "unat i" d] h(2) assms(2) by simp
  then have 2: "take (Suc ?m) (rotate (unat i) (ds[unat q := d])) = map fst es @ [d]"
    using h(2,7) assms(2) by (simp add: take_Suc_conv_app_nth)
  have "unat q' = (unat i + Suc ?m) mod ?n" unfolding assms(3) h(5) by (simp add: mod_Suc_eq)
  then show ?thesis unfolding ring_holds_def using h(1-4) assms(2) 1 2 by simp
qed

end
