(* ===== verification/Dma64.thy ===== *)
theory Dma64
  imports Dma_Ring "HOL-Library.Monad_Syntax"
begin

text \<open>
  The 64-bit DMA engines of hnddma.c: descriptor rings in memory, the arrays of packet pointers that
  run beside them, and the registers of the two channels. The two status registers change under the
  driver's feet: a channel holds, for every read, what the device answers, as an arbitrary
  function. The remaining registers keep what the implemented ones of the bits written to them.

  Packets are \<open>sk_buff\<close>s at addresses of \<open>heap\<close>, of which the driver uses the place of the data, their
  number, the link to the next buffer, and in a received one the frame length the device stored at
  the front. The streaming mappings the driver holds are kept in the order they were made.
  Bus addresses have 32 bits (\<open>dmaaddr_t\<close> without \<open>BCMDMA64OSL\<close>, where \<open>PHYSADDRHI\<close> is 0), and the CPU is
  little-endian, so that \<open>BUS_SWAP32\<close> is nothing.
  \<open>None\<close> is an access through a null or dangling pointer or outside an array, and a
  loop that does not end.
\<close>

section \<open>Data\<close>

record dma64dd =
  ctrl1 :: u32
  ctrl2 :: u32
  addrlow :: u32
  addrhigh :: u32

record dma64regs =
  control :: u32
  ptr :: u32
  reg_addrlow :: u32
  reg_addrhigh :: u32
  status0 :: "nat \<Rightarrow> u32"
  status1 :: "nat \<Rightarrow> u32"
  reads :: nat
  control_bits :: u32
  addrlow_bits :: u32

record sk_buff =
  skb_data :: u32
  skb_len :: u32
  skb_next :: addr
  skb_hdr :: u16

record dma_info =
  txavail :: u32
  dmactrlflags :: u32
  rxgiants :: u32
  rxnobuf :: u32
  txnobuf :: u32
  addrext :: bool
  d64txregs :: "dma64regs option"
  d64rxregs :: "dma64regs option"
  txd64 :: "dma64dd list"
  rxd64 :: "dma64dd list"
  ntxd :: u16
  txin :: u16
  txout :: u16
  txp :: "addr list"
  txdpa :: u32
  xmtptrbase :: u32
  nrxd :: u16
  rxin :: u16
  rxout :: u16
  rxp :: "addr list"
  rxdpa :: u32
  rcvptrbase :: u32
  rxbufsize :: u16
  rxextrahdrroom :: u32
  nrxpost :: u32
  rxoffset :: u32
  ddoffsetlow :: u32
  ddoffsethigh :: u32
  dataoffsetlow :: u32
  dataoffsethigh :: u32
  aligndesc_4k :: bool

text \<open>The engine with the memory and the services around it.\<close>

record dma_st = dma_info +
  heap :: "addr \<Rightarrow> sk_buff option"
  os :: osl
  txmaps :: "(u32 \<times> u32) list"
  rxmaps :: "(u32 \<times> u32) list"

datatype direction = DMA_TX | DMA_RX
datatype txd_range = HNDDMA_RANGE_ALL | HNDDMA_RANGE_TRANSMITTED | HNDDMA_RANGE_TRANSFERED

abbreviation (input) D64_XC_XE :: u32 where "D64_XC_XE \<equiv> 0x1"
abbreviation (input) D64_XC_SE :: u32 where "D64_XC_SE \<equiv> 0x2"
abbreviation (input) D64_XC_LE :: u32 where "D64_XC_LE \<equiv> 0x4"
abbreviation (input) D64_XC_PD :: u32 where "D64_XC_PD \<equiv> 0x800"
abbreviation (input) D64_XC_AE :: u32 where "D64_XC_AE \<equiv> 0x30000"
abbreviation (input) D64_XS0_CD_MASK :: u32 where "D64_XS0_CD_MASK \<equiv> 0x1fff"
abbreviation (input) D64_XS0_XS_MASK :: u32 where "D64_XS0_XS_MASK \<equiv> 0xf0000000"
abbreviation (input) D64_XS0_XS_DISABLED :: u32 where "D64_XS0_XS_DISABLED \<equiv> 0"
abbreviation (input) D64_XS0_XS_IDLE :: u32 where "D64_XS0_XS_IDLE \<equiv> 0x20000000"
abbreviation (input) D64_XS0_XS_STOPPED :: u32 where "D64_XS0_XS_STOPPED \<equiv> 0x30000000"
abbreviation (input) D64_XS1_AD_MASK :: u32 where "D64_XS1_AD_MASK \<equiv> 0x1fff"
abbreviation (input) D64_RC_RE :: u32 where "D64_RC_RE \<equiv> 0x1"
abbreviation (input) D64_RC_OC :: u32 where "D64_RC_OC \<equiv> 0x400"
abbreviation (input) D64_RC_PD :: u32 where "D64_RC_PD \<equiv> 0x800"
abbreviation (input) D64_RC_AE :: u32 where "D64_RC_AE \<equiv> 0x30000"
abbreviation (input) D64_CTRL1_EOT :: u32 where "D64_CTRL1_EOT \<equiv> 0x10000000"
abbreviation (input) D64_CTRL1_IOC :: u32 where "D64_CTRL1_IOC \<equiv> 0x20000000"
abbreviation (input) D64_CTRL1_EOF :: u32 where "D64_CTRL1_EOF \<equiv> 0x40000000"
abbreviation (input) D64_CTRL1_SOF :: u32 where "D64_CTRL1_SOF \<equiv> 0x80000000"
abbreviation (input) D64_CTRL2_BC_MASK :: u32 where "D64_CTRL2_BC_MASK \<equiv> 0x7fff"
abbreviation (input) D64_CTRL2_AE :: u32 where "D64_CTRL2_AE \<equiv> 0x30000"
abbreviation (input) D64_CTRL2_PARITY :: u32 where "D64_CTRL2_PARITY \<equiv> 0x40000"
abbreviation (input) DMA_CTRL_PEN :: u32 where "DMA_CTRL_PEN \<equiv> 1"
abbreviation (input) DMA_CTRL_ROC :: u32 where "DMA_CTRL_ROC \<equiv> 2"
abbreviation (input) DMA_CTRL_RXMULTI :: u32 where "DMA_CTRL_RXMULTI \<equiv> 4"
abbreviation (input) DMA_CTRL_USB_WAR :: u32 where "DMA_CTRL_USB_WAR \<equiv> 16"
abbreviation (input) PCI32ADDR_HIGH :: u32 where "PCI32ADDR_HIGH \<equiv> 0xc0000000"
abbreviation (input) BCMEXTRAHDROOM :: u16 where "BCMEXTRAHDROOM \<equiv> 172"
abbreviation (input) DEADBEEF :: u32 where "DEADBEEF \<equiv> 0xdeadbeef"

section \<open>Indices and registers\<close>

definition TXD :: "dma_st \<Rightarrow> u32 \<Rightarrow> u32" where "TXD s x = XXD x (ucast (ntxd s))"
definition RXD :: "dma_st \<Rightarrow> u32 \<Rightarrow> u32" where "RXD s x = XXD x (ucast (nrxd s))"
definition NEXTTXD :: "dma_st \<Rightarrow> u16 \<Rightarrow> u16" where "NEXTTXD s i = ucast (TXD s (ucast i + 1))"
definition PREVTXD :: "dma_st \<Rightarrow> u16 \<Rightarrow> u16" where "PREVTXD s i = ucast (TXD s (ucast i - 1))"
definition NEXTRXD :: "dma_st \<Rightarrow> u16 \<Rightarrow> u16" where "NEXTRXD s i = ucast (RXD s (ucast i + 1))"
definition NTXDACTIVE :: "dma_st \<Rightarrow> u16 \<Rightarrow> u16 \<Rightarrow> u32" where "NTXDACTIVE s h t = TXD s (ucast t - ucast h)"
definition NRXDACTIVE :: "dma_st \<Rightarrow> u16 \<Rightarrow> u16 \<Rightarrow> u32" where "NRXDACTIVE s h t = RXD s (ucast t - ucast h)"

definition B2I :: "u32 \<Rightarrow> u32" where "B2I b = b div 16"
definition I2B :: "u32 \<Rightarrow> u32" where "I2B i = i * 16"

fun regs :: "direction \<Rightarrow> dma_st \<Rightarrow> dma64regs option" where
  "regs DMA_TX s = d64txregs s"
| "regs DMA_RX s = d64rxregs s"

fun set_regs :: "direction \<Rightarrow> dma64regs \<Rightarrow> dma_st \<Rightarrow> dma_st" where
  "set_regs DMA_TX r s = s\<lparr>d64txregs := Some r\<rparr>"
| "set_regs DMA_RX r s = s\<lparr>d64rxregs := Some r\<rparr>"

definition upd_regs :: "direction \<Rightarrow> (dma64regs \<Rightarrow> dma64regs) \<Rightarrow> dma_st \<Rightarrow> dma_st option" where
  "upd_regs dir f s = map_option (\<lambda>r. set_regs dir (f r) s) (regs dir s)"

definition R_control :: "direction \<Rightarrow> dma_st \<Rightarrow> u32 option" where
  "R_control dir s = map_option control (regs dir s)"

definition W_control :: "direction \<Rightarrow> u32 \<Rightarrow> dma_st \<Rightarrow> dma_st option" where
  "W_control dir v = upd_regs dir (\<lambda>r. r\<lparr>control := v AND control_bits r\<rparr>)"

definition R_ptr :: "direction \<Rightarrow> dma_st \<Rightarrow> u32 option" where
  "R_ptr dir s = map_option ptr (regs dir s)"

definition W_ptr :: "direction \<Rightarrow> u32 \<Rightarrow> dma_st \<Rightarrow> dma_st option" where
  "W_ptr dir v = upd_regs dir (\<lambda>r. r\<lparr>ptr := v\<rparr>)"

definition R_addrlow :: "direction \<Rightarrow> dma_st \<Rightarrow> u32 option" where
  "R_addrlow dir s = map_option reg_addrlow (regs dir s)"

definition W_addrlow :: "direction \<Rightarrow> u32 \<Rightarrow> dma_st \<Rightarrow> dma_st option" where
  "W_addrlow dir v = upd_regs dir (\<lambda>r. r\<lparr>reg_addrlow := v AND addrlow_bits r\<rparr>)"

definition W_addrhigh :: "direction \<Rightarrow> u32 \<Rightarrow> dma_st \<Rightarrow> dma_st option" where
  "W_addrhigh dir v = upd_regs dir (\<lambda>r. r\<lparr>reg_addrhigh := v\<rparr>)"

definition tick_regs :: "direction \<Rightarrow> dma64regs \<Rightarrow> dma_st \<Rightarrow> dma_st" where
  "tick_regs dir r s = set_regs dir (r\<lparr>reads := Suc (reads r)\<rparr>) s"

definition R_status0 :: "direction \<Rightarrow> dma_st \<Rightarrow> (u32 \<times> dma_st) option" where
  "R_status0 dir s = map_option (\<lambda>r. (status0 r (reads r), tick_regs dir r s)) (regs dir s)"

definition R_status1 :: "direction \<Rightarrow> dma_st \<Rightarrow> (u32 \<times> dma_st) option" where
  "R_status1 dir s = map_option (\<lambda>r. (status1 r (reads r), tick_regs dir r s)) (regs dir s)"

text \<open>The base the ring indices in the registers are relative to, and the current descriptor.\<close>

fun ptrbase :: "direction \<Rightarrow> dma_st \<Rightarrow> u32" where
  "ptrbase DMA_TX s = xmtptrbase s"
| "ptrbase DMA_RX s = rcvptrbase s"

definition cur_desc :: "direction \<Rightarrow> dma_st \<Rightarrow> (u32 \<times> dma_st) option" where
  "cur_desc dir s = do {
     (w, s1) \<leftarrow> R_status0 dir s;
     Some (B2I (((w AND D64_XS0_CD_MASK) - ptrbase dir s) AND D64_XS0_CD_MASK), s1) }"

section \<open>Services\<close>

fun DMA_MAP :: "direction \<Rightarrow> u32 \<Rightarrow> u32 \<Rightarrow> dma_st \<Rightarrow> dma_st" where
  "DMA_MAP DMA_TX pa len s = s\<lparr>txmaps := txmaps s @ [(pa, len)]\<rparr>"
| "DMA_MAP DMA_RX pa len s = s\<lparr>rxmaps := rxmaps s @ [(pa, len)]\<rparr>"

fun DMA_UNMAP :: "direction \<Rightarrow> u32 \<Rightarrow> u32 \<Rightarrow> dma_st \<Rightarrow> dma_st" where
  "DMA_UNMAP DMA_TX pa len s = s\<lparr>txmaps := remove1 (pa, len) (txmaps s)\<rparr>"
| "DMA_UNMAP DMA_RX pa len s = s\<lparr>rxmaps := remove1 (pa, len) (rxmaps s)\<rparr>"

partial_function (option) free_skbs :: "addr \<Rightarrow> (addr \<Rightarrow> sk_buff option) \<Rightarrow> (addr \<Rightarrow> sk_buff option) option" where
  "free_skbs p h =
     (if p = 0 then Some h else (case h p of None \<Rightarrow> None | Some b \<Rightarrow> free_skbs (skb_next b) (h(p := None))))"

definition PKTFREE :: "addr \<Rightarrow> dma_st \<Rightarrow> dma_st option" where
  "PKTFREE p s = map_option (\<lambda>h. s\<lparr>heap := h\<rparr>) (free_skbs p (heap s))"

section \<open>Descriptors\<close>

definition parity32 :: "u32 \<Rightarrow> u32" where
  "parity32 data =
     (let data = data XOR drop_bit 16 data;
          data = data XOR drop_bit 8 data;
          data = data XOR drop_bit 4 data;
          data = data XOR drop_bit 2 data;
          data = data XOR drop_bit 1 data
      in data AND 1)"

definition DMA64_DD_PARITY :: "dma64dd \<Rightarrow> u32" where
  "DMA64_DD_PARITY dd = parity32 (addrlow dd XOR addrhigh dd XOR ctrl1 dd XOR ctrl2 dd)"

text \<open>The descriptor the code makes for a buffer, and writing it to its place.\<close>

definition dma64_dd :: "dma_st \<Rightarrow> u32 \<Rightarrow> u32 \<Rightarrow> u32 \<Rightarrow> dma64dd" where
  "dma64_dd s pa flags bufcount =
     (let c2 = bufcount AND D64_CTRL2_BC_MASK;
          dd =
            (if dataoffsetlow s = 0 \<or> pa AND PCI32ADDR_HIGH = 0 then
               \<lparr>ctrl1 = flags, ctrl2 = c2, addrlow = pa + dataoffsetlow s, addrhigh = dataoffsethigh s\<rparr>
             else
               let ae = drop_bit 30 (pa AND PCI32ADDR_HIGH) in
               \<lparr>ctrl1 = flags, ctrl2 = c2 OR (push_bit 16 ae AND D64_CTRL2_AE),
                addrlow = (pa AND NOT PCI32ADDR_HIGH) + dataoffsetlow s, addrhigh = dataoffsethigh s\<rparr>)
      in if dmactrlflags s AND DMA_CTRL_PEN \<noteq> 0 \<and> DMA64_DD_PARITY dd \<noteq> 0
         then dd\<lparr>ctrl2 := ctrl2 dd OR D64_CTRL2_PARITY\<rparr> else dd)"

definition dma64_dd_upd :: "dma_st \<Rightarrow> dma64dd list \<Rightarrow> u32 \<Rightarrow> nat \<Rightarrow> u32 \<Rightarrow> u32 \<Rightarrow> dma64dd list option" where
  "dma64_dd_upd s ddring pa outidx flags bufcount = wr ddring outidx (dma64_dd s pa flags bufcount)"

text \<open>The table base; address extension bits go to the control register.\<close>

definition dma_ddtable_init :: "direction \<Rightarrow> u32 \<Rightarrow> dma_st \<Rightarrow> dma_st option" where
  "dma_ddtable_init dir pa s =
     (let s = (if aligndesc_4k s then s
               else if dir = DMA_TX then s\<lparr>xmtptrbase := pa\<rparr> else s\<lparr>rcvptrbase := pa\<rparr>) in
      if ddoffsetlow s = 0 \<or> pa AND PCI32ADDR_HIGH = 0 then do {
        s \<leftarrow> W_addrlow dir (pa + ddoffsetlow s) s;
        W_addrhigh dir (ddoffsethigh s) s }
      else do {
        let ae = drop_bit 30 (pa AND PCI32ADDR_HIGH);
        s \<leftarrow> W_addrlow dir ((pa AND NOT PCI32ADDR_HIGH) + ddoffsetlow s) s;
        s \<leftarrow> W_addrhigh dir (ddoffsethigh s) s;
        c \<leftarrow> R_control dir s;
        W_control dir ((c AND NOT D64_XC_AE) OR push_bit 16 ae) s })"

definition dma_fifoloopbackenable :: "dma_st \<Rightarrow> dma_st option" where
  "dma_fifoloopbackenable s = do { c \<leftarrow> R_control DMA_TX s; W_control DMA_TX (c OR D64_XC_LE) s }"

text \<open>Whether a channel has extension bits: set them and see whether they stay.\<close>

definition dma64_addrext :: "direction \<Rightarrow> dma_st \<Rightarrow> (bool \<times> dma_st) option" where
  "dma64_addrext dir s = do {
     c \<leftarrow> R_control dir s;
     s \<leftarrow> W_control dir (c OR D64_XC_AE) s;
     w \<leftarrow> R_control dir s;
     s \<leftarrow> W_control dir (w AND NOT D64_XC_AE) s;
     Some (w AND D64_XC_AE = D64_XC_AE, s) }"

definition dma_isaddrext :: "dma_st \<Rightarrow> (bool \<times> dma_st) option" where
  "dma_isaddrext s =
     (if d64txregs s \<noteq> None then map_option (\<lambda>(_, s). (True, s)) (dma64_addrext DMA_TX s)
      else if d64rxregs s \<noteq> None then map_option (\<lambda>(_, s). (True, s)) (dma64_addrext DMA_RX s)
      else Some (False, s))"

definition dma_descriptor_align :: "dma_st \<Rightarrow> (bool \<times> dma_st) option" where
  "dma_descriptor_align s =
     (case if d64txregs s \<noteq> None then Some DMA_TX else if d64rxregs s \<noteq> None then Some DMA_RX else None of
        None \<Rightarrow> Some (True, s)
      | Some dir \<Rightarrow> do { s \<leftarrow> W_addrlow dir 0xff0 s; a \<leftarrow> R_addrlow dir s; Some (a = 0, s) })"

section \<open>Control flags and counters\<close>

definition dma_ctrlflags :: "u32 \<Rightarrow> u32 \<Rightarrow> dma_st \<Rightarrow> (u32 \<times> dma_st) option" where
  "dma_ctrlflags msk flags s = do {
     let f = (dmactrlflags s AND NOT msk) OR flags;
     (f, s) \<leftarrow>
       (if f AND DMA_CTRL_PEN \<noteq> 0 then do {
          c \<leftarrow> R_control DMA_TX s;
          s \<leftarrow> W_control DMA_TX (c OR D64_XC_PD) s;
          w \<leftarrow> R_control DMA_TX s;
          if w AND D64_XC_PD \<noteq> 0 then do { s \<leftarrow> W_control DMA_TX c s; Some (f, s) }
          else Some (f AND NOT DMA_CTRL_PEN, s) }
        else Some (f, s));
     Some (f, s\<lparr>dmactrlflags := f\<rparr>) }"

definition dma_counterreset :: "dma_st \<Rightarrow> dma_st" where
  "dma_counterreset s = s\<lparr>rxgiants := 0, rxnobuf := 0, txnobuf := 0\<rparr>"

text \<open>
  \<open>SPINWAIT\<close> on a state of a channel: the masked status that ended the wait, or the last one read
  when the time, 10 microseconds a round, has run out.
\<close>

fun spinwait :: "direction \<Rightarrow> (u32 \<Rightarrow> bool) \<Rightarrow> nat \<Rightarrow> dma_st \<Rightarrow> (u32 \<times> dma_st) option" where
  "spinwait dir busy countdown s =
     (case R_status0 dir s of None \<Rightarrow> None
      | Some (w, s1) \<Rightarrow>
          let status = w AND D64_XS0_XS_MASK in
          if busy status \<and> 10 \<le> countdown then spinwait dir busy (countdown - 10) s1
          else Some (status, s1))"

declare spinwait.simps [simp del]

definition SPINWAIT :: "direction \<Rightarrow> (u32 \<Rightarrow> bool) \<Rightarrow> nat \<Rightarrow> dma_st \<Rightarrow> (u32 \<times> dma_st) option" where
  "SPINWAIT dir busy us = spinwait dir busy (us + 9)"

end
