(* ===== verification/Dma64_Tx.thy ===== *)
theory Dma64_Tx
  imports Dma64
begin

text \<open>
  The transmit channel of hnddma.c: starting, suspending and resetting it, posting a packet, taking
  back what the hardware is done with, and rotating the ring.
\<close>

section \<open>The channel\<close>

definition dma64_txinit :: "dma_st \<Rightarrow> dma_st option" where
  "dma64_txinit s =
     (if ntxd s = 0 then Some s
      else do {
        let s = s\<lparr>txin := 0, txout := 0, txavail := ucast (ntxd s) - 1,
                  txd64 := replicate (length (txd64 s)) \<lparr>ctrl1 = 0, ctrl2 = 0, addrlow = 0, addrhigh = 0\<rparr>\<rparr>;
        s \<leftarrow> (if aligndesc_4k s then Some s else dma_ddtable_init DMA_TX (txdpa s) s);
        c \<leftarrow> R_control DMA_TX s;
        s \<leftarrow> W_control DMA_TX (c OR (D64_XC_XE OR (if dmactrlflags s AND DMA_CTRL_PEN = 0 then D64_XC_PD else 0))) s;
        if aligndesc_4k s then dma_ddtable_init DMA_TX (txdpa s) s else Some s })"

definition dma64_txenabled :: "dma_st \<Rightarrow> bool option" where
  "dma64_txenabled s = map_option (\<lambda>xc. xc \<noteq> 0xffffffff \<and> xc AND D64_XC_XE \<noteq> 0) (R_control DMA_TX s)"

definition dma64_txsuspend :: "dma_st \<Rightarrow> dma_st option" where
  "dma64_txsuspend s =
     (if ntxd s = 0 then Some s
      else do { c \<leftarrow> R_control DMA_TX s; W_control DMA_TX (c OR D64_XC_SE) s })"

definition dma64_txresume :: "dma_st \<Rightarrow> dma_st option" where
  "dma64_txresume s =
     (if ntxd s = 0 then Some s
      else do { c \<leftarrow> R_control DMA_TX s; W_control DMA_TX (c AND NOT D64_XC_SE) s })"

definition dma64_txsuspended :: "dma_st \<Rightarrow> bool option" where
  "dma64_txsuspended s =
     (if ntxd s = 0 then Some True else map_option (\<lambda>c. c AND D64_XC_SE = D64_XC_SE) (R_control DMA_TX s))"

definition dma64_txsuspendedidle :: "dma_st \<Rightarrow> (bool \<times> dma_st) option" where
  "dma64_txsuspendedidle s =
     (if ntxd s = 0 then Some (True, s)
      else do {
        c \<leftarrow> R_control DMA_TX s;
        if c AND D64_XC_SE = 0 then Some (False, s)
        else do {
          (w, s) \<leftarrow> R_status0 DMA_TX s;
          Some (w AND D64_XS0_XS_MASK = D64_XS0_XS_IDLE, s) } })"

definition dma64_txstopped :: "dma_st \<Rightarrow> (bool \<times> dma_st) option" where
  "dma64_txstopped s = map_option (\<lambda>(w, s). (w AND D64_XS0_XS_MASK = D64_XS0_XS_STOPPED, s)) (R_status0 DMA_TX s)"

definition dma64_txreset :: "dma_st \<Rightarrow> (bool \<times> dma_st) option" where
  "dma64_txreset s =
     (if ntxd s = 0 then Some (True, s)
      else do {
        s \<leftarrow> W_control DMA_TX D64_XC_SE s;
        (_, s) \<leftarrow> SPINWAIT DMA_TX
          (\<lambda>st. st \<noteq> D64_XS0_XS_DISABLED \<and> st \<noteq> D64_XS0_XS_IDLE \<and> st \<noteq> D64_XS0_XS_STOPPED) 10000 s;
        s \<leftarrow> W_control DMA_TX 0 s;
        (st, s) \<leftarrow> SPINWAIT DMA_TX (\<lambda>st. st \<noteq> D64_XS0_XS_DISABLED) 10000 s;
        Some (st = D64_XS0_XS_DISABLED, s) })"

section \<open>Flow control\<close>

definition dma_txblock :: "dma_st \<Rightarrow> dma_st" where
  "dma_txblock s = s\<lparr>txavail := 0\<rparr>"

definition dma_txunblock :: "dma_st \<Rightarrow> dma_st" where
  "dma_txunblock s = s\<lparr>txavail := ucast (ntxd s) - NTXDACTIVE s (txin s) (txout s) - 1\<rparr>"

definition dma_txactive :: "dma_st \<Rightarrow> u32" where
  "dma_txactive s = NTXDACTIVE s (txin s) (txout s)"

definition dma_txpending :: "dma_st \<Rightarrow> (u32 \<times> dma_st) option" where
  "dma_txpending s = do { (curr, s) \<leftarrow> cur_desc DMA_TX s; Some (TXD s (ucast (txout s) - curr), s) }"

definition dma_txcommitted :: "dma_st \<Rightarrow> u32 option" where
  "dma_txcommitted s =
     (if txin s = txout s then Some 0
      else map_option (\<lambda>p. TXD s (B2I p - ucast (txin s))) (R_ptr DMA_TX s))"

section \<open>Posting a packet\<close>

text \<open>
  One descriptor per buffer that is not empty; \<open>Inl\<close> is the state in which the descriptors ran out,
  \<open>Inr\<close> the state after the last buffer with the next index and the flags written last.
  \<open>dmap\<close> gives the bus address of a buffer.
\<close>

partial_function (option) txfast_loop ::
  "(u32 \<Rightarrow> u32 \<Rightarrow> u32) \<Rightarrow> addr \<Rightarrow> addr \<Rightarrow> u16 \<Rightarrow> u32 \<Rightarrow> dma_st \<Rightarrow> (dma_st + dma_st \<times> u16 \<times> u32) option" where
  "txfast_loop dmap p0 p i flags s =
     (if p = 0 then Some (Inr (s, i, flags))
      else case heap s p of None \<Rightarrow> None
      | Some b \<Rightarrow>
          if NEXTTXD s i = txin s then Some (Inl s)
          else if skb_len b = 0 then txfast_loop dmap p0 (skb_next b) i flags s
          else
            let pa = dmap (skb_data b) (skb_len b);
                s1 = DMA_MAP DMA_TX pa (skb_len b) s;
                fl = (if p = p0 then D64_CTRL1_SOF else 0) OR
                     (if skb_next b = 0 then D64_CTRL1_IOC OR D64_CTRL1_EOF else 0) OR
                     (if unat i + 1 = unat (ntxd s) then D64_CTRL1_EOT else 0)
            in case dma64_dd_upd s1 (txd64 s1) pa (unat i) fl (skb_len b) of None \<Rightarrow> None
               | Some ring \<Rightarrow> txfast_loop dmap p0 (skb_next b) (NEXTTXD s i) fl (s1\<lparr>txd64 := ring\<rparr>))"

definition set_ctrl1 :: "dma64dd list \<Rightarrow> nat \<Rightarrow> u32 \<Rightarrow> dma64dd list option" where
  "set_ctrl1 ring i w = do { dd \<leftarrow> rd ring i; wr ring i (dd\<lparr>ctrl1 := w\<rparr>) }"

definition dma64_txfast :: "(u32 \<Rightarrow> u32 \<Rightarrow> u32) \<Rightarrow> addr \<Rightarrow> bool \<Rightarrow> dma_st \<Rightarrow> (int \<times> dma_st) option" where
  "dma64_txfast dmap p0 commit s =
     (case txfast_loop dmap p0 p0 (txout s) 0 s of
        None \<Rightarrow> None
      | Some (Inl s1) \<Rightarrow> do {
          s2 \<leftarrow> PKTFREE p0 s1;
          Some (- 1, s2\<lparr>txavail := 0, txnobuf := txnobuf s2 + 1\<rparr>) }
      | Some (Inr (s1, i, flags)) \<Rightarrow> do {
          let j = unat (PREVTXD s1 i);
          ring \<leftarrow> (if flags AND D64_CTRL1_EOF = 0
                   then set_ctrl1 (txd64 s1) j (flags OR D64_CTRL1_IOC OR D64_CTRL1_EOF) else Some (txd64 s1));
          tp \<leftarrow> wr (txp s1) j p0;
          let s2 = s1\<lparr>txd64 := ring, txp := tp, txout := i\<rparr>;
          s3 \<leftarrow> (if commit then W_ptr DMA_TX (xmtptrbase s2 + I2B (ucast i)) s2 else Some s2);
          Some (0, dma_txunblock s3) })"

section \<open>Taking packets back\<close>

partial_function (option) getnexttxp_loop :: "u16 \<Rightarrow> u16 \<Rightarrow> addr \<Rightarrow> dma_st \<Rightarrow> (u16 \<times> addr \<times> dma_st) option" where
  "getnexttxp_loop i e p s =
     (if i = e \<or> p \<noteq> 0 then Some (i, p, s)
      else do {
        dd \<leftarrow> rd (txd64 s) (unat i);
        ring \<leftarrow> wr (txd64 s) (unat i) (dd\<lparr>addrlow := DEADBEEF, addrhigh := DEADBEEF\<rparr>);
        q \<leftarrow> rd (txp s) (unat i);
        tp \<leftarrow> wr (txp s) (unat i) 0;
        getnexttxp_loop (NEXTTXD s i) e q
          (DMA_UNMAP DMA_TX (addrlow dd - dataoffsetlow s) (ctrl2 dd AND D64_CTRL2_BC_MASK)
            (s\<lparr>txd64 := ring, txp := tp\<rparr>)) })"

definition tx_end :: "txd_range \<Rightarrow> dma_st \<Rightarrow> (u16 \<times> dma_st) option" where
  "tx_end rg s =
     (if rg = HNDDMA_RANGE_ALL then Some (txout s, s)
      else do {
        (c, s) \<leftarrow> cur_desc DMA_TX s;
        if rg = HNDDMA_RANGE_TRANSFERED then do {
          (w, s) \<leftarrow> R_status1 DMA_TX s;
          let ad = (ucast (w AND D64_XS1_AD_MASK) :: u16);
          let ad = (ucast ((ucast ad - xmtptrbase s) AND D64_XS0_CD_MASK) :: u16);
          let ad = ad div 16;
          Some (if ucast c \<noteq> ad then PREVTXD s ad else ucast c, s) }
        else Some (ucast c, s) })"

definition dma64_getnexttxp :: "txd_range \<Rightarrow> dma_st \<Rightarrow> (addr \<times> dma_st) option" where
  "dma64_getnexttxp rg s =
     (if ntxd s = 0 then Some (0, s)
      else do {
        (e, s) \<leftarrow> tx_end rg s;
        if txin s = 0 \<and> txout s < e then Some (0, s)
        else do {
          (i, p, s) \<leftarrow> getnexttxp_loop (txin s) e 0 s;
          Some (p, dma_txunblock (s\<lparr>txin := i\<rparr>)) } })"

partial_function (option) txreclaim_loop :: "txd_range \<Rightarrow> dma_st \<Rightarrow> dma_st option" where
  "txreclaim_loop rg s =
     (case dma64_getnexttxp rg s of None \<Rightarrow> None
      | Some (p, s1) \<Rightarrow>
          if p = 0 then Some s1
          else case PKTFREE p s1 of None \<Rightarrow> None | Some s2 \<Rightarrow> txreclaim_loop rg s2)"

definition dma64_txreclaim :: "txd_range \<Rightarrow> dma_st \<Rightarrow> dma_st option" where
  "dma64_txreclaim rg s = (if txin s = txout s then Some s else txreclaim_loop rg s)"

partial_function (option) peektxp_loop :: "u32 \<Rightarrow> u32 \<Rightarrow> dma_st \<Rightarrow> addr option" where
  "peektxp_loop i e s =
     (if i = e then Some 0
      else case rd (txp s) (unat i) of None \<Rightarrow> None
      | Some q \<Rightarrow> if q \<noteq> 0 then Some q else peektxp_loop (TXD s (i + 1)) e s)"

definition dma_peeknexttxp :: "dma_st \<Rightarrow> (addr \<times> dma_st) option" where
  "dma_peeknexttxp s =
     (if ntxd s = 0 then Some (0, s)
      else do {
        (c, s) \<leftarrow> cur_desc DMA_TX s;
        p \<leftarrow> peektxp_loop (ucast (txin s)) c s;
        Some (p, s) })"

section \<open>Rotating the ring\<close>

partial_function (option) txrotate_loop :: "u16 \<Rightarrow> u16 \<Rightarrow> u32 \<Rightarrow> dma_st \<Rightarrow> dma_st option" where
  "txrotate_loop old first rot s =
     (if old = PREVTXD s first then Some s
      else do {
        let new = unat (ucast (TXD s (ucast old + rot)) :: u16);
        dd \<leftarrow> rd (txd64 s) (unat old);
        let w = (ctrl1 dd AND NOT D64_CTRL1_EOT) OR (if new + 1 = unat (ntxd s) then D64_CTRL1_EOT else 0);
        ring \<leftarrow> wr (txd64 s) new (dd\<lparr>ctrl1 := w\<rparr>);
        dd1 \<leftarrow> rd ring (unat old);
        ring \<leftarrow> wr ring (unat old) (dd1\<lparr>addrlow := DEADBEEF, addrhigh := DEADBEEF\<rparr>);
        q \<leftarrow> rd (txp s) (unat old);
        tp \<leftarrow> wr (txp s) new q;
        tp \<leftarrow> wr tp (unat old) 0;
        txrotate_loop (PREVTXD s old) first rot (s\<lparr>txd64 := ring, txp := tp\<rparr>) })"

definition dma64_txrotate :: "dma_st \<Rightarrow> dma_st option" where
  "dma64_txrotate s = do {
     let nactive = dma_txactive s;
     (w, s) \<leftarrow> R_status1 DMA_TX s;
     let ad = (ucast (B2I (((w AND D64_XS1_AD_MASK) - xmtptrbase s) AND D64_XS1_AD_MASK)) :: u16);
     let rot = TXD s (ucast ad - ucast (txin s));
     if ucast (ntxd s) - nactive \<le> rot then Some s
     else do {
       s \<leftarrow> txrotate_loop (PREVTXD s (txout s)) (txin s) rot s;
       let s = dma_txunblock (s\<lparr>txin := ad, txout := ucast (TXD s (ucast (txout s) + rot))\<rparr>);
       W_ptr DMA_TX (xmtptrbase s + I2B (ucast (txout s))) s } }"

end
