(* ===== verification/Dma_Tx_Laws.thy ===== *)
theory Dma_Tx_Laws
  imports Dma64_Tx Chains
begin

text \<open>
  The transmit ring as a queue: \<open>tx_holds s es\<close> says that the ring holds the entries \<open>es\<close>, oldest
  first, each a descriptor with the packet pointer that runs beside it. Posting appends,
  reclaiming takes from the front, and rotating the ring moves the entries without changing them.
\<close>

section \<open>The ring and its entries\<close>

definition tx_holds :: "dma_st \<Rightarrow> (dma64dd \<times> addr) list \<Rightarrow> bool" where
  "tx_holds s es \<longleftrightarrow>
     ring_holds (ntxd s) (txin s) (txout s) (txd64 s) (txp s) es \<and> (es \<noteq> [] \<longrightarrow> snd (last es) \<noteq> 0)"

lemma tx_holds_unfold:
  "tx_holds s es \<longleftrightarrow>
     ring_size (ntxd s) \<and> length (txd64 s) = unat (ntxd s) \<and> length (txp s) = unat (ntxd s) \<and>
     unat (txin s) < unat (ntxd s) \<and> length es < unat (ntxd s) \<and>
     unat (txout s) = (unat (txin s) + length es) mod unat (ntxd s) \<and>
     rotate (unat (txin s)) (txp s) = map snd es @ replicate (unat (ntxd s) - length es) 0 \<and>
     take (length es) (rotate (unat (txin s)) (txd64 s)) = map fst es \<and>
     (es \<noteq> [] \<longrightarrow> snd (last es) \<noteq> 0)"
  by (simp add: tx_holds_def ring_holds_def)

lemma next_index: "ring_size (ntxd s) \<Longrightarrow> unat (NEXTTXD s i) = Suc (unat i) mod unat (ntxd s)"
  by (simp add: NEXTTXD_def TXD_def ring_next)

lemma prev_index: "ring_size (ntxd s) \<Longrightarrow> unat (PREVTXD s i) = (unat i + unat (ntxd s) - 1) mod unat (ntxd s)"
  by (simp add: PREVTXD_def TXD_def ring_prev)

text \<open>The number of entries is what the driver computes, and what is left is \<open>txavail\<close>.\<close>

lemma tx_count:
  assumes "tx_holds s es"
  shows "unat (dma_txactive s) = length es"
    "unat (txavail (dma_txunblock s)) = unat (ntxd s) - 1 - length es"
proof -
  show a: "unat (dma_txactive s) = length es"
    using assms unfolding dma_txactive_def NTXDACTIVE_def TXD_def tx_holds_def by (blast dest: ring_holds_count)
  then have n: "unat (NTXDACTIVE s (txin s) (txout s)) = length es" by (simp add: dma_txactive_def)
  have l: "length es < unat (ntxd s)" using assms by (simp add: tx_holds_unfold)
  then have d: "unat (ucast (ntxd s) - NTXDACTIVE s (txin s) (txout s)) = unat (ntxd s) - length es"
    using n by (subst unat_sub) (simp_all add: word_le_nat_alt)
  then have "unat (ucast (ntxd s) - NTXDACTIVE s (txin s) (txout s) - 1) = unat (ntxd s) - length es - 1"
    using l by (subst unat_dec) simp_all
  then show "unat (txavail (dma_txunblock s)) = unat (ntxd s) - 1 - length es"
    by (simp add: dma_txunblock_def)
qed

section \<open>Taking entries back\<close>

text \<open>
  Entries are looked at up to a place, and taken away, until one has a packet.
\<close>

fun tx_next :: "nat \<Rightarrow> ('a \<times> addr) list \<Rightarrow> addr \<times> ('a \<times> addr) list" where
  "tx_next 0 es = (0, es)"
| "tx_next (Suc d) [] = (0, [])"
| "tx_next (Suc d) (e # es) = (if snd e \<noteq> 0 then (snd e, es) else tx_next d es)"

lemma unmap_fields [simp]:
  "ntxd (DMA_UNMAP dir pa l s) = ntxd s" "txin (DMA_UNMAP dir pa l s) = txin s"
  "txout (DMA_UNMAP dir pa l s) = txout s" "txp (DMA_UNMAP dir pa l s) = txp s"
  "txd64 (DMA_UNMAP dir pa l s) = txd64 s" "heap (DMA_UNMAP dir pa l s) = heap s"
  "d64txregs (DMA_UNMAP dir pa l s) = d64txregs s"
  "dataoffsetlow (DMA_UNMAP dir pa l s) = dataoffsetlow s"
  "xmtptrbase (DMA_UNMAP dir pa l s) = xmtptrbase s"
  by (cases dir; simp)+

text \<open>What the loop leaves: the entries behind the one that ended it, from the index it stopped at on.\<close>

lemma getnexttxp_loop_law:
  "ring_holds (ntxd s) i q (txd64 s) (txp s) es \<Longrightarrow> d \<le> length es \<Longrightarrow> unat e = (unat i + d) mod unat (ntxd s) \<Longrightarrow>
    \<exists>i' s'. getnexttxp_loop i e 0 s = Some (i', fst (tx_next d es), s') \<and>
      ring_holds (ntxd s') i' q (txd64 s') (txp s') (snd (tx_next d es)) \<and>
      ntxd s' = ntxd s \<and> txin s' = txin s \<and> txout s' = txout s \<and> heap s' = heap s \<and> d64txregs s' = d64txregs s \<and>
      xmtptrbase s' = xmtptrbase s"
proof (induction d es arbitrary: s i rule: tx_next.induct)
  case (1 es)
  then have "e = i" by (simp add: ring_holds_def word_unat_eq_iff)
  then show ?case using 1 by (subst getnexttxp_loop.simps) simp
next
  case (3 d x es)
  have rs: "ring_size (ntxd s)" and i: "unat i < unat (ntxd s)" "Suc (length es) < unat (ntxd s)"
    and l: "length (txd64 s) = unat (ntxd s)" "length (txp s) = unat (ntxd s)"
    using "3.prems"(1) by (simp_all add: ring_holds_def)
  have "unat e \<noteq> unat i"
    using "3.prems"(2,3) i ring_inj [of 0 "unat (ntxd s)" "Suc d" "unat i"] by auto
  then have ne: "i \<noteq> e" by auto
  have nx: "unat (NEXTTXD s i) = Suc (unat i) mod unat (ntxd s)" by (rule next_index [OF rs])
  let ?dd = "(fst x)\<lparr>addrlow := DEADBEEF, addrhigh := DEADBEEF\<rparr>"
  let ?s = "s\<lparr>txd64 := (txd64 s)[unat i := ?dd], txp := (txp s)[unat i := 0]\<rparr>"
  let ?u = "DMA_UNMAP DMA_TX (addrlow (fst x) - dataoffsetlow s) (ctrl2 (fst x) AND D64_CTRL2_BC_MASK) ?s"
  note pop = ring_holds_pop [OF "3.prems"(1) nx]
  have step: "getnexttxp_loop i e 0 s = getnexttxp_loop (NEXTTXD s i) e (snd x) ?u"
    using ne i(1) l pop(1,2) by (subst getnexttxp_loop.simps) (simp add: rd_def wr_def)
  have seen: "ring_holds (ntxd ?u) (NEXTTXD s i) q (txd64 ?u) (txp ?u) es" using pop(3) [of ?dd] by simp
  show ?case
  proof (cases "snd x = 0")
    case False
    then have "getnexttxp_loop i e 0 s = Some (NEXTTXD s i, snd x, ?u)"
      unfolding step by (subst getnexttxp_loop.simps) simp
    with False seen show ?thesis by auto
  next
    case True
    have "unat e = (unat (NEXTTXD s i) + d) mod unat (ntxd ?u)"
      using "3.prems"(3) nx by (simp add: mod_add_left_eq)
    from "3.IH" [OF _ seen _ this] True "3.prems"(2) show ?thesis unfolding step by auto
  qed
qed simp

text \<open>Reading the registers changes nothing else.\<close>

lemma cur_desc_frame:
  "cur_desc DMA_TX s = Some (c, s1) \<Longrightarrow> s1 = s\<lparr>d64txregs := d64txregs s1\<rparr>"
  "cur_desc DMA_RX s = Some (c, s1) \<Longrightarrow> s1 = s\<lparr>d64rxregs := d64rxregs s1\<rparr>"
  by (auto simp: cur_desc_def R_status0_def tick_regs_def split: bind_splits)

lemma tx_end_frame: "tx_end rg s = Some (e, s1) \<Longrightarrow> s1 = s\<lparr>d64txregs := d64txregs s1\<rparr>"
  by (auto simp: tx_end_def R_status1_def tick_regs_def Let_def split: if_splits bind_splits dest!: cur_desc_frame(1)) 

lemma tx_holds_regs [simp]: "tx_holds (s\<lparr>d64txregs := r\<rparr>) es \<longleftrightarrow> tx_holds s es"
  by (simp add: tx_holds_def)

lemma tx_holds_avail [simp]: "tx_holds (dma_txunblock s) es \<longleftrightarrow> tx_holds s es"
  by (simp add: tx_holds_def dma_txunblock_def)

lemma unblock_fields [simp]:
  "heap (dma_txunblock s) = heap s" "ntxd (dma_txunblock s) = ntxd s" "d64txregs (dma_txunblock s) = d64txregs s"
  "xmtptrbase (dma_txunblock s) = xmtptrbase s" "txd64 (dma_txunblock s) = txd64 s" "txp (dma_txunblock s) = txp s"
  "txin (dma_txunblock s) = txin s" "txout (dma_txunblock s) = txout s" "txmaps (dma_txunblock s) = txmaps s"
  by (simp_all add: dma_txunblock_def)

lemma tx_next_Nil [simp]: "tx_next d [] = (0, [])"
  by (cases d) simp_all

lemma tx_next_last: "es \<noteq> [] \<longrightarrow> snd (last es) \<noteq> 0 \<Longrightarrow> snd (tx_next d es) \<noteq> [] \<longrightarrow> snd (last (snd (tx_next d es))) \<noteq> 0"
proof (induction d es rule: tx_next.induct)
  case (3 d e es)
  then show ?case by (cases "es = []") auto
qed simp_all

lemma getnexttxp_law:
  assumes "tx_holds s es" "tx_end rg s = Some (e, s1)" "d \<le> length es"
    "unat e = (unat (txin s) + d) mod unat (ntxd s)"
  shows "\<exists>s'. dma64_getnexttxp rg s = Some (fst (tx_next d es), s') \<and> tx_holds s' (snd (tx_next d es)) \<and>
    heap s' = heap s \<and> ntxd s' = ntxd s \<and> d64txregs s' = d64txregs s1 \<and> xmtptrbase s' = xmtptrbase s \<and>
    unat (txavail s') = unat (ntxd s) - 1 - length (snd (tx_next d es))"
proof -
  have h: "ring_holds (ntxd s) (txin s) (txout s) (txd64 s) (txp s) es" "es \<noteq> [] \<Longrightarrow> snd (last es) \<noteq> 0"
    using assms(1) by (simp_all add: tx_holds_def)
  have n0: "ntxd s \<noteq> 0" using h(1) ring_sizeD(1) [of "ntxd s"] by (auto simp: ring_holds_def)
  obtain r where s1: "s1 = s\<lparr>d64txregs := r\<rparr>" using tx_end_frame [OF assms(2)] by blast
  have seen: "ring_holds (ntxd s1) (txin s) (txout s) (txd64 s1) (txp s1) es" using h(1) s1 by simp
  from getnexttxp_loop_law [OF seen assms(3), of e] assms(4) s1
  obtain i' s2 where r: "getnexttxp_loop (txin s) e 0 s1 = Some (i', fst (tx_next d es), s2)"
    "ring_holds (ntxd s2) i' (txout s) (txd64 s2) (txp s2) (snd (tx_next d es))"
    "ntxd s2 = ntxd s" "txout s2 = txout s" "heap s2 = heap s" "d64txregs s2 = d64txregs s1" "xmtptrbase s2 = xmtptrbase s"
    by auto
  have bogus: "\<not> (txin s1 = 0 \<and> txout s1 < e)"
    using h(1) assms(3,4) s1 by (auto simp: word_less_nat_alt ring_holds_def)
  let ?s = "s2\<lparr>txin := i'\<rparr>"
  have holds: "tx_holds ?s (snd (tx_next d es))"
    using r(2,4) tx_next_last [of es d] h(2) by (simp add: tx_holds_def)
  have "dma64_getnexttxp rg s = Some (fst (tx_next d es), dma_txunblock ?s)"
    using n0 assms(2) bogus r(1) s1 by (auto simp: dma64_getnexttxp_def)
  then show ?thesis using holds r tx_count(2) [OF holds] by simp
qed

text \<open>Reclaiming everything takes the entries of the oldest packet, or finds the ring empty.\<close>

definition tx_queue :: "(dma64dd \<times> addr) list \<Rightarrow> addr list" where
  "tx_queue es = filter (\<lambda>p. p \<noteq> 0) (map snd es)"

lemma tx_next_all: "es \<noteq> [] \<Longrightarrow> snd (last es) \<noteq> 0 \<Longrightarrow> length es \<le> d \<Longrightarrow>
    tx_queue es = fst (tx_next d es) # tx_queue (snd (tx_next d es)) \<and>
    fst (tx_next d es) \<noteq> 0 \<and> length (snd (tx_next d es)) < length es"
proof (induction d es rule: tx_next.induct)
  case (3 d e es)
  then show ?case by (cases es) (auto simp: tx_queue_def)
qed simp_all

lemma getnexttxp_all:
  assumes "tx_holds s es"
  shows "\<exists>s' es'. dma64_getnexttxp HNDDMA_RANGE_ALL s = Some (if es = [] then 0 else hd (tx_queue es), s') \<and>
    tx_holds s' es' \<and> heap s' = heap s \<and>
    (if es = [] then es' = [] else tx_queue es = hd (tx_queue es) # tx_queue es' \<and> hd (tx_queue es) \<noteq> 0 \<and> length es' < length es)"
proof -
  have e: "tx_end HNDDMA_RANGE_ALL s = Some (txout s, s)"
    "unat (txout s) = (unat (txin s) + length es) mod unat (ntxd s)"
    "es \<noteq> [] \<Longrightarrow> snd (last es) \<noteq> 0"
    using assms by (simp_all add: tx_end_def tx_holds_unfold)
  from getnexttxp_law [OF assms e(1) order_refl e(2)] obtain s' where
    s': "dma64_getnexttxp HNDDMA_RANGE_ALL s = Some (fst (tx_next (length es) es), s')"
    "tx_holds s' (snd (tx_next (length es) es))" "heap s' = heap s"
    by blast
  show ?thesis
  proof (cases "es = []")
    case True
    then show ?thesis using s' by auto
  next
    case False
    then show ?thesis using s' tx_next_all [OF False e(3) [OF False] order_refl] by auto
  qed
qed

section \<open>Packets in memory\<close>

definition skb_chain :: "(addr \<Rightarrow> sk_buff option) \<Rightarrow> addr \<Rightarrow> addr list \<Rightarrow> bool" where
  "skb_chain h p bs \<longleftrightarrow> chain (\<lambda>a. case h a of None \<Rightarrow> 0 | Some b \<Rightarrow> skb_next b) p bs \<and> (\<forall>a\<in>set bs. h a \<noteq> None) \<and> distinct bs"

definition heap_free :: "addr set \<Rightarrow> (addr \<Rightarrow> sk_buff option) \<Rightarrow> addr \<Rightarrow> sk_buff option" where
  "heap_free A h a = (if a \<in> A then None else h a)"

lemma skb_chain_cong: "skb_chain h p bs \<Longrightarrow> (\<And>a. a \<in> set bs \<Longrightarrow> h' a = h a) \<Longrightarrow> skb_chain h' p bs"
  unfolding skb_chain_def by (auto elim!: chain_cong)

lemma skb_chain_Cons:
  "skb_chain h p (a # bs) \<longleftrightarrow> p = a \<and> a \<noteq> 0 \<and> a \<notin> set bs \<and> (\<exists>b. h a = Some b \<and> skb_chain h (skb_next b) bs)"
  by (auto simp: skb_chain_def split: option.splits)

lemma skb_chain_Nil: "skb_chain h p [] \<longleftrightarrow> p = 0"
  by (simp add: skb_chain_def)

lemma free_skbs_law: "skb_chain h p bs \<Longrightarrow> free_skbs p h = Some (heap_free (set bs) h)"
proof (induction bs arbitrary: p h)
  case Nil
  then show ?case by (subst free_skbs.simps) (simp add: skb_chain_Nil heap_free_def fun_eq_iff)
next
  case (Cons a bs)
  then obtain b where b: "p = a" "a \<noteq> 0" "a \<notin> set bs" "h a = Some b" "skb_chain h (skb_next b) bs"
    by (auto simp: skb_chain_Cons)
  have "skb_chain (h(a := None)) (skb_next b) bs" by (rule skb_chain_cong [OF b(5)]) (use b(3) in auto)
  from Cons.IH [OF this] have "free_skbs (skb_next b) (h(a := None)) = Some (heap_free (set bs) (h(a := None)))" .
  moreover have "heap_free (set bs) (h(a := None)) = heap_free (set (a # bs)) h"
    by (auto simp: heap_free_def fun_eq_iff)
  ultimately show ?case using b(1,2,4) by (subst free_skbs.simps) simp
qed

lemma PKTFREE_law: "skb_chain (heap s) p bs \<Longrightarrow> PKTFREE p s = Some (s\<lparr>heap := heap_free (set bs) (heap s)\<rparr>)"
  by (simp add: PKTFREE_def free_skbs_law)

lemma heap_free_free: "heap_free A (heap_free B h) = heap_free (A \<union> B) h"
  by (auto simp: heap_free_def)

text \<open>Reclaiming everything frees every packet of the queue, and empties the ring.\<close>

lemma txreclaim_law:
  assumes "tx_holds s es" "list_all2 (skb_chain (heap s)) (tx_queue es) css" "distinct (concat css)"
  shows "\<exists>s'. dma64_txreclaim HNDDMA_RANGE_ALL s = Some s' \<and> tx_holds s' [] \<and>
    heap s' = heap_free (set (concat css)) (heap s)"
proof -
  have loop: "\<exists>s'. txreclaim_loop HNDDMA_RANGE_ALL s = Some s' \<and> tx_holds s' [] \<and> heap s' = heap_free (set (concat css)) (heap s)"
    if "tx_holds s es" "list_all2 (skb_chain (heap s)) (tx_queue es) css" "distinct (concat css)" for s es css
    using that
  proof (induction "length es" arbitrary: s es css rule: less_induct)
    case less
    from getnexttxp_all [OF less.prems(1)] obtain s1 es1 where g:
      "dma64_getnexttxp HNDDMA_RANGE_ALL s = Some (if es = [] then 0 else hd (tx_queue es), s1)" "tx_holds s1 es1"
      "heap s1 = heap s"
      "if es = [] then es1 = [] else tx_queue es = hd (tx_queue es) # tx_queue es1 \<and> hd (tx_queue es) \<noteq> 0 \<and> length es1 < length es"
      by blast
    show ?case
    proof (cases "es = []")
      case True
      then have "css = []" using less.prems(2) by (simp add: tx_queue_def)
      then show ?thesis using g True by (subst txreclaim_loop.simps) (simp add: heap_free_def fun_eq_iff)
    next
      case False
      with g(4) have q: "tx_queue es = hd (tx_queue es) # tx_queue es1" "hd (tx_queue es) \<noteq> 0" "length es1 < length es"
        by simp_all
      then obtain bs cs where cs: "css = bs # cs" "skb_chain (heap s) (hd (tx_queue es)) bs" "list_all2 (skb_chain (heap s)) (tx_queue es1) cs"
        using less.prems(2) by (metis list_all2_Cons1)
      let ?s = "s1\<lparr>heap := heap_free (set bs) (heap s)\<rparr>"
      have fr: "PKTFREE (hd (tx_queue es)) s1 = Some ?s" using PKTFREE_law [of s1 _ bs] cs(2) g(3) by simp
      have disj: "set bs \<inter> set (concat cs) = {}" "distinct (concat cs)" using less.prems(3) cs(1) by auto
      have "list_all2 (skb_chain (heap ?s)) (tx_queue es1) cs"
        using cs(3)
      proof (rule list.rel_mono_strong)
        fix p c
        assume c: "c \<in> set cs" "skb_chain (heap s) p c"
        show "skb_chain (heap ?s) p c"
          by (rule skb_chain_cong [OF c(2)]) (use c(1) disj(1) in \<open>auto simp: heap_free_def\<close>)
      qed
      moreover have "tx_holds ?s es1" using g(2) by (simp add: tx_holds_def)
      ultimately obtain s' where "txreclaim_loop HNDDMA_RANGE_ALL ?s = Some s'" "tx_holds s' []"
        "heap s' = heap_free (set (concat cs)) (heap ?s)"
        using less.hyps [OF q(3), of ?s cs] disj(2) by blast
      then show ?thesis using g(1) fr q False cs(1)
        by (subst txreclaim_loop.simps) (simp add: heap_free_free Un_commute)
    qed
  qed
  show ?thesis
  proof (cases "es = []")
    case True
    then have "css = []" "txin s = txout s" using assms by (simp_all add: tx_queue_def tx_holds_def ring_holds_empty)
    then show ?thesis using assms(1) True by (simp add: dma64_txreclaim_def heap_free_def fun_eq_iff)
  next
    case False
    then have "txin s \<noteq> txout s" using tx_count(1) [OF assms(1)] by (auto simp: dma_txactive_def NTXDACTIVE_def TXD_def XXD_def)
    then show ?thesis using loop [OF assms] by (simp add: dma64_txreclaim_def)
  qed
qed

end
