(* ===== verification/Dma_Parity.thy ===== *)
theory Dma_Parity
  imports Dma64
begin

text \<open>
  The parity of a descriptor: \<open>parity32\<close> folds a word onto its lowest bit, which is the parity of the
  number of its bits that are set, and a descriptor made with parity on has an even number of them.
\<close>

section \<open>Folding\<close>

primrec par :: "nat \<Rightarrow> (nat \<Rightarrow> bool) \<Rightarrow> bool" where
  "par 0 P \<longleftrightarrow> False"
| "par (Suc n) P \<longleftrightarrow> P n \<noteq> par n P"

lemma par_add: "par (m + n) P \<longleftrightarrow> par m P \<noteq> par n (\<lambda>i. P (m + i))"
  by (induction n) auto

lemma par_xor: "par n (\<lambda>i. P i \<noteq> Q i) \<longleftrightarrow> par n P \<noteq> par n Q"
  by (induction n) auto

lemma par_card: "par n P \<longleftrightarrow> odd (card {i. i < n \<and> P i})"
proof (induction n)
  case (Suc n)
  have "{i. i < Suc n \<and> P i} = (if P n then insert n {i. i < n \<and> P i} else {i. i < n \<and> P i})"
    by (auto simp: less_Suc_eq)
  then show ?case using Suc by simp
qed simp

lemma par_fold: "par m (bit (w XOR drop_bit m w :: u32)) \<longleftrightarrow> par (m + m) (bit w)"
proof -
  have "bit (w XOR drop_bit m w) = (\<lambda>i. bit w i \<noteq> bit w (m + i))"
    by (auto simp: fun_eq_iff bit_xor_iff bit_drop_bit_eq)
  then show ?thesis by (simp only: par_xor par_add)
qed

lemma parity32_par: "parity32 w = of_bool (par 32 (bit w))"
proof -
  define a where "a = w XOR drop_bit 16 w"
  define b where "b = a XOR drop_bit 8 a"
  define c where "c = b XOR drop_bit 4 b"
  define d where "d = c XOR drop_bit 2 c"
  define e where "e = d XOR drop_bit 1 d"
  have "par 1 (bit e) = par 32 (bit w)"
    unfolding e_def par_fold d_def by (simp only: par_fold one_add_one numeral_Bit0 [symmetric] c_def b_def a_def)
  moreover have "parity32 w = e AND 1"
    unfolding parity32_def a_def b_def c_def d_def e_def Let_def ..
  ultimately show ?thesis by (simp add: and_one_eq mod_2_eq_odd bit_0)
qed

lemma parity32_card: "parity32 w = of_bool (odd (card {i. bit w i}))"
proof -
  have "{i. bit w i} = {i. i < 32 \<and> bit w i}" using bit_imp_le_length [of w] by fastforce
  then show ?thesis by (simp only: parity32_par par_card)
qed

lemma xor_of_bool: "of_bool p XOR of_bool q = (of_bool (p \<noteq> q) :: u32)"
  by (cases p; cases q) simp_all

lemma parity32_xor: "parity32 (a XOR b) = parity32 a XOR parity32 b"
proof -
  have "bit (a XOR b) = (\<lambda>i. bit a i \<noteq> bit b i)" by (auto simp: fun_eq_iff bit_xor_iff)
  then have "par 32 (bit (a XOR b)) \<longleftrightarrow> par 32 (bit a) \<noteq> par 32 (bit b)" by (simp only: par_xor)
  then show ?thesis by (simp only: parity32_par xor_of_bool)
qed

section \<open>Descriptors\<close>

definition bits_set :: "dma64dd \<Rightarrow> nat" where
  "bits_set dd = card {i. bit (addrlow dd) i} + card {i. bit (addrhigh dd) i} + card {i. bit (ctrl1 dd) i} + card {i. bit (ctrl2 dd) i}"

lemma dd_parity: "DMA64_DD_PARITY dd = of_bool (odd (bits_set dd))"
  unfolding DMA64_DD_PARITY_def bits_set_def parity32_xor
  unfolding parity32_card xor_of_bool
  by (rule arg_cong [of _ _ of_bool]) (simp only: even_add, blast)

lemma or_xor_bit: "\<not> bit (c :: u32) k \<Longrightarrow> c OR 2 ^ k = c XOR 2 ^ k"
  by (rule bit_eqI) (auto simp: bit_or_iff bit_xor_iff bit_exp_iff)

lemma parity_bit: "\<not> bit c 18 \<Longrightarrow> parity32 (c OR D64_CTRL2_PARITY) = parity32 c XOR 1"
proof -
  assume "\<not> bit c 18"
  then have "c OR D64_CTRL2_PARITY = c XOR D64_CTRL2_PARITY" using or_xor_bit [of c 18] by simp
  then show ?thesis by (simp only: parity32_xor) (simp add: parity32_def)
qed

lemma dd_even: "dmactrlflags s AND DMA_CTRL_PEN \<noteq> 0 \<Longrightarrow> even (bits_set (dma64_dd s pa fl l))"
proof -
  assume pen: "dmactrlflags s AND DMA_CTRL_PEN \<noteq> 0"
  have flip: "DMA64_DD_PARITY (if DMA64_DD_PARITY dd \<noteq> 0 then dd\<lparr>ctrl2 := ctrl2 dd OR D64_CTRL2_PARITY\<rparr> else dd) = 0"
    if "\<not> bit (ctrl2 dd) 18" for dd
  proof (cases "DMA64_DD_PARITY dd = 0")
    case False
    then have "DMA64_DD_PARITY dd = 1" by (simp add: dd_parity)
    then show ?thesis using parity_bit [OF that] by (simp add: DMA64_DD_PARITY_def parity32_xor xor.assoc [symmetric])
  qed simp
  have b: "\<not> bit (l AND D64_CTRL2_BC_MASK) 18" "\<not> bit ((l AND D64_CTRL2_BC_MASK) OR (x AND D64_CTRL2_AE)) 18" for x :: u32
    by (simp_all add: bit_and_iff bit_or_iff)
  have "DMA64_DD_PARITY (dma64_dd s pa fl l) = 0"
    unfolding dma64_dd_def Let_def using pen b by (simp only: if_True simp_thms, intro flip) (simp split: if_splits)
  then show ?thesis by (simp add: dd_parity)
qed

section \<open>What a descriptor says\<close>

text \<open>
  A descriptor for the buffer at \<open>pa\<close>, read field by field. Without an offset between the bus and memory the low word is
  the address itself; with one (a PCI core) it is the address's lower 30 bits in the offset window, and its upper two bits are
  the address extension, bits 16 and 17 of the second control word. The high word is the upper half of the
  offset, as addresses have 32 bits. The length has 15 bits, and bit 18 is the parity bit: with
  parity on the number of all bits is even, otherwise the bit is 0. No other control bit is set.
\<close>

definition describes :: "dma_st \<Rightarrow> dma64dd \<Rightarrow> u32 \<Rightarrow> u32 \<Rightarrow> u32 \<Rightarrow> bool" where
  "describes s dd pa flags len \<longleftrightarrow>
     addrlow dd = (if dataoffsetlow s = 0 then pa else take_bit 30 pa + dataoffsetlow s) \<and>
     addrhigh dd = dataoffsethigh s \<and> ctrl1 dd = flags \<and>
     take_bit 15 (ctrl2 dd) = take_bit 15 len \<and>
     take_bit 2 (drop_bit 16 (ctrl2 dd)) = (if dataoffsetlow s = 0 then 0 else drop_bit 30 pa) \<and>
     (\<forall>k. bit (ctrl2 dd) k \<longrightarrow> k \<noteq> 15 \<and> k \<le> 18) \<and>
     (if dmactrlflags s AND DMA_CTRL_PEN \<noteq> 0 then even (bits_set dd) else \<not> bit (ctrl2 dd) 18)"

text \<open>The descriptor the code makes is one for its buffer.\<close>

lemma field_masks:
  "D64_CTRL2_BC_MASK = mask 15" "D64_CTRL2_AE = push_bit 16 (mask 2)" "PCI32ADDR_HIGH = push_bit 30 (mask 2)"
  "D64_CTRL2_PARITY = push_bit 18 1"
  by (simp_all add: mask_eq_exp_minus_1)

lemma parity_field: "bit D64_CTRL2_PARITY k \<longleftrightarrow> k = 18"
proof -
  have "(0x40000 :: u32) = 2 ^ 18" by simp
  then show ?thesis by (simp only: bit_exp_iff) auto
qed

lemma no_high: "(pa :: u32) AND NOT PCI32ADDR_HIGH = take_bit 30 pa"
  unfolding field_masks by (rule bit_word_eqI) (auto simp: bit_simps)
lemma high2: "drop_bit 30 ((pa :: u32) AND PCI32ADDR_HIGH) = drop_bit 30 pa"
  unfolding field_masks by (rule bit_word_eqI) (auto simp: bit_simps dest: bit_imp_le_length)

lemma split_mask: "(w :: u32) = (w AND m) OR (w AND NOT m)"
  by (rule bit_word_eqI) (simp add: bit_or_iff bit_and_iff bit_not_iff, blast)

lemma low30: "(pa :: u32) AND PCI32ADDR_HIGH = 0 \<Longrightarrow> take_bit 30 pa = pa \<and> drop_bit 30 pa = 0"
proof -
  assume z: "pa AND PCI32ADDR_HIGH = 0"
  have "pa = (pa AND PCI32ADDR_HIGH) OR (pa AND NOT PCI32ADDR_HIGH)" by (rule split_mask)
  then show ?thesis using z high2 [of pa] no_high [of pa] by simp
qed

lemma ctrl2_fields:
  fixes l a :: u32
  defines "c \<equiv> (l AND D64_CTRL2_BC_MASK) OR (push_bit 16 a AND D64_CTRL2_AE)"
  shows "take_bit 15 c = take_bit 15 l" "take_bit 2 (drop_bit 16 c) = take_bit 2 a"
    "bit c k \<Longrightarrow> k < 15 \<or> k = 16 \<or> k = 17"
    "take_bit 15 (c OR D64_CTRL2_PARITY) = take_bit 15 l" "take_bit 2 (drop_bit 16 (c OR D64_CTRL2_PARITY)) = take_bit 2 a"
    "bit (c OR D64_CTRL2_PARITY) k \<Longrightarrow> k < 15 \<or> k = 16 \<or> k = 17 \<or> k = 18"
proof -
  show "take_bit 15 c = take_bit 15 l" unfolding c_def field_masks by (rule bit_word_eqI) (auto simp: bit_simps)
  show "take_bit 2 (drop_bit 16 c) = take_bit 2 a" unfolding c_def field_masks by (rule bit_word_eqI) (auto simp: bit_simps)
  show "take_bit 15 (c OR D64_CTRL2_PARITY) = take_bit 15 l" unfolding c_def field_masks by (rule bit_word_eqI) (auto simp: bit_simps)
  show "take_bit 2 (drop_bit 16 (c OR D64_CTRL2_PARITY)) = take_bit 2 a" unfolding c_def field_masks by (rule bit_word_eqI) (auto simp: bit_simps)
  show f3: "bit c k \<Longrightarrow> k < 15 \<or> k = 16 \<or> k = 17" for k unfolding c_def field_masks by (auto simp: bit_simps)
  show "bit (c OR D64_CTRL2_PARITY) k \<Longrightarrow> k < 15 \<or> k = 16 \<or> k = 17 \<or> k = 18" using f3 [of k] unfolding bit_or_iff parity_field by blast
qed

lemma dd_describes: "describes s (dma64_dd s pa fl l) pa fl l"
proof -
  let ?pen = "dmactrlflags s AND DMA_CTRL_PEN \<noteq> 0"
  define a where "a = (if dataoffsetlow s = 0 then 0 else drop_bit 30 pa)"
  define c where "c = (l AND D64_CTRL2_BC_MASK) OR (push_bit 16 a AND D64_CTRL2_AE)"
  define low where "low = (if dataoffsetlow s = 0 then pa else take_bit 30 pa + dataoffsetlow s)"
  define d where "d = \<lparr>ctrl1 = fl, ctrl2 = c, addrlow = low, addrhigh = dataoffsethigh s\<rparr>"
  have dd: "dma64_dd s pa fl l = (if ?pen \<and> DMA64_DD_PARITY d \<noteq> 0 then d\<lparr>ctrl2 := c OR D64_CTRL2_PARITY\<rparr> else d)"
  proof (cases "dataoffsetlow s = 0 \<or> pa AND PCI32ADDR_HIGH = 0")
    case True
    then have "low = pa + dataoffsetlow s" "a = 0" using low30 [of pa] by (auto simp: low_def a_def)
    then have "d = \<lparr>ctrl1 = fl, ctrl2 = l AND D64_CTRL2_BC_MASK, addrlow = pa + dataoffsetlow s, addrhigh = dataoffsethigh s\<rparr>"
        "c = l AND D64_CTRL2_BC_MASK"
      by (simp_all add: d_def c_def)
    with True show ?thesis by (simp add: dma64_dd_def Let_def)
  next
    case False
    then have "d = \<lparr>ctrl1 = fl, ctrl2 = c, addrlow = (pa AND NOT PCI32ADDR_HIGH) + dataoffsetlow s, addrhigh = dataoffsethigh s\<rparr>"
        "c = (l AND D64_CTRL2_BC_MASK) OR (push_bit 16 (drop_bit 30 (pa AND PCI32ADDR_HIGH)) AND D64_CTRL2_AE)"
      by (simp_all add: d_def c_def low_def a_def no_high [symmetric] high2)
    with False show ?thesis by (simp add: dma64_dd_def Let_def)
  qed
  have "take_bit 2 (drop_bit 30 pa) = drop_bit 30 pa"
    by (rule bit_word_eqI) (auto simp: bit_simps dest: bit_imp_le_length)
  then have a: "take_bit 2 a = a" by (simp add: a_def)
  note f = ctrl2_fields [of l a, folded c_def, unfolded a]
  have ev: "even (bits_set (dma64_dd s pa fl l))" if ?pen using dd_even that .
  have p: "\<not> bit c 18" using f(3) [of 18] by auto
  have b: "k \<noteq> 15 \<and> k \<le> 18" if "bit c k \<or> bit (c OR D64_CTRL2_PARITY) k" for k
    using f(3,6) [of k] that by auto
  show ?thesis
  proof (cases "?pen \<and> DMA64_DD_PARITY d \<noteq> 0")
    case True
    then have "dma64_dd s pa fl l = d\<lparr>ctrl2 := c OR D64_CTRL2_PARITY\<rparr>" using dd by simp
    then show ?thesis using True ev f(4,5) b unfolding describes_def d_def a_def low_def by simp
  next
    case False
    have "dma64_dd s pa fl l = d" by (rule trans [OF dd if_not_P [OF False]])
    then show ?thesis using ev f(1,2) b p unfolding describes_def d_def a_def low_def by simp
  qed
qed

end
