(* ===== verification/Dma_Post_Laws.thy ===== *)
theory Dma_Post_Laws
  imports Dma_Tx_Laws Dma_Parity
begin

text \<open>
  Posting a packet to the transmit ring: which entries the buffers of the packet become, when the ring
  has room for them, and what is left behind when it has not.
\<close>

section \<open>What a packet becomes\<close>

text \<open>Every buffer of the chain needs a free descriptor when it is reached, an empty one too.\<close>

fun fits :: "nat \<Rightarrow> u32 list \<Rightarrow> bool" where
  "fits f [] \<longleftrightarrow> True"
| "fits f (l # ls) \<longleftrightarrow> 0 < f \<and> fits (if l = 0 then f else f - 1) ls"

definition buf_len :: "dma_st \<Rightarrow> addr \<Rightarrow> u32" where
  "buf_len s a = (case heap s a of None \<Rightarrow> 0 | Some b \<Rightarrow> skb_len b)"

definition buf_pa :: "(u32 \<Rightarrow> u32 \<Rightarrow> u32) \<Rightarrow> dma_st \<Rightarrow> addr \<Rightarrow> u32" where
  "buf_pa dmap s a = (case heap s a of None \<Rightarrow> 0 | Some b \<Rightarrow> dmap (skb_data b) (skb_len b))"

fun tx_dds :: "(u32 \<Rightarrow> u32 \<Rightarrow> u32) \<Rightarrow> dma_st \<Rightarrow> addr \<Rightarrow> nat \<Rightarrow> addr list \<Rightarrow> dma64dd list" where
  "tx_dds dmap s p0 i [] = []"
| "tx_dds dmap s p0 i (a # bs) =
     (if buf_len s a = 0 then tx_dds dmap s p0 i bs
      else dma64_dd s (buf_pa dmap s a)
        ((if a = p0 then D64_CTRL1_SOF else 0) OR (if bs = [] then D64_CTRL1_IOC OR D64_CTRL1_EOF else 0) OR
         (if i + 1 = unat (ntxd s) then D64_CTRL1_EOT else 0)) (buf_len s a) #
        tx_dds dmap s p0 (Suc i mod unat (ntxd s)) bs)"

definition tx_new_maps :: "(u32 \<Rightarrow> u32 \<Rightarrow> u32) \<Rightarrow> dma_st \<Rightarrow> addr list \<Rightarrow> (u32 \<times> u32) list" where
  "tx_new_maps dmap s bs = map (\<lambda>a. (buf_pa dmap s a, buf_len s a)) (filter (\<lambda>a. buf_len s a \<noteq> 0) bs)"

lemma length_tx_dds: "length (tx_dds dmap s p0 i bs) = length (filter (\<lambda>a. buf_len s a \<noteq> 0) bs)"
  by (induction bs arbitrary: i) auto

lemma tx_params [simp]:
  "buf_len (s\<lparr>txd64 := r\<rparr>) = buf_len s" "buf_len (s\<lparr>txmaps := m\<rparr>) = buf_len s"
  "buf_pa dmap (s\<lparr>txd64 := r\<rparr>) = buf_pa dmap s" "buf_pa dmap (s\<lparr>txmaps := m\<rparr>) = buf_pa dmap s"
  "dma64_dd (s\<lparr>txd64 := r\<rparr>) = dma64_dd s" "dma64_dd (s\<lparr>txmaps := m\<rparr>) = dma64_dd s"
  "NEXTTXD (s\<lparr>txd64 := r\<rparr>) = NEXTTXD s" "NEXTTXD (s\<lparr>txmaps := m\<rparr>) = NEXTTXD s"
  "PREVTXD (s\<lparr>txd64 := r\<rparr>) = PREVTXD s" "PREVTXD (s\<lparr>txmaps := m\<rparr>) = PREVTXD s"
  by (simp_all add: fun_eq_iff buf_len_def buf_pa_def dma64_dd_def NEXTTXD_def PREVTXD_def TXD_def Let_def)

lemma tx_dds_params [simp]:
  "tx_dds dmap (s\<lparr>txd64 := r\<rparr>) p0 i bs = tx_dds dmap s p0 i bs"
  "tx_dds dmap (s\<lparr>txmaps := m\<rparr>) p0 i bs = tx_dds dmap s p0 i bs"
  "tx_new_maps dmap (s\<lparr>txd64 := r\<rparr>) bs = tx_new_maps dmap s bs"
  "tx_new_maps dmap (s\<lparr>txmaps := m\<rparr>) bs = tx_new_maps dmap s bs"
  by (induction bs arbitrary: i) (simp_all add: tx_new_maps_def)

lemma ctrl1_dd [simp]: "ctrl1 (dma64_dd s pa fl l) = fl"
  by (simp add: dma64_dd_def Let_def)

section \<open>The loop over the buffers\<close>

definition posted :: "dma_st \<Rightarrow> u16 \<Rightarrow> dma64dd list \<Rightarrow> dma64dd list \<Rightarrow> u16 \<Rightarrow> bool" where
  "posted s i ds ring i' \<longleftrightarrow>
     length ring = unat (ntxd s) \<and> unat i' = (unat i + length ds) mod unat (ntxd s) \<and>
     rotate (unat i') ring = drop (length ds) (rotate (unat i) (txd64 s)) @ ds"

lemma posted_none: "length (txd64 s) = unat (ntxd s) \<Longrightarrow> unat i < unat (ntxd s) \<Longrightarrow> posted s i [] (txd64 s) i"
  by (simp add: posted_def)

lemma posted_more:
  assumes "ring_size (ntxd s)" "length (txd64 s) = unat (ntxd s)" "unat i < unat (ntxd s)" "length ds < unat (ntxd s)"
    and "posted (s\<lparr>txmaps := m, txd64 := (txd64 s)[unat i := dd]\<rparr>) (NEXTTXD s i) ds ring i'"
  shows "posted s i (dd # ds) ring i'"
proof -
  let ?n = "unat (ntxd s)"
  have nx: "unat (NEXTTXD s i) = Suc (unat i) mod ?n" by (rule next_index [OF assms(1)])
  have "rotate (unat (NEXTTXD s i)) ((txd64 s)[unat i := dd]) = tl (rotate (unat i) (txd64 s)) @ [dd]"
    unfolding nx using assms(2,3) by (intro ring_step)
  moreover have "length ring = ?n" "unat i' = (unat (NEXTTXD s i) + length ds) mod ?n"
    "rotate (unat i') ring = drop (length ds) (rotate (unat (NEXTTXD s i)) ((txd64 s)[unat i := dd])) @ ds"
    using assms(5) [unfolded posted_def, simplified] by blast+
  moreover have "(unat (NEXTTXD s i) + length ds) mod ?n = (unat i + length (dd # ds)) mod ?n"
    unfolding nx mod_add_left_eq by simp
  ultimately show ?thesis
    unfolding posted_def using assms(2,4) by (auto simp: drop_Suc)
qed

lemma txfast_loop_law:
  assumes "skb_chain (heap s) p bs" "ring_size (ntxd s)" "length (txd64 s) = unat (ntxd s)"
    "unat i < unat (ntxd s)" "unat (txin s) = (unat i + f + 1) mod unat (ntxd s)" "f < unat (ntxd s)"
  shows "\<exists>ds ring i' ms. posted s i ds ring i' \<and> length ds \<le> f \<and>
    (if fits f (map (buf_len s) bs)
     then ds = tx_dds dmap s p0 (unat i) bs \<and>
       txfast_loop dmap p0 p i fl s =
         Some (Inr (s\<lparr>txd64 := ring, txmaps := txmaps s @ tx_new_maps dmap s bs\<rparr>, i', if ds = [] then fl else ctrl1 (last ds)))
     else txfast_loop dmap p0 p i fl s = Some (Inl (s\<lparr>txd64 := ring, txmaps := txmaps s @ ms\<rparr>)))"
  using assms
proof (induction bs arbitrary: s p i f fl)
  case Nil
  have same: "s\<lparr>txd64 := txd64 s, txmaps := txmaps s\<rparr> = s" by simp
  have "txfast_loop dmap p0 p i fl s = Some (Inr (s\<lparr>txd64 := txd64 s, txmaps := txmaps s @ tx_new_maps dmap s []\<rparr>, i, fl))"
    using Nil.prems(1) same by (subst txfast_loop.simps) (simp add: skb_chain_Nil tx_new_maps_def)
  then show ?case using posted_none [OF Nil.prems(3,4)] by (intro exI [of _ "[]"] exI [of _ "txd64 s"] exI [of _ i]) simp
next
  case (Cons a bs)
  let ?n = "unat (ntxd s)"
  obtain b where b: "p = a" "a \<noteq> 0" "heap s a = Some b" "skb_chain (heap s) (skb_next b) bs"
    using Cons.prems(1) by (auto simp: skb_chain_Cons)
  have nx: "unat (NEXTTXD s i) = Suc (unat i) mod ?n" by (rule next_index [OF Cons.prems(2)])
  have full: "NEXTTXD s i = txin s \<longleftrightarrow> f = 0"
  proof -
    have "NEXTTXD s i = txin s \<longleftrightarrow> (Suc (unat i) + 0) mod ?n = (Suc (unat i) + f) mod ?n"
      unfolding word_unat_eq_iff nx Cons.prems(5) by simp
    also have "\<dots> \<longleftrightarrow> 0 = f" using Cons.prems(6) by (intro ring_inj) simp_all
    finally show ?thesis by auto
  qed
  have len: "buf_len s a = skb_len b" "buf_pa dmap s a = dmap (skb_data b) (skb_len b)"
    using b(3) by (simp_all add: buf_len_def buf_pa_def)
  have lst: "skb_next b = 0 \<longleftrightarrow> bs = []" using b(4) by (auto simp: skb_chain_def dest: chain_nil)
  consider "f = 0" | "f \<noteq> 0" "skb_len b = 0" | "f \<noteq> 0" "skb_len b \<noteq> 0" by blast
  then show ?case
  proof cases
    case 1
    then have "txfast_loop dmap p0 p i fl s = Some (Inl (s\<lparr>txd64 := txd64 s, txmaps := txmaps s @ []\<rparr>))"
      using b full by (subst txfast_loop.simps) simp
    then show ?thesis using posted_none [OF Cons.prems(3,4)] 1
      by (intro exI [of _ "[]"] exI [of _ "txd64 s"] exI [of _ i]) simp
  next
    case 2
    have "txfast_loop dmap p0 p i fl s = txfast_loop dmap p0 (skb_next b) i fl s"
      using b full 2 by (subst txfast_loop.simps) simp
    moreover have "tx_new_maps dmap s (a # bs) = tx_new_maps dmap s bs"
      "fits f (map (buf_len s) (a # bs)) = fits f (map (buf_len s) bs)"
      "tx_dds dmap s p0 (unat i) (a # bs) = tx_dds dmap s p0 (unat i) bs"
      using 2 len by (simp_all add: tx_new_maps_def)
    ultimately show ?thesis using Cons.IH [OF b(4) Cons.prems(2-6), of fl] by (simp only:)
  next
    case 3
    let ?fl = "(if a = p0 then D64_CTRL1_SOF else 0) OR (if bs = [] then D64_CTRL1_IOC OR D64_CTRL1_EOF else 0) OR
         (if unat i + 1 = ?n then D64_CTRL1_EOT else 0)"
    let ?dd = "dma64_dd s (buf_pa dmap s a) ?fl (buf_len s a)"
    let ?m = "txmaps s @ [(buf_pa dmap s a, buf_len s a)]"
    let ?s = "s\<lparr>txmaps := ?m, txd64 := (txd64 s)[unat i := ?dd]\<rparr>"
    have step: "txfast_loop dmap p0 p i fl s = txfast_loop dmap p0 (skb_next b) (NEXTTXD s i) ?fl ?s"
      using b full 3 Cons.prems(3,4) lst len
      by (subst txfast_loop.simps) (simp add: dma64_dd_upd_def wr_def Let_def)
    have fr: "unat (txin s) = (unat (NEXTTXD s i) + (f - 1) + 1) mod ?n"
      unfolding nx Cons.prems(5) using 3(1) by (simp add: mod_Suc_eq mod_add_left_eq)
    have ni: "unat (NEXTTXD s i) < ?n" unfolding nx using Cons.prems(4) by (intro mod_less_divisor) simp
    have "\<exists>ds ring i' ms. posted ?s (NEXTTXD s i) ds ring i' \<and> length ds \<le> f - 1 \<and>
        (if fits (f - 1) (map (buf_len ?s) bs)
         then ds = tx_dds dmap ?s p0 (unat (NEXTTXD s i)) bs \<and>
           txfast_loop dmap p0 (skb_next b) (NEXTTXD s i) ?fl ?s =
             Some (Inr (?s\<lparr>txd64 := ring, txmaps := txmaps ?s @ tx_new_maps dmap ?s bs\<rparr>, i', if ds = [] then ?fl else ctrl1 (last ds)))
         else txfast_loop dmap p0 (skb_next b) (NEXTTXD s i) ?fl ?s = Some (Inl (?s\<lparr>txd64 := ring, txmaps := txmaps ?s @ ms\<rparr>)))"
      by (rule Cons.IH) (use b(4) Cons.prems 3(1) fr ni in simp_all)
    then obtain ds ring i' ms where r: "posted ?s (NEXTTXD s i) ds ring i'" "length ds \<le> f - 1"
      and res: "if fits (f - 1) (map (buf_len ?s) bs)
         then ds = tx_dds dmap ?s p0 (unat (NEXTTXD s i)) bs \<and>
           txfast_loop dmap p0 (skb_next b) (NEXTTXD s i) ?fl ?s =
             Some (Inr (?s\<lparr>txd64 := ring, txmaps := txmaps ?s @ tx_new_maps dmap ?s bs\<rparr>, i', if ds = [] then ?fl else ctrl1 (last ds)))
         else txfast_loop dmap p0 (skb_next b) (NEXTTXD s i) ?fl ?s = Some (Inl (?s\<lparr>txd64 := ring, txmaps := txmaps ?s @ ms\<rparr>))"
      by (elim exE conjE)
    have le: "Suc (length ds) \<le> f" using r(2) 3(1) by arith
    have p: "posted s i (?dd # ds) ring i'"
      by (rule posted_more [OF Cons.prems(2-4) _ r(1)]) (use r(2) Cons.prems(6) in simp)
    show ?thesis
    proof (cases "fits (f - 1) (map (buf_len s) bs)")
      case True
      with res have "ds = tx_dds dmap s p0 (unat (NEXTTXD s i)) bs"
        "txfast_loop dmap p0 p i fl s = Some (Inr (s\<lparr>txd64 := ring, txmaps := txmaps s @ tx_new_maps dmap s (a # bs)\<rparr>, i',
           if ds = [] then ?fl else ctrl1 (last ds)))"
        unfolding step using 3 len by (simp_all add: tx_new_maps_def)
      moreover have "tx_dds dmap s p0 (unat i) (a # bs) = ?dd # tx_dds dmap s p0 (unat (NEXTTXD s i)) bs"
        using 3 len nx by simp
      moreover have "fits f (map (buf_len s) (a # bs))" using 3 len True by simp
      ultimately show ?thesis using p le
        by - (rule exI [of _ "?dd # ds"], rule exI [of _ ring], rule exI [of _ i'], simp)
    next
      case False
      with res have "txfast_loop dmap p0 p i fl s =
          Some (Inl (s\<lparr>txd64 := ring, txmaps := txmaps s @ (buf_pa dmap s a, buf_len s a) # ms\<rparr>))"
        unfolding step by simp
      moreover have "\<not> fits f (map (buf_len s) (a # bs))" using 3 len False by simp
      ultimately show ?thesis using p le
        by - (rule exI [of _ "?dd # ds"], rule exI [of _ ring], rule exI [of _ i'],
          rule exI [of _ "(buf_pa dmap s a, buf_len s a) # ms"], simp del: fits.simps)
    qed

  qed
qed

section \<open>Posting a packet\<close>

text \<open>The last descriptor ends the frame, whatever the loop wrote there; the packet runs beside it.\<close>

definition end_frame :: "dma64dd \<Rightarrow> dma64dd" where
  "end_frame dd = (if ctrl1 dd AND D64_CTRL1_EOF = 0 then dd\<lparr>ctrl1 := ctrl1 dd OR D64_CTRL1_IOC OR D64_CTRL1_EOF\<rparr> else dd)"

definition tx_entries :: "(u32 \<Rightarrow> u32 \<Rightarrow> u32) \<Rightarrow> dma_st \<Rightarrow> addr \<Rightarrow> addr list \<Rightarrow> (dma64dd \<times> addr) list" where
  "tx_entries dmap s p0 bs =
     (let ds = tx_dds dmap s p0 (unat (txout s)) bs in
      map (\<lambda>dd. (dd, 0)) (butlast ds) @ [(end_frame (last ds), p0)])"

lemma replicate_upd:
  "k < r \<Longrightarrow> (us @ replicate r x)[length us + k := v] = us @ replicate k x @ [v] @ replicate (r - k - 1) x"
proof -
  assume "k < r"
  then have "replicate r x = replicate k x @ x # replicate (r - k - 1) x"
    by (metis Suc_diff_Suc add_diff_inverse_nat diff_Suc_eq_diff_pred less_imp_le_nat not_less replicate_Suc replicate_add diff_diff_left plus_1_eq_Suc add.commute)
  then show ?thesis by (simp add: list_update_append)
qed

lemma last_upd: "ds \<noteq> [] \<Longrightarrow> (us @ ds @ vs)[length us + length ds - 1 := v] = us @ butlast ds @ [v] @ vs"
  by (induction ds rule: rev_induct) (simp_all add: list_update_append)

lemma tx_room:
  assumes "tx_holds s es"
  shows "unat (txin s) = (unat (txout s) + (unat (ntxd s) - 1 - length es) + 1) mod unat (ntxd s)"
proof -
  have h: "unat (txin s) < unat (ntxd s)" "length es < unat (ntxd s)"
    "unat (txout s) = (unat (txin s) + length es) mod unat (ntxd s)"
    using assms by (simp_all add: tx_holds_unfold)
  have "(unat (txout s) + (unat (ntxd s) - length es)) mod unat (ntxd s) =
      (unat (txin s) + length es + (unat (ntxd s) - length es)) mod unat (ntxd s)"
    unfolding h(3) by (rule mod_add_left_eq)
  moreover have "unat (txout s) + (unat (ntxd s) - 1 - length es) + 1 = unat (txout s) + (unat (ntxd s) - length es)"
    using h(2) by simp
  ultimately show ?thesis using h(1,2) by simp
qed

lemma txfast_law:
  assumes es: "tx_holds s es" and bs: "skb_chain (heap s) p0 bs"
    and ne: "\<exists>a\<in>set bs. buf_len s a \<noteq> 0" and fits: "fits (unat (ntxd s) - 1 - length es) (map (buf_len s) bs)"
    and rg: "commit \<Longrightarrow> d64txregs s \<noteq> None"
  shows "\<exists>s'. dma64_txfast dmap p0 commit s = Some (0, s') \<and> tx_holds s' (es @ tx_entries dmap s p0 bs) \<and>
    heap s' = heap s \<and> ntxd s' = ntxd s \<and> txmaps s' = txmaps s @ tx_new_maps dmap s bs \<and>
    d64txregs s' = (if commit then map_option (ptr_update (\<lambda>_. xmtptrbase s + 16 * ucast (txout s'))) (d64txregs s) else d64txregs s)"
proof -
  let ?n = "unat (ntxd s)" and ?m = "length es"
  have h: "ring_size (ntxd s)" "length (txd64 s) = ?n" "length (txp s) = ?n" "unat (txin s) < ?n" "?m < ?n"
    "unat (txout s) = (unat (txin s) + ?m) mod ?n"
    "rotate (unat (txin s)) (txp s) = map snd es @ replicate (?n - ?m) 0"
    "take ?m (rotate (unat (txin s)) (txd64 s)) = map fst es"
    using es by (simp_all add: tx_holds_unfold)
  have o: "unat (txout s) < ?n" unfolding h(6) using h(4) by (intro mod_less_divisor) simp
  from txfast_loop_law [OF bs h(1,2) o tx_room [OF es], of dmap p0 0] h(5) fits
  obtain ds ring i where ds: "ds = tx_dds dmap s p0 (unat (txout s)) bs" "posted s (txout s) ds ring i" "length ds \<le> ?n - 1 - ?m"
    and loop: "txfast_loop dmap p0 p0 (txout s) 0 s =
      Some (Inr (s\<lparr>txd64 := ring, txmaps := txmaps s @ tx_new_maps dmap s bs\<rparr>, i, if ds = [] then 0 else ctrl1 (last ds)))"
    by auto
  let ?k = "length ds"
  have k: "0 < ?k" using ne unfolding ds(1) length_tx_dds by (auto simp: filter_empty_conv)
  then have dn: "ds \<noteq> []" by auto
  have mk: "?m + ?k < ?n" using ds(3) h(5) by simp
  have i: "unat i = (unat (txin s) + ?m + ?k) mod ?n" and lr: "length ring = ?n"
    and ro: "rotate (unat i) ring = drop ?k (rotate (unat (txout s)) (txd64 s)) @ ds"
    using ds(2) [unfolded posted_def h(6) mod_add_left_eq] unfolding h(6) by blast+
  let ?r = "drop (?m + ?k) (rotate (unat (txin s)) (txd64 s))"
  have view: "rotate (unat (txin s)) ring = map fst es @ ds @ ?r"
    using ring_write [OF h(2) lr h(4), of ?m ?k ds] mk ro h(6,8) i by simp
  define j where "j = ?m + ?k - 1"
  have jn: "j < ?n" "j < length ring" "j < length (txp s)" using mk lr h(3) by (simp_all add: j_def)
  have jl: "j = length (map fst es) + (?k - 1)" using k unfolding j_def length_map by linarith
  have "unat i + ?n - 1 = unat i + (?n - 1)" using mk by simp
  then have "unat (PREVTXD s i) = (unat (txin s) + ?m + ?k + (?n - 1)) mod ?n"
    unfolding prev_index [OF h(1)] i by (simp only: mod_add_left_eq)
  also have "unat (txin s) + ?m + ?k + (?n - 1) = unat (txin s) + j + ?n"
    using k mk unfolding j_def by linarith
  finally have pj: "unat (PREVTXD s i) = (unat (txin s) + j) mod ?n" by simp
  have "ring ! unat (PREVTXD s i) = rotate (unat (txin s)) ring ! j"
    using ring_nth [OF jn(2), of "unat (txin s)"] lr pj by simp
  also have "\<dots> = last ds"
    unfolding view jl nth_append_length_plus using k dn by (simp add: nth_append last_conv_nth)
  finally have rj: "ring ! unat (PREVTXD s i) = last ds" .
  let ?ring = "ring[unat (PREVTXD s i) := end_frame (last ds)]"
  have "rotate (unat (txin s)) ?ring = (rotate (unat (txin s)) ring)[j := end_frame (last ds)]"
    using ring_upd [OF jn(2), of "unat (txin s)"] lr pj by simp
  also have "\<dots> = map fst es @ butlast ds @ [end_frame (last ds)] @ ?r"
    unfolding view using last_upd [OF dn, of "map fst es" ?r] by (simp add: j_def)
  finally have ring: "rotate (unat (txin s)) ?ring = \<dots>" .
  have "rotate (unat (txin s)) ((txp s)[unat (PREVTXD s i) := p0]) = (rotate (unat (txin s)) (txp s))[j := p0]"
    using ring_upd [OF jn(3), of "unat (txin s)"] h(3) pj by simp
  also have "\<dots> = map snd es @ replicate (?k - 1) 0 @ [p0] @ replicate (?n - (?m + ?k)) 0"
    unfolding h(7) using replicate_upd [of "?k - 1" "?n - ?m" "map snd es" "0 :: addr" p0] k mk by (simp add: j_def)
  finally have tp: "rotate (unat (txin s)) ((txp s)[unat (PREVTXD s i) := p0]) = \<dots>" .
  let ?new = "tx_entries dmap s p0 bs"
  have new: "map fst ?new = butlast ds @ [end_frame (last ds)]" "map snd ?new = replicate (?k - 1) 0 @ [p0]"
    "length ?new = ?k"
    using k by (simp_all add: tx_entries_def ds(1) [symmetric] Let_def o_def map_replicate_const)
  have p0: "p0 \<noteq> 0" using bs ne by (cases bs) (auto simp: skb_chain_Cons)
  let ?s1 = "s\<lparr>txd64 := ring, txmaps := txmaps s @ tx_new_maps dmap s bs\<rparr>"
  let ?s2 = "?s1\<lparr>txd64 := ?ring, txp := (txp s)[unat (PREVTXD s i) := p0], txout := i\<rparr>"
  have holds: "tx_holds ?s2 (es @ ?new)"
    unfolding tx_holds_unfold using h(1-4) lr mk i ring tp new p0 by (simp add: tx_entries_def Let_def add.assoc)
  have lt: "unat (PREVTXD s i) < length ring" "unat (PREVTXD s i) < length (txp s)"
    unfolding pj lr h(3) using jn(1) by (intro mod_less_divisor; simp)+
  have rid: "ring[unat (PREVTXD s i) := last ds] = ring"
    using list_update_id [of ring "unat (PREVTXD s i)"] unfolding rj .
  have loop': "txfast_loop dmap p0 p0 (txout s) 0 s = Some (Inr (?s1, i, ctrl1 (last ds)))" using loop dn by simp
  have upd: "(if ctrl1 (last ds) AND D64_CTRL1_EOF = 0
      then set_ctrl1 ring (unat (PREVTXD s i)) (ctrl1 (last ds) OR D64_CTRL1_IOC OR D64_CTRL1_EOF)
      else Some ring) = Some ?ring"
    using rj dn lt rid by (auto simp: set_ctrl1_def rd_def wr_def end_frame_def)
  show ?thesis
  proof (cases commit)
    case False
    have "dma64_txfast dmap p0 commit s = Some (0, dma_txunblock ?s2)"
      using loop' upd False lt by (simp add: dma64_txfast_def wr_def Let_def split: if_splits)
    then show ?thesis using holds False by auto
  next
    case True
    then obtain r where r: "d64txregs s = Some r" using rg by auto
    let ?s3 = "?s2\<lparr>d64txregs := Some (r\<lparr>ptr := xmtptrbase s + I2B (ucast i)\<rparr>)\<rparr>"
    have "dma64_txfast dmap p0 commit s = Some (0, dma_txunblock ?s3)"
      using loop' upd True lt r by (simp add: dma64_txfast_def wr_def Let_def W_ptr_def upd_regs_def split: if_splits)
    then show ?thesis using holds True r by (auto simp: I2B_def mult.commute)
  qed
qed

text \<open>
  When the descriptors run out the packet is freed and the ring holds what it held; the descriptors
  already written are behind the last entry.
\<close>

lemma txfast_full:
  assumes es: "tx_holds s es" and bs: "skb_chain (heap s) p0 bs"
    and full: "\<not> fits (unat (ntxd s) - 1 - length es) (map (buf_len s) bs)"
  shows "\<exists>s' ms. dma64_txfast dmap p0 commit s = Some (- 1, s') \<and> tx_holds s' es \<and>
    heap s' = heap_free (set bs) (heap s) \<and> txmaps s' = txmaps s @ ms \<and> txavail s' = 0 \<and>
    txnobuf s' = txnobuf s + 1 \<and> d64txregs s' = d64txregs s \<and> ntxd s' = ntxd s"
proof -
  let ?n = "unat (ntxd s)" and ?m = "length es"
  have h: "ring_size (ntxd s)" "length (txd64 s) = ?n" "unat (txin s) < ?n" "?m < ?n"
    "unat (txout s) = (unat (txin s) + ?m) mod ?n" "take ?m (rotate (unat (txin s)) (txd64 s)) = map fst es"
    using es by (simp_all add: tx_holds_unfold)
  have o: "unat (txout s) < ?n" unfolding h(5) using h(3) by (intro mod_less_divisor) simp
  from txfast_loop_law [OF bs h(1,2) o tx_room [OF es], of dmap p0 0] h(4) full
  obtain ds ring i ms where ds: "posted s (txout s) ds ring i" "length ds \<le> ?n - 1 - ?m"
    and loop: "txfast_loop dmap p0 p0 (txout s) 0 s = Some (Inl (s\<lparr>txd64 := ring, txmaps := txmaps s @ ms\<rparr>))"
    by auto
  have i: "unat i = (unat (txin s) + ?m + length ds) mod ?n" and lr: "length ring = ?n"
    and ro: "rotate (unat i) ring = drop (length ds) (rotate (unat (txout s)) (txd64 s)) @ ds"
    using ds(1) [unfolded posted_def h(5) mod_add_left_eq] unfolding h(5) by blast+
  have "rotate (unat (txin s)) ring = map fst es @ ds @ drop (?m + length ds) (rotate (unat (txin s)) (txd64 s))"
    using ring_write [OF h(2) lr h(3), of ?m "length ds" ds] ds(2) h(4) ro h(5,6) i by simp
  then have holds: "tx_holds (s\<lparr>txd64 := ring, txmaps := txmaps s @ ms, heap := hp, txavail := av, txnobuf := nb\<rparr>) es" for hp av nb
    using es lr by (simp add: tx_holds_unfold)
  let ?s1 = "s\<lparr>txd64 := ring, txmaps := txmaps s @ ms\<rparr>"
  have "PKTFREE p0 ?s1 = Some (?s1\<lparr>heap := heap_free (set bs) (heap s)\<rparr>)"
    using PKTFREE_law [of ?s1 p0 bs] bs by simp
  then have "dma64_txfast dmap p0 commit s = Some (- 1, ?s1\<lparr>heap := heap_free (set bs) (heap s), txavail := 0, txnobuf := txnobuf s + 1\<rparr>)"
    using loop by (simp add: dma64_txfast_def)
  then show ?thesis using holds by auto
qed

section \<open>The descriptors of a packet\<close>

text \<open>The buffers that get a descriptor, and the flags of the one that is \<open>j\<close>-th of them.\<close>

definition sent_bufs :: "dma_st \<Rightarrow> addr list \<Rightarrow> addr list" where
  "sent_bufs s bs = filter (\<lambda>a. buf_len s a \<noteq> 0) bs"

lemma tx_dds_nth:
  "distinct bs \<Longrightarrow> j < length (sent_bufs s bs) \<Longrightarrow> i < unat (ntxd s) \<Longrightarrow> a = sent_bufs s bs ! j \<Longrightarrow>
    tx_dds dmap s p0 i bs ! j =
      dma64_dd s (buf_pa dmap s a)
        ((if a = p0 then D64_CTRL1_SOF else 0) OR (if a = last bs then D64_CTRL1_IOC OR D64_CTRL1_EOF else 0) OR
         (if (i + j) mod unat (ntxd s) + 1 = unat (ntxd s) then D64_CTRL1_EOT else 0)) (buf_len s a)"
proof (induction bs arbitrary: i j)
  case (Cons b bs)
  have d: "distinct bs" "b \<notin> set bs" using Cons.prems(1) by simp_all
  show ?case
  proof (cases "buf_len s b = 0")
    case True
    then have sb: "sent_bufs s (b # bs) = sent_bufs s bs" by (simp add: sent_bufs_def)
    then have "bs \<noteq> []" using Cons.prems(2) by (auto simp: sent_bufs_def)
    then show ?thesis using Cons.IH [OF d(1), of j i] Cons.prems True sb by simp
  next
    case False
    then have sb: "sent_bufs s (b # bs) = b # sent_bufs s bs" by (simp add: sent_bufs_def)
    show ?thesis
    proof (cases j)
      case 0
      have "b = last (b # bs) \<longleftrightarrow> bs = []" using d(2) by (cases "bs = []") auto
      then show ?thesis using 0 False sb Cons.prems by (simp del: last.simps)
    next
      case (Suc k)
      have k: "k < length (sent_bufs s bs)" "a = sent_bufs s bs ! k" using Cons.prems(2,4) sb Suc by simp_all
      then have ne: "bs \<noteq> []" by (auto simp: sent_bufs_def)
      have "Suc i mod unat (ntxd s) < unat (ntxd s)" using Cons.prems(3) by (intro mod_less_divisor) simp
      moreover have "(Suc i mod unat (ntxd s) + k) mod unat (ntxd s) = (i + j) mod unat (ntxd s)"
        unfolding mod_add_left_eq Suc by simp
      ultimately show ?thesis using Cons.IH [OF d(1) k(1) _ k(2), of "Suc i mod unat (ntxd s)"] False Suc ne by simp
    qed
  qed
qed (simp add: sent_bufs_def)

lemma first_sent: "bs \<noteq> [] \<Longrightarrow> buf_len s (hd bs) \<noteq> 0 \<Longrightarrow> sent_bufs s bs \<noteq> [] \<and> sent_bufs s bs ! 0 = hd bs"
  by (cases bs) (simp_all add: sent_bufs_def)

text \<open>
  Marking the end afterwards gives the descriptor the flags would have given at once: two more bits do
  not change the parity.
\<close>

lemma end_frame_dd:
  assumes "fl AND (D64_CTRL1_IOC OR D64_CTRL1_EOF) = 0"
  shows "end_frame (dma64_dd s pa fl l) = dma64_dd s pa (fl OR D64_CTRL1_IOC OR D64_CTRL1_EOF) l"
proof -
  have x: "fl OR 0x60000000 = fl XOR 0x60000000"
    using assms by (simp add: disjunctive_xor_eq_or)
  have "parity32 (a XOR b XOR (fl OR 0x60000000) XOR c) = parity32 (a XOR b XOR fl XOR c)" for a b c
    unfolding x parity32_xor by (simp add: parity32_def)
  moreover have "fl AND D64_CTRL1_EOF = 0"
  proof -
    have "fl AND D64_CTRL1_EOF = (fl AND (D64_CTRL1_IOC OR D64_CTRL1_EOF)) AND D64_CTRL1_EOF" by (simp add: and.assoc)
    also have "\<dots> = 0" unfolding assms by simp
    finally show ?thesis .
  qed
  ultimately show ?thesis
    by (simp add: end_frame_def dma64_dd_def Let_def DMA64_DD_PARITY_def)
qed

text \<open>The entries, with the end of the frame where it belongs.\<close>

definition frame_flags :: "dma_st \<Rightarrow> nat \<Rightarrow> nat \<Rightarrow> u32" where
  "frame_flags s k j =
     (if j = 0 then D64_CTRL1_SOF else 0) OR (if Suc j = k then D64_CTRL1_IOC OR D64_CTRL1_EOF else 0) OR
     (if (unat (txout s) + j) mod unat (ntxd s) + 1 = unat (ntxd s) then D64_CTRL1_EOT else 0)"

lemma tx_entries_nth:
  assumes bs: "distinct bs" "bs \<noteq> []" "buf_len s (hd bs) \<noteq> 0" and j: "j < length (sent_bufs s bs)"
    and i: "unat (txout s) < unat (ntxd s)" and a: "a = sent_bufs s bs ! j"
  shows "tx_entries dmap s (hd bs) bs ! j =
    (dma64_dd s (buf_pa dmap s a) (frame_flags s (length (sent_bufs s bs)) j) (buf_len s a),
     if Suc j = length (sent_bufs s bs) then hd bs else 0)"
proof -
  let ?k = "length (sent_bufs s bs)"
  let ?ds = "tx_dds dmap s (hd bs) (unat (txout s)) bs"
  have len: "length ?ds = ?k" by (simp add: length_tx_dds sent_bufs_def)
  have k: "sent_bufs s bs \<noteq> []" "sent_bufs s bs ! 0 = hd bs" using first_sent [OF bs(2,3)] by simp_all
  have ds: "distinct (sent_bufs s bs)" using bs(1) by (simp add: sent_bufs_def)
  have first: "a = hd bs \<longleftrightarrow> j = 0"
    using nth_eq_iff_index_eq [OF ds j, of 0] k a by auto
  have lst: "last bs = last (sent_bufs s bs)" if "last bs \<in> set (sent_bufs s bs)"
  proof -
    have "sent_bufs s (butlast bs @ [last bs]) = sent_bufs s (butlast bs) @ [last bs]"
      using that by (simp add: sent_bufs_def)
    then have "sent_bufs s bs = sent_bufs s (butlast bs) @ [last bs]"
      unfolding append_butlast_last_id [OF bs(2)] .
    then show ?thesis by simp
  qed
  have not_last: "a \<noteq> last bs" if "Suc j \<noteq> ?k"
  proof
    assume "a = last bs"
    then have "sent_bufs s bs ! j = sent_bufs s bs ! (?k - 1)"
      using a j lst k(1) by (metis last_conv_nth nth_mem)
    then show False using nth_eq_iff_index_eq [OF ds j, of "?k - 1"] k(1) that j by simp
  qed
  note dd = tx_dds_nth [OF bs(1) j i a, of dmap "hd bs"]
  show ?thesis
  proof (cases "Suc j = ?k")
    case False
    then have "j < length (butlast ?ds)" using len j by simp
    then have "tx_entries dmap s (hd bs) bs ! j = (?ds ! j, 0)"
      by (simp add: tx_entries_def Let_def nth_append nth_butlast)
    then show ?thesis using dd first not_last False by (simp add: frame_flags_def)
  next
    case True
    then have jl: "j = length ?ds - 1" "?ds \<noteq> []" using len j by (arith, auto)
    have "j = length (butlast ?ds)" "last ?ds = ?ds ! j" using jl(1) last_conv_nth [OF jl(2)] by simp_all
    then have e: "tx_entries dmap s (hd bs) bs ! j = (end_frame (?ds ! j), hd bs)"
      by (simp add: tx_entries_def Let_def nth_append)
    let ?fl = "(if a = hd bs then D64_CTRL1_SOF else 0) OR
      (if (unat (txout s) + j) mod unat (ntxd s) + 1 = unat (ntxd s) then D64_CTRL1_EOT else 0)"
    have "end_frame (?ds ! j) = dma64_dd s (buf_pa dmap s a) (?fl OR D64_CTRL1_IOC OR D64_CTRL1_EOF) (buf_len s a)"
    proof (cases "a = last bs")
      case True
      then show ?thesis using dd by (simp add: end_frame_def)
    next
      case False
      have "?fl AND (D64_CTRL1_IOC OR D64_CTRL1_EOF) = 0" by simp
      from end_frame_dd [OF this, of s "buf_pa dmap s a" "buf_len s a"] show ?thesis using dd False by simp
    qed
    then show ?thesis using e first True by (simp add: frame_flags_def)
  qed
qed

section \<open>A packet with nothing to send\<close>

lemma txfast_loop_empty:
  "skb_chain (heap s) p bs \<Longrightarrow> \<forall>a\<in>set bs. buf_len s a = 0 \<Longrightarrow> NEXTTXD s i \<noteq> txin s \<Longrightarrow>
    txfast_loop dmap p0 p i fl s = Some (Inr (s, i, fl))"
proof (induction bs arbitrary: p)
  case Nil
  then show ?case by (subst txfast_loop.simps) (simp add: skb_chain_Nil)
next
  case (Cons a bs)
  then obtain b where "p = a" "a \<noteq> 0" "heap s a = Some b" "skb_chain (heap s) (skb_next b) bs" "skb_len b = 0"
    by (auto simp: skb_chain_Cons buf_len_def)
  then show ?case using Cons by (subst txfast_loop.simps) simp
qed

text \<open>No descriptor is used, and the packet and the end of the frame go to the last entry there was.\<close>

lemma txfast_empty:
  assumes es: "tx_holds s (es @ [(dd, q)])" and bs: "skb_chain (heap s) p0 bs" "\<forall>a\<in>set bs. buf_len s a = 0"
    and p0: "p0 \<noteq> 0" and room: "length es + 2 < unat (ntxd s)"
  shows "\<exists>s'. dma64_txfast dmap p0 False s = Some (0, s') \<and>
    tx_holds s' (es @ [(dd\<lparr>ctrl1 := D64_CTRL1_IOC OR D64_CTRL1_EOF\<rparr>, p0)]) \<and> heap s' = heap s"
proof -
  let ?n = "unat (ntxd s)" and ?m = "length es"
  have h: "ring_size (ntxd s)" "length (txd64 s) = ?n" "length (txp s) = ?n" "unat (txin s) < ?n"
    "unat (txout s) = (unat (txin s) + Suc ?m) mod ?n"
    "rotate (unat (txin s)) (txp s) = map snd es @ q # replicate (?n - Suc ?m) 0"
    "take (Suc ?m) (rotate (unat (txin s)) (txd64 s)) = map fst es @ [dd]"
    using es by (simp_all add: tx_holds_unfold)
  have nx: "NEXTTXD s (txout s) \<noteq> txin s"
  proof
    assume "NEXTTXD s (txout s) = txin s"
    then have "(unat (txin s) + (?m + 2)) mod ?n = (unat (txin s) + 0) mod ?n"
      using next_index [OF h(1), of "txout s"] h(4,5) by (simp add: mod_Suc_eq)
    then show False using ring_inj [of 0 ?n "?m + 2" "unat (txin s)"] room by simp
  qed
  have "unat (txout s) + ?n - 1 = unat (txout s) + (?n - 1)" using room by simp
  then have "unat (PREVTXD s (txout s)) = (unat (txin s) + Suc ?m + (?n - 1)) mod ?n"
    unfolding prev_index [OF h(1)] by (simp only: h(5) mod_add_left_eq)
  also have "unat (txin s) + Suc ?m + (?n - 1) = unat (txin s) + ?m + ?n" using room by simp
  finally have pj: "unat (PREVTXD s (txout s)) = (unat (txin s) + ?m) mod ?n" by simp
  have m: "?m < length (txd64 s)" "?m < length (txp s)" using room h(2,3) by simp_all
  have lt: "unat (PREVTXD s (txout s)) < ?n" unfolding pj using h(4) by (intro mod_less_divisor) simp
  have "take (Suc ?m) (rotate (unat (txin s)) (txd64 s)) ! ?m = dd" unfolding h(7) by (simp add: nth_append)
  then have rj: "txd64 s ! unat (PREVTXD s (txout s)) = dd"
    using ring_nth [OF m(1), of "unat (txin s)"] h(2) pj by simp
  let ?dd = "dd\<lparr>ctrl1 := D64_CTRL1_IOC OR D64_CTRL1_EOF\<rparr>"
  let ?s = "s\<lparr>txd64 := (txd64 s)[unat (PREVTXD s (txout s)) := ?dd], txp := (txp s)[unat (PREVTXD s (txout s)) := p0]\<rparr>"
  have "rotate (unat (txin s)) ((txp s)[unat (PREVTXD s (txout s)) := p0]) = map snd es @ p0 # replicate (?n - Suc ?m) 0"
    using ring_upd [OF m(2), of "unat (txin s)" p0] h(3,6) pj by (simp add: list_update_append)
  moreover have "take (Suc ?m) (rotate (unat (txin s)) ((txd64 s)[unat (PREVTXD s (txout s)) := ?dd])) = map fst es @ [?dd]"
  proof -
    have "rotate (unat (txin s)) ((txd64 s)[unat (PREVTXD s (txout s)) := ?dd]) = (rotate (unat (txin s)) (txd64 s))[?m := ?dd]"
      using ring_upd [OF m(1), of "unat (txin s)" ?dd] h(2) pj by simp
    moreover have "take (Suc ?m) ((rotate (unat (txin s)) (txd64 s))[?m := ?dd]) = (map fst es @ [dd])[?m := ?dd]"
      by (simp only: take_update_swap h(7))
    ultimately show ?thesis by (simp add: list_update_append)
  qed
  ultimately have "tx_holds ?s (es @ [(?dd, p0)])"
    unfolding tx_holds_unfold using h(1-5) p0 room by simp
  moreover have "dma64_txfast dmap p0 False s = Some (0, dma_txunblock ?s)"
    using txfast_loop_empty [OF bs nx, of dmap p0 0] rj lt h(2,3)
    by (simp add: dma64_txfast_def set_ctrl1_def rd_def wr_def Let_def)
  ultimately show ?thesis by auto
qed

end
