(* ===== verification/Dma_Tx_Queue.thy ===== *)
theory Dma_Tx_Queue
  imports Dma_Post_Laws Simulation
begin

text \<open>
  The transmit ring behind its operations: a queue of packets. A request posts a packet of buffers, or
  lets the device come \<open>d\<close> descriptors past the oldest one and takes a finished packet back.
\<close>

section \<open>Requests\<close>

datatype tx_op = Post "addr list" | Take nat
datatype tx_res = Posted int | Taken addr

text \<open>The device reports the descriptor \<open>d\<close> places behind the oldest one, on every read.\<close>

definition device_at :: "nat \<Rightarrow> dma_st \<Rightarrow> dma_st" where
  "device_at d s =
     (let x = of_nat ((unat (txin s) + d) mod unat (ntxd s)) :: u32 in
      s\<lparr>d64txregs := map_option (\<lambda>r. r\<lparr>status0 := \<lambda>_. (xmtptrbase s + 16 * x) AND D64_XS0_CD_MASK\<rparr>) (d64txregs s)\<rparr>)"

fun tx_step :: "(u32 \<Rightarrow> u32 \<Rightarrow> u32) \<Rightarrow> tx_op \<Rightarrow> dma_st \<Rightarrow> (dma_st \<times> tx_res) option" where
  "tx_step dmap (Post bs) s = map_option (\<lambda>(r, s'). (s', Posted r)) (dma64_txfast dmap (hd bs) True s)"
| "tx_step dmap (Take d) s =
     map_option (\<lambda>(p, s'). (s', Taken p)) (dma64_getnexttxp HNDDMA_RANGE_TRANSMITTED (device_at d s))"

section \<open>The queue\<close>

text \<open>
  The queue has a place for every descriptor in use; a packet stands at the last of its places, the
  others hold 0.
\<close>

record tx_spec_st =
  room :: nat
  slots :: "addr list"
  mem :: "addr \<Rightarrow> sk_buff option"

fun slot_next :: "nat \<Rightarrow> addr list \<Rightarrow> addr \<times> addr list" where
  "slot_next 0 ps = (0, ps)"
| "slot_next (Suc d) [] = (0, [])"
| "slot_next (Suc d) (p # ps) = (if p \<noteq> 0 then (p, ps) else slot_next d ps)"

definition mem_len :: "(addr \<Rightarrow> sk_buff option) \<Rightarrow> addr \<Rightarrow> u32" where
  "mem_len h a = (case h a of None \<Rightarrow> 0 | Some b \<Rightarrow> skb_len b)"

fun tx_spec :: "tx_op \<Rightarrow> tx_spec_st \<Rightarrow> tx_spec_st \<times> tx_res" where
  "tx_spec (Post bs) a =
     (if fits (room a - length (slots a)) (map (mem_len (mem a)) bs)
      then (a\<lparr>slots := slots a @ replicate (length (filter (\<lambda>b. mem_len (mem a) b \<noteq> 0) bs) - 1) 0 @ [hd bs]\<rparr>, Posted 0)
      else (a\<lparr>mem := heap_free (set bs) (mem a)\<rparr>, Posted (- 1)))"
| "tx_spec (Take d) a = (a\<lparr>slots := snd (slot_next d (slots a))\<rparr>, Taken (fst (slot_next d (slots a))))"

text \<open>A packet posted is a chain in memory with something to send; the device stays among the descriptors in use.\<close>

fun tx_good :: "tx_spec_st \<Rightarrow> tx_op \<Rightarrow> bool" where
  "tx_good a (Post bs) \<longleftrightarrow> bs \<noteq> [] \<and> skb_chain (mem a) (hd bs) bs \<and> (\<exists>b\<in>set bs. mem_len (mem a) b \<noteq> 0)"
| "tx_good a (Take d) \<longleftrightarrow> d \<le> length (slots a)"

definition tx_rel :: "dma_st \<Rightarrow> tx_spec_st \<Rightarrow> bool" where
  "tx_rel s a \<longleftrightarrow>
     (\<exists>es. tx_holds s es \<and> slots a = map snd es) \<and> room a = unat (ntxd s) - 1 \<and> mem a = heap s \<and> d64txregs s \<noteq> None"

lemma mem_len_buf: "mem_len (heap s) = buf_len s"
  by (simp add: fun_eq_iff mem_len_def buf_len_def)

lemma slot_next_tx: "slot_next d (map snd es) = (fst (tx_next d es), map snd (snd (tx_next d es)))"
  by (induction d es rule: tx_next.induct) auto

lemma take_diff: "take_bit 13 (take_bit 13 a - b) = take_bit 13 (a - b :: u32)"
proof -
  have e: "uint (take_bit 13 (c - d)) = (uint c - uint d) mod 8192" for c d :: u32
  proof -
    have "uint (take_bit 13 (c - d)) = take_bit 13 (uint (c - d))" by (simp add: unsigned_take_bit_eq)
    also have "\<dots> = (uint c - uint d) mod 4294967296 mod 8192" by (simp only: take_bit_eq_mod) (simp add: uint_word_ariths)
    also have "\<dots> = (uint c - uint d) mod 8192" by (rule mod_mod_cancel) simp
    finally show ?thesis .
  qed
  have "uint (take_bit 13 a) = uint a mod 8192"
    by (simp only: unsigned_take_bit_eq) (simp only: take_bit_eq_mod, simp)
  then show ?thesis unfolding word_uint_eq_iff e by (simp only: mod_diff_left_eq)
qed

lemma current_word: "unat (x :: u32) < 512 \<Longrightarrow> B2I ((((base + 16 * x) AND D64_XS0_CD_MASK) - base) AND D64_XS0_CD_MASK) = x"
proof -
  assume x: "unat x < 512"
  have m: "w AND D64_XS0_CD_MASK = take_bit 13 w" for w :: u32
  proof -
    have "mask 13 = D64_XS0_CD_MASK" by (simp add: mask_eq_decr_exp)
    then show ?thesis by (simp only: take_bit_eq_mask)
  qed
  have "take_bit 13 (take_bit 13 (base + 16 * x) - base) = take_bit 13 (base + 16 * x - base)"
    by (rule take_diff)
  also have "\<dots> = take_bit 13 (16 * x)" by simp
  finally have e: "take_bit 13 (take_bit 13 (base + 16 * x) - base) = take_bit 13 (16 * x)" .
  have "unat (take_bit 13 (16 * x)) = 16 * unat x"
    using x by (simp add: unsigned_take_bit_eq unat_word_ariths take_bit_nat_eq_self)
  then show ?thesis unfolding m e B2I_def using x by (simp add: word_unat_eq_iff unat_div)
qed

lemma tx_end_at:
  assumes es: "tx_holds s es" and rg: "d64txregs s \<noteq> None"
  shows "\<exists>e s1. tx_end HNDDMA_RANGE_TRANSMITTED (device_at d s) = Some (e, s1) \<and>
    unat e = (unat (txin s) + d) mod unat (ntxd s) \<and> d64txregs s1 \<noteq> None"
proof -
  let ?y = "(unat (txin s) + d) mod unat (ntxd s)"
  have rs: "ring_size (ntxd s)" using es by (simp add: tx_holds_unfold)
  have y: "?y < 512" using ring_sizeD [OF rs] by (intro order_less_le_trans [OF mod_less_divisor]) auto
  then have u: "unat (of_nat ?y :: u32) = ?y" by (intro unat_of_nat32) simp
  obtain r where r: "d64txregs s = Some r" using rg by auto
  have "cur_desc DMA_TX (device_at d s) = Some (of_nat ?y, tick_regs DMA_TX (the (d64txregs (device_at d s))) (device_at d s))"
    using current_word [of "of_nat ?y" "xmtptrbase s"] u y r
    by (simp add: cur_desc_def R_status0_def device_at_def Let_def)
  then show ?thesis using u y r
    by (simp add: tx_end_def device_at_def tick_regs_def Let_def unat_ucast16)
qed

lemma device_at_holds [simp]: "tx_holds (device_at d s) es \<longleftrightarrow> tx_holds s es"
  by (simp add: device_at_def Let_def)

interpretation tx_sim: simulation "tx_step dmap" tx_spec tx_rel tx_good
proof
  fix s a x
  assume rel: "tx_rel s a" and good: "tx_good a x"
  obtain es where es: "tx_holds s es" "slots a = map snd es" "room a = unat (ntxd s) - 1" "mem a = heap s" "d64txregs s \<noteq> None"
    using rel by (auto simp: tx_rel_def)
  show "\<exists>s'. tx_step dmap x s = Some (s', snd (tx_spec x a)) \<and> tx_rel s' (fst (tx_spec x a))"
  proof (cases x)
    case (Post bs)
    then have bs: "skb_chain (heap s) (hd bs) bs" "\<exists>b\<in>set bs. buf_len s b \<noteq> 0"
      using good es(4) by (simp_all add: mem_len_buf)
    show ?thesis
    proof (cases "fits (unat (ntxd s) - 1 - length es) (map (buf_len s) bs)")
      case True
      from txfast_law [OF es(1) bs True, of True dmap] es(5) obtain s' where s':
        "dma64_txfast dmap (hd bs) True s = Some (0, s')" "tx_holds s' (es @ tx_entries dmap s (hd bs) bs)" "heap s' = heap s"
        "d64txregs s' \<noteq> None" "ntxd s' = ntxd s"
        by (auto split: if_splits)
      have "map snd (tx_entries dmap s (hd bs) bs) =
          replicate (length (filter (\<lambda>b. buf_len s b \<noteq> 0) bs) - 1) 0 @ [hd bs]"
        by (simp add: tx_entries_def Let_def o_def map_replicate_const length_tx_dds)
      then show ?thesis using Post s' es True by (auto simp: tx_rel_def mem_len_buf)
    next
      case False
      from txfast_full [OF es(1) bs(1) False, of dmap True] es(5) obtain s' where s':
        "dma64_txfast dmap (hd bs) True s = Some (- 1, s')" "tx_holds s' es" "heap s' = heap_free (set bs) (heap s)"
        "d64txregs s' \<noteq> None" "ntxd s' = ntxd s"
        by auto
      then show ?thesis using Post es False by (auto simp: tx_rel_def mem_len_buf)
    qed
  next
    case (Take d)
    then have d: "d \<le> length es" using good es(2) by simp
    obtain e s1 where e: "tx_end HNDDMA_RANGE_TRANSMITTED (device_at d s) = Some (e, s1)"
      "unat e = (unat (txin s) + d) mod unat (ntxd s)" "d64txregs s1 \<noteq> None"
      using tx_end_at [OF es(1,5)] by blast
    have at: "tx_holds (device_at d s) es" "txin (device_at d s) = txin s" "ntxd (device_at d s) = ntxd s" "heap (device_at d s) = heap s"
      using es(1) by (simp_all add: device_at_def Let_def)
    from getnexttxp_law [OF at(1) e(1) d] e(2,3) at obtain s' where s':
      "dma64_getnexttxp HNDDMA_RANGE_TRANSMITTED (device_at d s) = Some (fst (tx_next d es), s')"
      "tx_holds s' (snd (tx_next d es))" "heap s' = heap s" "ntxd s' = ntxd s" "d64txregs s' \<noteq> None"
      by auto
    then show ?thesis using Take es by (auto simp: tx_rel_def slot_next_tx)
  qed
qed

section \<open>Nothing is lost and nothing comes twice\<close>

text \<open>The packets handed back, and the packets accepted.\<close>

fun handed_back :: "tx_res list \<Rightarrow> addr list" where
  "handed_back [] = []"
| "handed_back (Taken p # rs) = (if p = 0 then handed_back rs else p # handed_back rs)"
| "handed_back (Posted r # rs) = handed_back rs"

fun accepted :: "tx_op list \<Rightarrow> tx_res list \<Rightarrow> addr list" where
  "accepted (Post bs # xs) (Posted r # rs) = (if r = 0 then hd bs # accepted xs rs else accepted xs rs)"
| "accepted (x # xs) (r # rs) = accepted xs rs"
| "accepted _ _ = []"

definition packets :: "addr list \<Rightarrow> addr list" where
  "packets ps = filter (\<lambda>p. p \<noteq> 0) ps"

lemma packets_slot_next:
  "packets ps = (if fst (slot_next d ps) = 0 then [] else [fst (slot_next d ps)]) @ packets (snd (slot_next d ps))"
  by (induction d ps rule: slot_next.induct) (auto simp: packets_def)

lemma queue_conserved:
  "all_ok tx_spec tx_good xs a \<Longrightarrow> run_spec tx_spec xs a = (a', rs) \<Longrightarrow>
    handed_back rs @ packets (slots a') = packets (slots a) @ accepted xs rs"
proof (induction xs arbitrary: a a' rs)
  case (Cons x xs)
  obtain a1 r where x: "tx_spec x a = (a1, r)" by fastforce
  obtain rs1 where r: "run_spec tx_spec xs a1 = (a', rs1)" "rs = r # rs1"
    using Cons.prems(2) x by (auto simp: Let_def split: prod.splits)
  have ih: "handed_back rs1 @ packets (slots a') = packets (slots a1) @ accepted xs rs1"
    using Cons.IH [OF _ r(1)] Cons.prems(1) x by simp
  show ?case
  proof (cases x)
    case (Post bs)
    then have "hd bs \<noteq> 0" using Cons.prems(1) by (cases bs) (auto simp: skb_chain_Cons)
    then show ?thesis using Post x ih r(2) by (auto simp: packets_def split: if_splits)
  next
    case (Take d)
    then show ?thesis using x ih r(2) packets_slot_next [of "slots a" d] by (auto split: if_splits)
  qed
qed (simp add: packets_def)

end
