(* ===== verification/Dma_Rotate_Laws.thy ===== *)
theory Dma_Rotate_Laws
  imports Dma_Tx_Laws Dma_Parity
begin

text \<open>
  Rotating the transmit ring: seen from the old first entry the loop moves the entries up by the
  distance, last one first, and the queue is what it was. A distance of nothing loses every packet.
\<close>

section \<open>One entry\<close>

text \<open>The end-of-table flag belongs to the last place of the table.\<close>

definition eot_at :: "dma_st \<Rightarrow> nat \<Rightarrow> dma64dd \<Rightarrow> dma64dd" where
  "eot_at s i dd = dd\<lparr>ctrl1 := (ctrl1 dd AND NOT D64_CTRL1_EOT) OR (if i + 1 = unat (ntxd s) then D64_CTRL1_EOT else 0)\<rparr>"

definition zapped :: "dma64dd \<Rightarrow> dma64dd" where
  "zapped dd = dd\<lparr>addrlow := DEADBEEF, addrhigh := DEADBEEF\<rparr>"

text \<open>The place \<open>k\<close> entries behind the first.\<close>

definition place :: "dma_st \<Rightarrow> nat \<Rightarrow> nat" where
  "place s k = (unat (txin s) + k) mod unat (ntxd s)"

lemma rotate_step:
  assumes rs: "ring_size (ntxd s)" and l: "length (txd64 s) = unat (ntxd s)" "length (txp s) = unat (ntxd s)"
    and old: "unat old = place s k" and rot: "0 < unat rot" "k + unat rot < unat (ntxd s)" and ne: "old \<noteq> PREVTXD s first"
  shows "txrotate_loop old first rot s =
    txrotate_loop (PREVTXD s old) first rot
      (s\<lparr>txd64 := (txd64 s)[place s (k + unat rot) := eot_at s (place s (k + unat rot)) (txd64 s ! place s k),
              place s k := zapped (txd64 s ! place s k)],
         txp := (txp s)[place s (k + unat rot) := txp s ! place s k, place s k := 0]\<rparr>)"
proof -
  have n: "0 < unat (ntxd s)" using ring_sizeD(1) [OF rs] .
  have new: "unat (ucast (TXD s (ucast old + rot)) :: u16) = place s (k + unat rot)"
    using rs old by (simp add: TXD_def ring_index XXD_add place_def mod_add_left_eq add.assoc)
  have lt: "place s k < unat (ntxd s)" "place s (k + unat rot) < unat (ntxd s)" using n by (simp_all add: place_def)
  have "place s k \<noteq> place s (k + unat rot)"
    unfolding place_def using ring_inj [of k "unat (ntxd s)" "k + unat rot" "unat (txin s)"] rot by auto
  then show ?thesis
    using ne lt l new old
    by (subst txrotate_loop.simps) (simp add: rd_def wr_def Let_def eot_at_def zapped_def)
qed

section \<open>All entries\<close>

lemma shift_up:
  "length J = r \<Longrightarrow> 0 < r \<Longrightarrow> length us = j \<Longrightarrow> (us @ x # J @ ws)[j + r := v, j := w] = us @ (w # butlast J) @ v # ws"
  by (cases J rule: rev_cases) (auto simp: list_update_append nth_append)

lemma front_replicate: "0 < r \<Longrightarrow> x # butlast (replicate r x) = replicate r x"
  by (cases r) (simp, metis butlast_snoc replicate_Suc replicate_append_same)

definition moved :: "dma_st \<Rightarrow> nat \<Rightarrow> dma64dd list \<Rightarrow> dma64dd list" where
  "moved s r dds = map (\<lambda>t. eot_at s (place s (t + r)) (dds ! t)) [0..<length dds]"

lemma length_moved [simp]: "length (moved s r dds) = length dds"
  by (simp add: moved_def)

lemma ring_params [simp]:
  "place (s\<lparr>txd64 := x, txp := y\<rparr>) = place s" "eot_at (s\<lparr>txd64 := x, txp := y\<rparr>) = eot_at s"
  "PREVTXD (s\<lparr>txd64 := x, txp := y\<rparr>) = PREVTXD s"
  by (simp_all add: fun_eq_iff place_def eot_at_def PREVTXD_def TXD_def)

lemma place_prev: "ring_size (ntxd s) \<Longrightarrow> unat i = place s (Suc k) \<Longrightarrow> unat (PREVTXD s i) = place s k"
proof -
  assume a: "ring_size (ntxd s)" "unat i = place s (Suc k)"
  have n: "0 < unat (ntxd s)" by (rule ring_sizeD(1) [OF a(1)])
  then have "unat (PREVTXD s i) = (unat i + (unat (ntxd s) - 1)) mod unat (ntxd s)"
    using prev_index [OF a(1), of i] by simp
  also have "\<dots> = (unat (txin s) + Suc k + (unat (ntxd s) - 1)) mod unat (ntxd s)"
    unfolding a(2) place_def by (rule mod_add_left_eq)
  also have "unat (txin s) + Suc k + (unat (ntxd s) - 1) = unat (txin s) + k + unat (ntxd s)" using n by simp
  finally show ?thesis by (simp add: place_def)
qed

lemma txrotate_loop_law:
  assumes rs: "ring_size (ntxd s)" and n: "unat (txin s) < unat (ntxd s)"
    and rot: "0 < unat rot" "length es + unat rot < unat (ntxd s)"
  shows "j \<le> length es \<Longrightarrow> length ring = unat (ntxd s) \<Longrightarrow> length tp = unat (ntxd s) \<Longrightarrow>
    unat old = place s (j + unat (ntxd s) - 1) \<Longrightarrow> length J = unat rot \<Longrightarrow>
    rotate (unat (txin s)) tp = take j (map snd es) @ replicate (unat rot) 0 @ drop j (map snd es) @ zs \<Longrightarrow>
    rotate (unat (txin s)) ring = take j (map fst es) @ J @ drop j (moved s (unat rot) (map fst es)) @ rest \<Longrightarrow>
    \<exists>ring' tp' J'. txrotate_loop old (txin s) rot (s\<lparr>txd64 := ring, txp := tp\<rparr>) = Some (s\<lparr>txd64 := ring', txp := tp'\<rparr>) \<and>
      length ring' = unat (ntxd s) \<and> length tp' = unat (ntxd s) \<and> length J' = unat rot \<and>
      rotate (unat (txin s)) tp' = replicate (unat rot) 0 @ map snd es @ zs \<and>
      rotate (unat (txin s)) ring' = J' @ moved s (unat rot) (map fst es) @ rest"
proof (induction j arbitrary: old ring tp J)
  case 0
  have "unat (PREVTXD s (txin s)) = place s (unat (ntxd s) - 1)"
    using n place_prev [OF rs, of "txin s" "unat (ntxd s) - 1"] by (simp add: place_def)
  then have "old = PREVTXD s (txin s)" using "0.prems"(4) by (simp add: word_unat_eq_iff)
  then have "txrotate_loop old (txin s) rot (s\<lparr>txd64 := ring, txp := tp\<rparr>) = Some (s\<lparr>txd64 := ring, txp := tp\<rparr>)"
    by (subst txrotate_loop.simps) simp
  then show ?case using "0.prems" by (intro exI [of _ ring] exI [of _ tp] exI [of _ J]) simp
next
  case (Suc j)
  let ?n = "unat (ntxd s)" and ?r = "unat rot"
  let ?s = "s\<lparr>txd64 := ring, txp := tp\<rparr>"
  have lj: "j < length es" "j + ?r < ?n" "j < ?n" using Suc.prems(1) rot by simp_all
  have old: "unat old = place s j" using Suc.prems(4) by (simp add: place_def add.assoc [symmetric])
  have fp: "unat (PREVTXD s (txin s)) = place s (?n - 1)"
    using n place_prev [OF rs, of "txin s" "?n - 1"] by (simp add: place_def)
  have ne: "old \<noteq> PREVTXD s (txin s)"
    using lj rot(2) ring_inj [of j ?n "?n - 1" "unat (txin s)"] old fp by (auto simp: place_def)
  have n0: "0 < ?n" using n by simp
  then have "place s (Suc (j + ?n - 1)) = place s j" by (simp add: place_def add.assoc [symmetric])
  then have prev: "unat (PREVTXD s old) = place s (j + ?n - 1)"
    using place_prev [OF rs, of old "j + ?n - 1"] old by simp
  have vr: "rotate (unat (txin s)) ring =
      take j (map fst es) @ fst (es ! j) # J @ drop (Suc j) (moved s ?r (map fst es)) @ rest"
    and vt: "rotate (unat (txin s)) tp =
      take j (map snd es) @ snd (es ! j) # replicate ?r 0 @ drop (Suc j) (map snd es) @ zs"
    using Suc.prems(6,7) lj(1) by (simp_all add: take_Suc_conv_app_nth)
  have rj: "ring ! place s j = fst (es ! j)"
    using ring_nth [of j ring "unat (txin s)"] lj Suc.prems(2) unfolding vr by (simp add: place_def nth_append)
  have tj: "tp ! place s j = snd (es ! j)"
    using ring_nth [of j tp "unat (txin s)"] lj Suc.prems(3) unfolding vt by (simp add: place_def nth_append)
  let ?ring = "ring[place s (j + ?r) := eot_at s (place s (j + ?r)) (ring ! place s j), place s j := zapped (ring ! place s j)]"
  let ?tp = "tp[place s (j + ?r) := tp ! place s j, place s j := 0]"
  have step: "txrotate_loop old (txin s) rot ?s = txrotate_loop (PREVTXD s old) (txin s) rot (s\<lparr>txd64 := ?ring, txp := ?tp\<rparr>)"
    using rotate_step [of ?s old j rot "txin s"] rs Suc.prems(2,3) old rot(1) lj ne by simp
  have upd: "rotate (unat (txin s)) (xs[place s (j + ?r) := v, place s j := w]) = (rotate (unat (txin s)) xs)[j + ?r := v, j := w]"
    if "length xs = ?n" for xs :: "'x list" and v w
    using that ring_upd [of "j + ?r" xs "unat (txin s)" v]
      ring_upd [of j "xs[place s (j + ?r) := v]" "unat (txin s)" w] lj by (simp add: place_def)
  have mj: "drop j (moved s ?r (map fst es)) = eot_at s (place s (j + ?r)) (fst (es ! j)) # drop (Suc j) (moved s ?r (map fst es))"
    using lj(1) by (simp add: Cons_nth_drop_Suc [symmetric] moved_def)
  have sj: "drop j (map snd es) = snd (es ! j) # drop (Suc j) (map snd es)"
    using lj(1) by (simp add: Cons_nth_drop_Suc [symmetric])
  have vr': "rotate (unat (txin s)) ?ring = take j (map fst es) @ (zapped (fst (es ! j)) # butlast J) @ drop j (moved s ?r (map fst es)) @ rest"
    unfolding upd [OF Suc.prems(2)] unfolding vr mj rj using Suc.prems(5) rot(1) lj(1) by (subst shift_up) simp_all
  have "0 # butlast (replicate ?r 0) = replicate ?r (0 :: addr)" using rot(1) by (rule front_replicate)
  then have vt': "rotate (unat (txin s)) ?tp = take j (map snd es) @ replicate ?r 0 @ drop j (map snd es) @ zs"
    unfolding upd [OF Suc.prems(3)] unfolding vt sj tj using rot(1) lj(1) by (subst shift_up) simp_all
  show ?case unfolding step
    by (rule Suc.IH [OF _ _ _ prev _ vt' vr']) (use Suc.prems rot(1) in simp_all)
qed

section \<open>The operation\<close>

definition rotate_to :: "dma_st \<Rightarrow> u32 \<Rightarrow> u16" where
  "rotate_to s w = ucast (B2I (((w AND D64_XS1_AD_MASK) - xmtptrbase s) AND D64_XS1_AD_MASK))"

lemma txrotate_law:
  assumes es: "tx_holds s es" and w: "R_status1 DMA_TX s = Some (w, s1)"
    and r: "unat (rotate_to s w) = (unat (txin s) + r) mod unat (ntxd s)" "0 < r" "length es + r < unat (ntxd s)"
  shows "\<exists>s' ds. dma64_txrotate s = Some s' \<and> tx_holds s' (zip ds (map snd es)) \<and> length ds = length es \<and>
    ds = moved s r (map fst es) \<and> txin s' = rotate_to s w \<and> heap s' = heap s \<and>
    d64txregs s' = map_option (ptr_update (\<lambda>_. xmtptrbase s + 16 * ucast (txout s'))) (d64txregs s1)"
proof -
  let ?n = "unat (ntxd s)" and ?m = "length es"
  have h: "ring_size (ntxd s)" "length (txd64 s) = ?n" "length (txp s) = ?n" "unat (txin s) < ?n" "?m < ?n"
    "unat (txout s) = (unat (txin s) + ?m) mod ?n"
    "rotate (unat (txin s)) (txp s) = map snd es @ replicate (?n - ?m) 0"
    "take ?m (rotate (unat (txin s)) (txd64 s)) = map fst es" "es \<noteq> [] \<Longrightarrow> snd (last es) \<noteq> 0"
    using es by (simp_all add: tx_holds_unfold)
  obtain q where q: "d64txregs s = Some q" "s1 = s\<lparr>d64txregs := Some (q\<lparr>reads := Suc (reads q)\<rparr>)\<rparr>"
    using w by (auto simp: R_status1_def tick_regs_def)
  let ?ad = "rotate_to s w"
  define rot where "rot = TXD s1 (ucast ?ad - ucast (txin s))"
  have rr: "unat rot = r"
    using ring_steps [of "ntxd s" "txin s" ?ad r] h(1,4) r q(2) by (simp add: rot_def TXD_def)
  have act: "unat (ucast (ntxd s) - dma_txactive s) = ?n - ?m"
    using tx_count(1) [OF es] h(5) by (subst unat_sub) (simp_all add: word_le_nat_alt)
  have fits: "\<not> ucast (ntxd s) - dma_txactive s \<le> rot"
    using act rr r(3) by (simp add: word_le_nat_alt)
  have old: "unat (PREVTXD s1 (txout s)) = place s1 (?m + ?n - 1)"
  proof -
    have "unat (txout s) = place s1 (Suc (?m + ?n - 1))"
      using h(4,6) q(2) by (simp add: place_def add.assoc [symmetric])
    then show ?thesis using place_prev [of s1 "txout s" "?m + ?n - 1"] h(1) q(2) by simp
  qed
  let ?J = "take r (drop ?m (rotate (unat (txin s)) (txd64 s)))" and ?rest = "drop (?m + r) (rotate (unat (txin s)) (txd64 s))"
  have vt: "rotate (unat (txin s)) (txp s) = map snd es @ replicate r 0 @ replicate (?n - ?m - r) 0"
    using h(7) r(3) by (simp add: replicate_add [symmetric])
  have vr: "rotate (unat (txin s)) (txd64 s) = map fst es @ ?J @ ?rest"
  proof -
    have "drop ?m (rotate (unat (txin s)) (txd64 s)) = ?J @ ?rest"
      by (metis append_take_drop_id drop_drop add.commute)
    then show ?thesis using h(8) by (metis append_take_drop_id)
  qed
  have "\<exists>ring' tp' J'. txrotate_loop (PREVTXD s1 (txout s)) (txin s1) rot (s1\<lparr>txd64 := txd64 s, txp := txp s\<rparr>) =
      Some (s1\<lparr>txd64 := ring', txp := tp'\<rparr>) \<and>
      length ring' = unat (ntxd s1) \<and> length tp' = unat (ntxd s1) \<and> length J' = unat rot \<and>
      rotate (unat (txin s1)) tp' = replicate (unat rot) 0 @ map snd es @ replicate (?n - ?m - r) 0 \<and>
      rotate (unat (txin s1)) ring' = J' @ moved s1 (unat rot) (map fst es) @ ?rest"
    by (rule txrotate_loop_law [where j = ?m and J = ?J]) (use h r rr q(2) old vt vr in simp_all)
  moreover have "s1\<lparr>txd64 := txd64 s, txp := txp s\<rparr> = s1" using q(2) by simp
  moreover have "moved s1 = moved s" using q(2) by (simp add: fun_eq_iff moved_def eot_at_def place_def)
  ultimately obtain ring tp J where l: "txrotate_loop (PREVTXD s1 (txout s)) (txin s) rot s1 = Some (s1\<lparr>txd64 := ring, txp := tp\<rparr>)"
    "length ring = ?n" "length tp = ?n" "length J = r"
    "rotate (unat (txin s)) tp = replicate r 0 @ map snd es @ replicate (?n - ?m - r) 0"
    "rotate (unat (txin s)) ring = J @ moved s r (map fst es) @ ?rest"
    using q(2) rr by auto
  let ?s2 = "s1\<lparr>txd64 := ring, txp := tp, txin := ?ad, txout := ucast (TXD s1 (ucast (txout s) + rot))\<rparr>"
  let ?s3 = "dma_txunblock ?s2"
  let ?q = "q\<lparr>reads := Suc (reads q), ptr := xmtptrbase s + I2B (ucast (txout ?s3))\<rparr>"
  let ?ds = "moved s r (map fst es)"
  have out: "unat (txout ?s2) = (unat ?ad + ?m) mod ?n"
    using h(1,6) r(1) rr q(2) by (simp add: TXD_def ring_index XXD_add mod_add_left_eq mod_add_right_eq add.commute add.left_commute)
  have adr: "rotate (unat ?ad) xs = rotate r (rotate (unat (txin s)) xs)" if "length xs = ?n" for xs :: "'x list"
    using that by (simp add: r(1) rotate_mod rotate_rotate add.commute)
  have vt': "rotate (unat ?ad) tp = map snd es @ replicate (?n - ?m) 0"
  proof -
    have "rotate (unat ?ad) tp = (map snd es @ replicate (?n - ?m - r) 0) @ replicate r 0"
      unfolding adr [OF l(3)] l(5) by (rule rotate_split) simp
    then show ?thesis using r(3) by (simp add: replicate_add [symmetric])
  qed
  have vr': "take ?m (rotate (unat ?ad) ring) = ?ds"
  proof -
    have "rotate (unat ?ad) ring = (?ds @ ?rest) @ J" unfolding adr [OF l(2)] l(6) by (rule rotate_split) (rule l(4))
    then show ?thesis by simp
  qed
  have ad: "unat ?ad < ?n" unfolding r(1) using h(4) by (intro mod_less_divisor) simp
  have holds: "tx_holds ?s2 (zip ?ds (map snd es))"
    unfolding tx_holds_unfold using h l(2,3) q(2) vt' vr' out ad by (simp add: last_zip last_map)
  have "dma64_txrotate s = Some (?s3\<lparr>d64txregs := Some ?q\<rparr>)"
  proof -
    have f: "xmtptrbase s1 = xmtptrbase s" "txin s1 = txin s" "txout s1 = txout s" "ntxd s1 = ntxd s"
      "d64txregs s1 = Some (q\<lparr>reads := Suc (reads q)\<rparr>)" using q(2) by simp_all
    have a: "ucast (B2I (((w AND D64_XS1_AD_MASK) - xmtptrbase s1) AND D64_XS1_AD_MASK)) = rotate_to s w"
      by (simp add: rotate_to_def f(1))
    have "dma64_txrotate s = W_ptr DMA_TX (xmtptrbase ?s3 + I2B (ucast (txout ?s3))) ?s3"
      unfolding dma64_txrotate_def w bind.bind_lunit split Let_def a f(2-4) rot_def [unfolded f(2), symmetric]
      using fits l(1) f by (simp add: rot_def [unfolded f(2), symmetric] TXD_def)
    also have "\<dots> = Some (?s3\<lparr>d64txregs := Some ?q\<rparr>)" using f by (simp add: W_ptr_def upd_regs_def)
    finally show ?thesis .
  qed
  moreover have "tx_holds (?s3\<lparr>d64txregs := Some ?q\<rparr>) (zip ?ds (map snd es))" using holds by simp
  ultimately show ?thesis using q by (auto simp: I2B_def mult.commute)
qed

section \<open>Parity\<close>

text \<open>The end-of-table flag is one bit, and the parity bit is not computed again.\<close>

lemma eot_parity:
  assumes "(ctrl1 dd AND D64_CTRL1_EOT \<noteq> 0) \<noteq> (i + 1 = unat (ntxd s))"
  shows "even (bits_set (eot_at s i dd)) \<longleftrightarrow> odd (bits_set dd)"
proof -
  have e: "ctrl1 (eot_at s i dd) = ctrl1 dd XOR D64_CTRL1_EOT"
  proof -
    have p: "D64_CTRL1_EOT = (2 :: u32) ^ 28" by simp
    have b: "ctrl1 dd AND 2 ^ 28 \<noteq> 0 \<longleftrightarrow> bit (ctrl1 dd) 28"
      by (simp add: bit_iff_and_push_bit_not_eq_0 push_bit_of_1 del: push_bit_eq_mult)
    show ?thesis
      using assms unfolding eot_at_def p b
      by (intro bit_eqI) (auto simp: bit_or_iff bit_and_iff bit_not_iff bit_xor_iff bit_exp_iff simp del: power_numeral)
  qed
  have p: "even (card {j. bit (ctrl1 (eot_at s i dd)) j}) \<longleftrightarrow> \<not> even (card {j. bit (ctrl1 dd) j})"
  proof -
    have "parity32 (ctrl1 (eot_at s i dd)) = parity32 (ctrl1 dd) XOR 1"
      unfolding e parity32_xor by (simp add: parity32_def)
    then show ?thesis unfolding parity32_card
      by (cases "odd (card {j. bit (ctrl1 dd) j})"; cases "odd (card {j. bit (ctrl1 (eot_at s i dd)) j})") simp_all
  qed
  have f: "addrlow (eot_at s i dd) = addrlow dd" "addrhigh (eot_at s i dd) = addrhigh dd" "ctrl2 (eot_at s i dd) = ctrl2 dd"
    by (simp_all add: eot_at_def)
  show ?thesis unfolding bits_set_def f even_add p by argo
qed

section \<open>A rotation of nothing\<close>

lemma rotate_step_zero:
  assumes rs: "ring_size (ntxd s)" and l: "length (txd64 s) = unat (ntxd s)" "length (txp s) = unat (ntxd s)"
    and old: "unat old < unat (ntxd s)" and ne: "old \<noteq> PREVTXD s first"
  shows "\<exists>ring. length ring = unat (ntxd s) \<and> txrotate_loop old first 0 s =
    txrotate_loop (PREVTXD s old) first 0 (s\<lparr>txd64 := ring, txp := (txp s)[unat old := 0]\<rparr>)"
proof -
  have "unat (ucast (TXD s (ucast old + 0)) :: u16) = unat old"
    using rs old by (simp add: TXD_def ring_index XXD_mod)
  then have "txrotate_loop old first 0 s = txrotate_loop (PREVTXD s old) first 0
      (s\<lparr>txd64 := (txd64 s)[unat old := zapped (eot_at s (unat old) (txd64 s ! unat old))], txp := (txp s)[unat old := 0]\<rparr>)"
    using ne old l by (subst txrotate_loop.simps) (simp add: rd_def wr_def Let_def eot_at_def zapped_def)
  then show ?thesis using l by (intro exI conjI) simp_all
qed

lemma rotate_zero_loop:
  assumes rs: "ring_size (ntxd s)" and n: "unat (txin s) < unat (ntxd s)"
  shows "j < unat (ntxd s) \<Longrightarrow> length ring = unat (ntxd s) \<Longrightarrow> length tp = unat (ntxd s) \<Longrightarrow>
    unat old = place s (j + unat (ntxd s) - 1) \<Longrightarrow>
    drop j (rotate (unat (txin s)) tp) = replicate (unat (ntxd s) - j) 0 \<Longrightarrow>
    \<exists>ring'. length ring' = unat (ntxd s) \<and> txrotate_loop old (txin s) 0 (s\<lparr>txd64 := ring, txp := tp\<rparr>) =
      Some (s\<lparr>txd64 := ring', txp := replicate (unat (ntxd s)) 0\<rparr>)"
proof (induction j arbitrary: old ring tp)
  case 0
  have "unat (PREVTXD s (txin s)) = place s (unat (ntxd s) - 1)"
    using n place_prev [OF rs, of "txin s" "unat (ntxd s) - 1"] by (simp add: place_def)
  then have old: "old = PREVTXD s (txin s)" using "0.prems"(4) by (simp add: word_unat_eq_iff)
  have "set (rotate (unat (txin s)) tp) = set (replicate (unat (ntxd s)) 0)" using "0.prems"(5) by simp
  then have tp: "tp = replicate (unat (ntxd s)) 0"
    using "0.prems"(3) by (intro replicate_eqI) (auto split: if_splits)
  have "txrotate_loop old (txin s) 0 (s\<lparr>txd64 := ring, txp := tp\<rparr>) = Some (s\<lparr>txd64 := ring, txp := tp\<rparr>)"
    by (subst txrotate_loop.simps) (simp add: old)
  then show ?case using "0.prems"(2) unfolding tp by blast
next
  case (Suc j)
  let ?n = "unat (ntxd s)"
  let ?s = "s\<lparr>txd64 := ring, txp := tp\<rparr>"
  have lj: "j < ?n" using Suc.prems(1) by simp
  have old: "unat old = place s j" using Suc.prems(4) by (simp add: place_def add.assoc [symmetric])
  have lt: "place s j < ?n" using n by (simp add: place_def)
  have "unat (PREVTXD s (txin s)) = place s (?n - 1)"
    using n place_prev [OF rs, of "txin s" "?n - 1"] by (simp add: place_def)
  then have ne: "old \<noteq> PREVTXD ?s (txin s)"
    using Suc.prems(1) ring_inj [of j ?n "?n - 1" "unat (txin s)"] old by (auto simp: place_def)
  have "place s (Suc (j + ?n - 1)) = place s j" using lj by (simp add: place_def add.assoc [symmetric])
  then have prev: "unat (PREVTXD s old) = place s (j + ?n - 1)"
    using place_prev [OF rs, of old "j + ?n - 1"] old by simp
  obtain ring1 where r1: "length ring1 = ?n"
    "txrotate_loop old (txin s) 0 ?s = txrotate_loop (PREVTXD s old) (txin s) 0 (s\<lparr>txd64 := ring1, txp := tp[place s j := 0]\<rparr>)"
    using rotate_step_zero [of ?s old "txin s"] rs Suc.prems(2,3) ne lt old by auto
  have upd: "rotate (unat (txin s)) (tp[place s j := 0]) = (rotate (unat (txin s)) tp)[j := 0]"
    using ring_upd [of j tp "unat (txin s)" 0] Suc.prems(3) lj by (simp add: place_def)
  have d: "drop j (rotate (unat (txin s)) tp) = rotate (unat (txin s)) tp ! j # replicate (?n - Suc j) 0"
    using Suc.prems(3,5) lj by (simp add: Cons_nth_drop_Suc [symmetric])
  have "drop j ((rotate (unat (txin s)) tp)[j := 0]) = 0 # replicate (?n - Suc j) 0"
    by (simp add: drop_update_swap d)
  also have "\<dots> = replicate (?n - j) 0" using lj by (simp add: Suc_diff_Suc [symmetric])
  finally show ?case unfolding r1(2) using Suc.prems(3) lj r1(1) prev upd
    by (intro Suc.IH) simp_all
qed

lemma txrotate_nowhere:
  assumes es: "tx_holds s es" and w: "R_status1 DMA_TX s = Some (w, s1)" and at: "rotate_to s w = txin s"
  shows "\<exists>s'. dma64_txrotate s = Some s' \<and> txp s' = replicate (unat (ntxd s)) 0 \<and> txin s' = txin s \<and> txout s' = txout s \<and>
    heap s' = heap s"
proof -
  let ?n = "unat (ntxd s)" and ?m = "length es"
  have h: "ring_size (ntxd s)" "length (txd64 s) = ?n" "length (txp s) = ?n" "unat (txin s) < ?n" "?m < ?n"
    "unat (txout s) = (unat (txin s) + ?m) mod ?n"
    "rotate (unat (txin s)) (txp s) = map snd es @ replicate (?n - ?m) 0"
    using es by (simp_all add: tx_holds_unfold)
  obtain q where q: "d64txregs s = Some q" "s1 = s\<lparr>d64txregs := Some (q\<lparr>reads := Suc (reads q)\<rparr>)\<rparr>"
    using w by (auto simp: R_status1_def tick_regs_def)
  have f: "xmtptrbase s1 = xmtptrbase s" "txin s1 = txin s" "txout s1 = txout s" "ntxd s1 = ntxd s"
    "txd64 s1 = txd64 s" "txp s1 = txp s" "heap s1 = heap s" using q(2) by simp_all
  have rot: "TXD s1 (ucast (rotate_to s w) - ucast (txin s)) = 0"
    by (simp add: at TXD_def XXD_def)
  have act: "unat (ucast (ntxd s) - dma_txactive s) = ?n - ?m"
    using tx_count(1) [OF es] h(5) by (subst unat_sub) (simp_all add: word_le_nat_alt)
  have fits: "\<not> ucast (ntxd s) - dma_txactive s \<le> 0"
    using act h(5) by (simp add: word_le_nat_alt)
  have "unat (txout s) = place s1 (Suc (?m + ?n - 1))"
    using h(4,6) f by (simp add: place_def add.assoc [symmetric])
  then have old: "unat (PREVTXD s1 (txout s)) = place s1 (?m + ?n - 1)"
    using place_prev [of s1 "txout s" "?m + ?n - 1"] h(1) f by simp
  have s1: "s1\<lparr>txd64 := txd64 s, txp := txp s\<rparr> = s1" using q(2) by simp
  have d: "drop ?m (rotate (unat (txin s)) (txp s)) = replicate (?n - ?m) 0" unfolding h(7) by simp
  obtain ring where l: "txrotate_loop (PREVTXD s1 (txout s)) (txin s) 0 s1 = Some (s1\<lparr>txd64 := ring, txp := replicate ?n 0\<rparr>)"
    using rotate_zero_loop [of s1 ?m "txd64 s" "txp s" "PREVTXD s1 (txout s)", unfolded f s1, OF h(1,4,5,2,3) old d] by blast
  have a: "ucast (B2I (((w AND D64_XS1_AD_MASK) - xmtptrbase s1) AND D64_XS1_AD_MASK)) = rotate_to s w"
    by (simp add: rotate_to_def f(1))
  have "unat (ucast (TXD s1 (ucast (txout s) + 0)) :: u16) = unat (txout s)"
    using h(1,6) f(4) by (simp add: TXD_def ring_index XXD_mod)
  then have out: "ucast (TXD s1 (ucast (txout s) + 0)) = txout s" by (simp only: word_unat_eq_iff)
  let ?s2 = "dma_txunblock (s1\<lparr>txd64 := ring, txp := replicate ?n 0, txin := txin s, txout := txout s\<rparr>)"
  have "dma64_txrotate s = W_ptr DMA_TX (xmtptrbase ?s2 + I2B (ucast (txout ?s2))) ?s2"
    unfolding dma64_txrotate_def w bind.bind_lunit split Let_def a f(2-4) rot
    using fits l f out at by (simp add: TXD_def)
  then show ?thesis using f q(2) by (simp add: W_ptr_def upd_regs_def)
qed

end
