(* ===== verification/Dma64_Rx.thy ===== *)
theory Dma64_Rx
  imports Dma64
begin

text \<open>
  The receive channel of hnddma.c: starting and resetting it, posting buffers, taking received
  buffers, and putting frames together that span several.
\<close>

section \<open>The channel\<close>

definition dma_rxenable :: "dma_st \<Rightarrow> dma_st option" where
  "dma_rxenable s = do {
     c \<leftarrow> R_control DMA_RX s;
     let c = (c AND D64_RC_AE) OR D64_RC_RE OR
             (if dmactrlflags s AND DMA_CTRL_PEN = 0 then D64_RC_PD else 0) OR
             (if dmactrlflags s AND DMA_CTRL_ROC \<noteq> 0 then D64_RC_OC else 0);
     W_control DMA_RX (push_bit 1 (rxoffset s) OR c) s }"

definition dma_rxinit :: "dma_st \<Rightarrow> dma_st option" where
  "dma_rxinit s =
     (if nrxd s = 0 then Some s
      else do {
        let s = s\<lparr>rxin := 0, rxout := 0,
                  rxd64 := replicate (length (rxd64 s)) \<lparr>ctrl1 = 0, ctrl2 = 0, addrlow = 0, addrhigh = 0\<rparr>\<rparr>;
        s \<leftarrow> (if aligndesc_4k s then Some s else dma_ddtable_init DMA_RX (rxdpa s) s);
        s \<leftarrow> dma_rxenable s;
        if aligndesc_4k s then dma_ddtable_init DMA_RX (rxdpa s) s else Some s })"

definition dma_rx_param_get :: "dma_st \<Rightarrow> u16 \<times> u16" where
  "dma_rx_param_get s = (ucast (rxoffset s), rxbufsize s)"

definition dma64_rxidle :: "dma_st \<Rightarrow> (bool \<times> dma_st) option" where
  "dma64_rxidle s =
     (if nrxd s = 0 then Some (True, s)
      else do {
        (w, s) \<leftarrow> R_status0 DMA_RX s;
        p \<leftarrow> R_ptr DMA_RX s;
        Some (w AND D64_XS0_CD_MASK = p AND D64_XS0_CD_MASK, s) })"

definition dma64_rxstopped :: "dma_st \<Rightarrow> (bool \<times> dma_st) option" where
  "dma64_rxstopped s = map_option (\<lambda>(w, s). (w AND D64_XS0_XS_MASK = D64_XS0_XS_STOPPED, s)) (R_status0 DMA_RX s)"

definition dma64_rxenabled :: "dma_st \<Rightarrow> bool option" where
  "dma64_rxenabled s = map_option (\<lambda>rc. rc \<noteq> 0xffffffff \<and> rc AND D64_RC_RE \<noteq> 0) (R_control DMA_RX s)"

definition dma64_rxreset :: "dma_st \<Rightarrow> (bool \<times> dma_st) option" where
  "dma64_rxreset s =
     (if nrxd s = 0 then Some (True, s)
      else do {
        s \<leftarrow> W_control DMA_RX 0 s;
        (st, s) \<leftarrow> SPINWAIT DMA_RX (\<lambda>st. st \<noteq> D64_XS0_XS_DISABLED) 10000 s;
        Some (st = D64_XS0_XS_DISABLED, s) })"

definition dma_rxactive :: "dma_st \<Rightarrow> u32" where
  "dma_rxactive s = NRXDACTIVE s (rxin s) (rxout s)"

section \<open>Taking a buffer\<close>

definition dma64_getnextrxp :: "bool \<Rightarrow> dma_st \<Rightarrow> (addr \<times> dma_st) option" where
  "dma64_getnextrxp forceall s =
     (let i = rxin s in
      if i = rxout s then Some (0, s)
      else do {
        (curr, s) \<leftarrow> cur_desc DMA_RX s;
        if \<not> forceall \<and> ucast i = curr then Some (0, s)
        else do {
          p \<leftarrow> rd (rxp s) (unat i);
          rp \<leftarrow> wr (rxp s) (unat i) 0;
          dd \<leftarrow> rd (rxd64 s) (unat i);
          ring \<leftarrow> wr (rxd64 s) (unat i) (dd\<lparr>addrlow := DEADBEEF, addrhigh := DEADBEEF\<rparr>);
          Some (p, DMA_UNMAP DMA_RX (addrlow dd - dataoffsetlow s) (ucast (rxbufsize s))
            (s\<lparr>rxp := rp, rxd64 := ring, rxin := NEXTRXD s i\<rparr>)) } })"

definition dma_getnextrxp :: "bool \<Rightarrow> dma_st \<Rightarrow> (addr \<times> dma_st) option" where
  "dma_getnextrxp forceall s = (if nrxd s = 0 then Some (0, s) else dma64_getnextrxp forceall s)"

partial_function (option) dma_rxreclaim :: "dma_st \<Rightarrow> dma_st option" where
  "dma_rxreclaim s =
     (case dma_getnextrxp True s of None \<Rightarrow> None
      | Some (p, s1) \<Rightarrow>
          if p = 0 then Some s1
          else case PKTFREE p s1 of None \<Rightarrow> None | Some s2 \<Rightarrow> dma_rxreclaim s2)"

partial_function (option) peekrxp_loop :: "u32 \<Rightarrow> u32 \<Rightarrow> dma_st \<Rightarrow> addr option" where
  "peekrxp_loop i e s =
     (if i = e then Some 0
      else case rd (rxp s) (unat i) of None \<Rightarrow> None
      | Some q \<Rightarrow> if q \<noteq> 0 then Some q else peekrxp_loop (RXD s (i + 1)) e s)"

definition dma_peeknextrxp :: "dma_st \<Rightarrow> (addr \<times> dma_st) option" where
  "dma_peeknextrxp s =
     (if nrxd s = 0 then Some (0, s)
      else do {
        (c, s) \<leftarrow> cur_desc DMA_RX s;
        p \<leftarrow> peekrxp_loop (ucast (rxin s)) c s;
        Some (p, s) })"

section \<open>Receiving a frame\<close>

definition upd_skb :: "addr \<Rightarrow> (sk_buff \<Rightarrow> sk_buff) \<Rightarrow> dma_st \<Rightarrow> dma_st option" where
  "upd_skb p f s = map_option (\<lambda>b. s\<lparr>heap := (heap s)(p \<mapsto> f b)\<rparr>) (heap s p)"

text \<open>The further buffers of a frame of which \<open>resid\<close> bytes are left.\<close>

partial_function (option) rx_more :: "int \<Rightarrow> addr \<Rightarrow> dma_st \<Rightarrow> dma_st option" where
  "rx_more resid tail s =
     (if resid \<le> 0 then Some s
      else case dma_getnextrxp False s of None \<Rightarrow> None
      | Some (p, s1) \<Rightarrow>
          if p = 0 then Some s1
          else do {
            s2 \<leftarrow> upd_skb tail (\<lambda>b. b\<lparr>skb_next := p\<rparr>) s1;
            s3 \<leftarrow> upd_skb p (\<lambda>b. b\<lparr>skb_len := of_int (min resid (uint (rxbufsize s2)))\<rparr>) s2;
            rx_more (resid - uint (rxbufsize s3)) p s3 })"

text \<open>
  A frame whose length the device has not stored yet is waited for: a length that stays 0 is waited
  for for ever.
\<close>

partial_function (option) dma_rx :: "dma_st \<Rightarrow> (addr \<times> dma_st) option" where
  "dma_rx s =
     (case dma_getnextrxp False s of None \<Rightarrow> None
      | Some (head, s1) \<Rightarrow>
          if head = 0 then Some (0, s1)
          else case heap s1 head of None \<Rightarrow> None
          | Some b \<Rightarrow>
              if skb_hdr b = 0 then None
              else
                let len = ucast (skb_hdr b) :: u32;
                    s2 = s1\<lparr>heap := (heap s1)(head \<mapsto> b\<lparr>skb_len := min (rxoffset s1 + len) (ucast (rxbufsize s1))\<rparr>)\<rparr>;
                    resid = sint (len - (ucast (rxbufsize s1) - rxoffset s1))
                in if resid \<le> 0 then Some (head, s2)
                   else case rx_more resid head s2 of None \<Rightarrow> None
                   | Some s3 \<Rightarrow>
                       if dmactrlflags s3 AND DMA_CTRL_RXMULTI \<noteq> 0 then Some (head, s3)
                       else case PKTFREE head s3 of None \<Rightarrow> None
                       | Some s4 \<Rightarrow> dma_rx (s4\<lparr>rxgiants := rxgiants s4 + 1\<rparr>))"

section \<open>Posting buffers\<close>

text \<open>A new buffer of a length, its data where the allocator puts it; 0 when there is none.\<close>

definition PKTGET :: "(addr \<Rightarrow> u32) \<Rightarrow> u32 \<Rightarrow> dma_st \<Rightarrow> addr \<times> dma_st" where
  "PKTGET place len s =
     (let (o1, p) = MALLOC (os s) in
      if p = 0 then (0, s\<lparr>os := o1\<rparr>)
      else (p, s\<lparr>os := o1,
        heap := (heap s)(p \<mapsto> \<lparr>skb_data = place p, skb_len = len, skb_next = 0, skb_hdr = 0\<rparr>)\<rparr>))"

definition PKTPULL :: "u32 \<Rightarrow> sk_buff \<Rightarrow> sk_buff" where
  "PKTPULL n b = (if skb_len b < n then b else b\<lparr>skb_data := skb_data b + n, skb_len := skb_len b - n\<rparr>)"

text \<open>
  \<open>n\<close> buffers from index \<open>i\<close> on: whether the ring was found empty, the next index, and the state.
  \<open>first\<close> holds before the first buffer; \<open>extra\<close> is the headroom.
\<close>

fun rxfill_loop ::
  "(u32 \<Rightarrow> u32 \<Rightarrow> u32) \<Rightarrow> (addr \<Rightarrow> u32) \<Rightarrow> nat \<Rightarrow> bool \<Rightarrow> u32 \<Rightarrow> u16 \<Rightarrow> dma_st \<Rightarrow> (bool \<times> u16 \<times> dma_st) option" where
  "rxfill_loop dmap place 0 first extra i s = Some (False, i, s)"
| "rxfill_loop dmap place (Suc n) first extra i s =
     (let war = dmactrlflags s AND DMA_CTRL_USB_WAR \<noteq> 0;
          al = (if war then 16 else 1) :: u32;
          (p, s1) = PKTGET place (ucast (rxbufsize s) + extra + al - 1) s in
      if p = 0 then do {
        (e, s2) \<leftarrow> (if first then dma64_rxidle s1 else Some (False, s1));
        Some (e, i, s2\<lparr>rxnobuf := rxnobuf s2 + 1\<rparr>) }
      else do {
        b \<leftarrow> heap s1 p;
        let extra = (if war then extra + ((al - skb_data b) AND (al - 1)) else extra);
        let b = (if extra \<noteq> 0 then PKTPULL extra b else b)\<lparr>skb_hdr := 0\<rparr>;
        let pa = dmap (skb_data b) (ucast (rxbufsize s1));
        let s2 = DMA_MAP DMA_RX pa (ucast (rxbufsize s1)) (s1\<lparr>heap := (heap s1)(p \<mapsto> b)\<rparr>);
        rp \<leftarrow> wr (rxp s2) (unat i) p;
        ring \<leftarrow> dma64_dd_upd s2 (rxd64 s2) pa (unat i)
          (if unat i + 1 = unat (nrxd s2) then D64_CTRL1_EOT else 0) (ucast (rxbufsize s2));
        rxfill_loop dmap place n False extra (NEXTRXD s2 i) (s2\<lparr>rxp := rp, rxd64 := ring\<rparr>) })"

definition dma_rxfill :: "(u32 \<Rightarrow> u32 \<Rightarrow> u32) \<Rightarrow> (addr \<Rightarrow> u32) \<Rightarrow> dma_st \<Rightarrow> (bool \<times> dma_st) option" where
  "dma_rxfill dmap place s = do {
     let n = nrxpost s - NRXDACTIVE s (rxin s) (rxout s);
     let extra = (if BCMEXTRAHDROOM < rxbufsize s then rxextrahdrroom s else 0);
     (e, i, s) \<leftarrow> rxfill_loop dmap place (unat n) True extra (rxout s) s;
     s \<leftarrow> W_ptr DMA_RX (rcvptrbase s + I2B (ucast i)) (s\<lparr>rxout := i\<rparr>);
     Some (e, s) }"

end
