(* ===== verification/Dma_Rx_Laws.thy ===== *)
theory Dma_Rx_Laws
  imports Dma64_Rx Dma_Tx_Laws
begin

text \<open>
  The receive ring as a queue of buffers, and how received buffers become frames: a frame has the
  buffers its length asks for, and one that needs more than a buffer is thrown away as a whole
  unless frames of several buffers are allowed.
\<close>

section \<open>Taking a buffer\<close>

definition rx_holds :: "dma_st \<Rightarrow> (dma64dd \<times> addr) list \<Rightarrow> bool" where
  "rx_holds s es \<longleftrightarrow> ring_holds (nrxd s) (rxin s) (rxout s) (rxd64 s) (rxp s) es \<and> 0 \<notin> snd ` set es"

lemma rx_next_index: "ring_size (nrxd s) \<Longrightarrow> unat (NEXTRXD s i) = Suc (unat i) mod unat (nrxd s)"
  by (simp add: NEXTRXD_def RXD_def ring_next)

lemma rx_count: "rx_holds s es \<Longrightarrow> unat (dma_rxactive s) = length es"
  by (auto simp: dma_rxactive_def NRXDACTIVE_def RXD_def rx_holds_def dest: ring_holds_count)

lemma rx_unmap_fields [simp]:
  "nrxd (DMA_UNMAP dir pa l s) = nrxd s" "rxin (DMA_UNMAP dir pa l s) = rxin s"
  "rxout (DMA_UNMAP dir pa l s) = rxout s" "rxp (DMA_UNMAP dir pa l s) = rxp s"
  "rxd64 (DMA_UNMAP dir pa l s) = rxd64 s" "d64rxregs (DMA_UNMAP dir pa l s) = d64rxregs s"
  "rxbufsize (DMA_UNMAP dir pa l s) = rxbufsize s" "rxoffset (DMA_UNMAP dir pa l s) = rxoffset s"
  "rcvptrbase (DMA_UNMAP dir pa l s) = rcvptrbase s" "dmactrlflags (DMA_UNMAP dir pa l s) = dmactrlflags s"
  "rxgiants (DMA_UNMAP dir pa l s) = rxgiants s" "os (DMA_UNMAP dir pa l s) = os s"
  "nrxpost (DMA_UNMAP dir pa l s) = nrxpost s"
  by (cases dir; simp)+

text \<open>What stays as it is while buffers are taken from the ring.\<close>

definition rx_same :: "dma_st \<Rightarrow> dma_st \<Rightarrow> bool" where
  "rx_same s s' \<longleftrightarrow> nrxd s' = nrxd s \<and> rxbufsize s' = rxbufsize s \<and> rxoffset s' = rxoffset s \<and>
     rcvptrbase s' = rcvptrbase s \<and> dmactrlflags s' = dmactrlflags s \<and> os s' = os s"

lemma rx_same_refl [simp]: "rx_same s s"
  by (simp add: rx_same_def)

lemma rx_same_trans: "rx_same s s1 \<Longrightarrow> rx_same s1 s2 \<Longrightarrow> rx_same s s2"
  by (simp add: rx_same_def)

text \<open>The device has come to the place \<open>d\<close> buffers behind the first, and stays there.\<close>

definition rx_done :: "dma_st \<Rightarrow> nat \<Rightarrow> bool" where
  "rx_done s d \<longleftrightarrow>
     (\<exists>r. d64rxregs s = Some r \<and> (\<forall>k\<ge>reads r.
        unat (B2I (((status0 r k AND D64_XS0_CD_MASK) - rcvptrbase s) AND D64_XS0_CD_MASK)) =
          (unat (rxin s) + d) mod unat (nrxd s)))"

lemma cur_desc_done:
  assumes "rx_done s d"
  obtains c r where "cur_desc DMA_RX s = Some (c, s\<lparr>d64rxregs := r\<rparr>)" "unat c = (unat (rxin s) + d) mod unat (nrxd s)"
    "rx_done (s\<lparr>d64rxregs := r\<rparr>) d"
proof -
  obtain r where r: "d64rxregs s = Some r" "\<forall>k\<ge>reads r.
      unat (B2I (((status0 r k AND D64_XS0_CD_MASK) - rcvptrbase s) AND D64_XS0_CD_MASK)) = (unat (rxin s) + d) mod unat (nrxd s)"
    using assms by (auto simp: rx_done_def)
  show ?thesis
  proof (rule that)
    show "cur_desc DMA_RX s = Some (B2I (((status0 r (reads r) AND D64_XS0_CD_MASK) - rcvptrbase s) AND D64_XS0_CD_MASK),
        s\<lparr>d64rxregs := Some (r\<lparr>reads := Suc (reads r)\<rparr>)\<rparr>)"
      using r(1) by (simp add: cur_desc_def R_status0_def tick_regs_def)
    show "unat (B2I (((status0 r (reads r) AND D64_XS0_CD_MASK) - rcvptrbase s) AND D64_XS0_CD_MASK)) =
        (unat (rxin s) + d) mod unat (nrxd s)"
      using r(2) by simp
    show "rx_done (s\<lparr>d64rxregs := Some (r\<lparr>reads := Suc (reads r)\<rparr>)\<rparr>) d"
      using r(2) by (simp add: rx_done_def)
  qed
qed

lemma getnextrxp_empty: "rx_holds s [] \<Longrightarrow> dma_getnextrxp f s = Some (0, s)"
  using ring_holds_empty [of "nrxd s" "rxin s" "rxout s" "rxd64 s" "rxp s" "[]"]
  by (auto simp: rx_holds_def dma_getnextrxp_def dma64_getnextrxp_def Let_def)

lemma getnextrxp_take:
  assumes h: "rx_holds s (e # es)" and c: "cur_desc DMA_RX s = Some (c, s\<lparr>d64rxregs := r\<rparr>)" and f: "f \<or> c \<noteq> ucast (rxin s)"
  shows "\<exists>s'. dma_getnextrxp f s = Some (snd e, s') \<and> rx_holds s' es \<and> heap s' = heap s \<and> rx_same s s' \<and>
    d64rxregs s' = r \<and> unat (rxin s') = Suc (unat (rxin s)) mod unat (nrxd s) \<and> rxgiants s' = rxgiants s"
proof -
  have rh: "ring_holds (nrxd s) (rxin s) (rxout s) (rxd64 s) (rxp s) (e # es)" "0 \<notin> snd ` set es"
    using h by (simp_all add: rx_holds_def)
  have rs: "ring_size (nrxd s)" "unat (rxin s) < unat (nrxd s)" "length (rxd64 s) = unat (nrxd s)" "length (rxp s) = unat (nrxd s)"
    using rh(1) by (simp_all add: ring_holds_def)
  have ne: "nrxd s \<noteq> 0" "rxin s \<noteq> rxout s"
    using rs(2) ring_holds_empty [OF rh(1)] by auto
  have nx: "unat (NEXTRXD s (rxin s)) = Suc (unat (rxin s)) mod unat (nrxd s)" by (rule rx_next_index [OF rs(1)])
  let ?dd = "(fst e)\<lparr>addrlow := DEADBEEF, addrhigh := DEADBEEF\<rparr>"
  note pop = ring_holds_pop [OF rh(1) nx]
  let ?s = "s\<lparr>d64rxregs := r, rxp := (rxp s)[unat (rxin s) := 0], rxd64 := (rxd64 s)[unat (rxin s) := ?dd], rxin := NEXTRXD s (rxin s)\<rparr>"
  let ?u = "DMA_UNMAP DMA_RX (addrlow (fst e) - dataoffsetlow s) (ucast (rxbufsize s)) ?s"
  have "dma_getnextrxp f s = Some (snd e, ?u)"
    using ne c f pop(1,2) rs(2-4) by (auto simp: dma_getnextrxp_def dma64_getnextrxp_def rd_def wr_def Let_def NEXTRXD_def RXD_def)
  moreover have "rx_holds ?u es" using pop(3) [of ?dd] rh(2) by (simp add: rx_holds_def)
  ultimately show ?thesis using nx by (intro exI [of _ ?u]) (simp add: rx_same_def)
qed

text \<open>With the device standing still, one buffer less of those it has come past.\<close>

lemma rx_holds_regs [simp]: "rx_holds (s\<lparr>d64rxregs := r\<rparr>) es \<longleftrightarrow> rx_holds s es"
  by (simp add: rx_holds_def)

lemma getnextrxp_wait:
  assumes "rx_holds s es" "rx_done s 0"
  shows "\<exists>s'. dma_getnextrxp False s = Some (0, s') \<and> rx_holds s' es \<and> rx_done s' 0 \<and> heap s' = heap s \<and> rx_same s s' \<and> rxgiants s' = rxgiants s"
proof (cases "es = []")
  case True
  then show ?thesis using getnextrxp_empty [of s False] assms by auto
next
  case False
  have rh: "ring_holds (nrxd s) (rxin s) (rxout s) (rxd64 s) (rxp s) es" using assms(1) by (simp add: rx_holds_def)
  then have i: "unat (rxin s) < unat (nrxd s)" "rxin s \<noteq> rxout s" using False ring_holds_empty [OF rh] by (auto simp: ring_holds_def)
  obtain c r where c: "cur_desc DMA_RX s = Some (c, s\<lparr>d64rxregs := r\<rparr>)" "unat c = (unat (rxin s) + 0) mod unat (nrxd s)"
    "rx_done (s\<lparr>d64rxregs := r\<rparr>) 0"
    using cur_desc_done [OF assms(2)] by blast
  have "c = ucast (rxin s)" using c(2) i(1) by (simp add: word_unat_eq_iff)
  then have "dma_getnextrxp False s = Some (0, s\<lparr>d64rxregs := r\<rparr>)"
    using c(1) i by (auto simp: dma_getnextrxp_def dma64_getnextrxp_def Let_def)
  then show ?thesis using assms(1) c(3) by (auto simp: rx_same_def)
qed

lemma getnextrxp_done:
  assumes "rx_holds s (e # es)" "rx_done s (Suc d)" "d \<le> length es"
  shows "\<exists>s'. dma_getnextrxp False s = Some (snd e, s') \<and> rx_holds s' es \<and> rx_done s' d \<and> heap s' = heap s \<and> rx_same s s' \<and> rxgiants s' = rxgiants s"
proof -
  have n: "unat (rxin s) < unat (nrxd s)" "Suc (length es) < unat (nrxd s)"
    using assms(1) by (simp_all add: rx_holds_def ring_holds_def)
  obtain c r where c: "cur_desc DMA_RX s = Some (c, s\<lparr>d64rxregs := r\<rparr>)" "unat c = (unat (rxin s) + Suc d) mod unat (nrxd s)"
    "rx_done (s\<lparr>d64rxregs := r\<rparr>) (Suc d)"
    using cur_desc_done [OF assms(2)] by blast
  have "unat c \<noteq> unat (rxin s)"
    unfolding c(2) using ring_inj [of 0 "unat (nrxd s)" "Suc d" "unat (rxin s)"] n assms(3) by simp
  then have "c \<noteq> ucast (rxin s)" by auto
  then obtain s' where s': "dma_getnextrxp False s = Some (snd e, s')" "rx_holds s' es" "heap s' = heap s" "rx_same s s'"
    "d64rxregs s' = r" "unat (rxin s') = Suc (unat (rxin s)) mod unat (nrxd s)" "rxgiants s' = rxgiants s"
    using getnextrxp_take [OF assms(1) c(1), of False] by auto
  have "(unat (rxin s') + d) mod unat (nrxd s) = (unat (rxin s) + Suc d) mod unat (nrxd s)"
    unfolding s'(6) mod_add_left_eq by simp
  then have "rx_done s' d" using c(3) s'(4,5) by (auto simp: rx_done_def rx_same_def)
  then show ?thesis using s' by blast
qed

section \<open>The buffers of a frame\<close>

fun rx_take :: "int \<Rightarrow> int \<Rightarrow> addr list \<Rightarrow> addr list" where
  "rx_take r B [] = []"
| "rx_take r B (q # qs) = (if r \<le> 0 then [] else q # rx_take (r - B) B qs)"

fun link_bufs :: "int \<Rightarrow> int \<Rightarrow> addr \<Rightarrow> (addr \<Rightarrow> sk_buff option) \<Rightarrow> addr list \<Rightarrow> addr \<Rightarrow> sk_buff option" where
  "link_bufs r B t h [] = h"
| "link_bufs r B t h (q # qs) =
     (let h1 = h(t := map_option (\<lambda>b. b\<lparr>skb_next := q\<rparr>) (h t));
          h2 = h1(q := map_option (\<lambda>b. b\<lparr>skb_len := of_int (min r B)\<rparr>) (h1 q))
      in link_bufs (r - B) B q h2 qs)"

lemma rx_take_prefix: "\<exists>rest. qs = rx_take r B qs @ rest"
  by (induction qs arbitrary: r) auto

lemma length_rx_take: "length (rx_take r B qs) \<le> length qs"
  by (induction qs arbitrary: r) (auto intro: le_SucI)

lemma link_bufs_dom: "link_bufs r B t h qs a = None \<longleftrightarrow> h a = None"
  by (induction qs arbitrary: r t h) (simp_all add: Let_def)

lemma rx_more_law:
  "rx_holds s es \<Longrightarrow> rx_done s d \<Longrightarrow> d \<le> length es \<Longrightarrow> heap s t \<noteq> None \<Longrightarrow> (\<And>q. q \<in> snd ` set es \<Longrightarrow> heap s q \<noteq> None) \<Longrightarrow>
    qs = rx_take r (uint (rxbufsize s)) (map snd (take d es)) \<Longrightarrow>
    \<exists>s'. rx_more r t s = Some s' \<and> rx_holds s' (drop (length qs) es) \<and> rx_done s' (d - length qs) \<and>
      heap s' = link_bufs r (uint (rxbufsize s)) t (heap s) qs \<and> rx_same s s' \<and> rxgiants s' = rxgiants s"
proof (induction d arbitrary: s es t r qs)
  case 0
  then have qs: "qs = []" by simp
  obtain s' where s': "dma_getnextrxp False s = Some (0, s')" "rx_holds s' es" "rx_done s' 0" "heap s' = heap s" "rx_same s s'" "rxgiants s' = rxgiants s"
    using getnextrxp_wait [OF "0.prems"(1,2)] by blast
  show ?case
  proof (cases "r \<le> 0")
    case True
    then show ?thesis using "0.prems" qs by (subst rx_more.simps) simp
  next
    case False
    then have "rx_more r t s = Some s'" using s'(1) by (subst rx_more.simps) simp
    then show ?thesis using s' qs by auto
  qed
next
  case (Suc d)
  obtain e es1 where es: "es = e # es1" using Suc.prems(3) by (cases es) auto
  show ?case
  proof (cases "r \<le> 0")
    case True
    then have "qs = []" using Suc.prems(6) es by simp
    then show ?thesis using True Suc.prems by (subst rx_more.simps) simp
  next
    case False
    obtain s1 where s1: "dma_getnextrxp False s = Some (snd e, s1)" "rx_holds s1 es1" "rx_done s1 d" "heap s1 = heap s" "rx_same s s1" "rxgiants s1 = rxgiants s"
      using getnextrxp_done [of s e es1 d] Suc.prems(1-3) es by auto
    let ?B = "uint (rxbufsize s)"
    let ?h1 = "(heap s)(t := map_option (\<lambda>b. b\<lparr>skb_next := snd e\<rparr>) (heap s t))"
    let ?h2 = "?h1(snd e := map_option (\<lambda>b. b\<lparr>skb_len := of_int (min r ?B)\<rparr>) (?h1 (snd e)))"
    let ?s = "s1\<lparr>heap := ?h2\<rparr>"
    have e0: "snd e \<noteq> 0" using Suc.prems(1) es by (auto simp: rx_holds_def)
    obtain b where b: "heap s t = Some b" using Suc.prems(4) by auto
    obtain b' where b': "?h1 (snd e) = Some b'" using Suc.prems(5) [of "snd e"] es b by fastforce
    have step: "rx_more r t s = rx_more (r - ?B) (snd e) ?s"
      using False s1(1,4,5) e0 b b' by (subst rx_more.simps) (simp add: upd_skb_def rx_same_def)
    have q: "qs = snd e # rx_take (r - ?B) ?B (map snd (take d es1))" using Suc.prems(6) es False by simp
    have "\<exists>s'. rx_more (r - ?B) (snd e) ?s = Some s' \<and> rx_holds s' (drop (length (tl qs)) es1) \<and> rx_done s' (d - length (tl qs)) \<and>
      heap s' = link_bufs (r - ?B) (uint (rxbufsize ?s)) (snd e) (heap ?s) (tl qs) \<and> rx_same ?s s' \<and> rxgiants s' = rxgiants ?s"
    proof (rule Suc.IH)
      show "rx_holds ?s es1" using s1(2) by (simp add: rx_holds_def)
      show "rx_done ?s d" using s1(3) by (simp add: rx_done_def)
      show "d \<le> length es1" using Suc.prems(3) es by simp
      show "heap ?s (snd e) \<noteq> None" using b' by simp
      show "\<And>q. q \<in> snd ` set es1 \<Longrightarrow> heap ?s q \<noteq> None" using Suc.prems(5) es b b' by auto
      show "tl qs = rx_take (r - ?B) (uint (rxbufsize ?s)) (map snd (take d es1))" using q s1(5) by (simp add: rx_same_def)
    qed
    then show ?thesis unfolding step using s1(5,6) es q by (auto simp: Let_def rx_same_def)
  qed
qed

fun rx_lens :: "int \<Rightarrow> int \<Rightarrow> addr list \<Rightarrow> int list" where
  "rx_lens r B [] = []"
| "rx_lens r B (q # qs) = min r B # rx_lens (r - B) B qs"

definition clean_bufs :: "(addr \<Rightarrow> sk_buff option) \<Rightarrow> addr list \<Rightarrow> bool" where
  "clean_bufs h qs \<longleftrightarrow> distinct qs \<and> 0 \<notin> set qs \<and> (\<forall>q\<in>set qs. \<exists>b. h q = Some b \<and> skb_next b = 0)"

lemma link_bufs_other: "a \<notin> set (t # qs) \<Longrightarrow> link_bufs r B t h qs a = h a"
  by (induction qs arbitrary: r t h) (simp_all add: Let_def)

lemma link_bufs_tail: "t \<notin> set qs \<Longrightarrow> h t = Some b \<Longrightarrow>
    link_bufs r B t h qs t = Some (if qs = [] then b else b\<lparr>skb_next := hd qs\<rparr>)"
  by (cases qs) (simp_all add: Let_def link_bufs_other)

lemma link_bufs_chain:
  "clean_bufs h (t # qs) \<Longrightarrow> skb_chain (link_bufs r B t h qs) t (t # qs)"
proof (induction qs arbitrary: r t h)
  case Nil
  then show ?case by (auto simp: clean_bufs_def skb_chain_Cons skb_chain_Nil)
next
  case (Cons q qs)
  obtain b where b: "h t = Some b" using Cons.prems by (auto simp: clean_bufs_def)
  let ?h1 = "h(t := map_option (\<lambda>b. b\<lparr>skb_next := q\<rparr>) (h t))"
  let ?h2 = "?h1(q := map_option (\<lambda>b. b\<lparr>skb_len := of_int (min r B)\<rparr>) (?h1 q))"
  have "clean_bufs ?h2 (q # qs)" using Cons.prems by (auto simp: clean_bufs_def)
  then have ch: "skb_chain (link_bufs (r - B) B q ?h2 qs) q (q # qs)" by (rule Cons.IH)
  have t: "t \<noteq> 0" "t \<notin> set (q # qs)" using Cons.prems by (auto simp: clean_bufs_def)
  have lt: "link_bufs r B t h (q # qs) t = Some (b\<lparr>skb_next := q\<rparr>)"
    using link_bufs_tail [of t "q # qs" h b r B] t b by simp
  have ch': "skb_chain (link_bufs r B t h (q # qs)) q (q # qs)" using ch by (simp add: Let_def)
  show ?case unfolding skb_chain_Cons [of _ t t] using t lt ch' by simp
qed

lemma link_bufs_lens:
  "clean_bufs h (t # qs) \<Longrightarrow> r < 2 ^ 31 \<Longrightarrow> 0 < B \<Longrightarrow> B < 2 ^ 31 \<Longrightarrow> qs = rx_take r B qs' \<Longrightarrow>
    map (\<lambda>a. uint (skb_len (the (link_bufs r B t h qs a)))) qs = rx_lens r B qs"
proof (induction qs arbitrary: r t h qs')
  case (Cons q qs)
  obtain b where b: "h q = Some b" using Cons.prems(1) by (auto simp: clean_bufs_def)
  let ?h1 = "h(t := map_option (\<lambda>b. b\<lparr>skb_next := q\<rparr>) (h t))"
  let ?h2 = "?h1(q := map_option (\<lambda>b. b\<lparr>skb_len := of_int (min r B)\<rparr>) (?h1 q))"
  have d: "t \<noteq> q" "q \<notin> set qs" using Cons.prems(1) by (auto simp: clean_bufs_def)
  obtain q' where q': "0 < r" "qs = rx_take (r - B) B q'" using Cons.prems(5) by (cases qs') (auto split: if_splits)
  have cl: "clean_bufs ?h2 (q # qs)" using Cons.prems(1) by (auto simp: clean_bufs_def)
  have "map (\<lambda>a. uint (skb_len (the (link_bufs (r - B) B q ?h2 qs a)))) qs = rx_lens (r - B) B qs"
    by (rule Cons.IH [OF cl]) (use Cons.prems(2-4) q'(2) in simp_all)
  moreover have "link_bufs (r - B) B q ?h2 qs q = Some (if qs = [] then b\<lparr>skb_len := of_int (min r B)\<rparr> else b\<lparr>skb_len := of_int (min r B), skb_next := hd qs\<rparr>)"
    using link_bufs_tail [of q qs ?h2 "b\<lparr>skb_len := of_int (min r B)\<rparr>" "r - B" B] d b by simp
  moreover have "uint (of_int (min r B) :: u32) = min r B"
    using Cons.prems(2-4) q'(1) by (simp add: unsigned_of_int take_bit_int_eq_self)
  ultimately show ?case by (simp add: Let_def)
qed simp

lemma rx_lens_sum: "0 < B \<Longrightarrow> 0 \<le> r \<Longrightarrow> r \<le> B * int (length qs) \<Longrightarrow> qs = rx_take r B qs' \<Longrightarrow> sum_list (rx_lens r B qs) = r"
proof (induction qs arbitrary: r qs')
  case (Cons q qs)
  obtain q' where q': "0 < r" "qs = rx_take (r - B) B q'" using Cons.prems(4) by (cases qs') (auto split: if_splits)
  show ?case
  proof (cases "r \<le> B")
    case True
    then have "qs = []" using q'(2) by (cases q') auto
    then show ?thesis using True by simp
  next
    case False
    then show ?thesis using Cons.IH [OF _ _ _ q'(2)] Cons.prems(1-3) by (simp add: algebra_simps min_def)
  qed
qed simp

section \<open>Frames\<close>

text \<open>
  The frame the received buffers begin with and the frames thrown away before it; \<open>None\<close> when the length
  of one of them was never stored.
\<close>

function rx_frame :: "bool \<Rightarrow> int \<Rightarrow> int \<Rightarrow> (addr \<Rightarrow> u16) \<Rightarrow> addr list \<Rightarrow> (addr list \<times> addr list list) option" where
  "rx_frame multi ro B hdr [] = Some ([], [])"
| "rx_frame multi ro B hdr (p # ps) =
     (if hdr p = 0 then None
      else if uint (hdr p) - (B - ro) \<le> 0 then Some ([p], [])
      else
        let qs = rx_take (uint (hdr p) - (B - ro)) B ps in
        if multi then Some (p # qs, [])
        else map_option (\<lambda>(f, ds). (f, (p # qs) # ds)) (rx_frame multi ro B hdr (drop (length qs) ps)))"
  by pat_completeness auto
termination by (relation "measure (\<lambda>(_, _, _, _, ps). length ps)") auto

lemma rx_frame_prefix: "rx_frame multi ro B hdr ps = Some (f, ds) \<Longrightarrow> \<exists>rest. ps = concat ds @ f @ rest"
proof (induction multi ro B hdr ps arbitrary: ds rule: rx_frame.induct)
  case (2 multi ro B hdr p ps)
  let ?qs = "rx_take (uint (hdr p) - (B - ro)) B ps"
  obtain rest where r: "ps = ?qs @ rest" using rx_take_prefix by blast
  show ?case
  proof (cases "uint (hdr p) - (B - ro) \<le> 0 \<or> multi")
    case True
    then show ?thesis using "2.prems" r by (auto simp: Let_def split: if_splits)
  next
    case False
    have "drop (length ?qs) ps = rest" using r by (metis append_eq_conv_conj)
    then show ?thesis using "2.IH" "2.prems" r False by (fastforce simp: Let_def split: if_splits)
  qed
qed simp

lemma frame_rest:
  assumes "uint (ro :: u32) \<le> uint (B :: u16)"
  shows "sint (ucast (l :: u16) - (ucast B - ro) :: u32) = uint l - (uint B - uint ro)"
    "uint (min (ro + ucast l) (ucast B :: u32)) = min (uint ro + uint l) (uint B)"
proof -
  have l: "uint l < 65536" "uint B < 65536" "uint ro < 65536"
    using assms unsigned_less [of l, where 'a = int] unsigned_less [of B, where 'a = int] by auto
  have u: "uint (ucast l :: u32) = uint l" "uint (ucast B :: u32) = uint B"
    using l by (simp_all add: unsigned_ucast_eq take_bit_int_eq_self)
  have "uint (ro + ucast l) = uint ro + uint l" using l u by (simp add: uint_word_ariths)
  then show "uint (min (ro + ucast l) (ucast B :: u32)) = min (uint ro + uint l) (uint B)"
    using u by (simp add: min_def word_le_def)
  let ?v = "uint l - (uint B - uint ro)"
  have "(of_int ?v :: u32) = of_int (uint (ucast l :: u32)) - (of_int (uint (ucast B :: u32)) - of_int (uint ro))"
    using u by (simp only: of_int_diff)
  then have e: "ucast l - (ucast B - ro) = (word_of_int ?v :: u32)" by simp
  have "sint (ucast l - (ucast B - ro) :: u32) = signed_take_bit 31 ?v" unfolding e signed_of_int by simp
  also have "\<dots> = ?v"
  proof (rule signed_take_bit_int_eq_self)
    have "0 \<le> uint l" "0 \<le> uint ro" by simp_all
    then have "- 2147483648 \<le> ?v" "?v < 2147483648" using l assms by linarith+
    then show "- (2 ^ 31) \<le> ?v" "?v < 2 ^ 31" by simp_all
  qed
  finally show "sint (ucast l - (ucast B - ro) :: u32) = ?v" .
qed

definition rx_result :: "dma_st \<Rightarrow> (dma64dd \<times> addr) list \<Rightarrow> nat \<Rightarrow> addr list \<Rightarrow> addr list list \<Rightarrow> dma_st \<Rightarrow> bool" where
  "rx_result s es d f ds s' \<longleftrightarrow>
     rx_holds s' (drop (length (concat ds @ f)) es) \<and> rx_done s' (d - length (concat ds @ f)) \<and>
     rx_same s s' \<and> rxgiants s' = rxgiants s + of_nat (length ds) \<and>
     (\<forall>a\<in>set (concat ds). heap s' a = None) \<and> (\<forall>a. a \<notin> set (concat ds @ f) \<longrightarrow> heap s' a = heap s a) \<and>
     (f \<noteq> [] \<longrightarrow> skb_chain (heap s') (hd f) f \<and>
       (let l = uint (skb_hdr (the (heap s (hd f)))); B = uint (rxbufsize s); ro = uint (rxoffset s) in
        map (\<lambda>a. uint (skb_len (the (heap s' a)))) f = min (ro + l) B # rx_lens (l - (B - ro)) B (tl f)))"

text \<open>A frame of one buffer, and one of several before it is handed up or freed.\<close>

lemma rx_first:
  assumes h: "rx_holds s (e # es)" "rx_done s (Suc d)" "d \<le> length es" "clean_bufs (heap s) (snd e # map snd es)"
    and bs: "uint (rxoffset s) \<le> uint (rxbufsize s)"
    and b: "heap s (snd e) = Some b" "skb_hdr b \<noteq> 0"
  defines "r \<equiv> uint (skb_hdr b) - (uint (rxbufsize s) - uint (rxoffset s))"
  defines "qs \<equiv> rx_take r (uint (rxbufsize s)) (map snd (take d es))"
  defines "h1 \<equiv> (heap s)(snd e \<mapsto> b\<lparr>skb_len := min (rxoffset s + ucast (skb_hdr b)) (ucast (rxbufsize s))\<rparr>)"
  shows "\<exists>s'. rx_holds s' (drop (length qs) es) \<and> rx_done s' (d - length qs) \<and> rx_same s s' \<and> rxgiants s' = rxgiants s \<and>
    heap s' = link_bufs r (uint (rxbufsize s)) (snd e) h1 qs \<and>
    dma_rx s = (if r \<le> 0 \<or> dmactrlflags s AND DMA_CTRL_RXMULTI \<noteq> 0 then Some (snd e, s')
      else case PKTFREE (snd e) s' of None \<Rightarrow> None | Some s4 \<Rightarrow> dma_rx (s4\<lparr>rxgiants := rxgiants s4 + 1\<rparr>))"
proof -
  obtain s1 where s1: "dma_getnextrxp False s = Some (snd e, s1)" "rx_holds s1 es" "rx_done s1 d" "heap s1 = heap s"
    "rx_same s s1" "rxgiants s1 = rxgiants s"
    using getnextrxp_done [OF h(1-3)] by blast
  let ?s2 = "s1\<lparr>heap := h1\<rparr>"
  have e0: "snd e \<noteq> 0" using h(1) by (auto simp: rx_holds_def)
  have par: "rxbufsize s1 = rxbufsize s" "rxoffset s1 = rxoffset s" "dmactrlflags s1 = dmactrlflags s"
    using s1(5) by (simp_all add: rx_same_def)
  have res: "sint (ucast (skb_hdr b) - (ucast (rxbufsize s) - rxoffset s) :: u32) = r"
    unfolding r_def by (rule frame_rest(1) [OF bs])
  have "\<exists>s'. rx_more r (snd e) ?s2 = Some s' \<and> rx_holds s' (drop (length qs) es) \<and> rx_done s' (d - length qs) \<and>
      heap s' = link_bufs r (uint (rxbufsize ?s2)) (snd e) (heap ?s2) qs \<and> rx_same ?s2 s' \<and> rxgiants s' = rxgiants ?s2"
  proof (rule rx_more_law)
    show "rx_holds ?s2 es" using s1(2) by (simp add: rx_holds_def)
    show "rx_done ?s2 d" using s1(3) by (simp add: rx_done_def)
    show "\<And>q. q \<in> snd ` set es \<Longrightarrow> heap ?s2 q \<noteq> None" using h(4) by (fastforce simp: h1_def clean_bufs_def)
  qed (use h(3) par in \<open>simp_all add: qs_def h1_def\<close>)
  then obtain s' where s': "rx_more r (snd e) ?s2 = Some s'" "rx_holds s' (drop (length qs) es)" "rx_done s' (d - length qs)"
    "heap s' = link_bufs r (uint (rxbufsize s)) (snd e) h1 qs" "rx_same s s'" "rxgiants s' = rxgiants s"
    using par s1(5,6) by (auto simp: rx_same_def)
  have fl: "dmactrlflags s' = dmactrlflags s" using s'(5) by (simp add: rx_same_def)
  have stop: "r \<le> 0 \<Longrightarrow> s' = ?s2" using s'(1) by (subst (asm) rx_more.simps) simp
  have "dma_rx s = (if r \<le> 0 \<or> dmactrlflags s AND DMA_CTRL_RXMULTI \<noteq> 0 then Some (snd e, s')
      else case PKTFREE (snd e) s' of None \<Rightarrow> None | Some s4 \<Rightarrow> dma_rx (s4\<lparr>rxgiants := rxgiants s4 + 1\<rparr>))"
    using s1(1,4) e0 b par res s'(1) fl stop
    by (subst dma_rx.simps) (simp add: Let_def h1_def [symmetric])
  then show ?thesis using s' by blast
qed

lemma rx_lens_frame:
  assumes cl: "clean_bufs h (p # qs)" and b: "h p = Some b" and bs: "uint (ro :: u32) \<le> uint (B :: u16)" "0 < uint B"
    and qs: "qs = rx_take (uint (skb_hdr b) - (uint B - uint ro)) (uint B) ps"
  shows "map (\<lambda>a. uint (skb_len (the (link_bufs (uint (skb_hdr b) - (uint B - uint ro)) (uint B) p
        (h(p \<mapsto> b\<lparr>skb_len := min (ro + ucast (skb_hdr b)) (ucast B)\<rparr>)) qs a)))) (p # qs) =
      min (uint ro + uint (skb_hdr b)) (uint B) # rx_lens (uint (skb_hdr b) - (uint B - uint ro)) (uint B) qs"
proof -
  let ?b = "b\<lparr>skb_len := min (ro + ucast (skb_hdr b)) (ucast B)\<rparr>"
  have p: "p \<notin> set qs" using cl by (simp add: clean_bufs_def)
  have u: "uint (skb_hdr b) < 65536" "uint B < 65536" "0 \<le> uint ro"
    using unsigned_less [of "skb_hdr b", where 'a = int] unsigned_less [of B, where 'a = int] by simp_all
  have "clean_bufs (h(p \<mapsto> ?b)) (p # qs)" using cl b by (auto simp: clean_bufs_def)
  moreover have "uint (skb_hdr b) - (uint B - uint ro) < 2 ^ 31" "uint B < 2 ^ 31" using u bs by simp_all
  ultimately show ?thesis
    using link_bufs_lens [of "h(p \<mapsto> ?b)" p qs _ "uint B"] bs(2) qs p
      link_bufs_tail [of p qs "h(p \<mapsto> ?b)" ?b "uint (skb_hdr b) - (uint B - uint ro)" "uint B"] frame_rest(2) [OF bs(1), of "skb_hdr b"]
    by simp
qed

lemma clean_bufs_append: "clean_bufs h (xs @ ys) \<longleftrightarrow> clean_bufs h xs \<and> clean_bufs h ys \<and> set xs \<inter> set ys = {}"
  by (auto simp: clean_bufs_def)

lemma clean_bufs_cong: "clean_bufs h qs \<Longrightarrow> (\<And>q. q \<in> set qs \<Longrightarrow> h' q = h q) \<Longrightarrow> clean_bufs h' qs"
  by (simp add: clean_bufs_def)

text \<open>A giant frame thrown away in front of a result.\<close>

lemma rx_result_giant:
  assumes r: "rx_result s4 (drop (length qs) es) (d - length qs) f ds s'"
    and s4: "rx_same s s4" "rxgiants s4 = rxgiants s + 1" "\<And>a. heap s4 a = (if a \<in> set (p # qs) then None else heap s a)"
    and dj: "set (p # qs) \<inter> set (concat ds @ f) = {}"
  shows "rx_result s (e # es) (Suc d) f ((p # qs) # ds) s'"
proof -
  have hd: "f \<noteq> [] \<Longrightarrow> heap s4 (hd f) = heap s (hd f)"
    using dj hd_in_set [of f] by (auto simp: s4(3))
  have par: "rxbufsize s4 = rxbufsize s" "rxoffset s4 = rxoffset s" using s4(1) by (simp_all add: rx_same_def)
  have gone: "a \<in> set (p # qs) \<Longrightarrow> heap s' a = None" for a
  proof -
    assume a: "a \<in> set (p # qs)"
    then have "a \<notin> set (concat ds @ f)" using dj by blast
    then have "heap s' a = heap s4 a" using r by (simp add: rx_result_def)
    then show ?thesis using a s4(3) by simp
  qed
  show ?thesis
    unfolding rx_result_def
  proof (intro conjI)
    show "\<forall>a\<in>set (concat ((p # qs) # ds)). heap s' a = None" using r gone by (auto simp: rx_result_def)
    show "\<forall>a. a \<notin> set (concat ((p # qs) # ds) @ f) \<longrightarrow> heap s' a = heap s a" using r by (auto simp: rx_result_def s4(3))
    show "rx_same s s'" using rx_same_trans [OF s4(1)] r by (simp add: rx_result_def)
    have "rxgiants s' = rxgiants s4 + of_nat (length ds)" using r unfolding rx_result_def by blast
    then show "rxgiants s' = rxgiants s + of_nat (length ((p # qs) # ds))" unfolding s4(2) by simp
    have len: "length (concat ((p # qs) # ds) @ f) = Suc (length (concat ds @ f) + length qs)" by simp
    have "rx_holds s' (drop (length (concat ds @ f)) (drop (length qs) es))" "rx_done s' (d - length qs - length (concat ds @ f))"
      using r unfolding rx_result_def by blast+
    then show "rx_holds s' (drop (length (concat ((p # qs) # ds) @ f)) (e # es))"
      "rx_done s' (Suc d - length (concat ((p # qs) # ds) @ f))"
      unfolding len by (simp_all only: drop_drop drop_Suc_Cons diff_Suc_Suc diff_diff_left add.commute)
    show "f \<noteq> [] \<longrightarrow> skb_chain (heap s') (hd f) f \<and>
       (let l = uint (skb_hdr (the (heap s (hd f)))); B = uint (rxbufsize s); ro = uint (rxoffset s) in
        map (\<lambda>a. uint (skb_len (the (heap s' a)))) f = min (ro + l) B # rx_lens (l - (B - ro)) B (tl f))"
      using r hd par by (simp add: rx_result_def)
  qed
qed

lemma take_drop_append: "map g (take d xs) = us @ vs \<Longrightarrow> map g (take (d - length us) (drop (length us) xs)) = vs"
  by (simp add: drop_take [symmetric] drop_map [symmetric])

lemma dma_rx_law:
  assumes "0 < uint (rxbufsize s0)" "uint (rxoffset s0) \<le> uint (rxbufsize s0)"
  shows "rx_holds s es \<Longrightarrow> rx_done s d \<Longrightarrow> d \<le> length es \<Longrightarrow> clean_bufs (heap s) (map snd es) \<Longrightarrow> rx_same s0 s \<Longrightarrow>
    ps = map snd (take d es) \<Longrightarrow> (\<And>a. a \<in> set ps \<Longrightarrow> hdr a = skb_hdr (the (heap s a))) \<Longrightarrow>
    rx_frame (dmactrlflags s0 AND DMA_CTRL_RXMULTI \<noteq> 0) (uint (rxoffset s0)) (uint (rxbufsize s0)) hdr ps = Some (f, ds) \<Longrightarrow>
    \<exists>s'. dma_rx s = Some (if f = [] then 0 else hd f, s') \<and> rx_result s es d f ds s'"
proof (induction "length ps" arbitrary: s es d ps ds rule: less_induct)
  case less
  let ?B = "uint (rxbufsize s0)" and ?ro = "uint (rxoffset s0)"
  have par: "rxbufsize s = rxbufsize s0" "rxoffset s = rxoffset s0" "dmactrlflags s = dmactrlflags s0"
    using less.prems(5) by (simp_all add: rx_same_def)
  show ?case
  proof (cases ps)
    case Nil
    then have d: "d = 0 \<or> es = []" "f = []" "ds = []" using less.prems(6,8) by auto
    then have d0: "d = 0" using less.prems(3) by auto
    obtain s' where s': "dma_getnextrxp False s = Some (0, s')" "rx_holds s' es" "rx_done s' 0" "heap s' = heap s" "rx_same s s'" "rxgiants s' = rxgiants s"
      using getnextrxp_wait [OF less.prems(1)] less.prems(2) d0 by blast
    then have "dma_rx s = Some (0, s')" by (subst dma_rx.simps) simp
    then show ?thesis using s' d(2,3) d0 by (auto simp: rx_result_def)
  next
    case (Cons p qs0)
    then obtain e es1 d1 where es: "es = e # es1" "d = Suc d1" "snd e = p" "qs0 = map snd (take d1 es1)"
      using less.prems(6) by (cases es; cases d) auto
    have ed: "d1 \<le> length es1" using less.prems(3) es by simp
    obtain b where b: "heap s p = Some b" using less.prems(4) es by (auto simp: clean_bufs_def)
    have hp: "hdr p = skb_hdr b" using less.prems(7) [of p] b Cons by simp
    have fr: "rx_frame (dmactrlflags s0 AND DMA_CTRL_RXMULTI \<noteq> 0) ?ro ?B hdr (p # qs0) = Some (f, ds)"
      using less.prems(8) Cons by simp
    then have h0: "skb_hdr b \<noteq> 0" using hp by (auto split: if_splits)
    define r where "r = uint (skb_hdr b) - (?B - ?ro)"
    define qs where "qs = rx_take r ?B qs0"
    define h1 where "h1 = (heap s)(p \<mapsto> b\<lparr>skb_len := min (rxoffset s0 + ucast (skb_hdr b)) (ucast (rxbufsize s0))\<rparr>)"
    have cl: "clean_bufs (heap s) (snd e # map snd es1)" using less.prems(4) es(1) by simp
    obtain s1 where s1: "rx_holds s1 (drop (length qs) es1)" "rx_done s1 (d1 - length qs)" "rx_same s s1" "rxgiants s1 = rxgiants s"
      "heap s1 = link_bufs r ?B p h1 qs"
      "dma_rx s = (if r \<le> 0 \<or> dmactrlflags s AND DMA_CTRL_RXMULTI \<noteq> 0 then Some (p, s1)
        else case PKTFREE p s1 of None \<Rightarrow> None | Some s4 \<Rightarrow> dma_rx (s4\<lparr>rxgiants := rxgiants s4 + 1\<rparr>))"
      using rx_first [of s e es1 d1 b] less.prems(1,2) es ed cl b h0 assms par
      by (auto simp: r_def qs_def h1_def)
    obtain rest where rest: "qs0 = qs @ rest" using rx_take_prefix qs_def by blast
    have m: "map snd es1 = qs @ rest @ map snd (drop d1 es1)"
      using rest es(4) by (metis append.assoc append_take_drop_id map_append)
    then have later: "map snd (drop (length qs) es1) = rest @ map snd (drop d1 es1)"
      by (metis append_eq_conv_conj drop_map)
    have split: "map snd es = (p # qs) @ map snd (drop (length qs) es1)"
      unfolding later using m es by simp
    have restq: "map snd (take (d1 - length qs) (drop (length qs) es1)) = rest"
      using rest es(4) by (intro take_drop_append) simp
    have clq: "clean_bufs (heap s) (p # qs)" and clr: "clean_bufs (heap s) (map snd (drop (length qs) es1))"
      and dj: "set (p # qs) \<inter> set (map snd (drop (length qs) es1)) = {}"
      using less.prems(4) unfolding split clean_bufs_append by blast+
    have ch: "skb_chain (heap s1) p (p # qs)"
      unfolding s1(5) by (rule link_bufs_chain) (use clq b in \<open>auto simp: h1_def clean_bufs_def\<close>)
    have lens: "map (\<lambda>a. uint (skb_len (the (heap s1 a)))) (p # qs) = min (?ro + uint (skb_hdr b)) ?B # rx_lens r ?B qs"
      unfolding s1(5) h1_def r_def by (rule rx_lens_frame [OF clq b assms(2,1)]) (simp add: qs_def r_def)
    have oth: "a \<notin> set (p # qs) \<Longrightarrow> heap s1 a = heap s a" for a
      unfolding s1(5) using link_bufs_other [of a p qs] by (simp add: h1_def)
    show ?thesis
    proof (cases "r \<le> 0 \<or> dmactrlflags s0 AND DMA_CTRL_RXMULTI \<noteq> 0")
      case True
      have "r \<le> 0 \<Longrightarrow> qs = []" unfolding qs_def by (cases qs0) simp_all
      then have "f = p # qs" "ds = []"
        using fr True h0 hp by (auto simp: r_def qs_def Let_def split: if_splits)
      moreover have "dma_rx s = Some (p, s1)" using s1(6) True par by auto
      ultimately show ?thesis using s1 ch lens oth b par es
        by (auto simp: rx_result_def Let_def r_def)
    next
      case False
      have "drop (length qs) qs0 = rest" using rest by simp
      then obtain ds1 where ds1: "rx_frame (dmactrlflags s0 AND DMA_CTRL_RXMULTI \<noteq> 0) ?ro ?B hdr rest = Some (f, ds1)" "ds = (p # qs) # ds1"
        using fr False h0 hp by (auto simp: r_def qs_def Let_def split: if_splits)
      let ?s3 = "s1\<lparr>heap := heap_free (set (p # qs)) (heap s1)\<rparr>"
      let ?s4 = "?s3\<lparr>rxgiants := rxgiants s1 + 1\<rparr>"
      have fre: "PKTFREE p s1 = Some ?s3" by (rule PKTFREE_law [OF ch])
      have h4: "heap ?s4 a = (if a \<in> set (p # qs) then None else heap s a)" for a
        using oth [of a] by (simp add: heap_free_def)
      have "\<exists>s'. dma_rx ?s4 = Some (if f = [] then 0 else hd f, s') \<and>
        rx_result ?s4 (drop (length qs) es1) (d1 - length qs) f ds1 s'"
      proof (rule less.hyps)
        show "length rest < length ps" using Cons rest by simp
        show "rx_holds ?s4 (drop (length qs) es1)" using s1(1) by (simp add: rx_holds_def)
        show "rx_done ?s4 (d1 - length qs)" using s1(2) by (simp add: rx_done_def)
        show "d1 - length qs \<le> length (drop (length qs) es1)" using ed by simp
        show "clean_bufs (heap ?s4) (map snd (drop (length qs) es1))"
          by (rule clean_bufs_cong [OF clr]) (use dj h4 in auto)
        show "rx_same s0 ?s4" using less.prems(5) s1(3) by (simp add: rx_same_def)
        show "rest = map snd (take (d1 - length qs) (drop (length qs) es1))" by (rule restq [symmetric])
        show "hdr a = skb_hdr (the (heap ?s4 a))" if "a \<in> set rest" for a
        proof -
          have "a \<notin> set (p # qs)" using that dj later by auto
          then show ?thesis using less.prems(7) [of a] that h4 [of a] Cons rest by simp
        qed
        show "rx_frame (dmactrlflags s0 AND DMA_CTRL_RXMULTI \<noteq> 0) ?ro ?B hdr rest = Some (f, ds1)" by (rule ds1(1))
      qed
      then obtain s' where s': "dma_rx ?s4 = Some (if f = [] then 0 else hd f, s')"
        "rx_result ?s4 (drop (length qs) es1) (d1 - length qs) f ds1 s'" by blast
      obtain more where "rest = concat ds1 @ f @ more" using rx_frame_prefix [OF ds1(1)] by blast
      then have "set (p # qs) \<inter> set (concat ds1 @ f) = {}" using dj later by auto
      from rx_result_giant [OF s'(2) _ _ h4 this, of e] have "rx_result s es d f ds s'"
        using s1(3,4) es ds1(2) by (simp add: rx_same_def)
      moreover have "dma_rx s = dma_rx ?s4" using s1(6) False par fre by simp
      ultimately show ?thesis using s'(1) by auto
    qed
  qed
qed

text \<open>What the receive path relies on between two of its operations, and that receiving keeps it.\<close>

definition rx_ready :: "dma_st \<Rightarrow> (dma64dd \<times> addr) list \<Rightarrow> bool" where
  "rx_ready s es \<longleftrightarrow> rx_holds s es \<and> clean_bufs (heap s) (map snd es) \<and> (\<forall>a. mem_seq (os s) < a \<longrightarrow> heap s a = None)"

lemma rx_result_ready:
  assumes es: "rx_ready s es" and r: "rx_result s es d f ds s'" and pre: "map snd es = concat ds @ f @ rest"
  shows "rx_ready s' (drop (length (concat ds @ f)) es)"
proof -
  have later: "map snd (drop (length (concat ds @ f)) es) = rest"
    using pre by (metis append.assoc append_eq_conv_conj drop_map)
  have cl: "clean_bufs (heap s) rest" "set (concat ds @ f) \<inter> set rest = {}" "\<And>a. a \<in> set (concat ds @ f) \<Longrightarrow> a \<le> mem_seq (os s)"
    using es unfolding rx_ready_def pre append.assoc [symmetric] clean_bufs_append
    by (auto simp: clean_bufs_def not_less [symmetric]) (metis option.distinct(1))+
  have o: "os s' = os s" "\<And>a. a \<notin> set (concat ds @ f) \<Longrightarrow> heap s' a = heap s a" "rx_holds s' (drop (length (concat ds @ f)) es)"
    using r unfolding rx_result_def rx_same_def by blast+
  have "clean_bufs (heap s') rest" by (rule clean_bufs_cong [OF cl(1)]) (use o(2) cl(2) in blast)
  moreover have "heap s' a = None" if "mem_seq (os s) < a" for a
    using that o(2) [of a] cl(3) [of a] es by (auto simp: rx_ready_def)
  ultimately show ?thesis using o later by (simp add: rx_ready_def)
qed

end
