(* ===== verification/Dma_Fill_Laws.thy ===== *)
theory Dma_Fill_Laws
  imports Dma_Rx_Laws
begin

text \<open>
  Posting receive buffers: which entries the ring gets, how many when memory runs short, and that every
  buffer posted is fresh and empty.
\<close>

section \<open>The buffers\<close>

definition grants :: "osl \<Rightarrow> nat \<Rightarrow> nat" where
  "grants o1 n = length (takeWhile (mem_ok o1) [mem_seq o1..<mem_seq o1 + n])"

lemma grants_0 [simp]: "grants o1 0 = 0"
  by (simp add: grants_def)

lemma grants_Suc:
  "grants o1 (Suc n) = (if mem_ok o1 (mem_seq o1) then Suc (grants (o1\<lparr>mem_seq := Suc (mem_seq o1)\<rparr>) n) else 0)"
proof -
  have "[mem_seq o1..<mem_seq o1 + Suc n] = mem_seq o1 # [Suc (mem_seq o1)..<Suc (mem_seq o1) + n]"
    by (subst upt_conv_Cons) simp_all
  then show ?thesis by (simp add: grants_def)
qed

lemma grants_le: "grants o1 n \<le> n"
  using length_takeWhile_le [of "mem_ok o1" "[mem_seq o1..<mem_seq o1 + n]"] by (simp add: grants_def)

lemma grants_reliable: "mem_reliable o1 \<Longrightarrow> grants o1 n = n"
  by (simp add: grants_def mem_reliable_def takeWhile_eq_all_conv [THEN iffD2])

definition rx_skb :: "dma_st \<Rightarrow> (addr \<Rightarrow> u32) \<Rightarrow> u32 \<Rightarrow> addr \<Rightarrow> sk_buff" where
  "rx_skb s where_at extra a = \<lparr>skb_data = where_at a + extra, skb_len = ucast (rxbufsize s), skb_next = 0, skb_hdr = 0\<rparr>"

fun rx_new :: "(u32 \<Rightarrow> u32 \<Rightarrow> u32) \<Rightarrow> (addr \<Rightarrow> u32) \<Rightarrow> u32 \<Rightarrow> dma_st \<Rightarrow> nat \<Rightarrow> nat \<Rightarrow> nat \<Rightarrow> (dma64dd \<times> addr) list" where
  "rx_new dmap where_at extra s i q 0 = []"
| "rx_new dmap where_at extra s i q (Suc k) =
     (dma64_dd s (dmap (where_at (Suc q) + extra) (ucast (rxbufsize s)))
        (if i + 1 = unat (nrxd s) then D64_CTRL1_EOT else 0) (ucast (rxbufsize s)), Suc q) #
     rx_new dmap where_at extra s (Suc i mod unat (nrxd s)) (Suc q) k"

lemma rx_new_addrs: "map snd (rx_new dmap where_at extra s i q k) = [Suc q..<Suc q + k]"
  by (induction k arbitrary: i q) (simp_all add: upt_conv_Cons del: upt_Suc)

lemma length_rx_new [simp]: "length (rx_new dmap where_at extra s i q k) = k"
  by (induction k arbitrary: i q) simp_all

lemma rx_new_nth:
  "j < k \<Longrightarrow> i < unat (nrxd s) \<Longrightarrow> rx_new dmap where_at extra s i q k ! j =
    (dma64_dd s (dmap (where_at (q + Suc j) + extra) (ucast (rxbufsize s)))
       (if (i + j) mod unat (nrxd s) + 1 = unat (nrxd s) then D64_CTRL1_EOT else 0) (ucast (rxbufsize s)), q + Suc j)"
proof (induction k arbitrary: i q j)
  case (Suc k)
  show ?case
  proof (cases j)
    case 0
    then show ?thesis using Suc.prems(2) by simp
  next
    case (Suc j')
    have "(Suc i mod unat (nrxd s) + j') mod unat (nrxd s) = (i + j) mod unat (nrxd s)"
      using Suc by (simp add: mod_add_left_eq)
    moreover have "Suc i mod unat (nrxd s) < unat (nrxd s)" using Suc.prems(2) by simp
    ultimately show ?thesis using Suc Suc.IH [of j' "Suc i mod unat (nrxd s)" "Suc q"] Suc.prems by simp
  qed
qed simp

lemma rx_params [simp]:
  "dma64_dd (s\<lparr>os := o1\<rparr>) = dma64_dd s" "dma64_dd (s\<lparr>heap := h\<rparr>) = dma64_dd s" "dma64_dd (s\<lparr>rxmaps := m\<rparr>) = dma64_dd s"
  "dma64_dd (s\<lparr>rxp := rp\<rparr>) = dma64_dd s" "dma64_dd (s\<lparr>rxd64 := rg\<rparr>) = dma64_dd s"
  "rx_skb (s\<lparr>os := o1\<rparr>) = rx_skb s" "rx_skb (s\<lparr>heap := h\<rparr>) = rx_skb s" "rx_skb (s\<lparr>rxmaps := m\<rparr>) = rx_skb s"
  "rx_skb (s\<lparr>rxp := rp\<rparr>) = rx_skb s" "rx_skb (s\<lparr>rxd64 := rg\<rparr>) = rx_skb s"
  "NEXTRXD (s\<lparr>os := o1\<rparr>) = NEXTRXD s" "NEXTRXD (s\<lparr>heap := h\<rparr>) = NEXTRXD s" "NEXTRXD (s\<lparr>rxmaps := m\<rparr>) = NEXTRXD s"
  by (simp_all add: fun_eq_iff dma64_dd_def rx_skb_def NEXTRXD_def RXD_def Let_def)

lemma rx_new_params [simp]:
  "rx_new dmap w e (s\<lparr>os := o1\<rparr>) i q k = rx_new dmap w e s i q k" "rx_new dmap w e (s\<lparr>heap := h\<rparr>) i q k = rx_new dmap w e s i q k"
  "rx_new dmap w e (s\<lparr>rxmaps := m\<rparr>) i q k = rx_new dmap w e s i q k" "rx_new dmap w e (s\<lparr>rxp := rp\<rparr>) i q k = rx_new dmap w e s i q k"
  "rx_new dmap w e (s\<lparr>rxd64 := rg\<rparr>) i q k = rx_new dmap w e s i q k"
  by (induction k arbitrary: i q) simp_all

section \<open>The loop\<close>

definition rx_conf :: "dma_st \<Rightarrow> dma_st \<Rightarrow> bool" where
  "rx_conf s s' \<longleftrightarrow> nrxd s' = nrxd s \<and> rxbufsize s' = rxbufsize s \<and> rxoffset s' = rxoffset s \<and>
     rcvptrbase s' = rcvptrbase s \<and> dmactrlflags s' = dmactrlflags s"

definition fill_frame :: "dma_st \<Rightarrow> dma_st \<Rightarrow> bool" where
  "fill_frame s s' \<longleftrightarrow> rx_conf s s' \<and> rxin s' = rxin s \<and> mem_ok (os s') = mem_ok (os s) \<and> nrxpost s' = nrxpost s \<and>
     (d64rxregs s \<noteq> None \<longrightarrow> d64rxregs s' \<noteq> None) \<and> map_option ptr (d64rxregs s') = map_option ptr (d64rxregs s) \<and>
     rxgiants s' = rxgiants s"

lemma fill_frame_trans: "fill_frame s s1 \<Longrightarrow> fill_frame s1 s2 \<Longrightarrow> fill_frame s s2"
  by (simp add: fill_frame_def rx_conf_def)

lemma rxfill_loop_law:
  assumes "ring_holds (nrxd s) (rxin s) i (rxd64 s) (rxp s) es" "length es + n < unat (nrxd s)"
    "dmactrlflags s AND DMA_CTRL_USB_WAR = 0" "unat (rxbufsize s) + unat extra < 2 ^ 32" "d64rxregs s \<noteq> None"
    "k = grants (os s) n" "q = mem_seq (os s)"
  shows "\<exists>e i' s'. rxfill_loop dmap where_at n first extra i s = Some (e, i', s') \<and> fill_frame s s' \<and>
    ring_holds (nrxd s) (rxin s) i' (rxd64 s') (rxp s') (es @ rx_new dmap where_at extra s (unat i) q k) \<and>
    heap s' = (\<lambda>a. if q < a \<and> a \<le> q + k then Some (rx_skb s where_at extra a) else heap s a) \<and>
    q + k \<le> mem_seq (os s') \<and> rxnobuf s' = rxnobuf s + (if k < n then 1 else 0) \<and> (e \<longrightarrow> first \<and> k = 0 \<and> 0 < n)"
  using assms
proof (induction n arbitrary: s i es first k q)
  case 0
  then show ?case by (intro exI [of _ False] exI [of _ i] exI [of _ s]) (auto simp: fill_frame_def rx_conf_def fun_eq_iff)
next
  case (Suc n)
  have rs: "ring_size (nrxd s)" "unat i < unat (nrxd s)" "length (rxd64 s) = unat (nrxd s)" "length (rxp s) = unat (nrxd s)"
    using Suc.prems(1) ring_holds_ends [OF Suc.prems(1)] by (simp_all add: ring_holds_def)
  let ?o = "(os s)\<lparr>mem_seq := Suc (mem_seq (os s))\<rparr>"
  show ?case
  proof (cases "mem_ok (os s) (mem_seq (os s))")
    case False
    then have k: "k = 0" using Suc.prems(6) by (simp add: grants_Suc)
    have get: "PKTGET where_at l s = (0, s\<lparr>os := ?o\<rparr>)" for l using False by (simp add: PKTGET_def MALLOC_def)
    obtain r where r: "d64rxregs s = Some r" using Suc.prems(5) by auto
    have idle: "\<exists>b s2. dma64_rxidle (s\<lparr>os := ?o\<rparr>) = Some (b, s2) \<and> s2 = s\<lparr>os := ?o, d64rxregs := d64rxregs s2\<rparr> \<and>
        d64rxregs s2 \<noteq> None \<and> map_option ptr (d64rxregs s2) = Some (ptr r)"
      using rs(2) r by (auto simp: dma64_rxidle_def R_status0_def R_ptr_def tick_regs_def)
    obtain b s2 where s2: "dma64_rxidle (s\<lparr>os := ?o\<rparr>) = Some (b, s2)" "s2 = s\<lparr>os := ?o, d64rxregs := d64rxregs s2\<rparr>"
      "d64rxregs s2 \<noteq> None" "map_option ptr (d64rxregs s2) = Some (ptr r)" using idle by blast
    let ?s2 = "if first then s2 else s\<lparr>os := ?o\<rparr>"
    let ?s3 = "?s2\<lparr>rxnobuf := rxnobuf ?s2 + 1\<rparr>"
    have run: "rxfill_loop dmap where_at (Suc n) first extra i s = Some (first \<and> b, i, ?s3)"
      using get s2(1) by (simp add: Let_def split: prod.splits)
    have f: "fill_frame s ?s3" "rxd64 ?s3 = rxd64 s" "rxp ?s3 = rxp s" "heap ?s3 = heap s" "mem_seq (os ?s3) = Suc (mem_seq (os s))"
      "rxnobuf ?s3 = rxnobuf s + 1"
      using s2(3,4) r by (subst s2(2), simp add: fill_frame_def rx_conf_def)+
    show ?thesis
      by (rule exI [of _ "first \<and> b"], rule exI [of _ i], rule exI [of _ ?s3])
        (use run f k Suc.prems(1,7) in \<open>auto simp: fun_eq_iff\<close>)
  next
    case True
    let ?p = "Suc (mem_seq (os s))"
    let ?sk = "rx_skb s where_at extra ?p"
    let ?pa = "dmap (where_at ?p + extra) (ucast (rxbufsize s))"
    let ?dd = "dma64_dd s ?pa (if unat i + 1 = unat (nrxd s) then D64_CTRL1_EOT else 0) (ucast (rxbufsize s))"
    let ?m = "rxmaps s @ [(?pa, ucast (rxbufsize s))]"
    let ?s = "s\<lparr>os := ?o, heap := (heap s)(?p \<mapsto> ?sk), rxmaps := ?m, rxp := (rxp s)[unat i := ?p], rxd64 := (rxd64 s)[unat i := ?dd]\<rparr>"
    have ov: "\<not> ucast (rxbufsize s) + extra < extra"
      using Suc.prems(4) by (simp add: word_less_nat_alt unat_word_ariths)
    have step: "rxfill_loop dmap where_at (Suc n) first extra i s = rxfill_loop dmap where_at n False extra (NEXTRXD s i) ?s"
      using True rs(2-4) ov Suc.prems(3)
      by (simp add: PKTGET_def MALLOC_def PKTPULL_def rx_skb_def dma64_dd_upd_def wr_def Let_def)
    have nx: "unat (NEXTRXD s i) = Suc (unat i) mod unat (nrxd s)" by (rule rx_next_index [OF rs(1)])
    have push: "ring_holds (nrxd ?s) (rxin ?s) (NEXTRXD s i) (rxd64 ?s) (rxp ?s) (es @ [(?dd, ?p)])"
      using ring_holds_push [OF Suc.prems(1) _ nx, of ?dd ?p] Suc.prems(2) by simp
    have k: "k = Suc (grants ?o n)" using Suc.prems(6) True by (simp add: grants_Suc)
    have "\<exists>e i' s'. rxfill_loop dmap where_at n False extra (NEXTRXD s i) ?s = Some (e, i', s') \<and> fill_frame ?s s' \<and>
      ring_holds (nrxd ?s) (rxin ?s) i' (rxd64 s') (rxp s')
        ((es @ [(?dd, ?p)]) @ rx_new dmap where_at extra ?s (unat (NEXTRXD s i)) ?p (grants ?o n)) \<and>
      heap s' = (\<lambda>a. if ?p < a \<and> a \<le> ?p + grants ?o n then Some (rx_skb ?s where_at extra a) else heap ?s a) \<and>
      ?p + grants ?o n \<le> mem_seq (os s') \<and> rxnobuf s' = rxnobuf ?s + (if grants ?o n < n then 1 else 0) \<and>
      (e \<longrightarrow> False \<and> grants ?o n = 0 \<and> 0 < n)"
      by (rule Suc.IH [OF push]) (use Suc.prems in simp_all)
    then obtain e i' s' where r: "rxfill_loop dmap where_at n False extra (NEXTRXD s i) ?s = Some (e, i', s')" "fill_frame ?s s'"
      "ring_holds (nrxd ?s) (rxin ?s) i' (rxd64 s') (rxp s')
        ((es @ [(?dd, ?p)]) @ rx_new dmap where_at extra ?s (unat (NEXTRXD s i)) ?p (grants ?o n))"
      "heap s' = (\<lambda>a. if ?p < a \<and> a \<le> ?p + grants ?o n then Some (rx_skb ?s where_at extra a) else heap ?s a)"
      "?p + grants ?o n \<le> mem_seq (os s')" "rxnobuf s' = rxnobuf ?s + (if grants ?o n < n then 1 else 0)" "\<not> e"
      by (elim exE conjE) blast
    have s': "rxfill_loop dmap where_at n False extra (NEXTRXD s i) ?s = Some (False, i', s')" using r(1,7) by simp
    have ring: "ring_holds (nrxd s) (rxin s) i' (rxd64 s') (rxp s')
        ((es @ [(?dd, ?p)]) @ rx_new dmap where_at extra s (unat (NEXTRXD s i)) ?p (grants ?o n))"
      using r(3) by simp
    have nobuf: "rxnobuf s' = rxnobuf s + (if grants ?o n < n then 1 else 0)" using r(6) by simp
    have "heap s' a = (if q < a \<and> a \<le> q + k then Some (rx_skb s where_at extra a) else heap s a)" for a
      unfolding r(4) k Suc.prems(7) rx_params by auto
    then have hp: "heap s' = (\<lambda>a. if q < a \<and> a \<le> q + k then Some (rx_skb s where_at extra a) else heap s a)" ..
    have ff: "fill_frame s s'" using r(2) by (simp add: fill_frame_def rx_conf_def)
    have "(es @ [(?dd, ?p)]) @ rx_new dmap where_at extra s (unat (NEXTRXD s i)) ?p (grants ?o n) =
        es @ rx_new dmap where_at extra s (unat i) q k"
      unfolding k Suc.prems(7) by (simp add: nx)
    with ring have ring': "ring_holds (nrxd s) (rxin s) i' (rxd64 s') (rxp s') (es @ rx_new dmap where_at extra s (unat i) q k)"
      by (simp only:)
    have "q + k \<le> mem_seq (os s')" "rxnobuf s' = rxnobuf s + (if k < Suc n then 1 else 0)"
      using r(5) nobuf unfolding k Suc.prems(7) by simp_all
    then show ?thesis using s' step ff ring' hp
      by - (rule exI [of _ False], rule exI [of _ i'], rule exI [of _ s'], simp only: simp_thms)
  qed
qed

section \<open>Filling the ring\<close>

definition rx_extra :: "dma_st \<Rightarrow> u32" where
  "rx_extra s = (if BCMEXTRAHDROOM < rxbufsize s then rxextrahdrroom s else 0)"

lemma rxfill_law:
  assumes es: "rx_ready s es" and post: "length es \<le> unat (nrxpost s)" "unat (nrxpost s) < unat (nrxd s)"
    and war: "dmactrlflags s AND DMA_CTRL_USB_WAR = 0" and ov: "unat (rxbufsize s) + unat (rx_extra s) < 2 ^ 32"
    and rg: "d64rxregs s \<noteq> None"
  defines "k \<equiv> grants (os s) (unat (nrxpost s) - length es)"
  shows "\<exists>e s'. dma_rxfill dmap where_at s = Some (e, s') \<and>
    rx_ready s' (es @ rx_new dmap where_at (rx_extra s) s (unat (rxout s)) (mem_seq (os s)) k) \<and>
    (\<forall>a. heap s' a = (if mem_seq (os s) < a \<and> a \<le> mem_seq (os s) + k then Some (rx_skb s where_at (rx_extra s) a) else heap s a)) \<and>
    rxnobuf s' = rxnobuf s + (if k < unat (nrxpost s) - length es then 1 else 0) \<and>
    map_option ptr (d64rxregs s') = Some (rcvptrbase s + 16 * ucast (rxout s')) \<and>
    rx_conf s s' \<and> rxgiants s' = rxgiants s \<and> mem_ok (os s') = mem_ok (os s) \<and> nrxpost s' = nrxpost s \<and>
    (e \<longrightarrow> k = 0 \<and> length es < unat (nrxpost s))"
proof -
  have rh: "rx_holds s es" "clean_bufs (heap s) (map snd es)" "\<And>a. mem_seq (os s) < a \<Longrightarrow> heap s a = None"
    using es by (simp_all add: rx_ready_def)
  have ring: "ring_holds (nrxd s) (rxin s) (rxout s) (rxd64 s) (rxp s) es" "0 \<notin> snd ` set es" using rh(1) by (simp_all add: rx_holds_def)
  let ?n = "unat (nrxpost s) - length es"
  have n: "unat (nrxpost s - NRXDACTIVE s (rxin s) (rxout s)) = ?n"
    using rx_count [OF rh(1)] post(1) by (subst unat_sub) (simp_all add: dma_rxactive_def word_le_nat_alt)
  let ?new = "rx_new dmap where_at (rx_extra s) s (unat (rxout s)) (mem_seq (os s)) k"
  have "length es + ?n < unat (nrxd s)" using post by simp
  from rxfill_loop_law [OF ring(1) this war ov rg meta_eq_to_obj_eq [OF k_def] refl, of dmap where_at True]
  obtain e i s1 where l: "rxfill_loop dmap where_at ?n True (rx_extra s) (rxout s) s = Some (e, i, s1)" "fill_frame s s1"
    "ring_holds (nrxd s) (rxin s) i (rxd64 s1) (rxp s1) (es @ ?new)"
    "heap s1 = (\<lambda>a. if mem_seq (os s) < a \<and> a \<le> mem_seq (os s) + k then Some (rx_skb s where_at (rx_extra s) a) else heap s a)"
    "mem_seq (os s) + k \<le> mem_seq (os s1)" "rxnobuf s1 = rxnobuf s + (if k < ?n then 1 else 0)" "e \<longrightarrow> k = 0 \<and> 0 < ?n"
    by blast
  obtain r where r: "d64rxregs s1 = Some r" using l(2) rg by (auto simp: fill_frame_def)
  have fr: "rx_conf s s1" "rxin s1 = rxin s" "nrxd s1 = nrxd s" "rcvptrbase s1 = rcvptrbase s" "mem_ok (os s1) = mem_ok (os s)"
    "nrxpost s1 = nrxpost s" "rxgiants s1 = rxgiants s"
    using l(2) by (simp_all add: fill_frame_def rx_conf_def)
  let ?s = "s1\<lparr>rxout := i, d64rxregs := Some (r\<lparr>ptr := rcvptrbase s + I2B (ucast i)\<rparr>)\<rparr>"
  have run: "dma_rxfill dmap where_at s = Some (e, ?s)"
    using l(1) n r fr(4) by (simp add: dma_rxfill_def rx_extra_def [symmetric] Let_def W_ptr_def upd_regs_def)
  have old: "a \<in> set (map snd es) \<Longrightarrow> a \<le> mem_seq (os s)" for a
    using rh(2,3) by (force simp: clean_bufs_def not_less [symmetric])
  have addrs: "map snd (es @ ?new) = map snd es @ [Suc (mem_seq (os s))..<Suc (mem_seq (os s)) + k]"
    by (simp add: rx_new_addrs del: upt_Suc)
  have "clean_bufs (heap s1) (map snd (es @ ?new))"
    unfolding addrs clean_bufs_append
  proof (intro conjI)
    show "clean_bufs (heap s1) (map snd es)"
      by (rule clean_bufs_cong [OF rh(2)]) (use old in \<open>force simp: l(4)\<close>)
    show "clean_bufs (heap s1) [Suc (mem_seq (os s))..<Suc (mem_seq (os s)) + k]"
      by (auto simp: clean_bufs_def l(4) rx_skb_def)
    show "set (map snd es) \<inter> set [Suc (mem_seq (os s))..<Suc (mem_seq (os s)) + k] = {}" using old by force
  qed
  moreover have "0 \<notin> snd ` set (es @ ?new)" using calculation by (auto simp: clean_bufs_def)
  moreover have "\<forall>a. mem_seq (os s1) < a \<longrightarrow> heap s1 a = None" using l(4,5) rh(3) by auto
  ultimately have "rx_ready ?s (es @ ?new)" using l(3) fr by (simp add: rx_ready_def rx_holds_def)
  moreover have "rx_conf s ?s" using fr by (simp add: rx_conf_def)
  ultimately show ?thesis using run l(4,6,7) fr
    by - (rule exI [of _ e], rule exI [of _ ?s], auto simp: I2B_def mult.commute)
qed

end
