(* ===== verification/Dma_Reset_Laws.thy ===== *)
theory Dma_Reset_Laws
  imports Dma64_Tx Dma64_Rx
begin

text \<open>
  Resetting a channel ends: the waits read the status a bounded number of times, and the answer says
  whether the channel was seen disabled in that time.
\<close>

section \<open>Waiting\<close>

definition state_at :: "dma64regs \<Rightarrow> nat \<Rightarrow> u32" where
  "state_at r k = status0 r k AND D64_XS0_XS_MASK"

definition later :: "nat \<Rightarrow> dma64regs \<Rightarrow> dma64regs" where
  "later k r = r\<lparr>reads := reads r + k\<rparr>"

lemma later_simps [simp]:
  "reads (later k r) = reads r + k" "state_at (later k r) = state_at r" "control_bits (later k r) = control_bits r"
  "control (later k r) = control r" "later k (later j r) = later (j + k) r"
  by (simp_all add: later_def state_at_def fun_eq_iff add.assoc)

lemma regs_set [simp]: "regs dir (set_regs dir r s) = Some r" "set_regs dir r (set_regs dir q s) = set_regs dir r s"
  by (cases dir; simp)+

text \<open>The wait ends at the first reading that is not busy, or after the readings the time allows.\<close>

lemma spinwait_law:
  "regs dir s = Some r \<Longrightarrow>
    \<exists>k. k \<le> countdown div 10 \<and> spinwait dir busy countdown s = Some (state_at r (reads r + k), set_regs dir (later (Suc k) r) s) \<and>
      (\<forall>j<k. busy (state_at r (reads r + j))) \<and> (busy (state_at r (reads r + k)) \<longrightarrow> k = countdown div 10)"
proof (induction countdown arbitrary: s r rule: less_induct)
  case (less n)
  let ?s1 = "set_regs dir (later 1 r) s"
  have rd: "R_status0 dir s = Some (status0 r (reads r), ?s1)"
    using less.prems by (simp add: R_status0_def tick_regs_def later_def)
  show ?case
  proof (cases "busy (state_at r (reads r)) \<and> 10 \<le> n")
    case False
    then have "spinwait dir busy n s = Some (state_at r (reads r + 0), set_regs dir (later (Suc 0) r) s)"
      by (subst spinwait.simps) (auto simp: rd Let_def state_at_def)
    then show ?thesis using False by (intro exI [of _ 0]) auto
  next
    case True
    then have step: "spinwait dir busy n s = spinwait dir busy (n - 10) ?s1"
      by (subst spinwait.simps) (simp add: rd Let_def state_at_def)
    have n: "n div 10 = Suc ((n - 10) div 10)" using True by (simp add: le_div_geq)
    obtain k where k: "k \<le> (n - 10) div 10"
      "spinwait dir busy (n - 10) ?s1 = Some (state_at r (reads r + Suc k), set_regs dir (later (Suc (Suc k)) r) s)"
      "\<forall>j<k. busy (state_at r (reads r + Suc j))" "busy (state_at r (reads r + Suc k)) \<longrightarrow> k = (n - 10) div 10"
      using less.IH [of "n - 10" ?s1 "later 1 r"] True by auto
    have "\<forall>j<Suc k. busy (state_at r (reads r + j))"
      using True k(3) by (auto simp: less_Suc_eq_0_disj)
    then show ?thesis unfolding step n using k by (intro exI [of _ "Suc k"]) simp
  qed
qed

section \<open>Waiting for the channel to be disabled\<close>

definition seen_disabled :: "dma64regs \<Rightarrow> nat \<Rightarrow> bool" where
  "seen_disabled r n \<longleftrightarrow> (\<exists>k\<le>n. state_at r (reads r + k) = D64_XS0_XS_DISABLED)"

lemma wait_disabled:
  assumes "regs dir s = Some r"
  shows "\<exists>k st. k \<le> 1000 \<and> SPINWAIT dir (\<lambda>st. st \<noteq> D64_XS0_XS_DISABLED) 10000 s = Some (st, set_regs dir (later (Suc k) r) s) \<and>
    (st = D64_XS0_XS_DISABLED \<longleftrightarrow> seen_disabled r 1000)"
proof -
  have t: "(10000 + 9) div 10 = (1000 :: nat)" by simp
  obtain k where k: "k \<le> 1000"
    "SPINWAIT dir (\<lambda>st. st \<noteq> D64_XS0_XS_DISABLED) 10000 s = Some (state_at r (reads r + k), set_regs dir (later (Suc k) r) s)"
    "\<forall>j<k. state_at r (reads r + j) \<noteq> D64_XS0_XS_DISABLED"
    "state_at r (reads r + k) \<noteq> D64_XS0_XS_DISABLED \<longrightarrow> k = 1000"
    using spinwait_law [OF assms, of "10000 + 9" "\<lambda>st. st \<noteq> D64_XS0_XS_DISABLED"] unfolding SPINWAIT_def t by blast
  have "state_at r (reads r + k) = D64_XS0_XS_DISABLED \<longleftrightarrow> seen_disabled r 1000"
    unfolding seen_disabled_def using k(1,3,4) by (metis le_neq_implies_less)
  then show ?thesis using k(1,2) by blast
qed

lemma W_control_law: "regs dir s = Some r \<Longrightarrow> W_control dir v s = Some (set_regs dir (r\<lparr>control := v AND control_bits r\<rparr>) s)"
  by (simp add: W_control_def upd_regs_def)

lemma control_later: "(later k r)\<lparr>control := c\<rparr> = later k (r\<lparr>control := c\<rparr>)"
  by (simp add: later_def)

lemma seen_control [simp]: "seen_disabled (r\<lparr>control := c\<rparr>) n = seen_disabled r n"
  by (simp add: seen_disabled_def state_at_def)

lemma rxreset_law:
  assumes "nrxd s \<noteq> 0" "d64rxregs s = Some r"
  shows "\<exists>k\<le>1000. dma64_rxreset s = Some (seen_disabled r 1000, s\<lparr>d64rxregs := Some ((later (Suc k) r)\<lparr>control := 0\<rparr>)\<rparr>)"
proof -
  let ?r = "r\<lparr>control := 0\<rparr>"
  have w: "W_control DMA_RX 0 s = Some (set_regs DMA_RX ?r s)" using W_control_law [of DMA_RX s r 0] assms(2) by simp
  obtain k st where "k \<le> 1000"
    "SPINWAIT DMA_RX (\<lambda>st. st \<noteq> D64_XS0_XS_DISABLED) 10000 (set_regs DMA_RX ?r s) =
      Some (st, set_regs DMA_RX (later (Suc k) ?r) (set_regs DMA_RX ?r s))" "st = D64_XS0_XS_DISABLED \<longleftrightarrow> seen_disabled ?r 1000"
    using wait_disabled [of DMA_RX "set_regs DMA_RX ?r s" ?r] by auto
  then show ?thesis using assms(1) unfolding dma64_rxreset_def w by (intro exI [of _ k]) (auto simp: control_later)
qed

lemma txreset_law:
  assumes "ntxd s \<noteq> 0" "d64txregs s = Some r"
  shows "\<exists>j k. j \<le> 1000 \<and> k \<le> 1000 \<and>
    dma64_txreset s = Some (seen_disabled (later (Suc j) r) 1000, s\<lparr>d64txregs := Some ((later (Suc j + Suc k) r)\<lparr>control := 0\<rparr>)\<rparr>) \<and>
    (j = 1000 \<or> state_at r (reads r + j) \<in> {D64_XS0_XS_DISABLED, D64_XS0_XS_IDLE, D64_XS0_XS_STOPPED})"
proof -
  let ?busy = "\<lambda>st. st \<noteq> D64_XS0_XS_DISABLED \<and> st \<noteq> D64_XS0_XS_IDLE \<and> st \<noteq> D64_XS0_XS_STOPPED"
  let ?r1 = "r\<lparr>control := D64_XC_SE AND control_bits r\<rparr>"
  let ?s1 = "set_regs DMA_TX ?r1 s"
  have w1: "W_control DMA_TX D64_XC_SE s = Some ?s1" using W_control_law [of DMA_TX s r] assms(2) by simp
  have t: "(10000 + 9) div 10 = (1000 :: nat)" by simp
  obtain j where j: "j \<le> 1000"
    "SPINWAIT DMA_TX ?busy 10000 ?s1 = Some (state_at ?r1 (reads ?r1 + j), set_regs DMA_TX (later (Suc j) ?r1) ?s1)"
    "?busy (state_at ?r1 (reads ?r1 + j)) \<longrightarrow> j = 1000"
    using spinwait_law [of DMA_TX ?s1 ?r1 "10000 + 9" ?busy] unfolding SPINWAIT_def t by auto
  let ?r2 = "(later (Suc j) r)\<lparr>control := 0\<rparr>"
  let ?s2 = "set_regs DMA_TX ?r2 s"
  have w2: "W_control DMA_TX 0 (set_regs DMA_TX (later (Suc j) ?r1) s) = Some ?s2"
    by (subst W_control_law [of DMA_TX _ "later (Suc j) ?r1"]) (simp_all add: later_def)
  obtain k st where k: "k \<le> 1000"
    "SPINWAIT DMA_TX (\<lambda>st. st \<noteq> D64_XS0_XS_DISABLED) 10000 ?s2 = Some (st, set_regs DMA_TX (later (Suc k) ?r2) ?s2)"
    "st = D64_XS0_XS_DISABLED \<longleftrightarrow> seen_disabled ?r2 1000"
    using wait_disabled [of DMA_TX ?s2 ?r2] by auto
  have c: "later (Suc k) ?r2 = (later (Suc j + Suc k) r)\<lparr>control := 0\<rparr>" by (simp add: later_def)
  have st: "state_at ?r1 = state_at r" "reads ?r1 = reads r" by (simp_all add: state_at_def fun_eq_iff)
  have "dma64_txreset s = Some (st = D64_XS0_XS_DISABLED, set_regs DMA_TX (later (Suc k) ?r2) ?s2)"
    unfolding dma64_txreset_def w1 using assms(1) by (simp add: j(2) w2 k(2) del: set_regs.simps)
  then show ?thesis using j(1,3) k(1,3) c unfolding st by (intro exI [of _ j] exI [of _ k]) auto
qed

end
