(* ===== verification/Dma_Properties.thy ===== *)
theory Dma_Properties
  imports Dma_Tx_Queue Dma_Rotate_Laws Dma_Fill_Laws Dma_Reset_Laws
begin

text \<open>
  The properties of the DMA rings: transmitting is a queue of packets, receiving puts frames together
  from the buffers posted, and the descriptors the device sees are well formed.
\<close>

section \<open>An engine\<close>

text \<open>Two rings of four descriptors, four buffers to send, and a device that answers 0.\<close>

definition quiet_regs :: dma64regs where
  "quiet_regs = \<lparr>control = 0, ptr = 0, reg_addrlow = 0, reg_addrhigh = 0, status0 = \<lambda>_. 0, status1 = \<lambda>_. 0, reads = 0,
     control_bits = 0xffffffff, addrlow_bits = 0xffffffff\<rparr>"

definition blank_dd :: dma64dd where
  "blank_dd = \<lparr>ctrl1 = 0, ctrl2 = 0, addrlow = 0, addrhigh = 0\<rparr>"

definition eth :: dma_st where
  "eth = \<lparr>txavail = 3, dmactrlflags = DMA_CTRL_PEN, rxgiants = 0, rxnobuf = 0, txnobuf = 0, addrext = False,
     d64txregs = Some quiet_regs, d64rxregs = Some quiet_regs,
     txd64 = replicate 4 blank_dd, rxd64 = replicate 4 blank_dd,
     ntxd = 4, txin = 1, txout = 1, txp = replicate 4 0, txdpa = 0x1000, xmtptrbase = 0,
     nrxd = 4, rxin = 0, rxout = 0, rxp = replicate 4 0, rxdpa = 0x2000, rcvptrbase = 0,
     rxbufsize = 100, rxextrahdrroom = 0, nrxpost = 2, rxoffset = 30,
     ddoffsetlow = 0, ddoffsethigh = 0, dataoffsetlow = 0, dataoffsethigh = 0, aligndesc_4k = True,
     heap = [10 \<mapsto> \<lparr>skb_data = 0x100, skb_len = 60, skb_next = 11, skb_hdr = 0\<rparr>,
       11 \<mapsto> \<lparr>skb_data = 0x200, skb_len = 40, skb_next = 0, skb_hdr = 0\<rparr>,
       12 \<mapsto> \<lparr>skb_data = 0x300, skb_len = 50, skb_next = 0, skb_hdr = 0\<rparr>,
       13 \<mapsto> \<lparr>skb_data = 0x400, skb_len = 0, skb_next = 0, skb_hdr = 0\<rparr>],
     os = \<lparr>mem_seq = 20, mem_ok = \<lambda>_. True\<rparr>, txmaps = [], rxmaps = []\<rparr>"

definition same_addr :: "u32 \<Rightarrow> u32 \<Rightarrow> u32" where
  "same_addr a l = a"

lemma ring_size_4: "ring_size 4"
  unfolding ring_size_def by (rule exI [of _ 2]) simp

lemma eth_holds: "tx_holds eth []" "rx_holds eth []" "d64txregs eth = Some quiet_regs" "d64rxregs eth = Some quiet_regs" "ntxd eth = 4"
  by (simp_all add: tx_holds_def rx_holds_def ring_holds_def eth_def ring_size_4)

lemma eth_chain: "skb_chain (heap eth) 10 [10, 11]" "skb_chain (heap eth) 12 [12]" "skb_chain (heap eth) 13 [13]"
  by (simp_all add: skb_chain_def eth_def)

lemma eth_len: "mem_len (heap eth) 10 = 60" "mem_len (heap eth) 11 = 40" "mem_len (heap eth) 12 = 50" "mem_len (heap eth) 13 = 0"
  by (simp_all add: mem_len_def eth_def)

lemma eth_buf: "buf_len eth 10 = 60" "buf_len eth 11 = 40" "buf_len eth 12 = 50" "buf_len eth 13 = 0"
  using eth_len by (simp_all add: mem_len_buf)

section \<open>Transmitting\<close>

text \<open>
  C3: the transmit ring with its operations is a queue of packets: posting puts a packet at the end or
  fails when its buffers do not fit and frees them, taking gives the oldest packet whose last descriptor
  the device is past. In any order of these, none is an access outside the rings, and what was handed
  back followed by what is still queued is what was queued before followed by what was accepted, in
  order: no packet is lost and none comes twice.
\<close>

theorem tx_ring_is_queue:
  assumes "tx_rel s a" "all_ok tx_spec tx_good xs a"
  shows "\<exists>s' rs. run_steps (tx_step dmap) xs s = Some (s', rs) \<and> rs = snd (run_spec tx_spec xs a) \<and>
    tx_rel s' (fst (run_spec tx_spec xs a)) \<and>
    handed_back rs @ packets (slots (fst (run_spec tx_spec xs a))) = packets (slots a) @ accepted xs rs"
  using tx_sim.run_sim [OF assms] queue_conserved [OF assms(2), of "fst (run_spec tx_spec xs a)" "snd (run_spec tx_spec xs a)"] by auto

definition eth_queue :: tx_spec_st where
  "eth_queue = \<lparr>room = 3, slots = [], mem = heap eth\<rparr>"

lemma eth_rel: "tx_rel eth eth_queue"
  using eth_holds by (auto simp: tx_rel_def eth_queue_def)

lemma slot_next_2: "slot_next 2 (p # q # ps) = (if p \<noteq> 0 then (p, q # ps) else if q \<noteq> 0 then (q, ps) else (0, ps))"
  by (simp add: numeral_2_eq_2)

lemma tx_ring_is_queue_witness:
  "\<exists>s'. run_steps (tx_step same_addr) [Post [10, 11], Take 1, Post [12], Take 2, Take 1] eth =
    Some (s', [Posted 0, Taken 0, Posted 0, Taken 10, Taken 12])"
proof -
  let ?xs = "[Post [10, 11], Take 1, Post [12], Take 2, Take 1]"
  have ok: "all_ok tx_spec tx_good ?xs eth_queue"
    by (simp add: eth_queue_def eth_chain eth_len slot_next_2)
  have "snd (run_spec tx_spec ?xs eth_queue) = [Posted 0, Taken 0, Posted 0, Taken 10, Taken 12]"
    by (simp add: eth_queue_def eth_len slot_next_2)
  then show ?thesis using tx_ring_is_queue [OF eth_rel ok, of same_addr] by auto
qed

text \<open>
  C13: a packet whose buffers fit, the first not empty, is posted as one descriptor for every buffer that
  is not empty, in order, each describing its buffer: the bus address in the two address words and the address extension bits,
  the length in the count field; the first alone has the
  start flag, the last alone the end and interrupt flags, the one at the last place of the ring the
  end-of-table flag. The packet stands at the last of them, every buffer has its mapping, and the
  device is given the index behind the last.
\<close>

theorem packet_descriptors:
  assumes "tx_holds s es" "skb_chain (heap s) (hd bs) bs" "bs \<noteq> []" "buf_len s (hd bs) \<noteq> 0"
    "fits (unat (ntxd s) - 1 - length es) (map (buf_len s) bs)" "d64txregs s = Some r"
  shows "\<exists>s' new. dma64_txfast dmap (hd bs) True s = Some (0, s') \<and> tx_holds s' (es @ new) \<and>
    length new = length (sent_bufs s bs) \<and>
    (\<forall>j<length new. let a = sent_bufs s bs ! j in
       describes s (fst (new ! j)) (buf_pa dmap s a) (frame_flags s (length new) j) (buf_len s a) \<and>
       snd (new ! j) = (if Suc j = length new then hd bs else 0)) \<and>
    txmaps s' = txmaps s @ map (\<lambda>a. (buf_pa dmap s a, buf_len s a)) (sent_bufs s bs) \<and>
    d64txregs s' = Some (r\<lparr>ptr := xmtptrbase s + 16 * ucast (txout s')\<rparr>)"
proof -
  have some: "\<exists>a\<in>set bs. buf_len s a \<noteq> 0" using assms(3,4) by (intro bexI [of _ "hd bs"]) simp_all
  from txfast_law [OF assms(1,2) some assms(5), of True dmap] assms(6) obtain s' where s':
    "dma64_txfast dmap (hd bs) True s = Some (0, s')" "tx_holds s' (es @ tx_entries dmap s (hd bs) bs)"
    "txmaps s' = txmaps s @ tx_new_maps dmap s bs" "d64txregs s' = Some (r\<lparr>ptr := xmtptrbase s + 16 * ucast (txout s')\<rparr>)"
    by auto
  have d: "distinct bs" using assms(2) by (simp add: skb_chain_def)
  have o: "unat (txout s) < unat (ntxd s)" using assms(1) by (auto simp: tx_holds_def dest: ring_holds_ends)
  have k: "0 < length (sent_bufs s bs)" using assms(3,4) by (cases bs) (simp_all add: sent_bufs_def)
  have l: "length (tx_entries dmap s (hd bs) bs) = length (sent_bufs s bs)"
    using k by (simp add: tx_entries_def Let_def length_tx_dds sent_bufs_def)
  have "tx_entries dmap s (hd bs) bs ! j = (dma64_dd s (buf_pa dmap s (sent_bufs s bs ! j))
      (frame_flags s (length (sent_bufs s bs)) j) (buf_len s (sent_bufs s bs ! j)), if Suc j = length (sent_bufs s bs) then hd bs else 0)"
    if "j < length (sent_bufs s bs)" for j
    by (rule tx_entries_nth [OF d assms(3,4) that o refl])
  then show ?thesis using s' l
    by (intro exI [of _ s'] exI [of _ "tx_entries dmap s (hd bs) bs"])
      (simp add: Let_def tx_new_maps_def sent_bufs_def dd_describes)
qed

text \<open>An engine on a PCI bus, whose window to memory is at \<open>0x40000000\<close>, sends a buffer above the first gigabyte.\<close>

definition pci_eth :: dma_st where
  "pci_eth = eth\<lparr>dataoffsetlow := 0x40000000, addrext := True\<rparr>"

definition above_1g :: "u32 \<Rightarrow> u32 \<Rightarrow> u32" where
  "above_1g a l = a + 0x80000000"

lemma packet_descriptors_witness:
  "\<exists>s' e1 e2. dma64_txfast above_1g 10 True pci_eth = Some (0, s') \<and> tx_holds s' [e1, e2] \<and> snd e2 = 10 \<and>
    addrlow (fst e1) = 0x40000100 \<and> addrhigh (fst e1) = 0 \<and> take_bit 2 (drop_bit 16 (ctrl2 (fst e1))) = 2 \<and>
    take_bit 15 (ctrl2 (fst e1)) = 60 \<and> ctrl1 (fst e1) = D64_CTRL1_SOF \<and>
    addrlow (fst e2) = 0x40000200 \<and> ctrl1 (fst e2) = D64_CTRL1_IOC OR D64_CTRL1_EOF"
proof -
  have same: "buf_len pci_eth = buf_len eth" "frame_flags pci_eth = frame_flags eth" "heap pci_eth = heap eth"
      "ntxd pci_eth = ntxd eth" "d64txregs pci_eth = d64txregs eth"
    by (simp_all add: pci_eth_def fun_eq_iff buf_len_def frame_flags_def)
  have h: "tx_holds pci_eth []" using eth_holds(1) by (simp add: tx_holds_def pci_eth_def)
  have b: "sent_bufs pci_eth [10, 11] = [10, 11]" by (simp add: sent_bufs_def eth_buf same)
  have pa: "buf_pa above_1g pci_eth 10 = 0x80000100" "buf_pa above_1g pci_eth 11 = 0x80000200"
    by (simp_all add: buf_pa_def pci_eth_def eth_def above_1g_def)
  have fl: "frame_flags eth (Suc (Suc 0)) 0 = D64_CTRL1_SOF" "frame_flags eth (Suc (Suc 0)) (Suc 0) = D64_CTRL1_IOC OR D64_CTRL1_EOF"
    by (simp_all add: frame_flags_def eth_def)
  have fits: "fits (unat (ntxd pci_eth) - 1 - length []) (map (buf_len pci_eth) [10, 11])"
    using eth_holds by (simp add: eth_buf same)
  obtain s' new where n: "dma64_txfast above_1g 10 True pci_eth = Some (0, s')" "tx_holds s' ([] @ new)" "length new = length [10 :: addr, 11]"
    "\<forall>j<length new. let a = [10, 11] ! j in
       describes pci_eth (fst (new ! j)) (buf_pa above_1g pci_eth a) (frame_flags eth (length new) j) (buf_len eth a) \<and>
       snd (new ! j) = (if Suc j = length new then 10 else 0)"
    using packet_descriptors [of pci_eth "[]" "[10, 11]" quiet_regs above_1g, unfolded list.sel b same, OF h eth_chain(1) _ _ fits [unfolded same] eth_holds(3)]
      eth_buf(1) by auto
  from n(3) obtain e1 e2 where new: "new = [e1, e2]" by (auto simp: length_Suc_conv)
  have "describes pci_eth (fst e1) 0x80000100 D64_CTRL1_SOF 60" using n(4) [rule_format, of 0] pa fl by (simp add: eth_buf new)
  moreover have "describes pci_eth (fst e2) 0x80000200 (D64_CTRL1_IOC OR D64_CTRL1_EOF) 40" "snd e2 = 10"
    using n(4) [rule_format, of 1] pa fl by (simp_all add: eth_buf new)
  moreover have "dataoffsetlow pci_eth = 0x40000000" "dataoffsethigh pci_eth = 0" by (simp_all add: pci_eth_def eth_def)
  ultimately show ?thesis using n(1,2) unfolding describes_def new by (intro exI [of _ s'] exI [of _ e1] exI [of _ e2]) simp
qed

text \<open>
  C14: rotating the ring to the descriptor the device is at, with room for that, leaves the queue of
  packets as it was: the same packets in the same order, their descriptors moved with them and the
  end-of-table flag at the last place of the ring again, the first index where the device is.
\<close>

theorem rotate_keeps_queue:
  assumes "tx_holds s es" "d64txregs s = Some q" "at = rotate_to s (status1 q (reads q))"
    "unat at = (unat (txin s) + r) mod unat (ntxd s)" "0 < r" "length es + r < unat (ntxd s)"
  shows "\<exists>s' es'. dma64_txrotate s = Some s' \<and> tx_holds s' es' \<and> map snd es' = map snd es \<and> txin s' = at \<and> heap s' = heap s \<and>
    map fst es' = map (\<lambda>t. eot_at s ((unat at + t) mod unat (ntxd s)) (fst (es ! t))) [0..<length es] \<and>
    map_option ptr (d64txregs s') = Some (xmtptrbase s + 16 * ucast (txout s'))"
proof -
  obtain s1 where w: "R_status1 DMA_TX s = Some (status1 q (reads q), s1)" "d64txregs s1 \<noteq> None"
    using assms(2) by (simp add: R_status1_def tick_regs_def)
  from txrotate_law [OF assms(1) w(1) assms(4) [unfolded assms(3)] assms(5,6)] w(2) assms(3)
  obtain s' ds where s': "dma64_txrotate s = Some s'" "tx_holds s' (zip ds (map snd es))" "length ds = length es"
    "ds = moved s r (map fst es)" "txin s' = at" "heap s' = heap s"
    "map_option ptr (d64txregs s') = Some (xmtptrbase s + 16 * ucast (txout s'))"
    by auto
  have "ds = map (\<lambda>t. eot_at s ((unat at + t) mod unat (ntxd s)) (fst (es ! t))) [0..<length es]"
  proof -
    have "place s (t + r) = (unat at + t) mod unat (ntxd s)" for t
      unfolding place_def assms(4) mod_add_left_eq by (simp add: ac_simps)
    then show ?thesis using s'(4) by (simp add: moved_def)
  qed
  then show ?thesis using s' by (intro exI [of _ s'] exI [of _ "zip ds (map snd es)"]) simp
qed

text \<open>The engine with one packet in its ring, and the device that has gone on to a place.\<close>

definition busy_eth :: "u32 \<Rightarrow> dma_st" where
  "busy_eth w = eth\<lparr>txd64 := (txd64 eth)[1 := blank_dd\<lparr>addrlow := 0x300\<rparr>], txp := (txp eth)[1 := 12], txout := 2,
     d64txregs := Some (quiet_regs\<lparr>status1 := \<lambda>_. w\<rparr>)\<rparr>"

lemma busy_eth_holds: "tx_holds (busy_eth w) [(blank_dd\<lparr>addrlow := 0x300\<rparr>, 12)]"
proof -
  have [simp]: "replicate 4 x = [x, x, x, x]" "replicate 3 x = [x, x, x]" for x :: 'x by (simp_all add: eval_nat_numeral)
  show ?thesis by (simp add: tx_holds_def ring_holds_def ring_size_4 busy_eth_def eth_def rotate1_def)
qed

lemma busy_eth_fields: "ntxd (busy_eth w) = 4" "txin (busy_eth w) = 1" "rotate_to (busy_eth 0x30) 0x30 = 3" "rotate_to (busy_eth 0x10) 0x10 = 1"
  by (simp_all add: busy_eth_def eth_def rotate_to_def B2I_def)

lemma rotate_keeps_queue_witness:
  "\<exists>s' dd. dma64_txrotate (busy_eth 0x30) = Some s' \<and> tx_holds s' [(dd, 12)] \<and> txin s' = 3 \<and> ctrl1 dd = D64_CTRL1_EOT"
proof -
  obtain s' es' where s': "dma64_txrotate (busy_eth 0x30) = Some s'" "tx_holds s' es'" "map snd es' = [12]" "txin s' = 3"
    "map fst es' = [eot_at (busy_eth 0x30) 3 (blank_dd\<lparr>addrlow := 0x300\<rparr>)]"
    using rotate_keeps_queue [OF busy_eth_holds [of "0x30"] _ refl, of "quiet_regs\<lparr>status1 := \<lambda>_. 0x30\<rparr>" 2]
    by (auto simp: busy_eth_fields) (auto simp: busy_eth_def)
  then obtain e where "es' = [e]" "snd e = 12" "fst e = eot_at (busy_eth 0x30) 3 (blank_dd\<lparr>addrlow := 0x300\<rparr>)"
    by (cases es') auto
  then show ?thesis using s' by (cases e) (auto simp: eot_at_def busy_eth_fields blank_dd_def)
qed

text \<open>
  C38: rotating when the device has not moved from the first descriptor, with packets in the ring, puts
  every one of them to its own place and clears it after: all packet pointers are null while both
  indices stay, so the packets are never freed.
\<close>

theorem rotate_nowhere_loses:
  assumes "tx_holds s es" "d64txregs s = Some q" "rotate_to s (status1 q (reads q)) = txin s"
  shows "\<exists>s'. dma64_txrotate s = Some s' \<and> set (txp s') = {0} \<and> txin s' = txin s \<and> txout s' = txout s \<and> heap s' = heap s"
proof -
  obtain s1 where w: "R_status1 DMA_TX s = Some (status1 q (reads q), s1)"
    using assms(2) by (simp add: R_status1_def)
  have "unat (ntxd s) \<noteq> 0" using assms(1) ring_sizeD(1) by (auto simp: tx_holds_unfold)
  then show ?thesis using txrotate_nowhere [OF assms(1) w assms(3)] by (auto simp del: unat_eq_zero)
qed

lemma rotate_nowhere_loses_witness:
  "\<exists>s'. dma64_txrotate (busy_eth 0x10) = Some s' \<and> 12 \<in> set (txp (busy_eth 0x10)) \<and> set (txp s') = {0} \<and> txin s' = 1 \<and> txout s' = 2"
proof -
  obtain s' where "dma64_txrotate (busy_eth 0x10) = Some s'" "set (txp s') = {0}" "txin s' = txin (busy_eth 0x10)"
    "txout s' = txout (busy_eth 0x10)"
    using rotate_nowhere_loses [OF busy_eth_holds [of "0x10"], of "quiet_regs\<lparr>status1 := \<lambda>_. 0x10\<rparr>"] busy_eth_fields
    by (auto simp: busy_eth_def)
  moreover have "12 \<in> set (txp (busy_eth 0x10))" "txin (busy_eth 0x10) = 1" "txout (busy_eth 0x10) = 2"
    by (simp_all add: busy_eth_def eth_def eval_nat_numeral)
  ultimately show ?thesis by auto
qed

text \<open>
  C37: a packet none of whose buffers has anything in it is accepted, but overwrites the packet posted
  before it: the last descriptor in use gets its end flags alone, without the start flag, and its packet
  pointer, and the packet that stood there is never handed back.
\<close>

theorem empty_packet_overwrites:
  assumes "tx_holds s (es @ [(dd, q)])" "skb_chain (heap s) p bs" "\<forall>a\<in>set bs. buf_len s a = 0" "p \<noteq> 0"
    "length es + 2 < unat (ntxd s)"
  shows "\<exists>s'. dma64_txfast dmap p False s = Some (0, s') \<and>
    tx_holds s' (es @ [(dd\<lparr>ctrl1 := D64_CTRL1_IOC OR D64_CTRL1_EOF\<rparr>, p)]) \<and> heap s' = heap s"
  by (rule txfast_empty [OF assms])

lemma empty_packet_overwrites_witness:
  "\<exists>s' dd. dma64_txfast same_addr 13 False (busy_eth 0) = Some (0, s') \<and> tx_holds (busy_eth 0) [(dd, 12)] \<and>
    tx_holds s' [(dd\<lparr>ctrl1 := D64_CTRL1_IOC OR D64_CTRL1_EOF\<rparr>, 13)]"
proof -
  have h: "heap (busy_eth 0) = heap eth" by (simp add: busy_eth_def)
  have "\<forall>a\<in>set [13]. buf_len (busy_eth 0) a = 0" using eth_buf(4) by (simp add: buf_len_def h)
  then show ?thesis
    using empty_packet_overwrites [of "busy_eth 0" "[]" "blank_dd\<lparr>addrlow := 0x300\<rparr>" 12 13 "[13]" same_addr]
      busy_eth_holds [of 0] eth_chain(3) by (auto simp: h busy_eth_fields)
qed

section \<open>Descriptors and resets\<close>

text \<open>
  C24: a descriptor written with parity on has an even number of bits set, its address, flags and count are
  the ones asked for, and no other descriptor of the ring changes.
\<close>

theorem descriptor_parity_even:
  assumes "dmactrlflags s AND DMA_CTRL_PEN \<noteq> 0" "dma64_dd_upd s ring pa i flags len = Some ring'"
  shows "i < length ring \<and> length ring' = length ring \<and> (\<forall>j. j \<noteq> i \<longrightarrow> ring' ! j = ring ! j) \<and>
    even (bits_set (ring' ! i)) \<and> ctrl1 (ring' ! i) = flags \<and>
    ctrl2 (ring' ! i) AND D64_CTRL2_BC_MASK = len AND D64_CTRL2_BC_MASK \<and> describes s (ring' ! i) pa flags len"
proof -
  have r: "i < length ring" "ring' = ring[i := dma64_dd s pa flags len]"
    using assms(2) by (auto simp: dma64_dd_upd_def wr_def split: if_splits)
  have "ctrl1 (dma64_dd s pa flags len) = flags" "ctrl2 (dma64_dd s pa flags len) AND D64_CTRL2_BC_MASK = len AND D64_CTRL2_BC_MASK"
    by (simp_all add: dma64_dd_def Let_def word_ao_dist and.assoc)
  then show ?thesis using r dd_even [OF assms(1)] by (simp add: dd_describes)
qed

lemma descriptor_parity_even_witness:
  "\<exists>ring. dma64_dd_upd eth (txd64 eth) 0x100 2 D64_CTRL1_SOF 60 = Some ring \<and> even (bits_set (ring ! 2)) \<and> ctrl1 (ring ! 2) = D64_CTRL1_SOF"
proof -
  have "dmactrlflags eth AND DMA_CTRL_PEN \<noteq> 0" by (simp add: eth_def)
  moreover obtain ring where "dma64_dd_upd eth (txd64 eth) 0x100 2 D64_CTRL1_SOF 60 = Some ring"
    by (simp add: dma64_dd_upd_def wr_def) (simp add: eth_def)
  ultimately show ?thesis using descriptor_parity_even by blast
qed

text \<open>
  C25: resetting a channel always returns, after at most 1001 readings of its status for each of its
  waits, whatever the device answers. It says yes exactly when one of the last 1001 readings found the
  channel disabled; nothing but the channel's registers changes, and its control register is cleared.
\<close>

theorem reset_bounded:
  assumes "nrxd s \<noteq> 0" "d64rxregs s = Some r" "ntxd s \<noteq> 0" "d64txregs s = Some q"
  shows "(\<exists>k\<le>1000. dma64_rxreset s = Some (seen_disabled r 1000, s\<lparr>d64rxregs := Some ((later (Suc k) r)\<lparr>control := 0\<rparr>)\<rparr>)) \<and>
    (\<exists>j k. j \<le> 1000 \<and> k \<le> 1000 \<and>
      dma64_txreset s = Some (seen_disabled (later (Suc j) q) 1000, s\<lparr>d64txregs := Some ((later (Suc j + Suc k) q)\<lparr>control := 0\<rparr>)\<rparr>) \<and>
      (j = 1000 \<or> state_at q (reads q + j) \<in> {D64_XS0_XS_DISABLED, D64_XS0_XS_IDLE, D64_XS0_XS_STOPPED}))"
  using rxreset_law [OF assms(1,2)] txreset_law [OF assms(3,4)] by blast

lemma reset_bounded_witness:
  "\<exists>s1 s2. dma64_rxreset eth = Some (True, s1) \<and> dma64_txreset eth = Some (True, s2)"
proof -
  have "seen_disabled (later k quiet_regs) 1000" "seen_disabled quiet_regs 1000" for k
    by (auto simp: seen_disabled_def state_at_def quiet_regs_def)
  moreover have "nrxd eth \<noteq> 0" "ntxd eth \<noteq> 0" by (simp_all add: eth_def)
  ultimately show ?thesis using reset_bounded [of eth quiet_regs quiet_regs] eth_holds(3,4) by auto
qed

section \<open>Receiving\<close>

lemma rx_frame_take:
  "rx_frame multi ro B hdr ps = Some (p # qs, ds) \<Longrightarrow> \<exists>ps'. qs = rx_take (uint (hdr p) - (B - ro)) B ps'"
proof (induction multi ro B hdr ps arbitrary: ds rule: rx_frame.induct)
  case (2 multi ro B hdr a ps)
  show ?case
  proof (cases "uint (hdr a) - (B - ro) \<le> 0 \<or> multi")
    case True
    then show ?thesis using "2.prems" by (force simp: Let_def split: if_splits intro: exI [of _ "[]"])
  next
    case False
    then show ?thesis using "2.IH" "2.prems" by (auto simp: Let_def split: if_splits)
  qed
qed simp

text \<open>
  C12: with \<open>d\<close> buffers filled by the device, of which the first begin a frame as the stored lengths
  say, the driver hands up that frame: its buffers chained in ring order, each but the last full, the
  lengths together those of the status header and the frame when the device has filled all of it.
  Without the flag for frames of several buffers those are freed and counted, and the next one is
  taken. The other buffers stay in the ring, which keeps its invariant.
\<close>

theorem frame_received:
  assumes "rx_ready s es" "rx_done s d" "d \<le> length es" "0 < uint (rxbufsize s)" "uint (rxoffset s) \<le> uint (rxbufsize s)"
    "rx_frame (dmactrlflags s AND DMA_CTRL_RXMULTI \<noteq> 0) (uint (rxoffset s)) (uint (rxbufsize s))
       (\<lambda>a. skb_hdr (the (heap s a))) (map snd (take d es)) = Some (p # qs, ds)"
  shows "\<exists>s'. dma_rx s = Some (p, s') \<and> rx_ready s' (drop (length (concat ds @ p # qs)) es) \<and>
    rx_done s' (d - length (concat ds @ p # qs)) \<and> rxgiants s' = rxgiants s + of_nat (length ds) \<and>
    skb_chain (heap s') p (p # qs) \<and> (\<forall>a\<in>set (concat ds). heap s' a = None) \<and>
    (let l = uint (skb_hdr (the (heap s p))); B = uint (rxbufsize s); ro = uint (rxoffset s);
         lens = map (\<lambda>a. uint (skb_len (the (heap s' a)))) (p # qs)
     in lens = min (ro + l) B # rx_lens (l - (B - ro)) B qs \<and>
        (ro + l \<le> B * int (length (p # qs)) \<longrightarrow> sum_list lens = ro + l))"
proof -
  have h: "rx_holds s es" "clean_bufs (heap s) (map snd es)" using assms(1) by (simp_all add: rx_ready_def)
  obtain s' where s': "dma_rx s = Some (p, s')" "rx_result s es d (p # qs) ds s'"
    using dma_rx_law [OF assms(4,5) h(1) assms(2,3) h(2) rx_same_refl refl refl assms(6)] by auto
  obtain rest where "map snd (take d es) = concat ds @ (p # qs) @ rest" using rx_frame_prefix [OF assms(6)] by blast
  moreover have "map snd es = map snd (take d es) @ map snd (drop d es)" by (simp add: map_append [symmetric])
  ultimately have pre: "map snd es = concat ds @ (p # qs) @ (rest @ map snd (drop d es))" by simp
  let ?l = "uint (skb_hdr (the (heap s p)))" and ?B = "uint (rxbufsize s)" and ?ro = "uint (rxoffset s)"
  obtain ps' where qs: "qs = rx_take (?l - (?B - ?ro)) ?B ps'" using rx_frame_take [OF assms(6)] by blast
  have sum: "min (?ro + ?l) ?B + sum_list (rx_lens (?l - (?B - ?ro)) ?B qs) = ?ro + ?l" if "?ro + ?l \<le> ?B * int (length (p # qs))"
  proof (cases "?l - (?B - ?ro) \<le> 0")
    case True
    then have "qs = []" using qs by (cases ps') auto
    then show ?thesis using True by simp
  next
    case False
    then show ?thesis using rx_lens_sum [OF assms(4) _ _ qs] that by (simp add: algebra_simps)
  qed
  have lens: "map (\<lambda>a. uint (skb_len (the (heap s' a)))) (p # qs) = min (?ro + ?l) ?B # rx_lens (?l - (?B - ?ro)) ?B qs"
    using s'(2) by (simp add: rx_result_def Let_def)
  have "rx_done s' (d - length (concat ds @ p # qs))" "rxgiants s' = rxgiants s + of_nat (length ds)" "skb_chain (heap s') p (p # qs)"
    "\<forall>a\<in>set (concat ds). heap s' a = None"
    using s'(2) by (simp_all add: rx_result_def)
  moreover have "let l = ?l; B = ?B; ro = ?ro; lens = map (\<lambda>a. uint (skb_len (the (heap s' a)))) (p # qs)
     in lens = min (ro + l) B # rx_lens (l - (B - ro)) B qs \<and> (ro + l \<le> B * int (length (p # qs)) \<longrightarrow> sum_list lens = ro + l)"
    unfolding Let_def lens using sum by simp
  ultimately show ?thesis using s'(1) rx_result_ready [OF assms(1) s'(2) pre] by blast
qed

text \<open>The engine with two buffers filled with a frame of 120 bytes behind a header of 30.\<close>

definition filled_eth :: dma_st where
  "filled_eth = eth\<lparr>dmactrlflags := DMA_CTRL_RXMULTI, rxp := [19, 20, 0, 0], rxout := 2,
     d64rxregs := Some (quiet_regs\<lparr>status0 := \<lambda>_. 0x20\<rparr>),
     heap := [19 \<mapsto> \<lparr>skb_data = 0x500, skb_len = 100, skb_next = 0, skb_hdr = 120\<rparr>,
       20 \<mapsto> \<lparr>skb_data = 0x600, skb_len = 100, skb_next = 0, skb_hdr = 7\<rparr>]\<rparr>"

lemma filled_eth_ready: "rx_ready filled_eth [(blank_dd, 19), (blank_dd, 20)]" "rx_done filled_eth 2"
proof -
  have [simp]: "replicate 4 x = [x, x, x, x]" "replicate 2 x = [x, x]" for x :: 'x by (simp_all add: eval_nat_numeral)
  show "rx_ready filled_eth [(blank_dd, 19), (blank_dd, 20)]"
    by (simp add: rx_ready_def rx_holds_def ring_holds_def ring_size_4 filled_eth_def eth_def clean_bufs_def)
  show "rx_done filled_eth 2"
    by (simp add: rx_done_def filled_eth_def eth_def quiet_regs_def B2I_def)
qed

lemma frame_received_witness:
  "\<exists>s'. dma_rx filled_eth = Some (19, s') \<and> skb_chain (heap s') 19 [19, 20] \<and> rx_ready s' [] \<and>
    uint (skb_len (the (heap s' 19))) = 100 \<and> uint (skb_len (the (heap s' 20))) = 50"
proof -
  have par: "dmactrlflags filled_eth AND DMA_CTRL_RXMULTI \<noteq> 0" "uint (rxoffset filled_eth) = 30" "uint (rxbufsize filled_eth) = 100"
    "uint (skb_hdr (the (heap filled_eth 19))) = 120" "skb_hdr (the (heap filled_eth 19)) \<noteq> 0"
    by (simp_all add: filled_eth_def eth_def)
  have "rx_frame (dmactrlflags filled_eth AND DMA_CTRL_RXMULTI \<noteq> 0) (uint (rxoffset filled_eth)) (uint (rxbufsize filled_eth))
       (\<lambda>a. skb_hdr (the (heap filled_eth a))) (map snd (take 2 [(blank_dd, 19), (blank_dd, 20)])) = Some (19 # [20], [])"
    using par by simp
  from frame_received [OF filled_eth_ready _ _ _ this] par show ?thesis by (auto simp: Let_def)
qed

text \<open>
  C23: filling tops the ring up to the number of buffers to keep posted, or as far as memory reaches:
  each buffer gets a descriptor of its own behind the ones before, describing it: its bus address, the buffer's size as its count
  and the end-of-table flag at the last place; the stored length of a new buffer is 0, a failed
  allocation is counted, and the device is given the new end of the ring.
\<close>

theorem rxfill_tops_up:
  assumes "rx_ready s es" "length es \<le> unat (nrxpost s)" "unat (nrxpost s) < unat (nrxd s)"
    "dmactrlflags s AND DMA_CTRL_USB_WAR = 0" "unat (rxbufsize s) + unat (rx_extra s) < 2 ^ 32" "d64rxregs s \<noteq> None"
    "k = grants (os s) (unat (nrxpost s) - length es)"
  shows "\<exists>e s'. dma_rxfill dmap where_at s = Some (e, s') \<and>
    rx_ready s' (es @ rx_new dmap where_at (rx_extra s) s (unat (rxout s)) (mem_seq (os s)) k) \<and>
    unat (dma_rxactive s') = length es + k \<and>
    (\<forall>j<k. let a = mem_seq (os s) + Suc j; e = rx_new dmap where_at (rx_extra s) s (unat (rxout s)) (mem_seq (os s)) k ! j in
       snd e = a \<and> describes s (fst e) (dmap (where_at a + rx_extra s) (ucast (rxbufsize s)))
         (if (unat (rxout s) + j) mod unat (nrxd s) + 1 = unat (nrxd s) then D64_CTRL1_EOT else 0) (ucast (rxbufsize s))) \<and>
    (\<forall>a. heap s' a = (if mem_seq (os s) < a \<and> a \<le> mem_seq (os s) + k then Some (rx_skb s where_at (rx_extra s) a) else heap s a)) \<and>
    rxnobuf s' = rxnobuf s + (if length es + k < unat (nrxpost s) then 1 else 0) \<and>
    map_option ptr (d64rxregs s') = Some (rcvptrbase s + 16 * ucast (rxout s'))"
proof -
  obtain e s' where s': "dma_rxfill dmap where_at s = Some (e, s')"
    "rx_ready s' (es @ rx_new dmap where_at (rx_extra s) s (unat (rxout s)) (mem_seq (os s)) k)"
    "\<forall>a. heap s' a = (if mem_seq (os s) < a \<and> a \<le> mem_seq (os s) + k then Some (rx_skb s where_at (rx_extra s) a) else heap s a)"
    "rxnobuf s' = rxnobuf s + (if k < unat (nrxpost s) - length es then 1 else 0)"
    "map_option ptr (d64rxregs s') = Some (rcvptrbase s + 16 * ucast (rxout s'))"
    using rxfill_law [OF assms(1-6), of dmap where_at] unfolding assms(7) by blast
  have "rx_holds s' (es @ rx_new dmap where_at (rx_extra s) s (unat (rxout s)) (mem_seq (os s)) k)"
    using s'(2) by (simp add: rx_ready_def)
  then have "unat (dma_rxactive s') = length es + k" using rx_count by fastforce
  moreover have "k < unat (nrxpost s) - length es \<longleftrightarrow> length es + k < unat (nrxpost s)" using assms(2) by linarith
  moreover have "unat (rxout s) < unat (nrxd s)"
    using assms(1) by (auto simp: rx_ready_def rx_holds_def dest: ring_holds_ends)
  then have "\<forall>j<k. let a = mem_seq (os s) + Suc j; e = rx_new dmap where_at (rx_extra s) s (unat (rxout s)) (mem_seq (os s)) k ! j in
       snd e = a \<and> describes s (fst e) (dmap (where_at a + rx_extra s) (ucast (rxbufsize s)))
         (if (unat (rxout s) + j) mod unat (nrxd s) + 1 = unat (nrxd s) then D64_CTRL1_EOT else 0) (ucast (rxbufsize s))"
    by (simp add: rx_new_nth Let_def dd_describes)
  ultimately show ?thesis using s' by (intro exI [of _ e] exI [of _ s']) simp
qed

lemma rxfill_tops_up_witness:
  "\<exists>e s'. dma_rxfill same_addr (\<lambda>a. 0x500) eth = Some (e, s') \<and> unat (dma_rxactive s') = 2 \<and> rxnobuf s' = 0 \<and>
    map_option skb_len (heap s' 22) = Some 100"
proof -
  have r: "rx_ready eth []" using eth_holds(2) by (simp add: rx_ready_def clean_bufs_def) (simp add: eth_def)
  have p: "unat (nrxpost eth) = 2" "unat (nrxd eth) = 4" "dmactrlflags eth AND DMA_CTRL_USB_WAR = 0" "rx_extra eth = 0" "rxbufsize eth = 100"
    "rxnobuf eth = 0" "mem_seq (os eth) = 20"
    by (simp_all add: eth_def rx_extra_def)
  have "unat (nrxpost eth) - length [] = Suc (Suc 0)" by (simp add: p)
  moreover have "grants (os eth) (Suc (Suc 0)) = 2" unfolding grants_Suc by (simp add: eth_def)
  ultimately have k: "2 = grants (os eth) (unat (nrxpost eth) - length [])" by metis
  obtain e s' where s': "dma_rxfill same_addr (\<lambda>a. 0x500) eth = Some (e, s')" "unat (dma_rxactive s') = length [] + 2"
    "rxnobuf s' = rxnobuf eth + (if length [] + 2 < unat (nrxpost eth) then 1 else 0)"
    "\<forall>a. heap s' a = (if mem_seq (os eth) < a \<and> a \<le> mem_seq (os eth) + 2 then Some (rx_skb eth (\<lambda>a. 0x500) (rx_extra eth) a) else heap eth a)"
    using rxfill_tops_up [OF r _ _ p(3) _ _ k, of same_addr "\<lambda>a. 0x500"] p eth_holds(4) by auto
  have "map_option skb_len (heap s' 22) = Some 100" using s'(4) p by (simp add: rx_skb_def)
  then show ?thesis using s' p by (intro exI [of _ e] exI [of _ s']) simp
qed

end
