(* ===== verification/Spec2Isabelle.thy ===== *)
theory Spec2Isabelle
  imports Multicast_Properties Store_Properties Utility_Properties Timer_Properties Boot_Properties Dma_Properties
begin

text \<open>
  \<^bold>\<open>A verification development of the wl500g router firmware.\<close>

  The repository builds the firmware of a family of Broadcom routers. Most of it is a patched kernel
  and third-party programs. What is modelled here is the vendor's and the project's own code whose behaviour
  does not depend on undocumented registers: the multicast forwarding and snooping modules, the
  variable store with its flash driver, the utilities the drivers share, the descriptor rings of the DMA engines, and the
  user-space timers. File
  names below are under \<open>src/brcm-src-2.6\<close> unless they start with \<open>src/\<close>.

  \<^bold>\<open>The parts and how they interact.\<close>

  \<^item> \<open>emf/emf/emfc.c\<close>, efficient multicast forwarding (EMF): for every bridge a database of multicast groups and their member
    interfaces, and a list of ports that get all or all unregistered frames. \<open>emfc_input\<close> sees every
    multicast frame, hands IGMP frames to the snooper and forwards data frames. Theories \<open>Emf_Data\<close> (data and
    hash table), \<open>Emf_Mfdb\<close> (database, one-entry lookup cache), \<open>Emf_Iflist\<close> (port list), \<open>Emf_Input\<close> (input path),
    \<open>Emf_Config\<close> (requests of the user-space tools, set-up and removal, also of the snooper).
  \<^item> \<open>emf/igs/igsc.c\<close>, \<open>emf/igs/igsc_sdb.c\<close>, the IGMP snooper (IGS): parses IGMP versions 1 to 3 and keeps the hosts of
    each group and the routers, each with a timer of \<open>emf/igs/osl_linux.c\<close>; the timers of the routers are objects of their own (\<open>rt_timers\<close>), as they
    outlive the entries they point to. The first and last host of an interface in a group enter the
    interface into EMF's database and take it out, a router makes its port a router port. Theories \<open>Igs_Data\<close>,
    \<open>Igs_Sdb\<close>, \<open>Igs_Rtlist\<close>, \<open>Igs_Input\<close>, \<open>Osl_Timer\<close>.
  \<^item> \<open>shared/nvram/nvram.c\<close>, the variable store: a hash table of name and value, read from and written to a flash
    image with a checksum (\<open>Nvram\<close>). Its port to a platform allocates the tuples: \<open>nvram_linux.c\<close> of the kernel (\<open>Nvram_Linux\<close>, \<open>Nvram_Flash\<close>)
    in a buffer user space maps, \<open>shared/nvram/nvram_rw.c\<close> of the boot loader (\<open>Nvram_Boot\<close>) in blocks. The kernel commits through the
    MTD device of \<open>shared/sflash.c\<close> and \<open>kernel/drivers/mtd/devices/sflash.c\<close> (\<open>Sflash\<close>), and what either port commits the other reads.
  \<^item> \<open>shared/bcmutils.c\<close>, used by all of these and the wireless driver: checksums (\<open>Bcm_Crc\<close>), characters and numbers (\<open>Bcm_Str\<close>), packet queues
    (\<open>Pktq\<close>), chains of buffers (\<open>Bcm_Pkt\<close>), information elements (\<open>Bcm_Tlv\<close>), board variables and pins (\<open>Bcm_Vars\<close>), which fall
    back on the variable store, and conversions, I/O variables and bounded prints (\<open>Bcm_Conv\<close>).
  \<^item> \<open>shared/hnddma.c\<close>, the DMA engines of the Ethernet and wireless cores: a ring of descriptors and an array of packet pointers beside it for
    each direction. Theories \<open>Dma_Ring\<close> (the index macros and views of a ring), \<open>Dma64\<close> (\<open>dma_info_t\<close>, registers, descriptors, flags), \<open>Dma64_Tx\<close> (posting,
    reclaiming and rotating, resets), \<open>Dma64_Rx\<close> (filling, taking buffers, putting frames together). Packets are freed and allocated by \<open>shared/linux_osl.c\<close>.
  \<^item> \<open>src/shared/linux_timer.c\<close>, timers of the user-space daemons over the process's one interval timer (\<open>User_Timer\<close>): the
    pending timers form a list of delays, each counted from the timer before it.

  \<^bold>\<open>How the code is modelled.\<close>

  \<^item> A structure is a record with the code's fields, an operation a function from the state to the new state and the
    code's result. Machine integers that can wrap are words of their width (the seconds of the user timers excepted, which are unbounded); lengths and times within proved bounds are \<open>nat\<close> or
    \<open>int\<close>. Strings and buffers are lists of bytes.
  \<^item> \<open>None\<close> is what the code must not do: follow a null or dangling pointer, read or write outside a buffer, end the process, or loop
    for ever. Errors the code reports are results. A theorem that an operation gives \<open>Some\<close> says it returns and is memory safe.
  \<^item> Lists the code keeps by pointers are either lists of records named by a unique key, where no pointer outlives its entry (the databases), or maps from
    addresses with explicit links, where the pointers are what matters (packet queues, user timers); \<open>Chains\<close> relates links and lists.
  \<^item> \<open>MALLOC\<close> may fail at any call: the handle \<open>osl\<close> of \<open>Router_Prelude\<close> counts the calls and says which fail. A theorem that
    needs memory says \<open>mem_reliable\<close>.
  \<^item> Locks are not modelled: an operation runs without interruption. Timers and frames interleave as steps of a state machine
    (\<open>Igs_Steps\<close>), labelled by whether an interface was removed with a router on it. For the user timers the blocking of the signal is part of the state.
  \<^item> Code that is not in the repository is an argument: bridge and IP stack as transmit logs, the flash registers as a model of the chip that
    follows the repository's register header, boot loader routines by what is handed to them, the functions timers call, the bus address of a buffer. The
    status registers of a DMA channel are arbitrary functions from the number of the reading to the answer; its other registers hold the implemented
    ones of the bits written. Bus addresses have 32 bits, and the CPU is little-endian. Assertions are compiled out, as in the release build, and debug output is left out.

  \<^bold>\<open>Loops.\<close> Loops over lists are structural; loops with a decreasing bound are functions with their measure. Loops that
  may not end are \<open>partial_function\<close>s, so that not ending is \<open>None\<close>: the walks over linked packets and
  events, the erase and write loops of the flash, whose ends are proved from the geometry of the chip, and the loop of the
  alarm handler, for which it is proved when it ends and when it does not, and the walks round the DMA rings, whose ends are
  proved from the ring's size. There is no fuel; the one bound that is an argument, the number of polls
  within the flash timeout (\<open>lim\<close> in \<open>Sflash\<close>), is arbitrary in every theorem.

  \<^bold>\<open>Interfaces and what the lemmas show.\<close>

  \<^item> \<open>Hash_Chain\<close>: locale \<open>hash_chain\<close>, the chained hash table; interpreted for the forwarding database, the snooping database and the
    variable table. \<open>Ref_Count\<close>: locale \<open>ref_count\<close>, a registry that counts references; interpreted for router ports, flooding ports and group members.
  \<^item> \<open>Igs_Sdb_Inv\<close>, \<open>Igs_Sdb_Join\<close>, \<open>Igs_Sdb_Walk\<close>, \<open>Igs_Sdb_Laws\<close>, \<open>Igs_Rtlist_Laws\<close>, \<open>Igs_Input_Laws\<close>, \<open>Emf_Input_Laws\<close>, \<open>Emf_Config_Laws\<close>: the invariants of the two
    layers and their agreement, kept by every operation; what each operation does to the sets of hosts and routers; what leaves the instance for
    a frame; the parsing of encoded reports. \<open>Multicast_Properties\<close> states the results.
  \<^item> \<open>Nvram_Laws\<close>: locale \<open>nvram_alloc\<close>, the port's allocation, under which the table refines a map; \<open>Nvram_Store\<close> extends it to \<open>nvram_space\<close>, under
    which reading loads every variable and a commit keeps what fits; both ports are interpretations. \<open>Nvram_Image\<close>: the format of the image. \<open>Nvram_Flash\<close>: locales \<open>nor_mtd\<close> and
    \<open>live_mtd\<close>, a flash device; \<open>Sflash_Laws\<close> and \<open>Sflash_Mtd\<close> discharge them for the driver (\<open>st_flash\<close>, \<open>st_flash_live\<close>, instantiated for an ST M25P64). \<open>Nvram_Flash_Laws\<close>,
    \<open>Nvram_Commit\<close>: every state of the device during a commit, and reading back. \<open>Nvram_Early\<close>: access before the device is up, the memory parameters in the header, the retry of
    \<open>nvram_set\<close>, the character device. \<open>Store_Properties\<close> and \<open>Boot_Properties\<close> state the results.
  \<^item> \<open>Simulation\<close>: locale \<open>simulation\<close>, from steps to sequences of requests; \<open>Pktq_Laws\<close> and \<open>Pktq_Queue\<close> interpret it for the packet queues against a list of lists.
    \<open>Bcm_Conv_Laws\<close>: round trips and the bounded prints. \<open>Utility_Properties\<close> states the results.
  \<^item> \<open>User_Timer_Laws\<close>: times in microseconds, the march down the list as insertion into a list of delays. \<open>Timer_Ops_Laws\<close>, \<open>Timer_Cancel_Laws\<close>:
    the time each timer is due after setting and cancelling, and the pool of events. \<open>Timer_Alarm_Laws\<close>: the alarm as rounds on the list of delays.
    \<open>Timer_Properties\<close> states the results.
  \<^item> \<open>Dma_Tx_Laws\<close>, \<open>Dma_Post_Laws\<close>: a ring seen from its first entry as a list; taking, freeing and posting as operations on that list.
    \<open>Dma_Tx_Queue\<close> interprets \<open>simulation\<close> for the transmit ring against a queue of packets. \<open>Dma_Rotate_Laws\<close>: rotating, also by nothing. \<open>Dma_Rx_Laws\<close>,
    \<open>Dma_Fill_Laws\<close>: frames of several buffers, posting buffers. \<open>Dma_Parity\<close>: folding a word computes its parity, and what a descriptor says field by field (\<open>describes\<close>). \<open>Dma_Reset_Laws\<close>: the number of
    readings a wait takes. Ring sizes are powers of two up to 512, as the masking of the indices and the 13-bit registers need.
    \<open>Dma_Properties\<close> states the results.

  \<^bold>\<open>Findings.\<close> Some theorems state what the code does where it is not what its comments or headers say or what
  it can be meant to do: stale timers after an interface is removed, a router port that stays after its
  routers are gone, a queue whose tail is a freed packet, a request read behind its buffer, cancelling a timer that shifts the
  others, a rounded time the kernel refuses, an alarm handler that does not return, an empty packet that
  overwrites the one before it, a rotation by nothing that loses every packet. A version 2 report for group 0.0.0.0 meets the mark of
  the empty lookup cache, so the state machine of the snooper leaves it out.

  \<^bold>\<open>Not modelled.\<close>

  \<^item> The Linux glue of the multicast modules (\<open>emf_linux.c\<close>, \<open>igs_linux.c\<close>): socket buffers, netfilter hooks, netlink and proc files, calls of the
    kernel with little state of their own.
  \<^item> Of \<open>bcmutils.c\<close> the debug output and tables of names; of \<open>nvram_linux.c\<close> the registration and removal of the device; of the boot loader's port NAND flash and eCos.
  \<^item> Of \<open>hnddma.c\<close> attaching and allocating the rings (calls of the backplane code and of the bus), 32-bit engines, unframed transfers and
    scatter lists (compiled out), dumps.
  \<^item> \<open>siutils.c\<close> and the other backplane files, the Ethernet driver \<open>bcm57xx\<close>: their effects are hardware registers whose behaviour is not
    in the repository.
  \<^item> The camera and exFAT drivers under \<open>src/kernel-2.6\<close> and the applications under \<open>src\<close>: third-party code that the project only patches and packages.
\<close>

end
